(* ===== verification/Prelude.thy ===== *)
theory Prelude
  imports
    Main
    "HOL-Library.AList"
    "HOL-Library.Char_ord"
    "HOL-Library.List_Lexorder"
    "HOL-Library.Product_Lexorder"
    "HOL-Library.Option_ord"
begin

text \<open>
  Shared vocabulary of the development: Python strings, dictionaries built from pair
  sequences, the \<open>sorted(set(...))\<close> and \<open>max(..., default=0)\<close> idioms, and the generic
  lemmas on them. Strings are lists of characters ordered lexicographically by code
  (\<open>HOL-Library.List_Lexorder\<close>), which is Python's string order; tuples compare
  lexicographically (\<open>Product_Lexorder\<close>). Characters are read as ASCII: the character
  classes below are those of Python restricted to ASCII text.
\<close>

type_synonym str = string

named_theorems dict_simps \<open>lookups in dictionaries\<close>
named_theorems sort_simps \<open>members of sorted and deduplicated lists\<close>

section \<open>Dictionaries\<close>

text \<open>
  A dictionary comprehension over a sequence of pairs keeps the last value of a repeated
  key: \<open>dict_get ps k\<close> is the value at \<open>k\<close> of the dictionary built from \<open>ps\<close>.
\<close>

definition dict_get :: "('k \<times> 'v) list \<Rightarrow> 'k \<Rightarrow> 'v option" where
  "dict_get ps k = map_of (rev ps) k"

text \<open>\<open>sorted(set(xs))\<close>, also used for \<open>sorted(d)\<close> over the keys of a dictionary.\<close>

definition sorted_set :: "'a::linorder list \<Rightarrow> 'a list" where
  "sorted_set xs = sort (remdups xs)"

text \<open>\<open>d.get(k, 0)\<close> on a dictionary that is updated in place.\<close>

definition get0 :: "('k \<times> int) list \<Rightarrow> 'k \<Rightarrow> int" where
  "get0 d k = (case map_of d k of None \<Rightarrow> 0 | Some v \<Rightarrow> v)"

lemma dict_get_Nil [dict_simps]: "dict_get [] k = None"
  by (simp add: dict_get_def)

lemma dict_get_in_set: "dict_get ps k = Some v \<Longrightarrow> (k, v) \<in> set ps"
  by (auto simp: dict_get_def dest: map_of_SomeD)

lemma dict_get_None_iff [dict_simps]: "dict_get ps k = None \<longleftrightarrow> k \<notin> fst ` set ps"
  by (simp add: dict_get_def map_of_eq_None_iff)

lemma dict_get_distinct:
  "distinct (map fst ps) \<Longrightarrow> dict_get ps k = Some v \<longleftrightarrow> (k, v) \<in> set ps"
  by (simp add: dict_get_def rev_map [symmetric])

lemma dict_get_Some_of_mem: "k \<in> fst ` set ps \<Longrightarrow> \<exists>v. dict_get ps k = Some v"
  by (metis dict_get_None_iff option.exhaust)

text \<open>The key of a record is a projection of the record itself.\<close>

lemma dict_get_key:
  "dict_get (map (\<lambda>x. (f x, x)) xs) k = Some v \<Longrightarrow> f v = k \<and> v \<in> set xs"
  by (drule dict_get_in_set) auto

lemma dict_get_key_distinct:
  assumes "distinct (map f xs)" "x \<in> set xs"
  shows "dict_get (map (\<lambda>x. (f x, x)) xs) (f x) = Some x"
proof -
  have "distinct (map fst (map (\<lambda>x. (f x, x)) xs))"
    using assms(1) by (simp add: comp_def)
  then show ?thesis
    using assms(2) by (subst dict_get_distinct) auto
qed

lemma dict_get_key_mem: "x \<in> set xs \<Longrightarrow> \<exists>v. dict_get (map (\<lambda>x. (f x, x)) xs) (f x) = Some v"
  by (rule dict_get_Some_of_mem) force

lemma set_sorted_set [sort_simps, simp]: "set (sorted_set xs) = set xs"
  by (simp add: sorted_set_def)

lemma sorted_sorted_set [simp]: "sorted (sorted_set xs)"
  by (simp add: sorted_set_def)

lemma distinct_sorted_set [simp]: "distinct (sorted_set xs)"
  by (simp add: sorted_set_def)

lemma sorted_set_Nil_iff [simp]: "sorted_set xs = [] \<longleftrightarrow> xs = []"
  by (metis set_empty set_sorted_set)

lemma sorted_set_Nil [simp]: "sorted_set [] = []"
  by (simp add: sorted_set_def)

lemma sorted_set_cong: "set xs = set ys \<Longrightarrow> sorted_set xs = sorted_set ys"
  by (rule sorted_distinct_set_unique) simp_all

lemma get0_update [dict_simps]: "get0 (AList.update k v d) j = (if j = k then v else get0 d j)"
  by (simp add: get0_def update_conv')

lemma get0_delete [dict_simps]: "get0 (AList.delete k d) j = (if j = k then 0 else get0 d j)"
  by (simp add: get0_def delete_conv')

lemma get0_Nil [dict_simps, simp]: "get0 [] k = 0"
  by (simp add: get0_def)

lemma find_SomeD: "List.find P xs = Some x \<Longrightarrow> P x \<and> x \<in> set xs"
  by (auto simp: find_Some_iff)

section \<open>Aggregates\<close>

text \<open>\<open>max(xs, default=0)\<close>.\<close>

fun py_max :: "int list \<Rightarrow> int" where
  "py_max [] = 0"
| "py_max (x # xs) = fold max xs x"

lemma fold_max_ge: "(x::int) \<le> fold max xs x" "y \<in> set xs \<Longrightarrow> y \<le> fold max xs x"
  by (induction xs arbitrary: x) (auto intro: order_trans [OF max.cobounded2] order_trans [OF max.cobounded1])

lemma fold_max_mem: "fold max xs (x::int) \<in> insert x (set xs)"
proof (induction xs arbitrary: x)
  case (Cons a xs)
  then show ?case
    using Cons.IH [of "max a x"] by (auto simp: max_def)
qed simp

lemma py_max_ge: "x \<in> set xs \<Longrightarrow> x \<le> py_max xs"
  by (cases xs) (auto intro: fold_max_ge)

lemma py_max_mem: "xs \<noteq> [] \<Longrightarrow> py_max xs \<in> set xs"
  by (cases xs) (use fold_max_mem in auto)

lemma py_max_le_iff: "0 \<le> b \<Longrightarrow> py_max xs \<le> b \<longleftrightarrow> (\<forall>x \<in> set xs. x \<le> b)"
  by (metis list.set_intros(1) neq_Nil_conv order_trans py_max.simps(1) py_max_ge py_max_mem)

lemma py_max_nonneg: "\<forall>x \<in> set xs. 0 \<le> x \<Longrightarrow> 0 \<le> py_max xs"
  by (metis list.set_intros(1) order_refl py_max.elims py_max_mem list.distinct(1))

lemma fold_max_comm: "fold max xs (max a (b::int)) = max a (fold max xs b)"
proof (induction xs arbitrary: b)
  case (Cons x xs)
  have "fold max (x # xs) (max a b) = fold max xs (max a (max x b))"
    by (simp add: max.left_commute)
  then show ?case by (simp add: Cons.IH)
qed simp

lemma py_max_snoc: "\<forall>x \<in> set xs. 0 \<le> x \<Longrightarrow> 0 \<le> y \<Longrightarrow> py_max (xs @ [y]) = max (py_max xs) y"
  by (cases xs) (auto simp: max.commute)

lemma py_max_append:
  "\<forall>x \<in> set (xs @ ys). 0 \<le> x \<Longrightarrow> py_max (xs @ ys) = max (py_max xs) (py_max ys)"
proof (induction ys rule: rev_induct)
  case Nil
  then show ?case using py_max_nonneg [of xs] by simp
next
  case (snoc y ys)
  have "py_max ((xs @ ys) @ [y]) = max (py_max (xs @ ys)) y" "py_max (ys @ [y]) = max (py_max ys) y"
    using snoc.prems by (intro py_max_snoc; simp)+
  then show ?case using snoc by (simp add: max.assoc)
qed

lemma sum_list_nonneg_int: "\<forall>x \<in> set xs. 0 \<le> f x \<Longrightarrow> 0 \<le> sum_list (map f xs :: int list)"
  by (induction xs) auto

lemma sum_list_filter_le:
  "\<forall>x \<in> set xs. (0::int) \<le> f x \<Longrightarrow> sum_list (map f (filter P xs)) \<le> sum_list (map f xs)"
  by (induction xs) auto

lemma sum_list_mono_int: "(\<And>x. x \<in> set xs \<Longrightarrow> (f x :: int) \<le> g x) \<Longrightarrow>
  sum_list (map f xs) \<le> sum_list (map g xs)"
  by (induction xs) (auto intro: add_mono)

lemma map_fst_key [simp]: "map fst (map (\<lambda>x. (f x, g x)) xs) = map f xs"
  by (simp add: comp_def)

section \<open>String operations\<close>

definition ascii_lower :: "char \<Rightarrow> char" where
  "ascii_lower c = (let n = of_char c :: nat in if 65 \<le> n \<and> n \<le> 90 then char_of (n + 32) else c)"

definition is_space :: "char \<Rightarrow> bool" where
  "is_space c = (let n = of_char c :: nat in n = 32 \<or> (9 \<le> n \<and> n \<le> 13) \<or> (28 \<le> n \<and> n \<le> 31))"

definition is_digit :: "char \<Rightarrow> bool" where
  "is_digit c = (let n = of_char c :: nat in 48 \<le> n \<and> n \<le> 57)"

text \<open>The character class \<open>[0-9a-f]\<close>.\<close>

definition is_hex :: "char \<Rightarrow> bool" where
  "is_hex c = (let n = of_char c :: nat in (48 \<le> n \<and> n \<le> 57) \<or> (97 \<le> n \<and> n \<le> 102))"

definition py_lower :: "str \<Rightarrow> str" where
  "py_lower s = map ascii_lower s"

definition py_strip :: "str \<Rightarrow> str" where
  "py_strip s = rev (dropWhile is_space (rev (dropWhile is_space s)))"

text \<open>\<open>s.startswith(p)\<close> with the rest of the string.\<close>

fun strip_prefix :: "str \<Rightarrow> str \<Rightarrow> str option" where
  "strip_prefix [] s = Some s"
| "strip_prefix (p # ps) [] = None"
| "strip_prefix (p # ps) (c # cs) = (if p = c then strip_prefix ps cs else None)"

lemma strip_prefix_Some: "strip_prefix p s = Some r \<longleftrightarrow> s = p @ r"
  by (induction p s rule: strip_prefix.induct) auto

text \<open>\<open>s.split(c)\<close> on a single character.\<close>

fun py_split :: "char \<Rightarrow> str \<Rightarrow> str list" where
  "py_split c [] = [[]]"
| "py_split c (x # xs) =
     (if x = c then [] # py_split c xs
      else (case py_split c xs of [] \<Rightarrow> [[x]] | w # ws \<Rightarrow> (x # w) # ws))"

lemma py_split_single: "c \<notin> set w \<Longrightarrow> py_split c w = [w]"
  by (induction w) auto

text \<open>\<open>s.split(c, 1)[1]\<close>: \<open>None\<close> where Python raises \<open>IndexError\<close>.\<close>

fun split_once_tail :: "char \<Rightarrow> str \<Rightarrow> str option" where
  "split_once_tail c [] = None"
| "split_once_tail c (x # xs) = (if x = c then Some xs else split_once_tail c xs)"

lemma split_once_tail_append: "c \<notin> set p \<Longrightarrow> split_once_tail c (p @ c # s) = Some s"
  by (induction p) auto

lemma is_hex_lower [simp]: "is_hex c \<Longrightarrow> ascii_lower c = c"
  by (auto simp: is_hex_def ascii_lower_def Let_def)

lemma py_lower_hex: "\<forall>c \<in> set s. is_hex c \<Longrightarrow> py_lower s = s"
  by (simp add: py_lower_def map_idI)

lemma py_lower_Nil_iff [simp]: "py_lower s = [] \<longleftrightarrow> s = []"
  by (simp add: py_lower_def)

section \<open>Errors\<close>

text \<open>Mapping with the first error, in order.\<close>

fun try_map :: "('a \<Rightarrow> 'e + 'b) \<Rightarrow> 'a list \<Rightarrow> 'e + 'b list" where
  "try_map f [] = Inr []"
| "try_map f (x # xs) =
     (case f x of
        Inl e \<Rightarrow> Inl e
      | Inr y \<Rightarrow> (case try_map f xs of Inl e \<Rightarrow> Inl e | Inr ys \<Rightarrow> Inr (y # ys)))"

lemma try_map_total: "\<forall>x\<in>set xs. \<exists>y. f x = Inr y \<Longrightarrow> \<exists>ys. try_map f xs = Inr ys"
proof (induction xs)
  case (Cons x xs)
  then obtain y ys where "f x = Inr y" "try_map f xs = Inr ys" by force
  then show ?case by simp
qed simp

lemma try_map_mem: "try_map f xs = Inr ys \<Longrightarrow> y \<in> set ys \<longleftrightarrow> (\<exists>x\<in>set xs. f x = Inr y)"
  by (induction xs arbitrary: ys) (auto split: sum.splits)

lemma try_map_total_inv: "try_map f xs = Inr ys \<Longrightarrow> x \<in> set xs \<Longrightarrow> \<exists>y. f x = Inr y"
  by (induction xs arbitrary: ys) (auto split: sum.splits)

end
