(* ===== verification/Digest.thy ===== *)
theory Digest
  imports Prelude
begin

text \<open>
  \<open>modelark/archive_hash.py\<close>: the one rule that resolves the original-byte digest of a
  stored copy from the catalog hash, the archived hash and a raw git-annex key. Errors are
  values: \<open>Conflict\<close> is \<open>DigestEvidenceConflict\<close>, \<open>Invalid\<close> is \<open>DigestEvidenceInvalid\<close>.
\<close>

text \<open>What the runtime type test of \<open>_canonical_compressed\<close> distinguishes.\<close>

datatype py_flag = PyBool bool | PyInt int | PyOther

datatype digest_error =
    Conflict "(str \<times> str) list"
  | Invalid str

text \<open>
  \<open>^SHA256E?-s\d+--([0-9a-f]{64})(?:\.|$)\<close>. The digits are matched greedily; what follows
  them is no digit, so there is nothing to backtrack into. \<open>$\<close> also accepts the position
  before one final newline.
\<close>

definition annex_tail :: "str \<Rightarrow> str option" where
  "annex_tail s =
     (let ds = takeWhile is_digit s; r = dropWhile is_digit s in
      if ds = [] then None else
      (case strip_prefix ''--'' r of
         None \<Rightarrow> None
       | Some h \<Rightarrow>
           (let d = take 64 h; rest = drop 64 h in
            if length d = 64 \<and> list_all is_hex d
               \<and> (rest = [] \<or> rest = [char_of (10::nat)] \<or> take 1 rest = ''.'')
            then Some d else None)))"

definition annex_sha256 :: "str option \<Rightarrow> str option" where
  "annex_sha256 key =
     (case strip_prefix ''SHA256'' (case key of None \<Rightarrow> [] | Some k \<Rightarrow> k) of
        None \<Rightarrow> None
      | Some r \<Rightarrow>
          (case strip_prefix ''E-s'' r of
             Some t \<Rightarrow> annex_tail t
           | None \<Rightarrow> (case strip_prefix ''-s'' r of
                        Some t \<Rightarrow> annex_tail t | None \<Rightarrow> None)))"

definition hex64_text :: "str \<Rightarrow> bool" where
  "hex64_text t \<longleftrightarrow> length t = 64 \<and> list_all is_hex t"

definition hex64 :: "str option \<Rightarrow> str option" where
  "hex64 v =
     (case v of
        None \<Rightarrow> None
      | Some s \<Rightarrow>
          (let text = py_lower (py_strip s) in
           if text = [] then None
           else if \<not> hex64_text text then None
           else Some text))"

definition present_nonempty :: "str option \<Rightarrow> bool" where
  "present_nonempty v = (case v of None \<Rightarrow> False | Some s \<Rightarrow> py_strip s \<noteq> [])"

definition canonical_compressed :: "py_flag \<Rightarrow> digest_error + bool" where
  "canonical_compressed c =
     (case c of
        PyBool b \<Rightarrow> Inr b
      | PyInt n \<Rightarrow> (if n = 0 \<or> n = 1 then Inr (n \<noteq> 0) else Inl (Invalid ''indeterminate compressed''))
      | PyOther \<Rightarrow> Inl (Invalid ''indeterminate compressed''))"

text \<open>The \<open>sources\<close> dictionary of \<open>expected_sha256\<close>, in insertion order.\<close>

definition digest_sources :: "str option \<Rightarrow> str option \<Rightarrow> str option \<Rightarrow> (str \<times> str) list" where
  "digest_sources catalog orig annex =
     (case catalog of None \<Rightarrow> [] | Some v \<Rightarrow> [(''catalog_sha'', v)])
     @ (case orig of None \<Rightarrow> [] | Some v \<Rightarrow> [(''orig_sha256'', v)])
     @ (case annex of None \<Rightarrow> [] | Some v \<Rightarrow> [(''annex_key'', v)])"

definition expected_sha256 ::
  "str option \<Rightarrow> str option \<Rightarrow> py_flag \<Rightarrow> str option \<Rightarrow> digest_error + str option" where
  "expected_sha256 catalog_sha orig_sha compressed annex_key =
     (case canonical_compressed compressed of
        Inl e \<Rightarrow> Inl e
      | Inr compressed_flag \<Rightarrow>
         (let annex = (if compressed_flag then None
                       else map_option py_lower (annex_sha256 annex_key));
              catalog = hex64 catalog_sha;
              orig = hex64 orig_sha;
              orig_malformed = present_nonempty orig_sha \<and> orig = None;
              catalog_malformed = present_nonempty catalog_sha \<and> catalog = None in
          if orig_malformed \<and> annex \<noteq> None
          then Inl (Invalid ''malformed orig_sha256 with resolvable annex'')
          else if catalog_malformed \<and> (orig \<noteq> None \<or> annex \<noteq> None)
          then Inl (Invalid ''malformed catalog_sha with other original-byte evidence'')
          else
           (let sources = digest_sources catalog orig annex;
                distinct_values = remdups (map snd sources) in
            if length distinct_values > 1 then Inl (Conflict sources)
            else if length distinct_values = 1 then Inr (Some (hd distinct_values))
            else if orig_malformed then Inr (map_option (\<lambda>s. py_lower (py_strip s)) orig_sha)
            else if catalog_malformed then Inr (map_option (\<lambda>s. py_lower (py_strip s)) catalog_sha)
            else Inr None)))"

text \<open>\<open>evidence_conflict\<close> catches the conflict only: an \<open>Invalid\<close> error still propagates.\<close>

definition evidence_conflict ::
  "str option \<Rightarrow> str option \<Rightarrow> py_flag \<Rightarrow> str option \<Rightarrow> digest_error + (str \<times> str) list option" where
  "evidence_conflict catalog_sha orig_sha compressed annex_key =
     (case expected_sha256 catalog_sha orig_sha compressed annex_key of
        Inl (Conflict s) \<Rightarrow> Inr (Some s)
      | Inl (Invalid m) \<Rightarrow> Inl (Invalid m)
      | Inr _ \<Rightarrow> Inr None)"

definition content_satisfies ::
  "str option \<Rightarrow> str option \<Rightarrow> py_flag \<Rightarrow> str option \<Rightarrow> bool" where
  "content_satisfies approved orig_sha compressed annex_key =
     (case expected_sha256 None orig_sha compressed annex_key of
        Inl _ \<Rightarrow> False
      | Inr resolved \<Rightarrow>
          (case approved of
             Some a \<Rightarrow>
               (if a \<noteq> [] then (case resolved of None \<Rightarrow> False | Some r \<Rightarrow> py_lower r = py_lower a)
                else (case resolved of None \<Rightarrow> False | Some r \<Rightarrow> r \<noteq> []))
           | None \<Rightarrow> (case resolved of None \<Rightarrow> False | Some r \<Rightarrow> r \<noteq> [])))"

section \<open>What the resolver promises\<close>

lemma hex64_Some: "hex64 v = Some t \<Longrightarrow> hex64_text t"
  by (auto simp: hex64_def Let_def split: option.splits if_splits)

lemma annex_tail_hex: "annex_tail s = Some d \<Longrightarrow> hex64_text d"
  by (auto simp: annex_tail_def hex64_text_def Let_def split: option.splits if_splits)

lemma annex_sha256_hex: "annex_sha256 k = Some d \<Longrightarrow> hex64_text d"
  by (auto simp: annex_sha256_def dest: annex_tail_hex split: option.splits)

lemma hex64_text_lower: "hex64_text t \<Longrightarrow> py_lower t = t"
  by (simp add: hex64_text_def list_all_iff py_lower_hex)

lemma hex64_text_nonempty: "hex64_text t \<Longrightarrow> t \<noteq> []"
  by (auto simp: hex64_text_def)

text \<open>The digest sources a copy resolvably has, before they are compared.\<close>

definition resolvable :: "str option \<Rightarrow> str option \<Rightarrow> bool \<Rightarrow> str option \<Rightarrow> str set" where
  "resolvable catalog_sha orig_sha compressed annex_key =
     set_option (hex64 catalog_sha) \<union> set_option (hex64 orig_sha)
     \<union> (if compressed then {} else set_option (annex_sha256 annex_key))"

lemma ascii_lower_idem [simp]: "ascii_lower (ascii_lower c) = ascii_lower c"
  by (auto simp: ascii_lower_def Let_def)

lemma py_lower_idem [simp]: "py_lower (py_lower s) = py_lower s"
  by (simp add: py_lower_def)

lemma length_remdups_gt1: "length (remdups xs) > 1 \<longleftrightarrow> (\<exists>x\<in>set xs. \<exists>y\<in>set xs. x \<noteq> y)"
proof -
  have "length (remdups xs) = card (set xs)"
    by (simp add: length_remdups_card_conv)
  moreover have "card (set xs) > 1 \<longleftrightarrow> (\<exists>x\<in>set xs. \<exists>y\<in>set xs. x \<noteq> y)"
    by (metis One_nat_def card_le_Suc0_iff_eq List.finite_set not_less)
  ultimately show ?thesis by simp
qed

lemma annex_lower_id: "map_option py_lower (annex_sha256 k) = annex_sha256 k"
  by (cases "annex_sha256 k") (auto dest: annex_sha256_hex hex64_text_lower)

lemma digest_sources_values:
  "snd ` set (digest_sources c o' a) = set_option c \<union> set_option o' \<union> set_option a"
  by (auto simp: digest_sources_def split: option.splits)

lemma distinct_sources:
  assumes "length (remdups xs) \<le> 1" "x \<in> set xs"
  shows "hd (remdups xs) = x" "length (remdups xs) = 1"
proof -
  from assms have "remdups xs \<noteq> []" by auto
  with assms(1) obtain y where y: "remdups xs = [y]"
    by (cases "remdups xs") (auto simp: le_Suc_eq)
  from assms(2) have "x \<in> set (remdups xs)" by simp
  with y show "hd (remdups xs) = x" "length (remdups xs) = 1" by simp_all
qed

lemma resolvable_alt:
  "resolvable c ov b a =
     snd ` set (digest_sources (hex64 c) (hex64 ov) (if b then None else annex_sha256 a))"
  by (simp add: resolvable_def digest_sources_values)

text \<open>All branches of the resolver on a boolean flag, with the annex key normalised.\<close>

lemma expected_sha256_PyBool:
  "expected_sha256 c ov (PyBool b) a =
     (let annex = (if b then None else annex_sha256 a);
          om = (present_nonempty ov \<and> hex64 ov = None);
          cm = (present_nonempty c \<and> hex64 c = None);
          sources = digest_sources (hex64 c) (hex64 ov) annex;
          vs = remdups (map snd sources) in
      if om \<and> annex \<noteq> None then Inl (Invalid ''malformed orig_sha256 with resolvable annex'')
      else if cm \<and> (hex64 ov \<noteq> None \<or> annex \<noteq> None)
      then Inl (Invalid ''malformed catalog_sha with other original-byte evidence'')
      else if length vs > 1 then Inl (Conflict sources)
      else if length vs = 1 then Inr (Some (hd vs))
      else if om then Inr (map_option (\<lambda>s. py_lower (py_strip s)) ov)
      else if cm then Inr (map_option (\<lambda>s. py_lower (py_strip s)) c)
      else Inr None)"
  by (simp only: expected_sha256_def canonical_compressed_def annex_lower_id py_flag.case sum.case Let_def)

lemma digest_sources_Nil: "digest_sources c ov a = [] \<longleftrightarrow> c = None \<and> ov = None \<and> a = None"
  by (auto simp: digest_sources_def split: option.splits)

lemma length_remdups_pos: "0 < length (remdups xs) \<longleftrightarrow> xs \<noteq> []"
  by (cases xs) auto

section \<open>Properties\<close>

text \<open>
  Whatever digest the resolver returns, every original-byte source that resolves (catalog
  hash, archived hash, or the annex key of an uncompressed copy) is that digest: it never
  picks one side of a disagreement.
\<close>

theorem expected_sha256_agrees:
  assumes "expected_sha256 c ov (PyBool b) a = Inr r" and "x \<in> resolvable c ov b a"
  shows "r = Some x"
proof -
  define an where "an = (if b then None else annex_sha256 a)"
  define vs where "vs = map snd (digest_sources (hex64 c) (hex64 ov) an)"
  have x: "x \<in> set vs"
    using assms(2) by (simp add: vs_def an_def resolvable_alt)
  have le: "length (remdups vs) \<le> 1"
    using assms(1) by (simp add: expected_sha256_PyBool Let_def vs_def an_def split: if_splits)
  note one = distinct_sources [OF le x]
  from assms(1) one show ?thesis
    by (simp add: expected_sha256_PyBool Let_def vs_def an_def split: if_splits)
qed

text \<open>
  A copy satisfies an approved 64-hex digest exactly when that digest is the one and only
  resolvable original-byte evidence of the copy and the archived hash is not malformed.
  Conflicting, missing and malformed evidence all fail closed.
\<close>

theorem content_satisfies_iff:
  assumes "hex64_text p"
  shows "content_satisfies (Some p) ov (PyBool b) a \<longleftrightarrow>
           resolvable None ov b a = {p} \<and> \<not> (present_nonempty ov \<and> hex64 ov = None)"
proof -
  define an where "an = (if b then None else annex_sha256 a)"
  have p: "p \<noteq> []" "py_lower p = p"
    using assms by (simp_all add: hex64_text_nonempty hex64_text_lower)
  have hexes: "\<And>t. hex64 ov = Some t \<Longrightarrow> py_lower t = t" "\<And>t. an = Some t \<Longrightarrow> py_lower t = t"
    by (auto simp: an_def dest!: hex64_Some annex_sha256_hex hex64_text_lower split: if_splits)
  have raw: "py_lower (py_lower (py_strip s)) \<noteq> p"
    if "ov = Some s" "present_nonempty ov" "hex64 ov = None" for s
    using that assms
    by (auto simp: hex64_def present_nonempty_def Let_def py_lower_idem split: if_splits)
  have res: "resolvable None ov b a = set_option (hex64 ov) \<union> set_option an"
    by (simp add: resolvable_def an_def hex64_def)
  show ?thesis
    unfolding res content_satisfies_def expected_sha256_PyBool Let_def an_def [symmetric]
    using p hexes raw
    by (cases "hex64 ov"; cases an; cases ov)
       (auto simp: digest_sources_def hex64_def [of None] present_nonempty_def)
qed

section \<open>Concrete instances\<close>

theorem expected_sha256_agrees_witness:
  "let h = replicate 64 (CHR ''a'') in
   expected_sha256 (Some h) None (PyBool False) (Some (''SHA256E-s12--'' @ h @ ''.bin'')) = Inr (Some h)
   \<and> h \<in> resolvable (Some h) None False (Some (''SHA256E-s12--'' @ h @ ''.bin''))"
proof -
  let ?h = "replicate 64 (CHR ''a'')"
  have e: "expected_sha256 (Some ?h) None (PyBool False) (Some (''SHA256E-s12--'' @ ?h @ ''.bin'')) = Inr (Some ?h)"
    and m: "?h \<in> resolvable (Some ?h) None False (Some (''SHA256E-s12--'' @ ?h @ ''.bin''))"
    by code_simp+
  from expected_sha256_agrees [OF e m] e m show ?thesis by (simp add: Let_def)
qed

theorem content_satisfies_iff_witness:
  "content_satisfies (Some (replicate 64 (CHR ''a''))) (Some (replicate 64 (CHR ''A''))) (PyBool True) None"
proof -
  have h: "hex64_text (replicate 64 (CHR ''a''))" by code_simp
  have "resolvable None (Some (replicate 64 (CHR ''A''))) True None = {replicate 64 (CHR ''a'')}"
    "\<not> (present_nonempty (Some (replicate 64 (CHR ''A''))) \<and> hex64 (Some (replicate 64 (CHR ''A''))) = None)"
    by code_simp+
  then show ?thesis using content_satisfies_iff [OF h, of "Some (replicate 64 (CHR ''A''))" True None] by blast
qed

end
