(* ===== verification/Manifest.thy ===== *)
theory Manifest
  imports Prelude
begin

text \<open>
  \<open>modelark/archive_manifest.py\<close> with \<open>formats.is_upstream_payload_path\<close>: which catalog
  files form one restorable archive copy of a repository. The \<open>files\<close> table is the list of
  its rows; \<open>ArchivePolicyError\<close> is a value of \<open>policy_error\<close>.
\<close>

section \<open>Data\<close>

record archive_policy =
  allow_pickle :: bool

text \<open>One row of the \<open>files\<close> table, the columns \<open>_select\<close> reads.\<close>

record file_row =
  fr_rfilename :: str
  fr_size_bytes :: "int option"
  fr_sha256 :: "str option"
  fr_format :: "str option"
  fr_quant :: "str option"

record manifest_file =
  mf_rfilename :: str
  mf_size_bytes :: int
  mf_sha256 :: "str option"
  mf_format :: str
  mf_quant :: "str option"
  mf_storage_action :: str

datatype policy_error =
    NotUpstreamPayload str str
  | PickleOnlyBlocked str
  | NoSupportedWeights str "str list"

record manifest_batch =
  mb_manifests :: "(str \<times> manifest_file list) list"
  mb_errors :: "(str \<times> policy_error) list"

definition FLOAT_QUANTS :: "str option list" where
  "FLOAT_QUANTS = [None, Some ''bf16'', Some ''bfloat16'', Some ''fp16'', Some ''f16'',
     Some ''float16'', Some ''fp32'', Some ''f32'', Some ''float32'']"

section \<open>Operations\<close>

definition is_upstream_payload_path :: "str \<Rightarrow> bool" where
  "is_upstream_payload_path name =
     (if char_of (92::nat) \<in> set name \<or> char_of (0::nat) \<in> set name then False
      else list_all (\<lambda>part. part \<notin> {'''', ''.'', ''..''} \<and> py_lower part \<noteq> ''.git'')
             (py_split (CHR ''/'') name))"

text \<open>\<open>wishlist.exclude_pickle_only()\<close> is the configuration value passed as \<open>exclude\<close>.\<close>

definition acquisition_policy :: "bool \<Rightarrow> bool option \<Rightarrow> archive_policy" where
  "acquisition_policy exclude override =
     \<lparr>allow_pickle = (case override of None \<Rightarrow> \<not> exclude | Some b \<Rightarrow> b)\<rparr>"

definition recovery_policy :: archive_policy where
  "recovery_policy = \<lparr>allow_pickle = True\<rparr>"

definition row_size :: "file_row \<Rightarrow> int" where
  "row_size r = (case fr_size_bytes r of None \<Rightarrow> 0 | Some n \<Rightarrow> n)"

definition manifest_entry :: "file_row \<Rightarrow> str \<Rightarrow> str \<Rightarrow> manifest_file" where
  "manifest_entry r fmt action =
     \<lparr>mf_rfilename = fr_rfilename r, mf_size_bytes = row_size r, mf_sha256 = fr_sha256 r,
      mf_format = fmt, mf_quant = fr_quant r, mf_storage_action = action\<rparr>"

text \<open>The body of the selection loop: one row's entry, or \<open>None\<close> where the loop continues.\<close>

definition select_action :: "str list \<Rightarrow> file_row \<Rightarrow> manifest_file option" where
  "select_action selected_names r =
     (let fmt = fr_format r; selected = fr_rfilename r \<in> set selected_names in
      if selected \<and> fmt = Some ''safetensors''
      then Some (manifest_entry r ''safetensors''
             (if fr_quant r \<in> set FLOAT_QUANTS then ''compress'' else ''raw''))
      else if selected then Some (manifest_entry r (case fmt of None \<Rightarrow> '''' | Some f \<Rightarrow> f) ''raw'')
      else if fmt = Some ''aux'' then Some (manifest_entry r ''aux'' ''raw'')
      else None)"

definition with_format :: "str \<Rightarrow> file_row list \<Rightarrow> file_row list" where
  "with_format f rows = filter (\<lambda>r. fr_format r = Some f) rows"

text \<open>The weight rows chosen by the safetensors, GGUF, pickle preference.\<close>

definition selected_weights :: "str \<Rightarrow> file_row list \<Rightarrow> archive_policy \<Rightarrow> policy_error + file_row list" where
  "selected_weights repo rows policy =
     (if with_format ''safetensors'' rows \<noteq> [] then Inr (with_format ''safetensors'' rows)
      else if with_format ''gguf'' rows \<noteq> [] then Inr (with_format ''gguf'' rows)
      else if with_format ''pytorch'' rows \<noteq> [] then
        (if \<not> allow_pickle policy then Inl (PickleOnlyBlocked repo)
         else Inr (with_format ''pytorch'' rows))
      else Inl (NoSupportedWeights repo (sorted_set
             (map (\<lambda>r. case fr_format r of None \<Rightarrow> ''unknown''
                        | Some f \<Rightarrow> (if f = [] then ''unknown'' else f))
                (filter (\<lambda>r. fr_format r \<noteq> Some ''aux'') rows)))))"

definition payload_formats :: "str option list" where
  "payload_formats = [Some ''safetensors'', Some ''gguf'', Some ''pytorch'', Some ''aux'']"

definition select_manifest :: "str \<Rightarrow> file_row list \<Rightarrow> archive_policy \<Rightarrow> policy_error + manifest_file list" where
  "select_manifest repo rows policy =
     (case List.find (\<lambda>r. fr_format r \<in> set payload_formats
                          \<and> \<not> is_upstream_payload_path (fr_rfilename r)) rows of
        Some r \<Rightarrow> Inl (NotUpstreamPayload repo (fr_rfilename r))
      | None \<Rightarrow>
         (case selected_weights repo rows policy of
            Inl e \<Rightarrow> Inl e
          | Inr ws \<Rightarrow>
              Inr (sort_key mf_rfilename
                (List.map_filter (select_action (map fr_rfilename ws)) rows))))"

text \<open>
  The bulk query: the rows of the requested repositories ordered by repository and name. A
  table row pairs the repository with its file columns. The default of \<open>policy\<close> is resolved
  by the caller with \<open>acquisition_policy\<close>.
\<close>

type_synonym files_table = "(str \<times> file_row) list"

definition select_files :: "files_table \<Rightarrow> str list \<Rightarrow> files_table" where
  "select_files table repos =
     sort_key (\<lambda>(repo, r). (repo, fr_rfilename r)) (filter (\<lambda>(repo, r). repo \<in> set repos) table)"

definition grouped_rows :: "files_table \<Rightarrow> str \<Rightarrow> file_row list" where
  "grouped_rows rows repo = map snd (filter (\<lambda>(p, r). p = repo) rows)"

fun classify_repos :: "files_table \<Rightarrow> archive_policy \<Rightarrow> str list \<Rightarrow> manifest_batch" where
  "classify_repos rows policy [] = \<lparr>mb_manifests = [], mb_errors = []\<rparr>"
| "classify_repos rows policy (repo # rest) =
     (let batch = classify_repos rows policy rest in
      case select_manifest repo (grouped_rows rows repo) policy of
        Inr m \<Rightarrow> batch\<lparr>mb_manifests := (repo, m) # mb_manifests batch\<rparr>
      | Inl e \<Rightarrow> batch\<lparr>mb_errors := (repo, e) # mb_errors batch\<rparr>)"

definition inspect_manifests_for_repos ::
  "files_table \<Rightarrow> str list \<Rightarrow> archive_policy \<Rightarrow> manifest_batch" where
  "inspect_manifests_for_repos table repo_ids policy =
     (let unique = sorted_set repo_ids in
      if unique = [] then \<lparr>mb_manifests = [], mb_errors = []\<rparr>
      else classify_repos (select_files table unique) policy unique)"

definition manifests_for_repos ::
  "files_table \<Rightarrow> str list \<Rightarrow> archive_policy \<Rightarrow> policy_error + (str \<times> manifest_file list) list" where
  "manifests_for_repos table repo_ids policy =
     (let batch = inspect_manifests_for_repos table repo_ids policy in
      case sort_key fst (mb_errors batch) of
        (_, e) # _ \<Rightarrow> Inl e
      | [] \<Rightarrow> Inr (mb_manifests batch))"

text \<open>Subscripting the returned dictionary with the one requested repository cannot fail.\<close>

definition manifest_for_repo ::
  "files_table \<Rightarrow> str \<Rightarrow> archive_policy \<Rightarrow> policy_error + manifest_file list option" where
  "manifest_for_repo table repo policy =
     (case manifests_for_repos table [repo] policy of
        Inl e \<Rightarrow> Inl e
      | Inr ms \<Rightarrow> Inr (map_of ms repo))"

section \<open>Metadata reclassification preview\<close>

text \<open>A full row of the \<open>files\<close> table, as the preview reads it.\<close>

record meta_row =
  me_repo :: str
  me_row :: file_row
  me_is_lfs :: "bool option"
  me_quant_bits :: "int option"
  me_safety :: "str option"

record classification_preview =
  cp_planner_revision :: int
  cp_repo_ids :: "str list"
  cp_files_before :: "meta_row list"
  cp_changed_files :: "(str \<times> str) list"
  cp_manifest_changes :: "(str \<times> str list \<times> str list) list"

text \<open>The part after the last slash: \<open>name.rsplit("/", 1)[-1]\<close>.\<close>

definition basename :: "str \<Rightarrow> str" where
  "basename name = last (py_split (CHR ''/'') name)"

definition needs_reclassification :: "meta_row \<Rightarrow> bool" where
  "needs_reclassification m \<longleftrightarrow>
     fr_format (me_row m) = Some ''other''
     \<and> is_upstream_payload_path (fr_rfilename (me_row m))
     \<and> basename (fr_rfilename (me_row m)) \<in> {''.gitignore'', ''.gitattributes''}"

definition reclassify_row :: "(str \<times> str) list \<Rightarrow> str \<Rightarrow> file_row \<Rightarrow> file_row" where
  "reclassify_row changed repo r =
     (if (repo, fr_rfilename r) \<in> set changed
      then r\<lparr>fr_format := Some ''aux'', fr_quant := None\<rparr> else r)"

fun manifest_changes ::
  "(str \<times> str) list \<Rightarrow> meta_row list \<Rightarrow> str list
     \<Rightarrow> policy_error + (str \<times> str list \<times> str list) list" where
  "manifest_changes changed rows [] = Inr []"
| "manifest_changes changed rows (repo # rest) =
     (let before = map me_row (filter (\<lambda>m. me_repo m = repo) rows);
          after = map (reclassify_row changed repo) before in
      case select_manifest repo before recovery_policy of
        Inl e \<Rightarrow> Inl e
      | Inr mb \<Rightarrow>
         (case select_manifest repo after recovery_policy of
            Inl e \<Rightarrow> Inl e
          | Inr ma \<Rightarrow>
             (case manifest_changes changed rows rest of
                Inl e \<Rightarrow> Inl e
              | Inr cs \<Rightarrow> Inr ((repo, map mf_rfilename mb, map mf_rfilename ma) # cs))))"

definition preview_metadata_classification ::
  "int \<Rightarrow> meta_row list \<Rightarrow> str list \<Rightarrow> policy_error + classification_preview" where
  "preview_metadata_classification revision table repo_ids =
     (let unique = sorted_set repo_ids in
      if unique = [] then Inr \<lparr>cp_planner_revision = revision, cp_repo_ids = [], cp_files_before = [],
                               cp_changed_files = [], cp_manifest_changes = []\<rparr>
      else
       (let rows = sort_key (\<lambda>m. (me_repo m, fr_rfilename (me_row m)))
                     (filter (\<lambda>m. me_repo m \<in> set unique) table);
            changed = map (\<lambda>m. (me_repo m, fr_rfilename (me_row m))) (filter needs_reclassification rows) in
        case manifest_changes changed rows (sorted_set (map fst changed)) of
          Inl e \<Rightarrow> Inl e
        | Inr cs \<Rightarrow> Inr \<lparr>cp_planner_revision = revision, cp_repo_ids = unique, cp_files_before = rows,
                          cp_changed_files = changed, cp_manifest_changes = cs\<rparr>))"

section \<open>Lemmas\<close>

named_theorems manifest_simps \<open>unfolding rules of the manifest selection\<close>

lemma set_with_format [manifest_simps]: "set (with_format f rows) = {r \<in> set rows. fr_format r = Some f}"
  by (auto simp: with_format_def)

lemma find_None_iff_all: "List.find P xs = None \<longleftrightarrow> (\<forall>x\<in>set xs. \<not> P x)"
  by (auto simp: find_None_iff)

text \<open>The weight rows of a successful selection all carry one format, the best one present.\<close>

lemma selected_weights_Inr:
  assumes "selected_weights repo rows policy = Inr ws"
  obtains f where "ws = with_format f rows" "ws \<noteq> []"
    "f = ''safetensors'' \<or>
     f = ''gguf'' \<and> with_format ''safetensors'' rows = [] \<or>
     f = ''pytorch'' \<and> with_format ''safetensors'' rows = [] \<and> with_format ''gguf'' rows = []
       \<and> allow_pickle policy"
  using assms that by (auto simp: selected_weights_def split: if_splits)

lemma select_manifest_Inr:
  assumes "select_manifest repo rows policy = Inr m"
  obtains ws where "selected_weights repo rows policy = Inr ws"
    "m = sort_key mf_rfilename (List.map_filter (select_action (map fr_rfilename ws)) rows)"
    "\<forall>r\<in>set rows. fr_format r \<in> set payload_formats \<longrightarrow> is_upstream_payload_path (fr_rfilename r)"
  using assms that
  by (auto simp: select_manifest_def find_None_iff_all split: option.splits sum.splits)

lemma select_action_name: "select_action ns r = Some e \<Longrightarrow> mf_rfilename e = fr_rfilename r"
  by (auto simp: select_action_def manifest_entry_def Let_def split: if_splits)

lemma select_action_size: "select_action ns r = Some e \<Longrightarrow> mf_size_bytes e = row_size r \<and> mf_sha256 e = fr_sha256 r"
  by (auto simp: select_action_def manifest_entry_def Let_def split: if_splits)

lemma set_map_filter: "set (List.map_filter f xs) = {y. \<exists>x\<in>set xs. f x = Some y}"
  by (force simp: List.map_filter_def)

lemma map_filter_cong: "(\<And>x. x \<in> set xs \<Longrightarrow> g x = h x) \<Longrightarrow> List.map_filter g xs = List.map_filter h xs"
  by (induction xs) (simp_all add: List.map_filter_def)

lemma map_fst_unique:
  "distinct (map f xs) \<Longrightarrow> x \<in> set xs \<Longrightarrow> y \<in> set xs \<Longrightarrow> f x = f y \<Longrightarrow> x = y"
  by (meson distinct_map inj_onD)

lemma map_filter_names: "(\<And>r e. g r = Some e \<Longrightarrow> h e = k r) \<Longrightarrow>
  map h (List.map_filter g xs) = map k (filter (\<lambda>r. g r \<noteq> None) xs)"
  by (induction xs) (auto simp: List.map_filter_def)

text \<open>With unique names, the action of a row depends on its format alone.\<close>

lemma select_action_by_format:
  assumes "distinct (map fr_rfilename rows)" "r \<in> set rows" "f \<noteq> ''aux''"
  shows "select_action (map fr_rfilename (with_format f rows)) r =
     (if fr_format r = Some f
      then Some (manifest_entry r f (if f = ''safetensors'' \<and> fr_quant r \<in> set FLOAT_QUANTS
                                     then ''compress'' else ''raw''))
      else if fr_format r = Some ''aux'' then Some (manifest_entry r ''aux'' ''raw'') else None)"
proof -
  have "fr_rfilename r \<in> set (map fr_rfilename (with_format f rows)) \<longleftrightarrow> fr_format r = Some f"
    using assms(1,2) map_fst_unique by (fastforce simp: set_with_format)
  then show ?thesis
    using assms(3) by (auto simp: select_action_def Let_def)
qed

lemma manifest_of_format:
  assumes "distinct (map fr_rfilename rows)" "f \<noteq> ''aux''"
    and m: "m = sort_key mf_rfilename
              (List.map_filter (select_action (map fr_rfilename (with_format f rows))) rows)"
  shows "mf_rfilename ` set m =
           fr_rfilename ` {r \<in> set rows. fr_format r = Some f \<or> fr_format r = Some ''aux''}"
    and "e \<in> set m \<Longrightarrow> \<exists>r\<in>set rows. mf_rfilename e = fr_rfilename r \<and> Some (mf_format e) = fr_format r
           \<and> mf_quant e = fr_quant r \<and> mf_size_bytes e = row_size r \<and> mf_sha256 e = fr_sha256 r
           \<and> mf_format e \<in> {f, ''aux''}
           \<and> (mf_storage_action e = ''compress'' \<longleftrightarrow>
                mf_format e = ''safetensors'' \<and> mf_quant e \<in> set FLOAT_QUANTS)"
proof -
  have act: "List.map_filter (select_action (map fr_rfilename (with_format f rows))) rows =
      List.map_filter (\<lambda>r. if fr_format r = Some f
        then Some (manifest_entry r f (if f = ''safetensors'' \<and> fr_quant r \<in> set FLOAT_QUANTS
                                       then ''compress'' else ''raw''))
        else if fr_format r = Some ''aux'' then Some (manifest_entry r ''aux'' ''raw'') else None) rows"
    by (rule map_filter_cong) (simp_all add: select_action_by_format assms)
  show "mf_rfilename ` set m =
           fr_rfilename ` {r \<in> set rows. fr_format r = Some f \<or> fr_format r = Some ''aux''}"
  proof -
    let ?g = "select_action (map fr_rfilename (with_format f rows))"
    have "set (map mf_rfilename (List.map_filter ?g rows))
        = set (map fr_rfilename (filter (\<lambda>r. ?g r \<noteq> None) rows))"
      by (simp only: map_filter_names [where k = fr_rfilename, OF select_action_name])
    moreover have "set (filter (\<lambda>r. ?g r \<noteq> None) rows)
        = {r \<in> set rows. fr_format r = Some f \<or> fr_format r = Some ''aux''}"
      using assms(1,2) by (auto simp: select_action_by_format split: if_splits)
    ultimately show ?thesis
      by (simp add: m)
  qed
  show "e \<in> set m \<Longrightarrow> \<exists>r\<in>set rows. mf_rfilename e = fr_rfilename r \<and> Some (mf_format e) = fr_format r
           \<and> mf_quant e = fr_quant r \<and> mf_size_bytes e = row_size r \<and> mf_sha256 e = fr_sha256 r
           \<and> mf_format e \<in> {f, ''aux''}
           \<and> (mf_storage_action e = ''compress'' \<longleftrightarrow>
                mf_format e = ''safetensors'' \<and> mf_quant e \<in> set FLOAT_QUANTS)"
  proof -
    assume "e \<in> set m"
    then obtain r where r: "r \<in> set rows" and e: "(if fr_format r = Some f
        then Some (manifest_entry r f (if f = ''safetensors'' \<and> fr_quant r \<in> set FLOAT_QUANTS
                                       then ''compress'' else ''raw''))
        else if fr_format r = Some ''aux'' then Some (manifest_entry r ''aux'' ''raw'') else None) = Some e"
      unfolding m act by (auto simp only: set_map_filter set_sort mem_Collect_eq)
    show ?thesis
    proof (cases "fr_format r = Some f")
      case True
      with e have "e = manifest_entry r f (if f = ''safetensors'' \<and> fr_quant r \<in> set FLOAT_QUANTS
                                           then ''compress'' else ''raw'')"
        by simp
      with r True show ?thesis
        by (intro bexI [of _ r]) (simp_all add: manifest_entry_def)
    next
      case False
      with e have "fr_format r = Some ''aux''" "e = manifest_entry r ''aux'' ''raw''"
        by (simp_all split: if_splits)
      with r show ?thesis
        by (intro bexI [of _ r]) (simp_all add: manifest_entry_def)
    qed
  qed
qed

lemma distinct_map_filter_names:
  assumes "distinct (map fr_rfilename rows)"
  shows "distinct (map mf_rfilename (sort_key mf_rfilename (List.map_filter (select_action ns) rows)))"
proof -
  have "distinct (map mf_rfilename (List.map_filter (select_action ns) rows))"
    by (simp add: map_filter_names [where k = fr_rfilename, OF select_action_name]
        distinct_map_filter assms)
  then show ?thesis
    by (simp add: distinct_map)
qed

section \<open>Properties\<close>

text \<open>
  A selected manifest holds exactly the auxiliary files and the weights of one single
  format, pickle only under a policy that allows it; names are sorted and distinct, every name
  is an upstream payload path, and a file is compressed exactly when it is a float safetensors
  shard.
\<close>

theorem select_manifest_spec:
  assumes "distinct (map fr_rfilename rows)" and "select_manifest repo rows policy = Inr m"
  shows "\<exists>f. (f = ''safetensors'' \<or> f = ''gguf'' \<or> f = ''pytorch'' \<and> allow_pickle policy)
     \<and> (\<exists>r\<in>set rows. fr_format r = Some f)
     \<and> mf_rfilename ` set m =
         fr_rfilename ` {r \<in> set rows. fr_format r = Some f \<or> fr_format r = Some ''aux''}
     \<and> sorted (map mf_rfilename m) \<and> distinct (map mf_rfilename m)
     \<and> list_all (\<lambda>e. is_upstream_payload_path (mf_rfilename e)
         \<and> (mf_storage_action e = ''compress'' \<longleftrightarrow>
              mf_format e = ''safetensors'' \<and> mf_quant e \<in> set FLOAT_QUANTS)) m"
proof -
  from select_manifest_Inr [OF assms(2)] obtain ws where ws: "selected_weights repo rows policy = Inr ws"
    and m: "m = sort_key mf_rfilename (List.map_filter (select_action (map fr_rfilename ws)) rows)"
    and up: "\<forall>r\<in>set rows. fr_format r \<in> set payload_formats \<longrightarrow> is_upstream_payload_path (fr_rfilename r)" .
  obtain f where f: "ws = with_format f rows" "ws \<noteq> []"
    "f = ''safetensors'' \<or> f = ''gguf'' \<or> f = ''pytorch'' \<and> allow_pickle policy"
    by (rule selected_weights_Inr [OF ws]) blast
  have aux: "f \<noteq> ''aux''"
    using f(3) by (elim disjE conjE) simp_all
  have pf: "Some f \<in> set payload_formats"
    using f(3) by (elim disjE conjE) (simp_all add: payload_formats_def)
  note spec = manifest_of_format [OF assms(1) aux m [unfolded f(1)]]
  have ex: "\<exists>r\<in>set rows. fr_format r = Some f"
    using f(1,2) by (auto simp: with_format_def filter_empty_conv)
  have aux_pf: "Some ''aux'' \<in> set payload_formats"
    by (simp add: payload_formats_def)
  have "is_upstream_payload_path (mf_rfilename e)
         \<and> (mf_storage_action e = ''compress'' \<longleftrightarrow>
              mf_format e = ''safetensors'' \<and> mf_quant e \<in> set FLOAT_QUANTS)" if "e \<in> set m" for e
  proof -
    from spec(2) [OF that] obtain r where r: "r \<in> set rows" "mf_rfilename e = fr_rfilename r"
      "Some (mf_format e) = fr_format r" "mf_format e \<in> {f, ''aux''}"
      and act: "mf_storage_action e = ''compress'' \<longleftrightarrow>
              mf_format e = ''safetensors'' \<and> mf_quant e \<in> set FLOAT_QUANTS"
      by blast
    have "fr_format r \<in> set payload_formats"
      using r(3,4) pf aux_pf by (metis insertE singletonD)
    with up r(1,2) act show ?thesis by simp
  qed
  then show ?thesis
    using f(3) ex spec(1) distinct_map_filter_names [OF assms(1)] m
    by (intro exI [of _ f]) (simp add: list_all_iff)
qed

text \<open>
  Recovery never disagrees with acquisition: whatever manifest an acquisition policy
  accepts, the recovery policy selects the same one.
\<close>

lemma recovery_keeps_manifest:
  assumes "select_manifest repo rows policy = Inr m"
  shows "select_manifest repo rows recovery_policy = Inr m"
  using assms
  by (auto simp: select_manifest_def selected_weights_def recovery_policy_def
      split: option.splits sum.splits if_splits)

lemma classify_repos_spec:
  "distinct repos \<Longrightarrow> mb_errors (classify_repos rows policy repos) = [] \<Longrightarrow>
   map fst (mb_manifests (classify_repos rows policy repos)) = repos
   \<and> (\<forall>(r, m)\<in>set (mb_manifests (classify_repos rows policy repos)).
        select_manifest r (grouped_rows rows r) policy = Inr m)"
  by (induction repos) (auto simp: Let_def split: sum.splits)

text \<open>
  The bulk loader fails closed: when it returns manifests, it returns one for every
  requested repository, in order and without repetition, each the selection over exactly that
  repository's rows.
\<close>

lemma manifests_for_repos_complete:
  assumes "manifests_for_repos table repo_ids policy = Inr ms"
  shows "map fst ms = sorted_set repo_ids
    \<and> list_all (\<lambda>(r, m). select_manifest r (grouped_rows (select_files table (sorted_set repo_ids)) r) policy
                          = Inr m) ms"
proof (cases "repo_ids = []")
  case True
  then show ?thesis
    using assms by (simp add: manifests_for_repos_def inspect_manifests_for_repos_def)
next
  case False
  let ?b = "classify_repos (select_files table (sorted_set repo_ids)) policy (sorted_set repo_ids)"
  have b: "inspect_manifests_for_repos table repo_ids policy = ?b"
    using False by (simp add: inspect_manifests_for_repos_def Let_def)
  have e: "sort_key fst (mb_errors ?b) = []" and "ms = mb_manifests ?b"
    using assms by (auto simp: manifests_for_repos_def b Let_def split: list.splits)
  moreover have "mb_errors ?b = []"
    using arg_cong [OF e, of length] by simp
  ultimately show ?thesis
    using classify_repos_spec [of "sorted_set repo_ids"]
    by (auto simp: list_all_iff)
qed

section \<open>Concrete instances\<close>

definition demo_row :: "str \<Rightarrow> str \<Rightarrow> file_row" where
  "demo_row name fmt = \<lparr>fr_rfilename = name, fr_size_bytes = Some 9, fr_sha256 = None,
     fr_format = Some fmt, fr_quant = Some ''bf16''\<rparr>"

theorem select_manifest_spec_witness:
  "\<exists>m. select_manifest ''org/m'' [demo_row ''w.safetensors'' ''safetensors'', demo_row ''README.md'' ''aux'']
      \<lparr>allow_pickle = False\<rparr> = Inr m
     \<and> mf_rfilename ` set m = {''w.safetensors'', ''README.md''} \<and> sorted (map mf_rfilename m)"
proof -
  let ?rows = "[demo_row ''w.safetensors'' ''safetensors'', demo_row ''README.md'' ''aux'']"
  have d: "distinct (map fr_rfilename ?rows)" by code_simp
  have "\<not> isl (select_manifest ''org/m'' ?rows \<lparr>allow_pickle = False\<rparr>)" by code_simp
  then obtain m where m: "select_manifest ''org/m'' ?rows \<lparr>allow_pickle = False\<rparr> = Inr m"
    by (cases "select_manifest ''org/m'' ?rows \<lparr>allow_pickle = False\<rparr>") simp_all
  from select_manifest_spec [OF d m] obtain f where f: "\<exists>r\<in>set ?rows. fr_format r = Some f"
    "mf_rfilename ` set m = fr_rfilename ` {r \<in> set ?rows. fr_format r = Some f \<or> fr_format r = Some ''aux''}"
    "f = ''safetensors'' \<or> f = ''gguf'' \<or> f = ''pytorch'' \<and> allow_pickle \<lparr>allow_pickle = False\<rparr>"
    "sorted (map mf_rfilename m)"
    by blast
  then have "f = ''safetensors''" by (auto simp: demo_row_def)
  then have "{r \<in> set ?rows. fr_format r = Some f \<or> fr_format r = Some ''aux''} = set ?rows"
    by (auto simp: demo_row_def)
  with f m show ?thesis by (auto simp: demo_row_def)
qed

end
