(* ===== verification/PyFloat.thy ===== *)
theory PyFloat
  imports Prelude "HOL-Library.Log_Nat"
begin

text \<open>
  Python floats as the program uses them: IEEE binary64 values are rationals, and every
  operation rounds its exact result to 53 significant bits, ties to even (\<open>fl\<close>). The
  exponent range is unbounded: the byte counts and ratios of the program stay far from
  overflow and underflow, where alone this differs from binary64. A decimal literal
  \<open>c\<close> of the source is \<open>fl c\<close>, \<open>int(x)\<close> is \<open>trunc\<close>.
\<close>

definition ilog2 :: "rat \<Rightarrow> int" where
  "ilog2 x = (let (p, q) = quotient_of x; k = bitlen p - bitlen q
              in if 2 powi k \<le> x then k else k - 1)"

definition round_even :: "rat \<Rightarrow> int" where
  "round_even x = (let f = \<lfloor>x\<rfloor>; r = x - of_int f
                   in if r < 1 / 2 then f else if 1 / 2 < r then f + 1
                      else if even f then f else f + 1)"

definition fl_pos :: "rat \<Rightarrow> rat" where
  "fl_pos x = (let e = ilog2 x - 52 in of_int (round_even (x / 2 powi e)) * 2 powi e)"

definition fl :: "rat \<Rightarrow> rat" where
  "fl x = (if x = 0 then 0 else if 0 < x then fl_pos x else - fl_pos (- x))"

definition trunc :: "rat \<Rightarrow> int" where
  "trunc x = (if 0 \<le> x then \<lfloor>x\<rfloor> else - \<lfloor>- x\<rfloor>)"

text \<open>\<open>math.ceil\<close> of a float.\<close>

definition py_ceil :: "rat \<Rightarrow> int" where
  "py_ceil x = \<lceil>x\<rceil>"

section \<open>The binary exponent\<close>

lemma bitlen_powi: "0 < p \<Longrightarrow> (2::rat) powi (bitlen p - 1) \<le> of_int p \<and> of_int p < (2::rat) powi (bitlen p)"
proof -
  assume p: "0 < p"
  then have b: "2 ^ nat (bitlen p - 1) \<le> p \<and> p < 2 ^ nat (bitlen p)"
    by (rule bitlen_bounds)
  have pos: "0 < bitlen p" using p bitlen_eq_zero_iff [of p] bitlen_nonneg [of p] by linarith
  have 1: "(2::rat) powi (bitlen p - 1) = of_int (2 ^ nat (bitlen p - 1))"
    and 2: "(2::rat) powi bitlen p = of_int (2 ^ nat (bitlen p))"
    using pos by (simp_all add: power_int_def)
  show ?thesis
    unfolding 1 2 using b by (simp only: of_int_le_iff of_int_less_iff)
qed

lemma ilog2_bounds:
  assumes "0 < x"
  shows "2 powi (ilog2 x) \<le> x" "x < 2 powi (ilog2 x + 1)"
proof -
  obtain p q where pq: "quotient_of x = (p, q)" by (cases "quotient_of x")
  have q: "0 < q" using pq by (rule quotient_of_denom_pos)
  have x: "x = of_int p / of_int q" using pq by (rule quotient_of_div)
  have p: "0 < p"
    using assms q by (simp add: x zero_less_divide_iff)
  let ?k = "bitlen p - bitlen q"
  note bp = bitlen_powi [OF p] and bq = bitlen_powi [OF q]
  have "x < 2 powi (bitlen p) / 2 powi (bitlen q - 1)"
    unfolding x using bp bq q p by (intro frac_less) auto
  also have "\<dots> = 2 powi (?k + 1)"
    by (simp add: algebra_simps flip: power_int_diff)
  finally have up: "x < 2 powi (?k + 1)" .
  have "2 powi (?k - 1) = (2::rat) powi (bitlen p - 1) / 2 powi (bitlen q)"
    by (simp flip: power_int_diff add: algebra_simps)
  also have "\<dots> \<le> x"
    unfolding x using bp bq q p by (intro frac_le) auto
  finally have low: "2 powi (?k - 1) \<le> x" .
  show "2 powi (ilog2 x) \<le> x" "x < 2 powi (ilog2 x + 1)"
    using up low by (auto simp: ilog2_def pq Let_def)
qed

lemma powi_le_iff: "(2::rat) powi m \<le> 2 powi n \<longleftrightarrow> m \<le> n"
  by (meson linorder_not_le one_less_numeral_iff power_int_increasing power_int_strict_increasing
      semiring_norm(76) less_imp_le not_less)

lemma powi_less_iff: "(2::rat) powi m < 2 powi n \<longleftrightarrow> m < n"
  using powi_le_iff [of n m] by (simp add: not_le [symmetric])

lemma ilog2_unique:
  assumes "2 powi k \<le> x" "x < 2 powi (k + 1)"
  shows "ilog2 x = k"
proof -
  have x: "0 < x"
    using assms(1) by (rule less_le_trans [rotated]) simp
  note b = ilog2_bounds [OF x]
  have "(2::rat) powi (ilog2 x) < 2 powi (k + 1)" "(2::rat) powi k < 2 powi (ilog2 x + 1)"
    using assms b by (auto intro: le_less_trans)
  then show ?thesis by (simp only: powi_less_iff)
qed

lemma ilog2_mono: "0 < x \<Longrightarrow> x \<le> y \<Longrightarrow> ilog2 x \<le> ilog2 y"
  using ilog2_bounds [of x] ilog2_bounds [of y] powi_less_iff [of "ilog2 x" "ilog2 y + 1"] by force

section \<open>Rounding to an integer\<close>

lemma round_even_int [simp]: "round_even (of_int n) = n"
  by (simp add: round_even_def Let_def)

lemma round_even_near: "\<bar>of_int (round_even x) - x\<bar> \<le> 1 / 2"
  using floor_correct [of x] by (auto simp: round_even_def Let_def abs_le_iff)

lemma round_even_mono: "x \<le> y \<Longrightarrow> round_even x \<le> round_even y"
proof -
  assume le: "x \<le> y"
  then have f: "\<lfloor>x\<rfloor> \<le> \<lfloor>y\<rfloor>" by (rule floor_mono)
  have rx: "round_even x \<le> \<lfloor>x\<rfloor> + 1" and ry: "\<lfloor>y\<rfloor> \<le> round_even y"
    by (simp_all add: round_even_def Let_def)
  show ?thesis
  proof (cases "\<lfloor>x\<rfloor> = \<lfloor>y\<rfloor>")
    case True
    then show ?thesis using le by (auto simp: round_even_def Let_def)
  next
    case False
    then show ?thesis using f rx ry by simp
  qed
qed

section \<open>Rounding to a float\<close>


text \<open>The unit in the last place of a positive value.\<close>

abbreviation ulp :: "rat \<Rightarrow> rat" where
  "ulp x \<equiv> 2 powi (ilog2 x - 52)"

lemma fl_pos_alt: "fl_pos x = of_int (round_even (x / ulp x)) * ulp x"
  by (simp add: fl_pos_def Let_def)

lemma ulp_pos [simp]: "0 < ulp x"
  by simp

lemma fl_pos_exact: "x / ulp x = of_int n \<Longrightarrow> fl_pos x = x"
  by (metis fl_pos_alt nonzero_divide_eq_eq order_less_irrefl round_even_int ulp_pos)

lemma mantissa_bounds:
  assumes "0 < x"
  shows "2 ^ 52 \<le> x / ulp x" "x / ulp x \<le> 2 ^ 53"
proof -
  have "(2::rat) powi (ilog2 x) = 2 ^ 52 * ulp x"
    by (simp add: power_int_diff)
  moreover have "(2::rat) powi (ilog2 x + 1) = 2 ^ 53 * ulp x"
    by (simp add: power_int_diff power_int_add)
  ultimately show "2 ^ 52 \<le> x / ulp x" "x / ulp x \<le> 2 ^ 53"
    using ilog2_bounds [OF assms] by (simp_all add: pos_le_divide_eq pos_divide_le_eq)
qed

lemma fl_pos_bounds:
  assumes "0 < x"
  shows "2 powi (ilog2 x) \<le> fl_pos x" "fl_pos x \<le> 2 powi (ilog2 x + 1)"
proof -
  note m = mantissa_bounds [OF assms]
  have "round_even (of_int (2 ^ 52)) \<le> round_even (x / ulp x)"
       "round_even (x / ulp x) \<le> round_even (of_int (2 ^ 53))"
    using m by (auto intro!: round_even_mono)
  then have r: "2 ^ 52 \<le> round_even (x / ulp x)" "round_even (x / ulp x) \<le> 2 ^ 53"
    by (simp_all only: round_even_int)
  have "(2::rat) powi (ilog2 x) = of_int (2 ^ 52) * ulp x"
    by (simp add: power_int_diff)
  also have "\<dots> \<le> of_int (round_even (x / ulp x)) * ulp x"
    using r(1) by (intro mult_right_mono) (simp_all only: of_int_le_iff ulp_pos less_imp_le)
  finally show "2 powi (ilog2 x) \<le> fl_pos x" by (simp only: fl_pos_alt)
  have "of_int (round_even (x / ulp x)) * ulp x \<le> of_int (2 ^ 53) * ulp x"
    using r(2) by (intro mult_right_mono) (simp_all only: of_int_le_iff ulp_pos less_imp_le)
  also have "\<dots> = 2 powi (ilog2 x + 1)"
    by (simp add: power_int_diff power_int_add)
  finally show "fl_pos x \<le> 2 powi (ilog2 x + 1)" by (simp only: fl_pos_alt)
qed

lemma fl_pos_mono:
  assumes "0 < x" "x \<le> y"
  shows "fl_pos x \<le> fl_pos y"
proof (cases "ilog2 x = ilog2 y")
  case True
  have "x / ulp x \<le> y / ulp x"
    using assms(2) by (intro divide_right_mono) simp_all
  then have "round_even (x / ulp x) \<le> round_even (y / ulp y)"
    using True by (auto intro: round_even_mono)
  then have "of_int (round_even (x / ulp x)) * ulp x \<le> of_int (round_even (y / ulp y)) * ulp x"
    by (intro mult_right_mono) (simp_all only: of_int_le_iff ulp_pos less_imp_le)
  then show ?thesis using True by (simp only: fl_pos_alt)
next
  case False
  then have "ilog2 x + 1 \<le> ilog2 y"
    using ilog2_mono [OF assms] by simp
  then have "(2::rat) powi (ilog2 x + 1) \<le> 2 powi (ilog2 y)"
    by (simp only: powi_le_iff)
  then show ?thesis
    using fl_pos_bounds [OF assms(1)] fl_pos_bounds [of y] assms by linarith
qed

lemma fl_mono: "x \<le> y \<Longrightarrow> fl x \<le> fl y"
proof -
  assume le: "x \<le> y"
  have pos: "0 \<le> fl z" if "0 \<le> z" for z
    using that fl_pos_bounds(1) [of z] by (auto simp: fl_def intro: order_trans [rotated])
  show ?thesis
  proof (cases "0 \<le> x")
    case True
    then show ?thesis
      using le pos [of y] fl_pos_mono [of x y] by (auto simp: fl_def)
  next
    case neg: False
    show ?thesis
    proof (cases "0 \<le> y")
      case True
      have "fl x \<le> 0" using neg pos [of "- x"] by (simp add: fl_def)
      then show ?thesis using pos [OF True] by linarith
    next
      case False
      then show ?thesis
        using neg le fl_pos_mono [of "- y" "- x"] by (simp add: fl_def)
    qed
  qed
qed

text \<open>Rounding a rounded value changes nothing.\<close>

lemma fl_pos_idem:
  assumes "0 < x"
  shows "fl_pos (fl_pos x) = fl_pos x"
proof (cases "fl_pos x = 2 powi (ilog2 x + 1)")
  case True
  have "ilog2 (2 powi (ilog2 x + 1)) = ilog2 x + 1"
    by (rule ilog2_unique) (simp_all add: power_int_add)
  then have "fl_pos x / ulp (fl_pos x) = of_int (2 ^ 52)"
    by (simp add: True power_int_diff power_int_add)
  then show ?thesis by (rule fl_pos_exact)
next
  case False
  then have "ilog2 (fl_pos x) = ilog2 x"
    using fl_pos_bounds [OF assms] by (intro ilog2_unique) auto
  then have "fl_pos x / ulp (fl_pos x) = of_int (round_even (x / ulp x))"
    by (simp add: fl_pos_alt [of x])
  then show ?thesis by (rule fl_pos_exact)
qed

lemma fl_pos_pos: "0 < x \<Longrightarrow> 0 < fl_pos x"
  using fl_pos_bounds(1) [of x] by (rule order_less_le_trans [rotated]) simp_all

lemma fl_idem [simp]: "fl (fl x) = fl x"
  using fl_pos_idem [of x] fl_pos_idem [of "- x"] fl_pos_pos [of x] fl_pos_pos [of "- x"]
  by (auto simp: fl_def not_less le_less)

lemma fl_of_int:
  assumes "0 \<le> n" "n \<le> 2 ^ 53"
  shows "fl (of_int n) = of_int n"
proof (cases "n = 0")
  case False
  with assms have n: "0 < n" by simp
  let ?x = "of_int n :: rat"
  have x: "0 < ?x" using n by simp
  have "\<exists>m. ?x / ulp ?x = of_int m"
  proof (cases "ilog2 ?x \<le> 52")
    case True
    then have "?x / ulp ?x = of_int (n * 2 ^ nat (52 - ilog2 ?x))"
      by (simp add: power_int_def field_simps)
    then show ?thesis by blast
  next
    case False
    then have "(2::rat) ^ 53 \<le> 2 powi (ilog2 ?x)"
      using powi_le_iff [of 53 "ilog2 ?x"] by simp
    also have "\<dots> \<le> ?x" by (rule ilog2_bounds [OF x])
    finally have "of_int (2 ^ 53) \<le> ?x" by simp
    then have "n = 2 ^ 53" using assms(2) by (simp only: of_int_le_iff)
    then have xe: "?x = 2 powi 53" by simp
    have "ilog2 ?x = 53" by (rule ilog2_unique) (simp_all add: xe)
    then have "?x / ulp ?x = of_int (2 ^ 52)" by (simp add: xe)
    then show ?thesis by blast
  qed
  then have "fl_pos ?x = ?x" using fl_pos_exact by blast
  then show ?thesis using x by (simp add: fl_def)
qed (simp add: fl_def)

text \<open>The relative error of one rounding is at most half a unit in the 53rd bit.\<close>

text \<open>Evaluation: a whole number of at most 53 bits is its own float.\<close>

lemma fl_code [code]:
  "fl x = (if 0 \<le> x \<and> x \<le> 9007199254740992 \<and> snd (quotient_of x) = 1 then x
     else if x = 0 then 0 else if 0 < x then fl_pos x else - fl_pos (- x))"
proof (cases "0 \<le> x \<and> x \<le> 9007199254740992 \<and> snd (quotient_of x) = 1")
  case True
  then have "quotient_of x = (fst (quotient_of x), 1)" by (simp add: prod_eq_iff)
  from quotient_of_div [OF this] have x: "x = of_int (fst (quotient_of x))" by simp
  let ?n = "fst (quotient_of x)"
  have "(of_int 0 :: rat) \<le> of_int ?n" "of_int ?n \<le> (of_int (2 ^ 53) :: rat)"
    using True x by simp_all
  then have "fl (of_int ?n) = of_int ?n"
    by (intro fl_of_int) (simp_all only: of_int_le_iff)
  with x True show ?thesis by simp
qed (auto simp: fl_def)

lemma fl_error:
  assumes "0 \<le> x"
  shows "\<bar>fl x - x\<bar> \<le> x / 2 ^ 53"
proof (cases "x = 0")
  case False
  with assms have x: "0 < x" by simp
  have "fl x - x = (of_int (round_even (x / ulp x)) - x / ulp x) * ulp x"
    using x by (simp add: fl_def fl_pos_alt left_diff_distrib)
  then have "\<bar>fl x - x\<bar> = \<bar>of_int (round_even (x / ulp x)) - x / ulp x\<bar> * ulp x"
    by (simp add: abs_mult)
  also have "\<dots> \<le> (1 / 2) * ulp x"
    by (intro mult_right_mono round_even_near) simp
  also have "\<dots> \<le> x / 2 ^ 53"
    using mantissa_bounds(1) [OF x] by (simp add: pos_le_divide_eq)
  finally show ?thesis .
qed (simp add: fl_def)

section \<open>Truncation\<close>

lemma trunc_mono: "x \<le> y \<Longrightarrow> trunc x \<le> trunc y"
proof -
  assume le: "x \<le> y"
  have "- \<lfloor>- x\<rfloor> \<le> \<lfloor>y\<rfloor>" if "\<not> 0 \<le> x" "0 \<le> y"
  proof -
    have "0 \<le> \<lfloor>- x\<rfloor>" "0 \<le> \<lfloor>y\<rfloor>" using that by (simp_all add: zero_le_floor)
    then show ?thesis by linarith
  qed
  then show ?thesis
    using le floor_mono [of x y] floor_mono [of "- y" "- x"] by (auto simp: trunc_def)
qed

lemma trunc_of_int [simp]: "trunc (of_int n) = n"
  by (simp add: trunc_def flip: of_int_minus)

lemma trunc_le: "0 \<le> x \<Longrightarrow> of_int (trunc x) \<le> x"
  by (simp add: trunc_def)

lemma trunc_nonneg: "0 \<le> x \<Longrightarrow> 0 \<le> trunc x"
  by (simp add: trunc_def)

section \<open>What the byte arithmetic needs of a rounding\<close>

text \<open>
  The interface of the float arithmetic: rounding is monotone and exact on the byte counts the
  program handles (at most \<open>2 ^ 53\<close>). The budget and headroom lemmas use these laws only.
\<close>

locale float_rounding =
  fixes rnd :: "rat \<Rightarrow> rat"
  assumes rnd_mono: "x \<le> y \<Longrightarrow> rnd x \<le> rnd y"
    and rnd_int: "0 \<le> n \<Longrightarrow> n \<le> 2 ^ 53 \<Longrightarrow> rnd (of_int n) = of_int n"
begin

lemma rnd_zero: "rnd 0 = 0"
  using rnd_int [of 0] by simp

lemma rnd_nonneg: "0 \<le> x \<Longrightarrow> 0 \<le> rnd x"
  using rnd_mono [of 0 x] by (simp add: rnd_zero)

lemma scaled_mono:
  "0 \<le> m \<Longrightarrow> x \<le> y \<Longrightarrow> trunc (rnd (x * m)) \<le> trunc (rnd (y * m))"
  by (intro trunc_mono rnd_mono mult_right_mono)

lemma scaled_ge:
  assumes "0 \<le> n" "n \<le> 2 ^ 53" "1 \<le> m"
  shows "n \<le> trunc (rnd (rnd (of_int n) * m))"
proof -
  have "of_int n * 1 \<le> (of_int n * m :: rat)"
    using assms by (intro mult_left_mono) simp_all
  then have "rnd (of_int n) \<le> rnd (of_int n * m)"
    by (auto intro: rnd_mono)
  then have "trunc (of_int n) \<le> trunc (rnd (rnd (of_int n) * m))"
    using assms by (intro trunc_mono) (simp add: rnd_int)
  then show ?thesis by simp
qed

lemma scaled_le:
  assumes "0 \<le> x" "x \<le> of_int n" "0 \<le> n" "n \<le> 2 ^ 53"
  shows "trunc (rnd x) \<le> n"
proof -
  have "trunc (rnd x) \<le> trunc (rnd (of_int n))"
    using assms by (intro trunc_mono rnd_mono)
  then show ?thesis using assms by (simp add: rnd_int)
qed

end

interpretation fl: float_rounding fl
  by unfold_locales (simp_all add: fl_mono fl_of_int)

end
