(* ===== verification/StreamZnn.thy ===== *)
theory StreamZnn
  imports PyFloat "HOL-Library.Word"
begin

text \<open>
  \<open>modelark/streamznn.py\<close>: the StreamZNN container (a magic, then length-prefixed blobs),
  its writer \<open>compress_file\<close> and its readers. ZipNN itself is third-party code and is a
  parameter: \<open>zn\<close> maps a slice to its blob, \<open>decode\<close> maps a blob to the restored bytes or
  fails. A source stream is the list of the pieces its \<open>read\<close> calls can deliver, so short
  reads are part of the model; a regular file is one piece. Error messages are not modelled.
\<close>

type_synonym byte = "8 word"
type_synonym bytes = "byte list"
type_synonym stream = "bytes list"

datatype stream_error =
    StreamZnnError
  | OutputCapExceeded
  | DecodeLimitExceeded
  | UnsupportedFrame
  | StreamValueError
  | StructError

definition MAGIC :: bytes where
  "MAGIC = [83, 90, 78, 78, 1]"

definition DEFAULT_CHUNK :: nat where
  "DEFAULT_CHUNK = 64 * 1024 * 1024"

definition MAX_BLOB :: nat where
  "MAX_BLOB = 2 ^ 34"

definition HASH_READ :: nat where
  "HASH_READ = 2 ^ 20"

section \<open>Little-endian integers\<close>

text \<open>\<open>struct.Struct("<I")\<close>: packing a value over 32 bits raises \<open>struct.error\<close>.\<close>

definition le_bytes :: "nat \<Rightarrow> bytes" where
  "le_bytes n = map (\<lambda>i. of_nat (n div 256 ^ i mod 256)) [0..<4]"

definition len_pack :: "nat \<Rightarrow> stream_error + bytes" where
  "len_pack n = (if n < 2 ^ 32 then Inr (le_bytes n) else Inl StructError)"

text \<open>\<open>int.from_bytes(bs, "little")\<close>, also \<open>_LEN.unpack\<close> on four bytes.\<close>

fun from_le :: "bytes \<Rightarrow> nat" where
  "from_le [] = 0"
| "from_le (b # bs) = unat b + 256 * from_le bs"

section \<open>Reading\<close>

text \<open>\<open>stream.read(n)\<close>: at most one available piece, cut to \<open>n\<close>; empty at the end.\<close>

fun stream_read :: "nat \<Rightarrow> stream \<Rightarrow> bytes \<times> stream" where
  "stream_read n [] = ([], [])"
| "stream_read n (p # ps) =
     (take n p, if length p \<le> n then ps else drop n p # ps)"

function read_exact_loop :: "nat \<Rightarrow> nat \<Rightarrow> bytes \<Rightarrow> stream \<Rightarrow> stream_error + (bytes \<times> stream)" where
  "read_exact_loop n read_size buf s =
     (if length buf < n then
        (let want = min read_size (n - length buf); (piece, s') = stream_read want s in
         if piece = [] then Inl StreamZnnError
         else if length piece > want then Inl StreamZnnError
         else read_exact_loop n read_size (buf @ piece) s')
      else Inr (buf, s))"
  by pat_completeness auto
termination
  by (relation "measure (\<lambda>(n, _, buf, _). n - length buf)") (auto simp: length_greater_0_conv diff_less_mono2)

declare read_exact_loop.simps [simp del]

text \<open>\<open>_read_exact\<close>; its lengths are naturals, so the negative-length guard cannot fire.\<close>

definition read_exact :: "nat \<Rightarrow> nat \<Rightarrow> stream \<Rightarrow> stream_error + (bytes \<times> stream)" where
  "read_exact n read_size s = read_exact_loop n read_size [] s"

text \<open>\<open>_positive_bound\<close> on integers.\<close>

definition positive_bound :: "int \<Rightarrow> bool \<Rightarrow> bool" where
  "positive_bound v zero \<longleftrightarrow> \<not> v < (if zero then 0 else 1)"

text \<open>The checks of \<open>read_zipnn_header\<close> on the 32 header bytes, in the code's order.\<close>

definition check_zipnn_header :: "nat \<Rightarrow> nat \<Rightarrow> nat \<Rightarrow> nat option \<Rightarrow> bytes \<Rightarrow> stream_error + bytes" where
  "check_zipnn_header max_stored max_decoded remaining stored_length header =
     (let original = from_le (take 8 (drop 16 header));
          stored = from_le (take 8 (drop 24 header)) in
      if original > max_decoded \<or> stored > max_stored \<or> original > remaining
      then Inl DecodeLimitExceeded
      else if take 4 header \<noteq> [90, 78, 0, 5] \<or> header ! 8 \<noteq> 1
         \<or> list_ex (\<lambda>b. b \<noteq> 0) (take 5 (drop 9 header))
         \<or> header ! 15 \<notin> {1, 2, 4, 5, 6}
         \<or> header ! 7 \<notin> {0, 1} \<or> header ! 6 \<notin> {0, 1} \<or> header ! 5 \<notin> {10, 220}
      then Inl UnsupportedFrame
      else if stored < 32 \<or> original = 0
         \<or> (case stored_length of None \<Rightarrow> False | Some l \<Rightarrow> stored \<noteq> l)
         \<or> 26 < header ! 14
      then Inl StreamZnnError
      else Inr header)"

definition read_zipnn_header ::
  "nat \<Rightarrow> nat \<Rightarrow> nat \<Rightarrow> nat option \<Rightarrow> bytes \<Rightarrow> nat \<Rightarrow> stream \<Rightarrow> stream_error + (bytes \<times> stream)" where
  "read_zipnn_header max_stored max_decoded remaining stored_length prefix read_size s =
     (if \<not> positive_bound (int max_stored) False \<or> \<not> positive_bound (int max_decoded) False
         \<or> \<not> positive_bound (int read_size) False \<or> \<not> positive_bound (int remaining) True
         \<or> length prefix > 32
      then Inl StreamValueError
      else if (case stored_length of None \<Rightarrow> False | Some l \<Rightarrow> \<not> positive_bound (int l) False)
      then Inl StreamValueError
      else if (case stored_length of None \<Rightarrow> False | Some l \<Rightarrow> l > max_stored)
      then Inl DecodeLimitExceeded
      else if (case stored_length of None \<Rightarrow> False | Some l \<Rightarrow> l < 32)
      then Inl StreamZnnError
      else
       (case read_exact (32 - length prefix) read_size s of
          Inl e \<Rightarrow> Inl e
        | Inr (tail, s') \<Rightarrow>
           (case check_zipnn_header max_stored max_decoded remaining stored_length (prefix @ tail) of
              Inl e \<Rightarrow> Inl e
            | Inr header \<Rightarrow> Inr (header, s'))))"

text \<open>\<open>read_zipnn_frame\<close>: a refusal of the decoder is a \<open>StreamZnnError\<close>.\<close>

definition read_zipnn_frame ::
  "(bytes \<Rightarrow> bytes option) \<Rightarrow> nat \<Rightarrow> nat \<Rightarrow> nat \<Rightarrow> nat option \<Rightarrow> bytes \<Rightarrow> nat \<Rightarrow> stream
     \<Rightarrow> stream_error + (bytes \<times> stream)" where
  "read_zipnn_frame decode max_stored max_decoded remaining stored_length prefix read_size s =
     (case read_zipnn_header max_stored max_decoded remaining stored_length prefix read_size s of
        Inl e \<Rightarrow> Inl e
      | Inr (header, s') \<Rightarrow>
         (let original = from_le (take 8 (drop 16 header));
              stored = from_le (take 8 (drop 24 header)) in
          case read_exact (stored - 32) read_size s' of
            Inl e \<Rightarrow> Inl e
          | Inr (body, s'') \<Rightarrow>
             (case decode (header @ body) of
                None \<Rightarrow> Inl StreamZnnError
              | Some decoded \<Rightarrow>
                 (if length decoded \<noteq> original then Inl StreamZnnError
                  else Inr (decoded, s'')))))"

section \<open>Container framing\<close>

text \<open>The part of \<open>iter_frame_lengths\<close> before its loop.\<close>

definition read_magic :: "nat \<Rightarrow> nat \<Rightarrow> bytes \<Rightarrow> stream \<Rightarrow> stream_error + stream" where
  "read_magic max_stored read_size prefix s =
     (if \<not> positive_bound (int max_stored) False \<or> \<not> positive_bound (int read_size) False
         \<or> length prefix > length MAGIC
      then Inl StreamValueError
      else
       (case read_exact (length MAGIC - length prefix) read_size s of
          Inl e \<Rightarrow> Inl e
        | Inr (tail, s') \<Rightarrow> (if prefix @ tail \<noteq> MAGIC then Inl StreamZnnError else Inr s')))"

text \<open>One iteration of its loop: \<open>None\<close> where the generator returns, else the yielded length.\<close>

definition next_frame :: "nat \<Rightarrow> nat \<Rightarrow> stream \<Rightarrow> stream_error + (nat \<times> stream) option" where
  "next_frame max_stored read_size s =
     (case stream_read 1 s of
        (head, s1) \<Rightarrow>
          (if head = [] then Inr None
           else if length head \<noteq> 1 then Inl StreamZnnError
           else
            (case read_exact 3 read_size s1 of
               Inl e \<Rightarrow> Inl e
             | Inr (rest, s2) \<Rightarrow>
                (let blob_len = from_le (head @ rest) in
                 if blob_len = 0 then Inl StreamZnnError
                 else if blob_len > max_stored then Inl DecodeLimitExceeded
                 else Inr (Some (blob_len, s2))))))"

lemma stream_read_len: "length (concat (snd (stream_read n s))) + length (fst (stream_read n s)) = length (concat s)"
  by (cases s) auto

lemma stream_read_concat: "stream_read n s = (p, s') \<Longrightarrow> concat s = p @ concat s'"
  by (cases s) auto

lemma read_exact_loop_concat:
  "read_exact_loop n k buf s = Inr (bs, s') \<Longrightarrow> length buf \<le> n \<Longrightarrow>
   buf @ concat s = bs @ concat s' \<and> length bs = n"
proof (induction n k buf s rule: read_exact_loop.induct)
  case (1 n k buf s)
  show ?case
  proof (cases "length buf < n")
    case True
    obtain p t where r: "stream_read (min k (n - length buf)) s = (p, t)"
      by fastforce
    have rec: "read_exact_loop n k (buf @ p) t = Inr (bs, s')" "p \<noteq> []" "length p \<le> min k (n - length buf)"
      using "1.prems"(1) True
      by (auto simp: read_exact_loop.simps [of n k buf] r Let_def split: if_splits)
    have "length (buf @ p) \<le> n" using rec(3) True by (simp only: length_append)
    then have "(buf @ p) @ concat t = bs @ concat s' \<and> length bs = n"
      using "1.IH" [OF True refl r [symmetric] refl] rec by (simp add: r)
    then show ?thesis using stream_read_concat [OF r] by simp
  next
    case False
    then show ?thesis using "1.prems" by (simp add: read_exact_loop.simps)
  qed
qed

lemma read_exact_concat:
  "read_exact n k s = Inr (bs, s') \<Longrightarrow> concat s = bs @ concat s' \<and> length bs = n"
  using read_exact_loop_concat [of n k "[]"] by (simp add: read_exact_def)

text \<open>Reading depends on the bytes of the stream only, not on how they are delivered.\<close>

definition live :: "stream \<Rightarrow> bool" where
  "live s \<longleftrightarrow> [] \<notin> set s"

lemma live_read: "live s \<Longrightarrow> stream_read n s = (p, s') \<Longrightarrow> live s'"
  by (cases s) (auto simp: live_def split: if_splits)

lemma live_read_nonempty: "live s \<Longrightarrow> stream_read n s = (p, s') \<Longrightarrow> 0 < n \<Longrightarrow> p = [] \<longleftrightarrow> concat s = []"
  by (cases s) (auto simp: live_def)

lemma stream_read_length: "stream_read n s = (p, s') \<Longrightarrow> length p \<le> n"
  by (cases s) auto

lemma read_exact_loop_total:
  "live s \<Longrightarrow> 0 < k \<Longrightarrow> length buf \<le> n \<Longrightarrow>
   (if n \<le> length buf + length (concat s)
    then \<exists>s'. read_exact_loop n k buf s = Inr (take n (buf @ concat s), s') \<and> live s'
    else read_exact_loop n k buf s = Inl StreamZnnError)"
proof (induction n k buf s rule: read_exact_loop.induct)
  case (1 n k buf s)
  show ?case
  proof (cases "length buf < n")
    case True
    obtain p t where r: "stream_read (min k (n - length buf)) s = (p, t)"
      by fastforce
    note len = stream_read_length [OF r] and cat = stream_read_concat [OF r]
    have ne: "p = [] \<longleftrightarrow> concat s = []"
      using live_read_nonempty [OF "1.prems"(1) r] True "1.prems"(2) by simp
    have step: "read_exact_loop n k buf s =
        (if p = [] then Inl StreamZnnError else read_exact_loop n k (buf @ p) t)"
    proof -
      have "\<not> min k (n - length buf) < length p" using len by (simp add: not_less)
      then show ?thesis using True by (simp add: read_exact_loop.simps [of n k buf] r Let_def)
    qed
    show ?thesis
    proof (cases "p = []")
      case True
      then have "concat s = []" using ne by blast
      then have "length (concat s) = 0" by (simp only: list.size)
      then have "\<not> n \<le> length buf + length (concat s)"
        using \<open>length buf < n\<close> by linarith
      then show ?thesis using True step by simp
    next
      case False
      have "length (buf @ p) \<le> n"
        using len \<open>length buf < n\<close> by (simp only: length_append)
      from "1.IH" [OF True refl r [symmetric] refl False _ live_read [OF "1.prems"(1) r] "1.prems"(2) this]
      have ih: "if n \<le> length (buf @ p) + length (concat t)
          then \<exists>s'. read_exact_loop n k (buf @ p) t = Inr (take n ((buf @ p) @ concat t), s') \<and> live s'
          else read_exact_loop n k (buf @ p) t = Inl StreamZnnError"
        using len by (simp only: not_less simp_thms True_implies_equals)
      have e: "(buf @ p) @ concat t = buf @ concat s"
        "length (buf @ p) + length (concat t) = length buf + length (concat s)"
        by (simp_all only: cat length_append append_assoc add.assoc)
      show ?thesis using ih False unfolding e step by (simp only: if_False)
    qed
  next
    case False
    then show ?thesis using "1.prems" by (auto simp: read_exact_loop.simps)
  qed
qed

lemma read_exact_total:
  assumes "live s" "0 < k"
  shows "n \<le> length (concat s) \<Longrightarrow>
           \<exists>s'. read_exact n k s = Inr (take n (concat s), s') \<and> live s' \<and> concat s' = drop n (concat s)"
    and "length (concat s) < n \<Longrightarrow> read_exact n k s = Inl StreamZnnError"
proof -
  note t = read_exact_loop_total [OF assms, of "[]" n]
  show "length (concat s) < n \<Longrightarrow> read_exact n k s = Inl StreamZnnError"
    using t by (simp add: read_exact_def)
  assume n: "n \<le> length (concat s)"
  then obtain s' where s': "read_exact n k s = Inr (take n (concat s), s')" "live s'"
    using t by (auto simp: read_exact_def)
  then have "concat s = take n (concat s) @ concat s'"
    using read_exact_concat by blast
  then have "concat s' = drop n (concat s)"
    by (metis append_eq_conv_conj length_take min.absorb2 n)
  with s' show "\<exists>s'. read_exact n k s = Inr (take n (concat s), s') \<and> live s' \<and> concat s' = drop n (concat s)"
    by blast
qed

lemma next_frame_consumes:
  "next_frame m k s = Inr (Some (l, s')) \<Longrightarrow> length (concat s') < length (concat s)"
  by (auto simp: next_frame_def Let_def dest!: stream_read_concat read_exact_concat
      split: prod.splits if_splits sum.splits)

section \<open>Decoding a container\<close>

text \<open>
  \<open>iter_decompress\<close> with its default frame reader. The generator's behaviour is the list of
  slices it yields and the error that ends it, if any: slices yielded before an error have
  been delivered. A refusal of \<open>decode\<close> propagates ZipNN's own exception; it is the error
  \<open>StreamZnnError\<close> here.
\<close>

definition over :: "nat option \<Rightarrow> nat \<Rightarrow> bool" where
  "over bound n = (case bound of None \<Rightarrow> False | Some b \<Rightarrow> n > b)"

function decompress_loop ::
  "(bytes \<Rightarrow> bytes option) \<Rightarrow> nat \<Rightarrow> nat option \<Rightarrow> nat option \<Rightarrow> nat \<Rightarrow> nat \<Rightarrow> stream
     \<Rightarrow> bytes list \<times> stream_error option" where
  "decompress_loop decode max_stored max_frame max_total read_size acc s =
     (case next_frame max_stored read_size s of
        Inl e \<Rightarrow> ([], Some e)
      | Inr None \<Rightarrow> ([], None)
      | Inr (Some (blob_len, s1)) \<Rightarrow>
         (case read_exact blob_len read_size s1 of
            Inl e \<Rightarrow> ([], Some e)
          | Inr (blob, s2) \<Rightarrow>
             (case decode blob of
                None \<Rightarrow> ([], Some StreamZnnError)
              | Some restored \<Rightarrow>
                 (if over max_frame (length restored) then ([], Some DecodeLimitExceeded)
                  else if over max_total (acc + length restored) then ([], Some DecodeLimitExceeded)
                  else
                   (let (rest, err) = decompress_loop decode max_stored max_frame max_total read_size
                                        (acc + length restored) s2
                    in (restored # rest, err))))))"
  by pat_completeness auto
termination
proof (relation "measure (\<lambda>(_, _, _, _, _, _, s). length (concat s))", goal_cases)
  case 2
  then show ?case
    by (auto dest!: next_frame_consumes read_exact_concat)
qed simp

declare decompress_loop.simps [simp del]

definition iter_decompress ::
  "(bytes \<Rightarrow> bytes option) \<Rightarrow> nat \<Rightarrow> nat option \<Rightarrow> nat option \<Rightarrow> nat \<Rightarrow> bytes \<Rightarrow> stream
     \<Rightarrow> bytes list \<times> stream_error option" where
  "iter_decompress decode max_stored max_frame max_total read_size prefix s =
     (case read_magic max_stored read_size prefix s of
        Inl e \<Rightarrow> ([], Some e)
      | Inr s' \<Rightarrow> decompress_loop decode max_stored max_frame max_total read_size 0 s')"

text \<open>A regular file is delivered as one piece.\<close>

definition file_stream :: "bytes \<Rightarrow> stream" where
  "file_stream file = (if file = [] then [] else [file])"

text \<open>\<open>decompress_to\<close> on a file: the bytes given to the sink and the error, if any.\<close>

definition decompress_to :: "(bytes \<Rightarrow> bytes option) \<Rightarrow> bytes \<Rightarrow> bytes \<times> stream_error option" where
  "decompress_to decode file =
     (let (pieces, err) = iter_decompress decode MAX_BLOB None None HASH_READ [] (file_stream file)
      in (concat pieces, err))"

text \<open>
  \<open>decompress_file\<close>: the destination is replaced only when decoding ended without error;
  \<open>None\<close> is a destination left as it was.
\<close>

definition decompress_file :: "(bytes \<Rightarrow> bytes option) \<Rightarrow> bytes \<Rightarrow> stream_error + bytes" where
  "decompress_file decode file =
     (case decompress_to decode file of (out, None) \<Rightarrow> Inr out | (_, Some e) \<Rightarrow> Inl e)"

definition is_lower_hex64 :: "str \<Rightarrow> bool" where
  "is_lower_hex64 h \<longleftrightarrow> length h = 64 \<and> list_all is_hex h"

text \<open>\<open>verify_sha256\<close>; \<open>sha\<close> is SHA-256's hex digest (Python's \<open>hashlib\<close>).\<close>

definition verify_sha256 ::
  "(bytes \<Rightarrow> str) \<Rightarrow> (bytes \<Rightarrow> bytes option) \<Rightarrow> bytes \<Rightarrow> str \<Rightarrow> stream_error + bool" where
  "verify_sha256 sha decode file expected =
     (if \<not> is_lower_hex64 expected then Inl StreamValueError
      else (case decompress_to decode file of
              (out, None) \<Rightarrow> Inr (sha out = expected)
            | (_, Some e) \<Rightarrow> Inl e))"

definition is_container :: "bytes \<Rightarrow> bool" where
  "is_container file \<longleftrightarrow> take (length MAGIC) file = MAGIC"

section \<open>Writing a container\<close>

function compress_loop ::
  "(bytes \<Rightarrow> bytes) \<Rightarrow> nat \<Rightarrow> nat option \<Rightarrow> nat \<Rightarrow> bytes \<Rightarrow> stream_error + bytes" where
  "compress_loop zn chunk_bytes max_output written src =
     (if src = [] \<or> chunk_bytes = 0 then Inr []
      else
       (let chunk = take chunk_bytes src; blob = zn chunk in
        if length blob > MAX_BLOB then Inl StreamZnnError
        else if max_output \<noteq> None \<and> length blob > length chunk then Inl OutputCapExceeded
        else if over max_output (written + (4 + length blob)) then Inl OutputCapExceeded
        else
         (case len_pack (length blob) of
            Inl e \<Rightarrow> Inl e
          | Inr header \<Rightarrow>
             (case compress_loop zn chunk_bytes max_output (written + (4 + length blob))
                     (drop chunk_bytes src) of
                Inl e \<Rightarrow> Inl e
              | Inr rest \<Rightarrow> Inr (header @ blob @ rest)))))"
  by pat_completeness auto
termination
  by (relation "measure (\<lambda>(_, _, _, _, src). length src)") auto

declare compress_loop.simps [simp del]

text \<open>\<open>compress_file\<close>: the bytes published at the destination, or the error that leaves it alone.\<close>

definition compress_file :: "(bytes \<Rightarrow> bytes) \<Rightarrow> int \<Rightarrow> nat option \<Rightarrow> bytes \<Rightarrow> stream_error + bytes" where
  "compress_file zn chunk_bytes max_output src =
     (if chunk_bytes \<le> 0 then Inl StreamValueError
      else if over max_output (length MAGIC) then Inl OutputCapExceeded
      else (case compress_loop zn (nat chunk_bytes) max_output (length MAGIC) src of
              Inl e \<Rightarrow> Inl e
            | Inr body \<Rightarrow> Inr (MAGIC @ body)))"

section \<open>Frames\<close>

lemma length_le_bytes [simp]: "length (le_bytes n) = 4"
  by (simp add: le_bytes_def)

lemma unat_byte: "unat (of_nat (n mod 256) :: byte) = n mod 256"
  by (simp add: unat_of_nat)

lemma from_le_le_bytes:
  assumes "n < 2 ^ 32"
  shows "from_le (le_bytes n) = n"
proof -
  have e: "le_bytes n = [of_nat (n mod 256), of_nat (n div 256 mod 256),
      of_nat (n div 65536 mod 256), of_nat (n div 16777216 mod 256)]"
    by (simp add: le_bytes_def upt_rec)
  have d: "n div 65536 = n div 256 div 256" "n div 16777216 = n div 256 div 256 div 256"
    by (simp_all add: div_mult2_eq [symmetric])
  have m: "x mod 256 + 256 * (x div 256) = x" for x :: nat
    by simp
  have "n div 256 div 256 div 256 < 256" using assms by (simp add: div_mult2_eq [symmetric])
  then have last: "n div 256 div 256 div 256 mod 256 = n div 256 div 256 div 256" by simp
  show ?thesis
    unfolding e by (simp only: from_le.simps unat_byte, simp only: d last m mult_0_right add_0_right)
qed

text \<open>The frame of a blob, and the slices \<open>compress_file\<close> reads.\<close>

definition frame :: "bytes \<Rightarrow> bytes" where
  "frame b = le_bytes (length b) @ b"

function slices :: "nat \<Rightarrow> bytes \<Rightarrow> bytes list" where
  "slices k src = (if src = [] \<or> k = 0 then [] else take k src # slices k (drop k src))"
  by pat_completeness auto
termination
  by (relation "measure (\<lambda>(_, src). length src)") auto

declare slices.simps [simp del]

lemma slices_Nil [simp]: "slices k [] = []" "slices 0 src = []"
  by (simp_all add: slices.simps)

lemma slices_step: "src \<noteq> [] \<Longrightarrow> 0 < k \<Longrightarrow> slices k src = take k src # slices k (drop k src)"
  by (subst slices.simps) simp

lemma concat_slices: "0 < k \<Longrightarrow> concat (slices k src) = src"
proof (induction k src rule: slices.induct)
  case (1 k src)
  then show ?case by (cases "src = []") (simp_all add: slices_step)
qed

lemma slices_spec: "c \<in> set (slices k src) \<Longrightarrow> c \<noteq> [] \<and> length c \<le> k"
proof (induction k src rule: slices.induct)
  case (1 k src)
  then show ?case by (cases "src = [] \<or> k = 0") (auto simp: slices_step)
qed

lemma take_slices: "concat (take m (slices k src)) = take (m * k) src"
proof (induction k src arbitrary: m rule: slices.induct)
  case (1 k src)
  show ?case
  proof (cases "src = [] \<or> k = 0 \<or> m = 0")
    case True
    then show ?thesis by auto
  next
    case False
    then obtain j where j: "m = Suc j" by (cases m) auto
    have "concat (take j (slices k (drop k src))) = take (j * k) (drop k src)"
      using "1.IH" False by blast
    then show ?thesis
      using False by (simp add: slices_step j take_add)
  qed
qed

lemma compress_loop_body:
  "compress_loop zn k mx w src = Inr body \<Longrightarrow>
   body = concat (map (\<lambda>c. frame (zn c)) (slices k src))
   \<and> (\<forall>c\<in>set (slices k src). length (zn c) < 2 ^ 32)"
proof (induction zn k mx w src arbitrary: body rule: compress_loop.induct)
  case (1 zn k mx w src)
  show ?case
  proof (cases "src = [] \<or> k = 0")
    case True
    then show ?thesis using "1.prems" by (auto simp: compress_loop.simps)
  next
    case False
    let ?b = "zn (take k src)"
    from "1.prems" False obtain rest where
      g: "\<not> length ?b > MAX_BLOB" "\<not> (mx \<noteq> None \<and> length ?b > length (take k src))"
         "\<not> over mx (w + (4 + length ?b))" "length ?b < 2 ^ 32"
      and rest: "compress_loop zn k mx (w + (4 + length ?b)) (drop k src) = Inr rest"
      and body: "body = frame ?b @ rest"
      by (auto simp: compress_loop.simps [of zn k mx w src] Let_def len_pack_def frame_def
          split: if_splits sum.splits)
    have h: "len_pack (length ?b) = Inr (le_bytes (length ?b))"
      using g(4) by (simp add: len_pack_def)
    from "1.IH" [OF False refl refl g(1,2,3) h rest] show ?thesis
      using False g(4) by (simp add: slices_step body)
  qed
qed

lemma compress_file_body:
  assumes "compress_file zn k mx src = Inr out"
  shows "out = MAGIC @ concat (map (\<lambda>c. frame (zn c)) (slices (nat k) src))"
    "\<forall>c\<in>set (slices (nat k) src). length (zn c) < 2 ^ 32" "0 < k"
  using assms compress_loop_body [of zn "nat k" mx "length MAGIC" src]
  by (auto simp: compress_file_def split: if_splits sum.splits)

lemma compress_loop_cap:
  "compress_loop zn k (Some cap) w src = Inr body \<Longrightarrow> w \<le> cap \<Longrightarrow> w + length body \<le> cap"
proof (induction zn k "Some cap" w src arbitrary: body rule: compress_loop.induct)
  case (1 zn k w src)
  show ?case
  proof (cases "src = [] \<or> k = 0")
    case True
    then show ?thesis using "1.prems" by (auto simp: compress_loop.simps)
  next
    case False
    let ?b = "zn (take k src)"
    from "1.prems"(1) False obtain rest where
      g: "\<not> length ?b > MAX_BLOB" "\<not> (Some cap \<noteq> None \<and> length ?b > length (take k src))"
         "\<not> over (Some cap) (w + (4 + length ?b))" "length ?b < 2 ^ 32"
      and rest: "compress_loop zn k (Some cap) (w + (4 + length ?b)) (drop k src) = Inr rest"
      and body: "body = frame ?b @ rest"
      by (auto simp: compress_loop.simps [of zn k "Some cap" w src] Let_def len_pack_def frame_def
          split: if_splits sum.splits)
    have h: "len_pack (length ?b) = Inr (le_bytes (length ?b))"
      using g(4) by (simp add: len_pack_def)
    have "w + (4 + length ?b) \<le> cap" using g(3) by (simp add: over_def)
    from "1.hyps" [OF False refl refl g(1,2,3) h rest this] show ?thesis
      by (simp add: body frame_def)
  qed
qed

section \<open>Reading frames back\<close>

lemma next_frame_eof:
  assumes "live s" "concat s = []"
  shows "next_frame m k s = Inr None"
  using assms by (cases s) (auto simp: next_frame_def live_def)

lemma next_frame_read:
  assumes "live s" "0 < k" "concat s = h # r"
  shows "3 \<le> length r \<Longrightarrow> \<exists>s'. live s' \<and> concat s' = drop 3 r \<and>
           next_frame m k s =
             (let l = from_le (h # take 3 r) in
              if l = 0 then Inl StreamZnnError else if l > m then Inl DecodeLimitExceeded
              else Inr (Some (l, s')))"
    and "length r < 3 \<Longrightarrow> next_frame m k s = Inl StreamZnnError"
proof -
  obtain p s1 where r1: "stream_read 1 s = (p, s1)" by fastforce
  have "p \<noteq> []" using live_read_nonempty [OF assms(1) r1] assms(3) by simp
  then have p: "p = [h]" "concat s1 = r"
    using stream_read_concat [OF r1] stream_read_length [OF r1] assms(3)
    by (cases p; auto)+
  note live1 = live_read [OF assms(1) r1]
  show "length r < 3 \<Longrightarrow> next_frame m k s = Inl StreamZnnError"
    using read_exact_total(2) [OF live1 assms(2), of 3] by (simp add: next_frame_def r1 p del: One_nat_def)
  assume "3 \<le> length r"
  then obtain s' where "read_exact 3 k s1 = Inr (take 3 r, s')" "live s'" "concat s' = drop 3 r"
    using read_exact_total(1) [OF live1 assms(2), of 3] p(2) by auto
  then show "\<exists>s'. live s' \<and> concat s' = drop 3 r \<and>
           next_frame m k s =
             (let l = from_le (h # take 3 r) in
              if l = 0 then Inl StreamZnnError else if l > m then Inl DecodeLimitExceeded
              else Inr (Some (l, s')))"
    by (auto simp: next_frame_def r1 p(1) Let_def simp del: One_nat_def)
qed

lemma next_frame_frame:
  assumes "live s" "0 < k" "concat s = frame b @ r" "b \<noteq> []" "length b < 2 ^ 32" "length b \<le> m"
  shows "\<exists>s'. live s' \<and> concat s' = b @ r \<and> next_frame m k s = Inr (Some (length b, s'))"
proof -
  obtain h t where ht: "le_bytes (length b) = h # t"
    by (cases "le_bytes (length b)") (auto dest: arg_cong [of _ _ length])
  have t: "length t = 3" using arg_cong [OF ht, of length] by simp
  have s: "concat s = h # (t @ b @ r)" using assms(3) by (simp add: frame_def ht)
  have "from_le (h # take 3 (t @ b @ r)) = length b"
    using from_le_le_bytes [OF assms(5)] by (simp add: ht t)
  with next_frame_read(1) [OF assms(1,2) s, of m] t assms(4,6) show ?thesis
    by (auto simp: Let_def)
qed

text \<open>A stream that starts with whole frames yields their contents, then whatever the rest gives.\<close>

lemma decompress_loop_frames:
  assumes "0 < k" and "\<forall>b\<in>set bs. b \<noteq> [] \<and> length b < 2 ^ 32 \<and> length b \<le> m \<and> decode b = Some (g b)"
  shows "live s \<Longrightarrow> concat s = concat (map frame bs) @ r \<Longrightarrow>
    \<exists>s'. live s' \<and> concat s' = r \<and>
      decompress_loop decode m None None k acc s =
        (let (ps, e) = decompress_loop decode m None None k (acc + sum_list (map (length \<circ> g) bs)) s'
         in (map g bs @ ps, e))"
  using assms(2)
proof (induction bs arbitrary: s acc)
  case Nil
  then show ?case by (intro exI [of _ s]) (simp split: prod.split)
next
  case (Cons b bs)
  have b: "b \<noteq> []" "length b < 2 ^ 32" "length b \<le> m" "decode b = Some (g b)"
    and bs: "\<forall>b\<in>set bs. b \<noteq> [] \<and> length b < 2 ^ 32 \<and> length b \<le> m \<and> decode b = Some (g b)"
    using Cons.prems(3) by auto
  have "concat s = frame b @ (concat (map frame bs) @ r)" using Cons.prems(2) by simp
  from next_frame_frame [OF Cons.prems(1) assms(1) this b(1-3)]
  obtain s1 where s1: "live s1" "concat s1 = b @ (concat (map frame bs) @ r)"
    and nf: "next_frame m k s = Inr (Some (length b, s1))" by blast
  obtain s2 where re: "read_exact (length b) k s1 = Inr (b, s2)" and s2: "live s2"
    "concat s2 = concat (map frame bs) @ r"
    using read_exact_total(1) [OF s1(1) assms(1), of "length b"] s1(2) by auto
  obtain s' where s': "live s'" "concat s' = r" and
    rec: "decompress_loop decode m None None k (acc + length (g b)) s2 =
        (let (ps, e) = decompress_loop decode m None None k
             (acc + length (g b) + sum_list (map (length \<circ> g) bs)) s'
         in (map g bs @ ps, e))"
    using Cons.IH [OF s2 bs] by blast
  show ?case
    using s' by (intro exI [of _ s'])
      (simp add: decompress_loop.simps [of decode m None None k acc s] nf re b(4) over_def rec
        comp_def add.assoc split: prod.split)
qed

lemma decompress_loop_eof: "live s \<Longrightarrow> concat s = [] \<Longrightarrow> decompress_loop d m f t k acc s = ([], None)"
  by (simp add: decompress_loop.simps next_frame_eof del: concat_eq_Nil_conv)

text \<open>A frame that is cut short is an error, wherever it is cut.\<close>

lemma decompress_loop_cut:
  assumes "live s" "0 < k" "concat s = take i (frame b)" "0 < i" "i < length (frame b)"
    "b \<noteq> []" "length b < 2 ^ 32" "length b \<le> m"
  shows "decompress_loop d m f mt k acc s = ([], Some StreamZnnError)"
proof (cases "i < 4")
  case True
  have "take i (frame b) \<noteq> []" using assms(4,5) by auto
  then obtain h r where hr: "concat s = h # r"
    using assms(3) by (metis neq_Nil_conv)
  have "length r < 3"
    using arg_cong [OF hr, of length] assms(3) True by simp
  from next_frame_read(2) [OF assms(1,2) hr this] show ?thesis
    by (simp add: decompress_loop.simps)
next
  case False
  have cat: "concat s = le_bytes (length b) @ take (i - 4) b"
    using assms(3) False by (simp add: frame_def)
  obtain h t where ht: "le_bytes (length b) = h # t"
    by (cases "le_bytes (length b)") (auto dest: arg_cong [of _ _ length])
  have t: "length t = 3" using arg_cong [OF ht, of length] by simp
  have l: "from_le (h # take 3 (t @ take (i - 4) b)) = length b"
    using from_le_le_bytes [OF assms(7)] by (simp add: ht t)
  have c: "concat s = h # (t @ take (i - 4) b)" using cat ht by simp
  have "3 \<le> length (t @ take (i - 4) b)" using t by simp
  from next_frame_read(1) [OF assms(1,2) c this, of m, unfolded l Let_def]
  obtain s1 where s1: "live s1" "concat s1 = drop 3 (t @ take (i - 4) b)"
    and nf0: "next_frame m k s = (if length b = 0 then Inl StreamZnnError
        else if length b > m then Inl DecodeLimitExceeded else Inr (Some (length b, s1)))"
    by blast
  have s1c: "concat s1 = take (i - 4) b" using s1(2) t by simp
  have nf: "next_frame m k s = Inr (Some (length b, s1))"
    using nf0 assms(6,8) by simp
  have "length (concat s1) < length b"
    using assms(5) False by (simp add: s1c frame_def del: length_concat)
  from read_exact_total(2) [OF s1(1) assms(2) this] show ?thesis
    by (simp add: decompress_loop.simps [of d m f mt k acc s] nf)
qed

lemma take_frames:
  "\<exists>n r. take j (concat (map frame bs)) = concat (map frame (take n bs)) @ r
     \<and> (r = [] \<or> (\<exists>b\<in>set bs. \<exists>i. 0 < i \<and> i < length (frame b) \<and> r = take i (frame b)))"
proof (induction bs arbitrary: j)
  case (Cons b bs)
  show ?case
  proof (cases "j < length (frame b)")
    case True
    then show ?thesis
      by (intro exI [of _ 0] exI [of _ "take j (frame b)"]) auto
  next
    case False
    obtain n r where "take (j - length (frame b)) (concat (map frame bs)) = concat (map frame (take n bs)) @ r"
      "r = [] \<or> (\<exists>b\<in>set bs. \<exists>i. 0 < i \<and> i < length (frame b) \<and> r = take i (frame b))"
      using Cons.IH by blast
    with False show ?thesis
      by (intro exI [of _ "Suc n"] exI [of _ r]) auto
  qed
qed simp

lemma file_stream [simp]: "live (file_stream f)" "concat (file_stream f) = f"
  by (auto simp: file_stream_def live_def)

lemma read_magic_ok:
  assumes "live s" "0 < k" "0 < m" "concat s = MAGIC @ r"
  shows "\<exists>s'. read_magic m k [] s = Inr s' \<and> live s' \<and> concat s' = r"
  using read_exact_total(1) [OF assms(1,2), of "length MAGIC"] assms(3,4)
  by (auto simp: read_magic_def positive_bound_def assms(2))

lemma read_magic_short:
  assumes "live s" "0 < k" "0 < m" "length (concat s) < length MAGIC"
  shows "read_magic m k [] s = Inl StreamZnnError"
  using read_exact_total(2) [OF assms(1,2,4)] assms(2,3)
  by (simp add: read_magic_def positive_bound_def)

lemma bounds_pos [simp]: "0 < MAX_BLOB" "0 < HASH_READ"
  by (simp_all add: MAX_BLOB_def HASH_READ_def)

lemma decompress_to_frames:
  assumes "\<forall>b\<in>set bs. b \<noteq> [] \<and> length b < 2 ^ 32 \<and> decode b = Some (g b)"
    and "r = [] \<or> (\<exists>b\<in>set bs'. \<exists>i. 0 < i \<and> i < length (frame b) \<and> r = take i (frame b))"
    and "\<forall>b\<in>set bs'. b \<noteq> [] \<and> length b < 2 ^ 32"
  shows "decompress_to decode (MAGIC @ concat (map frame bs) @ r)
     = (concat (map g bs), if r = [] then None else Some StreamZnnError)"
proof -
  obtain s where s: "read_magic MAX_BLOB HASH_READ [] (file_stream (MAGIC @ concat (map frame bs) @ r)) = Inr s"
    "live s" "concat s = concat (map frame bs) @ r"
    using read_magic_ok [of "file_stream (MAGIC @ concat (map frame bs) @ r)" HASH_READ MAX_BLOB] by auto
  have small: "length b < 2 ^ 32 \<Longrightarrow> length b \<le> MAX_BLOB" for b :: bytes
    by (simp add: MAX_BLOB_def)
  have "\<forall>b\<in>set bs. b \<noteq> [] \<and> length b < 2 ^ 32 \<and> length b \<le> MAX_BLOB \<and> decode b = Some (g b)"
    using assms(1) small by blast
  from decompress_loop_frames [OF bounds_pos(2) this s(2,3), of 0]
  obtain s' where s': "live s'" "concat s' = r" and loop:
    "decompress_loop decode MAX_BLOB None None HASH_READ 0 s =
       (let (ps, e) = decompress_loop decode MAX_BLOB None None HASH_READ
            (0 + sum_list (map (length \<circ> g) bs)) s' in (map g bs @ ps, e))" by blast
  have "decompress_loop decode MAX_BLOB None None HASH_READ (0 + sum_list (map (length \<circ> g) bs)) s' =
      ([], if r = [] then None else Some StreamZnnError)"
  proof (cases "r = []")
    case True
    then have "concat s' = []" using s'(2) by (simp only:)
    from decompress_loop_eof [OF s'(1) this] True show ?thesis by simp
  next
    case False
    then obtain b i where "b \<in> set bs'" "0 < i" "i < length (frame b)" "r = take i (frame b)"
      using assms(2) by blast
    then show ?thesis
      using decompress_loop_cut [OF s'(1) bounds_pos(2), of i b] s'(2) assms(3) small False by auto
  qed
  with loop show ?thesis
    by (simp add: decompress_to_def iter_decompress_def s(1))
qed

text \<open>
  ZipNN's documented contract on slices of at most \<open>k\<close> bytes: blobs are not empty and
  decode to the slice they were made from.
\<close>

definition lossless :: "(bytes \<Rightarrow> bytes) \<Rightarrow> (bytes \<Rightarrow> bytes option) \<Rightarrow> nat \<Rightarrow> bool" where
  "lossless zn decode k \<longleftrightarrow> (\<forall>c. c \<noteq> [] \<and> length c \<le> k \<longrightarrow> zn c \<noteq> [] \<and> decode (zn c) = Some c)"

text \<open>Whole containers and their cuts, in terms of the source slices.\<close>

lemma container_cut:
  assumes "compress_file zn k mx src = Inr out" "lossless zn decode (nat k)"
  shows "length MAGIC \<le> n \<Longrightarrow> \<exists>m r. take n out = MAGIC @ concat (map (\<lambda>c. frame (zn c)) (take m (slices (nat k) src))) @ r \<and>
      decompress_to decode (take n out) =
        (take (m * nat k) src, if r = [] then None else Some StreamZnnError)"
    and "decompress_to decode
          (MAGIC @ concat (map (\<lambda>c. frame (zn c)) (take m (slices (nat k) src)))) = (take (m * nat k) src, None)"
proof -
  let ?cs = "slices (nat k) src"
  note out = compress_file_body [OF assms(1)]
  have ok: "\<forall>c\<in>set ?cs. zn c \<noteq> [] \<and> length (zn c) < 2 ^ 32 \<and> decode (zn c) = Some c"
    using out(2) slices_spec assms(2) unfolding lossless_def by blast
  have dec: "\<forall>b\<in>set (map zn (take m ?cs)). b \<noteq> [] \<and> length b < 2 ^ 32 \<and> decode b = Some (the (decode b))" for m
    using ok by (auto dest: in_set_takeD)
  have g: "concat (map (the \<circ> decode) (map zn (take m ?cs))) = take (m * nat k) src" for m
  proof -
    have "map (the \<circ> decode) (map zn (take m ?cs)) = take m ?cs"
      using ok by (auto intro!: map_idI dest: in_set_takeD)
    then show ?thesis by (simp add: take_slices)
  qed
  show "decompress_to decode
          (MAGIC @ concat (map (\<lambda>c. frame (zn c)) (take m ?cs))) = (take (m * nat k) src, None)"
    using decompress_to_frames [OF dec, of "[]" "[]" m] g [of m] by (simp add: comp_def)
  assume n: "length MAGIC \<le> n"
  obtain m r where cut: "take (n - length MAGIC) (concat (map frame (map zn ?cs)))
        = concat (map frame (take m (map zn ?cs))) @ r"
    and r: "r = [] \<or> (\<exists>b\<in>set (map zn ?cs). \<exists>i. 0 < i \<and> i < length (frame b) \<and> r = take i (frame b))"
    using take_frames by blast
  have tk: "take n out = MAGIC @ concat (map frame (map zn (take m ?cs))) @ r"
    using n cut out(1) by (simp add: comp_def take_map)
  have "\<forall>b\<in>set (map zn ?cs). b \<noteq> [] \<and> length b < 2 ^ 32" using ok by auto
  from decompress_to_frames [OF dec r this] g
  show "\<exists>m r. take n out = MAGIC @ concat (map (\<lambda>c. frame (zn c)) (take m ?cs)) @ r \<and>
      decompress_to decode (take n out) =
        (take (m * nat k) src, if r = [] then None else Some StreamZnnError)"
    by (intro exI [of _ m] exI [of _ r]) (simp add: tk comp_def)
qed

text \<open>One frame is read from the bytes alone: delivery and read size do not matter.\<close>

lemma read_exact_indep:
  assumes "live s" "live t" "concat s = concat t" "0 < k" "0 < k'"
  obtains (err) "read_exact n k s = Inl StreamZnnError" "read_exact n k' t = Inl StreamZnnError"
  | (ok) bs s' t' where "read_exact n k s = Inr (bs, s')" "read_exact n k' t = Inr (bs, t')"
      "live s'" "live t'" "concat s' = concat t'" "concat s = bs @ concat s'"
proof (cases "n \<le> length (concat s)")
  case True
  from read_exact_total(1) [OF assms(1,4) True] read_exact_total(1) [OF assms(2,5) True [unfolded assms(3)]]
  show ?thesis using ok assms(3) by (metis append_take_drop_id)
next
  case False
  then have "length (concat s) < n" "length (concat t) < n" using assms(3) by simp_all
  with read_exact_total(2) [OF assms(1,4)] read_exact_total(2) [OF assms(2,5)] show ?thesis
    using err by blast
qed

lemma next_frame_indep:
  assumes "live s" "live t" "concat s = concat t" "0 < k" "0 < k'"
  obtains (err) e where "next_frame m k s = Inl e" "next_frame m k' t = Inl e"
  | (eof) "next_frame m k s = Inr None" "next_frame m k' t = Inr None"
  | (frame) l s' t' where "next_frame m k s = Inr (Some (l, s'))" "next_frame m k' t = Inr (Some (l, t'))"
      "live s'" "live t'" "concat s' = concat t'"
proof (cases "concat s")
  case Nil
  show ?thesis
    using eof next_frame_eof [OF assms(1) Nil] next_frame_eof [OF assms(2) Nil [unfolded assms(3)]] .
next
  case (Cons h r)
  note sh = Cons and th = Cons [unfolded assms(3)]
  show ?thesis
  proof (cases "3 \<le> length r")
    case True
    define l where "l = from_le (h # take 3 r)"
    from next_frame_read(1) [OF assms(1,4) sh True, of m, folded l_def, unfolded Let_def]
    obtain s' where s': "live s'" "concat s' = drop 3 r" "next_frame m k s =
        (if l = 0 then Inl StreamZnnError else if m < l then Inl DecodeLimitExceeded
         else Inr (Some (l, s')))" by blast
    from next_frame_read(1) [OF assms(2,5) th True, of m, folded l_def, unfolded Let_def]
    obtain t' where t': "live t'" "concat t' = drop 3 r" "next_frame m k' t =
        (if l = 0 then Inl StreamZnnError else if m < l then Inl DecodeLimitExceeded
         else Inr (Some (l, t')))" by blast
    show ?thesis
      using err frame [OF _ _ s'(1) t'(1)] s' t' by (cases "l = 0"; cases "m < l") simp_all
  next
    case False
    then show ?thesis
      using err next_frame_read(2) [OF assms(1,4) sh] next_frame_read(2) [OF assms(2,5) th] by simp
  qed
qed

lemma decompress_loop_indep:
  "live s \<Longrightarrow> live t \<Longrightarrow> concat s = concat t \<Longrightarrow> 0 < k \<Longrightarrow> 0 < k' \<Longrightarrow>
   decompress_loop d m f mt k acc s = decompress_loop d m f mt k' acc t"
proof (induction "length (concat s)" arbitrary: s t acc rule: less_induct)
  case less
  note eqs = decompress_loop.simps [of d m f mt k acc s] decompress_loop.simps [of d m f mt k' acc t]
  from less.prems show ?case
  proof (cases rule: next_frame_indep [where m = m])
    case (frame l s1 t1)
    from frame(3-5) less.prems(4,5) show ?thesis
    proof (cases rule: read_exact_indep [where n = l])
      case err
      then show ?thesis by (simp add: eqs frame(1,2))
    next
      case (ok bs s2 t2)
      have "length (concat s2) < length (concat s)"
        using next_frame_consumes [OF frame(1)] ok(6) by simp
      then have "decompress_loop d m f mt k acc' s2 = decompress_loop d m f mt k' acc' t2" for acc'
        using less.hyps ok(3-5) less.prems(4,5) by blast
      then show ?thesis by (simp add: eqs frame(1,2) ok(1,2) split: option.split)
    qed
  qed (simp_all add: eqs)
qed

section \<open>Properties\<close>

text \<open>
  C28: Compressing a file and decompressing the container gives the file back, for every
  slice size, provided ZipNN restores each slice; the container carries the magic.
\<close>

theorem container_roundtrip:
  assumes "compress_file zn k mx src = Inr out" and "lossless zn decode (nat k)"
  shows "decompress_file decode out = Inr src \<and> is_container out"
proof -
  let ?cs = "slices (nat k) src"
  note out = compress_file_body [OF assms(1)]
  have "decompress_to decode out = (concat ?cs, None)"
    using container_cut(2) [OF assms, of "length ?cs"] out(1) take_slices [of "length ?cs" "nat k" src]
    by simp
  then show ?thesis
    using out by (simp add: decompress_file_def concat_slices is_container_def)
qed

theorem container_roundtrip_witness:
  "decompress_file Some (MAGIC @ frame [7, 8] @ frame [9]) = Inr [7, 8, 9]
     \<and> is_container (MAGIC @ frame [7, 8] @ frame [9])"
proof (rule container_roundtrip)
  show "compress_file id 2 None [7, 8, 9] = Inr (MAGIC @ frame [7, 8] @ frame [9])"
    by (simp add: compress_file_def over_def compress_loop.simps MAX_BLOB_def len_pack_def frame_def)
  show "lossless id Some (nat 2)"
    by (simp add: lossless_def)
qed

text \<open>
  A container cut anywhere decodes to an error or to a whole number of source slices:
  bytes that were not in the source are never produced.
\<close>

theorem truncated_container:
  assumes "compress_file zn k mx src = Inr out" and "lossless zn decode (nat k)"
  shows "decompress_file decode (take n out) = Inl StreamZnnError
     \<or> (\<exists>m. decompress_file decode (take n out) = Inr (take (m * nat k) src))"
proof (cases "length MAGIC \<le> n")
  case True
  from container_cut(1) [OF assms this] show ?thesis
    by (auto simp: decompress_file_def split: if_splits)
next
  case False
  then have "length (concat (file_stream (take n out))) < length MAGIC"
    using compress_file_body(1) [OF assms(1)] by simp
  from read_magic_short [OF file_stream(1) bounds_pos(2,1) this] show ?thesis
    by (simp add: decompress_file_def decompress_to_def iter_decompress_def)
qed

theorem truncated_container_witness:
  "decompress_file Some (take 7 (MAGIC @ frame [7, 8] @ frame [9])) = Inl StreamZnnError
     \<or> (\<exists>m. decompress_file Some (take 7 (MAGIC @ frame [7, 8] @ frame [9])) = Inr (take (m * nat 2) [7, 8, 9]))"
proof (rule truncated_container)
  show "compress_file id 2 None [7, 8, 9] = Inr (MAGIC @ frame [7, 8] @ frame [9])"
    by (simp add: compress_file_def over_def compress_loop.simps MAX_BLOB_def len_pack_def frame_def)
  show "lossless id Some (nat 2)"
    by (simp add: lossless_def)
qed

text \<open>
  The container format carries no end marker: a container of more than one slice cut
  after its first frame is accepted by \<open>decompress_file\<close>, which publishes the first slice
  only as if it were the whole file. The module's claim that corruption always fails loudly
  does not cover this cut; the digest check of \<open>verify_sha256\<close> does.
\<close>

theorem boundary_truncation_accepted:
  assumes "compress_file zn k mx src = Inr out" and "lossless zn decode (nat k)"
    and "nat k < length src"
  shows "\<exists>n < length out. decompress_file decode (take n out) = Inr (take (nat k) src)
     \<and> take (nat k) src \<noteq> src"
proof -
  let ?cs = "slices (nat k) src"
  note out = compress_file_body [OF assms(1)]
  have ne: "src \<noteq> []" "drop (nat k) src \<noteq> []" using assms(3) by auto
  have cs: "?cs = take (nat k) src # take (nat k) (drop (nat k) src) # slices (nat k) (drop (nat k) (drop (nat k) src))"
    using ne out(3) by (simp add: slices_step)
  let ?p = "MAGIC @ frame (zn (take (nat k) src))"
  have p: "take (length ?p) out = ?p" and len: "length ?p < length out"
    by (simp_all add: out(1) cs frame_def)
  have "decompress_to decode ?p = (take (nat k) src, None)"
    using container_cut(2) [OF assms(1,2), of 1] by (simp add: cs)
  with p len assms(3) show ?thesis
    by (intro exI [of _ "length ?p"]) (auto simp: decompress_file_def dest: arg_cong [of _ _ length])
qed

theorem boundary_truncation_accepted_witness:
  "\<exists>n < length (MAGIC @ frame [7, 8] @ frame [9]).
     decompress_file Some (take n (MAGIC @ frame [7, 8] @ frame [9])) = Inr (take (nat 2) [7, 8, 9])
     \<and> take (nat 2) [7, 8, 9] \<noteq> ([7, 8, 9] :: bytes)"
proof (rule boundary_truncation_accepted)
  show "compress_file id 2 None [7, 8, 9] = Inr (MAGIC @ frame [7, 8] @ frame [9])"
    by (simp add: compress_file_def over_def compress_loop.simps MAX_BLOB_def len_pack_def frame_def)
  show "lossless id Some (nat 2)"
    by (simp add: lossless_def)
qed simp

text \<open>
  C38: What a reader yields, error included, depends on the bytes of the source only: short
  reads, the way a stream is cut into non-empty pieces, and the (positive) read size change
  nothing.
\<close>

theorem delivery_independent:
  assumes "live s" "live t" "concat s = concat t" "0 < k" "0 < k'"
  shows "iter_decompress d m f mt k pre s = iter_decompress d m f mt k' pre t"
proof -
  from assms show ?thesis
  proof (cases rule: read_exact_indep [where n = "length MAGIC - length pre"])
    case err
    then show ?thesis
      using assms(4,5) by (simp add: iter_decompress_def read_magic_def positive_bound_def)
  next
    case (ok bs s' t')
    from decompress_loop_indep [OF ok(3-5) assms(4,5)] show ?thesis
      using assms(4,5) by (simp add: iter_decompress_def read_magic_def positive_bound_def ok(1,2))
  qed
qed

theorem delivery_independent_witness:
  "iter_decompress Some 9 None None 2 [] [MAGIC @ frame [7, 8]]
     = iter_decompress Some 9 None None 1 [] [take 3 MAGIC, drop 3 MAGIC @ frame [7, 8]]"
  by (rule delivery_independent) (simp_all add: live_def MAGIC_def frame_def)

end
