(* ===== verification/Codec.thy ===== *)
theory Codec
  imports StreamZnn
begin

text \<open>
  \<open>modelark/compress.py\<close>: the per-shard codec choice, the guaranteed output ceilings and
  the capped compression dispatch. ZipNN (\<open>zn\<close>: slice to blob, \<open>whole\<close>: shard to blob) and
  zstandard (\<open>zstd\<close>: the pieces its compressor object emits for a source, the final flush
  included; \<open>None\<close> when the module is not installed) are parameters.
\<close>

definition CODEC_WHOLE :: str where "CODEC_WHOLE = ''zipnn-whole''"
definition CODEC_STREAM :: str where "CODEC_STREAM = ''streamznn''"
definition CODEC_ZSTD :: str where "CODEC_ZSTD = ''zstd-stream''"
definition CODEC_RAW :: str where "CODEC_RAW = ''raw''"

lemmas codec_names = CODEC_WHOLE_def CODEC_STREAM_def CODEC_ZSTD_def CODEC_RAW_def

text \<open>The two keys of \<open>wishlist.compression()\<close> the planner reads.\<close>

record compression_cfg =
  cc_max_compress_ram_gb :: rat
  cc_stream_compress :: bool

datatype compress_error =
    CompressCapExceeded
  | CompressStream stream_error
  | ZstdNotInstalled
  | UnsupportedCodec str

definition plan_codec :: "bool \<Rightarrow> int \<Rightarrow> compression_cfg \<Rightarrow> str" where
  "plan_codec zstd_installed shard_bytes cfg =
     (let budget = fl (fl (cc_max_compress_ram_gb cfg) * 10 ^ 9) in
      if fl (4 * fl (of_int shard_bytes)) \<le> budget then CODEC_WHOLE
      else if cc_stream_compress cfg then CODEC_STREAM
      else if zstd_installed then CODEC_ZSTD
      else CODEC_RAW)"

definition zstd_output_cap :: "int \<Rightarrow> int" where
  "zstd_output_cap raw_size =
     (let low_size_overhead = (if raw_size < 128 * 1024 then (128 * 1024 - raw_size) div 2 ^ 11 else 0)
      in raw_size + raw_size div 2 ^ 8 + low_size_overhead)"

definition codec_output_cap :: "int \<Rightarrow> str \<Rightarrow> int \<Rightarrow> compress_error + int" where
  "codec_output_cap raw_size codec stream_chunk_bytes =
     (if codec = CODEC_RAW then Inr 0
      else if codec = CODEC_STREAM then
        (let chunks = (if raw_size \<noteq> 0 then py_ceil (fl (of_int raw_size / of_int stream_chunk_bytes)) else 0)
         in Inr (raw_size + int (length MAGIC) + 4 * chunks))
      else if codec = CODEC_ZSTD then Inr (zstd_output_cap raw_size)
      else if codec = CODEC_WHOLE then Inr raw_size
      else Inl (UnsupportedCodec codec))"

text \<open>\<open>_write_capped\<close> over the pieces a zstd compressor emits.\<close>

fun write_capped :: "int \<Rightarrow> int \<Rightarrow> bytes list \<Rightarrow> compress_error + bytes" where
  "write_capped cap written [] = Inr []"
| "write_capped cap written (p # ps) =
     (if written + int (length p) > cap then Inl CompressCapExceeded
      else (case write_capped cap (written + int (length p)) ps of
              Inl e \<Rightarrow> Inl e | Inr rest \<Rightarrow> Inr (p @ rest)))"

definition compress_whole :: "(bytes \<Rightarrow> bytes) \<Rightarrow> bytes \<Rightarrow> int \<Rightarrow> compress_error + bytes" where
  "compress_whole whole src cap =
     (if int (length (whole src)) > cap then Inl CompressCapExceeded else Inr (whole src))"

definition compress_zstd :: "(bytes \<Rightarrow> bytes list) option \<Rightarrow> bytes \<Rightarrow> int \<Rightarrow> compress_error + bytes" where
  "compress_zstd zstd src cap =
     (case zstd of None \<Rightarrow> Inl ZstdNotInstalled | Some z \<Rightarrow> write_capped cap 0 (z src))"

text \<open>
  \<open>compress.compress_file\<close>: the bytes published at the destination or the error that leaves
  it untouched. The stream codec's cap is a natural number, as source sizes are.
\<close>

definition codec_compress_file ::
  "(bytes \<Rightarrow> bytes) \<Rightarrow> (bytes \<Rightarrow> bytes) \<Rightarrow> (bytes \<Rightarrow> bytes list) option \<Rightarrow> str \<Rightarrow> bytes
     \<Rightarrow> compress_error + bytes" where
  "codec_compress_file whole zn zstd codec src =
     (case codec_output_cap (int (length src)) codec (int DEFAULT_CHUNK) of
        Inl e \<Rightarrow> Inl e
      | Inr cap \<Rightarrow>
         (if codec = CODEC_WHOLE then compress_whole whole src cap
          else if codec = CODEC_STREAM then
            (case compress_file zn (int DEFAULT_CHUNK) (Some (nat cap)) src of
               Inl OutputCapExceeded \<Rightarrow> Inl CompressCapExceeded
             | Inl e \<Rightarrow> Inl (CompressStream e)
             | Inr out \<Rightarrow> Inr out)
          else if codec = CODEC_ZSTD then compress_zstd zstd src cap
          else Inl (UnsupportedCodec codec)))"

section \<open>Ceilings\<close>

lemma zstd_output_cap_ge: "0 \<le> n \<Longrightarrow> n \<le> zstd_output_cap n"
  by (auto simp: zstd_output_cap_def Let_def pos_imp_zdiv_nonneg_iff)

lemma write_capped_le: "write_capped cap w ps = Inr out \<Longrightarrow> w \<le> cap \<Longrightarrow> w + int (length out) \<le> cap"
  by (induction cap w ps arbitrary: out rule: write_capped.induct)
     (fastforce split: if_splits sum.splits)+

text \<open>Division by a power of two commutes with rounding.\<close>

lemma ilog2_div_pow2: "0 < x \<Longrightarrow> ilog2 (x / 2 ^ j) = ilog2 x - int j"
proof (rule ilog2_unique)
  assume x: "0 < x"
  have s: "(2::rat) powi (a - int j) = 2 powi a / 2 ^ j" for a
    by (simp add: power_int_diff)
  show "2 powi (ilog2 x - int j) \<le> x / 2 ^ j"
    unfolding s using ilog2_bounds(1) [OF x] by (simp add: divide_right_mono)
  have e: "ilog2 x - int j + 1 = (ilog2 x + 1) - int j" by simp
  show "x / 2 ^ j < 2 powi (ilog2 x - int j + 1)"
    unfolding e s using ilog2_bounds(2) [OF x] by (simp add: divide_strict_right_mono)
qed

lemma fl_div_pow2:
  assumes "0 < x"
  shows "fl (x / 2 ^ j) = fl x / 2 ^ j"
proof -
  have e: "ilog2 (x / 2 ^ j) - 52 = (ilog2 x - 52) - int j"
    using ilog2_div_pow2 [OF assms] by simp
  have "ulp (x / 2 ^ j) = ulp x / 2 ^ j"
    unfolding e by (simp add: power_int_diff)
  then have "fl_pos (x / 2 ^ j) = fl_pos x / 2 ^ j"
    by (simp add: fl_pos_alt)
  then show ?thesis using assms by (simp add: fl_def)
qed

lemma length_slices_bound:
  "0 < k \<Longrightarrow> length (slices k src) * k < length src + k"
proof (induction k src rule: slices.induct)
  case (1 k src)
  show ?case
  proof (cases "src = []")
    case True
    then show ?thesis using 1 by simp
  next
    case False
    have ih: "length (slices k (drop k src)) * k < length (drop k src) + k"
      using "1.IH" "1.prems" False by blast
    show ?thesis
    proof (cases "length src \<le> k")
      case True
      then show ?thesis using False "1.prems" by (simp add: slices_step)
    next
      case False
      then show ?thesis using ih "1.prems" \<open>src \<noteq> []\<close> by (simp add: slices_step)
    qed
  qed
qed

lemma stream_cap_slices:
  assumes "length src \<le> 2 ^ 53"
  shows "\<exists>cap. codec_output_cap (int (length src)) CODEC_STREAM (int DEFAULT_CHUNK) = Inr cap
     \<and> int (length src + 5 + 4 * length (slices DEFAULT_CHUNK src)) \<le> cap"
proof -
  let ?n = "int (length src)" and ?s = "length (slices DEFAULT_CHUNK src)"
  have chunk: "int DEFAULT_CHUNK = 2 ^ 26" by (simp add: DEFAULT_CHUNK_def)
  have "int ?s \<le> (if ?n \<noteq> 0 then py_ceil (fl (of_int ?n / of_int (int DEFAULT_CHUNK))) else 0)"
  proof (cases "src = []")
    case False
    then have n: "0 < ?n" by simp
    have "?n \<le> int (2 ^ 53)" using assms by (simp only: of_nat_le_iff)
    then have "?n \<le> 2 ^ 53" by simp
    then have "fl (of_int ?n / 2 ^ 26) = of_int ?n / 2 ^ 26"
      using fl_div_pow2 [of "of_int ?n" 26] fl_of_int [of ?n] n by simp
    then have f: "fl (of_int ?n / of_int (int DEFAULT_CHUNK)) = of_int ?n / 2 ^ 26"
      unfolding chunk by simp
    have "?s * DEFAULT_CHUNK < length src + DEFAULT_CHUNK"
      by (rule length_slices_bound) (simp add: DEFAULT_CHUNK_def)
    then have "int (?s * DEFAULT_CHUNK) < int (length src + DEFAULT_CHUNK)"
      by (simp only: of_nat_less_iff)
    then have "int ?s * 2 ^ 26 < ?n + 2 ^ 26"
      by (simp only: of_nat_mult of_nat_add chunk)
    then have "of_int (int ?s * 2 ^ 26) < (of_int (?n + 2 ^ 26) :: rat)"
      by (simp only: of_int_less_iff)
    then have "of_int (int ?s - 1) < (of_int ?n / 2 ^ 26 :: rat)"
      by (simp add: field_simps)
    then have "int ?s \<le> py_ceil (of_int ?n / 2 ^ 26)"
      unfolding py_ceil_def by linarith
    then show ?thesis unfolding f using n by (simp only: if_P less_imp_neq [symmetric] not_False_eq_True)
  qed simp
  then show ?thesis
    by (simp add: codec_output_cap_def codec_names MAGIC_def Let_def)
qed

lemma compress_loop_total:
  assumes k: "0 < k" "k < 2 ^ 32" and shrink: "\<forall>c. length (zn c) \<le> length c"
  shows "w + length src + 4 * length (slices k src) \<le> cap \<Longrightarrow>
    \<exists>body. compress_loop zn k (Some cap) w src = Inr body"
proof (induction "length src" arbitrary: src w rule: less_induct)
  case less
  show ?case
  proof (cases "src = []")
    case True
    then show ?thesis by (simp add: compress_loop.simps)
  next
    case False
    let ?c = "take k src" and ?d = "drop k src"
    have c: "length (zn ?c) \<le> length ?c" using shrink by blast
    have d: "length ?c \<le> k" "length ?d < length src" "length ?c + length ?d = length src"
      using k(1) False by auto
    then have b: "length (zn ?c) < 2 ^ 32" "length (zn ?c) \<le> MAX_BLOB"
      using k(2) c d(1) by (simp_all add: MAX_BLOB_def del: length_take)
    have w: "w + (4 + length (zn ?c)) + length ?d + 4 * length (slices k ?d) \<le> cap"
      using less.prems c d(3) False k(1) by (simp add: slices_step del: length_take length_drop)
    obtain rest where "compress_loop zn k (Some cap) (w + (4 + length (zn ?c))) ?d = Inr rest"
      using less.hyps [OF d(2) w] by blast
    then show ?thesis
      using False k(1) b c w
      by (simp add: compress_loop.simps [of zn k "Some cap" w src] Let_def over_def len_pack_def
          del: length_take length_drop)
  qed
qed

section \<open>Properties\<close>

text \<open>
  Whatever the codec emits, a published compressed file is never larger than the cap the
  capacity ledger reserved for it.
\<close>

theorem compressed_within_cap:
  assumes "codec_compress_file whole zn zstd codec src = Inr out"
  shows "\<exists>cap. codec_output_cap (int (length src)) codec (int DEFAULT_CHUNK) = Inr cap
     \<and> int (length out) \<le> cap"
proof -
  obtain cap where cap: "codec_output_cap (int (length src)) codec (int DEFAULT_CHUNK) = Inr cap"
    using assms by (auto simp: codec_compress_file_def split: sum.splits)
  have nonneg: "0 \<le> cap" if "codec = CODEC_ZSTD"
    using cap that zstd_output_cap_ge [of "int (length src)"]
    by (simp add: codec_output_cap_def codec_names)
  have "int (length out) \<le> cap" if stream: "codec = CODEC_STREAM"
  proof -
    have "compress_file zn (int DEFAULT_CHUNK) (Some (nat cap)) src = Inr out"
      using assms cap stream
      by (auto simp: codec_compress_file_def codec_names split: sum.splits stream_error.splits)
    then have le: "length out \<le> nat cap"
      using compress_loop_cap [of zn "nat (int DEFAULT_CHUNK)" "nat cap" "length MAGIC" src]
      by (auto simp: compress_file_def over_def split: if_splits sum.splits)
    moreover have "0 < length out"
      using compress_file_body(1) [OF \<open>compress_file _ _ _ _ = Inr out\<close>] by (simp add: MAGIC_def)
    ultimately show ?thesis by linarith
  qed
  moreover have "int (length out) \<le> cap" if "codec \<noteq> CODEC_STREAM"
    using assms cap that nonneg write_capped_le [of cap 0]
    by (auto simp: codec_compress_file_def compress_whole_def compress_zstd_def
        split: sum.splits if_splits option.splits)
  ultimately show ?thesis using cap by blast
qed

text \<open>
  The StreamZNN cap is sufficient: when no slice expands (which the writer checks), a
  source of at most \<open>2 ^ 53\<close> bytes is always compressed, never refused for its cap.
\<close>

theorem stream_cap_sufficient:
  assumes "\<forall>c. length (zn c) \<le> length c" and "length src \<le> 2 ^ 53"
  shows "\<exists>out. codec_compress_file whole zn zstd CODEC_STREAM src = Inr out"
proof -
  obtain cap where cap: "codec_output_cap (int (length src)) CODEC_STREAM (int DEFAULT_CHUNK) = Inr cap"
    and le: "int (length src + 5 + 4 * length (slices DEFAULT_CHUNK src)) \<le> cap"
    using stream_cap_slices [OF assms(2)] by blast
  have k: "0 < DEFAULT_CHUNK" "DEFAULT_CHUNK < 2 ^ 32" by (simp_all add: DEFAULT_CHUNK_def)
  have w: "length MAGIC + length src + 4 * length (slices DEFAULT_CHUNK src) \<le> nat cap"
    using le by (simp add: MAGIC_def)
  obtain body where "compress_loop zn DEFAULT_CHUNK (Some (nat cap)) (length MAGIC) src = Inr body"
    using compress_loop_total [OF k assms(1) w] by blast
  then have "compress_file zn (int DEFAULT_CHUNK) (Some (nat cap)) src = Inr (MAGIC @ body)"
    using w k by (simp add: compress_file_def over_def)
  then show ?thesis
    using cap by (simp add: codec_compress_file_def codec_names)
qed

section \<open>Concrete instances\<close>

theorem compressed_within_cap_witness:
  "\<exists>cap. codec_output_cap (int (length [5, 6, 7 :: byte])) CODEC_WHOLE (int DEFAULT_CHUNK) = Inr cap
     \<and> int (length [1, 2 :: byte]) \<le> cap"
proof -
  have "codec_compress_file (\<lambda>b. [1, 2]) id None CODEC_WHOLE [5, 6, 7] = Inr [1, 2]"
    by (simp add: codec_compress_file_def codec_output_cap_def codec_names compress_whole_def)
  from compressed_within_cap [OF this] show ?thesis .
qed

theorem stream_cap_sufficient_witness:
  "\<exists>out. codec_compress_file id id None CODEC_STREAM [5, 6, 7] = Inr out"
  by (rule stream_cap_sufficient) simp_all

end
