(* ===== verification/Budgets.thy ===== *)
theory Budgets
  imports Codec Manifest
begin

text \<open>
  \<open>modelark/budgets.py\<close>: the one per-file byte budget (durable bytes and transient
  workspace, guaranteed and expected) and its aggregation into a task budget.
\<close>

definition EXPECTED_MARGIN :: rat where
  "EXPECTED_MARGIN = fl (27 / 25)"

record file_budget =
  fb_rfilename :: str
  fb_guaranteed_durable :: int
  fb_expected_durable :: int
  fb_workspace_peak_guaranteed :: int
  fb_workspace_peak_expected :: int
  fb_evidence :: str

definition durable_for :: "bool \<Rightarrow> file_budget \<Rightarrow> int" where
  "durable_for guaranteed b = (if guaranteed then fb_guaranteed_durable b else fb_expected_durable b)"

definition workspace_for :: "bool \<Rightarrow> file_budget \<Rightarrow> int" where
  "workspace_for guaranteed b =
     (if guaranteed then fb_workspace_peak_guaranteed b else fb_workspace_peak_expected b)"

record candidate_budget =
  cb_guaranteed_durable :: int
  cb_expected_durable :: int
  cb_workspace_peak_guaranteed :: int
  cb_workspace_peak_expected :: int
  cb_file_budgets :: "file_budget list"

definition expected_durable_bytes :: "manifest_file \<Rightarrow> rat \<Rightarrow> int" where
  "expected_durable_bytes item ratio =
     (let basis = (if mf_storage_action item = ''compress''
                   then fl (fl (of_int (mf_size_bytes item)) * ratio)
                   else fl (of_int (mf_size_bytes item)))
      in trunc (fl (basis * EXPECTED_MARGIN)))"

definition uniform_budget :: "str \<Rightarrow> int \<Rightarrow> str \<Rightarrow> file_budget" where
  "uniform_budget name v evidence =
     \<lparr>fb_rfilename = name, fb_guaranteed_durable = v, fb_expected_durable = v,
      fb_workspace_peak_guaranteed = v, fb_workspace_peak_expected = v, fb_evidence = evidence\<rparr>"

text \<open>
  The output cap of the planned codec; \<open>plan_codec\<close> returns known codecs only, so the
  \<open>ValueError\<close> of \<open>codec_output_cap\<close> cannot reach the budget (lemma \<open>planned_cap\<close>).
\<close>

definition planned_cap :: "bool \<Rightarrow> compression_cfg \<Rightarrow> int \<Rightarrow> str \<Rightarrow> int" where
  "planned_cap zstd_installed cfg nbytes codec =
     (case codec_output_cap nbytes codec (int DEFAULT_CHUNK) of Inr cap \<Rightarrow> cap | Inl _ \<Rightarrow> 0)"

definition file_budget ::
  "bool \<Rightarrow> manifest_file \<Rightarrow> rat \<Rightarrow> compression_cfg \<Rightarrow> int option \<Rightarrow> bool \<Rightarrow> file_budget" where
  "file_budget zstd_installed item ratio cfg exact_source_bytes replica =
     (case exact_source_bytes of
        Some value \<Rightarrow> uniform_budget (mf_rfilename item) value ''exact''
      | None \<Rightarrow>
         (if replica then uniform_budget (mf_rfilename item) (expected_durable_bytes item ratio) ''estimate''
          else
           (let nbytes = mf_size_bytes item;
                expected = expected_durable_bytes item ratio;
                codec = plan_codec zstd_installed nbytes cfg;
                cap = planned_cap zstd_installed cfg nbytes codec;
                staged = (mf_storage_action item = ''compress'' \<and> codec \<noteq> CODEC_RAW) in
            \<lparr>fb_rfilename = mf_rfilename item, fb_guaranteed_durable = nbytes,
             fb_expected_durable = expected,
             fb_workspace_peak_guaranteed = (if staged then cap else 0),
             fb_workspace_peak_expected = (if staged then max 0 (nbytes + cap - expected) else 0),
             fb_evidence = ''estimate''\<rparr>)))"

definition aggregate :: "file_budget list \<Rightarrow> candidate_budget" where
  "aggregate bs =
     \<lparr>cb_guaranteed_durable = sum_list (map fb_guaranteed_durable bs),
      cb_expected_durable = sum_list (map fb_expected_durable bs),
      cb_workspace_peak_guaranteed = py_max (map fb_workspace_peak_guaranteed bs),
      cb_workspace_peak_expected = py_max (map fb_workspace_peak_expected bs),
      cb_file_budgets = bs\<rparr>"

section \<open>Lemmas\<close>

lemma planned_cap:
  "\<exists>cap. codec_output_cap nbytes (plan_codec z n cfg) chunk = Inr cap"
  by (simp add: plan_codec_def codec_output_cap_def codec_names Let_def)

text \<open>A byte count the float arithmetic represents exactly.\<close>

definition exact_size :: "int \<Rightarrow> bool" where
  "exact_size n \<longleftrightarrow> 0 \<le> n \<and> n \<le> 2 ^ 53"

lemma margin_ge_1: "1 \<le> EXPECTED_MARGIN"
  using fl_mono [of "of_int 1" "27 / 25"] fl_of_int [of 1] by (simp add: EXPECTED_MARGIN_def)

lemma expected_durable_nonneg:
  "0 \<le> mf_size_bytes item \<Longrightarrow> 0 \<le> ratio \<Longrightarrow> 0 \<le> expected_durable_bytes item ratio"
  using margin_ge_1
  by (auto simp: expected_durable_bytes_def Let_def intro!: trunc_nonneg fl.rnd_nonneg mult_nonneg_nonneg)

lemma codec_cap_nonneg:
  assumes "0 \<le> n" "codec_output_cap n codec (int DEFAULT_CHUNK) = Inr cap"
  shows "0 \<le> cap"
proof -
  have "0 \<le> fl (of_int n / of_int (int DEFAULT_CHUNK))"
    using assms(1) by (intro fl.rnd_nonneg) simp
  then have "0 \<le> py_ceil (fl (of_int n / of_int (int DEFAULT_CHUNK)))"
    by (simp add: py_ceil_def order_less_le_trans [of "-1" 0])
  then show ?thesis
    using assms zstd_output_cap_ge [of n]
    by (auto simp: codec_output_cap_def Let_def split: if_splits)
qed

lemma raw_estimate:
  assumes "mf_storage_action item \<noteq> ''compress''" "exact_size (mf_size_bytes item)"
  shows "mf_size_bytes item \<le> expected_durable_bytes item ratio"
  using assms fl.scaled_ge [OF _ _ margin_ge_1]
  by (simp add: expected_durable_bytes_def exact_size_def)

definition nonneg_budget :: "file_budget \<Rightarrow> bool" where
  "nonneg_budget b \<longleftrightarrow> 0 \<le> fb_guaranteed_durable b \<and> 0 \<le> fb_expected_durable b
     \<and> 0 \<le> fb_workspace_peak_guaranteed b \<and> 0 \<le> fb_workspace_peak_expected b"

lemma planned_cap_nonneg: "0 \<le> n \<Longrightarrow> 0 \<le> planned_cap z cfg n (plan_codec z n cfg)"
  using planned_cap [of n z n cfg "int DEFAULT_CHUNK"] codec_cap_nonneg
  by (auto simp: planned_cap_def)

lemma file_budget_nonneg:
  "0 \<le> mf_size_bytes item \<Longrightarrow> 0 \<le> ratio \<Longrightarrow> (\<forall>v. ex = Some v \<longrightarrow> 0 \<le> v) \<Longrightarrow>
   nonneg_budget (file_budget z item ratio cfg ex rep)"
  using expected_durable_nonneg [of item ratio] planned_cap_nonneg [of "mf_size_bytes item" z cfg]
  by (auto simp: nonneg_budget_def file_budget_def uniform_budget_def Let_def split: option.split)

text \<open>A candidate's budget is non-negative in every mode.\<close>

definition nonneg_candidate :: "candidate_budget \<Rightarrow> bool" where
  "nonneg_candidate b \<longleftrightarrow> 0 \<le> cb_guaranteed_durable b \<and> 0 \<le> cb_expected_durable b
     \<and> 0 \<le> cb_workspace_peak_guaranteed b \<and> 0 \<le> cb_workspace_peak_expected b"

lemma aggregate_nonneg: "\<forall>b\<in>set bs. nonneg_budget b \<Longrightarrow> nonneg_candidate (aggregate bs)"
  by (auto simp: nonneg_candidate_def aggregate_def nonneg_budget_def
      intro!: sum_list_nonneg_int py_max_nonneg)

section \<open>Properties\<close>

text \<open>
  The compression-aware peak of a download is never below its guaranteed peak: while a
  shard is compressed the raw file and the codec's capped output coexist, and the expected
  workspace makes up for an optimistic durable estimate exactly.
\<close>

lemma expected_peak_covers_guaranteed:
  assumes "exact_size (mf_size_bytes item)" and "plan_codec z (mf_size_bytes item) cfg \<noteq> CODEC_RAW
     \<or> mf_storage_action item \<noteq> ''compress''"
  shows "let b = file_budget z item ratio cfg None False in
     fb_guaranteed_durable b + fb_workspace_peak_guaranteed b
       \<le> fb_expected_durable b + fb_workspace_peak_expected b"
  using assms raw_estimate [of item ratio]
  by (auto simp: file_budget_def Let_def)

text \<open>
  Task budgets add up: durable bytes of two groups of files sum, workspace peaks take the
  maximum, because transient space is reused between files.
\<close>

lemma aggregate_append:
  assumes "\<forall>b\<in>set (xs @ ys). nonneg_budget b"
  shows "cb_guaranteed_durable (aggregate (xs @ ys)) =
           cb_guaranteed_durable (aggregate xs) + cb_guaranteed_durable (aggregate ys)
     \<and> cb_expected_durable (aggregate (xs @ ys)) =
           cb_expected_durable (aggregate xs) + cb_expected_durable (aggregate ys)
     \<and> cb_workspace_peak_guaranteed (aggregate (xs @ ys)) =
           max (cb_workspace_peak_guaranteed (aggregate xs)) (cb_workspace_peak_guaranteed (aggregate ys))
     \<and> cb_workspace_peak_expected (aggregate (xs @ ys)) =
           max (cb_workspace_peak_expected (aggregate xs)) (cb_workspace_peak_expected (aggregate ys))"
proof -
  have "\<forall>x\<in>set (map fb_workspace_peak_guaranteed xs @ map fb_workspace_peak_guaranteed ys). 0 \<le> x"
    "\<forall>x\<in>set (map fb_workspace_peak_expected xs @ map fb_workspace_peak_expected ys). 0 \<le> x"
    using assms by (auto simp: nonneg_budget_def)
  from this [THEN py_max_append] show ?thesis
    by (simp add: aggregate_def)
qed

section \<open>Concrete instances\<close>

end
