(* ===== verification/Headroom.thy ===== *)
theory Headroom
  imports PyFloat
begin

text \<open>
  The filesystem headroom policy of \<open>modelark/capacity.py\<close>: \<open>headroom_bytes\<close> sums a
  falling rate over capacity tranches in binary64 arithmetic, \<open>safety_floor\<close> raises it for
  raid-backed drives. Rates are the nearest doubles of the decimal literals, \<open>math.inf\<close> is
  \<open>None\<close>.
\<close>

definition RAID_MIN_HEADROOM_FRAC :: rat where
  "RAID_MIN_HEADROOM_FRAC = fl (3 / 100)"

definition headroom_tranches :: "(int option \<times> rat) list" where
  "headroom_tranches =
     [(Some 1000000000000, fl (1 / 20)), (Some 4000000000000, fl (1 / 50)),
      (Some 16000000000000, fl (1 / 80)), (None, fl (9 / 1000))]"

text \<open>
  The loop body: \<open>low\<close> is the previous bound, the band converts to a float before it is
  multiplied, the running sum rounds at every step.
\<close>

fun headroom_loop :: "int \<Rightarrow> (int option \<times> rat) list \<Rightarrow> rat \<Rightarrow> int \<Rightarrow> rat" where
  "headroom_loop capacity [] reserved low = reserved"
| "headroom_loop capacity ((high, rate) # rest) reserved low =
     (let top = (case high of None \<Rightarrow> capacity | Some h \<Rightarrow> min capacity h);
          band = top - low in
      if band \<le> 0 then reserved
      else headroom_loop capacity rest (fl (reserved + fl (fl (of_int band) * rate)))
             (case high of None \<Rightarrow> capacity | Some h \<Rightarrow> h))"

definition headroom_bytes :: "int \<Rightarrow> int" where
  "headroom_bytes capacity = trunc (headroom_loop capacity headroom_tranches 0 0)"

definition safety_floor :: "int \<Rightarrow> bool \<Rightarrow> int" where
  "safety_floor capacity raid_backed =
     (let floor = headroom_bytes capacity in
      if raid_backed then max floor (trunc (fl (fl (of_int capacity) * RAID_MIN_HEADROOM_FRAC)))
      else floor)"

section \<open>Lemmas\<close>

lemma headroom_loop_ge:
  "fl res = res \<Longrightarrow> \<forall>(h, r)\<in>set ts. 0 \<le> r \<Longrightarrow> res \<le> headroom_loop c ts res low"
proof (induction c ts res low rule: headroom_loop.induct)
  case (2 c high rate rest res low)
  define top where "top = (case high of None \<Rightarrow> c | Some h \<Rightarrow> min c h)"
  define step where "step = fl (fl (of_int (top - low)) * rate)"
  show ?case
  proof (cases "top - low \<le> 0")
    case False
    then have "0 \<le> step"
      using "2.prems"(2) unfolding step_def by (intro fl.rnd_nonneg mult_nonneg_nonneg) auto
    then have "res \<le> fl (res + step)"
      using fl_mono [of res "res + step"] "2.prems"(1) by simp
    moreover have "fl (res + step) \<le> headroom_loop c rest (fl (res + step))
        (case high of None \<Rightarrow> c | Some h \<Rightarrow> h)"
      using "2.IH" [OF top_def refl False [unfolded]] "2.prems"(2) by (simp add: step_def)
    ultimately show ?thesis
      using False by (simp add: Let_def top_def [symmetric] step_def)
  qed (simp add: Let_def top_def [symmetric])
qed simp

text \<open>Only the last tranche is unbounded.\<close>

fun bounded_tranches :: "(int option \<times> rat) list \<Rightarrow> bool" where
  "bounded_tranches [] = True"
| "bounded_tranches ((h, r) # rest) = (0 \<le> r \<and> r \<le> 1 \<and> (h = None \<longrightarrow> rest = []) \<and> bounded_tranches rest)"

lemma bounded_rates: "bounded_tranches ts \<Longrightarrow> \<forall>(h, r)\<in>set ts. 0 \<le> r"
  by (induction ts rule: bounded_tranches.induct) auto

lemma headroom_loop_mono:
  "c \<le> c' \<Longrightarrow> res \<le> res' \<Longrightarrow> fl res' = res' \<Longrightarrow> bounded_tranches ts \<Longrightarrow>
   headroom_loop c ts res low \<le> headroom_loop c' ts res' low"
proof (induction c ts res low arbitrary: res' rule: headroom_loop.induct)
  case (2 c high rate rest res low)
  define top where "top = (case high of None \<Rightarrow> c | Some h \<Rightarrow> min c h)"
  define top' where "top' = (case high of None \<Rightarrow> c' | Some h \<Rightarrow> min c' h)"
  define step where "step = (\<lambda>t. fl (fl (of_int (t - low)) * rate))"
  define next_low where "next_low = (\<lambda>c. case high of None \<Rightarrow> c | Some h \<Rightarrow> h)"
  have le: "top \<le> top'"
    using "2.prems"(1) by (auto simp: top_def top'_def split: option.split)
  have loop: "headroom_loop c ((high, rate) # rest) res low =
      (if top - low \<le> 0 then res else headroom_loop c rest (fl (res + step top)) (next_low c))"
    "headroom_loop c' ((high, rate) # rest) res' low =
      (if top' - low \<le> 0 then res' else headroom_loop c' rest (fl (res' + step top')) (next_low c'))"
    by (simp_all add: Let_def top_def top'_def step_def next_low_def)
  show ?case
  proof (cases "top - low \<le> 0")
    case True
    have "res' \<le> headroom_loop c' ((high, rate) # rest) res' low"
      using "2.prems" by (intro headroom_loop_ge bounded_rates)
    then show ?thesis
      using True "2.prems"(2) by (simp only: loop if_True)
  next
    case False
    then have "step top \<le> step top'"
      using le "2.prems"(4) by (auto simp: step_def intro!: fl_mono mult_right_mono)
    then have *: "fl (res + step top) \<le> fl (res' + step top')"
      using "2.prems"(2) by (intro fl_mono add_mono)
    have "headroom_loop c rest (fl (res + step top)) (next_low c)
        \<le> headroom_loop c' rest (fl (res' + step top')) (next_low c')"
    proof (cases high)
      case None
      then have "rest = []" using "2.prems"(4) by simp
      with * show ?thesis by simp
    next
      case (Some h)
      then show ?thesis
        using "2.IH" [OF top_def refl False, of "fl (res' + step top')"] "2.prems" *
        by (simp add: next_low_def step_def)
    qed
    then show ?thesis
      unfolding loop using False le by simp
  qed
qed simp

lemma headroom_loop_le:
  "0 \<le> low \<Longrightarrow> 0 \<le> c \<Longrightarrow> c \<le> 2 ^ 53 \<Longrightarrow> res \<le> of_int (min c low) \<Longrightarrow> bounded_tranches ts \<Longrightarrow>
   headroom_loop c ts res low \<le> of_int c"
proof (induction c ts res low rule: headroom_loop.induct)
  case (1 c res low)
  then show ?case by (simp add: min_def split: if_splits)
next
  case (2 c high rate rest res low)
  define top where "top = (case high of None \<Rightarrow> c | Some h \<Rightarrow> min c h)"
  define step where "step = fl (fl (of_int (top - low)) * rate)"
  define next_low where "next_low = (case high of None \<Rightarrow> c | Some h \<Rightarrow> h)"
  have loop: "headroom_loop c ((high, rate) # rest) res low =
      (if top - low \<le> 0 then res else headroom_loop c rest (fl (res + step)) next_low)"
    by (simp add: Let_def top_def step_def next_low_def)
  have res: "res \<le> of_int low" "res \<le> of_int c"
    using "2.prems"(4) by (auto simp: min_def split: if_splits)
  show ?case
  proof (cases "top - low \<le> 0")
    case False
    have top: "top \<le> c" "top = min c next_low"
      by (auto simp: top_def next_low_def split: option.split)
    have band: "fl (of_int (top - low)) = (of_int (top - low) :: rat)"
      using False top(1) "2.prems"(1-3) by (intro fl_of_int) simp_all
    have "of_int (top - low) * rate \<le> (of_int (top - low) * 1 :: rat)"
      using False "2.prems"(5) by (intro mult_left_mono) simp_all
    then have "step \<le> fl (of_int (top - low))"
      by (simp only: step_def band) (metis band fl_mono mult.right_neutral)
    then have "res + step \<le> of_int top"
      using res(1) unfolding band by simp
    then have "fl (res + step) \<le> fl (of_int top)" by (rule fl_mono)
    also have "fl (of_int top) = (of_int top :: rat)"
      using False top(1) "2.prems"(1-3) by (intro fl_of_int) simp_all
    finally have *: "fl (res + step) \<le> of_int (min c next_low)" by (simp only: top(2))
    have "headroom_loop c rest (fl (res + step)) next_low \<le> of_int c"
      using "2.IH" [OF top_def refl False] "2.prems" * False top
      by (simp add: step_def next_low_def)
    then show ?thesis using False by (simp only: loop if_False)
  next
    case True
    then show ?thesis using res(2) by (simp only: loop if_True)
  qed
qed

lemma rate_bounds: "0 \<le> x \<Longrightarrow> x \<le> 1 \<Longrightarrow> 0 \<le> fl x \<and> fl x \<le> 1"
  using fl_mono [of 0 x] fl_mono [of x 1] fl_of_int [of 0] fl_of_int [of 1] by simp

lemma tranches_bounded: "bounded_tranches headroom_tranches"
  by (simp add: headroom_tranches_def rate_bounds)

lemma headroom_bytes_mono: "c \<le> c' \<Longrightarrow> headroom_bytes c \<le> headroom_bytes c'"
  unfolding headroom_bytes_def
  by (intro trunc_mono headroom_loop_mono tranches_bounded) (simp_all add: fl.rnd_zero)

lemma headroom_loop_nonneg: "0 \<le> headroom_loop c headroom_tranches 0 0"
  by (intro headroom_loop_ge bounded_rates tranches_bounded) (simp add: fl.rnd_zero)

lemma headroom_bytes_bounds:
  assumes "0 \<le> c" "c \<le> 2 ^ 53"
  shows "0 \<le> headroom_bytes c" "headroom_bytes c \<le> c"
proof -
  have "headroom_loop c headroom_tranches 0 0 \<le> of_int c"
    using assms by (intro headroom_loop_le tranches_bounded) (simp_all add: min_def)
  then have "trunc (headroom_loop c headroom_tranches 0 0) \<le> trunc (of_int c)"
    by (rule trunc_mono)
  then show "headroom_bytes c \<le> c" by (simp add: headroom_bytes_def)
  show "0 \<le> headroom_bytes c"
    unfolding headroom_bytes_def by (rule trunc_nonneg [OF headroom_loop_nonneg])
qed

lemma raid_frac_bounds: "0 \<le> RAID_MIN_HEADROOM_FRAC" "RAID_MIN_HEADROOM_FRAC \<le> 1"
  using rate_bounds [of "3 / 100"] by (simp_all add: RAID_MIN_HEADROOM_FRAC_def)

lemma raid_floor_mono:
  "c \<le> c' \<Longrightarrow> trunc (fl (fl (of_int c) * RAID_MIN_HEADROOM_FRAC))
    \<le> trunc (fl (fl (of_int c') * RAID_MIN_HEADROOM_FRAC))"
  by (intro fl.scaled_mono raid_frac_bounds fl_mono) simp

lemma raid_floor_le:
  assumes "0 \<le> c" "c \<le> 2 ^ 53"
  shows "trunc (fl (fl (of_int c) * RAID_MIN_HEADROOM_FRAC)) \<le> c"
proof (rule fl.scaled_le)
  have "of_int c * RAID_MIN_HEADROOM_FRAC \<le> (of_int c * 1 :: rat)"
    using assms raid_frac_bounds by (intro mult_left_mono) simp_all
  then show "fl (of_int c) * RAID_MIN_HEADROOM_FRAC \<le> of_int c"
    using assms by (simp add: fl_of_int)
  show "0 \<le> fl (of_int c) * RAID_MIN_HEADROOM_FRAC"
    using assms raid_frac_bounds by (intro mult_nonneg_nonneg fl.rnd_nonneg) simp_all
qed (use assms in simp_all)

section \<open>Properties\<close>

text \<open>
  The safety floor is a floor: it never exceeds the capacity, never is negative, never
  falls when a drive grows or gains raid backing.
\<close>

theorem safety_floor_bounds:
  assumes "0 \<le> c" and "c \<le> c'" and "c' \<le> 2 ^ 53"
  shows "0 \<le> safety_floor c raid \<and> safety_floor c raid \<le> c
     \<and> safety_floor c raid \<le> safety_floor c' raid \<and> safety_floor c False \<le> safety_floor c True"
  using assms headroom_bytes_bounds [of c] headroom_bytes_mono [of c c'] raid_floor_mono [of c c']
    raid_floor_le [of c]
  by (auto simp: safety_floor_def Let_def)

theorem safety_floor_bounds_witness:
  "0 \<le> safety_floor 3000000000001 True \<and> safety_floor 3000000000001 True \<le> 3000000000001
     \<and> safety_floor 3000000000001 True \<le> safety_floor 22000000000000 True
     \<and> safety_floor 3000000000001 False \<le> safety_floor 3000000000001 True"
  using safety_floor_bounds [of 3000000000001 22000000000000 True] by simp

end
