(* ===== verification/Identity.thy ===== *)
theory Identity
  imports Prelude
begin

text \<open>
  The drive identity: \<open>identity_fingerprint_v1\<close> of \<open>modelark/capacity_evidence.py\<close>, the
  compatible lock keys of \<open>modelark/drive_identity.py\<close> and the null-serial correction of
  \<open>modelark/serial_identity.py\<close>. SHA-256 is the argument \<open>sha\<close>; the canonical JSON text it
  hashes is modelled exactly. Characters stand for code points below 256.
\<close>

section \<open>Canonical JSON\<close>

definition nibble :: "nat \<Rightarrow> char" where
  "nibble n = char_of (if n < 10 then 48 + n else 87 + n)"

text \<open>\<open>json.dumps\<close> of one character with \<open>ensure_ascii\<close>.\<close>

definition json_char :: "char \<Rightarrow> str" where
  "json_char c =
     (let n = of_char c :: nat; bs = char_of (92::nat) in
      if n = 34 \<or> n = 92 then [bs, c]
      else if n = 10 then [bs, CHR ''n'']
      else if n = 13 then [bs, CHR ''r'']
      else if n = 9 then [bs, CHR ''t'']
      else if n = 12 then [bs, CHR ''f'']
      else if n = 8 then [bs, CHR ''b'']
      else if 32 \<le> n \<and> n \<le> 126 then [c]
      else [bs, CHR ''u'', CHR ''0'', CHR ''0'', nibble (n div 16), nibble (n mod 16)])"

definition dquote :: char where
  "dquote = char_of (34::nat)"

definition json_string :: "str \<Rightarrow> str" where
  "json_string s = dquote # concat (map json_char s) @ [dquote]"

fun dec_digits :: "nat \<Rightarrow> str" where
  "dec_digits n = (if n < 10 then [char_of (48 + n)] else dec_digits (n div 10) @ [char_of (48 + n mod 10)])"

declare dec_digits.simps [simp del]

definition json_int :: "int \<Rightarrow> str" where
  "json_int i = (if i < 0 then CHR ''-'' # dec_digits (nat (- i)) else dec_digits (nat i))"

definition json_opt :: "('a \<Rightarrow> str) \<Rightarrow> 'a option \<Rightarrow> str" where
  "json_opt f v = (case v of None \<Rightarrow> ''null'' | Some x \<Rightarrow> f x)"

definition json_key :: "str \<Rightarrow> str" where
  "json_key k = json_string k @ '':''"

text \<open>\<open>json.dumps(payload, sort_keys=True, separators=(",", ":"))\<close> for the version-1 payload.\<close>

definition identity_payload :: "str option \<Rightarrow> str option \<Rightarrow> str option \<Rightarrow> int option \<Rightarrow> str" where
  "identity_payload fs_uuid annex_uuid serial capacity =
     ''{'' @ json_key ''annex_uuid'' @ json_opt json_string annex_uuid
     @ '','' @ json_key ''filesystem_capacity_bytes'' @ json_opt json_int capacity
     @ '','' @ json_key ''fs_uuid'' @ json_opt json_string fs_uuid
     @ '','' @ json_key ''serial'' @ json_opt json_string serial
     @ '','' @ json_key ''v'' @ json_int 1 @ ''}''"

definition falsy :: "str option \<Rightarrow> bool" where
  "falsy v = (case v of None \<Rightarrow> True | Some s \<Rightarrow> s = [])"

datatype identity_error = Unproven str

definition identity_fingerprint_v1 ::
  "(str \<Rightarrow> str) \<Rightarrow> str option \<Rightarrow> str option \<Rightarrow> str option \<Rightarrow> int option \<Rightarrow> identity_error + str" where
  "identity_fingerprint_v1 sha fs_uuid annex_uuid serial capacity =
     (if falsy fs_uuid \<and> falsy annex_uuid
      then Inl (Unproven ''identity fingerprint requires at least one of fs_uuid or annex_uuid'')
      else Inr (sha (identity_payload fs_uuid annex_uuid serial capacity)))"

section \<open>Fence identities\<close>

record fence_identity =
  fi_fs_uuid :: "str option"
  fi_annex_uuid :: "str option"
  fi_serial :: "str option"
  fi_filesystem_capacity_bytes :: "int option"
  fi_identity_epoch :: "int option"
  fi_identity_fingerprint :: "str option"

definition malformed :: "str option \<Rightarrow> bool" where
  "malformed v = (case v of None \<Rightarrow> False | Some s \<Rightarrow> py_strip s \<noteq> s)"

text \<open>\<open>self.serial or None\<close>.\<close>

definition or_none :: "str option \<Rightarrow> str option" where
  "or_none v = (if falsy v then None else v)"

definition lock_keys :: "(str \<Rightarrow> str) \<Rightarrow> fence_identity \<Rightarrow> identity_error + (str \<times> int) list" where
  "lock_keys sha self =
     (if malformed (fi_fs_uuid self) then Inl (Unproven ''malformed fs_uuid'')
      else if malformed (fi_annex_uuid self) then Inl (Unproven ''malformed annex_uuid'')
      else if malformed (fi_serial self) then Inl (Unproven ''malformed serial'')
      else if falsy (fi_fs_uuid self) \<and> falsy (fi_annex_uuid self)
      then Inl (Unproven ''stable filesystem or annex UUID required'')
      else (case fi_filesystem_capacity_bytes self of
        None \<Rightarrow> Inl (Unproven ''proven filesystem capacity required'')
      | Some cap \<Rightarrow>
         if cap \<le> 0 then Inl (Unproven ''proven filesystem capacity required'')
         else (case fi_identity_epoch self of
           None \<Rightarrow> Inl (Unproven ''proven identity epoch required'')
         | Some epoch \<Rightarrow>
            if epoch < 1 then Inl (Unproven ''proven identity epoch required'')
            else
             (let fp = (\<lambda>s. sha (identity_payload (fi_fs_uuid self) (fi_annex_uuid self) s (Some cap)));
                  fingerprints = [fp None, fp (or_none (fi_serial self))] in
              case fi_identity_fingerprint self of
                None \<Rightarrow> Inl (Unproven ''fingerprint does not bind the captured identity facts'')
              | Some f \<Rightarrow>
                 if f \<notin> set fingerprints
                 then Inl (Unproven ''fingerprint does not bind the captured identity facts'')
                 else Inr (sorted_set (map (\<lambda>g. (g, epoch)) fingerprints))))))"

fun collect_keys :: "(str \<Rightarrow> str) \<Rightarrow> fence_identity list \<Rightarrow> identity_error + (str \<times> int) list" where
  "collect_keys sha [] = Inr []"
| "collect_keys sha (i # is) =
     (case lock_keys sha i of
        Inl e \<Rightarrow> Inl e
      | Inr ks \<Rightarrow> (case collect_keys sha is of Inl e \<Rightarrow> Inl e | Inr rest \<Rightarrow> Inr (ks @ rest)))"

definition compatible_keys :: "(str \<Rightarrow> str) \<Rightarrow> fence_identity list \<Rightarrow> identity_error + (str \<times> int) list" where
  "compatible_keys sha identities = map_sum id sorted_set (collect_keys sha identities)"

section \<open>The null-serial correction\<close>

record serial_correction =
  old_fingerprint :: str
  new_fingerprint :: str

text \<open>\<open>_normalized_string\<close> returns nothing: \<open>True\<close> where it does not raise.\<close>

definition normalized_string :: "bool \<Rightarrow> str option \<Rightarrow> bool" where
  "normalized_string optional v =
     (case v of None \<Rightarrow> optional | Some s \<Rightarrow> s \<noteq> [] \<and> s = py_strip s)"

definition positive_capacity :: "int option \<Rightarrow> bool" where
  "positive_capacity v = (case v of None \<Rightarrow> False | Some n \<Rightarrow> 0 < n)"

definition serial_for_identity :: "str option \<Rightarrow> str option \<Rightarrow> identity_error + str option" where
  "serial_for_identity canonical observed =
     (if canonical \<noteq> Some [] \<and> \<not> normalized_string True canonical
      then Inl (Unproven ''canonical serial'')
      else if \<not> normalized_string True observed then Inl (Unproven ''observed serial'')
      else Inr (if falsy canonical then None else observed))"

definition correction ::
  "(str \<Rightarrow> str) \<Rightarrow> str option \<Rightarrow> str option \<Rightarrow> str option \<Rightarrow> str option \<Rightarrow> int option
     \<Rightarrow> identity_error + serial_correction" where
  "correction sha fs_uuid annex_uuid serial fingerprint capacity =
     (if \<not> normalized_string True fs_uuid then Inl (Unproven ''fs_uuid'')
      else if \<not> normalized_string True annex_uuid then Inl (Unproven ''annex_uuid'')
      else if fs_uuid = None \<and> annex_uuid = None
      then Inl (Unproven ''filesystem or annex UUID required'')
      else if \<not> normalized_string False serial then Inl (Unproven ''serial'')
      else if \<not> positive_capacity capacity then Inl (Unproven ''filesystem_capacity_bytes'')
      else (case identity_fingerprint_v1 sha fs_uuid annex_uuid None capacity of
        Inl e \<Rightarrow> Inl e
      | Inr old \<Rightarrow>
         if fingerprint \<noteq> Some old
         then Inl (Unproven ''saved fingerprint is not the exact null-serial identity'')
         else (case identity_fingerprint_v1 sha fs_uuid annex_uuid serial capacity of
           Inl e \<Rightarrow> Inl e
         | Inr new \<Rightarrow> Inr \<lparr>old_fingerprint = old, new_fingerprint = new\<rparr>)))"

definition is_legacy_serial_mismatch ::
  "(str \<Rightarrow> str) \<Rightarrow> str option \<Rightarrow> str option \<Rightarrow> str option \<Rightarrow> str option \<Rightarrow> int option \<Rightarrow> str option
     \<Rightarrow> bool" where
  "is_legacy_serial_mismatch sha fs_uuid annex_uuid serial fingerprint capacity live_fingerprint =
     (case correction sha fs_uuid annex_uuid serial fingerprint capacity of
        Inl _ \<Rightarrow> False
      | Inr c \<Rightarrow> live_fingerprint = Some (new_fingerprint c))"

section \<open>The canonical text determines the facts\<close>

lemma of_char_small: "n < 256 \<Longrightarrow> (of_char (char_of n :: char) :: nat) = n"
  by (simp only: of_char_of mod_less)

definition unnibble :: "char \<Rightarrow> nat" where
  "unnibble c = (let n = of_char c in if n < 58 then n - 48 else n - 87)"

lemma unnibble: "m < 16 \<Longrightarrow> unnibble (nibble m) = m"
proof (cases "m < 10")
  case True
  then show ?thesis
    by (simp only: nibble_def unnibble_def if_True Let_def of_char_small [of "48 + m"]) simp
next
  case False
  moreover assume "m < 16"
  ultimately show ?thesis
    by (simp only: nibble_def unnibble_def if_False Let_def of_char_small [of "87 + m"]) simp
qed

text \<open>The left inverse of \<open>json_char\<close> on a text that starts with an encoded character.\<close>

definition unescape :: "char \<Rightarrow> char" where
  "unescape e = (if e = CHR ''n'' then char_of (10::nat) else if e = CHR ''r'' then char_of (13::nat)
     else if e = CHR ''t'' then char_of (9::nat) else if e = CHR ''f'' then char_of (12::nat)
     else if e = CHR ''b'' then char_of (8::nat) else e)"

definition decode_char :: "str \<Rightarrow> char \<times> str" where
  "decode_char s =
     (if hd s \<noteq> char_of (92::nat) then (hd s, tl s)
      else if hd (tl s) = CHR ''u''
      then (char_of (16 * unnibble (s ! 4) + unnibble (s ! 5)), drop 6 s)
      else (unescape (hd (tl s)), drop 2 s))"

lemma decode_json_char: "decode_char (json_char c @ x) = (c, x)"
proof -
  define n where "n = (of_char c :: nat)"
  have n: "n < 256" and c: "c = char_of n"
    using of_char_mod_256 [of c, where 'a = nat] mod_less_divisor [of 256 "of_char c"]
    by (simp_all add: n_def del: of_char_mod_256)
  consider "n = 34" | "n = 92" | "n = 10" | "n = 13" | "n = 9" | "n = 12" | "n = 8"
    | "n \<noteq> 34" "n \<noteq> 92" "32 \<le> n" "n \<le> 126"
    | "n \<noteq> 10" "n \<noteq> 13" "n \<noteq> 9" "n \<noteq> 12" "n \<noteq> 8" "\<not> (32 \<le> n \<and> n \<le> 126)"
    by linarith
  then show ?thesis
  proof cases
    case 9
    have "16 * unnibble (nibble (n div 16)) + unnibble (nibble (n mod 16)) = n"
      using n by (simp add: unnibble)
    moreover have "n \<noteq> 34" "n \<noteq> 92" using 9 by auto
    then have "json_char c = [char_of (92::nat), CHR ''u'', CHR ''0'', CHR ''0'', nibble (n div 16), nibble (n mod 16)]"
      using 9 by (simp only: json_char_def n_def [symmetric] Let_def) simp
    ultimately show ?thesis
      by (simp add: decode_char_def c)
  next
    case 8
    then show ?thesis
      using n by (simp add: json_char_def decode_char_def c of_char_small Let_def)
  next
    case 1
    then show ?thesis
      by (simp add: json_char_def decode_char_def c Let_def unescape_def) (simp add: char_of_def)
  next
    case 2
    then show ?thesis
      by (simp add: json_char_def decode_char_def c Let_def unescape_def) (simp add: char_of_def)
  qed (simp_all add: json_char_def decode_char_def c Let_def unescape_def)
qed

lemma json_char_inj: "json_char c @ x = json_char d @ y \<Longrightarrow> c = d \<and> x = y"
  by (metis decode_json_char prod.inject)

lemma json_char_hd: "\<exists>e r. json_char c = e # r \<and> e \<noteq> dquote"
proof -
  have "char_of (92::nat) \<noteq> dquote" by (simp add: dquote_def)
  moreover have "c \<noteq> dquote" if "of_char c \<noteq> (34::nat)"
    using that by (auto simp: dquote_def)
  ultimately show ?thesis
    by (simp add: json_char_def Let_def)
qed

lemma json_body_inj:
  "concat (map json_char s) @ dquote # x = concat (map json_char t) @ dquote # y \<Longrightarrow> s = t \<and> x = y"
proof (induction s arbitrary: t)
  case Nil
  then show ?case
    using json_char_hd by (cases t) (auto, metis list.inject append_Cons)
next
  case (Cons c s)
  show ?case
  proof (cases t)
    case Nil
    with Cons.prems show ?thesis
      using json_char_hd [of c] by auto
  next
    case (Cons d t')
    then have "json_char c @ concat (map json_char s) @ dquote # x
        = json_char d @ concat (map json_char t') @ dquote # y"
      using Cons.prems by simp
    then have "c = d" "concat (map json_char s) @ dquote # x = concat (map json_char t') @ dquote # y"
      by (auto dest: json_char_inj)
    with Cons.IH [OF this(2)] \<open>t = d # t'\<close> show ?thesis by simp
  qed
qed

lemma json_opt_string_inj:
  "json_opt json_string s @ x = json_opt json_string t @ y \<Longrightarrow> s = t \<and> x = y"
proof -
  have n: "CHR ''n'' \<noteq> dquote" by (simp add: dquote_def char_of_def)
  assume "json_opt json_string s @ x = json_opt json_string t @ y"
  then show ?thesis
    using n n [symmetric] json_body_inj [of "the s" x "the t" y]
    by (cases s; cases t) (simp_all add: json_opt_def json_string_def)
qed

fun dec_value :: "str \<Rightarrow> nat \<Rightarrow> nat" where
  "dec_value [] acc = acc"
| "dec_value (c # cs) acc = dec_value cs (acc * 10 + (of_char c - 48))"

lemma dec_value_append: "dec_value (s @ [c]) acc = dec_value s acc * 10 + (of_char c - 48)"
  by (induction s arbitrary: acc) auto

lemma dec_value_digits: "dec_value (dec_digits n) 0 = n"
proof (induction n rule: dec_digits.induct)
  case (1 n)
  then show ?case
    by (subst dec_digits.simps) (auto simp: dec_value_append)
qed

lemma dec_digits_chars: "c \<in> set (dec_digits n) \<Longrightarrow> is_digit c"
proof (induction n rule: dec_digits.induct)
  case (1 n)
  have "n mod 10 < 10" by simp
  then have d: "is_digit (char_of (48 + n mod 10))"
    by (simp add: is_digit_def Let_def)
  from 1 d show ?case
    by (subst (asm) dec_digits.simps) (auto split: if_splits)
qed

lemma json_opt_int_chars: "c \<in> set (json_opt json_int v) \<Longrightarrow> c \<noteq> CHR '',''"
  by (auto simp: json_opt_def json_int_def is_digit_def split: option.splits if_splits
      dest!: dec_digits_chars)

lemma dec_digits_hd: "\<exists>c r. dec_digits n = c # r \<and> is_digit c"
proof -
  have "dec_digits n \<noteq> []" by (subst dec_digits.simps) simp
  then obtain c r where "dec_digits n = c # r" by (cases "dec_digits n") auto
  with dec_digits_chars [of c n] show ?thesis by auto
qed

lemma json_int_inj: "json_int i = json_int j \<Longrightarrow> i = j"
proof -
  assume eq: "json_int i = json_int j"
  have "dec_digits n \<noteq> CHR ''-'' # s" for n s
    using dec_digits_hd [of n] by (auto simp: is_digit_def)
  with eq have "i < 0 \<longleftrightarrow> j < 0" "dec_digits (nat \<bar>i\<bar>) = dec_digits (nat \<bar>j\<bar>)"
    by (auto simp: json_int_def split: if_splits dest: sym)
  moreover from this(2) have "nat \<bar>i\<bar> = nat \<bar>j\<bar>" by (metis dec_value_digits)
  ultimately show "i = j" by linarith
qed

lemma json_opt_int_inj: "json_opt json_int a = json_opt json_int b \<Longrightarrow> a = b"
proof -
  have "json_int i \<noteq> ''null''" for i
    using dec_digits_hd [of "nat i"] by (auto simp: json_int_def is_digit_def)
  then show "json_opt json_int a = json_opt json_int b \<Longrightarrow> a = b"
    by (auto simp: json_opt_def split: option.splits dest: json_int_inj sym)
qed

lemma split_at_comma:
  "CHR '','' \<notin> set a \<Longrightarrow> CHR '','' \<notin> set b \<Longrightarrow> a @ CHR '','' # x = b @ CHR '','' # y \<Longrightarrow> a = b \<and> x = y"
proof (induction a arbitrary: b)
  case Nil
  then show ?case by (cases b) auto
next
  case (Cons c a)
  then show ?case by (cases b) auto
qed

lemma identity_payload_inj:
  assumes "identity_payload fs annex ser cap = identity_payload fs' annex' ser' cap'"
  shows "fs = fs' \<and> annex = annex' \<and> ser = ser' \<and> cap = cap'"
proof -
  from assms have 1: "json_opt json_string annex @ CHR '','' # json_key ''filesystem_capacity_bytes''
      @ json_opt json_int cap @ CHR '','' # json_key ''fs_uuid'' @ json_opt json_string fs
      @ CHR '','' # json_key ''serial'' @ json_opt json_string ser @ CHR '','' # json_key ''v'' @ json_int 1 @ ''}''
    = json_opt json_string annex' @ CHR '','' # json_key ''filesystem_capacity_bytes''
      @ json_opt json_int cap' @ CHR '','' # json_key ''fs_uuid'' @ json_opt json_string fs'
      @ CHR '','' # json_key ''serial'' @ json_opt json_string ser' @ CHR '','' # json_key ''v'' @ json_int 1 @ ''}''"
    by (simp add: identity_payload_def)
  note 2 = json_opt_string_inj [OF 1]
  from 2 have 3: "json_opt json_int cap @ CHR '','' # json_key ''fs_uuid'' @ json_opt json_string fs
      @ CHR '','' # json_key ''serial'' @ json_opt json_string ser @ CHR '','' # json_key ''v'' @ json_int 1 @ ''}''
    = json_opt json_int cap' @ CHR '','' # json_key ''fs_uuid'' @ json_opt json_string fs'
      @ CHR '','' # json_key ''serial'' @ json_opt json_string ser' @ CHR '','' # json_key ''v'' @ json_int 1 @ ''}''"
    by simp
  have 4: "json_opt json_int cap = json_opt json_int cap'"
    "json_opt json_string fs @ CHR '','' # json_key ''serial'' @ json_opt json_string ser
      @ CHR '','' # json_key ''v'' @ json_int 1 @ ''}''
     = json_opt json_string fs' @ CHR '','' # json_key ''serial'' @ json_opt json_string ser'
      @ CHR '','' # json_key ''v'' @ json_int 1 @ ''}''"
    using split_at_comma [OF _ _ 3] json_opt_int_chars by blast+
  note 5 = json_opt_string_inj [OF 4(2)]
  then have "json_opt json_string ser @ CHR '','' # json_key ''v'' @ json_int 1 @ ''}''
     = json_opt json_string ser' @ CHR '','' # json_key ''v'' @ json_int 1 @ ''}''"
    by simp
  from json_opt_string_inj [OF this] 2 4(1) 5 show ?thesis
    by (auto dest: json_opt_int_inj)
qed

section \<open>Lemmas on keys\<close>

lemma lock_keys_Inr:
  assumes "lock_keys sha i = Inr ks"
  obtains cap epoch f fp where
    "fi_filesystem_capacity_bytes i = Some cap" "0 < cap" "fi_identity_epoch i = Some epoch" "1 \<le> epoch"
    "fi_identity_fingerprint i = Some f"
    "fp = (\<lambda>s. sha (identity_payload (fi_fs_uuid i) (fi_annex_uuid i) s (Some cap)))"
    "f \<in> {fp None, fp (or_none (fi_serial i))}"
    "ks = sorted_set [(fp None, epoch), (fp (or_none (fi_serial i)), epoch)]"
  using assms that
  by (auto simp: lock_keys_def Let_def split: if_splits option.splits)

lemma collect_keys_Inr:
  "collect_keys sha is = Inr ks \<Longrightarrow>
   set ks = (\<Union>i\<in>set is. {k. \<exists>l. lock_keys sha i = Inr l \<and> k \<in> set l}) \<and> (\<forall>i\<in>set is. \<exists>l. lock_keys sha i = Inr l)"
  by (induction "is" arbitrary: ks) (fastforce split: sum.splits)+

lemma fingerprint_Inr:
  "identity_fingerprint_v1 sha fs annex ser cap = Inr f \<Longrightarrow> f = sha (identity_payload fs annex ser cap)"
  by (simp add: identity_fingerprint_v1_def split: if_split_asm)

lemma correction_Inr:
  assumes "correction sha fs annex serial fp cap = Inr c"
  shows "fp = Some (old_fingerprint c)" "serial \<noteq> None"
    "identity_fingerprint_v1 sha fs annex None cap = Inr (old_fingerprint c)"
    "identity_fingerprint_v1 sha fs annex serial cap = Inr (new_fingerprint c)"
proof -
  have "normalized_string False serial"
    using assms unfolding correction_def by (simp split: if_split_asm)
  then show "serial \<noteq> None" by (cases serial) (simp_all add: normalized_string_def)
  obtain old where old: "identity_fingerprint_v1 sha fs annex None cap = Inr old"
    using assms unfolding correction_def
    by (cases "identity_fingerprint_v1 sha fs annex None cap") (simp_all split: if_split_asm)
  obtain new where new: "identity_fingerprint_v1 sha fs annex serial cap = Inr new"
    using assms unfolding correction_def old
    by (cases "identity_fingerprint_v1 sha fs annex serial cap") (simp_all split: if_split_asm)
  have "fp = Some old \<and> c = \<lparr>old_fingerprint = old, new_fingerprint = new\<rparr>"
    using assms unfolding correction_def old new by (simp split: if_split_asm)
  with old new show "fp = Some (old_fingerprint c)"
    "identity_fingerprint_v1 sha fs annex None cap = Inr (old_fingerprint c)"
    "identity_fingerprint_v1 sha fs annex serial cap = Inr (new_fingerprint c)"
    by simp_all
qed

text \<open>Two texts do not collide.\<close>

definition no_collision :: "(str \<Rightarrow> str) \<Rightarrow> str \<Rightarrow> str \<Rightarrow> bool" where
  "no_collision sha x y \<longleftrightarrow> (sha x = sha y \<longrightarrow> x = y)"

section \<open>Properties\<close>

text \<open>
  C29: A version-1 fingerprint binds every identity fact: unless SHA-256 collides on the two
  payload texts, equal fingerprints mean equal filesystem UUID, annex UUID, serial and
  capacity, absent values included.
\<close>

theorem fingerprint_binds_identity:
  assumes "identity_fingerprint_v1 sha fs annex serial cap = Inr f"
    and "identity_fingerprint_v1 sha fs' annex' serial' cap' = Inr f"
    and "no_collision sha (identity_payload fs annex serial cap) (identity_payload fs' annex' serial' cap')"
  shows "fs = fs' \<and> annex = annex' \<and> serial = serial' \<and> cap = cap'"
proof (rule identity_payload_inj)
  show "identity_payload fs annex serial cap = identity_payload fs' annex' serial' cap'"
    using assms by (simp add: identity_fingerprint_v1_def no_collision_def split: if_splits)
qed

text \<open>
  Two captured identities of one physical filesystem always exclude each other: whatever
  serial and fingerprint each carries, if both derive lock keys for the same UUIDs, capacity and
  epoch they share a key; and each holds the key of its own saved fingerprint.
\<close>

theorem lock_keys_exclusive:
  assumes "lock_keys sha i = Inr ks" and "lock_keys sha j = Inr ls"
    and "fi_fs_uuid i = fi_fs_uuid j" and "fi_annex_uuid i = fi_annex_uuid j"
    and "fi_filesystem_capacity_bytes i = fi_filesystem_capacity_bytes j"
    and "fi_identity_epoch i = fi_identity_epoch j"
  shows "set ks \<inter> set ls \<noteq> {} \<and> sorted ks \<and> distinct ks
     \<and> (the (fi_identity_fingerprint i), the (fi_identity_epoch i)) \<in> set ks"
proof -
  obtain cap epoch f fp where i: "fi_filesystem_capacity_bytes i = Some cap" "fi_identity_epoch i = Some epoch"
    "fi_identity_fingerprint i = Some f"
    "fp = (\<lambda>s. sha (identity_payload (fi_fs_uuid i) (fi_annex_uuid i) s (Some cap)))"
    "f \<in> {fp None, fp (or_none (fi_serial i))}"
    "ks = sorted_set [(fp None, epoch), (fp (or_none (fi_serial i)), epoch)]"
    using lock_keys_Inr [OF assms(1)] .
  obtain cap' epoch' f' fp' where j: "fi_filesystem_capacity_bytes j = Some cap'"
    "fi_identity_epoch j = Some epoch'"
    "fp' = (\<lambda>s. sha (identity_payload (fi_fs_uuid j) (fi_annex_uuid j) s (Some cap')))"
    "ls = sorted_set [(fp' None, epoch'), (fp' (or_none (fi_serial j)), epoch')]"
    using lock_keys_Inr [OF assms(2)] .
  have "(fp None, epoch) \<in> set ks" "(fp None, epoch) \<in> set ls"
    using i j assms(3-6) by simp_all
  then show ?thesis using i(2,3,5,6) by auto
qed

text \<open>
  The serial-repair diagnostic is exact: it recognises a live fingerprint only when the
  medium that produced it carries the saved UUIDs, capacity and serial, and the saved
  fingerprint is the one computed without a serial.
\<close>

lemma legacy_mismatch_exact:
  assumes "is_legacy_serial_mismatch sha fs annex serial fp cap (Some live)"
    and "identity_fingerprint_v1 sha fs' annex' serial' cap' = Inr live"
    and "no_collision sha (identity_payload fs annex serial cap) (identity_payload fs' annex' serial' cap')"
  shows "fs' = fs \<and> annex' = annex \<and> serial' = serial \<and> cap' = cap \<and> serial \<noteq> None
     \<and> identity_fingerprint_v1 sha fs annex None cap = Inr (the fp)"
proof -
  from assms(1) obtain c where c: "correction sha fs annex serial fp cap = Inr c"
    and live: "live = new_fingerprint c"
    by (auto simp: is_legacy_serial_mismatch_def split: sum.splits)
  note cc = correction_Inr [OF c]
  have "identity_payload fs annex serial cap = identity_payload fs' annex' serial' cap'"
    using assms(3) fingerprint_Inr [OF cc(4)] fingerprint_Inr [OF assms(2)] live
    by (simp add: no_collision_def)
  from identity_payload_inj [OF this] cc show ?thesis by simp
qed

section \<open>Concrete instances\<close>

theorem fingerprint_binds_identity_witness:
  "\<exists>f. identity_fingerprint_v1 id (Some ''u-1'') None (Some ''S9'') (Some 1000) = Inr f
     \<and> identity_fingerprint_v1 id (Some ''u-1'') None (Some ''S8'') (Some 1000) \<noteq> Inr f"
proof -
  have n: "no_collision id x y" for x y by (simp add: no_collision_def)
  obtain f where f: "identity_fingerprint_v1 id (Some ''u-1'') None (Some ''S9'') (Some 1000) = Inr f"
    by (simp add: identity_fingerprint_v1_def falsy_def)
  then show ?thesis
    using fingerprint_binds_identity [OF f _ n, of "Some ''u-1''" None "Some ''S8''" "Some 1000"] by auto
qed

definition demo_identity :: "str option \<Rightarrow> str option \<Rightarrow> fence_identity" where
  "demo_identity serial saved =
     \<lparr>fi_fs_uuid = Some ''u-1'', fi_annex_uuid = None, fi_serial = serial,
      fi_filesystem_capacity_bytes = Some 1000, fi_identity_epoch = Some 1,
      fi_identity_fingerprint = Some (identity_payload (Some ''u-1'') None saved (Some 1000))\<rparr>"

theorem lock_keys_exclusive_witness:
  "\<exists>ks ls. lock_keys id (demo_identity (Some ''S9'') None) = Inr ks
     \<and> lock_keys id (demo_identity (Some ''S8'') (Some ''S8'')) = Inr ls \<and> set ks \<inter> set ls \<noteq> {}"
proof -
  obtain ks where ks: "lock_keys id (demo_identity (Some ''S9'') None) = Inr ks"
    by (simp add: lock_keys_def demo_identity_def malformed_def falsy_def py_strip_def is_space_def)
  obtain ls where ls: "lock_keys id (demo_identity (Some ''S8'') (Some ''S8'')) = Inr ls"
    by (simp add: lock_keys_def demo_identity_def malformed_def falsy_def py_strip_def is_space_def or_none_def)
  from lock_keys_exclusive [OF ks ls] ks ls show ?thesis by (simp add: demo_identity_def)
qed

lemma identity_payload_nonempty [simp]: "identity_payload a b c d \<noteq> []"
  by (simp add: identity_payload_def)

end
