(* ===== verification/Evidence.thy ===== *)
theory Evidence
  imports Headroom Identity
begin

text \<open>
  Admission evidence: the pure precedence rule \<open>derive\<close> and the diagnostic accessor of
  \<open>modelark/capacity_evidence.py\<close>, and the admission shell of \<open>modelark/admission.py\<close>
  around it. A catalog is its \<open>drives\<close> and \<open>drive_clean_anchors\<close> rows; the live
  observation, the fence outcome and the clock are arguments. Each read of the catalog is a
  value of its own, so a change between two reads is expressible.
\<close>

section \<open>Evidence\<close>

datatype evidence_kind = Live | Anchor | Unknown

datatype evidence_code =
    DRIVE_IDENTITY_UNPROVEN
  | UNSUPPORTED_SHARED_WRITER
  | DRIVE_FENCE_UNAVAILABLE
  | CAPACITY_EVIDENCE_UNKNOWN
  | DRIVE_RECONCILIATION_REQUIRED
  | ANCHOR_OUT_OF_RANGE
  | DRIVE_SERIAL_REPAIR_REQUIRED

record evidence =
  ev_kind :: evidence_kind
  ev_executable :: bool
  ev_admissible_free :: int
  ev_code :: "evidence_code option"
  ev_observed_free :: "int option"
  ev_optimistic_usable_max :: "int option"
  ev_legacy_free_bytes :: "int option"
  ev_observed_at :: "str option"
  ev_identity_epoch :: "int option"

text \<open>The keyword arguments of \<open>derive\<close>.\<close>

record derive_args =
  da_mounted :: bool
  da_identity_proven :: bool
  da_fence_held :: bool
  da_write_authority :: str
  da_current_epoch :: "int option"
  da_filesystem_capacity_bytes :: "int option"
  da_current_fingerprint :: "str option"
  da_live_free_bytes :: "int option"
  da_dirty :: bool
  da_anchor_free_bytes :: "int option"
  da_anchor_epoch :: "int option"
  da_anchor_fingerprint :: "str option"
  da_anchor_filesystem_capacity :: "int option"
  da_safety_floor_bytes :: int

definition dedicated_local :: str where
  "dedicated_local = ''dedicated_local''"

definition optimistic_usable_max :: "int option \<Rightarrow> int \<Rightarrow> int option" where
  "optimistic_usable_max capacity floor_bytes =
     (case capacity of None \<Rightarrow> None | Some c \<Rightarrow> Some (max 0 (c - floor_bytes)))"

definition unknown_evidence :: "int option \<Rightarrow> evidence_code \<Rightarrow> evidence" where
  "unknown_evidence optimistic code =
     \<lparr>ev_kind = Unknown, ev_executable = False, ev_admissible_free = 0, ev_code = Some code,
      ev_observed_free = None, ev_optimistic_usable_max = optimistic, ev_legacy_free_bytes = None,
      ev_observed_at = None, ev_identity_epoch = None\<rparr>"

definition proven_evidence :: "evidence_kind \<Rightarrow> int option \<Rightarrow> int \<Rightarrow> int \<Rightarrow> evidence" where
  "proven_evidence kind optimistic free floor_bytes =
     \<lparr>ev_kind = kind, ev_executable = True, ev_admissible_free = max 0 (free - floor_bytes),
      ev_code = None, ev_observed_free = Some free, ev_optimistic_usable_max = optimistic,
      ev_legacy_free_bytes = None, ev_observed_at = None, ev_identity_epoch = None\<rparr>"

definition derive :: "derive_args \<Rightarrow> evidence" where
  "derive a =
     (let optimistic = optimistic_usable_max (da_filesystem_capacity_bytes a) (da_safety_floor_bytes a);
          unknown = unknown_evidence optimistic in
      if da_mounted a then
        (if \<not> da_identity_proven a then unknown DRIVE_IDENTITY_UNPROVEN
         else if da_write_authority a \<noteq> dedicated_local then unknown UNSUPPORTED_SHARED_WRITER
         else if \<not> da_fence_held a then unknown DRIVE_FENCE_UNAVAILABLE
         else (case da_live_free_bytes a of
             None \<Rightarrow> unknown CAPACITY_EVIDENCE_UNKNOWN
           | Some free \<Rightarrow> proven_evidence Live optimistic free (da_safety_floor_bytes a)))
      else if da_dirty a then unknown DRIVE_RECONCILIATION_REQUIRED
      else (case da_anchor_free_bytes a of
          None \<Rightarrow> unknown CAPACITY_EVIDENCE_UNKNOWN
        | Some free \<Rightarrow>
           if da_write_authority a \<noteq> dedicated_local then unknown UNSUPPORTED_SHARED_WRITER
           else if da_anchor_epoch a \<noteq> da_current_epoch a
              \<or> da_anchor_fingerprint a \<noteq> da_current_fingerprint a
              \<or> da_anchor_filesystem_capacity a \<noteq> da_filesystem_capacity_bytes a
           then unknown DRIVE_RECONCILIATION_REQUIRED
           else (case da_filesystem_capacity_bytes a of
               None \<Rightarrow> unknown ANCHOR_OUT_OF_RANGE
             | Some cap \<Rightarrow>
                 if \<not> (0 \<le> free \<and> free \<le> cap) then unknown ANCHOR_OUT_OF_RANGE
                 else proven_evidence Anchor optimistic free (da_safety_floor_bytes a))))"

section \<open>Catalog facts\<close>

text \<open>The capacity columns of a \<open>drives\<close> row and a \<open>drive_clean_anchors\<close> row.\<close>

record drive_row =
  dr_label :: str
  dr_identity_epoch :: int
  dr_write_generation :: int
  dr_identity_fingerprint :: "str option"
  dr_filesystem_capacity_bytes :: "int option"
  dr_write_authority :: str
  dr_raid_backed :: bool
  dr_free_bytes :: "int option"
  dr_fs_uuid :: "str option"
  dr_annex_uuid :: "str option"
  dr_serial :: "str option"

record anchor_row =
  ar_label :: str
  ar_identity_epoch :: int
  ar_generation :: int
  ar_free_bytes :: int
  ar_fingerprint :: str
  ar_filesystem_capacity_bytes :: int

record capacity_catalog =
  cc_drives :: "drive_row list"
  cc_anchors :: "anchor_row list"

definition find_anchor :: "capacity_catalog \<Rightarrow> str \<Rightarrow> int \<Rightarrow> int \<Rightarrow> anchor_row option" where
  "find_anchor con label epoch generation =
     List.find (\<lambda>a. ar_label a = label \<and> ar_identity_epoch a = epoch \<and> ar_generation a = generation)
       (cc_anchors con)"

definition DIAGNOSTIC_SAFETY_FLOOR :: int where
  "DIAGNOSTIC_SAFETY_FLOOR = 0"

definition shadow_evidence :: "capacity_catalog \<Rightarrow> drive_row \<Rightarrow> evidence" where
  "shadow_evidence con d =
     (let anchor = find_anchor con (dr_label d) (dr_identity_epoch d) (dr_write_generation d) in
      (derive \<lparr>da_mounted = False, da_identity_proven = False, da_fence_held = False,
         da_write_authority = dr_write_authority d,
         da_current_epoch = Some (dr_identity_epoch d),
         da_filesystem_capacity_bytes = dr_filesystem_capacity_bytes d,
         da_current_fingerprint = dr_identity_fingerprint d,
         da_live_free_bytes = None,
         da_dirty = (0 < dr_write_generation d \<and> anchor = None),
         da_anchor_free_bytes = map_option ar_free_bytes anchor,
         da_anchor_epoch = map_option ar_identity_epoch anchor,
         da_anchor_fingerprint = map_option ar_fingerprint anchor,
         da_anchor_filesystem_capacity = map_option ar_filesystem_capacity_bytes anchor,
         da_safety_floor_bytes = DIAGNOSTIC_SAFETY_FLOOR\<rparr>)\<lparr>ev_legacy_free_bytes := dr_free_bytes d\<rparr>)"

definition shadow_by_drive :: "capacity_catalog \<Rightarrow> (str \<times> evidence) list" where
  "shadow_by_drive con =
     map (\<lambda>d. (dr_label d, shadow_evidence con d)) (sort_key dr_label (cc_drives con))"

section \<open>The admission shell\<close>

record facts =
  fx_epoch :: "int option"
  fx_generation :: int
  fx_fingerprint :: "str option"
  fx_filesystem_capacity :: "int option"
  fx_authority :: str
  fx_raid :: bool
  fx_anchor :: "anchor_row option"
  fx_fs_uuid :: "str option"
  fx_annex_uuid :: "str option"
  fx_serial :: "str option"

record observation =
  ob_identity_proven :: bool
  ob_free_bytes :: "int option"
  ob_filesystem_capacity :: "int option"
  ob_fingerprint :: "str option"
  ob_refusal_code :: "str option"

definition facts_fence_identity :: "facts \<Rightarrow> fence_identity" where
  "facts_fence_identity f =
     \<lparr>fi_fs_uuid = fx_fs_uuid f, fi_annex_uuid = fx_annex_uuid f, fi_serial = fx_serial f,
      fi_filesystem_capacity_bytes = fx_filesystem_capacity f, fi_identity_epoch = fx_epoch f,
      fi_identity_fingerprint = fx_fingerprint f\<rparr>"

definition read_facts :: "capacity_catalog \<Rightarrow> str \<Rightarrow> facts" where
  "read_facts con label =
     (case List.find (\<lambda>d. dr_label d = label) (cc_drives con) of
        None \<Rightarrow> \<lparr>fx_epoch = None, fx_generation = 0, fx_fingerprint = None,
                 fx_filesystem_capacity = None, fx_authority = ''unknown'', fx_raid = False,
                 fx_anchor = None, fx_fs_uuid = None, fx_annex_uuid = None, fx_serial = None\<rparr>
      | Some d \<Rightarrow>
          \<lparr>fx_epoch = Some (dr_identity_epoch d), fx_generation = dr_write_generation d,
           fx_fingerprint = dr_identity_fingerprint d,
           fx_filesystem_capacity = dr_filesystem_capacity_bytes d,
           fx_authority = dr_write_authority d, fx_raid = dr_raid_backed d,
           fx_anchor = find_anchor con label (dr_identity_epoch d) (dr_write_generation d),
           fx_fs_uuid = dr_fs_uuid d, fx_annex_uuid = dr_annex_uuid d, fx_serial = dr_serial d\<rparr>)"

definition observation_proven :: "facts \<Rightarrow> observation \<Rightarrow> bool" where
  "observation_proven f ob \<longleftrightarrow>
     \<not> falsy (fx_fingerprint f) \<and> ob_identity_proven ob
     \<and> ob_fingerprint ob = fx_fingerprint f
     \<and> ob_filesystem_capacity ob = fx_filesystem_capacity f"

definition facts_floor :: "facts \<Rightarrow> int" where
  "facts_floor f = (case fx_filesystem_capacity f of None \<Rightarrow> 0 | Some c \<Rightarrow> safety_floor c (fx_raid f))"

definition facts_args :: "facts \<Rightarrow> observation option \<Rightarrow> bool \<Rightarrow> derive_args" where
  "facts_args f ob fence_held =
     \<lparr>da_mounted = (ob \<noteq> None),
      da_identity_proven = (case ob of None \<Rightarrow> False | Some x \<Rightarrow> observation_proven f x),
      da_fence_held = fence_held,
      da_write_authority = fx_authority f,
      da_current_epoch = fx_epoch f,
      da_filesystem_capacity_bytes = fx_filesystem_capacity f,
      da_current_fingerprint = fx_fingerprint f,
      da_live_free_bytes = (case ob of None \<Rightarrow> None | Some x \<Rightarrow> ob_free_bytes x),
      da_dirty = (0 < fx_generation f \<and> fx_anchor f = None),
      da_anchor_free_bytes = map_option ar_free_bytes (fx_anchor f),
      da_anchor_epoch = map_option ar_identity_epoch (fx_anchor f),
      da_anchor_fingerprint = map_option ar_fingerprint (fx_anchor f),
      da_anchor_filesystem_capacity = map_option ar_filesystem_capacity_bytes (fx_anchor f),
      da_safety_floor_bytes = facts_floor f\<rparr>"

text \<open>The closed operator diagnostic of \<open>_derive\<close>.\<close>

definition serial_repair_case :: "(str \<Rightarrow> str) \<Rightarrow> facts \<Rightarrow> observation option \<Rightarrow> bool \<Rightarrow> evidence \<Rightarrow> bool" where
  "serial_repair_case sha f ob fence_held e \<longleftrightarrow>
     ev_code e = Some DRIVE_IDENTITY_UNPROVEN \<and> fence_held \<and> fx_authority f = dedicated_local
     \<and> (case ob of
          None \<Rightarrow> False
        | Some x \<Rightarrow> \<not> ob_identity_proven x
             \<and> ob_refusal_code x = Some ''DRIVE_SERIAL_REPAIR_REQUIRED''
             \<and> ob_filesystem_capacity x = fx_filesystem_capacity f
             \<and> is_legacy_serial_mismatch sha (fx_fs_uuid f) (fx_annex_uuid f) (fx_serial f)
                 (fx_fingerprint f) (fx_filesystem_capacity f) (ob_fingerprint x))"

definition derive_facts ::
  "(str \<Rightarrow> str) \<Rightarrow> capacity_catalog \<Rightarrow> str \<Rightarrow> observation option \<Rightarrow> bool \<Rightarrow> str \<Rightarrow> evidence" where
  "derive_facts sha con label ob fence_held now =
     (let f = read_facts con label;
          e = derive (facts_args f ob fence_held);
          e' = (if serial_repair_case sha f ob fence_held e
                then e\<lparr>ev_code := Some DRIVE_SERIAL_REPAIR_REQUIRED\<rparr> else e)
      in e'\<lparr>ev_observed_at := Some now, ev_identity_epoch := fx_epoch f\<rparr>)"

definition execution_evidence ::
  "(str \<Rightarrow> str) \<Rightarrow> capacity_catalog \<Rightarrow> str \<Rightarrow> observation option \<Rightarrow> str \<Rightarrow> evidence" where
  "execution_evidence sha con label ob now = derive_facts sha con label ob True now"

definition refuse :: "evidence \<Rightarrow> evidence_code \<Rightarrow> evidence" where
  "refuse e code =
     e\<lparr>ev_kind := Unknown, ev_executable := False, ev_admissible_free := 0, ev_code := Some code\<rparr>"

text \<open>
  One iteration of \<open>preview_by_drive\<close>: \<open>con0\<close> is the catalog at capture, \<open>con1\<close> at the
  comparison under the fence, \<open>con2\<close> at the derivation; \<open>fence_ok\<close> is whether the
  non-blocking fence on the captured keys was acquired, \<open>observe\<close> the injected reader.
\<close>

definition preview_drive ::
  "(str \<Rightarrow> str) \<Rightarrow> (str \<Rightarrow> observation option) \<Rightarrow> str \<Rightarrow> capacity_catalog \<Rightarrow> capacity_catalog
     \<Rightarrow> capacity_catalog \<Rightarrow> bool \<Rightarrow> str \<Rightarrow> evidence" where
  "preview_drive sha observe now con0 con1 con2 fence_ok label =
     (let captured = read_facts con0 label in
      if falsy (fx_fingerprint captured) then derive_facts sha con2 label None False now
      else (case lock_keys sha (facts_fence_identity captured) of
          Inl _ \<Rightarrow> refuse (derive_facts sha con2 label None False now) DRIVE_IDENTITY_UNPROVEN
        | Inr keys \<Rightarrow>
           if fence_ok then
             (let unchanged = (facts_fence_identity (read_facts con1 label) = facts_fence_identity captured);
                  e = derive_facts sha con2 label (observe label) unchanged now in
              if unchanged then e else refuse e DRIVE_IDENTITY_UNPROVEN)
           else refuse (derive_facts sha con2 label (observe label) False now) DRIVE_FENCE_UNAVAILABLE))"

text \<open>The dictionary over all labels, with the catalog reads and fence outcome of each label.\<close>

definition preview_by_drive ::
  "(str \<Rightarrow> str) \<Rightarrow> (str \<Rightarrow> observation option) \<Rightarrow> str \<Rightarrow> (str \<Rightarrow> capacity_catalog \<times> capacity_catalog \<times> capacity_catalog)
     \<Rightarrow> (str \<Rightarrow> bool) \<Rightarrow> str list \<Rightarrow> (str \<times> evidence) list" where
  "preview_by_drive sha observe now reads fence_ok labels =
     map (\<lambda>l. case reads l of (c0, c1, c2) \<Rightarrow>
                (l, preview_drive sha observe now c0 c1 c2 (fence_ok l) l)) labels"

section \<open>The evidence contract\<close>

text \<open>
  What every admission verdict promises its consumers: an executable verdict carries a reading
  and no code, anything else contributes nothing and says why.
\<close>

definition fail_closed :: "evidence \<Rightarrow> bool" where
  "fail_closed e \<longleftrightarrow>
     0 \<le> ev_admissible_free e
     \<and> (ev_executable e \<longrightarrow> ev_kind e \<noteq> Unknown \<and> ev_code e = None
          \<and> (case ev_observed_free e of None \<Rightarrow> False | Some free \<Rightarrow> ev_admissible_free e \<le> max 0 free))
     \<and> (\<not> ev_executable e \<longrightarrow> ev_kind e = Unknown \<and> ev_admissible_free e = 0 \<and> ev_code e \<noteq> None)"

locale evidence_source =
  fixes verdict :: "'k \<Rightarrow> evidence"
  assumes closed: "fail_closed (verdict k)"
begin

lemma admissible_nonneg: "0 \<le> ev_admissible_free (verdict k)"
  using closed [of k] by (simp add: fail_closed_def)

lemma admissible_executable: "0 < ev_admissible_free (verdict k) \<Longrightarrow> ev_executable (verdict k)"
  using closed [of k] by (auto simp: fail_closed_def)

lemma executable_iff_known: "ev_executable (verdict k) \<longleftrightarrow> ev_kind (verdict k) \<noteq> Unknown"
  using closed [of k] by (auto simp: fail_closed_def)

lemma executable_iff_no_code: "ev_executable (verdict k) \<longleftrightarrow> ev_code (verdict k) = None"
  using closed [of k] by (auto simp: fail_closed_def)

lemma admissible_le_observed:
  "ev_executable (verdict k) \<Longrightarrow> \<exists>free. ev_observed_free (verdict k) = Some free
     \<and> ev_admissible_free (verdict k) \<le> max 0 free"
  using closed [of k] by (auto simp: fail_closed_def split: option.splits)

lemma usable_total_executable:
  "(\<Sum>k\<leftarrow>ks. ev_admissible_free (verdict k))
     = (\<Sum>k\<leftarrow>filter (\<lambda>k. ev_executable (verdict k)) ks. ev_admissible_free (verdict k))"
  using closed by (induction ks) (auto simp: fail_closed_def)

end

lemma fail_closed_update [simp]:
  "fail_closed (e\<lparr>ev_legacy_free_bytes := v\<rparr>) = fail_closed e"
  "fail_closed (e\<lparr>ev_observed_at := w\<rparr>) = fail_closed e"
  "fail_closed (e\<lparr>ev_identity_epoch := n\<rparr>) = fail_closed e"
  "\<not> ev_executable e \<Longrightarrow> fail_closed e \<Longrightarrow> fail_closed (e\<lparr>ev_code := Some c\<rparr>)"
  by (simp_all add: fail_closed_def split: option.split)

lemma unknown_inject [simp]: "unknown_evidence opt c = unknown_evidence opt d \<longleftrightarrow> c = d"
  by (auto simp: unknown_evidence_def)

lemma unknown_simps [simp]:
  "ev_executable (unknown_evidence opt c) = False" "ev_kind (unknown_evidence opt c) = Unknown"
  "ev_admissible_free (unknown_evidence opt c) = 0" "ev_code (unknown_evidence opt c) = Some c"
  "ev_observed_free (unknown_evidence opt c) = None"
  "ev_optimistic_usable_max (unknown_evidence opt c) = opt"
  by (simp_all add: unknown_evidence_def)

lemma proven_simps [simp]:
  "ev_executable (proven_evidence k opt free fl')" "ev_kind (proven_evidence k opt free fl') = k"
  "ev_admissible_free (proven_evidence k opt free fl') = max 0 (free - fl')"
  "ev_code (proven_evidence k opt free fl') = None"
  "ev_observed_free (proven_evidence k opt free fl') = Some free"
  "ev_optimistic_usable_max (proven_evidence k opt free fl') = opt"
  by (simp_all add: proven_evidence_def)

text \<open>The readings under which the rule admits.\<close>

definition live_admits :: "derive_args \<Rightarrow> int \<Rightarrow> bool" where
  "live_admits a free \<longleftrightarrow>
     da_mounted a \<and> da_identity_proven a \<and> da_fence_held a
     \<and> da_write_authority a = dedicated_local \<and> da_live_free_bytes a = Some free"

definition anchor_admits :: "derive_args \<Rightarrow> int \<Rightarrow> bool" where
  "anchor_admits a free \<longleftrightarrow>
     \<not> da_mounted a \<and> \<not> da_dirty a \<and> da_write_authority a = dedicated_local
     \<and> da_anchor_free_bytes a = Some free
     \<and> da_anchor_epoch a = da_current_epoch a
     \<and> da_anchor_fingerprint a = da_current_fingerprint a
     \<and> da_anchor_filesystem_capacity a = da_filesystem_capacity_bytes a
     \<and> 0 \<le> free \<and> (\<exists>cap. da_filesystem_capacity_bytes a = Some cap \<and> free \<le> cap)"

text \<open>The verdict in either situation.\<close>

definition granted :: "evidence_kind \<Rightarrow> derive_args \<Rightarrow> int \<Rightarrow> evidence" where
  "granted kind a free =
     proven_evidence kind (optimistic_usable_max (da_filesystem_capacity_bytes a) (da_safety_floor_bytes a))
       free (da_safety_floor_bytes a)"

definition refused :: "derive_args \<Rightarrow> evidence_code \<Rightarrow> evidence" where
  "refused a = unknown_evidence
     (optimistic_usable_max (da_filesystem_capacity_bytes a) (da_safety_floor_bytes a))"

lemma derive_mounted:
  "da_mounted a \<Longrightarrow> (\<exists>free. live_admits a free \<and> derive a = granted Live a free)
     \<or> (\<forall>free. \<not> live_admits a free) \<and> (\<exists>code. derive a = refused a code)"
  unfolding derive_def Let_def live_admits_def granted_def refused_def
  by (cases "da_live_free_bytes a") simp_all

lemma derive_offline:
  assumes "\<not> da_mounted a"
  shows "(\<exists>free. anchor_admits a free \<and> derive a = granted Anchor a free)
     \<or> (\<forall>free. \<not> anchor_admits a free) \<and> (\<exists>code. derive a = refused a code)"
proof (cases "da_anchor_free_bytes a")
  case None
  with assms show ?thesis
    by (simp add: derive_def Let_def anchor_admits_def refused_def)
next
  case free: (Some free)
  show ?thesis
  proof (cases "da_filesystem_capacity_bytes a")
    case None
    with assms free show ?thesis
      by (simp add: derive_def Let_def anchor_admits_def refused_def)
  next
    case (Some cap)
    with assms free show ?thesis
      by (simp add: derive_def Let_def anchor_admits_def refused_def granted_def) blast
  qed
qed

lemma derive_cases:
  obtains (live) free where "live_admits a free" "derive a = granted Live a free"
  | (anchor) free where "anchor_admits a free" "derive a = granted Anchor a free"
  | (unknown) code where "\<forall>free. \<not> live_admits a free \<and> \<not> anchor_admits a free"
      "derive a = refused a code"
proof (cases "da_mounted a")
  case True
  then have "\<not> anchor_admits a free" for free by (simp add: anchor_admits_def)
  with derive_mounted [OF True] that show ?thesis by blast
next
  case False
  then have "\<not> live_admits a free" for free by (simp add: live_admits_def)
  with derive_offline [OF False] that show ?thesis by blast
qed

lemmas verdict_simps = granted_def refused_def

lemma derive_closed: "0 \<le> da_safety_floor_bytes a \<Longrightarrow> fail_closed (derive a)"
  by (cases a rule: derive_cases) (auto simp: fail_closed_def verdict_simps)

lemma refuse_closed: "fail_closed (refuse e code)"
  by (simp add: refuse_def fail_closed_def)

text \<open>The floor the shell passes comes from the capacity policy; it is never negative.\<close>

lemma headroom_bytes_nonneg: "0 \<le> headroom_bytes c"
  unfolding headroom_bytes_def by (rule trunc_nonneg [OF headroom_loop_nonneg])

lemma facts_floor_nonneg: "0 \<le> facts_floor f"
  using headroom_bytes_nonneg
  by (auto simp: facts_floor_def safety_floor_def Let_def le_max_iff_disj split: option.split)

lemma derive_facts_closed: "fail_closed (derive_facts sha con label ob fence now)"
proof -
  let ?f = "read_facts con label"
  have "fail_closed (derive (facts_args ?f ob fence))"
    by (rule derive_closed) (simp add: facts_args_def facts_floor_nonneg)
  then show ?thesis
    by (auto simp: derive_facts_def Let_def serial_repair_case_def) (simp add: fail_closed_def)
qed

lemma preview_drive_closed: "fail_closed (preview_drive sha observe now con0 con1 con2 ok label)"
  by (simp add: preview_drive_def Let_def derive_facts_closed refuse_closed split: sum.split)

interpretation shadow: evidence_source "shadow_evidence con" for con
  by unfold_locales (simp add: shadow_evidence_def Let_def derive_closed DIAGNOSTIC_SAFETY_FLOOR_def)

interpretation execution: evidence_source "\<lambda>label. execution_evidence sha con label ob now" for sha con ob now
  by unfold_locales (simp add: execution_evidence_def derive_facts_closed)

interpretation preview: evidence_source "\<lambda>label. preview_drive sha observe now con0 con1 con2 ok label"
  for sha observe now con0 con1 con2 ok
  by unfold_locales (rule preview_drive_closed)

section \<open>Properties\<close>

text \<open>
  C4: The precedence rule admits exactly two situations: a mounted, identity-proven, fenced
  drive under dedicated-local control with a free reading, or an offline clean drive under the
  same control whose anchor matches the current epoch, fingerprint and capacity and lies within
  it. The floor is subtracted exactly once; everything else is unknown and contributes zero.
\<close>

theorem derive_precedence:
  "(ev_executable (derive a) \<longleftrightarrow> (\<exists>free. live_admits a free \<or> anchor_admits a free))
   \<and> (\<forall>free. ev_observed_free (derive a) = Some free \<longrightarrow>
        ev_admissible_free (derive a) = max 0 (free - da_safety_floor_bytes a)
        \<and> (ev_kind (derive a) = Live \<and> live_admits a free
           \<or> ev_kind (derive a) = Anchor \<and> anchor_admits a free))
   \<and> (ev_executable (derive a) \<or> derive a = unknown_evidence (ev_optimistic_usable_max (derive a))
                                               (the (ev_code (derive a))))"
  by (cases a rule: derive_cases) (auto simp: verdict_simps)

text \<open>
  C34: Execution admission is bound to the catalog's row of the drive, which must be under
  dedicated-local control. With an observation, an executable verdict needs its identity proof, its
  fingerprint (present) and its capacity to be the row's, and admits the observed free bytes
  above the policy floor. Without one it rests on a clean anchor of that label, of the row's
  epoch, write generation, fingerprint and capacity, whose free bytes lie within that capacity.
\<close>

theorem execution_evidence_bound:
  assumes "ev_executable (execution_evidence sha con label ob now)"
  shows "\<exists>d. List.find (\<lambda>d. dr_label d = label) (cc_drives con) = Some d
     \<and> dr_write_authority d = dedicated_local
     \<and> (case ob of
          Some x \<Rightarrow> ob_identity_proven x \<and> ob_fingerprint x = dr_identity_fingerprint d
            \<and> \<not> falsy (dr_identity_fingerprint d)
            \<and> ob_filesystem_capacity x = dr_filesystem_capacity_bytes d
            \<and> (\<exists>free. ob_free_bytes x = Some free
                 \<and> ev_admissible_free (execution_evidence sha con label ob now)
                     = max 0 (free - facts_floor (read_facts con label)))
        | None \<Rightarrow> (\<exists>anchor. anchor \<in> set (cc_anchors con) \<and> ar_label anchor = label
            \<and> ar_identity_epoch anchor = dr_identity_epoch d \<and> ar_generation anchor = dr_write_generation d
            \<and> dr_identity_fingerprint d = Some (ar_fingerprint anchor)
            \<and> dr_filesystem_capacity_bytes d = Some (ar_filesystem_capacity_bytes anchor)
            \<and> 0 \<le> ar_free_bytes anchor \<and> ar_free_bytes anchor \<le> ar_filesystem_capacity_bytes anchor
            \<and> ev_admissible_free (execution_evidence sha con label ob now)
                = max 0 (ar_free_bytes anchor - facts_floor (read_facts con label))))"
proof -
  let ?f = "read_facts con label"
  let ?a = "facts_args ?f ob True"
  have ex: "ev_executable (derive ?a)"
    and adm: "ev_admissible_free (execution_evidence sha con label ob now) = ev_admissible_free (derive ?a)"
    using assms by (auto simp: execution_evidence_def derive_facts_def Let_def split: if_splits)
  show ?thesis
  proof (cases "List.find (\<lambda>d. dr_label d = label) (cc_drives con)")
    case None
    then have "da_write_authority ?a \<noteq> dedicated_local"
      by (simp add: facts_args_def read_facts_def dedicated_local_def)
    with ex show ?thesis
      by (cases ?a rule: derive_cases) (simp_all add: live_admits_def anchor_admits_def verdict_simps)
  next
    case (Some d)
    note row = facts_args_def read_facts_def Some
    show ?thesis
    proof (cases ?a rule: derive_cases)
      case (live free)
      then show ?thesis
        using adm Some
        by (auto simp: live_admits_def observation_proven_def row verdict_simps split: option.splits)
    next
      case (anchor free)
      then obtain r where r: "find_anchor con label (dr_identity_epoch d) (dr_write_generation d) = Some r"
        and ob: "ob = None"
        by (auto simp: anchor_admits_def row)
      have "r \<in> set (cc_anchors con) \<and> ar_label r = label \<and> ar_identity_epoch r = dr_identity_epoch d
          \<and> ar_generation r = dr_write_generation d"
        using r by (auto simp: find_anchor_def dest!: find_SomeD)
      then show ?thesis
        using anchor adm r ob Some by (auto simp: anchor_admits_def row verdict_simps)
    next
      case (unknown code)
      with ex show ?thesis by (simp add: verdict_simps)
    qed
  qed
qed

text \<open>
  A preview is a fenced snapshot: when the captured drive has a fingerprint, an executable
  verdict means lock keys were derived, the fence was acquired and the identity did not change
  between capture and the comparison under the fence. Whatever happens, an inadmissible preview
  contributes zero and names its reason.
\<close>

theorem preview_fenced:
  "fail_closed (preview_drive sha observe now con0 con1 con2 ok label)
   \<and> (ev_executable (preview_drive sha observe now con0 con1 con2 ok label)
        \<and> \<not> falsy (fx_fingerprint (read_facts con0 label)) \<longrightarrow>
      ok \<and> (\<exists>keys. lock_keys sha (facts_fence_identity (read_facts con0 label)) = Inr keys)
      \<and> facts_fence_identity (read_facts con1 label) = facts_fence_identity (read_facts con0 label)
      \<and> preview_drive sha observe now con0 con1 con2 ok label
          = execution_evidence sha con2 label (observe label) now)"
  using preview.closed [of sha observe now con0 con1 con2 ok label]
  by (auto simp: preview_drive_def execution_evidence_def Let_def refuse_def split: sum.splits if_splits)

text \<open>
  The diagnostic accessor grants nothing without anchors: over a catalog with no clean
  anchor every drive derives unknown, with zero admissible bytes.
\<close>

lemma shadow_unknown_without_anchor:
  assumes "cc_anchors con = []"
  shows "list_all (\<lambda>(label, e). ev_kind e = Unknown \<and> ev_admissible_free e = 0) (shadow_by_drive con)
    \<and> map fst (shadow_by_drive con) = map dr_label (sort_key dr_label (cc_drives con))"
  using assms
  by (auto simp: shadow_by_drive_def shadow_evidence_def find_anchor_def derive_def Let_def list_all_iff)

text \<open>
  The serial-repair code is a diagnostic only: relabelling an unproven verdict never makes
  it executable nor changes what it admits.
\<close>

lemma serial_repair_not_executable:
  assumes "ev_code (execution_evidence sha con label ob now) = Some DRIVE_SERIAL_REPAIR_REQUIRED"
  shows "\<not> ev_executable (execution_evidence sha con label ob now)
     \<and> ev_admissible_free (execution_evidence sha con label ob now) = 0
     \<and> (\<exists>x. ob = Some x \<and> \<not> ob_identity_proven x)"
proof -
  have "\<not> ev_executable (execution_evidence sha con label ob now)"
    using execution.executable_iff_no_code [of sha con label ob now] assms by simp
  moreover from this have "ev_admissible_free (execution_evidence sha con label ob now) = 0"
    using execution.closed [of sha con label ob now] by (auto simp: fail_closed_def)
  moreover have "ev_code (derive d) \<noteq> Some DRIVE_SERIAL_REPAIR_REQUIRED" for d
    by (auto simp: derive_def Let_def split: option.split)
  then have "serial_repair_case sha (read_facts con label) ob True
      (derive (facts_args (read_facts con label) ob True))"
    using assms by (auto simp: execution_evidence_def derive_facts_def Let_def split: if_splits)
  ultimately show ?thesis
    by (auto simp: serial_repair_case_def split: option.splits)
qed

section \<open>Concrete instances\<close>

definition demo_live :: derive_args where
  "demo_live = \<lparr>da_mounted = True, da_identity_proven = True, da_fence_held = True,
     da_write_authority = dedicated_local, da_current_epoch = Some 1,
     da_filesystem_capacity_bytes = Some 1000, da_current_fingerprint = Some ''fp'',
     da_live_free_bytes = Some 700, da_dirty = False, da_anchor_free_bytes = None,
     da_anchor_epoch = None, da_anchor_fingerprint = None,
     da_anchor_filesystem_capacity = None, da_safety_floor_bytes = 100\<rparr>"

theorem derive_precedence_witness:
  "ev_admissible_free (derive demo_live) = 600 \<and> live_admits demo_live 700"
proof -
  have "ev_observed_free (derive demo_live) = Some 700"
    by (simp add: derive_def demo_live_def)
  with derive_precedence [of demo_live] have "ev_admissible_free (derive demo_live) = max 0 (700 - da_safety_floor_bytes demo_live)
     \<and> (live_admits demo_live 700 \<or> anchor_admits demo_live 700)" by blast
  then show ?thesis by (simp add: demo_live_def anchor_admits_def)
qed

definition demo_catalog :: capacity_catalog where
  "demo_catalog = \<lparr>cc_drives = [\<lparr>dr_label = ''d1'', dr_identity_epoch = 1, dr_write_generation = 2,
     dr_identity_fingerprint = Some (identity_payload (Some ''u-1'') None None (Some 1000)),
     dr_filesystem_capacity_bytes = Some 1000,
     dr_write_authority = dedicated_local, dr_raid_backed = False, dr_free_bytes = Some 5,
     dr_fs_uuid = Some ''u-1'', dr_annex_uuid = None, dr_serial = Some ''S9''\<rparr>], cc_anchors = []\<rparr>"

definition demo_observation :: "bool \<Rightarrow> observation" where
  "demo_observation proven = \<lparr>ob_identity_proven = proven, ob_free_bytes = Some 700,
     ob_filesystem_capacity = Some 1000,
     ob_fingerprint = Some (identity_payload (Some ''u-1'') None (if proven then None else Some ''S9'') (Some 1000)),
     ob_refusal_code = (if proven then None else Some ''DRIVE_SERIAL_REPAIR_REQUIRED'')\<rparr>"

lemmas demo_simps = demo_catalog_def demo_observation_def read_facts_def find_anchor_def facts_args_def
  observation_proven_def falsy_def derive_def derive_facts_def serial_repair_case_def dedicated_local_def

definition anchored_catalog :: capacity_catalog where
  "anchored_catalog = demo_catalog\<lparr>cc_anchors := [\<lparr>ar_label = ''d1'', ar_identity_epoch = 1, ar_generation = 2,
     ar_free_bytes = 700, ar_fingerprint = identity_payload (Some ''u-1'') None None (Some 1000),
     ar_filesystem_capacity_bytes = 1000\<rparr>]\<rparr>"

theorem execution_evidence_bound_witness:
  "ev_admissible_free (execution_evidence id demo_catalog ''d1'' (Some (demo_observation True)) ''now'')
     = max 0 (700 - facts_floor (read_facts demo_catalog ''d1''))
   \<and> ev_admissible_free (execution_evidence id anchored_catalog ''d1'' None ''now'')
     = max 0 (700 - facts_floor (read_facts anchored_catalog ''d1''))"
proof
  have "ev_executable (execution_evidence id demo_catalog ''d1'' (Some (demo_observation True)) ''now'')"
    by (simp add: execution_evidence_def demo_simps proven_evidence_def Let_def)
  from execution_evidence_bound [OF this]
  show "ev_admissible_free (execution_evidence id demo_catalog ''d1'' (Some (demo_observation True)) ''now'')
     = max 0 (700 - facts_floor (read_facts demo_catalog ''d1''))"
    by (auto simp: demo_observation_def)
  have "ev_executable (execution_evidence id anchored_catalog ''d1'' None ''now'')"
    by (simp add: execution_evidence_def anchored_catalog_def demo_simps proven_evidence_def Let_def)
  from execution_evidence_bound [OF this]
  show "ev_admissible_free (execution_evidence id anchored_catalog ''d1'' None ''now'')
     = max 0 (700 - facts_floor (read_facts anchored_catalog ''d1''))"
    by (auto simp: anchored_catalog_def demo_catalog_def)
qed

theorem preview_fenced_witness:
  "ev_executable (preview_drive id (\<lambda>_. Some (demo_observation True)) ''now''
       demo_catalog demo_catalog demo_catalog True ''d1'')
   \<and> (\<exists>keys. lock_keys id (facts_fence_identity (read_facts demo_catalog ''d1'')) = Inr keys)"
proof -
  have k: "\<exists>keys. lock_keys id (facts_fence_identity (read_facts demo_catalog ''d1'')) = Inr keys"
    by (simp add: lock_keys_def facts_fence_identity_def demo_simps malformed_def py_strip_def is_space_def)
  then have "ev_executable (preview_drive id (\<lambda>_. Some (demo_observation True)) ''now''
       demo_catalog demo_catalog demo_catalog True ''d1'')"
    by (auto simp: preview_drive_def demo_simps Let_def)
  moreover have "\<not> falsy (fx_fingerprint (read_facts demo_catalog ''d1''))"
    by (simp add: demo_simps identity_payload_def)
  ultimately show ?thesis
    using preview_fenced [of id "\<lambda>_. Some (demo_observation True)" "''now''" demo_catalog demo_catalog
      demo_catalog True "''d1''"] by blast
qed

end
