(* ===== verification/Candidates.thy ===== *)
theory Candidates
  imports Budgets Digest Identity
begin

text \<open>
  \<open>modelark/candidates.py\<close>: the desired copies of a plan and, for each, either proof that it is
  already satisfied, every reusable or fresh target that could carry it, or the reason it is
  blocked. A dictionary built from rows is \<open>dict_get\<close> of the rows (last one wins); a set of
  labels that is only iterated sorted is a sorted list. The one error of the module, a
  requirement whose repository has no manifest, is the value \<open>Inl repo\<close>.
\<close>

section \<open>Data\<close>

datatype requirement_kind = PRIMARY | PROTECTED_HOME | PROTECTED_REPLICA

fun requirement_kind_value :: "requirement_kind \<Rightarrow> str" where
  "requirement_kind_value PRIMARY = ''primary''"
| "requirement_kind_value PROTECTED_HOME = ''protected_home''"
| "requirement_kind_value PROTECTED_REPLICA = ''protected_replica''"

datatype task_kind = FETCH | REPLICATE

fun task_kind_value :: "task_kind \<Rightarrow> str" where
  "task_kind_value FETCH = ''fetch''"
| "task_kind_value REPLICATE = ''replicate''"

datatype proof_source = MANIFEST_SHA256 | ARCHIVED_ORIG_SHA256 | RAW_ANNEX_SHA256E

record drive_fact =
  df_label :: str
  df_role :: str
  df_raid_backed :: bool
  df_capacity_bytes :: int
  df_filesystem_capacity_bytes :: "int option"
  df_identity_epoch :: int
  df_fs_uuid :: "str option"
  df_annex_uuid :: "str option"
  df_serial :: "str option"
  df_lifecycle :: str
  df_eligibility :: str

record archived_file =
  af_repo :: str
  af_drive :: str
  af_rfilename :: str
  af_orig_sha256 :: "str option"
  af_orig_bytes :: "int option"
  af_stored_bytes :: "int option"
  af_annex_key :: "str option"
  af_compressed :: py_flag

record copy_requirement =
  rq_id :: str
  rq_repo :: str
  rq_kind :: requirement_kind
  rq_eligible :: "str list"
  rq_independent_of :: "str option"

record requirement_graph =
  rg_desired :: "copy_requirement list"
  rg_hash :: str

record reusable_file =
  ru_rfilename :: str
  ru_size_bytes :: int
  ru_bound_hash :: str
  ru_proof_source :: proof_source

record source_identity =
  si_drive :: str
  si_annex_key :: "str option"
  si_orig_sha256 :: "str option"

datatype copy_source = NoSource | FromHome source_identity | PendingHome "str option"

record candidate =
  ca_requirement :: str
  ca_task_kind :: task_kind
  ca_target :: str
  ca_source :: copy_source
  ca_depends_on :: "str option"
  ca_reused :: "reusable_file list"
  ca_missing :: "manifest_file list"
  ca_budget :: candidate_budget
  ca_transfer_bytes :: int

record satisfied_copy =
  sc_drive :: str
  sc_reused :: "reusable_file list"

record drift_row =
  dw_requirement :: str
  dw_drive :: str
  dw_rfilename :: str
  dw_reason :: str

record candidate_set =
  cs_satisfied :: "(str \<times> satisfied_copy list) list"
  cs_by_requirement :: "(str \<times> candidate list) list"
  cs_drift :: "drift_row list"
  cs_blocked :: "(str \<times> str) list"

record planner_input =
  pi_plan_id :: str
  pi_selection :: "str list"
  pi_manifests :: "(str \<times> manifest_file list) list"
  pi_numcopies :: "(str \<times> int option) list"
  pi_drives :: "drive_fact list"
  pi_archived :: "archived_file list"
  pi_compression_cfg :: compression_cfg
  pi_float_ratio :: rat

section \<open>Lifecycle and eligibility\<close>

definition is_placeable :: "drive_fact \<Rightarrow> bool" where
  "is_placeable d \<longleftrightarrow> df_lifecycle d = ''active'' \<and> df_eligibility d = ''enabled''"

definition is_satisfying :: "drive_fact \<Rightarrow> bool" where
  "is_satisfying d \<longleftrightarrow> df_lifecycle d = ''active''"

definition has_role :: "str \<Rightarrow> drive_fact \<Rightarrow> bool" where
  "has_role r d \<longleftrightarrow> df_role d = r"

text \<open>\<open>{d.drive_label: d for d in drives}\<close> and a test on the drive of a label.\<close>

definition by_label :: "drive_fact list \<Rightarrow> str \<Rightarrow> drive_fact option" where
  "by_label ds l = dict_get (map (\<lambda>d. (df_label d, d)) ds) l"

definition drive_sat :: "(drive_fact \<Rightarrow> bool) \<Rightarrow> drive_fact list \<Rightarrow> str \<Rightarrow> bool" where
  "drive_sat P ds l = (case by_label ds l of None \<Rightarrow> False | Some d \<Rightarrow> P d)"

definition labels_where :: "(drive_fact \<Rightarrow> bool) \<Rightarrow> drive_fact list \<Rightarrow> str list" where
  "labels_where P ds = filter (drive_sat P ds) (sorted_set (map df_label ds))"

definition label_capacity :: "drive_fact list \<Rightarrow> str \<Rightarrow> int" where
  "label_capacity ds l = (case by_label ds l of None \<Rightarrow> 0 | Some d \<Rightarrow> df_capacity_bytes d)"

text \<open>\<open>sorted(labels, key=lambda lab: (-capacity, lab))[0]\<close> as a one-element tuple.\<close>

definition largest :: "drive_fact list \<Rightarrow> str list \<Rightarrow> str list" where
  "largest ds ls = take 1 (sort_key (\<lambda>l. (- label_capacity ds l, l)) ls)"

definition satisfaction_pool :: "copy_requirement \<Rightarrow> drive_fact list \<Rightarrow> str list" where
  "satisfaction_pool req ds =
     (let active_primary = labels_where (\<lambda>d. has_role ''primary'' d \<and> is_satisfying d) ds;
          active_raids = filter (drive_sat df_raid_backed ds) active_primary;
          active_replicas = labels_where (\<lambda>d. has_role ''replica'' d \<and> is_satisfying d) ds in
      (case rq_kind req of
         PRIMARY \<Rightarrow> active_primary
       | PROTECTED_HOME \<Rightarrow>
           (if active_raids \<noteq> [] then active_raids
            else if active_primary = [] then []
            else largest ds active_primary)
       | PROTECTED_REPLICA \<Rightarrow> active_replicas))"

definition accepted_complete_pool :: "copy_requirement \<Rightarrow> drive_fact list \<Rightarrow> str list" where
  "accepted_complete_pool req ds = sorted_set (satisfaction_pool req ds @ rq_eligible req)"

section \<open>Requirements\<close>

definition effective_copies :: "(str \<times> int option) list \<Rightarrow> str \<Rightarrow> int" where
  "effective_copies numcopies repo =
     (case dict_get numcopies repo of
        None \<Rightarrow> 1
      | Some None \<Rightarrow> 1
      | Some (Some n) \<Rightarrow> if n = 0 then 1 else n)"

definition requirement_name :: "requirement_kind \<Rightarrow> str \<Rightarrow> str" where
  "requirement_name kind repo = requirement_kind_value kind @ '':'' @ repo"

definition repo_requirements ::
  "str list \<Rightarrow> str list \<Rightarrow> str list \<Rightarrow> (str \<times> int option) list \<Rightarrow> str \<Rightarrow> copy_requirement list" where
  "repo_requirements primary homes replicas numcopies repo =
     (if effective_copies numcopies repo < 2
      then [\<lparr>rq_id = requirement_name PRIMARY repo, rq_repo = repo, rq_kind = PRIMARY,
             rq_eligible = primary, rq_independent_of = None\<rparr>]
      else [\<lparr>rq_id = requirement_name PROTECTED_HOME repo, rq_repo = repo, rq_kind = PROTECTED_HOME,
             rq_eligible = homes, rq_independent_of = None\<rparr>,
            \<lparr>rq_id = requirement_name PROTECTED_REPLICA repo, rq_repo = repo, rq_kind = PROTECTED_REPLICA,
             rq_eligible = replicas, rq_independent_of = Some (requirement_name PROTECTED_HOME repo)\<rparr>])"

definition json_list :: "str list \<Rightarrow> str" where
  "json_list xs = ''['' @ concat (case xs of [] \<Rightarrow> [] | y # ys \<Rightarrow> y # map (\<lambda>z. '','' @ z) ys) @ '']''"

definition hash_requirements :: "(str \<Rightarrow> str) \<Rightarrow> copy_requirement list \<Rightarrow> str" where
  "hash_requirements sha desired =
     sha (json_list (map (\<lambda>r. json_list
         [json_string (rq_id r), json_string (rq_repo r), json_string (requirement_kind_value (rq_kind r)),
          json_list (map json_string (rq_eligible r)), json_opt json_string (rq_independent_of r)])
       (sort_key rq_id desired)))"

definition requirements :: "(str \<Rightarrow> str) \<Rightarrow> planner_input \<Rightarrow> requirement_graph" where
  "requirements sha inp =
     (let ds = pi_drives inp;
          primary = labels_where (\<lambda>d. has_role ''primary'' d \<and> is_placeable d) ds;
          raids = filter (drive_sat df_raid_backed ds) primary;
          replicas = labels_where (\<lambda>d. has_role ''replica'' d \<and> is_placeable d) ds;
          fallback = (if raids = [] \<and> primary \<noteq> [] then largest ds primary else []);
          homes = (if raids \<noteq> [] then raids else fallback);
          desired = sort_key rq_id (concat (map (\<lambda>(repo, _).
             repo_requirements primary homes replicas (pi_numcopies inp) repo) (pi_manifests inp))) in
      \<lparr>rg_desired = desired, rg_hash = hash_requirements sha desired\<rparr>)"

section \<open>Reuse proofs\<close>

datatype reuse_verdict = Missing | Proven | Unbound

definition proof_of :: "manifest_file \<Rightarrow> archived_file option \<Rightarrow> reuse_verdict" where
  "proof_of mf row =
     (case row of
        None \<Rightarrow> Missing
      | Some r \<Rightarrow>
         (if af_orig_bytes r \<noteq> Some (mf_size_bytes mf) then Unbound
          else if content_satisfies (mf_sha256 mf) (af_orig_sha256 r) (af_compressed r) (af_annex_key r)
          then Proven else Unbound))"

text \<open>
  The last branch of \<open>_reusable\<close> is reached after \<open>_proof\<close> has established that a digest
  resolves; the empty text stands for the Python \<open>None\<close> that cannot occur there.
\<close>

definition reusable :: "manifest_file \<Rightarrow> archived_file \<Rightarrow> reusable_file" where
  "reusable mf row =
     (case mf_sha256 mf of
        Some h \<Rightarrow> \<lparr>ru_rfilename = mf_rfilename mf, ru_size_bytes = mf_size_bytes mf,
                   ru_bound_hash = h, ru_proof_source = MANIFEST_SHA256\<rparr>
      | None \<Rightarrow>
         (case af_orig_sha256 row of
            Some h \<Rightarrow> \<lparr>ru_rfilename = mf_rfilename mf, ru_size_bytes = mf_size_bytes mf,
                       ru_bound_hash = h, ru_proof_source = ARCHIVED_ORIG_SHA256\<rparr>
          | None \<Rightarrow> \<lparr>ru_rfilename = mf_rfilename mf, ru_size_bytes = mf_size_bytes mf,
                     ru_bound_hash =
                       (case expected_sha256 None None (af_compressed row) (af_annex_key row) of
                          Inr (Some h) \<Rightarrow> h | _ \<Rightarrow> []),
                     ru_proof_source = RAW_ANNEX_SHA256E\<rparr>))"

text \<open>\<open>archived.get((repo, label), {})\<close>: the rows of one copy, by file name.\<close>

definition rows_of :: "archived_file list \<Rightarrow> str \<Rightarrow> str \<Rightarrow> (str \<times> archived_file) list" where
  "rows_of archived repo label =
     map (\<lambda>r. (af_rfilename r, r)) (filter (\<lambda>r. af_repo r = repo \<and> af_drive r = label) archived)"

record assessment =
  as_reused :: "reusable_file list"
  as_missing :: "manifest_file list"
  as_drift :: "drift_row list"
  as_blocked :: bool

text \<open>The inner loop over the manifest of one requirement on one drive.\<close>

fun assess :: "str \<Rightarrow> bool \<Rightarrow> str \<Rightarrow> (str \<times> archived_file) list \<Rightarrow> manifest_file list \<Rightarrow> assessment" where
  "assess rid placeable label rows [] =
     \<lparr>as_reused = [], as_missing = [], as_drift = [], as_blocked = False\<rparr>"
| "assess rid placeable label rows (mf # rest) =
     (let a = assess rid placeable label rows rest; row = dict_get rows (mf_rfilename mf) in
      case proof_of mf row of
        Missing \<Rightarrow> a\<lparr>as_missing := mf # as_missing a\<rparr>
      | Proven \<Rightarrow> a\<lparr>as_reused := reusable mf (the row) # as_reused a\<rparr>
      | Unbound \<Rightarrow>
          a\<lparr>as_drift := (if placeable
                 then [\<lparr>dw_requirement = rid, dw_drive = label, dw_rfilename = mf_rfilename mf,
                        dw_reason = ''unproven_provenance''\<rparr>] else []) @ as_drift a,
            as_blocked := True\<rparr>)"

definition assess_label :: "archived_file list \<Rightarrow> copy_requirement \<Rightarrow> manifest_file list \<Rightarrow> str \<Rightarrow> assessment" where
  "assess_label archived req manifest label =
     assess (rq_id req) (label \<in> set (rq_eligible req)) label (rows_of archived (rq_repo req) label) manifest"

text \<open>Every file of the manifest proven on a drive that has rows of the repository.\<close>

definition complete_on :: "archived_file list \<Rightarrow> str \<Rightarrow> manifest_file list \<Rightarrow> str \<Rightarrow> bool" where
  "complete_on archived repo manifest label =
     (let rows = rows_of archived repo label in
      rows \<noteq> [] \<and> list_all (\<lambda>mf. proof_of mf (dict_get rows (mf_rfilename mf)) = Proven) manifest)"

section \<open>Candidates of one requirement\<close>

text \<open>Finish-in-place and fresh targets: \<open>(label, reused, missing)\<close>.\<close>

definition valid_targets ::
  "archived_file list \<Rightarrow> copy_requirement \<Rightarrow> manifest_file list \<Rightarrow> str list
     \<Rightarrow> (str \<times> reusable_file list \<times> manifest_file list) list" where
  "valid_targets archived req manifest labels =
     List.map_filter (\<lambda>l. let a = assess_label archived req manifest l in
        if as_blocked a then None
        else if as_missing a \<noteq> [] then
          (if l \<in> set (rq_eligible req)
           then Some (l, sort_key ru_rfilename (as_reused a), sort_key mf_rfilename (as_missing a))
           else None)
        else None) labels"

definition complete_copies ::
  "archived_file list \<Rightarrow> copy_requirement \<Rightarrow> manifest_file list \<Rightarrow> str list \<Rightarrow> satisfied_copy list" where
  "complete_copies archived req manifest labels =
     List.map_filter (\<lambda>l. let a = assess_label archived req manifest l in
        if as_blocked a \<or> as_missing a \<noteq> [] then None
        else Some \<lparr>sc_drive = l, sc_reused = sort_key ru_rfilename (as_reused a)\<rparr>) labels"

definition requirement_drift ::
  "planner_input \<Rightarrow> copy_requirement \<Rightarrow> manifest_file list \<Rightarrow> str list \<Rightarrow> drift_row list" where
  "requirement_drift inp req manifest accepted =
     concat (map (\<lambda>l. as_drift (assess_label (pi_archived inp) req manifest l)) accepted)
     @ concat (map (\<lambda>l.
          if complete_on (pi_archived inp) (rq_repo req) manifest l
          then map (\<lambda>mf. \<lparr>dw_requirement = rq_id req, dw_drive = l, dw_rfilename = mf_rfilename mf,
                          dw_reason = ''wrong_tier''\<rparr>) manifest
          else [])
        (filter (\<lambda>l. l \<notin> set accepted) (sorted_set (map df_label (pi_drives inp)))))"

definition home_sources ::
  "copy_requirement \<Rightarrow> copy_requirement list \<Rightarrow> manifest_file list \<Rightarrow> archived_file list
     \<Rightarrow> drive_fact list \<Rightarrow> source_identity list" where
  "home_sources req desired manifest archived ds =
     (case rq_independent_of req of
        None \<Rightarrow> []
      | Some home_id \<Rightarrow>
         (case dict_get (map (\<lambda>r. (rq_id r, r)) desired) home_id of
            None \<Rightarrow> []
          | Some home \<Rightarrow>
             sort_key si_drive (map (\<lambda>l.
               (case manifest of
                  [mf] \<Rightarrow>
                    (let row = dict_get (rows_of archived (rq_repo req) l) (mf_rfilename mf) in
                     \<lparr>si_drive = l, si_annex_key = Option.bind row af_annex_key,
                      si_orig_sha256 = Option.bind row af_orig_sha256\<rparr>)
                | _ \<Rightarrow> \<lparr>si_drive = l, si_annex_key = None, si_orig_sha256 = None\<rparr>))
               (filter (complete_on archived (rq_repo req) manifest) (accepted_complete_pool home ds)))))"

definition fetch_candidate ::
  "bool \<Rightarrow> planner_input \<Rightarrow> copy_requirement \<Rightarrow> str \<Rightarrow> reusable_file list \<Rightarrow> manifest_file list \<Rightarrow> candidate" where
  "fetch_candidate zstd inp req target reused missing =
     (let budget = aggregate (map (\<lambda>mf. file_budget zstd mf (pi_float_ratio inp)
                                (pi_compression_cfg inp) None False) missing) in
      \<lparr>ca_requirement = rq_id req, ca_task_kind = FETCH, ca_target = target, ca_source = NoSource,
       ca_depends_on = None, ca_reused = reused, ca_missing = missing, ca_budget = budget,
       ca_transfer_bytes = cb_guaranteed_durable budget\<rparr>)"

definition source_bytes :: "(str \<times> archived_file) list \<Rightarrow> manifest_file \<Rightarrow> int option" where
  "source_bytes stored mf = Option.bind (dict_get stored (mf_rfilename mf)) af_stored_bytes"

definition bytes_or_zero :: "int option \<Rightarrow> int" where
  "bytes_or_zero v = (case v of None \<Rightarrow> 0 | Some n \<Rightarrow> n)"

definition replica_file_budgets ::
  "bool \<Rightarrow> planner_input \<Rightarrow> str \<Rightarrow> copy_source \<Rightarrow> manifest_file list \<Rightarrow> file_budget list" where
  "replica_file_budgets zstd inp repo source missing =
     (let ratio = pi_float_ratio inp; cfg = pi_compression_cfg inp;
          estimate = map (\<lambda>mf. file_budget zstd mf ratio cfg None True) missing in
      (case source of
         FromHome s \<Rightarrow>
           (let stored = rows_of (pi_archived inp) repo (si_drive s) in
            if list_all (\<lambda>mf. bytes_or_zero (source_bytes stored mf) > 0 \<or> mf_size_bytes mf = 0) missing
            then map (\<lambda>mf. file_budget zstd mf ratio cfg
                             (Some (bytes_or_zero (source_bytes stored mf))) False) missing
            else estimate)
       | _ \<Rightarrow> estimate))"

definition replica_candidate ::
  "bool \<Rightarrow> planner_input \<Rightarrow> copy_requirement \<Rightarrow> str \<Rightarrow> reusable_file list \<Rightarrow> manifest_file list
     \<Rightarrow> copy_source \<Rightarrow> candidate" where
  "replica_candidate zstd inp req target reused missing source =
     (let budget = aggregate (replica_file_budgets zstd inp (rq_repo req) source missing) in
      \<lparr>ca_requirement = rq_id req, ca_task_kind = REPLICATE, ca_target = target, ca_source = source,
       ca_depends_on = (case source of PendingHome rid \<Rightarrow> rid | _ \<Rightarrow> None),
       ca_reused = reused, ca_missing = missing, ca_budget = budget,
       ca_transfer_bytes = cb_guaranteed_durable budget\<rparr>)"

definition source_key :: "copy_source \<Rightarrow> str \<times> str" where
  "source_key source =
     (case source of
        FromHome s \<Rightarrow> (''source'', si_drive s)
      | PendingHome rid \<Rightarrow> (''pending'', (case rid of None \<Rightarrow> [] | Some r \<Rightarrow> r))
      | NoSource \<Rightarrow> ([], []))"

definition target_candidates ::
  "bool \<Rightarrow> planner_input \<Rightarrow> copy_requirement \<Rightarrow> source_identity list
     \<Rightarrow> str \<times> reusable_file list \<times> manifest_file list \<Rightarrow> candidate list" where
  "target_candidates zstd inp req sources = (\<lambda>(label, reused, missing).
     (if rq_kind req = PROTECTED_REPLICA then
        (if sources \<noteq> []
         then map (\<lambda>s. replica_candidate zstd inp req label reused missing (FromHome s)) sources
         else [replica_candidate zstd inp req label reused missing (PendingHome (rq_independent_of req))])
      else [fetch_candidate zstd inp req label reused missing]))"

definition requirement_candidates ::
  "bool \<Rightarrow> planner_input \<Rightarrow> copy_requirement list \<Rightarrow> copy_requirement \<Rightarrow> manifest_file list \<Rightarrow> candidate list" where
  "requirement_candidates zstd inp desired req manifest =
     (let accepted = accepted_complete_pool req (pi_drives inp);
          sources = (if rq_kind req = PROTECTED_REPLICA
                     then home_sources req desired manifest (pi_archived inp) (pi_drives inp) else []) in
      sort_key (\<lambda>c. (ca_target c, source_key (ca_source c), task_kind_value (ca_task_kind c)))
        (concat (map (target_candidates zstd inp req sources)
                     (valid_targets (pi_archived inp) req manifest accepted))))"

section \<open>The candidate set\<close>

datatype outcome =
    Satisfied "satisfied_copy list"
  | Open "candidate list"
  | Blocked str

definition satisfied_of :: "outcome \<Rightarrow> satisfied_copy list option" where
  "satisfied_of oc = (case oc of Satisfied cs \<Rightarrow> Some cs | _ \<Rightarrow> None)"

definition open_of :: "outcome \<Rightarrow> candidate list option" where
  "open_of oc = (case oc of Open cs \<Rightarrow> Some cs | _ \<Rightarrow> None)"

definition blocked_of :: "outcome \<Rightarrow> str option" where
  "blocked_of oc = (case oc of Blocked r \<Rightarrow> Some r | _ \<Rightarrow> None)"

definition requirement_outcome ::
  "bool \<Rightarrow> planner_input \<Rightarrow> copy_requirement list \<Rightarrow> copy_requirement \<Rightarrow> manifest_file list \<Rightarrow> outcome" where
  "requirement_outcome zstd inp desired req manifest =
     (let accepted = accepted_complete_pool req (pi_drives inp);
          copies = complete_copies (pi_archived inp) req manifest accepted;
          cands = requirement_candidates zstd inp desired req manifest in
      if copies \<noteq> [] then Satisfied (sort_key sc_drive copies)
      else if cands \<noteq> [] then Open cands
      else Blocked (if rq_eligible req = [] then ''no_eligible_tier'' else ''all_targets_unproven''))"

fun evaluate ::
  "bool \<Rightarrow> planner_input \<Rightarrow> copy_requirement list \<Rightarrow> copy_requirement list
     \<Rightarrow> str + (str \<times> outcome \<times> drift_row list) list" where
  "evaluate zstd inp desired [] = Inr []"
| "evaluate zstd inp desired (req # rest) =
     (case dict_get (pi_manifests inp) (rq_repo req) of
        None \<Rightarrow> Inl (rq_repo req)
      | Some manifest \<Rightarrow>
         (case evaluate zstd inp desired rest of
            Inl e \<Rightarrow> Inl e
          | Inr tail \<Rightarrow>
             Inr ((rq_id req, requirement_outcome zstd inp desired req manifest,
                   requirement_drift inp req manifest (accepted_complete_pool req (pi_drives inp))) # tail)))"

definition candidates :: "bool \<Rightarrow> planner_input \<Rightarrow> requirement_graph \<Rightarrow> str + candidate_set" where
  "candidates zstd inp graph =
     (case evaluate zstd inp (rg_desired graph) (rg_desired graph) of
        Inl e \<Rightarrow> Inl e
      | Inr outcomes \<Rightarrow> Inr
         \<lparr>cs_satisfied = sort_key fst (List.map_filter (\<lambda>(rid, oc, _).
             map_option (Pair rid) (satisfied_of oc)) outcomes),
          cs_by_requirement = sort_key fst (List.map_filter (\<lambda>(rid, oc, _).
             map_option (Pair rid) (open_of oc)) outcomes),
          cs_drift = sort_key (\<lambda>d. (dw_requirement d, dw_drive d, dw_rfilename d, dw_reason d))
             (remdups (concat (map (\<lambda>(_, _, d). d) outcomes))),
          cs_blocked = sort_key fst (List.map_filter (\<lambda>(rid, oc, _).
             map_option (Pair rid) (blocked_of oc)) outcomes)\<rparr>)"

section \<open>Lemmas\<close>

text \<open>The verdict of one manifest file on one drive, and the manifest of a requirement.\<close>

definition verdict_on :: "archived_file list \<Rightarrow> str \<Rightarrow> str \<Rightarrow> manifest_file \<Rightarrow> reuse_verdict" where
  "verdict_on archived repo label mf = proof_of mf (dict_get (rows_of archived repo label) (mf_rfilename mf))"

definition manifest_of :: "planner_input \<Rightarrow> copy_requirement \<Rightarrow> manifest_file list" where
  "manifest_of inp req = the (dict_get (pi_manifests inp) (rq_repo req))"

lemma assess_spec:
  "as_missing (assess rid p l rows m) = filter (\<lambda>mf. proof_of mf (dict_get rows (mf_rfilename mf)) = Missing) m"
  "as_reused (assess rid p l rows m) = map (\<lambda>mf. reusable mf (the (dict_get rows (mf_rfilename mf))))
     (filter (\<lambda>mf. proof_of mf (dict_get rows (mf_rfilename mf)) = Proven) m)"
  "as_blocked (assess rid p l rows m) \<longleftrightarrow>
     (\<exists>mf\<in>set m. proof_of mf (dict_get rows (mf_rfilename mf)) = Unbound)"
  by (induction m) (auto simp: Let_def split: reuse_verdict.split)

lemma assess_label_spec:
  "as_missing (assess_label a req m l) = filter (\<lambda>mf. verdict_on a (rq_repo req) l mf = Missing) m"
  "as_blocked (assess_label a req m l) \<longleftrightarrow> (\<exists>mf\<in>set m. verdict_on a (rq_repo req) l mf = Unbound)"
  "ru_rfilename ` set (as_reused (assess_label a req m l)) =
     mf_rfilename ` {mf \<in> set m. verdict_on a (rq_repo req) l mf = Proven}"
  by (auto simp: assess_label_def verdict_on_def assess_spec reusable_def image_iff split: option.split)

lemma complete_on_verdict:
  "complete_on a repo m l \<Longrightarrow> mf \<in> set m \<Longrightarrow> verdict_on a repo l mf = Proven"
  by (simp add: complete_on_def verdict_on_def Let_def list_all_iff)

lemma in_valid_targets:
  "(l, reused, missing) \<in> set (valid_targets a req m ls) \<longleftrightarrow>
     l \<in> set ls \<and> l \<in> set (rq_eligible req)
     \<and> \<not> as_blocked (assess_label a req m l) \<and> as_missing (assess_label a req m l) \<noteq> []
     \<and> reused = sort_key ru_rfilename (as_reused (assess_label a req m l))
     \<and> missing = sort_key mf_rfilename (as_missing (assess_label a req m l))"
  by (auto simp: valid_targets_def set_map_filter Let_def split: if_splits)

lemma in_complete_copies:
  "c \<in> set (complete_copies a req m ls) \<longleftrightarrow>
     sc_drive c \<in> set ls \<and> (\<forall>mf\<in>set m. verdict_on a (rq_repo req) (sc_drive c) mf = Proven)
     \<and> c = \<lparr>sc_drive = sc_drive c,
            sc_reused = sort_key ru_rfilename (as_reused (assess_label a req m (sc_drive c)))\<rparr>"
proof -
  have *: "(\<not> as_blocked (assess_label a req m l) \<and> as_missing (assess_label a req m l) = [])
      \<longleftrightarrow> (\<forall>mf\<in>set m. verdict_on a (rq_repo req) l mf = Proven)" for l
    by (auto simp: assess_label_spec filter_empty_conv) (metis reuse_verdict.exhaust)+
  show ?thesis
    by (auto simp: complete_copies_def set_map_filter Let_def * [symmetric] split: if_splits)
qed

lemma target_candidates_fields:
  assumes "c \<in> set (target_candidates z inp req sources (l, reused, missing))"
  shows "ca_requirement c = rq_id req" "ca_target c = l" "ca_reused c = reused" "ca_missing c = missing"
    "ca_task_kind c = (if rq_kind req = PROTECTED_REPLICA then REPLICATE else FETCH)"
    "rq_kind req \<noteq> PROTECTED_REPLICA \<Longrightarrow> ca_source c = NoSource \<and> ca_depends_on c = None"
    "rq_kind req = PROTECTED_REPLICA \<Longrightarrow>
       (sources \<noteq> [] \<and> ca_depends_on c = None \<and> (\<exists>s\<in>set sources. ca_source c = FromHome s))
       \<or> (sources = [] \<and> ca_depends_on c = rq_independent_of req \<and> ca_source c = PendingHome (rq_independent_of req))"
  using assms
  by (auto simp: target_candidates_def fetch_candidate_def replica_candidate_def Let_def split: if_splits)

lemma target_candidates_nonempty: "target_candidates z inp req sources t \<noteq> []"
  by (cases t) (simp add: target_candidates_def)

lemma in_requirement_candidates:
  "c \<in> set (requirement_candidates z inp desired req m) \<longleftrightarrow>
     (\<exists>t\<in>set (valid_targets (pi_archived inp) req m (accepted_complete_pool req (pi_drives inp))).
        c \<in> set (target_candidates z inp req
          (if rq_kind req = PROTECTED_REPLICA
           then home_sources req desired m (pi_archived inp) (pi_drives inp) else []) t))"
  by (auto simp: requirement_candidates_def Let_def)

text \<open>
  The sort keys of the candidates of one requirement are comparable in Python too: two of its
  sources are the same or are homes on different drives, so a comparison is decided before it
  could meet a missing identity against a present one (a \<open>TypeError\<close>).
\<close>

lemma home_sources_determined:
  assumes "s \<in> set (home_sources req desired m archived ds)" "t \<in> set (home_sources req desired m archived ds)"
    and "si_drive s = si_drive t"
  shows "s = t"
  using assms by (auto simp: home_sources_def Let_def split: option.splits list.splits)

lemma sources_comparable:
  assumes "c \<in> set (requirement_candidates z inp desired req m)" "d \<in> set (requirement_candidates z inp desired req m)"
  shows "ca_source c = ca_source d
    \<or> (\<exists>s t. ca_source c = FromHome s \<and> ca_source d = FromHome t \<and> si_drive s \<noteq> si_drive t)"
proof -
  let ?ss = "if rq_kind req = PROTECTED_REPLICA
    then home_sources req desired m (pi_archived inp) (pi_drives inp) else []"
  from assms obtain t u where "c \<in> set (target_candidates z inp req ?ss t)"
    "d \<in> set (target_candidates z inp req ?ss u)"
    unfolding in_requirement_candidates by blast
  then have "ca_source x = NoSource \<and> rq_kind req \<noteq> PROTECTED_REPLICA
      \<or> rq_kind req = PROTECTED_REPLICA \<and> ?ss = [] \<and> ca_source x = PendingHome (rq_independent_of req)
      \<or> rq_kind req = PROTECTED_REPLICA \<and> (\<exists>s\<in>set ?ss. ca_source x = FromHome s)" if "x \<in> {c, d}" for x
    using that by (auto simp: target_candidates_def fetch_candidate_def replica_candidate_def Let_def
        split: prod.splits if_splits)
  from this [of c] this [of d] show ?thesis
    using home_sources_determined by (auto split: if_splits)
qed

lemma requirement_candidates_Nil:
  "requirement_candidates z inp desired req m = [] \<longleftrightarrow>
     valid_targets (pi_archived inp) req m (accepted_complete_pool req (pi_drives inp)) = []"
proof
  assume "requirement_candidates z inp desired req m = []"
  then have "\<not> c \<in> set (requirement_candidates z inp desired req m)" for c by simp
  then show "valid_targets (pi_archived inp) req m (accepted_complete_pool req (pi_drives inp)) = []"
    unfolding in_requirement_candidates
    by (metis list.set_intros(1) neq_Nil_conv target_candidates_nonempty)
next
  assume "valid_targets (pi_archived inp) req m (accepted_complete_pool req (pi_drives inp)) = []"
  then show "requirement_candidates z inp desired req m = []"
    by (simp add: requirement_candidates_def Let_def)
qed

lemma evaluate_Inr:
  "evaluate z inp desired reqs = Inr os \<Longrightarrow>
     os = map (\<lambda>r. (rq_id r, requirement_outcome z inp desired r (manifest_of inp r),
        requirement_drift inp r (manifest_of inp r) (accepted_complete_pool r (pi_drives inp)))) reqs
     \<and> (\<forall>r\<in>set reqs. dict_get (pi_manifests inp) (rq_repo r) = Some (manifest_of inp r))"
  by (induction reqs arbitrary: os) (auto simp: manifest_of_def split: option.splits sum.splits)

lemma outcome_of_Some [simp]:
  "satisfied_of oc = Some cs \<longleftrightarrow> oc = Satisfied cs"
  "open_of oc = Some cands \<longleftrightarrow> oc = Open cands"
  "blocked_of oc = Some r \<longleftrightarrow> oc = Blocked r"
  by (cases oc; simp add: satisfied_of_def open_of_def blocked_of_def)+

text \<open>Collecting one kind of outcome from the evaluated requirements.\<close>

lemma set_collect:
  "set (List.map_filter (\<lambda>(rid, oc, d). map_option (Pair rid) (sel oc)) (map (\<lambda>r. (f r, g r, h r)) xs))
     = {(f r, v) | r v. r \<in> set xs \<and> sel (g r) = Some v}"
  by (auto simp: set_map_filter)

text \<open>The outcome of a requirement of the plan.\<close>

abbreviation outcome_of :: "bool \<Rightarrow> planner_input \<Rightarrow> requirement_graph \<Rightarrow> copy_requirement \<Rightarrow> outcome" where
  "outcome_of z inp graph r \<equiv> requirement_outcome z inp (rg_desired graph) r (manifest_of inp r)"

lemma candidates_sets:
  assumes "candidates z inp graph = Inr S"
  shows "set (cs_satisfied S) = {(rq_id r, cs) | r cs. r \<in> set (rg_desired graph) \<and> outcome_of z inp graph r = Satisfied cs}"
    "set (cs_by_requirement S) = {(rq_id r, cs) | r cs. r \<in> set (rg_desired graph) \<and> outcome_of z inp graph r = Open cs}"
    "set (cs_blocked S) = {(rq_id r, b) | r b. r \<in> set (rg_desired graph) \<and> outcome_of z inp graph r = Blocked b}"
    "\<forall>r\<in>set (rg_desired graph). dict_get (pi_manifests inp) (rq_repo r) = Some (manifest_of inp r)"
proof -
  obtain os where os: "evaluate z inp (rg_desired graph) (rg_desired graph) = Inr os"
    using assms by (auto simp: candidates_def split: sum.splits)
  note ev = evaluate_Inr [OF os]
  show "set (cs_satisfied S) = {(rq_id r, cs) | r cs. r \<in> set (rg_desired graph) \<and> outcome_of z inp graph r = Satisfied cs}"
    "set (cs_by_requirement S) = {(rq_id r, cs) | r cs. r \<in> set (rg_desired graph) \<and> outcome_of z inp graph r = Open cs}"
    "set (cs_blocked S) = {(rq_id r, b) | r b. r \<in> set (rg_desired graph) \<and> outcome_of z inp graph r = Blocked b}"
    using assms os conjunct1 [OF ev] by (auto simp: candidates_def set_collect)
  show "\<forall>r\<in>set (rg_desired graph). dict_get (pi_manifests inp) (rq_repo r) = Some (manifest_of inp r)"
    using ev by blast
qed

lemma candidates_sorted:
  assumes "candidates z inp graph = Inr S"
  shows "sorted (map fst (cs_satisfied S))" "sorted (map fst (cs_by_requirement S))"
    "sorted (map fst (cs_blocked S))"
  using assms by (auto simp: candidates_def split: sum.splits)

lemma outcome_cases:
  "requirement_outcome z inp desired r m = Satisfied cs \<longleftrightarrow>
     complete_copies (pi_archived inp) r m (accepted_complete_pool r (pi_drives inp)) \<noteq> []
     \<and> cs = sort_key sc_drive (complete_copies (pi_archived inp) r m (accepted_complete_pool r (pi_drives inp)))"
  "requirement_outcome z inp desired r m = Open cands \<longleftrightarrow>
     complete_copies (pi_archived inp) r m (accepted_complete_pool r (pi_drives inp)) = []
     \<and> cands \<noteq> [] \<and> cands = requirement_candidates z inp desired r m"
  "requirement_outcome z inp desired r m = Blocked b \<longleftrightarrow>
     complete_copies (pi_archived inp) r m (accepted_complete_pool r (pi_drives inp)) = []
     \<and> requirement_candidates z inp desired r m = []
     \<and> b = (if rq_eligible r = [] then ''no_eligible_tier'' else ''all_targets_unproven'')"
  by (auto simp: requirement_outcome_def Let_def)

lemma eligible_accepted: "l \<in> set (rq_eligible r) \<Longrightarrow> l \<in> set (accepted_complete_pool r ds)"
  by (simp add: accepted_complete_pool_def)

lemma in_labels_where: "l \<in> set (labels_where P ds) \<longleftrightarrow> drive_sat P ds l"
  by (auto simp: labels_where_def drive_sat_def by_label_def split: option.splits dest!: dict_get_key)

lemma drive_sat_mono: "drive_sat P ds l \<Longrightarrow> (\<And>d. P d \<Longrightarrow> Q d) \<Longrightarrow> drive_sat Q ds l"
  by (auto simp: drive_sat_def split: option.splits)

lemma drive_sat_conj: "drive_sat P ds l \<Longrightarrow> drive_sat Q ds l \<Longrightarrow> drive_sat (\<lambda>d. P d \<and> Q d) ds l"
  by (auto simp: drive_sat_def split: option.splits)

lemma set_largest: "set (largest ds ls) \<subseteq> set ls"
  using set_take_subset [of 1 "sort_key (\<lambda>l. (- label_capacity ds l, l)) ls"] by (simp add: largest_def)

definition kind_role :: "requirement_kind \<Rightarrow> str" where
  "kind_role k = (if k = PROTECTED_REPLICA then ''replica'' else ''primary'')"

lemma satisfaction_pool_active:
  "l \<in> set (satisfaction_pool r ds) \<Longrightarrow> drive_sat (\<lambda>d. has_role (kind_role (rq_kind r)) d \<and> is_satisfying d) ds l"
proof -
  assume l: "l \<in> set (satisfaction_pool r ds)"
  let ?p = "labels_where (\<lambda>d. has_role ''primary'' d \<and> is_satisfying d) ds"
  have "rq_kind r \<noteq> PROTECTED_REPLICA \<Longrightarrow> l \<in> set ?p"
    using l set_largest [of ds ?p]
    by (cases "rq_kind r") (auto simp: satisfaction_pool_def Let_def split: if_splits)
  then show ?thesis
    using l by (cases "rq_kind r") (simp_all add: kind_role_def satisfaction_pool_def Let_def in_labels_where)
qed

text \<open>The requirements of a plan: kind, name, tier.\<close>

lemma in_repo_requirements:
  assumes "r \<in> set (repo_requirements P H R nc repo)"
  shows "rq_repo r = repo" "rq_id r = requirement_name (rq_kind r) repo"
    "rq_eligible r = (case rq_kind r of PRIMARY \<Rightarrow> P | PROTECTED_HOME \<Rightarrow> H | PROTECTED_REPLICA \<Rightarrow> R)"
    "rq_independent_of r = (if rq_kind r = PROTECTED_REPLICA
       then Some (requirement_name PROTECTED_HOME repo) else None)"
    "rq_kind r = PROTECTED_REPLICA \<Longrightarrow> \<exists>h\<in>set (repo_requirements P H R nc repo).
       rq_kind h = PROTECTED_HOME \<and> rq_repo h = repo"
  using assms by (auto simp: repo_requirements_def split: if_splits)

lemma requirement_cases:
  assumes "r \<in> set (rg_desired (requirements sha inp))"
  shows "rq_id r = requirement_name (rq_kind r) (rq_repo r)"
    "rq_independent_of r = (if rq_kind r = PROTECTED_REPLICA
       then Some (requirement_name PROTECTED_HOME (rq_repo r)) else None)"
    "l \<in> set (rq_eligible r) \<Longrightarrow>
       drive_sat (\<lambda>d. has_role (kind_role (rq_kind r)) d \<and> is_placeable d) (pi_drives inp) l"
    "rq_repo r \<in> fst ` set (pi_manifests inp)"
    "rq_kind r = PROTECTED_REPLICA \<Longrightarrow>
       (\<exists>h\<in>set (rg_desired (requirements sha inp)). rq_kind h = PROTECTED_HOME \<and> rq_repo h = rq_repo r)"
proof -
  let ?P = "labels_where (\<lambda>d. has_role ''primary'' d \<and> is_placeable d) (pi_drives inp)"
  let ?R = "labels_where (\<lambda>d. has_role ''replica'' d \<and> is_placeable d) (pi_drives inp)"
  let ?raids = "filter (drive_sat df_raid_backed (pi_drives inp)) ?P"
  let ?H = "if ?raids \<noteq> [] then ?raids else if ?raids = [] \<and> ?P \<noteq> [] then largest (pi_drives inp) ?P else []"
  have D: "set (rg_desired (requirements sha inp)) =
      (\<Union>(repo, m)\<in>set (pi_manifests inp). set (repo_requirements ?P ?H ?R (pi_numcopies inp) repo))"
    by (auto simp: requirements_def Let_def)
  from assms obtain repo where repo: "repo \<in> fst ` set (pi_manifests inp)"
    and r: "r \<in> set (repo_requirements ?P ?H ?R (pi_numcopies inp) repo)"
    unfolding D by force
  have sub: "set (repo_requirements ?P ?H ?R (pi_numcopies inp) repo) \<subseteq> set (rg_desired (requirements sha inp))"
    unfolding D using repo by force
  have H: "set ?H \<subseteq> set ?P"
    using set_largest [of "pi_drives inp" ?P] by auto
  note rr = in_repo_requirements [OF r]
  show "rq_id r = requirement_name (rq_kind r) (rq_repo r)"
    "rq_independent_of r = (if rq_kind r = PROTECTED_REPLICA
       then Some (requirement_name PROTECTED_HOME (rq_repo r)) else None)"
    "rq_repo r \<in> fst ` set (pi_manifests inp)"
    using rr repo by simp_all
  show "l \<in> set (rq_eligible r) \<Longrightarrow>
       drive_sat (\<lambda>d. has_role (kind_role (rq_kind r)) d \<and> is_placeable d) (pi_drives inp) l"
  proof -
    assume l: "l \<in> set (rq_eligible r)"
    with rr(3) H have "if rq_kind r = PROTECTED_REPLICA then l \<in> set ?R else l \<in> set ?P"
      by (cases "rq_kind r") auto
    then show ?thesis
      by (simp add: kind_role_def in_labels_where split: if_splits)
  qed
  show "rq_kind r = PROTECTED_REPLICA \<Longrightarrow>
       (\<exists>h\<in>set (rg_desired (requirements sha inp)). rq_kind h = PROTECTED_HOME \<and> rq_repo h = rq_repo r)"
    using rr(1,5) sub by blast
qed

lemma requirement_name_inj: "requirement_name k repo = requirement_name k' repo' \<Longrightarrow> k = k' \<and> repo = repo'"
  by (cases k; cases k') (simp_all add: requirement_name_def)

text \<open>A requirement is determined by its name, and so is the list of its candidates.\<close>

lemma desired_lists:
  obtains P H R where "set (rg_desired (requirements sha inp)) =
      (\<Union>(repo, m)\<in>set (pi_manifests inp). set (repo_requirements P H R (pi_numcopies inp) repo))"
proof -
  have "\<exists>P H R. set (rg_desired (requirements sha inp)) =
      (\<Union>(repo, m)\<in>set (pi_manifests inp). set (repo_requirements P H R (pi_numcopies inp) repo))"
    unfolding requirements_def Let_def
    by (intro exI, simp only: requirement_graph.simps set_sort set_concat set_map image_image case_prod_unfold)
  with that show ?thesis by blast
qed

lemma requirement_determined:
  assumes "r \<in> set (rg_desired (requirements sha inp))" "r' \<in> set (rg_desired (requirements sha inp))"
    and "rq_id r = rq_id r'"
  shows "r = r'"
proof -
  obtain P H R where D: "set (rg_desired (requirements sha inp)) =
      (\<Union>(repo, m)\<in>set (pi_manifests inp). set (repo_requirements P H R (pi_numcopies inp) repo))"
    by (rule desired_lists)
  note c = requirement_cases(1,2) [OF assms(1)] and c' = requirement_cases(1,2) [OF assms(2)]
  have same: "rq_kind r = rq_kind r'" "rq_repo r = rq_repo r'"
    using requirement_name_inj c(1) c'(1) assms(3) by metis+
  obtain repo repo' where "r \<in> set (repo_requirements P H R (pi_numcopies inp) repo)"
    "r' \<in> set (repo_requirements P H R (pi_numcopies inp) repo')"
    using assms(1,2) unfolding D by blast
  then have "rq_eligible r = rq_eligible r'"
    by (simp only: in_repo_requirements(3) same(1))
  with same assms(3) c(2) c'(2) show ?thesis by (intro copy_requirement.equality) simp_all
qed

lemma accepted_active:
  assumes "r \<in> set (rg_desired (requirements sha inp))"
    and "l \<in> set (accepted_complete_pool r (pi_drives inp))"
  shows "drive_sat (\<lambda>d. has_role (kind_role (rq_kind r)) d \<and> is_satisfying d) (pi_drives inp) l"
  using assms requirement_cases(3) [OF assms(1), of l] satisfaction_pool_active [of l r "pi_drives inp"]
  by (auto simp: accepted_complete_pool_def is_placeable_def is_satisfying_def elim: drive_sat_mono)

lemma home_sources_proven:
  assumes graph: "desired = rg_desired (requirements sha inp)" and r: "r \<in> set desired"
    and s: "s \<in> set (home_sources r desired m (pi_archived inp) (pi_drives inp))"
  shows "complete_on (pi_archived inp) (rq_repo r) m (si_drive s)"
    "drive_sat (\<lambda>d. has_role ''primary'' d \<and> is_satisfying d) (pi_drives inp) (si_drive s)"
proof -
  note rc = requirement_cases [OF r [unfolded graph]]
  obtain home_id where h1: "rq_independent_of r = Some home_id"
    using s by (cases "rq_independent_of r") (simp_all add: home_sources_def)
  obtain home where h2: "dict_get (map (\<lambda>r. (rq_id r, r)) desired) home_id = Some home"
    using s h1 by (cases "dict_get (map (\<lambda>r. (rq_id r, r)) desired) home_id") (simp_all add: home_sources_def)
  note h = h1 h2
  have in_pool: "complete_on (pi_archived inp) (rq_repo r) m (si_drive s)"
      "si_drive s \<in> set (accepted_complete_pool home (pi_drives inp))"
    using s h by (auto simp: home_sources_def Let_def split: list.splits)
  from h(1) rc(2) have id: "home_id = requirement_name PROTECTED_HOME (rq_repo r)"
    by (simp split: if_splits)
  from h(2) have home: "home \<in> set desired" "rq_id home = home_id"
    by (auto dest: dict_get_key)
  with id requirement_cases(1) [OF home(1) [unfolded graph]] have "rq_kind home = PROTECTED_HOME"
    by (metis requirement_name_inj)
  with accepted_active [OF home(1) [unfolded graph] in_pool(2)]
  show "drive_sat (\<lambda>d. has_role ''primary'' d \<and> is_satisfying d) (pi_drives inp) (si_drive s)"
    by (simp add: kind_role_def)
  from in_pool show "complete_on (pi_archived inp) (rq_repo r) m (si_drive s)" by simp
qed

lemma roles_disjoint: "drive_sat (\<lambda>d. has_role ''primary'' d \<and> P d) ds l \<Longrightarrow>
  drive_sat (\<lambda>d. has_role ''replica'' d \<and> Q d) ds l \<Longrightarrow> False"
  by (auto simp: drive_sat_def has_role_def split: option.splits)

lemma fst_image_pairs: "fst ` {(f r, v) | r v. r \<in> A \<and> P r v} = f ` {r \<in> A. \<exists>v. P r v}"
  by force

section \<open>Properties\<close>

text \<open>
  Every desired copy is accounted for exactly once: the satisfied, open and blocked
  requirements together are the desired ones, no requirement is in two of the groups, and each
  group is sorted.
\<close>

theorem candidates_partition:
  assumes "candidates z inp graph = Inr S" and "distinct (map rq_id (rg_desired graph))"
  shows "fst ` set (cs_satisfied S) \<union> fst ` set (cs_by_requirement S) \<union> fst ` set (cs_blocked S)
           = rq_id ` set (rg_desired graph)
     \<and> fst ` set (cs_satisfied S) \<inter> fst ` set (cs_by_requirement S) = {}
     \<and> fst ` set (cs_satisfied S) \<inter> fst ` set (cs_blocked S) = {}
     \<and> fst ` set (cs_by_requirement S) \<inter> fst ` set (cs_blocked S) = {}
     \<and> sorted (map fst (cs_by_requirement S))"
proof -
  note S = candidates_sets [OF assms(1)]
  let ?D = "set (rg_desired graph)" and ?o = "outcome_of z inp graph"
  have inj: "inj_on rq_id ?D"
    using assms(2) by (simp add: distinct_map)
  have sat: "fst ` set (cs_satisfied S) = rq_id ` {r \<in> ?D. \<exists>v. ?o r = Satisfied v}"
    and opn: "fst ` set (cs_by_requirement S) = rq_id ` {r \<in> ?D. \<exists>v. ?o r = Open v}"
    and blk: "fst ` set (cs_blocked S) = rq_id ` {r \<in> ?D. \<exists>v. ?o r = Blocked v}"
    unfolding S by (rule fst_image_pairs)+
  have "{r \<in> ?D. \<exists>v. ?o r = Satisfied v} \<union> {r \<in> ?D. \<exists>v. ?o r = Open v} \<union> {r \<in> ?D. \<exists>v. ?o r = Blocked v} = ?D"
    using outcome.exhaust by blast
  then have "fst ` set (cs_satisfied S) \<union> fst ` set (cs_by_requirement S) \<union> fst ` set (cs_blocked S)
      = rq_id ` ?D"
    unfolding sat opn blk image_Un [symmetric] by simp
  moreover have disj: "rq_id ` {r \<in> ?D. P r} \<inter> rq_id ` {r \<in> ?D. Q r} = {}"
    if "\<And>r. P r \<Longrightarrow> Q r \<Longrightarrow> False" for P Q
    using that inj by (auto simp: inj_on_def)
  moreover have "fst ` set (cs_satisfied S) \<inter> fst ` set (cs_by_requirement S) = {}"
    "fst ` set (cs_satisfied S) \<inter> fst ` set (cs_blocked S) = {}"
    "fst ` set (cs_by_requirement S) \<inter> fst ` set (cs_blocked S) = {}"
    unfolding sat opn blk by (rule disj; auto)+
  ultimately show ?thesis
    using candidates_sorted(2) [OF assms(1)] by blast
qed

text \<open>
  C27: A candidate never overwrites unproven data and never leaves the authorised tier: its
  target is an active, enabled drive of the requirement's role, no required file has an unproven
  row there, it fetches exactly the files that have no row and reuses exactly the proven ones.
\<close>

theorem candidate_targets_safe:
  assumes "candidates z inp (requirements sha inp) = Inr S"
    and "(rid, cs) \<in> set (cs_by_requirement S)" and "c \<in> set cs"
  shows "\<exists>r\<in>set (rg_desired (requirements sha inp)). rq_id r = rid \<and> ca_requirement c = rid
     \<and> drive_sat (\<lambda>d. has_role (kind_role (rq_kind r)) d \<and> is_placeable d) (pi_drives inp) (ca_target c)
     \<and> list_all (\<lambda>mf. verdict_on (pi_archived inp) (rq_repo r) (ca_target c) mf \<noteq> Unbound) (manifest_of inp r)
     \<and> set (ca_missing c) = {mf \<in> set (manifest_of inp r).
          verdict_on (pi_archived inp) (rq_repo r) (ca_target c) mf = Missing}
     \<and> ru_rfilename ` set (ca_reused c) = mf_rfilename ` {mf \<in> set (manifest_of inp r).
          verdict_on (pi_archived inp) (rq_repo r) (ca_target c) mf = Proven}
     \<and> ca_missing c \<noteq> []"
proof -
  let ?g = "requirements sha inp"
  from assms(2) obtain r where r: "r \<in> set (rg_desired ?g)" "rid = rq_id r"
    and "outcome_of z inp ?g r = Open cs"
    unfolding candidates_sets(2) [OF assms(1)] by auto
  then have "c \<in> set (requirement_candidates z inp (rg_desired ?g) r (manifest_of inp r))"
    using assms(3) by (simp add: outcome_cases)
  then obtain l reused missing sources where
    t: "(l, reused, missing) \<in> set (valid_targets (pi_archived inp) r (manifest_of inp r)
           (accepted_complete_pool r (pi_drives inp)))"
    and c: "c \<in> set (target_candidates z inp r sources (l, reused, missing))"
    unfolding in_requirement_candidates by (metis prod_cases3)
  note f = target_candidates_fields [OF c]
  note v = t [unfolded in_valid_targets]
  show ?thesis
  proof (intro bexI [OF _ r(1)] conjI)
    show "drive_sat (\<lambda>d. has_role (kind_role (rq_kind r)) d \<and> is_placeable d) (pi_drives inp) (ca_target c)"
      using v f(2) requirement_cases(3) [OF r(1)] by simp
    show "list_all (\<lambda>mf. verdict_on (pi_archived inp) (rq_repo r) (ca_target c) mf \<noteq> Unbound) (manifest_of inp r)"
      using v f(2) by (auto simp: list_all_iff assess_label_spec)
    show "ca_missing c \<noteq> []"
      using v f(4) by (metis length_0_conv length_sort)
  qed (use v f r in \<open>simp_all add: assess_label_spec\<close>)
qed

text \<open>
  C33: Satisfaction is proof: a requirement reported satisfied has at least one copy, every
  reported copy sits on an active drive of the requirement's role, and every file of the
  manifest is content-proven there.
\<close>

theorem satisfied_copies_proven:
  assumes "candidates z inp (requirements sha inp) = Inr S"
    and "(rid, copies) \<in> set (cs_satisfied S)"
  shows "copies \<noteq> [] \<and> (\<exists>r\<in>set (rg_desired (requirements sha inp)). rq_id r = rid
     \<and> list_all (\<lambda>c. drive_sat (\<lambda>d. has_role (kind_role (rq_kind r)) d \<and> is_satisfying d) (pi_drives inp) (sc_drive c)
          \<and> list_all (\<lambda>mf. verdict_on (pi_archived inp) (rq_repo r) (sc_drive c) mf = Proven) (manifest_of inp r))
        copies)"
proof -
  let ?g = "requirements sha inp"
  from assms(2) obtain r where r: "r \<in> set (rg_desired ?g)" "rid = rq_id r"
    and oc: "outcome_of z inp ?g r = Satisfied copies"
    unfolding candidates_sets(1) [OF assms(1)] by auto
  let ?cc = "complete_copies (pi_archived inp) r (manifest_of inp r) (accepted_complete_pool r (pi_drives inp))"
  from oc have cc: "?cc \<noteq> []" "copies = sort_key sc_drive ?cc"
    by (simp_all add: outcome_cases)
  then have "copies \<noteq> []" by (metis length_0_conv length_sort)
  moreover have "drive_sat (\<lambda>d. has_role (kind_role (rq_kind r)) d \<and> is_satisfying d) (pi_drives inp) (sc_drive c)
      \<and> list_all (\<lambda>mf. verdict_on (pi_archived inp) (rq_repo r) (sc_drive c) mf = Proven) (manifest_of inp r)"
    if "c \<in> set copies" for c
  proof -
    have "c \<in> set ?cc" using that cc(2) by simp
    from this [unfolded in_complete_copies] accepted_active [OF r(1)] show ?thesis
      by (simp add: list_all_iff)
  qed
  ultimately show ?thesis
    using r by (auto simp: list_all_iff)
qed

text \<open>
  A replica never comes from its own drive or from an unproven one: its source is a drive
  where every file is proven, active and of the primary role, and different from the target; and
  when no such home exists the candidate waits for the home requirement instead.
\<close>

theorem replica_source_independent:
  assumes "candidates z inp (requirements sha inp) = Inr S"
    and "(rid, cs) \<in> set (cs_by_requirement S)" and "c \<in> set cs" and "ca_task_kind c = REPLICATE"
  shows "\<exists>r\<in>set (rg_desired (requirements sha inp)). rq_id r = rid \<and> rq_kind r = PROTECTED_REPLICA
     \<and> (case ca_source c of
          FromHome s \<Rightarrow> complete_on (pi_archived inp) (rq_repo r) (manifest_of inp r) (si_drive s)
            \<and> drive_sat (\<lambda>d. has_role ''primary'' d \<and> is_satisfying d) (pi_drives inp) (si_drive s)
            \<and> si_drive s \<noteq> ca_target c \<and> ca_depends_on c = None
        | PendingHome p \<Rightarrow> p = Some (requirement_name PROTECTED_HOME (rq_repo r)) \<and> ca_depends_on c = p
        | NoSource \<Rightarrow> False)"
proof -
  let ?g = "requirements sha inp"
  from assms(2) obtain r where r: "r \<in> set (rg_desired ?g)" "rid = rq_id r"
    and "outcome_of z inp ?g r = Open cs"
    unfolding candidates_sets(2) [OF assms(1)] by auto
  then have "c \<in> set (requirement_candidates z inp (rg_desired ?g) r (manifest_of inp r))"
    using assms(3) by (simp add: outcome_cases)
  then obtain l reused missing where
    t: "(l, reused, missing) \<in> set (valid_targets (pi_archived inp) r (manifest_of inp r)
           (accepted_complete_pool r (pi_drives inp)))"
    and c: "c \<in> set (target_candidates z inp r (if rq_kind r = PROTECTED_REPLICA
           then home_sources r (rg_desired ?g) (manifest_of inp r) (pi_archived inp) (pi_drives inp) else [])
           (l, reused, missing))"
    unfolding in_requirement_candidates by (metis prod_cases3)
  note f = target_candidates_fields [OF c]
  from f(5) assms(4) have kind: "rq_kind r = PROTECTED_REPLICA" by (auto split: if_splits)
  have target: "drive_sat (\<lambda>d. has_role ''replica'' d \<and> is_placeable d) (pi_drives inp) (ca_target c)"
    using t [unfolded in_valid_targets] f(2) requirement_cases(3) [OF r(1)] kind by (auto simp: kind_role_def)
  have ind: "rq_independent_of r = Some (requirement_name PROTECTED_HOME (rq_repo r))"
    using requirement_cases(2) [OF r(1)] kind by simp
  have src: "complete_on (pi_archived inp) (rq_repo r) (manifest_of inp r) (si_drive s)
      \<and> drive_sat (\<lambda>d. has_role ''primary'' d \<and> is_satisfying d) (pi_drives inp) (si_drive s)
      \<and> si_drive s \<noteq> ca_target c"
    if "s \<in> set (home_sources r (rg_desired ?g) (manifest_of inp r) (pi_archived inp) (pi_drives inp))" for s
  proof -
    note hs = home_sources_proven [OF refl r(1) that]
    have "si_drive s \<noteq> ca_target c"
    proof
      assume eq: "si_drive s = ca_target c"
      show False by (rule roles_disjoint [OF hs(2) [unfolded eq] target])
    qed
    with hs show ?thesis by blast
  qed
  show ?thesis
  proof (intro bexI [OF _ r(1)] conjI)
    show "case ca_source c of
          FromHome s \<Rightarrow> complete_on (pi_archived inp) (rq_repo r) (manifest_of inp r) (si_drive s)
            \<and> drive_sat (\<lambda>d. has_role ''primary'' d \<and> is_satisfying d) (pi_drives inp) (si_drive s)
            \<and> si_drive s \<noteq> ca_target c \<and> ca_depends_on c = None
        | PendingHome p \<Rightarrow> p = Some (requirement_name PROTECTED_HOME (rq_repo r)) \<and> ca_depends_on c = p
        | NoSource \<Rightarrow> False"
      using f(7) [OF kind] kind ind src by auto
  qed (use r kind in simp_all)
qed

text \<open>
  C39: A blocked requirement is blocked for the reason it gives: either no drive is authorised,
  or every authorised drive holds an unproven row of a required file.
\<close>

theorem blocked_reason_exact:
  assumes "candidates z inp graph = Inr S" and "(rid, reason) \<in> set (cs_blocked S)"
  shows "\<exists>r\<in>set (rg_desired graph). rq_id r = rid
     \<and> (rq_eligible r = [] \<and> reason = ''no_eligible_tier''
        \<or> rq_eligible r \<noteq> [] \<and> reason = ''all_targets_unproven''
          \<and> list_all (\<lambda>l. list_ex (\<lambda>mf. verdict_on (pi_archived inp) (rq_repo r) l mf = Unbound)
                        (manifest_of inp r)) (rq_eligible r))"
proof -
  from assms(2) obtain r where r: "r \<in> set (rg_desired graph)" "rid = rq_id r"
    and oc: "outcome_of z inp graph r = Blocked reason"
    unfolding candidates_sets(3) [OF assms(1)] by auto
  let ?m = "manifest_of inp r" and ?acc = "accepted_complete_pool r (pi_drives inp)"
  have none: "complete_copies (pi_archived inp) r ?m ?acc = []"
    "valid_targets (pi_archived inp) r ?m ?acc = []"
    using oc by (simp_all add: outcome_cases requirement_candidates_Nil)
  have "\<exists>mf\<in>set ?m. verdict_on (pi_archived inp) (rq_repo r) l mf = Unbound" if l: "l \<in> set (rq_eligible r)" for l
  proof (rule ccontr)
    assume no: "\<not> ?thesis"
    let ?a = "assess_label (pi_archived inp) r ?m l"
    note acc = eligible_accepted [OF l, of "pi_drives inp"]
    show False
    proof (cases "as_missing ?a = []")
      case True
      then have "\<forall>mf\<in>set ?m. verdict_on (pi_archived inp) (rq_repo r) l mf = Proven"
        using no by (auto simp: assess_label_spec filter_empty_conv) (metis reuse_verdict.exhaust)
      then have "\<lparr>sc_drive = l, sc_reused = sort_key ru_rfilename (as_reused ?a)\<rparr>
          \<in> set (complete_copies (pi_archived inp) r ?m ?acc)"
        using acc by (simp add: in_complete_copies)
      with none(1) show False by simp
    next
      case False
      then have "(l, sort_key ru_rfilename (as_reused ?a), sort_key mf_rfilename (as_missing ?a))
          \<in> set (valid_targets (pi_archived inp) r ?m ?acc)"
        using no acc l by (simp add: in_valid_targets assess_label_spec)
      with none(2) show False by simp
    qed
  qed
  with oc r show ?thesis
    by (intro bexI [OF _ r(1)]) (auto simp: outcome_cases list_all_iff list_ex_iff)
qed

end
