(* ===== verification/PlanInstances.thy ===== *)
theory PlanInstances
  imports Candidates
begin

text \<open>
  Concrete plans for the properties of the candidate planner: a satisfied, a blocked and a
  replicated requirement, evaluated by the simplifier. The 64 MiB chunk size is not unfolded.
\<close>

declare DEFAULT_CHUNK_def [code del]
definition demo_drive :: "str \<Rightarrow> str \<Rightarrow> drive_fact" where
  "demo_drive label role = \<lparr>df_label = label, df_role = role, df_raid_backed = False,
     df_capacity_bytes = 1000, df_filesystem_capacity_bytes = Some 1000, df_identity_epoch = 1,
     df_fs_uuid = Some label, df_annex_uuid = None, df_serial = None,
     df_lifecycle = ''active'', df_eligibility = ''enabled''\<rparr>"

definition demo_file :: "str \<Rightarrow> int \<Rightarrow> manifest_file" where
  "demo_file name n = \<lparr>mf_rfilename = name, mf_size_bytes = n, mf_sha256 = None,
     mf_format = ''aux'', mf_quant = None, mf_storage_action = ''raw''\<rparr>"

definition demo_archived :: "str \<Rightarrow> str \<Rightarrow> str \<Rightarrow> int \<Rightarrow> archived_file" where
  "demo_archived repo drive name n = \<lparr>af_repo = repo, af_drive = drive, af_rfilename = name,
     af_orig_sha256 = Some (replicate 64 (CHR ''a'')), af_orig_bytes = Some n, af_stored_bytes = Some n,
     af_annex_key = None, af_compressed = PyBool False\<rparr>"

text \<open>A plan with one repository \<open>r\<close>: its number of copies and its archived rows.\<close>

definition demo_planner :: "int \<Rightarrow> archived_file list \<Rightarrow> planner_input" where
  "demo_planner copies rows =
     \<lparr>pi_plan_id = ''p'', pi_selection = [''r''], pi_manifests = [(''r'', [demo_file ''x'' 10])],
      pi_numcopies = [(''r'', Some copies)],
      pi_drives = [demo_drive ''d'' ''primary'', demo_drive ''e'' ''replica''],
      pi_archived = rows,
      pi_compression_cfg = \<lparr>cc_max_compress_ram_gb = 1, cc_stream_compress = True\<rparr>,
      pi_float_ratio = 1\<rparr>"

definition demo_candidates :: "int \<Rightarrow> archived_file list \<Rightarrow> str + candidate_set" where
  "demo_candidates copies rows = candidates False (demo_planner copies rows) (requirements id (demo_planner copies rows))"

lemma demo_satisfied:
  "\<exists>S copies. demo_candidates 1 [demo_archived ''r'' ''d'' ''x'' 10] = Inr S
     \<and> (''primary:r'', copies) \<in> set (cs_satisfied S)"
proof -
  have "case demo_candidates 1 [demo_archived ''r'' ''d'' ''x'' 10] of
      Inr S \<Rightarrow> ''primary:r'' \<in> fst ` set (cs_satisfied S) | Inl _ \<Rightarrow> False"
    by code_simp
  then show ?thesis by (auto split: sum.splits)
qed

lemma demo_blocked:
  "\<exists>S reason. demo_candidates 1 [demo_archived ''r'' ''d'' ''x'' 11] = Inr S
     \<and> (''primary:r'', reason) \<in> set (cs_blocked S)"
proof -
  have "case demo_candidates 1 [demo_archived ''r'' ''d'' ''x'' 11] of
      Inr S \<Rightarrow> ''primary:r'' \<in> fst ` set (cs_blocked S) | Inl _ \<Rightarrow> False"
    by code_simp
  then show ?thesis by (auto split: sum.splits)
qed

lemma demo_replica:
  "\<exists>S cs c. demo_candidates 2 [demo_archived ''r'' ''d'' ''x'' 10] = Inr S
     \<and> (''protected_replica:r'', cs) \<in> set (cs_by_requirement S) \<and> c \<in> set cs \<and> ca_task_kind c = REPLICATE"
proof -
  have "case demo_candidates 2 [demo_archived ''r'' ''d'' ''x'' 10] of
      Inr S \<Rightarrow> list_ex (\<lambda>(rid, cs). rid = ''protected_replica:r'' \<and> list_ex (\<lambda>c. ca_task_kind c = REPLICATE) cs)
        (cs_by_requirement S) | Inl _ \<Rightarrow> False"
    by code_simp
  then show ?thesis by (auto simp: list_ex_iff split: sum.splits)
qed

theorem candidates_partition_witness:
  "\<exists>S. demo_candidates 1 [demo_archived ''r'' ''d'' ''x'' 10] = Inr S
     \<and> fst ` set (cs_satisfied S) \<inter> fst ` set (cs_blocked S) = {}"
proof -
  obtain S copies where S: "demo_candidates 1 [demo_archived ''r'' ''d'' ''x'' 10] = Inr S"
    using demo_satisfied by (elim exE conjE)
  have d: "distinct (map rq_id (rg_desired (requirements id (demo_planner 1 [demo_archived ''r'' ''d'' ''x'' 10]))))"
    by code_simp
  from candidates_partition [OF S [unfolded demo_candidates_def] d]
  have "fst ` set (cs_satisfied S) \<inter> fst ` set (cs_blocked S) = {}" by (elim conjE)
  with S show ?thesis by (intro exI conjI)
qed

theorem candidate_targets_safe_witness:
  "\<exists>S cs c. demo_candidates 2 [demo_archived ''r'' ''d'' ''x'' 10] = Inr S
     \<and> (''protected_replica:r'', cs) \<in> set (cs_by_requirement S) \<and> c \<in> set cs \<and> ca_missing c \<noteq> []"
proof -
  obtain S cs c where s: "demo_candidates 2 [demo_archived ''r'' ''d'' ''x'' 10] = Inr S"
    "(''protected_replica:r'', cs) \<in> set (cs_by_requirement S)" "c \<in> set cs"
    using demo_replica by (elim exE conjE)
  from candidate_targets_safe [OF s [unfolded demo_candidates_def]] have "ca_missing c \<noteq> []"
    by (elim bexE conjE)
  with s show ?thesis by (intro exI conjI)
qed

theorem satisfied_copies_proven_witness:
  "\<exists>S copies. demo_candidates 1 [demo_archived ''r'' ''d'' ''x'' 10] = Inr S
     \<and> (''primary:r'', copies) \<in> set (cs_satisfied S) \<and> copies \<noteq> []"
proof -
  obtain S copies where s: "demo_candidates 1 [demo_archived ''r'' ''d'' ''x'' 10] = Inr S"
    "(''primary:r'', copies) \<in> set (cs_satisfied S)"
    using demo_satisfied by (elim exE conjE)
  from satisfied_copies_proven [OF s [unfolded demo_candidates_def]] have "copies \<noteq> []" by (elim conjE)
  with s show ?thesis by (intro exI conjI)
qed

theorem replica_source_independent_witness:
  "\<exists>S cs c. demo_candidates 2 [demo_archived ''r'' ''d'' ''x'' 10] = Inr S
     \<and> (''protected_replica:r'', cs) \<in> set (cs_by_requirement S) \<and> c \<in> set cs \<and> ca_source c \<noteq> NoSource"
proof -
  obtain S cs c where s: "demo_candidates 2 [demo_archived ''r'' ''d'' ''x'' 10] = Inr S"
    "(''protected_replica:r'', cs) \<in> set (cs_by_requirement S)" "c \<in> set cs" "ca_task_kind c = REPLICATE"
    using demo_replica by (elim exE conjE)
  from replica_source_independent [OF s [unfolded demo_candidates_def]] have "ca_source c \<noteq> NoSource"
    by (elim bexE conjE) (cases "ca_source c"; simp)
  with s show ?thesis by (intro exI conjI)
qed

theorem blocked_reason_exact_witness:
  "\<exists>S reason. demo_candidates 1 [demo_archived ''r'' ''d'' ''x'' 11] = Inr S
     \<and> (''primary:r'', reason) \<in> set (cs_blocked S)
     \<and> (reason = ''no_eligible_tier'' \<or> reason = ''all_targets_unproven'')"
proof -
  obtain S reason where s: "demo_candidates 1 [demo_archived ''r'' ''d'' ''x'' 11] = Inr S"
    "(''primary:r'', reason) \<in> set (cs_blocked S)"
    using demo_blocked by (elim exE conjE)
  from blocked_reason_exact [OF s [unfolded demo_candidates_def]]
  have "reason = ''no_eligible_tier'' \<or> reason = ''all_targets_unproven''"
    by (elim bexE disjE conjE) (rule disjI1 disjI2, assumption)+
  with s show ?thesis by (intro exI conjI)
qed
end
