(* ===== verification/Placement.thy ===== *)
theory Placement
  imports Candidates
begin

text \<open>
  \<open>modelark/placement.py\<close>, first part: the solver input, the budget and identity helpers, and
  the structural checks of Gate B that run before any search. A failed check is a
  \<open>gate_result\<close> value with a code, the diagnostics of that code and the operator actions.
\<close>

section \<open>Data\<close>

record evidence_fact =
  ef_label :: str
  ef_executable :: bool
  ef_kind :: str
  ef_code :: "str option"

record solver_bounds =
  sb_feasibility_state_limit :: nat
  sb_optimization_state_limit :: nat

record successor_preference =
  sp_predecessor :: str
  sp_successor :: str
  sp_lane_bytes :: int
  sp_baseline_targets :: "(str \<times> str) list"

record solver_input =
  so_graph :: requirement_graph
  so_candidates :: candidate_set
  so_drives :: "drive_fact list"
  so_executable_budget :: "(str \<times> int) list"
  so_max_usable :: "(str \<times> int option) list"
  so_drive_evidence :: "(str \<times> evidence_fact) list"
  so_capacity_mode :: str
  so_policy_version :: str
  so_bounds :: solver_bounds
  so_preference :: "successor_preference option"

record assignment_task =
  at_requirement :: str
  at_task_kind :: task_kind
  at_target :: str
  at_source :: "source_identity option"
  at_depends_on :: "str option"
  at_movement_cost :: int
  at_durable :: int
  at_workspace :: int
  at_missing_files :: "str list"
  at_reused_files :: "str list"
  at_guaranteed_durable :: int
  at_expected_durable :: int
  at_workspace_peak_guaranteed :: int
  at_workspace_peak_expected :: int
  at_budget_evidence :: str

record assignment =
  an_tasks :: "assignment_task list"
  an_remaining_free :: "(str \<times> int) list"

datatype gate_code =
    Feasible
  | Target_Tier_Missing
  | Unproven_Provenance
  | Graph_Dependency_Invariant
  | Failure_Domain_Unsatisfiable
  | Requirement_Exceeds_Usable_Max
  | Packing_Inconclusive
  | Infeasible_Under_Admission_Budget
  | Capacity_Evidence_Unknown
  | Infeasible_With_Unknown_At_Usable_Max

text \<open>The diagnostics dictionaries, one constructor per shape.\<close>

datatype diagnostics =
    NoDiagnostics
  | TierMissing str str requirement_kind "str list"
  | UnprovenRows str str requirement_kind "str list"
  | DependencyInvariant str "str option" str
  | DomainCollision str str "str list"
  | ExceedsMax str str int "(str \<times> int) list"
  | SearchDiagnostics str "str list" nat

record gate_result =
  gr_code :: gate_code
  gr_capacity_mode :: str
  gr_assignment :: "assignment option"
  gr_diagnostics :: diagnostics
  gr_actions :: "str list"
  gr_bounds :: solver_bounds
  gr_states_visited :: nat
  gr_relevant_unknown :: "str list"
  gr_message :: "str option"

section \<open>Maps and budgets\<close>

definition guaranteed_mode :: "str \<Rightarrow> bool" where
  "guaranteed_mode mode \<longleftrightarrow> mode = ''guaranteed'' \<or> mode = ''uncompressed''"

definition cand_durable :: "bool \<Rightarrow> candidate \<Rightarrow> int" where
  "cand_durable guaranteed c =
     (if guaranteed then cb_guaranteed_durable (ca_budget c) else cb_expected_durable (ca_budget c))"

definition cand_workspace :: "bool \<Rightarrow> candidate \<Rightarrow> int" where
  "cand_workspace guaranteed c =
     (if guaranteed then cb_workspace_peak_guaranteed (ca_budget c)
      else cb_workspace_peak_expected (ca_budget c))"

definition cand_peak :: "bool \<Rightarrow> candidate \<Rightarrow> int" where
  "cand_peak guaranteed c = cand_durable guaranteed c + cand_workspace guaranteed c"

text \<open>
  The identity tuple of a source. Tuples of different length differ in their first component, so
  padding with \<open>None\<close> keeps both equality and order.
\<close>

type_synonym placement_key = "str \<times> str option \<times> str option \<times> str option"

definition identity_key :: "copy_source \<Rightarrow> placement_key" where
  "identity_key source =
     (case source of
        FromHome s \<Rightarrow> (''source'', Some (si_drive s), si_annex_key s, si_orig_sha256 s)
      | PendingHome rid \<Rightarrow> (''pending'', rid, None, None)
      | NoSource \<Rightarrow> (''none'', None, None, None))"

definition truthy_equal :: "str option \<Rightarrow> str option \<Rightarrow> bool" where
  "truthy_equal x y \<longleftrightarrow> \<not> falsy x \<and> \<not> falsy y \<and> x = y"

definition same_failure_domain :: "drive_fact \<Rightarrow> drive_fact \<Rightarrow> bool" where
  "same_failure_domain a b \<longleftrightarrow>
     truthy_equal (df_fs_uuid a) (df_fs_uuid b)
     \<or> truthy_equal (df_annex_uuid a) (df_annex_uuid b)
     \<or> truthy_equal (df_serial a) (df_serial b)"

definition drive_map :: "solver_input \<Rightarrow> str \<Rightarrow> drive_fact option" where
  "drive_map inp = by_label (so_drives inp)"

definition req_by_id :: "solver_input \<Rightarrow> str \<Rightarrow> copy_requirement option" where
  "req_by_id inp = dict_get (map (\<lambda>r. (rq_id r, r)) (rg_desired (so_graph inp)))"

definition cands_for :: "solver_input \<Rightarrow> str \<Rightarrow> candidate list" where
  "cands_for inp rid =
     (case dict_get (cs_by_requirement (so_candidates inp)) rid of None \<Rightarrow> [] | Some cs \<Rightarrow> cs)"

definition satisfied_ids :: "solver_input \<Rightarrow> str list" where
  "satisfied_ids inp = map fst (cs_satisfied (so_candidates inp))"

definition blocked_reason :: "solver_input \<Rightarrow> str \<Rightarrow> str option" where
  "blocked_reason inp = dict_get (cs_blocked (so_candidates inp))"

definition max_usable :: "solver_input \<Rightarrow> str \<Rightarrow> int option" where
  "max_usable inp label = Option.bind (dict_get (so_max_usable inp) label) id"

section \<open>Structural checks\<close>

definition structural_result :: "solver_input \<Rightarrow> gate_code \<Rightarrow> diagnostics \<Rightarrow> str list \<Rightarrow> gate_result" where
  "structural_result inp code diag actions =
     \<lparr>gr_code = code, gr_capacity_mode = so_capacity_mode inp, gr_assignment = None,
      gr_diagnostics = diag, gr_actions = actions, gr_bounds = so_bounds inp, gr_states_visited = 0,
      gr_relevant_unknown = [], gr_message = None\<rparr>"

text \<open>The first element on which a check reports something.\<close>

fun first_some :: "('a \<Rightarrow> 'b option) \<Rightarrow> 'a list \<Rightarrow> 'b option" where
  "first_some f [] = None"
| "first_some f (x # xs) = (case f x of None \<Rightarrow> first_some f xs | Some y \<Rightarrow> Some y)"

definition check_blocked :: "solver_input \<Rightarrow> copy_requirement \<Rightarrow> gate_result option" where
  "check_blocked inp req =
     (case blocked_reason inp (rq_id req) of
        None \<Rightarrow> None
      | Some reason \<Rightarrow>
         (if reason = ''no_eligible_tier''
          then Some (structural_result inp Target_Tier_Missing
                 (TierMissing (rq_id req) (rq_repo req) (rq_kind req) (rq_eligible req))
                 [''add_eligible_drive'', ''change_plan_policy''])
          else if reason = ''all_targets_unproven''
          then Some (structural_result inp Unproven_Provenance
                 (UnprovenRows (rq_id req) (rq_repo req) (rq_kind req)
                   (sorted_set (map dw_drive (filter (\<lambda>d. dw_requirement d = rq_id req
                      \<and> dw_reason d = ''unproven_provenance'') (cs_drift (so_candidates inp))))))
                 [''repair_or_remove_unproven_rows'', ''provide_hash_evidence''])
          else None))"

definition check_dependency :: "solver_input \<Rightarrow> str list \<Rightarrow> copy_requirement \<Rightarrow> gate_result option" where
  "check_dependency inp req_ids req =
     (case rq_independent_of req of
        None \<Rightarrow> None
      | Some dep \<Rightarrow>
         (if dep \<notin> set req_ids
          then Some (structural_result inp Graph_Dependency_Invariant
                 (DependencyInvariant (rq_id req) (Some dep) ''missing_dependency_reference'')
                 [''inspect_integrity'', ''reconcile_plan''])
          else None))"

text \<open>The dependency a requirement is followed through: a non-empty \<open>independent_of\<close>.\<close>

definition next_dependency :: "(str \<times> str option) list \<Rightarrow> str \<Rightarrow> str option" where
  "next_dependency deps rid =
     (case dict_get deps rid of None \<Rightarrow> None | Some d \<Rightarrow> or_none d)"

text \<open>
  The depth-first \<open>visit\<close>: result, \<open>visiting\<close> set and \<open>seen\<close> set; \<open>deps\<close> lists
  \<open>independent_of\<close> by requirement.
\<close>

function visit :: "(str \<times> str option) list \<Rightarrow> str \<Rightarrow> str list \<Rightarrow> str list \<Rightarrow> bool \<times> str list \<times> str list" where
  "visit deps rid visiting seen =
     (if rid \<in> set seen then (False, visiting, seen)
      else if rid \<in> set visiting then (True, visiting, seen)
      else (case next_dependency deps rid of
          None \<Rightarrow> (False, visiting, rid # seen)
        | Some d \<Rightarrow>
           (case visit deps d (rid # visiting) seen of
              (True, v, s) \<Rightarrow> (True, v, s)
            | (False, v, s) \<Rightarrow> (False, removeAll rid v, rid # s))))"
  by pat_completeness auto

termination
proof (relation "measure (\<lambda>(deps, rid, visiting, seen). card (fst ` set deps - set visiting))", goal_cases)
  case (2 deps rid visiting seen d)
  have "rid \<in> fst ` set deps - set visiting"
    using 2 dict_get_None_iff [of deps rid] by (force simp: next_dependency_def split: option.splits)
  then have "card (fst ` set deps - set (rid # visiting)) < card (fst ` set deps - set visiting)"
    by (intro psubset_card_mono) auto
  then show ?case by simp
qed simp

declare visit.simps [simp del]

definition dependency_list :: "solver_input \<Rightarrow> (str \<times> str option) list" where
  "dependency_list inp = map (\<lambda>r. (rq_id r, rq_independent_of r)) (rg_desired (so_graph inp))"

fun check_cycles :: "solver_input \<Rightarrow> copy_requirement list \<Rightarrow> str list \<Rightarrow> gate_result option" where
  "check_cycles inp [] seen = None"
| "check_cycles inp (req # rest) seen =
     (case visit (dependency_list inp) (rq_id req) [] seen of
        (True, _, _) \<Rightarrow> Some (structural_result inp Graph_Dependency_Invariant
            (DependencyInvariant (rq_id req) (rq_independent_of req) ''dependency_cycle'')
            [''inspect_integrity'', ''reconcile_plan''])
      | (False, _, seen') \<Rightarrow> check_cycles inp rest seen')"

text \<open>A home target and a replica candidate both known and in different failure domains.\<close>

definition separated :: "solver_input \<Rightarrow> str list \<Rightarrow> candidate list \<Rightarrow> bool" where
  "separated inp homes reps =
     list_ex (\<lambda>ht. case drive_map inp ht of
        None \<Rightarrow> False
      | Some hdr \<Rightarrow> list_ex (\<lambda>c. case drive_map inp (ca_target c) of
            None \<Rightarrow> False
          | Some rdr \<Rightarrow> \<not> same_failure_domain hdr rdr) reps) homes"

definition shared_attributes :: "drive_fact \<Rightarrow> drive_fact \<Rightarrow> str list" where
  "shared_attributes hdr rdr =
     (let bit = (\<lambda>attr hv rv. case hv of
            None \<Rightarrow> []
          | Some v \<Rightarrow> if v \<noteq> [] \<and> rv = Some v then [attr @ '':'' @ v] else []) in
      bit ''fs_uuid'' (df_fs_uuid hdr) (df_fs_uuid rdr)
      @ bit ''annex_uuid'' (df_annex_uuid hdr) (df_annex_uuid rdr)
      @ bit ''serial'' (df_serial hdr) (df_serial rdr))"

definition domain_bits :: "solver_input \<Rightarrow> str list \<Rightarrow> candidate list \<Rightarrow> str list" where
  "domain_bits inp homes reps =
     concat (map (\<lambda>ht. case drive_map inp ht of
        None \<Rightarrow> []
      | Some hdr \<Rightarrow> concat (map (\<lambda>c. case drive_map inp (ca_target c) of
            None \<Rightarrow> []
          | Some rdr \<Rightarrow> if same_failure_domain hdr rdr then shared_attributes hdr rdr else []) reps)) homes)"

text \<open>The drives the home copy is on, or may be placed on.\<close>

definition home_targets :: "solver_input \<Rightarrow> str \<Rightarrow> copy_requirement \<Rightarrow> str list" where
  "home_targets inp home_id home =
     (let labels = (case map_of (cs_satisfied (so_candidates inp)) home_id of
                      None \<Rightarrow> [] | Some copies \<Rightarrow> map sc_drive copies) in
      if labels = [] then rq_eligible home else labels)"

definition check_domain :: "solver_input \<Rightarrow> str list \<Rightarrow> copy_requirement \<Rightarrow> gate_result option" where
  "check_domain inp req_ids req =
     (if rq_kind req \<noteq> PROTECTED_REPLICA then None
      else if rq_id req \<in> set (satisfied_ids inp) \<or> blocked_reason inp (rq_id req) \<noteq> None then None
      else (case rq_independent_of req of
        None \<Rightarrow> None
      | Some home_id \<Rightarrow>
         (if home_id \<notin> set req_ids then None
          else (case req_by_id inp home_id of
            None \<Rightarrow> None
          | Some home \<Rightarrow>
             (let homes = home_targets inp home_id home;
                  reps = cands_for inp (rq_id req);
                  ok_pair = separated inp homes reps;
                  bits = sorted_set (domain_bits inp homes reps);
                  home_unsat = (home_id \<notin> set (satisfied_ids inp) \<and> blocked_reason inp home_id = None);
                  any_home = (if homes \<noteq> [] then homes else rq_eligible home) in
              if reps = [] then None
              else if \<not> ok_pair \<and> (home_unsat \<or> homes \<noteq> [])
                  \<and> \<not> separated inp any_home reps \<and> any_home \<noteq> []
              then Some (structural_result inp Failure_Domain_Unsatisfiable
                     (DomainCollision home_id (rq_id req) (if bits = [] then [''shared_identity''] else bits))
                     [''add_independent_drive'', ''change_failure_domain_policy''])
              else None)))))"

definition check_exceeds :: "solver_input \<Rightarrow> copy_requirement \<Rightarrow> gate_result option" where
  "check_exceeds inp req =
     (if rq_id req \<in> set (satisfied_ids inp) \<or> blocked_reason inp (rq_id req) \<noteq> None then None
      else
       (let cs = cands_for inp (rq_id req);
            peak_of = cand_peak (guaranteed_mode (so_capacity_mode inp));
            all_known = list_all (\<lambda>c. max_usable inp (ca_target c) \<noteq> None) cs;
            mx = (\<lambda>c. the (max_usable inp (ca_target c))) in
        if cs \<noteq> [] \<and> all_known \<and> list_all (\<lambda>c. mx c < peak_of c) cs
        then Some (structural_result inp Requirement_Exceeds_Usable_Max
               (ExceedsMax (rq_id req) (rq_repo req) (fold (\<lambda>c p. max p (peak_of c)) cs 0)
                 (sort (map (\<lambda>c. (ca_target c, mx c)) cs)))
               [''add_larger_drive'', ''trim_selection'', ''change_hard_constraints''])
        else None))"

definition or_else :: "'a option \<Rightarrow> 'a option \<Rightarrow> 'a option" where
  "or_else x y = (case x of None \<Rightarrow> y | Some v \<Rightarrow> Some v)"

definition structural :: "solver_input \<Rightarrow> gate_result option" where
  "structural inp =
     (let reqs = sort_key rq_id (rg_desired (so_graph inp)); req_ids = map rq_id reqs in
      or_else (first_some (check_blocked inp) reqs)
        (or_else (first_some (check_dependency inp req_ids) reqs)
          (or_else (check_cycles inp reqs [])
            (or_else (first_some (check_domain inp req_ids) reqs)
              (first_some (check_exceeds inp) reqs)))))"

end
