(* ===== verification/Search.thy ===== *)
theory Search
  imports Placement
begin

unbundle bit_operations_syntax

text \<open>
  \<open>modelark/placement.py\<close>, second part: the mutable search node \<open>_Partial\<close>, scoring, and the
  explicit-stack depth-first search \<open>_search\<close>. The load dictionaries are only read with
  \<open>d.get(label, 0)\<close> and an entry is removed exactly where its value becomes 0, so they are
  total functions with default 0. \<open>hash\<close> of a key tuple is the argument \<open>hsh\<close>. A monitor
  is a predicate: whether its call for a visit count raises.
\<close>

section \<open>The search node\<close>

type_synonym key_part = "str \<times> str \<times> placement_key \<times> str"

record undo_entry =
  un_requirement :: str
  un_label :: str
  un_old_durable :: int
  un_old_workspace :: int
  un_part_hash :: int
  un_movement :: int

record partial =
  pt_assigned :: "(str \<times> candidate) list"
  pt_durable :: "str \<Rightarrow> int"
  pt_workspace :: "str \<Rightarrow> int"
  pt_undo :: "undo_entry list"
  pt_hash :: int
  pt_movement :: int
  pt_used :: "(str \<times> int) list"

definition empty_partial :: partial where
  "empty_partial = \<lparr>pt_assigned = [], pt_durable = (\<lambda>_. 0), pt_workspace = (\<lambda>_. 0), pt_undo = [],
     pt_hash = 0, pt_movement = 0, pt_used = []\<rparr>"

text \<open>The constants of one search, computed once before the loop.\<close>

record search_env =
  se_guaranteed :: bool
  se_free0 :: "(str \<times> int) list"
  se_unsat :: "str list"
  se_satisfied :: "str list"
  se_req :: "str \<Rightarrow> copy_requirement option"
  se_drive :: "str \<Rightarrow> drive_fact option"
  se_cands :: "str \<Rightarrow> candidate list"
  se_order :: "str \<Rightarrow> int \<times> int \<times> str"
  se_targets :: "str list"
  se_preference :: "successor_preference option"
  se_hash :: "key_part \<Rightarrow> int"

definition free_of :: "search_env \<Rightarrow> str \<Rightarrow> int" where
  "free_of env label = (case dict_get (se_free0 env) label of None \<Rightarrow> 0 | Some n \<Rightarrow> n)"

definition fits :: "search_env \<Rightarrow> partial \<Rightarrow> candidate \<Rightarrow> bool" where
  "fits env p c =
     (let label = ca_target c;
          new_d = pt_durable p label + cand_durable (se_guaranteed env) c;
          new_w = max (pt_workspace p label) (cand_workspace (se_guaranteed env) c)
      in new_d + new_w \<le> free_of env label)"

definition assigned_at :: "partial \<Rightarrow> str option \<Rightarrow> candidate option" where
  "assigned_at p rid = Option.bind rid (map_of (pt_assigned p))"

definition src_key_for :: "partial \<Rightarrow> candidate \<Rightarrow> placement_key" where
  "src_key_for p c =
     (case ca_source c of
        PendingHome rid \<Rightarrow>
          (case assigned_at p rid of
             Some h \<Rightarrow> (''source'', Some (ca_target h), None, None)
           | None \<Rightarrow> identity_key (ca_source c))
      | _ \<Rightarrow> identity_key (ca_source c))"

text \<open>The key is computed after the candidate has been assigned.\<close>

definition push :: "search_env \<Rightarrow> candidate \<Rightarrow> partial \<Rightarrow> partial" where
  "push env c p =
     (let label = ca_target c; old_d = pt_durable p label; old_w = pt_workspace p label;
          p' = p\<lparr>pt_assigned := AList.update (ca_requirement c) c (pt_assigned p)\<rparr>;
          part_hash = se_hash env (ca_requirement c, label, src_key_for p' c, task_kind_value (ca_task_kind c)) in
      p'\<lparr>pt_durable := (pt_durable p)(label := old_d + cand_durable (se_guaranteed env) c),
         pt_workspace := (pt_workspace p)(label := max old_w (cand_workspace (se_guaranteed env) c)),
         pt_movement := pt_movement p + ca_transfer_bytes c,
         pt_used := AList.update label (get0 (pt_used p) label + 1) (pt_used p),
         pt_hash := pt_hash p XOR part_hash,
         pt_undo := \<lparr>un_requirement = ca_requirement c, un_label = label, un_old_durable = old_d,
                     un_old_workspace = old_w, un_part_hash = part_hash,
                     un_movement = ca_transfer_bytes c\<rparr> # pt_undo p\<rparr>)"

text \<open>\<open>self._undo.pop()\<close> on an empty node is never reached; the node is returned unchanged.\<close>

definition pop :: "partial \<Rightarrow> partial" where
  "pop p =
     (case pt_undo p of
        [] \<Rightarrow> p
      | u # rest \<Rightarrow>
         (let label = un_label u;
              cnt = (case map_of (pt_used p) label of None \<Rightarrow> 1 | Some n \<Rightarrow> n) - 1 in
          p\<lparr>pt_assigned := AList.delete (un_requirement u) (pt_assigned p),
            pt_hash := pt_hash p XOR un_part_hash u,
            pt_movement := pt_movement p - un_movement u,
            pt_used := (if cnt \<le> 0 then AList.delete label (pt_used p)
                        else AList.update label cnt (pt_used p)),
            pt_durable := (pt_durable p)(label := un_old_durable u),
            pt_workspace := (pt_workspace p)(label := un_old_workspace u),
            pt_undo := rest\<rparr>))"

section \<open>Sources, domains, assignments\<close>

definition resolve_source :: "candidate \<Rightarrow> partial \<Rightarrow> source_identity option" where
  "resolve_source c p =
     (case ca_source c of
        FromHome s \<Rightarrow> Some s
      | PendingHome rid \<Rightarrow>
          (case assigned_at p rid of
             None \<Rightarrow> None
           | Some h \<Rightarrow> Some \<lparr>si_drive = ca_target h, si_annex_key = None, si_orig_sha256 = None\<rparr>)
      | NoSource \<Rightarrow> None)"

definition home_drive :: "candidate \<Rightarrow> partial \<Rightarrow> str option" where
  "home_drive c p =
     (case ca_source c of
        FromHome s \<Rightarrow> Some (si_drive s)
      | PendingHome rid \<Rightarrow> map_option ca_target (assigned_at p rid)
      | NoSource \<Rightarrow> None)"

definition domain_ok :: "search_env \<Rightarrow> candidate \<Rightarrow> partial \<Rightarrow> bool" where
  "domain_ok env c p =
     (case se_req env (ca_requirement c) of
        None \<Rightarrow> True
      | Some req \<Rightarrow>
         (if rq_kind req \<noteq> PROTECTED_REPLICA then True
          else (case home_drive c p of
             None \<Rightarrow> True
           | Some home \<Rightarrow>
              (case (se_drive env home, se_drive env (ca_target c)) of
                 (Some hdr, Some rdr) \<Rightarrow> \<not> same_failure_domain hdr rdr
               | _ \<Rightarrow> True))))"

definition task_of :: "bool \<Rightarrow> partial \<Rightarrow> str \<times> candidate \<Rightarrow> assignment_task" where
  "task_of guaranteed p = (\<lambda>(rid, c).
     \<lparr>at_requirement = rid, at_task_kind = ca_task_kind c, at_target = ca_target c,
      at_source = resolve_source c p, at_depends_on = ca_depends_on c,
      at_movement_cost = ca_transfer_bytes c,
      at_durable = cand_durable guaranteed c, at_workspace = cand_workspace guaranteed c,
      at_missing_files = map mf_rfilename (ca_missing c), at_reused_files = map ru_rfilename (ca_reused c),
      at_guaranteed_durable = cb_guaranteed_durable (ca_budget c),
      at_expected_durable = cb_expected_durable (ca_budget c),
      at_workspace_peak_guaranteed = cb_workspace_peak_guaranteed (ca_budget c),
      at_workspace_peak_expected = cb_workspace_peak_expected (ca_budget c),
      at_budget_evidence = (case cb_file_budgets (ca_budget c) of
          [] \<Rightarrow> ''estimate'' | b # _ \<Rightarrow> fb_evidence b)\<rparr>)"

definition to_assignment :: "search_env \<Rightarrow> partial \<Rightarrow> assignment" where
  "to_assignment env p =
     \<lparr>an_tasks = map (task_of (se_guaranteed env) p) (sort_key fst (pt_assigned p)),
      an_remaining_free = map (\<lambda>label. (label, free_of env label - pt_durable p label - pt_workspace p label))
        (sorted_set (map fst (se_free0 env)))\<rparr>"

section \<open>Scores\<close>

type_synonym canon_part = "str \<times> str \<times> str \<times> placement_key \<times> str list"

text \<open>The preference components are present exactly when a preference is.\<close>

record score =
  sc_movement :: int
  sc_preference :: "(int \<times> int \<times> int) option"
  sc_free_vec :: "int list"
  sc_idle :: int
  sc_canon :: "canon_part list"

definition score_key ::
  "score \<Rightarrow> int \<times> (int \<times> int \<times> int) option \<times> int list \<times> int \<times> canon_part list" where
  "score_key s = (sc_movement s, sc_preference s, map uminus (sc_free_vec s), sc_idle s, sc_canon s)"

definition option_source :: "source_identity option \<Rightarrow> copy_source" where
  "option_source s = (case s of None \<Rightarrow> NoSource | Some i \<Rightarrow> FromHome i)"

definition task_load :: "(assignment_task \<Rightarrow> int) \<Rightarrow> assignment_task list \<Rightarrow> str \<Rightarrow> int" where
  "task_load f ts label = sum_list (map f (filter (\<lambda>t. at_target t = label) ts))"

definition task_peak :: "assignment_task list \<Rightarrow> str \<Rightarrow> int" where
  "task_peak ts label = fold (\<lambda>t m. max m (at_workspace t)) (filter (\<lambda>t. at_target t = label) ts) 0"

text \<open>\<open>baseline.get(rid) not in (None, target)\<close>.\<close>

definition moved :: "successor_preference \<Rightarrow> str \<Rightarrow> str \<Rightarrow> bool" where
  "moved pr rid target =
     (case dict_get (sp_baseline_targets pr) rid of None \<Rightarrow> False | Some b \<Rightarrow> b \<noteq> target)"

definition score_assignment ::
  "(str \<Rightarrow> int) \<Rightarrow> str list \<Rightarrow> successor_preference option \<Rightarrow> assignment \<Rightarrow> score" where
  "score_assignment free targets preference a =
     (let ts = an_tasks a in
      \<lparr>sc_movement = sum_list (map at_movement_cost ts),
       sc_preference = (case preference of
           None \<Rightarrow> None
         | Some pr \<Rightarrow>
            (let changed = filter (\<lambda>t. moved pr (at_requirement t) (at_target t)) ts in
             Some (max 0 (sp_lane_bytes pr - task_load at_durable ts (sp_successor pr)),
                   int (length changed), sum_list (map at_durable changed)))),
       sc_free_vec = rev (sort (map (\<lambda>l. free l - task_load at_durable ts l - task_peak ts l) targets)),
       sc_idle = int (length (filter (\<lambda>l. l \<notin> at_target ` set ts) targets)),
       sc_canon = map (\<lambda>t. (at_requirement t, task_kind_value (at_task_kind t), at_target t,
                            identity_key (option_source (at_source t)), at_missing_files t))
                      (sort_key at_requirement ts)\<rparr>)"

definition score_partial :: "search_env \<Rightarrow> partial \<Rightarrow> score" where
  "score_partial env p =
     \<lparr>sc_movement = pt_movement p,
      sc_preference = (case se_preference env of
          None \<Rightarrow> None
        | Some pr \<Rightarrow>
           (let changed = filter (\<lambda>(rid, c). moved pr rid (ca_target c)) (pt_assigned p) in
            Some (max 0 (sp_lane_bytes pr - pt_durable p (sp_successor pr)),
                  int (length changed),
                  sum_list (map (\<lambda>(_, c). cand_durable (se_guaranteed env) c) changed)))),
      sc_free_vec = rev (sort (map (\<lambda>l. free_of env l - pt_durable p l - pt_workspace p l) (se_targets env))),
      sc_idle = int (length (se_targets env)) - int (length (pt_used p)),
      sc_canon = map (\<lambda>(rid, c). (rid, task_kind_value (ca_task_kind c), ca_target c,
                        identity_key (option_source (resolve_source c p)), map mf_rfilename (ca_missing c)))
                     (sort_key fst (pt_assigned p))\<rparr>"

text \<open>
  Missing identities order before present ones here, where Python would raise a \<open>TypeError\<close>. The
  case does not arise on a candidate set: two sources of one requirement are equal or lie on
  different drives (\<open>sources_comparable\<close>), and the drive comes first in the key.
\<close>

definition candidate_sort_key ::
  "successor_preference option \<Rightarrow> candidate \<Rightarrow> nat \<times> str \<times> int \<times> placement_key \<times> str \<times> str list" where
  "candidate_sort_key preference c =
     ((case preference of
         None \<Rightarrow> 2
       | Some pr \<Rightarrow>
          (if ca_target c = sp_successor pr then 0
           else if dict_get (sp_baseline_targets pr) (ca_requirement c) = Some (ca_target c) then 1
           else 2)),
      ca_target c, ca_transfer_bytes c, identity_key (ca_source c), task_kind_value (ca_task_kind c),
      map mf_rfilename (ca_missing c))"

section \<open>Expansion\<close>

definition static_order_key :: "bool \<Rightarrow> (str \<Rightarrow> int) \<Rightarrow> (str \<Rightarrow> candidate list) \<Rightarrow> str \<Rightarrow> int \<times> int \<times> str" where
  "static_order_key guaranteed free cands rid =
     (let cs = cands rid in
      (int (length (filter (\<lambda>c. cand_peak guaranteed c \<le> free (ca_target c)) cs)),
       - fold (\<lambda>c p. max p (cand_peak guaranteed c)) cs 0, rid))"

definition is_ready :: "search_env \<Rightarrow> partial \<Rightarrow> str \<Rightarrow> bool" where
  "is_ready env p rid \<longleftrightarrow>
     map_of (pt_assigned p) rid = None
     \<and> (case Option.bind (se_req env rid) rq_independent_of of
          None \<Rightarrow> True
        | Some dep \<Rightarrow> map_of (pt_assigned p) dep \<noteq> None \<or> dep \<in> set (se_satisfied env))"

definition source_ready :: "search_env \<Rightarrow> partial \<Rightarrow> candidate \<Rightarrow> bool" where
  "source_ready env p c =
     (case ca_source c of
        PendingHome rid \<Rightarrow> assigned_at p rid \<noteq> None \<or> (case rid of None \<Rightarrow> False | Some r \<Rightarrow> r \<in> set (se_satisfied env))
      | _ \<Rightarrow> True)"

definition admissible :: "search_env \<Rightarrow> partial \<Rightarrow> candidate \<Rightarrow> bool" where
  "admissible env p c \<longleftrightarrow> fits env p c \<and> domain_ok env c p \<and> source_ready env p c"

definition expand :: "search_env \<Rightarrow> partial \<Rightarrow> candidate list" where
  "expand env p =
     (if length (pt_assigned p) = length (remdups (se_unsat env)) then []
      else (case sort_key (se_order env) (filter (is_ready env p) (se_unsat env)) of
          [] \<Rightarrow> []
        | rid # _ \<Rightarrow> filter (admissible env p) (se_cands env rid)))"

definition is_complete :: "search_env \<Rightarrow> partial \<Rightarrow> bool" where
  "is_complete env p \<longleftrightarrow> list_all (\<lambda>rid. map_of (pt_assigned p) rid \<noteq> None) (se_unsat env)"

section \<open>The search\<close>

type_synonym snapshot = "(str \<times> candidate) list"

record search_state =
  ss_partial :: partial
  ss_visited :: nat
  ss_seen :: "int list"
  ss_stack :: "candidate list list"
  ss_pushed :: "candidate list"
  ss_first :: "snapshot option"
  ss_best :: "snapshot option"
  ss_best_score :: "score option"

datatype entering = EnterOk search_state | EnterSkip | EnterExhaust | EnterRaise

definition enter :: "nat \<Rightarrow> (nat \<Rightarrow> bool) \<Rightarrow> search_state \<Rightarrow> entering" where
  "enter limit monitor st =
     (let key = pt_hash (ss_partial st) in
      if key \<in> set (ss_seen st) then EnterSkip
      else if limit \<le> ss_visited st then EnterExhaust
      else if monitor (Suc (ss_visited st)) then EnterRaise
      else EnterOk (st\<lparr>ss_seen := key # ss_seen st, ss_visited := Suc (ss_visited st)\<rparr>))"

definition record_complete :: "search_env \<Rightarrow> search_state \<Rightarrow> search_state" where
  "record_complete env st =
     (let sc = score_partial env (ss_partial st); snap = pt_assigned (ss_partial st) in
      if ss_first st = None
      then st\<lparr>ss_first := Some snap, ss_best := Some snap, ss_best_score := Some sc\<rparr>
      else (case ss_best_score st of
          None \<Rightarrow> st
        | Some b \<Rightarrow>
            if score_key sc < score_key b then st\<lparr>ss_best := Some snap, ss_best_score := Some sc\<rparr> else st))"

datatype loop_result = Loop_Done bool search_state | Loop_Raised

text \<open>
  The \<open>while\<close> loop. A frame lists the candidates still to try in order (the source keeps it
  reversed and pops from the end). Every turn either enters a new state, of which there are at
  most \<open>limit\<close>, or shrinks the stack.
\<close>

definition stack_size :: "search_state \<Rightarrow> nat" where
  "stack_size st = sum_list (map (\<lambda>f. Suc (length f)) (ss_stack st))"

definition backtrack :: "candidate list list \<Rightarrow> search_state \<Rightarrow> search_state" where
  "backtrack rest st =
     (case ss_pushed st of
        [] \<Rightarrow> st\<lparr>ss_stack := rest\<rparr>
      | _ # ps \<Rightarrow> st\<lparr>ss_stack := rest, ss_pushed := ps, ss_partial := pop (ss_partial st)\<rparr>)"

definition try_candidate :: "search_env \<Rightarrow> candidate \<Rightarrow> candidate list \<Rightarrow> candidate list list \<Rightarrow> search_state \<Rightarrow> search_state" where
  "try_candidate env c cs rest st = st\<lparr>ss_stack := cs # rest, ss_partial := push env c (ss_partial st)\<rparr>"

definition unpush :: "search_state \<Rightarrow> search_state" where
  "unpush st = st\<lparr>ss_partial := pop (ss_partial st)\<rparr>"

definition descend :: "candidate \<Rightarrow> candidate list \<Rightarrow> search_state \<Rightarrow> search_state" where
  "descend c children st = st\<lparr>ss_pushed := c # ss_pushed st, ss_stack := children # ss_stack st\<rparr>"

lemma enter_Ok: "enter limit monitor st = EnterOk st' \<Longrightarrow>
  ss_visited st < limit \<and> pt_hash (ss_partial st) \<notin> set (ss_seen st)
  \<and> st' = st\<lparr>ss_seen := pt_hash (ss_partial st) # ss_seen st, ss_visited := Suc (ss_visited st)\<rparr>"
  by (auto simp: enter_def Let_def split: if_splits)

lemma record_complete_frame [simp]:
  "ss_partial (record_complete env st) = ss_partial st" "ss_visited (record_complete env st) = ss_visited st"
  "ss_stack (record_complete env st) = ss_stack st" "ss_seen (record_complete env st) = ss_seen st"
  "ss_pushed (record_complete env st) = ss_pushed st"
  by (simp_all add: record_complete_def Let_def split: option.split)

lemma step_frame [simp]:
  "ss_visited (backtrack rest st) = ss_visited st" "ss_stack (backtrack rest st) = rest"
  "ss_visited (unpush st) = ss_visited st" "ss_stack (unpush st) = ss_stack st"
  "ss_visited (try_candidate env c cs rest st) = ss_visited st" "ss_stack (try_candidate env c cs rest st) = cs # rest"
  "ss_visited (descend c ch st) = ss_visited st" "ss_stack (descend c ch st) = ch # ss_stack st"
  by (simp_all add: backtrack_def unpush_def try_candidate_def descend_def split: list.split)

function search_loop :: "search_env \<Rightarrow> nat \<Rightarrow> bool \<Rightarrow> (nat \<Rightarrow> bool) \<Rightarrow> search_state \<Rightarrow> loop_result" where
  "search_loop env limit collect_all monitor st =
     (case ss_stack st of
        [] \<Rightarrow> Loop_Done False st
      | [] # rest \<Rightarrow> search_loop env limit collect_all monitor (backtrack rest st)
      | (c # cs) # rest \<Rightarrow>
         (let st1 = try_candidate env c cs rest st in
          case enter limit monitor st1 of
            EnterExhaust \<Rightarrow> Loop_Done True (unpush st1)
          | EnterSkip \<Rightarrow> search_loop env limit collect_all monitor (unpush st1)
          | EnterRaise \<Rightarrow> Loop_Raised
          | EnterOk st2 \<Rightarrow>
             (if is_complete env (ss_partial st2) then
                (let st3 = unpush (record_complete env st2) in
                 if \<not> collect_all then Loop_Done False (st3\<lparr>ss_stack := []\<rparr>)
                 else search_loop env limit collect_all monitor st3)
              else
                (let children = expand env (ss_partial st2) in
                 if children = [] then search_loop env limit collect_all monitor (unpush st2)
                 else search_loop env limit collect_all monitor (descend c children st2)))))"
  by pat_completeness auto

termination
  by (relation "measures [\<lambda>(env, limit, coll, mon, st). limit - ss_visited st,
                          \<lambda>(env, limit, coll, mon, st). stack_size st]")
     (auto simp: stack_size_def dest!: enter_Ok)

declare search_loop.simps [simp del]

datatype search_kind = Found | Bound_Exhausted | Infeasible

record search_result =
  sr_kind :: search_kind
  sr_first :: "assignment option"
  sr_visited :: nat
  sr_best :: "assignment option"
  sr_best_score :: "score option"

definition materialize :: "search_env \<Rightarrow> snapshot \<Rightarrow> assignment" where
  "materialize env snap = to_assignment env (fold (push env) (map snd (sort_key fst snap)) empty_partial)"

definition start_state :: search_state where
  "start_state = \<lparr>ss_partial = empty_partial, ss_visited = 0, ss_seen = [], ss_stack = [], ss_pushed = [],
     ss_first = None, ss_best = None, ss_best_score = None\<rparr>"

definition unsatisfied :: "solver_input \<Rightarrow> str list" where
  "unsatisfied inp =
     sort (filter (\<lambda>rid. rid \<notin> set (satisfied_ids inp) \<and> blocked_reason inp rid = None)
       (map rq_id (rg_desired (so_graph inp))))"

definition make_env :: "(key_part \<Rightarrow> int) \<Rightarrow> solver_input \<Rightarrow> (str \<times> int) list \<Rightarrow> search_env" where
  "make_env hsh inp free0 =
     (let unsat = unsatisfied inp; g = guaranteed_mode (so_capacity_mode inp);
          free = (\<lambda>l. case dict_get free0 l of None \<Rightarrow> 0 | Some n \<Rightarrow> n) in
      \<lparr>se_guaranteed = g, se_free0 = free0, se_unsat = unsat, se_satisfied = satisfied_ids inp,
       se_req = req_by_id inp, se_drive = drive_map inp,
       se_cands = (\<lambda>rid. sort_key (candidate_sort_key (so_preference inp)) (cands_for inp rid)),
       se_order = static_order_key g free (cands_for inp),
       se_targets = sorted_set (concat (map (\<lambda>rid. map ca_target (cands_for inp rid)) unsat)),
       se_preference = so_preference inp, se_hash = hsh\<rparr>)"

text \<open>\<open>None\<close> is the propagating \<open>EmergencyResourceLimit\<close>.\<close>

definition search ::
  "(key_part \<Rightarrow> int) \<Rightarrow> solver_input \<Rightarrow> (str \<times> int) list \<Rightarrow> nat \<Rightarrow> bool \<Rightarrow> (nat \<Rightarrow> bool) \<Rightarrow> search_result option" where
  "search hsh inp free0 limit collect_all monitor =
     (let env = make_env hsh inp free0 in
      if se_unsat env = [] then
        (let asn = to_assignment env empty_partial in
         Some \<lparr>sr_kind = Found, sr_first = Some asn, sr_visited = 1, sr_best = Some asn,
               sr_best_score = Some (score_assignment (free_of env) (sorted_set (map fst free0))
                                       (so_preference inp) asn)\<rparr>)
      else (case enter limit monitor start_state of
          EnterRaise \<Rightarrow> None
        | EnterOk st0 \<Rightarrow>
           (case search_loop env limit collect_all monitor
                   (st0\<lparr>ss_stack := [expand env (ss_partial st0)]\<rparr>) of
              Loop_Raised \<Rightarrow> None
            | Loop_Done exhausted st \<Rightarrow>
               (let first = map_option (materialize env) (ss_first st);
                    best = map_option (materialize env) (ss_best st) in
                if exhausted
                then Some \<lparr>sr_kind = Bound_Exhausted, sr_first = first, sr_visited = ss_visited st,
                           sr_best = best, sr_best_score = ss_best_score st\<rparr>
                else if first \<noteq> None
                then Some \<lparr>sr_kind = Found, sr_first = first, sr_visited = ss_visited st,
                           sr_best = best, sr_best_score = ss_best_score st\<rparr>
                else Some \<lparr>sr_kind = Infeasible, sr_first = None, sr_visited = ss_visited st,
                           sr_best = None, sr_best_score = None\<rparr>))
        | _ \<Rightarrow> Some \<lparr>sr_kind = Bound_Exhausted, sr_first = None, sr_visited = ss_visited start_state,
                    sr_best = None, sr_best_score = None\<rparr>))"

end
