(* ===== verification/SearchTree.thy ===== *)
theory SearchTree
  imports Search
begin

text \<open>
  The search of \<open>_search\<close> as a tree: nodes are the candidate sequences reachable through
  \<open>expand\<close>. The undo log restores a node exactly (locale \<open>undo_node\<close>), every node is
  characterised by its sequence, and a complete node is a feasible packing and conversely.
\<close>

section \<open>The push/pop contract\<close>

locale undo_node =
  fixes do_push :: "'c \<Rightarrow> 'p \<Rightarrow> 'p" and do_pop :: "'p \<Rightarrow> 'p"
    and node_ok :: "'p \<Rightarrow> bool" and fresh :: "'c \<Rightarrow> 'p \<Rightarrow> bool"
  assumes pop_push: "node_ok p \<Longrightarrow> fresh c p \<Longrightarrow> do_pop (do_push c p) = p"
    and push_ok: "node_ok p \<Longrightarrow> fresh c p \<Longrightarrow> node_ok (do_push c p)"
begin

fun fresh_path :: "'c list \<Rightarrow> 'p \<Rightarrow> bool" where
  "fresh_path [] p = True"
| "fresh_path (c # cs) p = (fresh c p \<and> fresh_path cs (do_push c p))"

lemma fresh_path_append:
  "fresh_path (cs @ ds) p \<longleftrightarrow> fresh_path cs p \<and> fresh_path ds (fold do_push cs p)"
  by (induction cs arbitrary: p) auto

lemma path_ok: "node_ok p \<Longrightarrow> fresh_path cs p \<Longrightarrow> node_ok (fold do_push cs p)"
  by (induction cs arbitrary: p) (auto simp: push_ok)

lemma pop_last:
  "node_ok p \<Longrightarrow> fresh_path (cs @ [c]) p \<Longrightarrow> do_pop (fold do_push (cs @ [c]) p) = fold do_push cs p"
  by (simp add: fresh_path_append pop_push path_ok)

lemma rewind: "node_ok p \<Longrightarrow> fresh_path cs p \<Longrightarrow> (do_pop ^^ length cs) (fold do_push cs p) = p"
proof (induction cs rule: rev_induct)
  case (snoc c cs)
  then have "fresh_path cs p" by (simp add: fresh_path_append)
  with snoc pop_last [OF snoc.prems] show ?case
    by (simp add: funpow_swap1)
qed simp

end

definition partial_ok :: "partial \<Rightarrow> bool" where
  "partial_ok p \<longleftrightarrow> distinct (map fst (pt_assigned p)) \<and> distinct (map fst (pt_used p))
     \<and> (\<forall>(l, n)\<in>set (pt_used p). 1 \<le> n)"

definition fresh_for :: "candidate \<Rightarrow> partial \<Rightarrow> bool" where
  "fresh_for c p \<longleftrightarrow> ca_requirement c \<notin> fst ` set (pt_assigned p)"

lemma update_fresh: "k \<notin> fst ` set al \<Longrightarrow> AList.update k v al = al @ [(k, v)]"
  by (induction al) auto

lemma delete_snoc: "k \<notin> fst ` set al \<Longrightarrow> AList.delete k (al @ [(k, v)]) = al"
  by (simp add: AList.delete_eq filter_id_conv image_iff) force

lemma update_same: "map_of al k = Some v \<Longrightarrow> AList.update k v al = al"
  by (induction al) (auto split: if_splits)

lemma pop_used:
  "pt_undo q = u # rest \<Longrightarrow> pt_used (pop q) =
     (let cnt = (case map_of (pt_used q) (un_label u) of None \<Rightarrow> 1 | Some n \<Rightarrow> n) - 1 in
      if cnt \<le> 0 then AList.delete (un_label u) (pt_used q) else AList.update (un_label u) cnt (pt_used q))"
  by (simp add: pop_def Let_def)

lemma pop_push:
  assumes "partial_ok p" "fresh_for c p"
  shows "pop (push env c p) = p"
proof -
  let ?l = "ca_target c"
  have assigned: "AList.delete (ca_requirement c) (AList.update (ca_requirement c) c (pt_assigned p)) = pt_assigned p"
    using assms(2) by (simp add: fresh_for_def update_fresh delete_snoc)
  have used: "(let cnt = (case map_of (AList.update ?l (get0 (pt_used p) ?l + 1) (pt_used p)) ?l of
        None \<Rightarrow> 1 | Some n \<Rightarrow> n) - 1 in
      if cnt \<le> 0 then AList.delete ?l (AList.update ?l (get0 (pt_used p) ?l + 1) (pt_used p))
      else AList.update ?l cnt (AList.update ?l (get0 (pt_used p) ?l + 1) (pt_used p))) = pt_used p"
  proof (cases "map_of (pt_used p) ?l")
    case None
    then have "?l \<notin> fst ` set (pt_used p)" by (simp add: map_of_eq_None_iff)
    with None show ?thesis
      by (simp add: get0_def update_conv' update_fresh delete_snoc map_add_def)
  next
    case (Some n)
    with assms(1) have "1 \<le> n" by (auto simp: partial_ok_def dest: map_of_SomeD)
    with Some show ?thesis
      by (simp add: get0_def update_conv' update_same)
  qed
  have hash: "(h XOR k) XOR k = h" for h k :: int
    by (simp add: xor.assoc)
  show ?thesis
  proof (rule partial.equality)
    show "pt_used (pop (push env c p)) = pt_used p"
    proof -
      obtain u where "pt_undo (push env c p) = u # pt_undo p" "un_label u = ca_target c"
        by (simp add: push_def Let_def)
      moreover have "pt_used (push env c p) = AList.update ?l (get0 (pt_used p) ?l + 1) (pt_used p)"
        by (simp add: push_def Let_def)
      ultimately show ?thesis
        using used by (simp only: pop_used)
    qed
    show "pt_assigned (pop (push env c p)) = pt_assigned p"
      using assigned by (simp add: pop_def push_def Let_def)
  qed (simp_all add: pop_def push_def Let_def hash)
qed

lemma push_fields:
  assumes "fresh_for c p"
  shows "pt_assigned (push env c p) = pt_assigned p @ [(ca_requirement c, c)]"
    "pt_durable (push env c p) = (pt_durable p)(ca_target c := pt_durable p (ca_target c) + cand_durable (se_guaranteed env) c)"
    "pt_workspace (push env c p) = (pt_workspace p)(ca_target c := max (pt_workspace p (ca_target c)) (cand_workspace (se_guaranteed env) c))"
    "pt_movement (push env c p) = pt_movement p + ca_transfer_bytes c"
    "pt_used (push env c p) = AList.update (ca_target c) (get0 (pt_used p) (ca_target c) + 1) (pt_used p)"
  using assms by (simp_all add: push_def Let_def fresh_for_def update_fresh)

lemma in_update: "x \<in> set (AList.update k v al) \<Longrightarrow> x \<in> set al \<or> x = (k, v)"
  by (induction al) (auto split: if_splits)

lemma push_ok:
  assumes "partial_ok p" "fresh_for c p"
  shows "partial_ok (push env c p)"
proof -
  have "1 \<le> get0 (pt_used p) l + 1" for l
    using assms(1) by (auto simp: get0_def partial_ok_def dest!: map_of_SomeD split: option.split)
  then show ?thesis
    using assms
    by (auto simp: partial_ok_def push_fields fresh_for_def distinct_update dest!: in_update)
qed

interpretation undo: undo_node "push env" pop partial_ok fresh_for for env
  by unfold_locales (simp_all add: pop_push push_ok)

section \<open>Paths of the search tree\<close>

definition node :: "search_env \<Rightarrow> candidate list \<Rightarrow> partial" where
  "node env cs = fold (push env) cs empty_partial"

fun path_from :: "search_env \<Rightarrow> partial \<Rightarrow> candidate list \<Rightarrow> bool" where
  "path_from env p [] = True"
| "path_from env p (c # cs) = (c \<in> set (expand env p) \<and> path_from env (push env c p) cs)"

abbreviation tree_path :: "search_env \<Rightarrow> candidate list \<Rightarrow> bool" where
  "tree_path env cs \<equiv> path_from env empty_partial cs"

text \<open>What the solver input guarantees about the constants of a search.\<close>

definition env_ok :: "search_env \<Rightarrow> bool" where
  "env_ok env \<longleftrightarrow> (\<forall>rid. \<forall>c\<in>set (se_cands env rid). ca_requirement c = rid)
     \<and> set (se_unsat env) \<inter> set (se_satisfied env) = {}"

lemma node_Nil [simp]: "node env [] = empty_partial"
  by (simp add: node_def)

lemma node_snoc [simp]: "node env (cs @ [c]) = push env c (node env cs)"
  by (simp add: node_def)

lemma path_from_append:
  "path_from env p (cs @ ds) \<longleftrightarrow> path_from env p cs \<and> path_from env (fold (push env) cs p) ds"
  by (induction cs arbitrary: p) auto

lemma tree_path_snoc: "tree_path env (cs @ [c]) \<longleftrightarrow> tree_path env cs \<and> c \<in> set (expand env (node env cs))"
  by (simp add: path_from_append node_def)

lemma tree_path_prefix: "tree_path env (cs @ ds) \<Longrightarrow> tree_path env cs"
  by (simp add: path_from_append)

lemma expand_cases:
  assumes "c \<in> set (expand env p)"
  obtains rid rest where
    "sort_key (se_order env) (filter (is_ready env p) (se_unsat env)) = rid # rest"
    "c \<in> set (se_cands env rid)" "admissible env p c"
    "rid \<in> set (se_unsat env)" "is_ready env p rid"
    "length (pt_assigned p) \<noteq> length (remdups (se_unsat env))"
proof -
  from assms obtain rid rest where s: "sort_key (se_order env) (filter (is_ready env p) (se_unsat env)) = rid # rest"
    and "c \<in> set (se_cands env rid)" "admissible env p c"
    and "length (pt_assigned p) \<noteq> length (remdups (se_unsat env))"
    by (cases "sort_key (se_order env) (filter (is_ready env p) (se_unsat env))")
       (auto simp: expand_def split: if_splits)
  moreover have "rid \<in> set (filter (is_ready env p) (se_unsat env))"
    by (metis s list.set_intros(1) set_sort)
  ultimately show ?thesis using that by auto
qed

lemma expand_fresh:
  assumes "env_ok env" "c \<in> set (expand env p)"
  shows "fresh_for c p" "ca_requirement c \<in> set (se_unsat env)" "c \<in> set (se_cands env (ca_requirement c))"
    "is_ready env p (ca_requirement c)" "admissible env p c"
proof -
  from assms(2) obtain rid rest where c: "c \<in> set (se_cands env rid)" "admissible env p c"
    "rid \<in> set (se_unsat env)" "is_ready env p rid"
    by (rule expand_cases)
  with assms(1) have rid: "ca_requirement c = rid" by (auto simp: env_ok_def)
  with c show "ca_requirement c \<in> set (se_unsat env)" "c \<in> set (se_cands env (ca_requirement c))"
    "is_ready env p (ca_requirement c)" "admissible env p c" by simp_all
  from c(4) rid show "fresh_for c p"
    by (simp add: is_ready_def fresh_for_def map_of_eq_None_iff)
qed

definition chosen :: "candidate list \<Rightarrow> snapshot" where
  "chosen cs = map (\<lambda>c. (ca_requirement c, c)) cs"

definition load :: "(candidate \<Rightarrow> int) \<Rightarrow> candidate list \<Rightarrow> str \<Rightarrow> int" where
  "load f cs l = sum_list (map f (filter (\<lambda>c. ca_target c = l) cs))"

definition peak :: "(candidate \<Rightarrow> int) \<Rightarrow> candidate list \<Rightarrow> str \<Rightarrow> int" where
  "peak f cs l = fold (\<lambda>c m. max m (f c)) (filter (\<lambda>c. ca_target c = l) cs) 0"

lemma node_path:
  assumes "env_ok env" "tree_path env cs"
  shows "partial_ok (node env cs)" "undo.fresh_path env cs empty_partial"
    "pt_assigned (node env cs) = chosen cs" "distinct (map ca_requirement cs)"
    "set (map ca_requirement cs) \<subseteq> set (se_unsat env)"
proof -
  have "partial_ok (node env cs) \<and> undo.fresh_path env cs empty_partial \<and> pt_assigned (node env cs) = chosen cs
    \<and> distinct (map ca_requirement cs) \<and> set (map ca_requirement cs) \<subseteq> set (se_unsat env)"
    using assms(2)
  proof (induction cs rule: rev_induct)
    case Nil
    then show ?case by (simp add: empty_partial_def partial_ok_def chosen_def)
  next
    case (snoc c cs)
    then have c: "c \<in> set (expand env (node env cs))" and IH: "partial_ok (node env cs)"
      "undo.fresh_path env cs empty_partial" "pt_assigned (node env cs) = chosen cs"
      "distinct (map ca_requirement cs)" "set (map ca_requirement cs) \<subseteq> set (se_unsat env)"
      by (simp_all add: tree_path_snoc)
    note f = expand_fresh [OF assms(1) c]
    have "ca_requirement c \<notin> set (map ca_requirement cs)"
      using f(1) IH(3) by (simp add: fresh_for_def chosen_def image_image)
    with IH f show ?case
      by (simp add: undo.fresh_path_append push_ok push_fields chosen_def node_def [symmetric])
  qed
  then show "partial_ok (node env cs)" "undo.fresh_path env cs empty_partial"
    "pt_assigned (node env cs) = chosen cs" "distinct (map ca_requirement cs)"
    "set (map ca_requirement cs) \<subseteq> set (se_unsat env)" by simp_all
qed

text \<open>The numeric content of a node is a function of its sequence.\<close>

lemma fresh_fold:
  assumes "undo.fresh_path env cs empty_partial"
  shows "pt_durable (node env cs) l = load (cand_durable (se_guaranteed env)) cs l"
    "pt_workspace (node env cs) l = peak (cand_workspace (se_guaranteed env)) cs l"
    "pt_movement (node env cs) = sum_list (map ca_transfer_bytes cs)"
    "get0 (pt_used (node env cs)) l = int (length (filter (\<lambda>c. ca_target c = l) cs))"
    "fst ` set (pt_used (node env cs)) = ca_target ` set cs"
    "pt_assigned (node env cs) = chosen cs"
proof -
  have "(\<forall>l. pt_durable (node env cs) l = load (cand_durable (se_guaranteed env)) cs l)
    \<and> (\<forall>l. pt_workspace (node env cs) l = peak (cand_workspace (se_guaranteed env)) cs l)
    \<and> pt_movement (node env cs) = sum_list (map ca_transfer_bytes cs)
    \<and> (\<forall>l. get0 (pt_used (node env cs)) l = int (length (filter (\<lambda>c. ca_target c = l) cs)))
    \<and> fst ` set (pt_used (node env cs)) = ca_target ` set cs
    \<and> pt_assigned (node env cs) = chosen cs"
    using assms
  proof (induction cs rule: rev_induct)
    case Nil
    then show ?case by (simp add: empty_partial_def load_def peak_def chosen_def)
  next
    case (snoc c cs)
    then have "fresh_for c (node env cs)" "undo.fresh_path env cs empty_partial"
      by (simp_all add: undo.fresh_path_append node_def)
    with snoc.IH show ?case
      by (simp add: push_fields load_def peak_def chosen_def get0_update dom_update)
  qed
  then show "pt_durable (node env cs) l = load (cand_durable (se_guaranteed env)) cs l"
    "pt_workspace (node env cs) l = peak (cand_workspace (se_guaranteed env)) cs l"
    "pt_movement (node env cs) = sum_list (map ca_transfer_bytes cs)"
    "get0 (pt_used (node env cs)) l = int (length (filter (\<lambda>c. ca_target c = l) cs))"
    "fst ` set (pt_used (node env cs)) = ca_target ` set cs"
    "pt_assigned (node env cs) = chosen cs" by simp_all
qed

end
