(* ===== verification/SearchLoop.thy ===== *)
theory SearchLoop
  imports SearchTree
begin

text \<open>
  The loop of \<open>_search\<close> as a step relation, with its invariants by rule induction: the node is
  always the one of the pushed sequence, recorded snapshots are complete paths of the tree, and,
  when state keys do not collide, every subtree that is left is accounted for.
\<close>

section \<open>Steps\<close>

inductive search_step :: "search_env \<Rightarrow> nat \<Rightarrow> (nat \<Rightarrow> bool) \<Rightarrow> search_state \<Rightarrow> search_state \<Rightarrow> bool"
  for env limit mon where
  backtrack: "ss_stack st = [] # rest \<Longrightarrow> search_step env limit mon st (backtrack rest st)"
| skip: "ss_stack st = (c # cs) # rest \<Longrightarrow> enter limit mon (try_candidate env c cs rest st) = EnterSkip \<Longrightarrow>
    search_step env limit mon st (unpush (try_candidate env c cs rest st))"
| complete: "ss_stack st = (c # cs) # rest \<Longrightarrow> enter limit mon (try_candidate env c cs rest st) = EnterOk st2 \<Longrightarrow>
    is_complete env (ss_partial st2) \<Longrightarrow>
    search_step env limit mon st (unpush (record_complete env st2))"
| dead: "ss_stack st = (c # cs) # rest \<Longrightarrow> enter limit mon (try_candidate env c cs rest st) = EnterOk st2 \<Longrightarrow>
    \<not> is_complete env (ss_partial st2) \<Longrightarrow> expand env (ss_partial st2) = [] \<Longrightarrow>
    search_step env limit mon st (unpush st2)"
| descend: "ss_stack st = (c # cs) # rest \<Longrightarrow> enter limit mon (try_candidate env c cs rest st) = EnterOk st2 \<Longrightarrow>
    \<not> is_complete env (ss_partial st2) \<Longrightarrow> expand env (ss_partial st2) \<noteq> [] \<Longrightarrow>
    search_step env limit mon st (descend c (expand env (ss_partial st2)) st2)"

inductive_cases search_stepE: "search_step env limit mon st st'"

text \<open>The results two states have in common.\<close>

definition same_results :: "search_state \<Rightarrow> search_state \<Rightarrow> bool" where
  "same_results s m \<longleftrightarrow> ss_first s = ss_first m \<and> ss_best s = ss_best m
     \<and> ss_best_score s = ss_best_score m \<and> ss_visited s = ss_visited m"

lemma unpush_results [simp]:
  "ss_first (unpush st) = ss_first st" "ss_best (unpush st) = ss_best st"
  "ss_best_score (unpush st) = ss_best_score st"
  "ss_first (try_candidate env c cs rest st) = ss_first st" "ss_best (try_candidate env c cs rest st) = ss_best st"
  "ss_best_score (try_candidate env c cs rest st) = ss_best_score st"
  "ss_first (backtrack rest st) = ss_first st" "ss_best (backtrack rest st) = ss_best st"
  "ss_best_score (backtrack rest st) = ss_best_score st"
  "ss_first (descend c ch st) = ss_first st" "ss_best (descend c ch st) = ss_best st"
  "ss_best_score (descend c ch st) = ss_best_score st"
  by (simp_all add: unpush_def try_candidate_def backtrack_def descend_def split: list.split)

lemma unpush_fields [simp]:
  "ss_seen (unpush st) = ss_seen st" "ss_pushed (unpush st) = ss_pushed st"
  "ss_seen (try_candidate env c cs rest st) = ss_seen st" "ss_pushed (try_candidate env c cs rest st) = ss_pushed st"
  "ss_partial (try_candidate env c cs rest st) = push env c (ss_partial st)"
  "ss_partial (unpush st) = pop (ss_partial st)"
  "ss_seen (backtrack rest st) = ss_seen st" "ss_seen (descend c ch st) = ss_seen st"
  "ss_partial (descend c ch st) = ss_partial st" "ss_pushed (descend c ch st) = c # ss_pushed st"
  by (simp_all add: unpush_def try_candidate_def backtrack_def descend_def split: list.split)

lemma record_first: "ss_first (record_complete env st) \<noteq> None"
  by (auto simp: record_complete_def Let_def split: option.split)

text \<open>How the loop ends: by exhaustion, with an empty stack, or stopped after a first result.\<close>

lemma search_loop_steps:
  "search_loop env limit coll mon st = Loop_Done ex s \<Longrightarrow>
   \<exists>m. (search_step env limit mon)\<^sup>*\<^sup>* st m \<and> same_results s m
     \<and> (ex \<or> ss_stack m = [] \<or> \<not> coll \<and> ss_first m \<noteq> None)"
proof (induction env limit coll mon st rule: search_loop.induct)
  case (1 env limit coll mon st)
  note go = converse_rtranclp_into_rtranclp [of "search_step env limit mon"]
  show ?case
  proof (cases "ss_stack st")
    case Nil
    with "1.prems" show ?thesis
      by (intro exI [of _ st]) (simp add: search_loop.simps [of env limit coll mon st] same_results_def)
  next
    case stack: (Cons f rest)
    show ?thesis
    proof (cases f)
      case Nil
      with stack "1.prems" have "search_loop env limit coll mon (backtrack rest st) = Loop_Done ex s"
        by (simp add: search_loop.simps [of env limit coll mon st])
      with "1.IH"(1) [OF stack Nil] search_step.backtrack [OF stack [unfolded Nil]] show ?thesis
        by (meson go)
    next
      case f: (Cons c cs)
      let ?st1 = "try_candidate env c cs rest st"
      note stk = stack [unfolded f]
      show ?thesis
      proof (cases "enter limit mon ?st1")
        case EnterExhaust
        with stk "1.prems" show ?thesis
          by (intro exI [of _ st])
             (auto simp: search_loop.simps [of env limit coll mon st] same_results_def)
      next
        case EnterSkip
        with stk "1.prems" have "search_loop env limit coll mon (unpush ?st1) = Loop_Done ex s"
          by (simp add: search_loop.simps [of env limit coll mon st])
        with "1.IH"(5) [OF stack f refl EnterSkip] search_step.skip [OF stk EnterSkip] show ?thesis
          by (meson go)
      next
        case EnterRaise
        with stk "1.prems" show ?thesis
          by (simp add: search_loop.simps [of env limit coll mon st])
      next
        case ok: (EnterOk st2)
        show ?thesis
        proof (cases "is_complete env (ss_partial st2)")
          case True
          note step = search_step.complete [OF stk ok True]
          let ?st3 = "unpush (record_complete env st2)"
          show ?thesis
          proof (cases coll)
            case coll: True
            with stk ok True "1.prems" have "search_loop env limit coll mon ?st3 = Loop_Done ex s"
              by (simp add: search_loop.simps [of env limit True mon st])
            with "1.IH"(2) [OF stack f refl ok True refl] coll step show ?thesis
              by (meson go)
          next
            case False
            with stk ok True "1.prems" have "s = ?st3\<lparr>ss_stack := []\<rparr>"
              by (simp add: search_loop.simps [of env limit False mon st])
            then show ?thesis
              using False step record_first
              by (intro exI [of _ ?st3]) (auto simp: same_results_def)
          qed
        next
          case incomplete: False
          show ?thesis
          proof (cases "expand env (ss_partial st2) = []")
            case True
            with stk ok incomplete "1.prems" have "search_loop env limit coll mon (unpush st2) = Loop_Done ex s"
              by (simp add: search_loop.simps [of env limit coll mon st] Let_def)
            with "1.IH"(3) [OF stack f refl ok incomplete refl True]
              search_step.dead [OF stk ok incomplete True] show ?thesis
              by (meson go)
          next
            case False
            with stk ok incomplete "1.prems"
            have "search_loop env limit coll mon (descend c (expand env (ss_partial st2)) st2) = Loop_Done ex s"
              by (simp add: search_loop.simps [of env limit coll mon st] Let_def)
            with "1.IH"(4) [OF stack f refl ok incomplete refl False]
              search_step.descend [OF stk ok incomplete False] show ?thesis
              by (meson go)
          qed
        qed
      qed
    qed
  qed
qed

section \<open>The node and snapshot invariant\<close>

fun frames_sub :: "search_env \<Rightarrow> candidate list list \<Rightarrow> candidate list \<Rightarrow> bool" where
  "frames_sub env [] ps = False"
| "frames_sub env (f # fs) [] = (fs = [] \<and> set f \<subseteq> set (expand env (node env [])))"
| "frames_sub env (f # fs) (c # ps) =
     (set f \<subseteq> set (expand env (node env (rev (c # ps)))) \<and> frames_sub env fs ps)"

definition complete_path :: "search_env \<Rightarrow> candidate list \<Rightarrow> bool" where
  "complete_path env cs \<longleftrightarrow> tree_path env cs \<and> is_complete env (node env cs)"

definition path_key where
  "path_key env cs = score_key (score_partial env (node env cs))"

definition snaps_ok :: "search_env \<Rightarrow> search_state \<Rightarrow> bool" where
  "snaps_ok env st \<longleftrightarrow>
     (ss_first st = None \<and> ss_best st = None \<and> ss_best_score st = None)
     \<or> (\<exists>\<pi> \<rho>. complete_path env \<pi> \<and> complete_path env \<rho> \<and> path_key env \<rho> \<le> path_key env \<pi>
          \<and> ss_first st = Some (chosen \<pi>) \<and> ss_best st = Some (chosen \<rho>)
          \<and> ss_best_score st = Some (score_partial env (node env \<rho>)))"

definition loop_inv :: "search_env \<Rightarrow> nat \<Rightarrow> search_state \<Rightarrow> bool" where
  "loop_inv env limit st \<longleftrightarrow>
     tree_path env (rev (ss_pushed st)) \<and> ss_partial st = node env (rev (ss_pushed st))
     \<and> (ss_stack st = [] \<and> ss_pushed st = [] \<or> frames_sub env (ss_stack st) (ss_pushed st))
     \<and> snaps_ok env st \<and> ss_visited st \<le> limit"

lemma frames_top:
  "frames_sub env (f # fs) ps \<Longrightarrow> set f \<subseteq> set (expand env (node env (rev ps)))"
  by (cases ps) auto

lemma frames_tail:
  "frames_sub env (f # fs) ps \<Longrightarrow> set f' \<subseteq> set f \<Longrightarrow> frames_sub env (f' # fs) ps"
  by (cases ps) auto

lemma frames_back: "frames_sub env (f # fs) ps \<Longrightarrow> (ps = [] \<and> fs = []) \<or> (\<exists>c qs. ps = c # qs \<and> frames_sub env fs qs)"
  by (cases ps) auto

lemma pop_path:
  assumes "env_ok env" "tree_path env (cs @ [c])"
  shows "pop (node env (cs @ [c])) = node env cs"
  using undo.pop_last [OF _ node_path(2) [OF assms]] by (simp add: node_def partial_ok_def empty_partial_def)

lemma pop_path_rev:
  "env_ok env \<Longrightarrow> tree_path env (rev (c # ps)) \<Longrightarrow> pop (node env (rev (c # ps))) = node env (rev ps)"
  using pop_path [of env "rev ps" c] by simp

lemma try_path:
  assumes "loop_inv env limit st" "ss_stack st = (c # cs) # rest" "env_ok env"
  shows "tree_path env (rev (ss_pushed st) @ [c])"
    "ss_partial (try_candidate env c cs rest st) = node env (rev (ss_pushed st) @ [c])"
    "pop (node env (rev (ss_pushed st) @ [c])) = node env (rev (ss_pushed st))"
    "frames_sub env (cs # rest) (ss_pushed st)"
proof -
  have inv: "tree_path env (rev (ss_pushed st))" "ss_partial st = node env (rev (ss_pushed st))"
    "frames_sub env ((c # cs) # rest) (ss_pushed st)"
    using assms(1,2) by (auto simp: loop_inv_def)
  from frames_top [OF inv(3)] inv(1) show t: "tree_path env (rev (ss_pushed st) @ [c])"
    by (simp add: tree_path_snoc)
  show "ss_partial (try_candidate env c cs rest st) = node env (rev (ss_pushed st) @ [c])"
    using inv(2) by simp
  show "pop (node env (rev (ss_pushed st) @ [c])) = node env (rev (ss_pushed st))"
    by (rule pop_path [OF assms(3) t])
  show "frames_sub env (cs # rest) (ss_pushed st)"
    using inv(3) by (rule frames_tail) auto
qed

lemma enter_Ok_fields:
  assumes "enter limit mon st = EnterOk st2"
  shows "ss_partial st2 = ss_partial st" "ss_pushed st2 = ss_pushed st" "ss_stack st2 = ss_stack st"
    "ss_first st2 = ss_first st" "ss_best st2 = ss_best st" "ss_best_score st2 = ss_best_score st"
    "ss_visited st2 = Suc (ss_visited st)" "ss_visited st < limit"
    "ss_seen st2 = pt_hash (ss_partial st) # ss_seen st"
  using enter_Ok [OF assms] by auto

lemma snaps_cong:
  "ss_first s = ss_first t \<Longrightarrow> ss_best s = ss_best t \<Longrightarrow> ss_best_score s = ss_best_score t \<Longrightarrow>
   snaps_ok env s = snaps_ok env t"
  by (simp add: snaps_ok_def)

lemma snaps_record:
  assumes "snaps_ok env st" "complete_path env \<pi>" "ss_partial st = node env \<pi>"
    "pt_assigned (node env \<pi>) = chosen \<pi>"
  shows "snaps_ok env (record_complete env st)"
proof (cases "ss_first st")
  case None
  with assms show ?thesis
    unfolding snaps_ok_def record_complete_def Let_def by auto
next
  case (Some f)
  then obtain \<pi>' \<rho> where old: "complete_path env \<pi>'" "complete_path env \<rho>" "ss_first st = Some (chosen \<pi>')"
    "ss_best st = Some (chosen \<rho>)" "ss_best_score st = Some (score_partial env (node env \<rho>))"
    "path_key env \<rho> \<le> path_key env \<pi>'"
    using assms(1) by (auto simp: snaps_ok_def)
  show ?thesis
  proof (cases "score_key (score_partial env (node env \<pi>)) < score_key (score_partial env (node env \<rho>))")
    case True
    with old assms have "record_complete env st =
        st\<lparr>ss_best := Some (chosen \<pi>), ss_best_score := Some (score_partial env (node env \<pi>))\<rparr>"
      by (simp add: record_complete_def Let_def)
    moreover have "path_key env \<pi> \<le> path_key env \<pi>'"
      using True old(6) unfolding path_key_def by (rule order_trans [OF less_imp_le])
    ultimately show ?thesis
      using old(1,3) assms(2)
      unfolding snaps_ok_def by (intro disjI2 exI [of _ \<pi>'] exI [of _ \<pi>]) simp
  next
    case False
    with old assms have "record_complete env st = st"
      by (simp add: record_complete_def Let_def)
    with assms(1) show ?thesis by simp
  qed
qed

lemma loop_inv_step:
  assumes ok: "env_ok env" and inv: "loop_inv env limit st" and step: "search_step env limit mon st st'"
  shows "loop_inv env limit st'"
  using step
proof cases
  case (backtrack rest)
  have fr: "frames_sub env ([] # rest) (ss_pushed st)" and tp: "tree_path env (rev (ss_pushed st))"
    using inv backtrack by (auto simp: loop_inv_def)
  show ?thesis
  proof (cases "ss_pushed st")
    case Nil
    then show ?thesis
      using inv backtrack fr by (simp add: loop_inv_def backtrack_def snaps_ok_def)
  next
    case (Cons c ps)
    then have "pop (ss_partial st) = node env (rev ps)"
      using inv ok tp pop_path_rev [of env c ps] by (simp add: loop_inv_def)
    then show ?thesis
      using inv backtrack fr Cons tp
      by (auto simp: loop_inv_def backtrack_def snaps_ok_def dest: tree_path_prefix)
  qed
next
  case (skip c cs rest)
  note t = try_path [OF inv skip(2) ok]
  show ?thesis
    using inv t skip(1) by (auto simp: loop_inv_def snaps_ok_def)
next
  case (complete c cs rest st2)
  note t = try_path [OF inv complete(2) ok] and e = enter_Ok_fields [OF complete(3)]
  let ?\<pi> = "rev (ss_pushed st) @ [c]"
  have "snaps_ok env st2"
    using inv e by (simp add: loop_inv_def snaps_ok_def)
  moreover have "complete_path env ?\<pi>"
    using t complete e by (simp add: complete_path_def)
  ultimately have "snaps_ok env (record_complete env st2)"
    using snaps_record [of env st2 ?\<pi>] t e node_path(3) [OF ok t(1)] by simp
  then show ?thesis
    using inv t e complete(1) by (auto simp: loop_inv_def snaps_ok_def)
next
  case (dead c cs rest st2)
  note t = try_path [OF inv dead(2) ok] and e = enter_Ok_fields [OF dead(3)]
  show ?thesis
    using inv t e dead(1) by (auto simp: loop_inv_def snaps_ok_def)
next
  case (descend c cs rest st2)
  note t = try_path [OF inv descend(2) ok] and e = enter_Ok_fields [OF descend(3)]
  show ?thesis
    using inv t e descend(1) by (auto simp: loop_inv_def snaps_ok_def)
qed

lemma loop_inv_steps:
  assumes "(search_step env limit mon)\<^sup>*\<^sup>* st st'" "env_ok env" "loop_inv env limit st"
  shows "loop_inv env limit st'"
  using assms by (induction rule: rtranclp_induct) (auto intro: loop_inv_step)

section \<open>The coverage invariant\<close>

text \<open>State keys identify paths: the hypothesis under which skipping a seen key loses nothing.\<close>

definition collision_free :: "search_env \<Rightarrow> bool" where
  "collision_free env \<longleftrightarrow> (\<forall>\<pi> \<rho>. tree_path env \<pi> \<and> tree_path env \<rho>
     \<and> pt_hash (node env \<pi>) = pt_hash (node env \<rho>) \<longrightarrow> \<pi> = \<rho>)"

text \<open>The best score so far is at most the one of a complete path; and so for a whole subtree.\<close>

definition recorded :: "search_env \<Rightarrow> search_state \<Rightarrow> candidate list \<Rightarrow> bool" where
  "recorded env st \<pi> \<longleftrightarrow> (\<exists>s. ss_best_score st = Some s \<and> score_key s \<le> path_key env \<pi>)"

definition covered :: "search_env \<Rightarrow> search_state \<Rightarrow> candidate list \<Rightarrow> bool" where
  "covered env st \<pi> \<longleftrightarrow> (\<forall>\<rho>. complete_path env (\<pi> @ \<rho>) \<longrightarrow> recorded env st (\<pi> @ \<rho>))"

fun frames_cov :: "search_env \<Rightarrow> (candidate list \<Rightarrow> bool) \<Rightarrow> candidate set \<Rightarrow> candidate list list
    \<Rightarrow> candidate list \<Rightarrow> bool" where
  "frames_cov env R ex [] ps = True"
| "frames_cov env R ex (f # fs) ps =
     (\<not> is_complete env (node env (rev ps))
      \<and> (\<forall>c\<in>set (expand env (node env (rev ps))). c \<in> set f \<or> c \<in> ex \<or> R (rev ps @ [c]))
      \<and> (case ps of [] \<Rightarrow> True | c # qs \<Rightarrow> frames_cov env R {c} fs qs))"

definition seen_cov :: "search_env \<Rightarrow> search_state \<Rightarrow> bool" where
  "seen_cov env st \<longleftrightarrow> (\<forall>k\<in>set (ss_seen st). \<exists>\<pi>. tree_path env \<pi> \<and> pt_hash (node env \<pi>) = k
     \<and> ((\<exists>\<rho>. rev (ss_pushed st) = \<pi> @ \<rho>) \<or> covered env st \<pi>))"

definition cov_inv :: "search_env \<Rightarrow> search_state \<Rightarrow> bool" where
  "cov_inv env st \<longleftrightarrow>
     (ss_stack st = [] \<longrightarrow> covered env st [])
     \<and> frames_cov env (covered env st) {} (ss_stack st) (ss_pushed st) \<and> seen_cov env st"

lemma frames_cov_mono:
  "frames_cov env R ex fs ps \<Longrightarrow> (\<And>\<pi>. R \<pi> \<Longrightarrow> S \<pi>) \<Longrightarrow> frames_cov env S ex fs ps"
  by (induction fs arbitrary: ex ps) (auto split: list.splits)

lemma frames_cov_exempt:
  "frames_cov env R {c} fs ps \<Longrightarrow> R (rev ps @ [c]) \<Longrightarrow> frames_cov env R {} fs ps"
  by (cases fs) auto

lemma covered_mono:
  "(\<And>\<pi>. recorded env st \<pi> \<Longrightarrow> recorded env st' \<pi>) \<Longrightarrow> covered env st \<pi> \<Longrightarrow> covered env st' \<pi>"
  by (simp add: covered_def)

lemma covered_same: "ss_best_score st = ss_best_score st' \<Longrightarrow> covered env st = covered env st'"
  by (rule ext) (simp add: covered_def recorded_def)

lemma covered_children:
  assumes "\<forall>c\<in>set (expand env (node env \<pi>)). covered env st (\<pi> @ [c])" "\<not> is_complete env (node env \<pi>)"
  shows "covered env st \<pi>"
  unfolding covered_def
proof (intro allI impI)
  fix \<rho> assume c: "complete_path env (\<pi> @ \<rho>)"
  show "recorded env st (\<pi> @ \<rho>)"
  proof (cases \<rho>)
    case Nil
    with c assms(2) show ?thesis by (simp add: complete_path_def)
  next
    case (Cons d \<rho>')
    with c have "tree_path env ((\<pi> @ [d]) @ \<rho>')" by (simp add: complete_path_def)
    then have "d \<in> set (expand env (node env \<pi>))"
      using tree_path_prefix tree_path_snoc by blast
    with assms(1) have "covered env st (\<pi> @ [d])" by blast
    with c Cons show ?thesis by (auto simp: covered_def)
  qed
qed

lemma complete_assigned:
  assumes "env_ok env" "complete_path env \<pi>"
  shows "set (map ca_requirement \<pi>) = set (se_unsat env)" "expand env (node env \<pi>) = []"
proof -
  have tp: "tree_path env \<pi>" and c: "is_complete env (node env \<pi>)"
    using assms(2) by (simp_all add: complete_path_def)
  note np = node_path [OF assms(1) tp]
  have "rid \<in> set (map ca_requirement \<pi>)" if rid: "rid \<in> set (se_unsat env)" for rid
  proof -
    have "map_of (chosen \<pi>) rid \<noteq> None"
      using c rid np(3) by (simp add: is_complete_def list_all_iff)
    then show ?thesis
      by (auto simp: chosen_def map_of_eq_None_iff image_image)
  qed
  with np(5) show eq: "set (map ca_requirement \<pi>) = set (se_unsat env)" by auto
  have "length (pt_assigned (node env \<pi>)) = length (remdups (se_unsat env))"
    using np(3,4) eq by (metis chosen_def distinct_card length_map length_remdups_card_conv)
  then show "expand env (node env \<pi>) = []" by (simp add: expand_def)
qed

lemma covered_complete:
  assumes "env_ok env" "complete_path env \<pi>" "recorded env st \<pi>"
  shows "covered env st \<pi>"
  unfolding covered_def
proof (intro allI impI)
  fix \<rho> assume c: "complete_path env (\<pi> @ \<rho>)"
  have "\<rho> = []"
  proof (rule ccontr)
    assume "\<rho> \<noteq> []"
    then obtain d \<rho>' where "\<rho> = d # \<rho>'" by (cases \<rho>) auto
    with c have "tree_path env ((\<pi> @ [d]) @ \<rho>')" by (simp add: complete_path_def)
    then have "d \<in> set (expand env (node env \<pi>))"
      using tree_path_prefix tree_path_snoc by blast
    with complete_assigned(2) [OF assms(1,2)] show False by simp
  qed
  with assms(3) show "recorded env st (\<pi> @ \<rho>)" by simp
qed

lemma record_improves:
  assumes "snaps_ok env st"
  shows "recorded env st \<pi> \<Longrightarrow> recorded env (record_complete env st) \<pi>"
    "ss_partial st = node env \<rho> \<Longrightarrow> recorded env (record_complete env st) \<rho>"
proof -
  consider "ss_first st = None" "ss_best_score st = None"
    | f b where "ss_first st = Some f" "ss_best_score st = Some b"
    using assms by (auto simp: snaps_ok_def)
  then have "(recorded env st \<pi> \<longrightarrow> recorded env (record_complete env st) \<pi>)
    \<and> (ss_partial st = node env \<rho> \<longrightarrow> recorded env (record_complete env st) \<rho>)"
  proof cases
    case 1
    then show ?thesis
      by (simp add: recorded_def record_complete_def path_key_def Let_def)
  next
    case 2
    show ?thesis
    proof (cases "score_key (score_partial env (ss_partial st)) < score_key b")
      case True
      then show ?thesis
        using 2 by (auto simp: recorded_def record_complete_def path_key_def Let_def
          intro: order_trans [OF less_imp_le])
    next
      case False
      then show ?thesis
        using 2 by (auto simp: recorded_def record_complete_def path_key_def Let_def not_less)
    qed
  qed
  then show "recorded env st \<pi> \<Longrightarrow> recorded env (record_complete env st) \<pi>"
    "ss_partial st = node env \<rho> \<Longrightarrow> recorded env (record_complete env st) \<rho>" by blast+
qed

text \<open>The frame under trial loses its candidate once that candidate's subtree is covered.\<close>

lemma frames_cov_drop:
  "frames_cov env R {} ((c # cs) # rest) ps \<Longrightarrow> R (rev ps @ [c]) \<Longrightarrow> frames_cov env R {} (cs # rest) ps"
  by (auto split: list.splits)

lemma seen_cov_step:
  assumes "seen_cov env st" "\<And>\<pi>. covered env st \<pi> \<Longrightarrow> covered env st' \<pi>"
    "ss_pushed st' = ss_pushed st" "set (ss_seen st') \<subseteq> insert (pt_hash (node env \<pi>)) (set (ss_seen st))"
    "tree_path env \<pi>" "covered env st' \<pi>"
  shows "seen_cov env st'"
  using assms unfolding seen_cov_def by (metis insert_iff subsetD)

lemma cov_inv_step:
  assumes ok: "env_ok env" and inj: "collision_free env" and inv: "loop_inv env limit st"
    and cov: "cov_inv env st" and step: "search_step env limit mon st st'"
  shows "cov_inv env st'"
  using step
proof cases
  case (backtrack rest)
  let ?ps = "ss_pushed st"
  have fr: "frames_sub env ([] # rest) ?ps" and fc: "frames_cov env (covered env st) {} ([] # rest) ?ps"
    using inv cov backtrack by (auto simp: loop_inv_def cov_inv_def)
  have top: "covered env st (rev ?ps)"
    using fc by (intro covered_children) auto
  have same: "covered env st' = covered env st"
    by (rule covered_same) (simp add: backtrack)
  show ?thesis
  proof (cases ?ps)
    case Nil
    then have "rest = []" using fr by simp
    with Nil top show ?thesis
      using cov same backtrack by (simp add: cov_inv_def seen_cov_def backtrack_def)
  next
    case (Cons c qs)
    have "frames_cov env (covered env st) {} rest qs"
      using fc Cons top by (auto intro: frames_cov_exempt)
    moreover have "rest \<noteq> []" using fr Cons by (cases rest) auto
    moreover have "seen_cov env st'"
      unfolding seen_cov_def same
    proof
      fix k assume "k \<in> set (ss_seen st')"
      then have "k \<in> set (ss_seen st)" by (simp add: backtrack)
      then obtain \<pi> where \<pi>: "tree_path env \<pi>" "pt_hash (node env \<pi>) = k"
        "(\<exists>\<rho>. rev ?ps = \<pi> @ \<rho>) \<or> covered env st \<pi>"
        using cov by (auto simp: cov_inv_def seen_cov_def)
      have "(\<exists>\<rho>. rev qs = \<pi> @ \<rho>) \<or> covered env st \<pi>"
        using \<pi>(3) top Cons by (auto simp: append_eq_append_conv2 append_eq_Cons_conv Cons_eq_append_conv)
      with \<pi> show "\<exists>\<pi>. tree_path env \<pi> \<and> pt_hash (node env \<pi>) = k
          \<and> ((\<exists>\<rho>. rev (ss_pushed st') = \<pi> @ \<rho>) \<or> covered env st \<pi>)"
        using Cons by (auto simp: backtrack backtrack_def)
    qed
    ultimately show ?thesis
      using Cons same by (simp add: cov_inv_def backtrack backtrack_def)
  qed
next
  case (skip c cs rest)
  note t = try_path [OF inv skip(2) ok]
  let ?\<pi> = "rev (ss_pushed st) @ [c]"
  have same: "covered env st' = covered env st"
    by (rule covered_same) (simp add: skip)
  have "pt_hash (node env ?\<pi>) \<in> set (ss_seen st)"
    using skip(3) t(2) by (auto simp: enter_def Let_def split: if_splits)
  then obtain \<pi> where \<pi>: "tree_path env \<pi>" "pt_hash (node env \<pi>) = pt_hash (node env ?\<pi>)"
    "(\<exists>\<rho>. rev (ss_pushed st) = \<pi> @ \<rho>) \<or> covered env st \<pi>"
    using cov by (auto simp: cov_inv_def seen_cov_def)
  then have eq: "\<pi> = ?\<pi>" using inj t(1) unfolding collision_free_def by blast
  have "rev (ss_pushed st) \<noteq> ?\<pi> @ \<rho>" for \<rho>
  proof
    assume "rev (ss_pushed st) = ?\<pi> @ \<rho>"
    from arg_cong [OF this, of length] show False by simp
  qed
  with \<pi>(3) have "covered env st ?\<pi>" unfolding eq by blast
  moreover have "frames_cov env (covered env st) {} ((c # cs) # rest) (ss_pushed st)"
    using cov skip(2) by (simp add: cov_inv_def)
  ultimately have "frames_cov env (covered env st) {} (cs # rest) (ss_pushed st)"
    by (rule frames_cov_drop [rotated])
  with cov show ?thesis
    unfolding cov_inv_def seen_cov_def same by (simp add: skip(1))
next
  case (complete c cs rest st2)
  note t = try_path [OF inv complete(2) ok] and e = enter_Ok_fields [OF complete(3)]
  let ?\<pi> = "rev (ss_pushed st) @ [c]"
  have sn: "snaps_ok env st2" using inv e by (simp add: loop_inv_def snaps_ok_def)
  have rec: "recorded env st' \<pi> \<longleftrightarrow> recorded env (record_complete env st2) \<pi>" for \<pi>
    by (simp add: complete recorded_def)
  have mono: "covered env st \<pi> \<Longrightarrow> covered env st' \<pi>" for \<pi>
  proof (rule covered_mono)
    show "recorded env st \<sigma> \<Longrightarrow> recorded env st' \<sigma>" for \<sigma>
      using record_improves(1) [OF sn, of \<sigma>] e by (simp add: rec) (simp add: recorded_def)
  qed auto
  have "complete_path env ?\<pi>" using t complete e by (simp add: complete_path_def)
  moreover have "recorded env st' ?\<pi>"
    unfolding rec using e t(2) by (intro record_improves(2) [OF sn]) simp
  ultimately have new: "covered env st' ?\<pi>" by (rule covered_complete [OF ok])
  have "frames_cov env (covered env st') {} (cs # rest) (ss_pushed st)"
  proof (rule frames_cov_drop [where R = "covered env st'", OF _ new])
    have "frames_cov env (covered env st) {} ((c # cs) # rest) (ss_pushed st)"
      using cov complete(2) by (simp add: cov_inv_def)
    then show "frames_cov env (covered env st') {} ((c # cs) # rest) (ss_pushed st)"
      by (rule frames_cov_mono) (rule mono)
  qed
  moreover have "seen_cov env st'"
    using cov mono new t e complete(1)
    by (intro seen_cov_step [of env st st' ?\<pi>]) (auto simp: cov_inv_def)
  ultimately show ?thesis
    using e complete(1) by (simp add: cov_inv_def)
next
  case (dead c cs rest st2)
  note t = try_path [OF inv dead(2) ok] and e = enter_Ok_fields [OF dead(3)]
  let ?\<pi> = "rev (ss_pushed st) @ [c]"
  have same: "covered env st' = covered env st"
    by (rule covered_same) (simp add: dead e)
  have new: "covered env st ?\<pi>"
    using dead t e by (intro covered_children) simp_all
  moreover have "frames_cov env (covered env st) {} ((c # cs) # rest) (ss_pushed st)"
    using cov dead(2) by (simp add: cov_inv_def)
  ultimately have "frames_cov env (covered env st) {} (cs # rest) (ss_pushed st)"
    by (rule frames_cov_drop [rotated])
  moreover have "seen_cov env st'"
    using cov new t e dead(1) same
    by (intro seen_cov_step [of env st st' ?\<pi>]) (auto simp: cov_inv_def)
  ultimately show ?thesis
    using e dead(1) same by (simp add: cov_inv_def)
next
  case (descend c cs rest st2)
  note t = try_path [OF inv descend(2) ok] and e = enter_Ok_fields [OF descend(3)]
  let ?\<pi> = "rev (ss_pushed st) @ [c]"
  have same: "covered env st' = covered env st"
    by (rule covered_same) (simp add: descend e)
  have "frames_cov env (covered env st) {c} (cs # rest) (ss_pushed st)"
    using cov descend(2) by (auto simp: cov_inv_def)
  moreover have "ss_partial st2 = node env (rev (c # ss_pushed st))"
    using e t by simp
  ultimately have "frames_cov env (covered env st) {} (expand env (ss_partial st2) # cs # rest) (c # ss_pushed st)"
    using descend(4) by simp
  moreover have "seen_cov env st'"
    unfolding seen_cov_def same
  proof
    fix k assume "k \<in> set (ss_seen st')"
    then consider "k = pt_hash (node env ?\<pi>)" | "k \<in> set (ss_seen st)"
      using e t by (auto simp: descend)
    then show "\<exists>\<pi>. tree_path env \<pi> \<and> pt_hash (node env \<pi>) = k
        \<and> ((\<exists>\<rho>. rev (ss_pushed st') = \<pi> @ \<rho>) \<or> covered env st \<pi>)"
    proof cases
      case 1
      with t(1) show ?thesis by (intro exI [of _ ?\<pi>]) (simp add: descend e)
    next
      case 2
      with cov obtain \<pi> where "tree_path env \<pi>" "pt_hash (node env \<pi>) = k"
        "(\<exists>\<rho>. rev (ss_pushed st) = \<pi> @ \<rho>) \<or> covered env st \<pi>"
        by (auto simp: cov_inv_def seen_cov_def)
      then show ?thesis
        by (intro exI [of _ \<pi>]) (auto simp: descend e)
    qed
  qed
  ultimately show ?thesis
    using e descend(1) same by (simp add: cov_inv_def)
qed

lemma cov_inv_steps:
  assumes "(search_step env limit mon)\<^sup>*\<^sup>* st st'" "env_ok env" "collision_free env"
    "loop_inv env limit st" "cov_inv env st"
  shows "cov_inv env st'"
  using assms
proof (induction rule: rtranclp_induct)
  case (step y z)
  then show ?case
    using loop_inv_steps [OF step.hyps(1) step.prems(1,3)] cov_inv_step by blast
qed

end
