(* ===== verification/SearchSpec.thy ===== *)
theory SearchSpec
  imports SearchLoop
begin

text \<open>
  What the search of \<open>_search\<close> is for: a feasible choice picks one candidate for every
  unsatisfied requirement such that every touched drive holds the durable bytes plus the largest
  workspace, replicas are separated from their homes, and sources are resolvable. Complete paths
  of the search tree are exactly the feasible choices, up to order, and the incremental score of
  a node is the score of the assignment it yields.
\<close>

section \<open>Feasible choices\<close>

definition choice_view :: "candidate list \<Rightarrow> partial" where
  "choice_view cs = empty_partial\<lparr>pt_assigned := chosen cs\<rparr>"

definition feasible_choice :: "search_env \<Rightarrow> candidate list \<Rightarrow> bool" where
  "feasible_choice env cs \<longleftrightarrow>
     distinct (map ca_requirement cs) \<and> set (map ca_requirement cs) = set (se_unsat env)
     \<and> list_all (\<lambda>c. c \<in> set (se_cands env (ca_requirement c))
         \<and> load (cand_durable (se_guaranteed env)) cs (ca_target c)
             + peak (cand_workspace (se_guaranteed env)) cs (ca_target c) \<le> free_of env (ca_target c)
         \<and> domain_ok env c (choice_view cs) \<and> source_ready env (choice_view cs) c) cs"

lemma assigned_at_cong: "pt_assigned p = pt_assigned q \<Longrightarrow> assigned_at p = assigned_at q"
  by (rule ext) (simp add: assigned_at_def)

lemma domain_ok_home: "home_drive c p = home_drive c q \<Longrightarrow> domain_ok env c p = domain_ok env c q"
proof -
  assume eq: "home_drive c p = home_drive c q"
  show ?thesis unfolding domain_ok_def eq by (rule refl)
qed

lemma domain_ok_cong: "assigned_at p = assigned_at q \<Longrightarrow> domain_ok env c p = domain_ok env c q"
  by (rule domain_ok_home) (cases "ca_source c"; simp add: home_drive_def)

lemma source_ready_cong: "assigned_at p = assigned_at q \<Longrightarrow> source_ready env p c = source_ready env q c"
  by (cases "ca_source c") (simp_all add: source_ready_def)

lemma resolve_source_cong: "assigned_at p = assigned_at q \<Longrightarrow> resolve_source c p = resolve_source c q"
  by (cases "ca_source c") (simp_all add: resolve_source_def)

lemma assigned_at_push:
  assumes "fresh_for d p"
  shows "assigned_at (push env d p) rid = (if rid = Some (ca_requirement d) then Some d else assigned_at p rid)"
proof -
  have "map_of (pt_assigned p) (ca_requirement d) = None"
    using assms by (simp add: fresh_for_def map_of_eq_None_iff)
  then show ?thesis
    using assms by (cases rid) (auto simp: assigned_at_def push_fields map_add_def split: option.split)
qed

lemma checks_push:
  assumes "fresh_for d p" "ca_requirement d \<notin> set (se_satisfied env)"
    and "source_ready env p c" "domain_ok env c p"
  shows "source_ready env (push env d p) c \<and> domain_ok env c (push env d p)"
proof (cases "ca_source c")
  case (PendingHome rid)
  have "map_of (pt_assigned p) (ca_requirement d) = None"
    using assms(1) by (simp add: fresh_for_def map_of_eq_None_iff)
  then have "assigned_at (push env d p) rid = assigned_at p rid \<or> assigned_at p rid = None \<and> rid = Some (ca_requirement d)"
    using assigned_at_push [OF assms(1), of env rid] by (cases "rid = Some (ca_requirement d)") (simp_all add: assigned_at_def)
  then have "assigned_at (push env d p) rid = assigned_at p rid"
    using assms(2,3) PendingHome by (auto simp: source_ready_def)
  then show ?thesis
    using assms(3,4) PendingHome domain_ok_home [of c "push env d p" p env]
    by (simp add: source_ready_def home_drive_def)
qed (use assms domain_ok_home [of c "push env d p" p env] in \<open>simp_all add: source_ready_def home_drive_def\<close>)

lemma path_checks:
  assumes "env_ok env" "tree_path env cs" "c \<in> set cs"
  shows "c \<in> set (se_cands env (ca_requirement c))"
    "pt_durable (node env cs) (ca_target c) + pt_workspace (node env cs) (ca_target c) \<le> free_of env (ca_target c)"
    "source_ready env (node env cs) c \<and> domain_ok env c (node env cs)"
proof -
  have "\<forall>c\<in>set cs. c \<in> set (se_cands env (ca_requirement c))
     \<and> pt_durable (node env cs) (ca_target c) + pt_workspace (node env cs) (ca_target c) \<le> free_of env (ca_target c)
     \<and> source_ready env (node env cs) c \<and> domain_ok env c (node env cs)"
    using assms(2)
  proof (induction cs rule: rev_induct)
    case (snoc d cs)
    then have d: "d \<in> set (expand env (node env cs))" and tp: "tree_path env cs"
      by (simp_all add: tree_path_snoc)
    note f = expand_fresh [OF assms(1) d]
    have unsat: "ca_requirement d \<notin> set (se_satisfied env)"
      using assms(1) f(2) by (auto simp: env_ok_def)
    have new: "source_ready env (push env d (node env cs)) d \<and> domain_ok env d (push env d (node env cs))"
      using f(5) by (intro checks_push [OF f(1) unsat]) (simp_all add: admissible_def)
    show ?case
    proof
      fix c assume c: "c \<in> set (cs @ [d])"
      show "c \<in> set (se_cands env (ca_requirement c))
        \<and> pt_durable (node env (cs @ [d])) (ca_target c) + pt_workspace (node env (cs @ [d])) (ca_target c)
            \<le> free_of env (ca_target c)
        \<and> source_ready env (node env (cs @ [d])) c \<and> domain_ok env c (node env (cs @ [d]))"
        using c snoc.IH [OF tp] f new checks_push [OF f(1) unsat]
        by (auto simp: push_fields admissible_def fits_def Let_def)
    qed
  qed simp
  with assms(3) show "c \<in> set (se_cands env (ca_requirement c))"
    "pt_durable (node env cs) (ca_target c) + pt_workspace (node env cs) (ca_target c) \<le> free_of env (ca_target c)"
    "source_ready env (node env cs) c \<and> domain_ok env c (node env cs)" by blast+
qed

lemma complete_feasible:
  assumes "env_ok env" "complete_path env cs"
  shows "feasible_choice env cs"
proof -
  have tp: "tree_path env cs" using assms(2) by (simp add: complete_path_def)
  note np = node_path [OF assms(1) tp] and ff = fresh_fold [OF node_path(2) [OF assms(1) tp]]
  have view: "assigned_at (choice_view cs) = assigned_at (node env cs)"
    by (rule assigned_at_cong) (simp add: choice_view_def np(3))
  show ?thesis
    using path_checks [OF assms(1) tp] np(4) complete_assigned(1) [OF assms]
    by (simp add: feasible_choice_def list_all_iff domain_ok_cong [OF view] source_ready_cong [OF view] ff)
qed

section \<open>Every feasible choice is found\<close>

definition dependency :: "search_env \<Rightarrow> str \<Rightarrow> str option" where
  "dependency env rid = Option.bind (se_req env rid) rq_independent_of"

text \<open>Dependencies are satisfied or lie lower in a ranking; budgets are not negative.\<close>

definition deps_ranked :: "search_env \<Rightarrow> (str \<Rightarrow> nat) \<Rightarrow> bool" where
  "deps_ranked env rank \<longleftrightarrow> list_all (\<lambda>rid. case dependency env rid of
       None \<Rightarrow> True
     | Some d \<Rightarrow> d \<in> set (se_satisfied env) \<or> d \<in> set (se_unsat env) \<and> rank d < rank rid) (se_unsat env)"

definition cands_wf :: "search_env \<Rightarrow> bool" where
  "cands_wf env \<longleftrightarrow> list_all (\<lambda>rid. list_all (\<lambda>c.
       0 \<le> cand_durable (se_guaranteed env) c \<and> 0 \<le> cand_workspace (se_guaranteed env) c
       \<and> ca_target c \<in> set (se_targets env)
       \<and> (case ca_source c of PendingHome h \<Rightarrow> h \<noteq> None \<and> h = dependency env rid | _ \<Rightarrow> True))
     (se_cands env rid)) (se_unsat env)"

lemma load_distinct: "distinct cs \<Longrightarrow> load f cs l = (\<Sum>c\<in>{c \<in> set cs. ca_target c = l}. f c)"
  by (simp add: load_def sum_list_distinct_conv_sum_set)

lemma peak_le_iff: "peak f cs l \<le> b \<longleftrightarrow> 0 \<le> b \<and> (\<forall>c\<in>set cs. ca_target c = l \<longrightarrow> f c \<le> b)"
proof -
  have "fold (\<lambda>c m. max m (f c)) ds m \<le> b \<longleftrightarrow> m \<le> b \<and> (\<forall>c\<in>set ds. f c \<le> b)" for ds and m :: int
    by (induction ds arbitrary: m) auto
  then show ?thesis by (auto simp: peak_def)
qed

lemma peak_cong_set: "set cs = set ds \<Longrightarrow> peak f cs l = peak f ds l"
  by (rule antisym) (simp_all add: peak_le_iff [of f _ l] peak_le_iff [of f _ l, THEN iffD1, OF order_refl])

lemma peak_nonneg: "0 \<le> peak f cs l"
  using peak_le_iff [of f cs l "peak f cs l"] by simp

lemma peak_mono_set: "set cs \<subseteq> set ds \<Longrightarrow> peak f cs l \<le> peak f ds l"
  using peak_le_iff [of f ds l "peak f ds l"] by (auto simp: peak_le_iff [of f cs])

lemma load_mono_set:
  assumes "distinct cs" "distinct ds" "set cs \<subseteq> set ds" "\<forall>c\<in>set ds. 0 \<le> f c"
  shows "load f cs l \<le> load f ds l"
  unfolding load_distinct [OF assms(1)] load_distinct [OF assms(2)]
  using assms(3,4) by (intro sum_mono2) auto

lemma distinct_of_map: "distinct (map f xs) \<Longrightarrow> distinct xs"
  by (simp add: distinct_map)

lemma map_of_chosen:
  "distinct (map ca_requirement cs) \<Longrightarrow>
   map_of (chosen cs) rid = Some c \<longleftrightarrow> c \<in> set cs \<and> ca_requirement c = rid"
  by (subst map_of_eq_Some_iff) (auto simp: chosen_def comp_def)

lemma map_of_chosen_None: "map_of (chosen cs) rid = None \<longleftrightarrow> rid \<notin> set (map ca_requirement cs)"
  by (auto simp: chosen_def map_of_eq_None_iff image_image)

lemma extend_path:
  assumes ok: "env_ok env" and wf: "cands_wf env" and rank: "deps_ranked env rank"
    and feas: "feasible_choice env cs" and tp: "tree_path env \<pi>" and sub: "set \<pi> \<subseteq> set cs"
    and inc: "set (map ca_requirement \<pi>) \<noteq> set (se_unsat env)"
  shows "\<exists>c\<in>set cs. c \<in> set (expand env (node env \<pi>))"
proof -
  note np = node_path [OF ok tp] and ff = fresh_fold [OF node_path(2) [OF ok tp]]
  let ?ids = "set (map ca_requirement \<pi>)"
  have cs: "distinct (map ca_requirement cs)" "set (map ca_requirement cs) = set (se_unsat env)"
    "\<And>c. c \<in> set cs \<Longrightarrow> c \<in> set (se_cands env (ca_requirement c))
         \<and> load (cand_durable (se_guaranteed env)) cs (ca_target c)
             + peak (cand_workspace (se_guaranteed env)) cs (ca_target c) \<le> free_of env (ca_target c)
         \<and> domain_ok env c (choice_view cs) \<and> source_ready env (choice_view cs) c"
    using feas by (auto simp: feasible_choice_def list_all_iff)
  have asg: "map_of (pt_assigned (node env \<pi>)) r = None \<longleftrightarrow> r \<notin> ?ids" for r
    by (simp only: np(3) map_of_chosen_None)
  have "\<exists>r. r \<in> set (se_unsat env) - ?ids \<and> (\<forall>r'. r' \<in> set (se_unsat env) - ?ids \<longrightarrow> rank r \<le> rank r')"
  proof -
    obtain k where "k \<in> set (se_unsat env) - ?ids" using inc np(5) by auto
    then show ?thesis by (rule ex_has_least_nat)
  qed
  then obtain r where r: "r \<in> set (se_unsat env)" "r \<notin> ?ids"
    and least: "\<And>r'. r' \<in> set (se_unsat env) \<Longrightarrow> r' \<notin> ?ids \<Longrightarrow> rank r \<le> rank r'" by blast
  have "is_ready env (node env \<pi>) r"
    unfolding is_ready_def asg dependency_def [symmetric]
    using r rank least by (force simp: deps_ranked_def list_all_iff split: option.split)
  then have "r \<in> set (filter (is_ready env (node env \<pi>)) (se_unsat env))"
    using r by simp
  then obtain r0 rest where s: "sort_key (se_order env) (filter (is_ready env (node env \<pi>)) (se_unsat env)) = r0 # rest"
    by (metis empty_iff list.set(1) set_sort neq_Nil_conv)
  then have r0: "r0 \<in> set (se_unsat env)" "is_ready env (node env \<pi>) r0"
    by (metis (no_types, lifting) list.set_intros(1) set_sort mem_Collect_eq set_filter)+
  then have "r0 \<in> ca_requirement ` set cs" using cs(2) by simp
  then obtain c where c: "c \<in> set cs" "ca_requirement c = r0" by auto
  have notin: "c \<notin> set \<pi>" using r0(2) c(2) asg [of r0] by (auto simp: is_ready_def)
  have cand: "c \<in> set (se_cands env r0)" using cs(3) [OF c(1)] c(2) by simp
  have nn: "0 \<le> cand_durable (se_guaranteed env) d" if "d \<in> set cs" for d
    using wf cs(2,3) that by (force simp: cands_wf_def list_all_iff)
  let ?t = "ca_target c" and ?D = "cand_durable (se_guaranteed env)" and ?W = "cand_workspace (se_guaranteed env)"
  have "load ?D (c # \<pi>) ?t \<le> load ?D cs ?t"
    using notin sub c(1) nn distinct_of_map [OF np(4)] distinct_of_map [OF cs(1)] by (intro load_mono_set) auto
  moreover have "peak ?W (c # \<pi>) ?t \<le> peak ?W cs ?t"
    using sub c(1) by (intro peak_mono_set) auto
  moreover have "load ?D (c # \<pi>) ?t = load ?D \<pi> ?t + ?D c" by (simp add: load_def)
  moreover have "max (peak ?W \<pi> ?t) (?W c) \<le> peak ?W (c # \<pi>) ?t"
    using peak_mono_set [of \<pi> "c # \<pi>" ?W ?t] peak_le_iff [of ?W "c # \<pi>" ?t "peak ?W (c # \<pi>) ?t"] by auto
  ultimately have fit: "fits env (node env \<pi>) c"
    using cs(3) [OF c(1)] by (simp add: fits_def Let_def ff max_def)
  have home: "assigned_at (node env \<pi>) h = assigned_at (choice_view cs) h \<and>
      (assigned_at (choice_view cs) h \<noteq> None \<or> (\<exists>d. h = Some d \<and> d \<in> set (se_satisfied env)))"
    if src: "ca_source c = PendingHome h" for h
  proof -
    obtain d where d: "h = Some d" "dependency env r0 = Some d"
      using wf r0(1) cand src by (force simp: cands_wf_def list_all_iff)
    show ?thesis
    proof (cases "d \<in> set (se_satisfied env)")
      case True
      then have "d \<notin> set (se_unsat env)" using ok by (auto simp: env_ok_def)
      then have "map_of (chosen cs) d = None" "map_of (chosen \<pi>) d = None"
        using cs(2) np(5) by (auto simp: map_of_chosen_None)
      with True d show ?thesis by (simp add: assigned_at_def np(3) choice_view_def)
    next
      case False
      then have "map_of (chosen \<pi>) d \<noteq> None"
        using r0(2) d by (simp add: is_ready_def dependency_def np(3))
      then obtain x where x: "map_of (chosen \<pi>) d = Some x" by auto
      then have "map_of (chosen cs) d = Some x"
        using np(4) cs(1) sub by (auto simp: map_of_chosen)
      with x d show ?thesis by (simp add: assigned_at_def np(3) choice_view_def)
    qed
  qed
  have "domain_ok env c (node env \<pi>)"
  proof -
    have "home_drive c (node env \<pi>) = home_drive c (choice_view cs)"
      using home by (cases "ca_source c") (simp_all add: home_drive_def)
    with cs(3) [OF c(1)] show ?thesis using domain_ok_home by blast
  qed
  moreover have "source_ready env (node env \<pi>) c"
  proof (cases "ca_source c")
    case (PendingHome h)
    with home [OF PendingHome] show ?thesis by (cases h) (simp_all add: source_ready_def)
  qed (simp_all add: source_ready_def)
  moreover have "length (pt_assigned (node env \<pi>)) \<noteq> length (remdups (se_unsat env))"
  proof -
    have "length (pt_assigned (node env \<pi>)) = card ?ids"
      using np(3,4) by (metis chosen_def distinct_card length_map)
    moreover have "card ?ids < card (set (se_unsat env))"
      using inc np(5) by (intro psubset_card_mono) auto
    ultimately show ?thesis by (simp add: length_remdups_card_conv)
  qed
  ultimately have "c \<in> set (expand env (node env \<pi>))"
    using s cand fit by (simp add: expand_def admissible_def)
  with c(1) show ?thesis by blast
qed

lemma feasible_complete:
  assumes ok: "env_ok env" and wf: "cands_wf env" and rank: "deps_ranked env rank"
    and feas: "feasible_choice env cs"
  shows "\<exists>\<pi>. complete_path env \<pi> \<and> set \<pi> = set cs"
proof -
  have "\<exists>\<pi>. complete_path env \<pi> \<and> set \<pi> \<subseteq> set cs"
    if "tree_path env \<pi>" "set \<pi> \<subseteq> set cs" for \<pi>
    using that
  proof (induction "card (set (se_unsat env)) - length \<pi>" arbitrary: \<pi> rule: less_induct)
    case less
    note np = node_path [OF ok less.prems(1)]
    show ?case
    proof (cases "set (map ca_requirement \<pi>) = set (se_unsat env)")
      case True
      then have "is_complete env (node env \<pi>)"
        using np(3) by (auto simp: is_complete_def list_all_iff map_of_chosen_None)
      with less.prems show ?thesis by (auto simp: complete_path_def)
    next
      case False
      then obtain c where c: "c \<in> set cs" "c \<in> set (expand env (node env \<pi>))"
        using extend_path [OF ok wf rank feas less.prems] by blast
      have tp: "tree_path env (\<pi> @ [c])" using c less.prems by (simp add: tree_path_snoc)
      have "length \<pi> = card (set (map ca_requirement \<pi>))"
        using np(4) by (metis distinct_card length_map)
      also have "\<dots> < card (set (se_unsat env))"
        using False np(5) by (intro psubset_card_mono) auto
      finally show ?thesis
        using less.hyps [of "\<pi> @ [c]"] tp c less.prems by auto
    qed
  qed
  from this [of "[]"] obtain \<pi> where \<pi>: "complete_path env \<pi>" "set \<pi> \<subseteq> set cs" by auto
  have "set cs \<subseteq> set \<pi>"
  proof
    fix c assume c: "c \<in> set cs"
    then have "ca_requirement c \<in> set (map ca_requirement \<pi>)"
      using feas complete_assigned(1) [OF ok \<pi>(1)] by (auto simp: feasible_choice_def)
    then obtain d where "d \<in> set \<pi>" "ca_requirement d = ca_requirement c" by auto
    moreover from this \<pi>(2) have "d \<in> set cs" by blast
    moreover have "distinct (map ca_requirement cs)"
      using feas by (simp add: feasible_choice_def)
    ultimately have "d = c" using c by (intro map_fst_unique [of ca_requirement cs]) auto
    with \<open>d \<in> set \<pi>\<close> show "c \<in> set \<pi>" by simp
  qed
  with \<pi> show ?thesis by blast
qed

end
