(* ===== verification/SearchResult.thy ===== *)
theory SearchResult
  imports SearchSpec
begin

text \<open>
  The results of \<open>search\<close>: materialised snapshots are the assignments of the paths that were
  recorded, the incremental score equals the score of the assignment, and the three result
  kinds mean what they say.
\<close>

section \<open>Assignments do not depend on the order of choice\<close>

lemma sort_key_unique:
  assumes "distinct (map f xs)" "distinct (map f ys)" "set xs = set ys"
  shows "sort_key f xs = sort_key f ys"
proof (rule map_sorted_distinct_set_unique)
  show "inj_on f (set (sort_key f xs) \<union> set (sort_key f ys))"
    using assms by (simp add: distinct_map)
  show "distinct (map f (sort_key f xs))" "distinct (map f (sort_key f ys))"
    using assms by (simp_all add: distinct_map)
qed (use assms in simp_all)

lemma map_fst_chosen [simp]: "map fst (chosen cs) = map ca_requirement cs"
  by (simp add: chosen_def)

lemma set_chosen: "set (chosen cs) = (\<lambda>c. (ca_requirement c, c)) ` set cs"
  by (simp add: chosen_def)

lemma fresh_path_distinct:
  "distinct (map ca_requirement cs) \<Longrightarrow> undo.fresh_path env cs empty_partial"
proof (induction cs rule: rev_induct)
  case (snoc c cs)
  then have "undo.fresh_path env cs empty_partial" by simp
  with fresh_fold(6) [OF this] snoc.prems show ?case
    by (simp add: undo.fresh_path_append node_def [symmetric]) (auto simp: fresh_for_def chosen_def)
qed simp

lemmas node_fields = fresh_fold [OF fresh_path_distinct]

lemma load_cong_set:
  "distinct cs \<Longrightarrow> distinct ds \<Longrightarrow> set cs = set ds \<Longrightarrow> load f cs l = load f ds l"
  by (simp add: load_distinct)

lemma assigned_at_order:
  assumes "distinct (map ca_requirement cs)" "distinct (map ca_requirement ds)" "set cs = set ds"
  shows "assigned_at (node env cs) = assigned_at (node env ds)"
proof -
  have "map_of (chosen cs) = map_of (chosen ds)"
    using assms by (subst map_of_inject_set) (simp_all add: set_chosen)
  then show ?thesis
    by (intro ext) (simp add: assigned_at_def node_fields assms)
qed

lemma assignment_order:
  assumes "distinct (map ca_requirement cs)" "distinct (map ca_requirement ds)" "set cs = set ds"
  shows "to_assignment env (node env cs) = to_assignment env (node env ds)"
proof -
  have "sort_key fst (chosen cs) = sort_key fst (chosen ds)"
    using assms by (intro sort_key_unique) (simp_all add: set_chosen)
  moreover have "task_of g (node env cs) = task_of g (node env ds)" for g
    using resolve_source_cong [OF assigned_at_order [OF assms]] by (auto simp: task_of_def fun_eq_iff)
  moreover have "peak f cs l = peak f ds l" "load f cs l = load f ds l" for f l
    using assms by (auto intro: peak_cong_set load_cong_set distinct_of_map)
  ultimately show ?thesis
    by (simp add: to_assignment_def node_fields assms)
qed

lemma sort_chosen:
  assumes "distinct (map ca_requirement cs)"
  shows "sort_key fst (chosen cs) = chosen (sort_key ca_requirement cs)"
proof (rule map_sorted_distinct_set_unique [of fst])
  show "inj_on fst (set (sort_key fst (chosen cs)) \<union> set (chosen (sort_key ca_requirement cs)))"
    using assms by (auto simp: set_chosen inj_on_def distinct_map)
  show "distinct (map fst (sort_key fst (chosen cs)))"
  proof -
    have "distinct (map fst (chosen cs))" using assms by simp
    then show ?thesis by (metis distinct_map distinct_sort set_sort)
  qed
  show "distinct (map fst (chosen (sort_key ca_requirement cs)))"
    using assms by (simp add: distinct_map)
qed (simp_all add: set_chosen)

lemma map_snd_chosen [simp]: "map snd (chosen cs) = cs"
  by (simp add: chosen_def comp_def)

lemma materialize_path:
  assumes "distinct (map ca_requirement cs)"
  shows "materialize env (chosen cs) = to_assignment env (node env cs)"
proof -
  have "materialize env (chosen cs) = to_assignment env (node env (sort_key ca_requirement cs))"
    by (simp add: materialize_def node_def sort_chosen [OF assms])
  also have "\<dots> = to_assignment env (node env cs)"
    using assms by (intro assignment_order [symmetric]) (simp_all add: distinct_map)
  finally show ?thesis .
qed

section \<open>The incremental score\<close>

lemma task_of_fields [simp]:
  "at_requirement (task_of g p (rid, c)) = rid" "at_target (task_of g p (rid, c)) = ca_target c"
  "at_durable (task_of g p (rid, c)) = cand_durable g c" "at_workspace (task_of g p (rid, c)) = cand_workspace g c"
  "at_movement_cost (task_of g p (rid, c)) = ca_transfer_bytes c" "at_source (task_of g p (rid, c)) = resolve_source c p"
  "at_task_kind (task_of g p (rid, c)) = ca_task_kind c"
  "at_missing_files (task_of g p (rid, c)) = map mf_rfilename (ca_missing c)"
  by (simp_all add: task_of_def)

lemma sum_list_sort: "sum_list (map f (sort_key k xs)) = (sum_list (map f xs) :: int)"
proof -
  have "sum_list (map f (insort_key k x ys)) = f x + sum_list (map f ys)" for x ys
    by (induction ys) auto
  then show ?thesis by (induction xs) auto
qed

lemma tasks_of_node:
  assumes "distinct (map ca_requirement cs)"
  shows "an_tasks (to_assignment env (node env cs)) =
     map (\<lambda>c. task_of (se_guaranteed env) (node env cs) (ca_requirement c, c)) (sort_key ca_requirement cs)"
  by (simp add: to_assignment_def node_fields sort_chosen assms) (simp add: chosen_def)

lemma task_load_node:
  assumes "distinct (map ca_requirement cs)"
  shows "task_load at_durable (an_tasks (to_assignment env (node env cs))) l =
    load (cand_durable (se_guaranteed env)) cs l"
proof -
  have "task_load at_durable (an_tasks (to_assignment env (node env cs))) l
      = load (cand_durable (se_guaranteed env)) (sort_key ca_requirement cs) l"
    by (simp add: task_load_def tasks_of_node assms load_def filter_map comp_def)
  also have "\<dots> = load (cand_durable (se_guaranteed env)) cs l"
    using distinct_of_map [OF assms] by (intro load_cong_set) simp_all
  finally show ?thesis .
qed

lemma task_peak_node:
  assumes "distinct (map ca_requirement cs)"
  shows "task_peak (an_tasks (to_assignment env (node env cs))) l =
    peak (cand_workspace (se_guaranteed env)) cs l"
proof -
  have "task_peak (an_tasks (to_assignment env (node env cs))) l
      = peak (cand_workspace (se_guaranteed env)) (sort_key ca_requirement cs) l"
    by (simp add: task_peak_def tasks_of_node assms peak_def filter_map comp_def fold_map)
  also have "\<dots> = peak (cand_workspace (se_guaranteed env)) cs l"
    by (intro peak_cong_set) simp
  finally show ?thesis .
qed

text \<open>
  The node score used to compare partial results equals the score of the materialised
  assignment, whenever the targets of the candidates are listed.
\<close>

lemma score_node:
  assumes dist: "distinct (map ca_requirement cs)" and targets: "ca_target ` set cs \<subseteq> set (se_targets env)"
    and dt: "distinct (se_targets env)"
  shows "score_partial env (node env cs) =
     score_assignment (free_of env) (se_targets env) (se_preference env) (to_assignment env (node env cs))"
proof -
  let ?s = "sort_key ca_requirement cs" and ?g = "se_guaranteed env" and ?n = "node env cs"
  let ?task = "\<lambda>c. task_of ?g ?n (ca_requirement c, c)"
  note nf = node_fields [OF dist] and ts = tasks_of_node [OF dist]
  have idle: "int (length (se_targets env)) - int (length (pt_used ?n))
      = int (length (filter (\<lambda>l. l \<notin> ca_target ` set cs) (se_targets env)))"
  proof -
    have "partial_ok ?n"
      using undo.path_ok [OF _ fresh_path_distinct [OF dist]]
      by (simp add: node_def partial_ok_def empty_partial_def)
    then have "length (pt_used ?n) = card (ca_target ` set cs)"
      using nf(5) by (metis distinct_card length_map partial_ok_def set_map)
    also have "\<dots> = length (filter (\<lambda>l. l \<in> ca_target ` set cs) (se_targets env))"
      using dt targets by (subst distinct_length_filter) (simp_all add: Int_absorb2)
    finally show ?thesis
      using sum_length_filter_compl [of "\<lambda>l. l \<in> ca_target ` set cs" "se_targets env"] by simp
  qed
  have canon: "map (\<lambda>t. (at_requirement t, task_kind_value (at_task_kind t), at_target t,
          identity_key (option_source (at_source t)), at_missing_files t))
        (sort_key at_requirement (map ?task ?s))
      = map (\<lambda>(rid, c). (rid, task_kind_value (ca_task_kind c), ca_target c,
          identity_key (option_source (resolve_source c ?n)), map mf_rfilename (ca_missing c)))
        (sort_key fst (pt_assigned ?n))"
  proof -
    have "sort_key at_requirement (map ?task ?s) = map ?task ?s"
      by (rule sort_key_id_if_sorted) (simp add: comp_def)
    then show ?thesis
      by (simp add: nf sort_chosen [OF dist]) (simp add: chosen_def)
  qed
  have pref: "sc_preference (score_partial env ?n) =
      sc_preference (score_assignment (free_of env) (se_targets env) (se_preference env) (to_assignment env ?n))"
  proof (cases "se_preference env")
    case (Some pr)
    let ?ch = "\<lambda>c. moved pr (ca_requirement c) (ca_target c)"
    have 1: "filter (\<lambda>(rid, c). moved pr rid (ca_target c)) (chosen cs) = chosen (filter ?ch cs)"
      by (simp add: chosen_def filter_map comp_def)
    have 2: "filter (\<lambda>t. moved pr (at_requirement t) (at_target t)) (map ?task ?s) = map ?task (sort_key ca_requirement (filter ?ch cs))"
      by (simp add: filter_map comp_def filter_sort)
    have 3: "sum_list (map (cand_durable ?g) (sort_key ca_requirement (filter ?ch cs)))
        = sum_list (map (cand_durable ?g) (filter ?ch cs))"
      by (rule sum_list_sort)
    from Some show ?thesis
      unfolding score_partial_def score_assignment_def Let_def
      by (simp add: task_load_node [OF dist, unfolded ts] ts nf 1 2 3 comp_def) (simp add: chosen_def comp_def)
  qed (simp add: score_partial_def score_assignment_def Let_def)
  show ?thesis
  proof (rule score.equality)
    show "sc_movement (score_partial env ?n) =
        sc_movement (score_assignment (free_of env) (se_targets env) (se_preference env) (to_assignment env ?n))"
      using sum_list_sort [of ca_transfer_bytes ca_requirement cs]
      by (simp add: score_partial_def score_assignment_def Let_def nf ts comp_def)
    show "sc_free_vec (score_partial env ?n) =
        sc_free_vec (score_assignment (free_of env) (se_targets env) (se_preference env) (to_assignment env ?n))"
      by (simp add: score_partial_def score_assignment_def Let_def nf task_load_node task_peak_node dist)
    show "sc_idle (score_partial env ?n) =
        sc_idle (score_assignment (free_of env) (se_targets env) (se_preference env) (to_assignment env ?n))"
      using idle by (simp add: score_partial_def score_assignment_def Let_def ts image_image)
    show "sc_canon (score_partial env ?n) =
        sc_canon (score_assignment (free_of env) (se_targets env) (se_preference env) (to_assignment env ?n))"
      using canon by (simp add: score_partial_def score_assignment_def Let_def ts)
  qed (simp_all add: pref)
qed

section \<open>What the three result kinds mean\<close>

definition solver_ok :: "solver_input \<Rightarrow> bool" where
  "solver_ok inp \<longleftrightarrow> list_all (\<lambda>(rid, cs). list_all (\<lambda>c. ca_requirement c = rid) cs)
     (cs_by_requirement (so_candidates inp))"

lemma cands_for_requirement: "solver_ok inp \<Longrightarrow> c \<in> set (cands_for inp rid) \<Longrightarrow> ca_requirement c = rid"
  by (cases "dict_get (cs_by_requirement (so_candidates inp)) rid")
     (auto simp: cands_for_def solver_ok_def list_all_iff dest!: dict_get_in_set)

lemma make_env_fields [simp]:
  "se_unsat (make_env hsh inp free0) = unsatisfied inp"
  "se_free0 (make_env hsh inp free0) = free0"
  "se_preference (make_env hsh inp free0) = so_preference inp"
  "se_satisfied (make_env hsh inp free0) = satisfied_ids inp"
  "se_guaranteed (make_env hsh inp free0) = guaranteed_mode (so_capacity_mode inp)"
  "se_req (make_env hsh inp free0) = req_by_id inp"
  "se_drive (make_env hsh inp free0) = drive_map inp"
  "set (se_cands (make_env hsh inp free0) rid) = set (cands_for inp rid)"
  "set (se_targets (make_env hsh inp free0)) = (\<Union>rid\<in>set (unsatisfied inp). ca_target ` set (cands_for inp rid))"
  "distinct (se_targets (make_env hsh inp free0))"
  by (auto simp: make_env_def Let_def)

lemma env_ok_make: "solver_ok inp \<Longrightarrow> env_ok (make_env hsh inp free0)"
  by (auto simp: env_ok_def unsatisfied_def dest: cands_for_requirement)

lemma search_loop_no_raise: "search_loop env limit coll (\<lambda>_. False) st \<noteq> Loop_Raised"
proof (induction env limit coll "\<lambda>_ :: nat. False" st rule: search_loop.induct)
  case (1 env limit coll st)
  have nr: "enter limit (\<lambda>_. False) s \<noteq> EnterRaise" for s
    by (simp add: enter_def Let_def)
  show ?case
  proof (subst search_loop.simps, goal_cases)
    case 1
    show ?case
      using "1.hyps" nr
      by (auto simp: Let_def split: list.split entering.split)
  qed
qed

text \<open>The state after the root has been entered.\<close>

definition root_state :: "search_env \<Rightarrow> search_state \<Rightarrow> search_state" where
  "root_state env st0 = st0\<lparr>ss_stack := [expand env (ss_partial st0)]\<rparr>"

lemma root_inv:
  assumes "enter limit mon start_state = EnterOk st0" "se_unsat env \<noteq> []"
  shows "loop_inv env limit (root_state env st0)" "cov_inv env (root_state env st0)"
proof -
  have st0: "st0 = start_state\<lparr>ss_seen := [pt_hash empty_partial], ss_visited := 1\<rparr>" "0 < limit"
    using enter_Ok [OF assms(1)] by (auto simp: start_state_def)
  have inc: "\<not> is_complete env empty_partial"
    using assms(2) by (cases "se_unsat env") (simp_all add: is_complete_def empty_partial_def)
  show "loop_inv env limit (root_state env st0)"
    using st0 by (simp add: loop_inv_def root_state_def start_state_def snaps_ok_def)
  show "cov_inv env (root_state env st0)"
    using inc by (simp add: cov_inv_def root_state_def st0 start_state_def seen_cov_def)
       (intro exI [of _ "[]"], simp)
qed

lemma search_cases:
  assumes "search hsh inp free0 limit coll mon = Some r" "unsatisfied inp \<noteq> []" "solver_ok inp"
    and env: "env = make_env hsh inp free0"
  obtains (empty) "r = \<lparr>sr_kind = Bound_Exhausted, sr_first = None, sr_visited = 0, sr_best = None, sr_best_score = None\<rparr>"
  | (run) ex m where "loop_inv env limit m" "collision_free env \<Longrightarrow> cov_inv env m"
      "ex \<or> ss_stack m = [] \<or> \<not> coll \<and> ss_first m \<noteq> None"
      "sr_visited r = ss_visited m"
      "sr_kind r = (if ex then Bound_Exhausted else if ss_first m \<noteq> None then Found else Infeasible)"
      "sr_first r = map_option (materialize env) (ss_first m)"
      "sr_best r = map_option (materialize env) (ss_best m)" "sr_best_score r = ss_best_score m"
proof (cases "enter limit mon start_state")
  case ok: (EnterOk st0)
  note ri = root_inv [OF ok, of env]
  have eok: "env_ok env" using env_ok_make [OF assms(3)] env by simp
  from assms(1) obtain ex s where fin: "search_loop env limit coll mon (root_state env st0) = Loop_Done ex s"
    and r: "r = (let first = map_option (materialize env) (ss_first s); best = map_option (materialize env) (ss_best s) in
      if ex then \<lparr>sr_kind = Bound_Exhausted, sr_first = first, sr_visited = ss_visited s, sr_best = best,
                  sr_best_score = ss_best_score s\<rparr>
      else if first \<noteq> None then \<lparr>sr_kind = Found, sr_first = first, sr_visited = ss_visited s, sr_best = best,
                  sr_best_score = ss_best_score s\<rparr>
      else \<lparr>sr_kind = Infeasible, sr_first = None, sr_visited = ss_visited s, sr_best = None, sr_best_score = None\<rparr>)"
    using assms(2) ok env
    by (auto simp: search_def Let_def root_state_def split: loop_result.splits if_splits)
  from search_loop_steps [OF fin] obtain m where m: "(search_step env limit mon)\<^sup>*\<^sup>* (root_state env st0) m"
    "same_results s m" "ex \<or> ss_stack m = [] \<or> \<not> coll \<and> ss_first m \<noteq> None" by blast
  have inv: "loop_inv env limit m"
    using loop_inv_steps [OF m(1) eok] ri assms(2) env by simp
  have cov: "cov_inv env m" if "collision_free env"
    using cov_inv_steps [OF m(1) eok that] ri assms(2) env by simp
  have sn: "snaps_ok env m" using inv by (simp add: loop_inv_def)
  show ?thesis
  proof (rule run [OF inv cov m(3)])
    show "sr_visited r = ss_visited m"
      "sr_kind r = (if ex then Bound_Exhausted else if ss_first m \<noteq> None then Found else Infeasible)"
      using m(2) by (simp_all add: r Let_def same_results_def)
    show "sr_first r = map_option (materialize env) (ss_first m)"
      using m(2) by (simp add: r Let_def same_results_def)
    show "sr_best r = map_option (materialize env) (ss_best m)" "sr_best_score r = ss_best_score m"
      using m(2) sn by (auto simp: r Let_def same_results_def snaps_ok_def)
  qed
qed (use assms env in \<open>auto simp: search_def Let_def start_state_def enter_def split: if_splits\<close>)

lemma search_results:
  assumes s: "search hsh inp free0 limit coll mon = Some r" "unsatisfied inp \<noteq> []" "solver_ok inp"
    and env: "env = make_env hsh inp free0"
  shows "sr_visited r \<le> limit"
    "sr_first r = Some a \<Longrightarrow> \<exists>\<pi>. complete_path env \<pi> \<and> a = to_assignment env (node env \<pi>)"
    "sr_best r = Some a \<Longrightarrow> \<exists>\<pi>. complete_path env \<pi> \<and> a = to_assignment env (node env \<pi>)
       \<and> sr_best_score r = Some (score_partial env (node env \<pi>))"
    "sr_kind r = Found \<Longrightarrow> sr_first r \<noteq> None \<and> sr_best r \<noteq> None"
    "sr_kind r = Infeasible \<Longrightarrow> collision_free env \<Longrightarrow> \<not> complete_path env \<pi>"
    "sr_kind r = Found \<Longrightarrow> coll \<Longrightarrow> collision_free env \<Longrightarrow> complete_path env \<pi> \<Longrightarrow>
       \<exists>sc. sr_best_score r = Some sc \<and> score_key sc \<le> path_key env \<pi>"
proof -
  have eok: "env_ok env" using env_ok_make [OF s(3)] env by simp
  have mat: "materialize env (chosen \<pi>) = to_assignment env (node env \<pi>)" if "complete_path env \<pi>" for \<pi>
    using that node_path(4) [OF eok, of \<pi>] by (intro materialize_path) (simp add: complete_path_def)
  have "sr_visited r \<le> limit
    \<and> (sr_first r = Some a \<longrightarrow> (\<exists>\<pi>. complete_path env \<pi> \<and> a = to_assignment env (node env \<pi>)))
    \<and> (sr_best r = Some a \<longrightarrow> (\<exists>\<pi>. complete_path env \<pi> \<and> a = to_assignment env (node env \<pi>)
       \<and> sr_best_score r = Some (score_partial env (node env \<pi>))))
    \<and> (sr_kind r = Found \<longrightarrow> sr_first r \<noteq> None \<and> sr_best r \<noteq> None)
    \<and> (sr_kind r = Infeasible \<longrightarrow> collision_free env \<longrightarrow> \<not> complete_path env \<pi>)
    \<and> (sr_kind r = Found \<longrightarrow> coll \<longrightarrow> collision_free env \<longrightarrow> complete_path env \<pi> \<longrightarrow>
       (\<exists>sc. sr_best_score r = Some sc \<and> score_key sc \<le> path_key env \<pi>))"
    using s env
  proof (cases rule: search_cases)
    case empty
    then show ?thesis by simp
  next
    case (run ex m)
    have sn: "snaps_ok env m" and v: "ss_visited m \<le> limit" using run(1) by (simp_all add: loop_inv_def)
    have rec: "recorded env m \<pi>" if "\<not> ex" "coll \<or> ss_first m = None" "collision_free env" "complete_path env \<pi>" for \<pi>
    proof -
      have "ss_stack m = []" using run(3) that by auto
      with run(2) that have "covered env m []" by (simp add: cov_inv_def)
      with that show ?thesis by (auto simp: covered_def)
    qed
    have 1: "\<exists>\<pi>. complete_path env \<pi> \<and> a = to_assignment env (node env \<pi>)" if "sr_first r = Some a"
    proof -
      from that sn obtain \<pi> where "complete_path env \<pi>" "ss_first m = Some (chosen \<pi>)"
        unfolding run(6) by (auto simp: snaps_ok_def)
      with that mat show ?thesis unfolding run(6) by (intro exI [of _ \<pi>]) simp
    qed
    have 2: "\<exists>\<pi>. complete_path env \<pi> \<and> a = to_assignment env (node env \<pi>)
       \<and> sr_best_score r = Some (score_partial env (node env \<pi>))" if "sr_best r = Some a"
    proof -
      from that sn obtain \<pi> where "complete_path env \<pi>" "ss_best m = Some (chosen \<pi>)"
        "ss_best_score m = Some (score_partial env (node env \<pi>))"
        unfolding run(7) by (auto simp: snaps_ok_def)
      with that mat show ?thesis unfolding run(7,8) by (intro exI [of _ \<pi>]) simp
    qed
    have 3: "sr_first r \<noteq> None \<and> sr_best r \<noteq> None" if "sr_kind r = Found"
      using that sn unfolding run(5,6,7) by (auto simp: snaps_ok_def split: if_splits)
    have 4: "\<not> complete_path env \<pi>" if "sr_kind r = Infeasible" "collision_free env"
    proof
      assume "complete_path env \<pi>"
      moreover have "\<not> ex" "ss_first m = None" using that(1) unfolding run(5) by (auto split: if_splits)
      ultimately have "recorded env m \<pi>" using rec that(2) by blast
      with sn \<open>ss_first m = None\<close> show False by (auto simp: recorded_def snaps_ok_def)
    qed
    have 5: "\<exists>sc. sr_best_score r = Some sc \<and> score_key sc \<le> path_key env \<pi>"
      if "sr_kind r = Found" coll "collision_free env" "complete_path env \<pi>"
    proof -
      have "\<not> ex" using that(1) unfolding run(5) by (auto split: if_splits)
      with rec that have "recorded env m \<pi>" by blast
      then show ?thesis unfolding run(8) by (simp add: recorded_def)
    qed
    show ?thesis using v 1 2 3 4 5 run(4) by simp
  qed
  then show "sr_visited r \<le> limit"
    "sr_first r = Some a \<Longrightarrow> \<exists>\<pi>. complete_path env \<pi> \<and> a = to_assignment env (node env \<pi>)"
    "sr_best r = Some a \<Longrightarrow> \<exists>\<pi>. complete_path env \<pi> \<and> a = to_assignment env (node env \<pi>)
       \<and> sr_best_score r = Some (score_partial env (node env \<pi>))"
    "sr_kind r = Found \<Longrightarrow> sr_first r \<noteq> None \<and> sr_best r \<noteq> None"
    "sr_kind r = Infeasible \<Longrightarrow> collision_free env \<Longrightarrow> \<not> complete_path env \<pi>"
    "sr_kind r = Found \<Longrightarrow> coll \<Longrightarrow> collision_free env \<Longrightarrow> complete_path env \<pi> \<Longrightarrow>
       \<exists>sc. sr_best_score r = Some sc \<and> score_key sc \<le> path_key env \<pi>" by blast+
qed

end
