(* ===== verification/SearchCompare.thy ===== *)
theory SearchCompare
  imports SearchResult
begin

text \<open>
  Two runs of the loop of \<open>_search\<close> side by side. The feasibility search (stop at the first
  complete node) and the improvement search (go on) visit the same nodes up to the first
  complete one, whatever their bounds; and a monitor only watches: it either stops the run at
  one of the visit counts the unwatched run reaches, or leaves it as it is.
\<close>

section \<open>What a run keeps\<close>

lemma search_step_keeps:
  assumes "search_step env limit mon st st'"
  shows "ss_visited st \<le> ss_visited st'" "ss_first st = Some a \<Longrightarrow> ss_first st' = Some a"
proof -
  have rec: "ss_first st2 = Some a \<Longrightarrow> ss_first (record_complete env st2) = Some a" for st2
    by (auto simp: record_complete_def Let_def split: option.split)
  have "ss_visited st \<le> ss_visited st' \<and> (ss_first st = Some a \<longrightarrow> ss_first st' = Some a)"
    using assms by cases (auto dest!: enter_Ok intro!: rec)
  then show "ss_visited st \<le> ss_visited st'" "ss_first st = Some a \<Longrightarrow> ss_first st' = Some a" by blast+
qed

lemma search_loop_keeps:
  assumes "search_loop env limit coll mon st = Loop_Done ex s"
  shows "ss_visited st \<le> ss_visited s" "ss_first st = Some a \<Longrightarrow> ss_first s = Some a"
proof -
  from search_loop_steps [OF assms] obtain m where
    m: "(search_step env limit mon)\<^sup>*\<^sup>* st m" "same_results s m" by blast
  have "ss_visited st \<le> ss_visited m \<and> (ss_first st = Some a \<longrightarrow> ss_first m = Some a)"
    using m(1) by (induction rule: rtranclp_induct) (auto dest: search_step_keeps)
  with m(2) show "ss_visited st \<le> ss_visited s" "ss_first st = Some a \<Longrightarrow> ss_first s = Some a"
    by (simp_all add: same_results_def)
qed

text \<open>Entering a node depends on the bound and the monitor only in whether it is refused.\<close>

lemma enter_skip_iff: "enter limit mon st = EnterSkip \<longleftrightarrow> pt_hash (ss_partial st) \<in> set (ss_seen st)"
  by (simp add: enter_def Let_def)

lemma enter_agree:
  "enter l mon st = EnterOk s \<Longrightarrow> enter l' mon' st = EnterOk s' \<Longrightarrow> s' = s"
  by (auto dest!: enter_Ok)

section \<open>The first complete node\<close>

lemma same_first:
  "search_loop env l True mon st = Loop_Done ex s \<Longrightarrow> search_loop env l' False mon' st = Loop_Done ex' s' \<Longrightarrow>
   ss_first st = None \<Longrightarrow> ss_first s = Some a \<Longrightarrow> ss_first s' = Some b \<Longrightarrow> a = b"
proof (induction env l "True" mon st rule: search_loop.induct)
  case (1 env l mon st)
  note long = "1.prems"(1) [unfolded search_loop.simps [of env l True mon st]]
    and short = "1.prems"(2) [unfolded search_loop.simps [of env l' False mon' st]]
  show ?case
  proof (cases "ss_stack st")
    case Nil
    with long "1.prems"(3,4) show ?thesis by simp
  next
    case stack: (Cons f rest)
    show ?thesis
    proof (cases f)
      case Nil
      show ?thesis
        by (rule "1.hyps"(1) [OF stack Nil]) (use long short "1.prems" stack Nil in simp_all)
    next
      case f: (Cons c cs)
      let ?st1 = "try_candidate env c cs rest st"
      note stk = stack [unfolded f]
      show ?thesis
      proof (cases "enter l mon ?st1")
        case EnterExhaust
        with stk long "1.prems"(3,4) show ?thesis by auto
      next
        case EnterSkip
        then have "enter l' mon' ?st1 = EnterSkip" by (simp add: enter_skip_iff)
        then show ?thesis
          by (intro "1.hyps"(5) [OF stack f refl EnterSkip])
             (use long short "1.prems" stk EnterSkip in simp_all)
      next
        case EnterRaise
        with stk long show ?thesis by simp
      next
        case ok: (EnterOk st2)
        note fields = enter_Ok_fields [OF ok]
        have none: "ss_first st2 = None" using fields(4) "1.prems"(3) by simp
        consider "enter l' mon' ?st1 = EnterExhaust" | "enter l' mon' ?st1 = EnterRaise"
          | "enter l' mon' ?st1 = EnterOk st2"
          using enter_agree [OF ok, of l' mon'] ok by (cases "enter l' mon' ?st1") (auto simp: enter_skip_iff dest: enter_Ok)
        then show ?thesis
        proof cases
          case 1
          with stk short "1.prems"(3,5) show ?thesis by auto
        next
          case 2
          with stk short show ?thesis by simp
        next
          case ok': 3
          show ?thesis
          proof (cases "is_complete env (ss_partial st2)")
            case True
            let ?st3 = "unpush (record_complete env st2)"
            have first: "ss_first ?st3 = Some (pt_assigned (ss_partial st2))"
              using none by (simp add: record_complete_def Let_def)
            have "search_loop env l True mon ?st3 = Loop_Done ex s"
              using long stk ok True by simp
            from search_loop_keeps(2) [OF this first] "1.prems"(4)
            have "a = pt_assigned (ss_partial st2)" by simp
            moreover have "s' = ?st3\<lparr>ss_stack := []\<rparr>"
              using short stk ok' True by simp
            ultimately show ?thesis using first "1.prems"(5) by simp
          next
            case incomplete: False
            show ?thesis
            proof (cases "expand env (ss_partial st2) = []")
              case True
              show ?thesis
                by (rule "1.hyps"(3) [OF stack f refl ok incomplete refl True])
                   (use long short "1.prems" stk ok ok' incomplete True none in \<open>simp_all add: Let_def\<close>)
            next
              case False
              show ?thesis
                by (rule "1.hyps"(4) [OF stack f refl ok incomplete refl False])
                   (use long short "1.prems" stk ok ok' incomplete False none in \<open>simp_all add: Let_def\<close>)
            qed
          qed
        qed
      qed
    qed
  qed
qed


section \<open>A watched run\<close>

text \<open>The watched run is the unwatched one unless the monitor stops one of its visits.\<close>

lemma search_loop_watched:
  "search_loop env l coll no_watch st = Loop_Done ex s \<Longrightarrow> no_watch = (\<lambda>_. False) \<Longrightarrow>
   search_loop env l coll mon st =
     (if \<exists>k. ss_visited st < k \<and> k \<le> ss_visited s \<and> mon k then Loop_Raised else Loop_Done ex s)"
proof (induction env l coll no_watch st rule: search_loop.induct)
  case (1 env l coll no_watch st)
  note free = "1.prems"(1) [unfolded search_loop.simps [of env l coll no_watch st]]
  show ?case
  proof (cases "ss_stack st")
    case Nil
    with free have "s = st" "\<not> ex" by simp_all
    with Nil show ?thesis
      by (auto simp: search_loop.simps [of env l coll mon st])
  next
    case stack: (Cons f rest)
    show ?thesis
    proof (cases f)
      case Nil
      have "search_loop env l coll no_watch (backtrack rest st) = Loop_Done ex s"
        using free stack Nil by simp
      from "1.IH"(1) [OF stack Nil this "1.prems"(2)] show ?thesis
        using stack Nil by (simp add: search_loop.simps [of env l coll mon st])
    next
      case f: (Cons c cs)
      let ?st1 = "try_candidate env c cs rest st"
      note stk = stack [unfolded f]
      show ?thesis
      proof (cases "enter l no_watch ?st1")
        case EnterExhaust
        then have "enter l mon ?st1 = EnterExhaust"
          by (simp add: enter_def Let_def split: if_splits)
        with EnterExhaust stk free show ?thesis
          by (auto simp: search_loop.simps [of env l coll mon st])
      next
        case EnterSkip
        then have skip: "enter l mon ?st1 = EnterSkip" by (simp add: enter_skip_iff)
        have "search_loop env l coll no_watch (unpush ?st1) = Loop_Done ex s"
          using free stk EnterSkip by simp
        from "1.IH"(5) [OF stack f refl EnterSkip this "1.prems"(2)] show ?thesis
          using stk skip by (simp add: search_loop.simps [of env l coll mon st])
      next
        case EnterRaise
        with "1.prems"(2) show ?thesis by (simp add: enter_def Let_def split: if_splits)
      next
        case ok: (EnterOk st2)
        note fields = enter_Ok_fields [OF ok]
        have mon: "enter l mon ?st1 = (if mon (Suc (ss_visited st)) then EnterRaise else EnterOk st2)"
          using ok by (simp add: enter_def Let_def split: if_splits)
        have split: "(\<exists>k. ss_visited st < k \<and> k \<le> ss_visited s \<and> mon k) \<longleftrightarrow>
            mon (Suc (ss_visited st)) \<or> (\<exists>k. ss_visited st2 < k \<and> k \<le> ss_visited s \<and> mon k)"
          if "ss_visited st2 \<le> ss_visited s"
          using that fields(7) by (auto simp: Suc_le_eq) (metis Suc_lessI, metis Suc_lessD)
        have go: "search_loop env l coll mon st =
            (if \<exists>k. ss_visited st < k \<and> k \<le> ss_visited s \<and> mon k then Loop_Raised else Loop_Done ex s)"
          if run: "search_loop env l coll no_watch st3 = Loop_Done ex s"
            and next3: "\<not> mon (Suc (ss_visited st)) \<Longrightarrow>
                search_loop env l coll mon st = search_loop env l coll mon st3"
            and same: "ss_visited st3 = ss_visited st2"
            and IH: "search_loop env l coll mon st3 =
              (if \<exists>k. ss_visited st3 < k \<and> k \<le> ss_visited s \<and> mon k then Loop_Raised else Loop_Done ex s)"
          for st3
        proof (cases "mon (Suc (ss_visited st))")
          case True
          with mon stk split search_loop_keeps(1) [OF run] same show ?thesis
            by (auto simp: search_loop.simps [of env l coll mon st])
        next
          case False
          with split search_loop_keeps(1) [OF run] same show ?thesis
            unfolding next3 [OF False] IH by simp
        qed
        show ?thesis
        proof (cases "is_complete env (ss_partial st2)")
          case True
          let ?st3 = "unpush (record_complete env st2)"
          show ?thesis
          proof (cases coll)
            case coll: True
            have run: "search_loop env l coll no_watch ?st3 = Loop_Done ex s"
              using free stk ok True coll by simp
            show ?thesis
              by (rule go [OF run _ _ "1.IH"(2) [OF stack f refl ok True refl _ run "1.prems"(2)]])
                 (use stk mon True coll in \<open>simp_all add: search_loop.simps [of env l True mon st]\<close>)
          next
            case False
            have "s = ?st3\<lparr>ss_stack := []\<rparr>" "ex = False"
              using free stk ok True False by simp_all
            then show ?thesis
              using stk mon True False fields(7)
              by (auto simp: search_loop.simps [of env l False mon st] le_Suc_eq)
          qed
        next
          case incomplete: False
          show ?thesis
          proof (cases "expand env (ss_partial st2) = []")
            case True
            have run: "search_loop env l coll no_watch (unpush st2) = Loop_Done ex s"
              using free stk ok incomplete True by (simp add: Let_def)
            show ?thesis
              by (rule go [OF run _ _ "1.IH"(3) [OF stack f refl ok incomplete refl True run "1.prems"(2)]])
                 (use stk mon incomplete True in \<open>simp_all add: search_loop.simps [of env l coll mon st] Let_def\<close>)
          next
            case False
            let ?st3 = "descend c (expand env (ss_partial st2)) st2"
            have run: "search_loop env l coll no_watch ?st3 = Loop_Done ex s"
              using free stk ok incomplete False by (simp add: Let_def)
            show ?thesis
              by (rule go [OF run _ _ "1.IH"(4) [OF stack f refl ok incomplete refl False run "1.prems"(2)]])
                 (use stk mon incomplete False in \<open>simp_all add: search_loop.simps [of env l coll mon st] Let_def\<close>)
          qed
        qed
      qed
    qed
  qed
qed

section \<open>Whole searches\<close>

lemma search_watched:
  assumes "unsatisfied inp \<noteq> []" "search hsh inp free0 limit coll (\<lambda>_. False) = Some r"
  shows "search hsh inp free0 limit coll mon =
     (if \<exists>k. 0 < k \<and> k \<le> sr_visited r \<and> mon k then None else Some r)"
proof (cases "enter limit (\<lambda>_. False) start_state")
  case (EnterOk st0)
  let ?env = "make_env hsh inp free0"
  let ?root = "st0\<lparr>ss_stack := [expand ?env (ss_partial st0)]\<rparr>"
  have st0: "ss_visited st0 = 1" using enter_Ok [OF EnterOk] by (simp add: start_state_def)
  have enter: "enter limit mon start_state = (if mon 1 then EnterRaise else EnterOk st0)"
    using EnterOk by (simp add: enter_def Let_def start_state_def split: if_splits)
  obtain ex s where run: "search_loop ?env limit coll (\<lambda>_. False) ?root = Loop_Done ex s"
    using search_loop_no_raise [of ?env limit coll ?root]
    by (cases "search_loop ?env limit coll (\<lambda>_. False) ?root") auto
  have v: "sr_visited r = ss_visited s" "1 \<le> ss_visited s"
    using assms EnterOk run search_loop_keeps(1) [OF run] st0
    by (auto simp: search_def Let_def split: if_splits)
  have any: "(\<exists>k. 0 < k \<and> k \<le> sr_visited r \<and> mon k) \<longleftrightarrow> mon 1 \<or> (\<exists>k. 1 < k \<and> k \<le> ss_visited s \<and> mon k)"
    using v by (auto simp: Suc_le_eq) (metis Suc_lessI One_nat_def, metis Suc_lessD)
  show ?thesis
    unfolding any using assms EnterOk run enter search_loop_watched [OF run refl, of mon] st0
    by (cases "mon 1") (auto simp: search_def Let_def)
qed (use assms in \<open>auto simp: search_def Let_def start_state_def enter_def split: if_splits\<close>)

lemma search_same_first:
  assumes "search hsh inp free0 l True mon = Some r" "search hsh inp free0 l' False mon' = Some r'"
    and "unsatisfied inp \<noteq> []" "sr_first r = Some a" "sr_first r' = Some b"
  shows "a = b"
proof -
  let ?env = "make_env hsh inp free0"
  let ?root = "\<lambda>st0. st0\<lparr>ss_stack := [expand ?env (ss_partial st0)]\<rparr>"
  from assms(1,3,4) obtain st0 ex s where
    1: "enter l mon start_state = EnterOk st0" "search_loop ?env l True mon (?root st0) = Loop_Done ex s"
      "map_option (materialize ?env) (ss_first s) = Some a"
    by (auto simp: search_def Let_def split: entering.splits loop_result.splits if_splits)
  from assms(2,3,5) obtain st1 ex' s' where
    2: "enter l' mon' start_state = EnterOk st1" "search_loop ?env l' False mon' (?root st1) = Loop_Done ex' s'"
      "map_option (materialize ?env) (ss_first s') = Some b"
    by (auto simp: search_def Let_def split: entering.splits loop_result.splits if_splits)
  have "st1 = st0" by (rule enter_agree [OF 1(1) 2(1)])
  moreover have "ss_first (?root st0) = None"
    using enter_Ok_fields(4) [OF 1(1)] by (simp add: start_state_def)
  ultimately have "sa = sb" if "ss_first s = Some sa" "ss_first s' = Some sb" for sa sb
    using same_first [OF 1(2), of l' mon' ex' s' sa sb] 2(2) that by simp
  with 1(3) 2(3) show ?thesis by auto
qed

lemma search_best_first:
  assumes "search hsh inp free0 limit coll mon = Some r" "unsatisfied inp \<noteq> []" "solver_ok inp"
    and "env = make_env hsh inp free0" "sr_best r = Some b"
  shows "\<exists>\<pi> \<rho>. complete_path env \<pi> \<and> complete_path env \<rho> \<and> path_key env \<rho> \<le> path_key env \<pi>
     \<and> sr_first r = Some (to_assignment env (node env \<pi>)) \<and> b = to_assignment env (node env \<rho>)
     \<and> sr_best_score r = Some (score_partial env (node env \<rho>))"
  using assms(1-4)
proof (cases rule: search_cases)
  case empty
  with assms(5) show ?thesis by simp
next
  case (run ex m)
  have mat: "materialize env (chosen \<pi>) = to_assignment env (node env \<pi>)" if "complete_path env \<pi>" for \<pi>
    using that node_path(4) [OF env_ok_make [OF assms(3)], of hsh free0 \<pi>] assms(4)
    by (intro materialize_path) (simp add: complete_path_def)
  have "ss_best m \<noteq> None" using assms(5) run(7) by auto
  moreover have "snaps_ok env m" using run(1) unfolding loop_inv_def by blast
  ultimately have "\<exists>\<pi> \<rho>. complete_path env \<pi> \<and> complete_path env \<rho> \<and> path_key env \<rho> \<le> path_key env \<pi>
      \<and> ss_first m = Some (chosen \<pi>) \<and> ss_best m = Some (chosen \<rho>)
      \<and> ss_best_score m = Some (score_partial env (node env \<rho>))"
    unfolding snaps_ok_def by (elim disjE) simp_all
  then obtain \<pi> \<rho> where c: "complete_path env \<pi>" "complete_path env \<rho>" "path_key env \<rho> \<le> path_key env \<pi>"
    "ss_first m = Some (chosen \<pi>)" "ss_best m = Some (chosen \<rho>)"
    "ss_best_score m = Some (score_partial env (node env \<rho>))"
    by (elim exE conjE)
  have "sr_first r = Some (to_assignment env (node env \<pi>))"
    by (simp only: run(6) c(4) mat [OF c(1)] option.map)
  moreover have "b = to_assignment env (node env \<rho>)"
    using assms(5) by (simp only: run(7) c(5) mat [OF c(2)] option.map option.inject)
  moreover have "sr_best_score r = Some (score_partial env (node env \<rho>))"
    by (simp only: run(8) c(6))
  ultimately show ?thesis using c(1,2,3) by blast
qed

lemma search_best_none:
  assumes "search hsh inp free0 limit coll mon = Some r" "unsatisfied inp \<noteq> []" "solver_ok inp"
    and "sr_best r = None"
  shows "sr_best_score r = None"
  using assms(1-3) refl
proof (cases rule: search_cases)
  case (run ex m)
  have "ss_best m = None" using assms(4) run(7) by simp
  moreover have "snaps_ok (make_env hsh inp free0) m" using run(1) unfolding loop_inv_def by blast
  ultimately show ?thesis unfolding run(8) snaps_ok_def by auto
qed simp

end
