(* ===== verification/GateB.thy ===== *)
theory GateB
  imports SearchCompare
begin

text \<open>
  \<open>modelark/placement.py\<close>, third part: the Gate B ladder \<open>gate_b\<close> over the structural checks
  and the feasibility search, and the bounded improvement \<open>improve\<close>. \<open>None\<close> is a propagating
  \<open>EmergencyResourceLimit\<close>, which only a monitor can cause.
\<close>

section \<open>Gate B\<close>

definition no_monitor :: "nat \<Rightarrow> bool" where
  "no_monitor = (\<lambda>_. False)"

definition unsat_candidate_targets :: "solver_input \<Rightarrow> str list" where
  "unsat_candidate_targets inp =
     sorted_set (concat (map (\<lambda>rid. map ca_target (cands_for inp rid)) (unsatisfied inp)))"

definition evidence_of :: "solver_input \<Rightarrow> str \<Rightarrow> evidence_fact option" where
  "evidence_of inp = dict_get (so_drive_evidence inp)"

definition not_executable :: "solver_input \<Rightarrow> str \<Rightarrow> bool" where
  "not_executable inp l = (case evidence_of inp l of None \<Rightarrow> False | Some e \<Rightarrow> \<not> ef_executable e)"

definition relevant_unknowns :: "solver_input \<Rightarrow> str list" where
  "relevant_unknowns inp = filter (not_executable inp) (unsat_candidate_targets inp)"

definition targets_with_unknown_max :: "solver_input \<Rightarrow> str list" where
  "targets_with_unknown_max inp = filter (\<lambda>l. max_usable inp l = None) (unsat_candidate_targets inp)"

text \<open>The executable budget with every non-executable drive overwritten by zero.\<close>

definition free_map :: "solver_input \<Rightarrow> (str \<times> int) list" where
  "free_map inp = so_executable_budget inp
     @ map (\<lambda>l. (l, 0)) (filter (not_executable inp) (map fst (so_drive_evidence inp)))"

definition optimistic_free :: "solver_input \<Rightarrow> (str \<times> int) list" where
  "optimistic_free inp = free_map inp
     @ List.map_filter (\<lambda>l. map_option (\<lambda>m. (l, m)) (max_usable inp l)) (relevant_unknowns inp)"

definition gate_verdict ::
  "solver_input \<Rightarrow> gate_code \<Rightarrow> assignment option \<Rightarrow> nat \<Rightarrow> str list \<Rightarrow> diagnostics \<Rightarrow> str list
     \<Rightarrow> str option \<Rightarrow> gate_result" where
  "gate_verdict inp code asn visited relevant diag actions message =
     \<lparr>gr_code = code, gr_capacity_mode = so_capacity_mode inp, gr_assignment = asn,
      gr_diagnostics = diag, gr_actions = actions, gr_bounds = so_bounds inp,
      gr_states_visited = visited, gr_relevant_unknown = relevant, gr_message = message\<rparr>"

text \<open>The ladder after a known-budget search that found nothing.\<close>

definition after_infeasible ::
  "(key_part \<Rightarrow> int) \<Rightarrow> solver_input \<Rightarrow> nat \<Rightarrow> gate_result option" where
  "after_infeasible hsh inp visited =
     (let relevant = relevant_unknowns inp; unknown_max = targets_with_unknown_max inp;
          may_help = Some ''known budgets cannot fit; named unknown drives could change the answer'' in
      if relevant = [] \<and> unknown_max = [] then
        Some (gate_verdict inp Infeasible_Under_Admission_Budget None visited []
          (SearchDiagnostics ''known_exhaustive_infeasible'' [] 0)
          [''add_admissible_capacity'', ''trim_selection'', ''change_capacity_mode'']
          (Some ''proven infeasible under known admission budgets; free known capacity may still help''))
      else if unknown_max \<noteq> [] then
        Some (gate_verdict inp Capacity_Evidence_Unknown None visited relevant
          (SearchDiagnostics ''unknown_may_help'' (sorted_set (relevant @ unknown_max)) 0)
          [''mount_or_reconcile_drive'', ''retry_preview''] may_help)
      else
        (case search hsh inp (optimistic_free inp) (sb_feasibility_state_limit (so_bounds inp)) False no_monitor of
           None \<Rightarrow> None
         | Some o' \<Rightarrow>
            (let total_visited = visited + sr_visited o' in
             Some (case sr_kind o' of
               Found \<Rightarrow> gate_verdict inp Capacity_Evidence_Unknown None total_visited relevant
                 (SearchDiagnostics ''unknown_may_help'' relevant 0)
                 [''mount_or_reconcile_drive'', ''retry_preview''] may_help
             | Bound_Exhausted \<Rightarrow> gate_verdict inp Packing_Inconclusive None total_visited relevant
                 (SearchDiagnostics ''optimistic_state_limit'' relevant (sr_visited o'))
                 [''retry_higher_bound'', ''mount_or_reconcile_drive'', ''trim_selection''] None
             | Infeasible \<Rightarrow> gate_verdict inp Infeasible_With_Unknown_At_Usable_Max None total_visited relevant
                 (SearchDiagnostics ''optimistic_exhaustive_infeasible'' relevant 0)
                 [''free_known_capacity'', ''add_capacity'', ''trim_selection'', ''change_hard_constraints'']
                 (Some ''resolving unknown evidence alone cannot help; freeing known capacity may still help'')))))"

definition gate_b :: "(key_part \<Rightarrow> int) \<Rightarrow> solver_input \<Rightarrow> gate_result option" where
  "gate_b hsh inp =
     (case structural inp of
        Some r \<Rightarrow> Some r
      | None \<Rightarrow>
         (case search hsh inp (free_map inp) (sb_feasibility_state_limit (so_bounds inp)) False no_monitor of
            None \<Rightarrow> None
          | Some r \<Rightarrow>
             (case sr_kind r of
                Found \<Rightarrow> Some (gate_verdict inp Feasible (sr_first r) (sr_visited r) [] NoDiagnostics [] None)
              | Bound_Exhausted \<Rightarrow> Some (gate_verdict inp Packing_Inconclusive None (sr_visited r)
                  (relevant_unknowns inp) (SearchDiagnostics ''feasibility_state_limit'' [] (sr_visited r))
                  [''retry_higher_bound'', ''trim_selection''] None)
              | Infeasible \<Rightarrow> after_infeasible hsh inp (sr_visited r))))"

section \<open>Improvement\<close>

datatype derivation_mode = Optimized | State_Truncated | Canonical_Fallback

record placement_result =
  pr_assignment :: assignment
  pr_derivation_mode :: derivation_mode
  pr_diagnostic :: "str option"
  pr_score :: score
  pr_capacity_mode :: str
  pr_bounds :: solver_bounds
  pr_states_visited :: nat

text \<open>The score \<open>improve\<close> gives an assignment: over the candidate targets, or all drives without any.\<close>

definition placement_score :: "solver_input \<Rightarrow> assignment \<Rightarrow> score" where
  "placement_score inp a =
     (let targets = (if unsat_candidate_targets inp = [] then sorted_set (map fst (free_map inp))
                     else unsat_candidate_targets inp);
          free = (\<lambda>l. case dict_get (free_map inp) l of None \<Rightarrow> 0 | Some n \<Rightarrow> n) in
      score_assignment free targets (so_preference inp) a)"

definition improve ::
  "(key_part \<Rightarrow> int) \<Rightarrow> solver_input \<Rightarrow> assignment \<Rightarrow> (nat \<Rightarrow> bool) \<Rightarrow> placement_result" where
  "improve hsh inp first_feasible monitor =
     (let first_score = placement_score inp first_feasible;
          result = (\<lambda>asn mode diag sc visited.
             \<lparr>pr_assignment = asn, pr_derivation_mode = mode, pr_diagnostic = diag, pr_score = sc,
              pr_capacity_mode = so_capacity_mode inp, pr_bounds = so_bounds inp,
              pr_states_visited = visited\<rparr>) in
      case search hsh inp (free_map inp) (sb_optimization_state_limit (so_bounds inp)) True monitor of
        None \<Rightarrow> result first_feasible Canonical_Fallback (Some ''optimization_resource_exhausted'') first_score 0
      | Some r \<Rightarrow>
         (let asn = (case sr_best r of None \<Rightarrow> first_feasible | Some b \<Rightarrow> b);
              sc = (case sr_best_score r of None \<Rightarrow> first_score | Some s \<Rightarrow> s) in
          if sr_kind r = Bound_Exhausted
          then result asn State_Truncated (Some ''optimization_truncated'') sc (sr_visited r)
          else result asn Optimized None sc (sr_visited r)))"

section \<open>What a valid assignment is\<close>

definition budget_of :: "solver_input \<Rightarrow> str \<Rightarrow> int" where
  "budget_of inp l = (case dict_get (free_map inp) l of None \<Rightarrow> 0 | Some n \<Rightarrow> n)"

definition task_separated :: "solver_input \<Rightarrow> assignment_task \<Rightarrow> bool" where
  "task_separated inp t =
     (case req_by_id inp (at_requirement t) of
        None \<Rightarrow> True
      | Some req \<Rightarrow> rq_kind req \<noteq> PROTECTED_REPLICA
          \<or> (case at_source t of
               None \<Rightarrow> True
             | Some s \<Rightarrow> (case (drive_map inp (si_drive s), drive_map inp (at_target t)) of
                   (Some hdr, Some rdr) \<Rightarrow> \<not> same_failure_domain hdr rdr
                 | _ \<Rightarrow> True)))"

text \<open>The source a task names is its candidate's, or the assigned home without content evidence.\<close>

definition source_agrees :: "source_identity option \<Rightarrow> copy_source \<Rightarrow> bool" where
  "source_agrees source from =
     (case from of
        FromHome s \<Rightarrow> source = Some s
      | PendingHome _ \<Rightarrow> (case source of
            None \<Rightarrow> True
          | Some x \<Rightarrow> si_annex_key x = None \<and> si_orig_sha256 x = None)
      | NoSource \<Rightarrow> source = None)"

definition task_from :: "bool \<Rightarrow> assignment_task \<Rightarrow> candidate \<Rightarrow> bool" where
  "task_from g t c \<longleftrightarrow> at_target t = ca_target c \<and> at_task_kind t = ca_task_kind c
     \<and> source_agrees (at_source t) (ca_source c)
     \<and> at_durable t = cand_durable g c \<and> at_workspace t = cand_workspace g c
     \<and> at_missing_files t = map mf_rfilename (ca_missing c)"

definition assignment_ok :: "solver_input \<Rightarrow> assignment \<Rightarrow> bool" where
  "assignment_ok inp a \<longleftrightarrow>
     (let ts = an_tasks a in
      distinct (map at_requirement ts) \<and> set (map at_requirement ts) = set (unsatisfied inp)
      \<and> list_all (\<lambda>t. list_ex (task_from (guaranteed_mode (so_capacity_mode inp)) t) (cands_for inp (at_requirement t))
          \<and> task_load at_durable ts (at_target t) + task_peak ts (at_target t) \<le> budget_of inp (at_target t)
          \<and> task_separated inp t) ts)"

lemma dict_get_append: "dict_get (xs @ ys) k = (case dict_get ys k of None \<Rightarrow> dict_get xs k | Some v \<Rightarrow> Some v)"
  by (cases "map_of (rev ys) k") (simp_all add: dict_get_def map_add_def)

text \<open>An unproven drive contributes no budget.\<close>

lemma budget_not_executable: "not_executable inp l \<Longrightarrow> budget_of inp l = 0"
proof -
  assume ne: "not_executable inp l"
  let ?z = "map (\<lambda>l. (l, 0 :: int)) (filter (not_executable inp) (map fst (so_drive_evidence inp)))"
  have "l \<in> set (map fst (so_drive_evidence inp))"
  proof -
    obtain e where "dict_get (so_drive_evidence inp) l = Some e"
      using ne by (cases "dict_get (so_drive_evidence inp) l") (simp_all add: not_executable_def evidence_of_def)
    from dict_get_in_set [OF this] show ?thesis by force
  qed
  with ne have "l \<in> set (filter (not_executable inp) (map fst (so_drive_evidence inp)))" by simp
  then have "l \<in> set (map fst ?z)" by (simp only: map_fst_key list.map_ident)
  then have "l \<in> fst ` set ?z" by (simp only: set_map)
  from dict_get_Some_of_mem [OF this] obtain v where v: "dict_get ?z l = Some v" ..
  have "(l, v) \<in> set ?z" using v by (rule dict_get_in_set)
  then have "v = 0" by (auto simp only: set_map Pair_inject)
  with v show ?thesis by (simp only: budget_of_def free_map_def dict_get_append option.case)
qed

lemma free_of_make: "free_of (make_env hsh inp (free_map inp)) l = budget_of inp l"
  by (simp add: free_of_def budget_of_def)

lemma source_agrees_resolve: "source_agrees (resolve_source c p) (ca_source c)"
  by (simp add: source_agrees_def resolve_source_def split: copy_source.split option.split)

lemma complete_assignment_ok:
  assumes ok: "solver_ok inp" and env: "env = make_env hsh inp (free_map inp)" and c: "complete_path env \<pi>"
  shows "assignment_ok inp (to_assignment env (node env \<pi>))"
proof -
  have eok: "env_ok env" using env_ok_make [OF ok] env by simp
  have tp: "tree_path env \<pi>" using c by (simp add: complete_path_def)
  note dist = node_path(4) [OF eok tp] and ids = complete_assigned(1) [OF eok c]
  let ?a = "to_assignment env (node env \<pi>)" and ?g = "guaranteed_mode (so_capacity_mode inp)"
  note ts = tasks_of_node [OF dist, of env]
  have g: "se_guaranteed env = ?g" by (simp add: env)
  have task: "list_ex (task_from ?g t) (cands_for inp (at_requirement t))
      \<and> task_load at_durable (an_tasks ?a) (at_target t) + task_peak (an_tasks ?a) (at_target t) \<le> budget_of inp (at_target t)
      \<and> task_separated inp t" if t: "t \<in> set (an_tasks ?a)" for t
  proof -
    from t obtain d where d: "d \<in> set \<pi>" "t = task_of ?g (node env \<pi>) (ca_requirement d, d)"
      by (auto simp: ts g)
    note pc = path_checks [OF eok tp d(1)]
    have "d \<in> set (cands_for inp (ca_requirement d))" using pc(1) env by simp
    then have 1: "list_ex (task_from ?g t) (cands_for inp (at_requirement t))"
      using d(2) source_agrees_resolve by (auto simp: list_ex_iff task_from_def)
    have 2: "task_load at_durable (an_tasks ?a) (at_target t) + task_peak (an_tasks ?a) (at_target t) \<le> budget_of inp (at_target t)"
      using pc(2) d(2) by (simp add: task_load_node [OF dist] task_peak_node [OF dist] node_fields [OF dist] env free_of_make)
    have 3: "task_separated inp t"
    proof (cases "req_by_id inp (ca_requirement d)")
      case (Some req)
      have "home_drive d (node env \<pi>) = map_option si_drive (resolve_source d (node env \<pi>))"
        by (cases "ca_source d") (auto simp: home_drive_def resolve_source_def split: option.split)
      then show ?thesis
        using pc(3) Some d(2) env
        by (cases "resolve_source d (node env \<pi>)"; cases "drive_map inp (ca_target d)")
           (auto simp: task_separated_def domain_ok_def split: option.splits)
    qed (simp add: task_separated_def d(2))
    from 1 2 3 show ?thesis by blast
  qed
  have "map at_requirement (an_tasks ?a) = map ca_requirement (sort_key ca_requirement \<pi>)"
    by (simp add: ts comp_def)
  moreover have "distinct (map ca_requirement (sort_key ca_requirement \<pi>))"
    using dist by (simp add: distinct_map)
  ultimately have "distinct (map at_requirement (an_tasks ?a))"
    "set (map at_requirement (an_tasks ?a)) = set (unsatisfied inp)"
    using ids env by simp_all
  with task show ?thesis
    by (simp add: assignment_ok_def Let_def list_all_iff)
qed

lemma empty_assignment_ok: "unsatisfied inp = [] \<Longrightarrow> assignment_ok inp (to_assignment env empty_partial)"
  by (simp add: assignment_ok_def to_assignment_def empty_partial_def)

section \<open>The search never fails without a monitor\<close>

lemma enter_no_raise: "enter limit no_monitor st \<noteq> EnterRaise"
  by (simp add: enter_def no_monitor_def Let_def)

lemma search_total: "\<exists>r. search hsh inp free0 limit coll no_monitor = Some r"
proof (cases "enter limit no_monitor start_state")
  case (EnterOk st0)
  obtain ex s where "search_loop (make_env hsh inp free0) limit coll no_monitor
      (st0\<lparr>ss_stack := [expand (make_env hsh inp free0) (ss_partial st0)]\<rparr>) = Loop_Done ex s"
    using search_loop_no_raise [of "make_env hsh inp free0" limit coll] unfolding no_monitor_def
    by (metis loop_result.exhaust)
  with EnterOk show ?thesis by (simp add: search_def Let_def)
qed (use enter_no_raise in \<open>auto simp: search_def Let_def\<close>)

lemma search_visited: "solver_ok inp \<Longrightarrow> search hsh inp free0 limit coll mon = Some r \<Longrightarrow> sr_visited r \<le> max 1 limit"
proof (cases "unsatisfied inp = []")
  case True
  then show "search hsh inp free0 limit coll mon = Some r \<Longrightarrow> ?thesis"
    by (auto simp: search_def Let_def)
next
  case False
  then show "solver_ok inp \<Longrightarrow> search hsh inp free0 limit coll mon = Some r \<Longrightarrow> ?thesis"
    using search_results(1) [of hsh inp free0 limit coll mon r] by fastforce
qed

text \<open>A search that found something found a valid assignment for the known budgets.\<close>

lemma search_found_ok:
  assumes "solver_ok inp" "search hsh inp (free_map inp) limit coll mon = Some r"
  shows "sr_kind r = Found \<Longrightarrow> \<exists>a. sr_first r = Some a \<and> assignment_ok inp a"
    "sr_best r = Some a \<Longrightarrow> assignment_ok inp a"
proof -
  have "(sr_kind r = Found \<longrightarrow> (\<exists>a. sr_first r = Some a \<and> assignment_ok inp a))
      \<and> (sr_best r = Some a \<longrightarrow> assignment_ok inp a)"
  proof (cases "unsatisfied inp = []")
    case True
    then show ?thesis
      using assms(2) empty_assignment_ok by (auto simp: search_def Let_def)
  next
    case False
    note res = search_results [OF assms(2) False assms(1) refl]
    show ?thesis
      using res(2,3,4) complete_assignment_ok [OF assms(1) refl] by (metis option.exhaust)
  qed
  then show "sr_kind r = Found \<Longrightarrow> \<exists>a. sr_first r = Some a \<and> assignment_ok inp a"
    "sr_best r = Some a \<Longrightarrow> assignment_ok inp a" by blast+
qed

lemma search_infeasible:
  assumes "solver_ok inp" "search hsh inp free0 limit coll mon = Some r" "sr_kind r = Infeasible"
    and "env = make_env hsh inp free0" "collision_free env" "cands_wf env" "deps_ranked env rank"
  shows "\<not> feasible_choice env cs"
proof (cases "unsatisfied inp = []")
  case True
  then show ?thesis using assms(2,3) by (auto simp: search_def Let_def)
next
  case False
  show ?thesis
    using search_results(5) [OF assms(2) False assms(1,4,3,5)]
      feasible_complete [OF _ assms(6,7)] env_ok_make [OF assms(1)] assms(4) by blast
qed

lemma structural_result_code: "gr_code (structural_result inp code d acts) = code"
  by (simp add: structural_result_def)

lemma first_some_Some: "first_some f xs = Some y \<Longrightarrow> \<exists>x\<in>set xs. f x = Some y"
  by (induction xs) (auto split: option.splits)

lemma structural_codes:
  assumes "structural inp = Some r"
  shows "gr_code r \<in> {Target_Tier_Missing, Unproven_Provenance, Graph_Dependency_Invariant,
     Failure_Domain_Unsatisfiable, Requirement_Exceeds_Usable_Max} \<and> gr_states_visited r = 0"
proof -
  have cyc: "gr_code x = Graph_Dependency_Invariant \<and> gr_states_visited x = 0"
    if "check_cycles inp rs seen = Some x" for rs seen x
    using that by (induction inp rs seen rule: check_cycles.induct)
      (auto simp: structural_result_def split: prod.splits bool.splits)
  from assms consider r' where "check_blocked inp r' = Some r"
    | ids r' where "check_dependency inp ids r' = Some r"
    | rs where "check_cycles inp rs [] = Some r"
    | ids r' where "check_domain inp ids r' = Some r"
    | r' where "check_exceeds inp r' = Some r"
    by (auto simp: structural_def Let_def or_else_def split: option.splits dest!: first_some_Some)
  then show ?thesis
  proof cases
    case 1
    then show ?thesis
      by (cases "blocked_reason inp (rq_id r')") (auto simp: check_blocked_def structural_result_def split: if_splits)
  next
    case 2
    then show ?thesis
      by (cases "rq_independent_of r'") (auto simp: check_dependency_def structural_result_def split: if_splits)
  next
    case 3
    then show ?thesis using cyc by simp
  next
    case 4
    then show ?thesis
      by (auto simp: check_domain_def structural_result_def Let_def split: if_splits option.splits)
  next
    case 5
    then show ?thesis
      by (auto simp: check_exceeds_def structural_result_def Let_def split: if_splits)
  qed
qed

lemma gate_b_found:
  assumes "solver_ok inp" and "gate_b hsh inp = Some r" and "gr_code r = Feasible"
  shows "structural inp = None \<and> (\<exists>a. gr_assignment r = Some a \<and> assignment_ok inp a)"
proof -
  have st: "structural inp = None"
  proof (cases "structural inp")
    case (Some s)
    with assms(2,3) structural_codes [OF Some] show ?thesis by (auto simp: gate_b_def)
  qed
  obtain sr where sr: "search hsh inp (free_map inp) (sb_feasibility_state_limit (so_bounds inp)) False no_monitor = Some sr"
    using search_total by blast
  have "sr_kind sr = Found" "gr_assignment r = sr_first sr"
    using assms(2,3) st sr
    by (cases "sr_kind sr"; force simp: gate_b_def after_infeasible_def gate_verdict_def Let_def
        split: if_splits option.splits search_kind.splits)+
  with st search_found_ok(1) [OF assms(1) sr] show ?thesis by simp
qed

lemma improve_valid:
  assumes "solver_ok inp" and "assignment_ok inp first_feasible"
  shows "assignment_ok inp (pr_assignment (improve hsh inp first_feasible monitor))"
proof (cases "search hsh inp (free_map inp) (sb_optimization_state_limit (so_bounds inp)) True monitor")
  case None
  with assms(2) show ?thesis by (simp add: improve_def Let_def)
next
  case (Some sr)
  with search_found_ok(2) [OF assms(1) Some] assms(2) show ?thesis
    by (auto simp: improve_def Let_def split: option.split)
qed

lemma gate_b_search:
  assumes "gate_b hsh inp = Some r" "gr_code r = Feasible" "gr_assignment r = Some a"
  shows "\<exists>s. search hsh inp (free_map inp) (sb_feasibility_state_limit (so_bounds inp)) False no_monitor = Some s
     \<and> sr_first s = Some a"
proof -
  have st: "structural inp = None"
  proof (cases "structural inp")
    case (Some s)
    with assms(1,2) structural_codes [OF Some] show ?thesis by (auto simp: gate_b_def)
  qed
  obtain sr where sr: "search hsh inp (free_map inp) (sb_feasibility_state_limit (so_bounds inp)) False no_monitor = Some sr"
    using search_total by blast
  have "gr_assignment r = sr_first sr"
    using assms(1,2) st sr
    by (cases "sr_kind sr"; force simp: gate_b_def after_infeasible_def gate_verdict_def Let_def
        split: if_splits option.splits search_kind.splits)
  with sr assms(3) show ?thesis by simp
qed

lemma free_of_make_env:
  "free_of (make_env hsh inp free0) = (\<lambda>l. case dict_get free0 l of None \<Rightarrow> 0 | Some n \<Rightarrow> n)"
  by (simp add: fun_eq_iff free_of_def)

text \<open>The running score of a complete path is the score of its assignment, as \<open>improve\<close> takes it.\<close>

lemma complete_path_score_env:
  assumes "solver_ok inp" "unsatisfied inp \<noteq> []" "env = make_env hsh inp (free_map inp)" "complete_path env \<pi>"
  shows "score_partial env (node env \<pi>) =
      score_assignment (free_of env) (se_targets env) (so_preference inp) (to_assignment env (node env \<pi>))"
    "se_targets env \<noteq> []"
proof -
  have eok: "env_ok env" using env_ok_make [OF assms(1)] assms(3) by simp
  have tp: "tree_path env \<pi>" using assms(4) by (simp add: complete_path_def)
  note dist = node_path(4) [OF eok tp]
  have sub: "ca_target ` set \<pi> \<subseteq> set (se_targets env)"
    using path_checks(1) [OF eok tp] node_path(5) [OF eok tp] by (force simp: assms(3))
  have "distinct (se_targets env)" "se_preference env = so_preference inp" by (simp_all add: assms(3))
  then show "score_partial env (node env \<pi>) =
      score_assignment (free_of env) (se_targets env) (so_preference inp) (to_assignment env (node env \<pi>))"
    using score_node [OF dist sub] by simp
  show "se_targets env \<noteq> []"
    using sub complete_assigned(1) [OF eok assms(4)] assms(2,3) by (cases "se_targets env"; cases \<pi>) auto
qed

lemma complete_path_score:
  assumes "solver_ok inp" "unsatisfied inp \<noteq> []" "env = make_env hsh inp (free_map inp)" "complete_path env \<pi>"
  shows "score_partial env (node env \<pi>) = placement_score inp (to_assignment env (node env \<pi>))"
proof -
  have "se_targets env = unsat_candidate_targets inp"
    by (simp add: assms(3) make_env_def unsat_candidate_targets_def Let_def)
  moreover have "free_of env = (\<lambda>l. case dict_get (free_map inp) l of None \<Rightarrow> 0 | Some n \<Rightarrow> n)"
    by (simp only: free_of_make_env assms(3))
  ultimately show ?thesis
    using complete_path_score_env [OF assms] by (simp add: placement_score_def Let_def)
qed

text \<open>The best assignment of an improvement run against the first one of a feasibility run.\<close>

lemma best_bounded:
  assumes "solver_ok inp"
    and "\<exists>s. search hsh inp (free_map inp) l False mon = Some s \<and> sr_first s = Some a"
    and "search hsh inp (free_map inp) l' True mon' = Some r"
  shows "(sr_best r = None \<and> sr_best_score r = None)
    \<or> (\<exists>b. sr_best r = Some b \<and> sr_best_score r = Some (placement_score inp b)
        \<and> score_key (placement_score inp b) \<le> score_key (placement_score inp a))"
proof (cases "unsatisfied inp = []")
  case True
  then have "unsat_candidate_targets inp = []"
    by (simp add: unsat_candidate_targets_def sorted_set_def)
  with True assms(2,3) show ?thesis
    by (auto simp: search_def Let_def placement_score_def free_of_make_env)
next
  case False
  let ?env = "make_env hsh inp (free_map inp)"
  obtain s where s: "search hsh inp (free_map inp) l False mon = Some s" "sr_first s = Some a"
    using assms(2) by blast
  show ?thesis
  proof (cases "sr_best r")
    case None
    with search_best_none [OF assms(3) False assms(1)] show ?thesis by simp
  next
    case (Some b)
    from search_best_first [OF assms(3) False assms(1) refl Some] obtain \<pi> \<rho> where
      p: "complete_path ?env \<pi>" "complete_path ?env \<rho>" "path_key ?env \<rho> \<le> path_key ?env \<pi>"
      "sr_first r = Some (to_assignment ?env (node ?env \<pi>))" "b = to_assignment ?env (node ?env \<rho>)"
      "sr_best_score r = Some (score_partial ?env (node ?env \<rho>))" by blast
    have "a = to_assignment ?env (node ?env \<pi>)"
      using search_same_first [OF assms(3) s(1) False p(4) s(2)] by simp
    with p(3) have "score_key (placement_score inp b) \<le> score_key (placement_score inp a)"
      unfolding path_key_def p(5)
      by (simp only: complete_path_score [OF assms(1) False refl p(1)] complete_path_score [OF assms(1) False refl p(2)])
    then show ?thesis
      using Some p(5,6) complete_path_score [OF assms(1) False refl p(2)] by simp
  qed
qed

section \<open>Enumerating a search tree\<close>

text \<open>All paths of at most \<open>n\<close> choices; used to establish \<open>collision_free\<close> on an input.\<close>

fun paths_upto :: "search_env \<Rightarrow> nat \<Rightarrow> partial \<Rightarrow> candidate list list" where
  "paths_upto env 0 p = [[]]"
| "paths_upto env (Suc n) p =
     [] # concat (map (\<lambda>c. map (\<lambda>cs. c # cs) (paths_upto env n (push env c p))) (expand env p))"

lemma paths_upto_complete: "path_from env p cs \<Longrightarrow> length cs \<le> n \<Longrightarrow> cs \<in> set (paths_upto env n p)"
proof (induction cs arbitrary: p n)
  case (Cons c cs)
  then obtain m where "n = Suc m" "length cs \<le> m" by (cases n) auto
  with Cons show ?case by auto
qed (case_tac n; simp)

lemma tree_path_length: "env_ok env \<Longrightarrow> tree_path env cs \<Longrightarrow> length cs \<le> length (se_unsat env)"
proof -
  assume a: "env_ok env" "tree_path env cs"
  have "length cs = card (set (map ca_requirement cs))"
    using node_path(4) [OF a] by (metis distinct_card length_map)
  also have "\<dots> \<le> card (set (se_unsat env))"
    using node_path(5) [OF a] by (intro card_mono) auto
  also have "\<dots> \<le> length (se_unsat env)" by (rule card_length)
  finally show ?thesis .
qed

lemma collision_free_enum:
  assumes "env_ok env"
    and "distinct (map (\<lambda>cs. pt_hash (node env cs)) (paths_upto env (length (se_unsat env)) empty_partial))"
  shows "collision_free env"
  unfolding collision_free_def
proof (intro allI impI, elim conjE)
  fix \<pi> \<rho> assume p: "tree_path env \<pi>" "tree_path env \<rho>" and eq: "pt_hash (node env \<pi>) = pt_hash (node env \<rho>)"
  have "\<pi> \<in> set (paths_upto env (length (se_unsat env)) empty_partial)"
    "\<rho> \<in> set (paths_upto env (length (se_unsat env)) empty_partial)"
    using p tree_path_length [OF assms(1)] by (auto intro: paths_upto_complete)
  with eq assms(2) show "\<pi> = \<rho>" by (auto simp: distinct_map dest: inj_onD)
qed

section \<open>Properties\<close>

text \<open>
  Backtracking is exact: popping the last candidate restores the search node it was pushed
  on, field by field, whatever the loads, hashes and usage counts were.
\<close>

theorem pop_undoes_push:
  assumes "partial_ok p" and "fresh_for c p"
  shows "pop (push env c p) = p"
  using assms by (rule undo.pop_push)

text \<open>
  C30: The incremental score the search compares is the score of the assignment it stands for:
  for every complete path, the score read off the running totals equals the reference score
  recomputed from the materialised tasks.
\<close>

theorem score_partial_exact:
  assumes "env = make_env hsh inp free0" and "solver_ok inp" and "complete_path env \<pi>"
  shows "score_partial env (node env \<pi>) =
     score_assignment (free_of env) (se_targets env) (so_preference inp) (materialize env (chosen \<pi>))"
proof -
  have eok: "env_ok env" using env_ok_make [OF assms(2)] assms(1) by simp
  have tp: "tree_path env \<pi>" using assms(3) by (simp add: complete_path_def)
  note dist = node_path(4) [OF eok tp]
  have "ca_target ` set \<pi> \<subseteq> set (se_targets env)"
  proof
    fix l assume "l \<in> ca_target ` set \<pi>"
    then obtain c where c: "c \<in> set \<pi>" "l = ca_target c" by auto
    with path_checks(1) [OF eok tp c(1)] node_path(5) [OF eok tp]
    show "l \<in> set (se_targets env)" by (auto simp: assms(1))
  qed
  then show ?thesis
    using score_node [OF dist] by (simp add: materialize_path [OF dist] assms(1))
qed

text \<open>
  C1: A FEASIBLE verdict is sound: it comes with an assignment that covers exactly the
  unsatisfied requirements, each by one of its own candidates and from its source; every target drive holds the
  durable bytes plus the largest workspace within its executable budget, which is zero for a
  drive without executable evidence; and every replica is outside its home's failure domain.
\<close>

theorem gate_b_feasible_sound:
  assumes "solver_ok inp" and "gate_b hsh inp = Some r" and "gr_code r = Feasible"
  shows "structural inp = None \<and> (\<exists>a. gr_assignment r = Some a \<and> assignment_ok inp a)"
  using assms by (rule gate_b_found)

text \<open>
  C2: An infeasibility verdict is a proof: when state keys do not collide, budgets are not
  negative and dependencies are acyclic, INFEASIBLE_UNDER_ADMISSION_BUDGET means that no choice
  of candidates fits the known budgets.
\<close>

theorem gate_b_infeasible_proof:
  assumes "solver_ok inp" and "gate_b hsh inp = Some r" and "gr_code r = Infeasible_Under_Admission_Budget"
    and "env = make_env hsh inp (free_map inp)" and "collision_free env" and "cands_wf env"
    and "deps_ranked env rank"
  shows "\<not> feasible_choice env cs"
proof -
  have st: "structural inp = None"
  proof (cases "structural inp")
    case (Some s)
    with assms(2,3) structural_codes [OF Some] show ?thesis by (auto simp: gate_b_def)
  qed
  obtain sr where sr: "search hsh inp (free_map inp) (sb_feasibility_state_limit (so_bounds inp)) False no_monitor = Some sr"
    using search_total by blast
  have "sr_kind sr = Infeasible"
    using assms(2,3) st sr
    by (cases "sr_kind sr") (auto simp: gate_b_def gate_verdict_def)
  from search_infeasible [OF assms(1) sr this assms(4-7)] show ?thesis .
qed

text \<open>
  C31: Gate B always answers within its bounds: it returns a result, and the two searches it
  may run visit at most the feasibility state limit each.
\<close>

theorem gate_b_bounded:
  assumes "solver_ok inp"
  shows "\<exists>r. gate_b hsh inp = Some r
     \<and> gr_states_visited r \<le> 2 * max 1 (sb_feasibility_state_limit (so_bounds inp))"
proof -
  let ?lim = "sb_feasibility_state_limit (so_bounds inp)"
  obtain s1 where s1: "search hsh inp (free_map inp) ?lim False no_monitor = Some s1" using search_total by blast
  obtain s2 where s2: "search hsh inp (optimistic_free inp) ?lim False no_monitor = Some s2" using search_total by blast
  note v = search_visited [OF assms s1] search_visited [OF assms s2]
  show ?thesis
  proof (cases "structural inp")
    case (Some r)
    with structural_codes [OF Some] show ?thesis by (simp add: gate_b_def)
  next
    case None
    have "\<exists>r. after_infeasible hsh inp (sr_visited s1) = Some r \<and> gr_states_visited r \<le> 2 * max 1 ?lim"
      using v s2 by (auto simp: after_infeasible_def gate_verdict_def Let_def split: search_kind.split)
    with None s1 v(1) show ?thesis
      by (cases "sr_kind s1") (auto simp: gate_b_def gate_verdict_def)
  qed
qed

text \<open>
  C3: A fully explored improvement is optimal: when state keys do not collide, an OPTIMIZED
  result is a valid assignment, the score it reports is the reference score of that very
  assignment, and its key is at most that of every feasible choice.
\<close>

theorem improve_optimal:
  assumes "solver_ok inp" and "unsatisfied inp \<noteq> []" and "assignment_ok inp first_feasible"
    and "pr_derivation_mode (improve hsh inp first_feasible monitor) = Optimized"
    and "env = make_env hsh inp (free_map inp)" and "collision_free env" and "cands_wf env"
    and "deps_ranked env rank" and "feasible_choice env cs"
  shows "assignment_ok inp (pr_assignment (improve hsh inp first_feasible monitor))
    \<and> pr_score (improve hsh inp first_feasible monitor) = score_assignment (free_of env) (se_targets env)
        (so_preference inp) (pr_assignment (improve hsh inp first_feasible monitor))
    \<and> score_key (pr_score (improve hsh inp first_feasible monitor))
        \<le> score_key (score_assignment (free_of env) (se_targets env) (so_preference inp)
             (materialize env (chosen cs)))"
proof -
  let ?lim = "sb_optimization_state_limit (so_bounds inp)"
  have eok: "env_ok env" using env_ok_make [OF assms(1)] assms(5) by simp
  obtain sr where sr: "search hsh inp (free_map inp) ?lim True monitor = Some sr"
    using assms(4) by (cases "search hsh inp (free_map inp) ?lim True monitor") (auto simp: improve_def Let_def)
  have kind: "sr_kind sr \<noteq> Bound_Exhausted"
    using assms(4) sr by (auto simp: improve_def Let_def split: if_splits)
  obtain \<pi> where \<pi>: "complete_path env \<pi>" "set \<pi> = set cs"
    using feasible_complete [OF eok assms(7-9)] by blast
  note res = search_results [OF sr assms(2,1,5)]
  have found: "sr_kind sr = Found"
    using kind res(5) [OF _ assms(6), of \<pi>] \<pi>(1) by (cases "sr_kind sr") auto
  from res(4) [OF found] obtain b where b: "sr_best sr = Some b" by auto
  from res(6) [OF found _ assms(6) \<pi>(1)] obtain sc where sc: "sr_best_score sr = Some sc"
    "score_key sc \<le> path_key env \<pi>" by auto
  have dist: "distinct (map ca_requirement \<pi>)" "distinct (map ca_requirement cs)"
    using node_path(4) [OF eok] \<pi>(1) assms(9) by (auto simp: complete_path_def feasible_choice_def)
  have "materialize env (chosen cs) = materialize env (chosen \<pi>)"
    using assignment_order [OF dist(2,1)] \<pi>(2) by (simp add: materialize_path dist)
  then have "path_key env \<pi> = score_key (score_assignment (free_of env) (se_targets env) (so_preference inp)
      (materialize env (chosen cs)))"
    using score_node [OF dist(1), of env] path_checks(1) [OF eok] node_path(5) [OF eok] \<pi>(1) assms(5)
    by (force simp: path_key_def materialize_path dist complete_path_def)
  moreover from res(3) [OF b] obtain \<rho> where "complete_path env \<rho>" "b = to_assignment env (node env \<rho>)"
    "sr_best_score sr = Some (score_partial env (node env \<rho>))" by blast
  then have "sc = score_assignment (free_of env) (se_targets env) (so_preference inp) b"
    using sc(1) complete_path_score_env [OF assms(1,2,5)] by simp
  ultimately show ?thesis
    using sc b kind sr search_found_ok(2) [OF assms(1) sr b] by (simp add: improve_def Let_def)
qed

text \<open>
  C32: Improvement never makes a plan worse: started from the assignment Gate B found, whatever
  its state bound and whenever a monitor stops it, it returns a valid assignment together with
  that assignment's own score, and that score is at most the one of Gate B's assignment.
\<close>

theorem improve_never_worse:
  assumes "solver_ok inp" and "gate_b hsh inp = Some g" and "gr_code g = Feasible"
    and "gr_assignment g = Some first_feasible" and "p = improve hsh inp first_feasible monitor"
  shows "assignment_ok inp (pr_assignment p) \<and> pr_score p = placement_score inp (pr_assignment p)
    \<and> score_key (pr_score p) \<le> score_key (placement_score inp first_feasible)"
proof -
  have ok: "assignment_ok inp (pr_assignment p)"
    using gate_b_found [OF assms(1-3)] improve_valid [OF assms(1)] assms(4,5) by auto
  note g = gate_b_search [OF assms(2-4)]
  show ?thesis
  proof (cases "search hsh inp (free_map inp) (sb_optimization_state_limit (so_bounds inp)) True monitor")
    case None
    with ok show ?thesis by (simp add: assms(5) improve_def Let_def)
  next
    case (Some r)
    from best_bounded [OF assms(1) g Some]
    have "(sr_best r = None \<and> sr_best_score r = None)
      \<or> (\<exists>b. sr_best r = Some b \<and> sr_best_score r = Some (placement_score inp b)
          \<and> score_key (placement_score inp b) \<le> score_key (placement_score inp first_feasible))" .
    with ok Some show ?thesis
      by (auto simp: assms(5) improve_def Let_def)
  qed
qed

text \<open>
  C40: A monitor only watches: when it raises its resource limit at one of the visit counts the
  unwatched improvement reaches, the result is the given assignment with its own score, labelled
  as the canonical fallback; when it raises at none of them, the result is the unwatched one.
\<close>

theorem improve_monitor:
  assumes "unsatisfied inp \<noteq> []" and "calm = improve hsh inp first_feasible no_monitor"
  shows "improve hsh inp first_feasible monitor =
    (if \<exists>k. 0 < k \<and> k \<le> pr_states_visited calm \<and> monitor k
     then calm\<lparr>pr_assignment := first_feasible, pr_derivation_mode := Canonical_Fallback,
       pr_diagnostic := Some ''optimization_resource_exhausted'',
       pr_score := placement_score inp first_feasible, pr_states_visited := 0\<rparr>
     else calm)"
proof -
  let ?lim = "sb_optimization_state_limit (so_bounds inp)"
  obtain r where r: "search hsh inp (free_map inp) ?lim True no_monitor = Some r"
    using search_total by blast
  have v: "pr_states_visited calm = sr_visited r"
    by (simp add: assms(2) improve_def Let_def r)
  note w = search_watched [OF assms(1) r [unfolded no_monitor_def], of monitor]
  show ?thesis
    unfolding v using w r by (auto simp: assms(2) improve_def Let_def)
qed

end
