(* ===== verification/SearchInstances.thy ===== *)
theory SearchInstances
  imports GateB
begin

text \<open>
  Concrete solver inputs for the properties of the placement search: two requirements on two
  drives, feasible with both targets and infeasible with one, evaluated by the simplifier.
\<close>

definition demo_candidate :: "str \<Rightarrow> str \<Rightarrow> int \<Rightarrow> candidate" where
  "demo_candidate rid target n =
     \<lparr>ca_requirement = rid, ca_task_kind = FETCH, ca_target = target, ca_source = NoSource,
      ca_depends_on = None, ca_reused = [], ca_missing = [],
      ca_budget = \<lparr>cb_guaranteed_durable = n, cb_expected_durable = n, cb_workspace_peak_guaranteed = 0,
                   cb_workspace_peak_expected = 0, cb_file_budgets = []\<rparr>,
      ca_transfer_bytes = n\<rparr>"

definition demo_requirement :: "str \<Rightarrow> copy_requirement" where
  "demo_requirement rid = \<lparr>rq_id = rid, rq_repo = rid, rq_kind = PRIMARY, rq_eligible = [''d1'', ''d2''],
     rq_independent_of = None\<rparr>"

text \<open>Two requirements: \<open>a\<close> on the given targets, \<open>b\<close> on \<open>d1\<close> only; both drives hold 10.\<close>

definition demo_solver :: "str list \<Rightarrow> solver_input" where
  "demo_solver targets =
     \<lparr>so_graph = \<lparr>rg_desired = [demo_requirement ''a'', demo_requirement ''b''], rg_hash = []\<rparr>,
      so_candidates = \<lparr>cs_satisfied = [], cs_by_requirement =
         [(''a'', map (\<lambda>t. demo_candidate ''a'' t 5) targets), (''b'', [demo_candidate ''b'' ''d1'' 7])],
         cs_drift = [], cs_blocked = []\<rparr>,
      so_drives = [], so_executable_budget = [(''d1'', 10), (''d2'', 10)],
      so_max_usable = [(''d1'', Some 10), (''d2'', Some 10)], so_drive_evidence = [],
      so_capacity_mode = ''guaranteed'', so_policy_version = [],
      so_bounds = \<lparr>sb_feasibility_state_limit = 50, sb_optimization_state_limit = 50\<rparr>, so_preference = None\<rparr>"

definition demo_hash :: "key_part \<Rightarrow> int" where
  "demo_hash part = (case part of (rid, target, _) \<Rightarrow>
     if rid = ''a'' then (if target = ''d1'' then 1 else 2) else 4)"

definition demo_env :: "str list \<Rightarrow> search_env" where
  "demo_env targets = make_env demo_hash (demo_solver targets) (free_map (demo_solver targets))"

definition demo_choice :: "candidate list" where
  "demo_choice = [demo_candidate ''a'' ''d2'' 5, demo_candidate ''b'' ''d1'' 7]"

lemma demo_solver_ok: "solver_ok (demo_solver targets)"
  by (simp add: solver_ok_def demo_solver_def demo_candidate_def list_all_iff)

lemma demo_collision_free:
  "collision_free (demo_env [''d1'', ''d2''])" "collision_free (demo_env [''d1''])"
  unfolding demo_env_def
  by (rule collision_free_enum, simp add: env_ok_make demo_solver_ok, code_simp)+

lemma demo_wf:
  "cands_wf (demo_env [''d1'', ''d2''])" "cands_wf (demo_env [''d1''])"
  "deps_ranked (demo_env [''d1'', ''d2'']) (\<lambda>_. 0)" "deps_ranked (demo_env [''d1'']) (\<lambda>_. 0)"
  by code_simp+

theorem pop_undoes_push_witness:
  "pop (push (demo_env [''d1'']) (demo_candidate ''a'' ''d1'' 5) empty_partial) = empty_partial"
  by (rule pop_undoes_push) (simp_all add: partial_ok_def fresh_for_def empty_partial_def)

theorem score_partial_exact_witness:
  "score_partial (demo_env [''d1'', ''d2'']) (node (demo_env [''d1'', ''d2'']) (rev demo_choice)) =
     score_assignment (free_of (demo_env [''d1'', ''d2''])) (se_targets (demo_env [''d1'', ''d2'']))
       (so_preference (demo_solver [''d1'', ''d2''])) (materialize (demo_env [''d1'', ''d2'']) (chosen (rev demo_choice)))"
proof (rule score_partial_exact [OF demo_env_def demo_solver_ok])
  show "complete_path (demo_env [''d1'', ''d2'']) (rev demo_choice)" by code_simp
qed

lemma demo_feasible: "\<exists>r. gate_b demo_hash (demo_solver [''d1'', ''d2'']) = Some r \<and> gr_code r = Feasible"
proof -
  have "map_option gr_code (gate_b demo_hash (demo_solver [''d1'', ''d2''])) = Some Feasible" by code_simp
  then show ?thesis by auto
qed

theorem gate_b_feasible_sound_witness:
  "\<exists>a. assignment_ok (demo_solver [''d1'', ''d2'']) a"
  using demo_feasible gate_b_feasible_sound [OF demo_solver_ok] by blast

theorem gate_b_infeasible_proof_witness:
  "\<not> feasible_choice (demo_env [''d1'']) demo_choice"
proof -
  have "map_option gr_code (gate_b demo_hash (demo_solver [''d1'']))
      = Some Infeasible_Under_Admission_Budget" by code_simp
  then obtain r where "gate_b demo_hash (demo_solver [''d1'']) = Some r"
    "gr_code r = Infeasible_Under_Admission_Budget" by auto
  from gate_b_infeasible_proof [OF demo_solver_ok this demo_env_def demo_collision_free(2) demo_wf(2,4)]
  show ?thesis .
qed

theorem gate_b_bounded_witness:
  "\<exists>r. gate_b demo_hash (demo_solver [''d1'']) = Some r
     \<and> gr_states_visited r \<le> 2 * max 1 (sb_feasibility_state_limit (so_bounds (demo_solver [''d1''])))"
  by (rule gate_b_bounded [OF demo_solver_ok])

definition demo_assignment :: assignment where
  "demo_assignment = materialize (demo_env [''d1'', ''d2'']) (chosen demo_choice)"

lemma demo_assignment_ok: "assignment_ok (demo_solver [''d1'', ''d2'']) demo_assignment"
  by code_simp

lemma demo_optimized:
  "pr_derivation_mode (improve demo_hash (demo_solver [''d1'', ''d2'']) demo_assignment (\<lambda>_. False)) = Optimized"
  by code_simp

theorem improve_optimal_witness:
  "score_key (pr_score (improve demo_hash (demo_solver [''d1'', ''d2'']) demo_assignment (\<lambda>_. False)))
     \<le> score_key (score_assignment (free_of (demo_env [''d1'', ''d2''])) (se_targets (demo_env [''d1'', ''d2'']))
          (so_preference (demo_solver [''d1'', ''d2'']))
          (materialize (demo_env [''d1'', ''d2'']) (chosen demo_choice)))"
proof -
  have "unsatisfied (demo_solver [''d1'', ''d2'']) \<noteq> []" by code_simp
  moreover have "feasible_choice (demo_env [''d1'', ''d2'']) demo_choice" by code_simp
  ultimately show ?thesis
    using improve_optimal [OF demo_solver_ok _ demo_assignment_ok demo_optimized demo_env_def
        demo_collision_free(1) demo_wf(1,3)] by blast
qed

theorem improve_never_worse_witness:
  "\<exists>a. score_key (pr_score (improve demo_hash (demo_solver [''d1'', ''d2'']) a (\<lambda>k. k = 2)))
     \<le> score_key (placement_score (demo_solver [''d1'', ''d2'']) a)"
proof -
  from demo_feasible obtain g where g: "gate_b demo_hash (demo_solver [''d1'', ''d2'']) = Some g"
    "gr_code g = Feasible" by blast
  from gate_b_found [OF demo_solver_ok g] obtain a where "gr_assignment g = Some a" by blast
  from improve_never_worse [OF demo_solver_ok g this refl] show ?thesis by blast
qed

theorem improve_monitor_witness:
  "pr_derivation_mode (improve demo_hash (demo_solver [''d1'', ''d2'']) demo_assignment (\<lambda>k. k = 2)) = Canonical_Fallback
   \<and> improve demo_hash (demo_solver [''d1'', ''d2'']) demo_assignment (\<lambda>k. k = 50)
       = improve demo_hash (demo_solver [''d1'', ''d2'']) demo_assignment no_monitor"
proof -
  let ?calm = "improve demo_hash (demo_solver [''d1'', ''d2'']) demo_assignment no_monitor"
  have "unsatisfied (demo_solver [''d1'', ''d2'']) \<noteq> []" by code_simp
  note watched = improve_monitor [OF this refl]
  have "2 \<le> pr_states_visited ?calm \<and> pr_states_visited ?calm < 50" by code_simp
  then have "\<exists>k. 0 < k \<and> k \<le> pr_states_visited ?calm \<and> k = 2"
    "\<not> (\<exists>k. 0 < k \<and> k \<le> pr_states_visited ?calm \<and> k = 50)" by auto
  then show ?thesis
    using watched [of demo_hash demo_assignment "\<lambda>k. k = 2"]
      watched [of demo_hash demo_assignment "\<lambda>k. k = 50"] by simp
qed

definition colliding_hash :: "key_part \<Rightarrow> int" where
  "colliding_hash _ = 5"

text \<open>
  Without the hypothesis on state keys an infeasibility verdict is no proof: visited states
  are remembered by an XOR of hashes only, and under a hash that collides on two partial
  assignments the only packing of a feasible input is skipped and reported infeasible.
\<close>

theorem collision_hides_packing:
  "feasible_choice (make_env colliding_hash (demo_solver [''d1'', ''d2'']) (free_map (demo_solver [''d1'', ''d2'']))) demo_choice
   \<and> map_option gr_code (gate_b colliding_hash (demo_solver [''d1'', ''d2''])) = Some Infeasible_Under_Admission_Budget"
  by code_simp
end
