(* ===== verification/Reconcile.thy ===== *)
theory Reconcile
  imports Candidates
begin

text \<open>
  \<open>modelark/reconcile.py\<close>: one consistent read of the catalog becomes an immutable planner
  input, the pure core of \<open>Candidates\<close> decides, and the legacy fields and operator diagnostics
  are projections of its answer. The catalog is a record of table rows; a query is a filtered,
  sorted list of them. The compression configuration is the argument \<open>cfg\<close>.
\<close>

section \<open>The catalog\<close>

text \<open>The columns of \<open>drives\<close> and \<open>archived\<close> that planning reads; \<open>NULL\<close> is \<open>None\<close>.\<close>

record catalog_drive =
  cg_label :: str
  cg_role :: "str option"
  cg_raid_backed :: "int option"
  cg_capacity_bytes :: "int option"
  cg_free_bytes :: "int option"
  cg_filesystem_capacity_bytes :: "int option"
  cg_identity_epoch :: "int option"
  cg_fs_uuid :: "str option"
  cg_annex_uuid :: "str option"
  cg_serial :: "str option"
  cg_lifecycle :: str
  cg_eligibility :: str

record archived_row =
  aw_repo :: str
  aw_drive :: str
  aw_rfilename :: str
  aw_orig_sha256 :: "str option"
  aw_orig_bytes :: "int option"
  aw_stored_bytes :: "int option"
  aw_annex_key :: "str option"
  aw_compressed :: "int option"

record catalog =
  ct_selection :: "(str \<times> bool) list"
  ct_files :: files_table
  ct_drives :: "catalog_drive list"
  ct_plan_drives :: "(str \<times> str) list"
  ct_numcopies :: "(str \<times> int option) list"
  ct_archived :: "archived_row list"

text \<open>\<open>coalesce(x, y)\<close>, and \<open>int(x or d)\<close> on a number.\<close>

definition coalesce :: "'a option \<Rightarrow> 'a \<Rightarrow> 'a" where
  "coalesce v d = (case v of None \<Rightarrow> d | Some x \<Rightarrow> x)"

definition or_int :: "int \<Rightarrow> int \<Rightarrow> int" where
  "or_int v d = (if v = 0 then d else v)"

section \<open>Results\<close>

datatype severity = INFO | WARNING | BLOCKING | ERROR

datatype recovery = AUTOMATIC | OPERATOR_ACTION | CODE_DEFECT

datatype detail_value = DText str | DTuple "str list"

text \<open>
  Details are compared when diagnostics are sorted. Two details of one code carry values of the
  same kind under the same key, so the order between the kinds never decides.
\<close>

instantiation detail_value :: linorder
begin

fun less_eq_detail_value :: "detail_value \<Rightarrow> detail_value \<Rightarrow> bool" where
  "less_eq_detail_value (DText x) (DText y) = (x \<le> y)"
| "less_eq_detail_value (DText x) (DTuple ys) = True"
| "less_eq_detail_value (DTuple xs) (DText y) = False"
| "less_eq_detail_value (DTuple xs) (DTuple ys) = (xs \<le> ys)"

definition less_detail_value :: "detail_value \<Rightarrow> detail_value \<Rightarrow> bool" where
  "less_detail_value x y \<longleftrightarrow> x \<le> y \<and> \<not> y \<le> x"

instance
proof
  fix x y z :: detail_value
  show "x < y \<longleftrightarrow> x \<le> y \<and> \<not> y \<le> x" by (rule less_detail_value_def)
  show "x \<le> x" by (cases x) auto
  show "x \<le> y \<Longrightarrow> y \<le> z \<Longrightarrow> x \<le> z" by (cases x; cases y; cases z) auto
  show "x \<le> y \<Longrightarrow> y \<le> x \<Longrightarrow> x = y" by (cases x; cases y) auto
  show "x \<le> y \<or> y \<le> x" by (cases x; cases y) auto
qed

end

record copy_fact =
  cf_repo :: str
  cf_drive :: str
  cf_required :: "str set"
  cf_present :: "str set"
  cf_stored_bytes :: "(str \<times> int) list"

record work_intent =
  wi_task_id :: str
  wi_kind :: task_kind
  wi_requirement :: str
  wi_repo :: str
  wi_eligible :: "str list"
  wi_source_drive :: "str option"
  wi_depends_on :: "str option"

record plan_diagnostic =
  dg_code :: str
  dg_severity :: severity
  dg_recovery :: recovery
  dg_requirement :: "str option"
  dg_detail :: "(str \<times> detail_value) list"

record legacy_reservation =
  lr_requirement :: str
  lr_repo :: str
  lr_target :: str
  lr_order :: nat

record reconcile_result =
  rr_plan_id :: str
  rr_repo_ids :: "str list"
  rr_manifests :: "(str \<times> manifest_file list) list"
  rr_requirements :: "copy_requirement list"
  rr_facts :: "copy_fact list"
  rr_intents :: "work_intent list"
  rr_satisfied :: "str set"
  rr_matches :: "(str \<times> str) list"
  rr_diagnostics :: "plan_diagnostic list"
  rr_candidates :: candidate_set

text \<open>\<open>Key_Error\<close> and \<open>Index_Error\<close> are Python's, on a missing manifest and on an
  identifier without a colon.\<close>

datatype reconcile_error = Key_Error str | Index_Error str

definition copy_complete :: "copy_fact \<Rightarrow> bool" where
  "copy_complete f \<longleftrightarrow> cf_required f \<subseteq> cf_present f"

definition required_present :: "copy_fact \<Rightarrow> str set" where
  "required_present f = cf_required f \<inter> cf_present f"

definition diag ::
  "str \<Rightarrow> severity \<Rightarrow> recovery \<Rightarrow> str option \<Rightarrow> (str \<times> detail_value) list \<Rightarrow> plan_diagnostic" where
  "diag code sev rec rid detail =
     \<lparr>dg_code = code, dg_severity = sev, dg_recovery = rec, dg_requirement = rid,
      dg_detail = sort detail\<rparr>"

section \<open>The fact reader\<close>

definition selected_repos :: "catalog \<Rightarrow> str list option \<Rightarrow> str list" where
  "selected_repos cat repo_ids =
     (case repo_ids of
        Some rs \<Rightarrow> sorted_set rs
      | None \<Rightarrow> sort (map fst (filter snd (ct_selection cat))))"

text \<open>\<open>plan_drives pd JOIN drives d USING(drive_label) WHERE pd.plan_id=? ORDER BY d.drive_label\<close>.\<close>

definition plan_rows :: "catalog \<Rightarrow> str \<Rightarrow> catalog_drive list" where
  "plan_rows cat plan_id =
     sort_key cg_label (concat (map (\<lambda>(p, l).
       if p = plan_id then filter (\<lambda>d. cg_label d = l) (ct_drives cat) else []) (ct_plan_drives cat)))"

definition drive_fact_of :: "catalog_drive \<Rightarrow> drive_fact" where
  "drive_fact_of d =
     \<lparr>df_label = cg_label d, df_role = coalesce (cg_role d) ''primary'',
      df_raid_backed = (coalesce (cg_raid_backed d) 0 \<noteq> 0),
      df_capacity_bytes = coalesce (cg_capacity_bytes d) (coalesce (cg_free_bytes d) 0),
      df_filesystem_capacity_bytes =
        Some (coalesce (cg_filesystem_capacity_bytes d) (coalesce (cg_capacity_bytes d) 0)),
      df_identity_epoch = or_int (coalesce (cg_identity_epoch d) 1) 1,
      df_fs_uuid = cg_fs_uuid d, df_annex_uuid = cg_annex_uuid d, df_serial = cg_serial d,
      df_lifecycle = cg_lifecycle d, df_eligibility = cg_eligibility d\<rparr>"

definition drive_facts :: "catalog \<Rightarrow> str \<Rightarrow> drive_fact list" where
  "drive_facts cat plan_id = map drive_fact_of (plan_rows cat plan_id)"

definition numcopies :: "catalog \<Rightarrow> str list \<Rightarrow> (str \<times> int) list" where
  "numcopies cat repo_ids =
     (if repo_ids = [] then []
      else map (\<lambda>(r, n). (r, coalesce n 1)) (filter (\<lambda>(r, n). r \<in> set repo_ids) (ct_numcopies cat)))"

definition archived_fact :: "archived_row \<Rightarrow> archived_file" where
  "archived_fact r =
     \<lparr>af_repo = aw_repo r, af_drive = aw_drive r, af_rfilename = aw_rfilename r,
      af_orig_sha256 = aw_orig_sha256 r, af_orig_bytes = aw_orig_bytes r,
      af_stored_bytes = aw_stored_bytes r, af_annex_key = aw_annex_key r,
      af_compressed = PyBool (coalesce (aw_compressed r) 0 \<noteq> 0)\<rparr>"

definition archived_facts :: "catalog \<Rightarrow> str list \<Rightarrow> str list \<Rightarrow> str list \<Rightarrow> archived_file list" where
  "archived_facts cat repos labels names =
     (if repos = [] \<or> labels = [] \<or> names = [] then []
      else map archived_fact (sort_key (\<lambda>r. (aw_repo r, aw_drive r, aw_rfilename r))
        (filter (\<lambda>r. aw_repo r \<in> set repos \<and> aw_drive r \<in> set labels \<and> aw_rfilename r \<in> set names)
          (ct_archived cat))))"

record reconcile_facts =
  rf_planner_input :: planner_input
  rf_manifest_batch :: manifest_batch
  rf_selected_repos :: "str list"

text \<open>\<open>policy\<close> is resolved by the caller; \<open>ratio\<close> is \<open>capacity.plan_float_ratio\<close>.\<close>

definition reconcile_read_facts ::
  "catalog \<Rightarrow> str \<Rightarrow> str list option \<Rightarrow> archive_policy \<Rightarrow> compression_cfg \<Rightarrow> rat \<Rightarrow> reconcile_facts" where
  "reconcile_read_facts cat plan_id repo_ids policy cfg ratio =
     (let repos = selected_repos cat repo_ids;
          batch = inspect_manifests_for_repos (ct_files cat) repos policy;
          usable = filter (\<lambda>r. map_of (mb_manifests batch) r \<noteq> None) repos;
          drives = drive_facts cat plan_id;
          manifest_files = sorted_set (concat (map (\<lambda>(_, m). map mf_rfilename m) (mb_manifests batch)));
          archived = archived_facts cat usable (map df_label drives) manifest_files in
      \<lparr>rf_planner_input =
         \<lparr>pi_plan_id = plan_id, pi_selection = usable,
          pi_manifests = map (\<lambda>r. (r, the (map_of (mb_manifests batch) r))) usable,
          pi_numcopies = sort_key fst (map (\<lambda>(r, n). (r, Some n)) (numcopies cat usable)),
          pi_drives = drives, pi_archived = archived,
          pi_compression_cfg = cfg, pi_float_ratio = ratio\<rparr>,
       rf_manifest_batch = batch, rf_selected_repos = repos\<rparr>)"

section \<open>Error texts\<close>

text \<open>\<open>repr\<close> of an ASCII string and the text of an \<open>ArchivePolicyError\<close>.\<close>

definition repr_char :: "char \<Rightarrow> char \<Rightarrow> str" where
  "repr_char quote c =
     (let n = of_char c :: nat; bs = char_of (92::nat) in
      if c = quote \<or> n = 92 then [bs, c]
      else if n = 9 then [bs, CHR ''t'']
      else if n = 10 then [bs, CHR ''n'']
      else if n = 13 then [bs, CHR ''r'']
      else if 32 \<le> n \<and> n \<le> 126 then [c]
      else [bs, CHR ''x'', nibble (n div 16), nibble (n mod 16)])"

definition py_repr :: "str \<Rightarrow> str" where
  "py_repr s =
     (let single = char_of (39::nat);
          quote = (if single \<in> set s \<and> dquote \<notin> set s then dquote else single) in
      quote # concat (map (repr_char quote) s) @ [quote])"

definition join :: "str \<Rightarrow> str list \<Rightarrow> str" where
  "join sep xs = concat (case xs of [] \<Rightarrow> [] | y # ys \<Rightarrow> y # map (\<lambda>z. sep @ z) ys)"

fun policy_message :: "policy_error \<Rightarrow> str" where
  "policy_message (NotUpstreamPayload repo name) =
     repo @ '': not an upstream payload path: '' @ py_repr name"
| "policy_message (PickleOnlyBlocked repo) =
     repo @ '': pickle-only weights are blocked by exclude.pickle_only=true; ''
     @ ''select a safetensors/GGUF repository or explicitly opt in to inert pickle storage''"
| "policy_message (NoSupportedWeights repo found) =
     repo @ '': no supported archive weights; expected safetensors, GGUF, or opted-in pickle''
     @ (if found = [] then [] else '' (found: '' @ join '', '' found @ '')'')"

section \<open>Projections\<close>

definition same_domain :: "drive_fact \<Rightarrow> drive_fact \<Rightarrow> bool" where
  "same_domain a b \<longleftrightarrow>
     (\<not> falsy (df_fs_uuid a) \<and> \<not> falsy (df_fs_uuid b) \<and> df_fs_uuid a = df_fs_uuid b)
     \<or> (\<not> falsy (df_annex_uuid a) \<and> \<not> falsy (df_annex_uuid b) \<and> df_annex_uuid a = df_annex_uuid b)
     \<or> (\<not> falsy (df_serial a) \<and> \<not> falsy (df_serial b) \<and> df_serial a = df_serial b)"

definition rank_satisfying_drive :: "requirement_kind \<Rightarrow> drive_fact \<Rightarrow> int \<times> int \<times> str" where
  "rank_satisfying_drive kind d =
     (if kind = PROTECTED_REPLICA then (0, df_capacity_bytes d, df_label d)
      else (if df_raid_backed d then 0 else 1, - df_capacity_bytes d, df_label d))"

text \<open>\<open>requirement_id.split(":", 1)[1]\<close>.\<close>

definition repo_part :: "str \<Rightarrow> reconcile_error + str" where
  "repo_part rid = (case split_once_tail (CHR '':'') rid of None \<Rightarrow> Inl (Index_Error rid) | Some r \<Rightarrow> Inr r)"

definition facts_projection :: "planner_input \<Rightarrow> copy_fact list" where
  "facts_projection inp =
     List.map_filter (\<lambda>(repo, label).
       map_option (\<lambda>manifest.
         let present = map (\<lambda>r. (af_rfilename r, bytes_or_zero (af_stored_bytes r)))
               (filter (\<lambda>r. af_repo r = repo \<and> af_drive r = label) (pi_archived inp)) in
         \<lparr>cf_repo = repo, cf_drive = label, cf_required = set (map mf_rfilename manifest),
          cf_present = set (map fst present), cf_stored_bytes = present\<rparr>)
       (dict_get (pi_manifests inp) repo))
     (sorted_set (map (\<lambda>r. (af_repo r, af_drive r)) (pi_archived inp)))"

definition source_drives :: "candidate list \<Rightarrow> str list" where
  "source_drives cands = sorted_set (List.map_filter (\<lambda>c. case ca_source c of
      FromHome s \<Rightarrow> Some (si_drive s) | _ \<Rightarrow> None) cands)"

definition pending_homes :: "candidate list \<Rightarrow> str option list" where
  "pending_homes cands = List.map_filter (\<lambda>c. case ca_source c of
      PendingHome rid \<Rightarrow> Some rid | _ \<Rightarrow> None) cands"

definition intent_of :: "str \<times> candidate list \<Rightarrow> reconcile_error + work_intent" where
  "intent_of = (\<lambda>(rid, cands).
     let kind = ca_task_kind (hd cands); sources = source_drives cands in
     case repo_part rid of
       Inl e \<Rightarrow> Inl e
     | Inr repo \<Rightarrow> Inr
        \<lparr>wi_task_id = task_kind_value kind @ '':'' @ rid, wi_kind = kind, wi_requirement = rid,
         wi_repo = repo, wi_eligible = sorted_set (map ca_target cands),
         wi_source_drive = (if sources = [] then None else Some (hd sources)),
         wi_depends_on = (if sources \<noteq> [] then None
                          else (case pending_homes cands of [] \<Rightarrow> None | p # _ \<Rightarrow> p))\<rparr>)"

definition intents_projection :: "candidate_set \<Rightarrow> reconcile_error + work_intent list" where
  "intents_projection cset =
     (case try_map intent_of (filter (\<lambda>(_, cands). cands \<noteq> []) (cs_by_requirement cset)) of
        Inl e \<Rightarrow> Inl e
      | Inr intents \<Rightarrow> Inr (sort_key (\<lambda>i. (wi_repo i, wi_requirement i)) intents))"

section \<open>Matches and diagnostics\<close>

definition requirement_of :: "copy_requirement list \<Rightarrow> str \<Rightarrow> copy_requirement option" where
  "requirement_of desired = dict_get (map (\<lambda>r. (rq_id r, r)) desired)"

text \<open>
  The preferred copy of a satisfied requirement. The candidate set names requirements of the
  graph and drives of the input only, so the lookups cannot fail.
\<close>

definition rank_copy :: "drive_fact list \<Rightarrow> requirement_kind \<Rightarrow> str \<Rightarrow> int \<times> int \<times> str" where
  "rank_copy ds kind label =
     (case by_label ds label of None \<Rightarrow> (0, 0, label) | Some d \<Rightarrow> rank_satisfying_drive kind d)"

definition match_of :: "planner_input \<Rightarrow> copy_requirement list \<Rightarrow> str \<times> satisfied_copy list \<Rightarrow> str \<times> str" where
  "match_of inp desired = (\<lambda>(rid, copies).
     let kind = (case requirement_of desired rid of None \<Rightarrow> PRIMARY | Some r \<Rightarrow> rq_kind r) in
     (rid, hd (sort_key (rank_copy (pi_drives inp) kind) (map sc_drive copies))))"

definition drift_drives :: "candidate_set \<Rightarrow> str \<Rightarrow> str \<Rightarrow> str list" where
  "drift_drives cset reason rid =
     sorted_set (map dw_drive (filter (\<lambda>d. dw_reason d = reason \<and> dw_requirement d = rid) (cs_drift cset)))"

definition drift_requirements :: "candidate_set \<Rightarrow> str \<Rightarrow> str list" where
  "drift_requirements cset reason =
     sorted_set (map dw_requirement (filter (\<lambda>d. dw_reason d = reason) (cs_drift cset)))"

definition manifest_diagnostics :: "manifest_batch \<Rightarrow> plan_diagnostic list" where
  "manifest_diagnostics batch =
     map (\<lambda>(repo, err). diag ''MANIFEST_POLICY'' BLOCKING OPERATOR_ACTION None
            [(''repo_id'', DText repo), (''message'', DText (policy_message err))])
       (sort_key fst (mb_errors batch))"

definition blocked_diagnostic ::
  "copy_requirement list \<Rightarrow> candidate_set \<Rightarrow> str \<times> str \<Rightarrow> reconcile_error + plan_diagnostic" where
  "blocked_diagnostic desired cset = (\<lambda>(rid, reason).
     case requirement_of desired rid of
       None \<Rightarrow> Inl (Key_Error rid)
     | Some req \<Rightarrow> Inr
        (if reason = ''no_eligible_tier''
         then diag ''TARGET_TIER_MISSING'' BLOCKING OPERATOR_ACTION (Some rid)
                [(''repo_id'', DText (rq_repo req)), (''kind'', DText (requirement_kind_value (rq_kind req)))]
         else diag ''UNPROVEN_PROVENANCE'' BLOCKING OPERATOR_ACTION (Some rid)
                [(''repo_id'', DText (rq_repo req)),
                 (''drives'', DTuple (drift_drives cset ''unproven_provenance'' rid))]))"

text \<open>An advisory diagnostic of one requirement with its sorted drives.\<close>

definition drift_diagnostic :: "str \<Rightarrow> recovery \<Rightarrow> candidate_set \<Rightarrow> str \<Rightarrow> str \<Rightarrow> reconcile_error + plan_diagnostic" where
  "drift_diagnostic code rec cset reason rid =
     (case repo_part rid of
        Inl e \<Rightarrow> Inl e
      | Inr repo \<Rightarrow> Inr (diag code WARNING rec (Some rid)
          [(''repo_id'', DText repo), (''drives'', DTuple (drift_drives cset reason rid))]))"

definition wrong_tier_requirements :: "candidate_set \<Rightarrow> str list" where
  "wrong_tier_requirements cset =
     filter (\<lambda>rid. rid \<notin> fst ` set (cs_satisfied cset) \<and> rid \<notin> fst ` set (cs_blocked cset))
       (drift_requirements cset ''wrong_tier'')"

definition unproven_open_requirements :: "candidate_set \<Rightarrow> str list" where
  "unproven_open_requirements cset =
     filter (\<lambda>rid. rid \<in> fst ` set (cs_by_requirement cset)) (drift_requirements cset ''unproven_provenance'')"

definition domain_diagnostics :: "planner_input \<Rightarrow> (str \<times> str) list \<Rightarrow> plan_diagnostic list" where
  "domain_diagnostics inp matches =
     List.map_filter (\<lambda>repo.
       let home = map_of matches (requirement_name PROTECTED_HOME repo);
           replica = map_of matches (requirement_name PROTECTED_REPLICA repo) in
       (case (home, replica) of
          (Some h, Some r) \<Rightarrow>
            (case (by_label (pi_drives inp) h, by_label (pi_drives inp) r) of
               (Some hd', Some rd) \<Rightarrow>
                 if h \<noteq> [] \<and> r \<noteq> [] \<and> same_domain hd' rd
                 then Some (diag ''FAILURE_DOMAIN_SUSPECT'' WARNING OPERATOR_ACTION
                        (Some (requirement_name PROTECTED_REPLICA repo))
                        [(''repo_id'', DText repo), (''drives'', DTuple [h, r])])
                 else None
             | _ \<Rightarrow> None)
        | _ \<Rightarrow> None)) (pi_selection inp)"

definition diagnostic_key :: "plan_diagnostic \<Rightarrow> str \<times> str \<times> (str \<times> detail_value) list" where
  "diagnostic_key d = (dg_code d, coalesce (dg_requirement d) [], dg_detail d)"

definition reconcile_diagnostics ::
  "planner_input \<Rightarrow> copy_requirement list \<Rightarrow> manifest_batch \<Rightarrow> candidate_set \<Rightarrow> (str \<times> str) list
     \<Rightarrow> reconcile_error + plan_diagnostic list" where
  "reconcile_diagnostics inp desired batch cset matches =
     (case try_map (blocked_diagnostic desired cset) (cs_blocked cset) of
        Inl e \<Rightarrow> Inl e
      | Inr blocked \<Rightarrow>
     (case try_map (drift_diagnostic ''COPY_POLICY_DRIFT'' AUTOMATIC cset ''wrong_tier'')
             (wrong_tier_requirements cset) of
        Inl e \<Rightarrow> Inl e
      | Inr wrong \<Rightarrow>
     (case try_map (drift_diagnostic ''UNPROVEN_PROVENANCE'' OPERATOR_ACTION cset ''unproven_provenance'')
             (unproven_open_requirements cset) of
        Inl e \<Rightarrow> Inl e
      | Inr unproven \<Rightarrow>
          Inr (sort_key diagnostic_key
            (manifest_diagnostics batch @ blocked @ wrong @ unproven @ domain_diagnostics inp matches)))))"

section \<open>Reconciliation\<close>

definition reconcile_plan ::
  "(str \<Rightarrow> str) \<Rightarrow> bool \<Rightarrow> catalog \<Rightarrow> str \<Rightarrow> str list option \<Rightarrow> archive_policy \<Rightarrow> compression_cfg \<Rightarrow> rat
     \<Rightarrow> reconcile_error + reconcile_result" where
  "reconcile_plan sha zstd cat plan_id repo_ids policy cfg ratio =
     (let facts = reconcile_read_facts cat plan_id repo_ids policy cfg ratio;
          inp = rf_planner_input facts;
          graph = requirements sha inp in
      case candidates zstd inp graph of
        Inl repo \<Rightarrow> Inl (Key_Error repo)
      | Inr cset \<Rightarrow>
         (let matches = map (match_of inp (rg_desired graph)) (cs_satisfied cset) in
          case reconcile_diagnostics inp (rg_desired graph) (rf_manifest_batch facts) cset matches of
            Inl e \<Rightarrow> Inl e
          | Inr diagnostics \<Rightarrow>
             (case intents_projection cset of
                Inl e \<Rightarrow> Inl e
              | Inr intents \<Rightarrow> Inr
                 \<lparr>rr_plan_id = plan_id, rr_repo_ids = rf_selected_repos facts,
                  rr_manifests = pi_manifests inp, rr_requirements = rg_desired graph,
                  rr_facts = facts_projection inp, rr_intents = intents,
                  rr_satisfied = set (map fst (cs_satisfied cset)),
                  rr_matches = sort matches, rr_diagnostics = diagnostics,
                  rr_candidates = cset\<rparr>)))"

definition normalize_legacy_reservations ::
  "legacy_reservation list \<Rightarrow> reconcile_result \<Rightarrow> legacy_reservation list" where
  "normalize_legacy_reservations reservations result =
     filter (\<lambda>r. lr_requirement r \<notin> rr_satisfied result) reservations"

section \<open>Reconciliation always answers\<close>

lemma evaluate_total:
  assumes "\<And>r. r \<in> set reqs \<Longrightarrow> rq_repo r \<in> fst ` set (pi_manifests inp)"
  shows "\<exists>os. evaluate z inp desired reqs = Inr os"
  using assms
proof (induction reqs)
  case (Cons r reqs)
  from Cons.prems [of r] obtain m where "dict_get (pi_manifests inp) (rq_repo r) = Some m"
    using dict_get_Some_of_mem [of "rq_repo r"] by auto
  moreover obtain os where "evaluate z inp desired reqs = Inr os" using Cons by auto
  ultimately show ?case by simp
qed simp

lemma candidates_total: "\<exists>S. candidates z inp (requirements sha inp) = Inr S"
proof -
  obtain os where "evaluate z inp (rg_desired (requirements sha inp)) (rg_desired (requirements sha inp)) = Inr os"
    using evaluate_total [OF requirement_cases(4) [where sha = sha]] by blast
  then show ?thesis by (simp add: candidates_def)
qed

lemma repo_part_requirement: "repo_part (requirement_name k repo) = Inr repo"
proof -
  have "CHR '':'' \<notin> set (requirement_kind_value k)" by (cases k) simp_all
  then show ?thesis
    by (simp add: repo_part_def requirement_name_def split_once_tail_append)
qed

lemma drift_requirement:
  assumes "d \<in> set (requirement_drift inp req m accepted)"
  shows "dw_requirement d = rq_id req"
proof -
  have *: "x \<in> set (as_drift (assess rid p label rows mf)) \<Longrightarrow> dw_requirement x = rid" for x rid p label rows mf
    by (induction mf) (auto simp: Let_def split: reuse_verdict.splits if_splits)
  with assms show ?thesis
    by (auto simp: requirement_drift_def assess_label_def split: if_splits dest: *)
qed

lemma candidates_drift:
  assumes "candidates z inp graph = Inr S" "d \<in> set (cs_drift S)"
  shows "dw_requirement d \<in> rq_id ` set (rg_desired graph)"
proof -
  obtain os where os: "evaluate z inp (rg_desired graph) (rg_desired graph) = Inr os"
    using assms by (auto simp: candidates_def split: sum.splits)
  from evaluate_Inr [OF os] assms os show ?thesis
    by (auto simp: candidates_def dest!: drift_requirement)
qed

lemma candidates_names:
  assumes "candidates z inp (requirements sha inp) = Inr S"
  shows "rid \<in> fst ` set (cs_satisfied S) \<union> fst ` set (cs_by_requirement S) \<union> fst ` set (cs_blocked S)
           \<union> dw_requirement ` set (cs_drift S) \<Longrightarrow>
         \<exists>r\<in>set (rg_desired (requirements sha inp)). rid = rq_id r \<and> repo_part rid = Inr (rq_repo r)"
proof -
  assume "rid \<in> fst ` set (cs_satisfied S) \<union> fst ` set (cs_by_requirement S) \<union> fst ` set (cs_blocked S)
           \<union> dw_requirement ` set (cs_drift S)"
  then have "rid \<in> rq_id ` set (rg_desired (requirements sha inp))"
    using candidates_sets(1-3) [OF assms] candidates_drift [OF assms] by auto
  then obtain r where r: "r \<in> set (rg_desired (requirements sha inp))" "rid = rq_id r" by auto
  with requirement_cases(1) [OF r(1)] repo_part_requirement show ?thesis by metis
qed

lemma requirement_of_mem: "r \<in> set desired \<Longrightarrow> \<exists>q. requirement_of desired (rq_id r) = Some q \<and> rq_id q = rq_id r"
  using dict_get_key_mem [of r desired rq_id] unfolding requirement_of_def by (metis dict_get_key)

lemma drift_requirements_sub: "rid \<in> set (drift_requirements S reason) \<Longrightarrow> rid \<in> dw_requirement ` set (cs_drift S)"
  by (auto simp: drift_requirements_def)

lemma advisory_sub:
  "set (wrong_tier_requirements S) \<subseteq> dw_requirement ` set (cs_drift S)"
  "set (unproven_open_requirements S) \<subseteq> dw_requirement ` set (cs_drift S)"
  unfolding wrong_tier_requirements_def unproven_open_requirements_def
  using drift_requirements_sub by (auto simp only: set_filter)

lemma diagnostics_total:
  assumes S: "candidates z inp (requirements sha inp) = Inr S"
  shows "\<exists>ds. reconcile_diagnostics inp (rg_desired (requirements sha inp)) batch S matches = Inr ds"
proof -
  let ?D = "rg_desired (requirements sha inp)"
  have drift: "\<exists>y. drift_diagnostic code rec S reason rid = Inr y"
    if "rid \<in> dw_requirement ` set (cs_drift S)" for code rec reason rid
    using candidates_names [OF S] that by (force simp: drift_diagnostic_def)
  have "\<exists>y. blocked_diagnostic ?D S x = Inr y" if "x \<in> set (cs_blocked S)" for x
  proof -
    obtain rid reason where x: "x = (rid, reason)" by force
    with that have "rid \<in> fst ` set (cs_blocked S)" by force
    with candidates_names [OF S] obtain r where "r \<in> set ?D" "rid = rq_id r" by blast
    with requirement_of_mem x show ?thesis by (fastforce simp: blocked_diagnostic_def)
  qed
  then obtain bl where bl: "try_map (blocked_diagnostic ?D S) (cs_blocked S) = Inr bl"
    using try_map_total [of "cs_blocked S" "blocked_diagnostic ?D S"] by blast
  have wr: "\<exists>wr. try_map (drift_diagnostic code rec S reason) (wrong_tier_requirements S) = Inr wr" for code rec reason
    by (intro try_map_total ballI drift) (rule subsetD [OF advisory_sub(1)])
  have un: "\<exists>un. try_map (drift_diagnostic code rec S reason) (unproven_open_requirements S) = Inr un" for code rec reason
    by (intro try_map_total ballI drift) (rule subsetD [OF advisory_sub(2)])
  obtain a b where "try_map (drift_diagnostic ''COPY_POLICY_DRIFT'' AUTOMATIC S ''wrong_tier'')
      (wrong_tier_requirements S) = Inr a"
    "try_map (drift_diagnostic ''UNPROVEN_PROVENANCE'' OPERATOR_ACTION S ''unproven_provenance'')
      (unproven_open_requirements S) = Inr b"
    using exE [OF wr] exE [OF un] by metis
  then show ?thesis unfolding reconcile_diagnostics_def bl sum.case by (simp only: sum.case) (rule exI, rule refl)
qed

lemma intents_total:
  assumes S: "candidates z inp (requirements sha inp) = Inr S"
  shows "\<exists>ws. intents_projection S = Inr ws"
proof -
  have "\<exists>y. intent_of x = Inr y" if "x \<in> set (filter (\<lambda>(_, cands). cands \<noteq> []) (cs_by_requirement S))" for x
  proof -
    obtain rid cs where x: "x = (rid, cs)" by force
    with that have "rid \<in> fst ` set (cs_by_requirement S)" by force
    with candidates_names [OF S] obtain repo where "repo_part rid = Inr repo" by blast
    with x show ?thesis by (simp add: intent_of_def Let_def)
  qed
  then obtain ys where "try_map intent_of (filter (\<lambda>(_, cands). cands \<noteq> []) (cs_by_requirement S)) = Inr ys"
    using try_map_total [of "filter (\<lambda>(_, cands). cands \<noteq> []) (cs_by_requirement S)" intent_of] by blast
  then show ?thesis by (simp add: intents_projection_def)
qed

lemma reconcile_total: "\<exists>r. reconcile_plan sha z cat p ids policy cfg ratio = Inr r"
proof -
  let ?inp = "rf_planner_input (reconcile_read_facts cat p ids policy cfg ratio)"
  obtain S where S: "candidates z ?inp (requirements sha ?inp) = Inr S" using candidates_total by blast
  obtain ws where "intents_projection S = Inr ws" using intents_total [OF S] by blast
  moreover obtain ds where "reconcile_diagnostics ?inp (rg_desired (requirements sha ?inp))
      (rf_manifest_batch (reconcile_read_facts cat p ids policy cfg ratio)) S
      (map (match_of ?inp (rg_desired (requirements sha ?inp))) (cs_satisfied S)) = Inr ds"
    using diagnostics_total [OF S] by blast
  ultimately show ?thesis by (simp add: reconcile_plan_def S Let_def)
qed

lemma classify_repos_cover:
  "repo \<in> set repos \<Longrightarrow> map_of (mb_manifests (classify_repos rows policy repos)) repo = None \<Longrightarrow>
   repo \<in> fst ` set (mb_errors (classify_repos rows policy repos))"
  by (induction repos) (auto simp: Let_def split: sum.splits if_splits)

lemma manifest_or_error:
  assumes "repo \<in> set repos" "map_of (mb_manifests (inspect_manifests_for_repos table repos policy)) repo = None"
  shows "repo \<in> fst ` set (mb_errors (inspect_manifests_for_repos table repos policy))"
  using assms classify_repos_cover [of repo "sorted_set repos"]
  by (auto simp: inspect_manifests_for_repos_def Let_def split: if_splits)

lemma manifest_has_requirement:
  assumes "(repo, m) \<in> set (pi_manifests inp)"
  shows "\<exists>q\<in>set (rg_desired (requirements sha inp)). rq_repo q = repo"
proof -
  have ne: "\<exists>q\<in>set (repo_requirements P H R nc repo). rq_repo q = repo" for P H R nc
    by (simp add: repo_requirements_def)
  have "set (repo_requirements P H R nc repo) \<subseteq> set (concat (map (\<lambda>(repo, _).
      repo_requirements P H R nc repo) (pi_manifests inp)))" for P H R nc
    using assms by force
  with ne show ?thesis
    unfolding requirements_def Let_def by (simp only: requirement_graph.simps set_sort) blast
qed

lemma set_intents:
  assumes "intents_projection S = Inr ws" "(rid, cs) \<in> set (cs_by_requirement S)" "cs \<noteq> []"
  shows "\<exists>w\<in>set ws. wi_requirement w = rid \<and> wi_eligible w \<noteq> []"
proof -
  let ?xs = "filter (\<lambda>(_, cands). cands \<noteq> []) (cs_by_requirement S)"
  obtain ys where ys: "try_map intent_of ?xs = Inr ys" "set ws = set ys"
    using assms(1) by (auto simp: intents_projection_def split: sum.splits)
  have x: "(rid, cs) \<in> set ?xs" using assms(2,3) by simp
  with try_map_total_inv [OF ys(1)] obtain w where w: "intent_of (rid, cs) = Inr w" by blast
  then have "wi_requirement w = rid \<and> wi_eligible w \<noteq> []"
    using assms(3) by (auto simp: intent_of_def Let_def split: sum.splits)
  moreover have "w \<in> set ws" using x w try_map_mem [OF ys(1)] ys(2) by blast
  ultimately show ?thesis by blast
qed

text \<open>What a reconciliation did with one requested repository and one desired copy.\<close>

definition policy_blocked :: "reconcile_result \<Rightarrow> str \<Rightarrow> bool" where
  "policy_blocked r repo \<longleftrightarrow> list_ex (\<lambda>d. dg_code d = ''MANIFEST_POLICY'' \<and> dg_severity d = BLOCKING
     \<and> (''repo_id'', DText repo) \<in> set (dg_detail d)) (rr_diagnostics r)"

definition blocked_by_diagnostic :: "reconcile_result \<Rightarrow> str \<Rightarrow> bool" where
  "blocked_by_diagnostic r rid \<longleftrightarrow> list_ex (\<lambda>d. dg_severity d = BLOCKING \<and> dg_requirement d = Some rid)
     (rr_diagnostics r)"

definition has_work :: "reconcile_result \<Rightarrow> str \<Rightarrow> bool" where
  "has_work r rid \<longleftrightarrow> list_ex (\<lambda>w. wi_requirement w = rid \<and> wi_eligible w \<noteq> []) (rr_intents r)"

lemma reconcile_parts:
  assumes "reconcile_plan sha z cat p ids policy cfg ratio = Inr r"
  obtains inp batch S ws ds where
    "inp = rf_planner_input (reconcile_read_facts cat p ids policy cfg ratio)"
    "batch = rf_manifest_batch (reconcile_read_facts cat p ids policy cfg ratio)"
    "candidates z inp (requirements sha inp) = Inr S"
    "reconcile_diagnostics inp (rg_desired (requirements sha inp)) batch S
       (map (match_of inp (rg_desired (requirements sha inp))) (cs_satisfied S)) = Inr ds"
    "intents_projection S = Inr ws"
    "rr_diagnostics r = ds" "rr_intents r = ws" "rr_candidates r = S"
    "rr_satisfied r = fst ` set (cs_satisfied S)"
    "rr_requirements r = rg_desired (requirements sha inp)" "rr_manifests r = pi_manifests inp"
    "rr_repo_ids r = selected_repos cat ids" "rr_plan_id r = p"
    "rr_matches r = sort (map (match_of inp (rg_desired (requirements sha inp))) (cs_satisfied S))"
proof -
  have ids: "rf_selected_repos (reconcile_read_facts cat p ids policy cfg ratio) = selected_repos cat ids"
    by (simp add: reconcile_read_facts_def Let_def)
  show ?thesis
    using assms that [OF refl refl] unfolding reconcile_plan_def Let_def
    by (auto simp: ids split: sum.splits)
qed

lemma diagnostics_mem:
  assumes "reconcile_diagnostics inp desired batch S matches = Inr ds"
  shows "set (manifest_diagnostics batch) \<subseteq> set ds"
    "\<exists>bl. try_map (blocked_diagnostic desired S) (cs_blocked S) = Inr bl \<and> set bl \<subseteq> set ds"
proof -
  from assms have "\<exists>bl rest. try_map (blocked_diagnostic desired S) (cs_blocked S) = Inr bl
      \<and> sort_key diagnostic_key (manifest_diagnostics batch @ bl @ rest) = ds"
    unfolding reconcile_diagnostics_def
    by (cases "try_map (blocked_diagnostic desired S) (cs_blocked S)") (simp_all split: sum.splits, blast)
  then obtain bl rest where "try_map (blocked_diagnostic desired S) (cs_blocked S) = Inr bl"
    "ds = sort_key diagnostic_key (manifest_diagnostics batch @ bl @ rest)"
    by blast
  then show "set (manifest_diagnostics batch) \<subseteq> set ds"
    "\<exists>bl. try_map (blocked_diagnostic desired S) (cs_blocked S) = Inr bl \<and> set bl \<subseteq> set ds"
    by auto
qed

lemma manifest_error_diagnosed:
  "repo \<in> fst ` set (mb_errors batch) \<Longrightarrow> \<exists>d\<in>set (manifest_diagnostics batch).
     dg_code d = ''MANIFEST_POLICY'' \<and> dg_severity d = BLOCKING \<and> (''repo_id'', DText repo) \<in> set (dg_detail d)"
  by (force simp: manifest_diagnostics_def diag_def)

lemma diag_fields [simp]:
  "dg_code (diag c s r q d) = c" "dg_severity (diag c s r q d) = s" "dg_requirement (diag c s r q d) = q"
  "set (dg_detail (diag c s r q d)) = set d"
  by (simp_all add: diag_def)

lemma blocked_diagnosed:
  assumes "try_map (blocked_diagnostic desired S) (cs_blocked S) = Inr bl" "rid \<in> fst ` set (cs_blocked S)"
  shows "\<exists>d\<in>set bl. dg_severity d = BLOCKING \<and> dg_requirement d = Some rid"
proof -
  from assms(2) obtain reason where x: "(rid, reason) \<in> set (cs_blocked S)" by force
  with try_map_total_inv [OF assms(1)] obtain d where d: "blocked_diagnostic desired S (rid, reason) = Inr d" by blast
  then have "dg_severity d = BLOCKING \<and> dg_requirement d = Some rid"
    by (cases "requirement_of desired rid"; cases "reason = ''no_eligible_tier''")
       (auto simp: blocked_diagnostic_def)
  with x d try_map_mem [OF assms(1)] show ?thesis by blast
qed

lemma plan_manifest:
  assumes "repo \<in> set (selected_repos cat ids)"
  shows "repo \<in> fst ` set (mb_errors (rf_manifest_batch (reconcile_read_facts cat p ids policy cfg ratio)))
     \<or> repo \<in> fst ` set (pi_manifests (rf_planner_input (reconcile_read_facts cat p ids policy cfg ratio)))"
proof (cases "map_of (mb_manifests (inspect_manifests_for_repos (ct_files cat) (selected_repos cat ids) policy)) repo")
  case None
  from manifest_or_error [OF assms this] show ?thesis by (simp add: reconcile_read_facts_def Let_def)
next
  case (Some m)
  with assms show ?thesis by (force simp: reconcile_read_facts_def Let_def)
qed

text \<open>Nothing reconciliation leaves without a candidate goes without a blocking diagnostic.\<close>

lemma reconcile_blocked_diagnosed:
  assumes "reconcile_plan sha z cat p ids policy cfg ratio = Inr r"
    and "rid \<in> fst ` set (cs_blocked (rr_candidates r))"
  shows "blocked_by_diagnostic r rid"
proof -
  from reconcile_parts [OF assms(1)] obtain inp batch S ds where
    ds: "reconcile_diagnostics inp (rg_desired (requirements sha inp)) batch S
       (map (match_of inp (rg_desired (requirements sha inp))) (cs_satisfied S)) = Inr ds" and
    rr: "rr_diagnostics r = ds" "rr_candidates r = S"
    by metis
  from diagnostics_mem(2) [OF ds] obtain bl where
    bl: "try_map (blocked_diagnostic (rg_desired (requirements sha inp)) S) (cs_blocked S) = Inr bl" "set bl \<subseteq> set ds"
    by blast
  from blocked_diagnosed [OF bl(1), of rid] assms(2) bl(2) show ?thesis
    unfolding blocked_by_diagnostic_def rr list_ex_iff by blast
qed

lemma reconcile_accounts:
  assumes "reconcile_plan sha z cat p ids policy cfg ratio = Inr r"
  shows "rr_repo_ids r = selected_repos cat ids
     \<and> list_all (\<lambda>repo. policy_blocked r repo \<or> repo \<in> rq_repo ` set (rr_requirements r)) (rr_repo_ids r)
     \<and> list_all (\<lambda>q. rq_id q \<in> rr_satisfied r \<or> has_work r (rq_id q) \<or> blocked_by_diagnostic r (rq_id q))
         (rr_requirements r)"
proof -
  from reconcile_parts [OF assms] obtain inp batch S ws ds where
    inp: "inp = rf_planner_input (reconcile_read_facts cat p ids policy cfg ratio)"
      "batch = rf_manifest_batch (reconcile_read_facts cat p ids policy cfg ratio)" and
    S: "candidates z inp (requirements sha inp) = Inr S" and
    ds: "reconcile_diagnostics inp (rg_desired (requirements sha inp)) batch S
       (map (match_of inp (rg_desired (requirements sha inp))) (cs_satisfied S)) = Inr ds" and
    ws: "intents_projection S = Inr ws" and
    rr: "rr_diagnostics r = ds" "rr_intents r = ws" "rr_satisfied r = fst ` set (cs_satisfied S)"
      "rr_requirements r = rg_desired (requirements sha inp)" "rr_repo_ids r = selected_repos cat ids"
    by metis
  note dm = diagnostics_mem [OF ds]
  have "policy_blocked r repo \<or> repo \<in> rq_repo ` set (rr_requirements r)" if "repo \<in> set (selected_repos cat ids)" for repo
    using plan_manifest [OF that, of p policy cfg ratio]
  proof
    assume "repo \<in> fst ` set (mb_errors (rf_manifest_batch (reconcile_read_facts cat p ids policy cfg ratio)))"
    from manifest_error_diagnosed [OF this] dm(1) show ?thesis
      unfolding policy_blocked_def rr list_ex_iff inp(2) by blast
  next
    assume "repo \<in> fst ` set (pi_manifests (rf_planner_input (reconcile_read_facts cat p ids policy cfg ratio)))"
    then obtain m where "(repo, m) \<in> set (pi_manifests inp)" unfolding inp by force
    from manifest_has_requirement [OF this] show ?thesis unfolding rr by blast
  qed
  moreover have "rq_id q \<in> rr_satisfied r \<or> has_work r (rq_id q) \<or> blocked_by_diagnostic r (rq_id q)"
    if q: "q \<in> set (rg_desired (requirements sha inp))" for q
  proof (cases "outcome_of z inp (requirements sha inp) q")
    case (Satisfied cs)
    with q show ?thesis unfolding rr candidates_sets(1) [OF S] by force
  next
    case (Open cs)
    with q have "(rq_id q, cs) \<in> set (cs_by_requirement S)" "cs \<noteq> []"
      unfolding candidates_sets(2) [OF S] by (auto simp: outcome_cases)
    from set_intents [OF ws this] \<open>cs \<noteq> []\<close> show ?thesis
      unfolding has_work_def rr list_ex_iff by blast
  next
    case (Blocked b)
    with q have "rq_id q \<in> fst ` set (cs_blocked S)"
      unfolding candidates_sets(3) [OF S] by force
    with dm(2) blocked_diagnosed show ?thesis
      unfolding blocked_by_diagnostic_def rr list_ex_iff by blast
  qed
  ultimately show ?thesis
    using rr by (simp add: list_all_iff)
qed

section \<open>Properties\<close>

text \<open>
  C25: Reconciliation never drops work silently: it always returns, every requested repository is
  reported blocked by the manifest policy or has a desired copy, and every desired copy is
  satisfied, offered as work with at least one eligible drive, or reported by a blocking
  diagnostic.
\<close>

theorem reconcile_accounts_for_everything:
  "\<exists>r. reconcile_plan sha z cat p ids policy cfg ratio = Inr r
     \<and> rr_repo_ids r = selected_repos cat ids
     \<and> list_all (\<lambda>repo. policy_blocked r repo \<or> repo \<in> rq_repo ` set (rr_requirements r)) (rr_repo_ids r)
     \<and> list_all (\<lambda>q. rq_id q \<in> rr_satisfied r \<or> has_work r (rq_id q) \<or> blocked_by_diagnostic r (rq_id q))
         (rr_requirements r)"
proof -
  obtain r where r: "reconcile_plan sha z cat p ids policy cfg ratio = Inr r" using reconcile_total by blast
  show ?thesis by (rule exI [of _ r], rule conjI [OF r reconcile_accounts [OF r]])
qed

end
