(* ===== verification/Capacity.thy ===== *)
theory Capacity
  imports Reconcile GateB Evidence
begin

text \<open>
  \<open>modelark/capacity.py\<close>: the byte ledger between the reconciled graph and the executor. It
  pairs plan drives with their admission evidence, builds the solver input, runs Gate B and the
  improvement, and projects the verdict onto assigned tasks, drive ledgers and typed failures.
  The catalog is the record of \<open>Reconcile\<close>; Python's \<open>KeyError\<close>, \<open>IndexError\<close>,
  \<open>ValueError\<close> and \<open>TypeError\<close> are values of \<open>capacity_error\<close>.
\<close>

section \<open>Data\<close>

datatype capacity_mode = GUARANTEED | COMPRESSION_AWARE

datatype free_evidence = LIVE | SNAPSHOT

datatype failure_code =
    Capacity_Durable_Short
  | Capacity_Workspace_Short
  | Capacity_Unknown
  | Target_Drive_Changed
  | Tier_Missing
  | Provenance_Unproven
  | Exceeds_Usable_Max
  | Domain_Unsatisfiable
  | Dependency_Broken
  | Graph_Invariant

datatype capacity_error =
    Unsupported_Mode str
  | Modes_Disagree
  | Config_Refused
  | Unmapped_Code
  | Cap_Key_Error str
  | Cap_Index_Error str
  | No_Verdict

text \<open>A capacity mode argument: text, or a member of the enumeration.\<close>

datatype mode_arg = Mode_Text str | Mode_Member capacity_mode

fun mode_value :: "capacity_mode \<Rightarrow> str" where
  "mode_value GUARANTEED = ''guaranteed''"
| "mode_value COMPRESSION_AWARE = ''compression_aware''"

fun evidence_kind_value :: "evidence_kind \<Rightarrow> str" where
  "evidence_kind_value Live = ''live''"
| "evidence_kind_value Anchor = ''anchor''"
| "evidence_kind_value Unknown = ''unknown''"

fun evidence_code_value :: "evidence_code \<Rightarrow> str" where
  "evidence_code_value DRIVE_IDENTITY_UNPROVEN = ''DRIVE_IDENTITY_UNPROVEN''"
| "evidence_code_value UNSUPPORTED_SHARED_WRITER = ''UNSUPPORTED_SHARED_WRITER''"
| "evidence_code_value DRIVE_FENCE_UNAVAILABLE = ''DRIVE_FENCE_UNAVAILABLE''"
| "evidence_code_value CAPACITY_EVIDENCE_UNKNOWN = ''CAPACITY_EVIDENCE_UNKNOWN''"
| "evidence_code_value DRIVE_RECONCILIATION_REQUIRED = ''DRIVE_RECONCILIATION_REQUIRED''"
| "evidence_code_value ANCHOR_OUT_OF_RANGE = ''ANCHOR_OUT_OF_RANGE''"
| "evidence_code_value DRIVE_SERIAL_REPAIR_REQUIRED = ''DRIVE_SERIAL_REPAIR_REQUIRED''"

record capacity_drive =
  cd_label :: str
  cd_role :: str
  cd_raid_backed :: bool
  cd_capacity_bytes :: int
  cd_evidence :: evidence
  cd_safety_floor :: int

record task_budget =
  tb_task_id :: str
  tb_requirement :: str
  tb_repo :: str
  tb_kind :: task_kind
  tb_target :: str
  tb_source :: "str option"
  tb_missing_files :: "str list"
  tb_file_budgets :: "file_budget list"
  tb_guaranteed_durable :: int
  tb_expected_durable :: int
  tb_workspace_peak_guaranteed :: int
  tb_workspace_peak_expected :: int
  tb_evidence :: str

record assigned_task =
  as_task_id :: str
  as_requirement :: str
  as_repo :: str
  as_kind :: task_kind
  as_target :: str
  as_source :: "str option"
  as_depends_on :: "str option"
  as_budget :: task_budget

record drive_ledger =
  dl_label :: str
  dl_observed_free :: "int option"
  dl_free_evidence :: "free_evidence option"
  dl_evidence_kind :: evidence_kind
  dl_evidence_code :: "evidence_code option"
  dl_observed_at :: "str option"
  dl_identity_epoch :: "int option"
  dl_safety_floor :: int
  dl_usable_now :: int
  dl_guaranteed_durable :: int
  dl_expected_durable :: int
  dl_workspace_peak_guaranteed :: int
  dl_workspace_peak_expected :: int

record capacity_failure =
  fl_code :: failure_code
  fl_capacity_mode :: capacity_mode
  fl_requirement :: "str option"
  fl_task_ids :: "str list"
  fl_target_tier :: "str option"
  fl_eligible :: "str list"
  fl_required_bytes :: int
  fl_available_bytes :: int
  fl_safety_floor_bytes :: int
  fl_workspace_bytes :: int
  fl_shortfall_bytes :: int
  fl_evidence :: "free_evidence option"
  fl_actions :: "str list"
  fl_blocked_by :: "str option"
  fl_evidence_code :: "evidence_code option"

text \<open>The \<open>gate_b_diagnostics\<close> of a plan.\<close>

datatype plan_diagnostics = NoPlanDiagnostics | TargetDriveChanged | GateDiagnostics diagnostics

record capacity_plan =
  cp_mode :: capacity_mode
  cp_tasks :: "assigned_task list"
  cp_batch_order :: "str list"
  cp_blocking :: "str list"
  cp_unassigned :: "work_intent list"
  cp_ledgers :: "drive_ledger list"
  cp_failures :: "capacity_failure list"
  cp_gate_b_code :: gate_code
  cp_gate_b_diagnostics :: plan_diagnostics
  cp_gate_b_actions :: "str list"
  cp_derivation_mode :: "derivation_mode option"

definition usable_now :: "capacity_drive \<Rightarrow> int" where
  "usable_now d = ev_admissible_free (cd_evidence d)"

definition free_evidence_of :: "capacity_drive \<Rightarrow> free_evidence option" where
  "free_evidence_of d =
     (case ev_kind (cd_evidence d) of Live \<Rightarrow> Some LIVE | Anchor \<Rightarrow> Some SNAPSHOT | Unknown \<Rightarrow> None)"

definition tb_durable_for :: "capacity_mode \<Rightarrow> task_budget \<Rightarrow> int" where
  "tb_durable_for mode b = (if mode = GUARANTEED then tb_guaranteed_durable b else tb_expected_durable b)"

definition tb_workspace_for :: "capacity_mode \<Rightarrow> task_budget \<Rightarrow> int" where
  "tb_workspace_for mode b =
     (if mode = GUARANTEED then tb_workspace_peak_guaranteed b else tb_workspace_peak_expected b)"

definition required_peak :: "capacity_mode \<Rightarrow> drive_ledger \<Rightarrow> int" where
  "required_peak mode l =
     (if mode = GUARANTEED then dl_guaranteed_durable l + dl_workspace_peak_guaranteed l
      else dl_expected_durable l + dl_workspace_peak_expected l)"

definition plan_feasible :: "capacity_plan \<Rightarrow> bool" where
  "plan_feasible p \<longleftrightarrow> cp_gate_b_code p = Feasible \<and> cp_blocking p = [] \<and> cp_failures p = []
     \<and> cp_unassigned p = []"

section \<open>Modes and the observed ratio\<close>

definition mode_from_value :: "mode_arg \<Rightarrow> capacity_error + capacity_mode" where
  "mode_from_value v =
     (case v of
        Mode_Member m \<Rightarrow> Inr m
      | Mode_Text t \<Rightarrow>
          if t = ''uncompressed'' \<or> t = ''guaranteed'' then Inr GUARANTEED
          else if t = ''compressed'' \<or> t = ''compression_aware'' then Inr COMPRESSION_AWARE
          else Inl (Unsupported_Mode t))"

definition DEFAULT_FLOAT_RATIO :: rat where
  "DEFAULT_FLOAT_RATIO = fl (67 / 100)"

definition RATIO_MIN_SAMPLE :: int where
  "RATIO_MIN_SAMPLE = 50000000000"

text \<open>
  The query joins \<open>archived\<close> with \<open>files\<close> on repository and name, keeps float safetensors rows
  with original bytes and sums both sizes; the true division of two integers rounds once.
\<close>

definition float_quants :: "str list" where
  "float_quants = [''bf16'', ''bfloat16'', ''fp16'', ''f16'', ''float16'', ''fp32'', ''f32'', ''float32'']"

definition is_float_row :: "file_row \<Rightarrow> bool" where
  "is_float_row r \<longleftrightarrow> fr_format r = Some ''safetensors''
     \<and> (case fr_quant r of None \<Rightarrow> True | Some q \<Rightarrow> py_lower q \<in> set float_quants)"

definition ratio_rows :: "catalog \<Rightarrow> archived_row list" where
  "ratio_rows cat =
     concat (map (\<lambda>a. map (\<lambda>_. a) (filter (\<lambda>(repo, r). repo = aw_repo a \<and> fr_rfilename r = aw_rfilename a
          \<and> is_float_row r \<and> coalesce (aw_orig_bytes a) 0 > 0) (ct_files cat))) (ct_archived cat))"

definition observed_float_ratio :: "catalog \<Rightarrow> rat option" where
  "observed_float_ratio cat =
     (let stored = sum_list (map (\<lambda>a. coalesce (aw_stored_bytes a) 0) (ratio_rows cat));
          original = sum_list (map (\<lambda>a. coalesce (aw_orig_bytes a) 0) (ratio_rows cat)) in
      if original \<ge> RATIO_MIN_SAMPLE then Some (fl (of_int stored / of_int original)) else None)"

definition plan_float_ratio :: "catalog \<Rightarrow> rat" where
  "plan_float_ratio cat =
     (let r = coalesce (observed_float_ratio cat) 0 in
      max (if r = 0 then DEFAULT_FLOAT_RATIO else r) DEFAULT_FLOAT_RATIO)"

section \<open>Drives\<close>

definition no_evidence :: evidence where
  "no_evidence = \<lparr>ev_kind = Unknown, ev_executable = False, ev_admissible_free = 0,
     ev_code = Some CAPACITY_EVIDENCE_UNKNOWN, ev_observed_free = None, ev_optimistic_usable_max = None,
     ev_legacy_free_bytes = None, ev_observed_at = None, ev_identity_epoch = None\<rparr>"

definition capacity_drive_of :: "(str \<times> evidence) list \<Rightarrow> catalog_drive \<Rightarrow> capacity_drive" where
  "capacity_drive_of evidence_by_drive d =
     (let raid = (coalesce (cg_raid_backed d) 0 \<noteq> 0);
          epoch_capacity = coalesce (cg_filesystem_capacity_bytes d) (coalesce (cg_capacity_bytes d) 0) in
      \<lparr>cd_label = cg_label d, cd_role = coalesce (cg_role d) ''primary'', cd_raid_backed = raid,
       cd_capacity_bytes = coalesce (cg_capacity_bytes d) 0,
       cd_evidence = coalesce (dict_get evidence_by_drive (cg_label d)) no_evidence,
       cd_safety_floor = safety_floor epoch_capacity raid\<rparr>)"

definition inspect_drives :: "catalog \<Rightarrow> str \<Rightarrow> (str \<times> evidence) list \<Rightarrow> capacity_drive list" where
  "inspect_drives cat plan_id evidence_by_drive =
     map (capacity_drive_of evidence_by_drive) (plan_rows cat plan_id)"

definition drive_tier :: "capacity_drive \<Rightarrow> str" where
  "drive_tier d = (if cd_role d = ''replica'' then ''replica''
     else if cd_raid_backed d then ''raid_home'' else ''primary'')"

definition actions_for :: "capacity_drive \<Rightarrow> str list \<Rightarrow> str list" where
  "actions_for d base =
     (if ev_kind (cd_evidence d) = Unknown \<and> ev_code (cd_evidence d) = Some DRIVE_SERIAL_REPAIR_REQUIRED
      then [''inspect_serial_identity'', ''repair_serial_identity'', ''retry_preview'']
      else if ev_kind (cd_evidence d) = Unknown then ''mount_or_reconcile_drive'' # base
      else base)"

section \<open>Task budgets and the per-file guard\<close>

definition cap_repo_part :: "str \<Rightarrow> capacity_error + str" where
  "cap_repo_part rid =
     (case split_once_tail (CHR '':'') rid of None \<Rightarrow> Inl (Cap_Index_Error rid) | Some r \<Rightarrow> Inr r)"

definition task_id_of :: "task_kind \<Rightarrow> str \<Rightarrow> str" where
  "task_id_of kind rid = task_kind_value kind @ '':'' @ rid"

definition task_budget_of :: "candidate \<Rightarrow> capacity_error + task_budget" where
  "task_budget_of c =
     (case cap_repo_part (ca_requirement c) of
        Inl e \<Rightarrow> Inl e
      | Inr repo \<Rightarrow> Inr
         \<lparr>tb_task_id = task_id_of (ca_task_kind c) (ca_requirement c), tb_requirement = ca_requirement c,
          tb_repo = repo, tb_kind = ca_task_kind c, tb_target = ca_target c,
          tb_source = (case ca_source c of FromHome s \<Rightarrow> Some (si_drive s) | _ \<Rightarrow> None),
          tb_missing_files = map mf_rfilename (ca_missing c),
          tb_file_budgets = cb_file_budgets (ca_budget c),
          tb_guaranteed_durable = cb_guaranteed_durable (ca_budget c),
          tb_expected_durable = cb_expected_durable (ca_budget c),
          tb_workspace_peak_guaranteed = cb_workspace_peak_guaranteed (ca_budget c),
          tb_workspace_peak_expected = cb_workspace_peak_expected (ca_budget c),
          tb_evidence = (case cb_file_budgets (ca_budget c) of [] \<Rightarrow> ''estimate'' | b # _ \<Rightarrow> fb_evidence b)\<rparr>)"

definition short_code :: "int \<Rightarrow> int \<Rightarrow> failure_code" where
  "short_code durable available =
     (if durable > available then Capacity_Durable_Short else Capacity_Workspace_Short)"

definition preflight_file ::
  "capacity_drive \<Rightarrow> file_budget \<Rightarrow> capacity_mode \<Rightarrow> str option \<Rightarrow> str \<Rightarrow> capacity_failure option" where
  "preflight_file d b mode requirement task_id =
     (let guaranteed = (mode = GUARANTEED);
          durable = durable_for guaranteed b; workspace = workspace_for guaranteed b;
          required = durable + workspace in
      if required \<le> usable_now d then None
      else Some \<lparr>fl_code = short_code durable (usable_now d), fl_capacity_mode = mode,
         fl_requirement = requirement, fl_task_ids = [task_id], fl_target_tier = Some (drive_tier d),
         fl_eligible = [cd_label d], fl_required_bytes = required, fl_available_bytes = usable_now d,
         fl_safety_floor_bytes = cd_safety_floor d, fl_workspace_bytes = workspace,
         fl_shortfall_bytes = required - usable_now d, fl_evidence = free_evidence_of d,
         fl_actions = actions_for d [''free_target_space'', ''add_eligible_drive'', ''replan''],
         fl_blocked_by = None, fl_evidence_code = ev_code (cd_evidence d)\<rparr>)"

definition target_drive_changed_failure :: "assigned_task \<Rightarrow> capacity_mode \<Rightarrow> capacity_failure" where
  "target_drive_changed_failure t mode =
     (let durable = tb_durable_for mode (as_budget t); workspace = tb_workspace_for mode (as_budget t);
          required = durable + workspace in
      \<lparr>fl_code = Target_Drive_Changed, fl_capacity_mode = mode, fl_requirement = Some (as_requirement t),
       fl_task_ids = [as_task_id t],
       fl_target_tier = Some (if as_kind t = REPLICATE then ''replica'' else ''primary''),
       fl_eligible = [as_target t], fl_required_bytes = required, fl_available_bytes = 0,
       fl_safety_floor_bytes = 0, fl_workspace_bytes = workspace, fl_shortfall_bytes = required,
       fl_evidence = None, fl_actions = [''reconcile_plan'', ''restore_target_drive_to_plan''],
       fl_blocked_by = None, fl_evidence_code = None\<rparr>)"

section \<open>Ledgers and batch order\<close>

definition ledger_of :: "assigned_task list \<Rightarrow> capacity_drive \<Rightarrow> drive_ledger" where
  "ledger_of tasks d =
     (let bs = map as_budget (filter (\<lambda>t. as_target t = cd_label d) tasks) in
      \<lparr>dl_label = cd_label d, dl_observed_free = ev_observed_free (cd_evidence d),
       dl_free_evidence = free_evidence_of d, dl_evidence_kind = ev_kind (cd_evidence d),
       dl_evidence_code = ev_code (cd_evidence d), dl_observed_at = ev_observed_at (cd_evidence d),
       dl_identity_epoch = ev_identity_epoch (cd_evidence d), dl_safety_floor = cd_safety_floor d,
       dl_usable_now = usable_now d,
       dl_guaranteed_durable = sum_list (map tb_guaranteed_durable bs),
       dl_expected_durable = sum_list (map tb_expected_durable bs),
       dl_workspace_peak_guaranteed = py_max (map tb_workspace_peak_guaranteed bs),
       dl_workspace_peak_expected = py_max (map tb_workspace_peak_expected bs)\<rparr>)"

definition ledgers :: "capacity_drive list \<Rightarrow> assigned_task list \<Rightarrow> drive_ledger list" where
  "ledgers drives tasks = map (ledger_of tasks) drives"

type_synonym rank = "nat \<times> int \<times> str \<times> str"

definition execution_rank :: "assigned_task \<Rightarrow> reconcile_result \<Rightarrow> capacity_error + rank" where
  "execution_rank t result =
     (case dict_get (rr_manifests result) (as_repo t) of
        None \<Rightarrow> Inl (Cap_Key_Error (as_repo t))
      | Some manifest \<Rightarrow>
         (let raw_size = sum_list (map mf_size_bytes manifest);
              resumes_partial = length (tb_missing_files (as_budget t)) < length manifest;
              tier = (if as_kind t = FETCH \<and> resumes_partial then 0
                      else if as_kind t = FETCH \<and> raw_size > 250000000000 then 1
                      else if as_kind t = FETCH \<and> strip_prefix ''protected_home:'' (as_requirement t) \<noteq> None
                      then 2
                      else if as_kind t = FETCH then 3 else 4) in
          Inr (tier, - raw_size, as_repo t, as_requirement t)))"

text \<open>The smallest rank of the tasks of one drive; the list is not empty.\<close>

fun min_rank :: "rank list \<Rightarrow> rank" where
  "min_rank [] = (0, 0, [], [])"
| "min_rank (r # rs) = fold min rs r"

definition batch_order :: "assigned_task list \<Rightarrow> reconcile_result \<Rightarrow> capacity_error + str list" where
  "batch_order tasks result =
     (case try_map (\<lambda>t. map_sum id (Pair (as_target t)) (execution_rank t result)) tasks of
        Inl e \<Rightarrow> Inl e
      | Inr ranked \<Rightarrow> Inr
         (sort_key (\<lambda>l. (min_rank (map snd (filter (\<lambda>(m, _). m = l) ranked)), l))
           (remdups (map fst ranked))))"

end
