(* ===== verification/CapacityPlan.thy ===== *)
theory CapacityPlan
  imports Capacity
begin

text \<open>
  \<open>modelark/capacity.py\<close>, second part: \<open>plan_capacity\<close> with the projection of Gate B's
  assignment onto tasks, the construction of the solver input from a second catalog read, the
  stale-target guard, and the typed failures of every non-feasible verdict. The key hash of the
  search is the argument \<open>hsh\<close>.
\<close>

section \<open>From assignments to tasks\<close>

definition source_matches :: "assignment_task \<Rightarrow> candidate \<Rightarrow> bool" where
  "source_matches t c =
     (case (ca_source c, at_source t) of
        (FromHome s, Some x) \<Rightarrow> si_drive s = si_drive x \<and> si_annex_key s = si_annex_key x
          \<and> si_orig_sha256 s = si_orig_sha256 x
      | (PendingHome _, Some x) \<Rightarrow> si_annex_key x = None \<and> si_orig_sha256 x = None
      | (NoSource, None) \<Rightarrow> True
      | _ \<Rightarrow> False)"

definition match_candidate :: "candidate_set \<Rightarrow> assignment_task \<Rightarrow> candidate option" where
  "match_candidate cset t =
     (case List.find (\<lambda>(rid, _). rid = at_requirement t) (cs_by_requirement cset) of
        None \<Rightarrow> None
      | Some (_, cs) \<Rightarrow>
         (case filter (\<lambda>c. ca_target c = at_target t) cs of
            [] \<Rightarrow> None
          | [c] \<Rightarrow> Some c
          | c # d # rest \<Rightarrow>
             (case List.find (source_matches t) (c # d # rest) of None \<Rightarrow> Some c | Some m \<Rightarrow> Some m)))"

definition minimal_budget :: "assignment_task \<Rightarrow> capacity_error + task_budget" where
  "minimal_budget t =
     (case cap_repo_part (at_requirement t) of
        Inl e \<Rightarrow> Inl e
      | Inr repo \<Rightarrow> Inr
         \<lparr>tb_task_id = task_id_of (at_task_kind t) (at_requirement t), tb_requirement = at_requirement t,
          tb_repo = repo, tb_kind = at_task_kind t, tb_target = at_target t,
          tb_source = map_option si_drive (at_source t), tb_missing_files = at_missing_files t,
          tb_file_budgets = [], tb_guaranteed_durable = at_guaranteed_durable t,
          tb_expected_durable = at_expected_durable t,
          tb_workspace_peak_guaranteed = at_workspace_peak_guaranteed t,
          tb_workspace_peak_expected = at_workspace_peak_expected t, tb_evidence = at_budget_evidence t\<rparr>)"

definition resolve_budget_source :: "assignment_task \<Rightarrow> candidate \<Rightarrow> task_budget \<Rightarrow> task_budget" where
  "resolve_budget_source t c b =
     (case at_source t of
        Some s \<Rightarrow> b\<lparr>tb_source := Some (si_drive s)\<rparr>
      | None \<Rightarrow> (case ca_source c of PendingHome _ \<Rightarrow> b\<lparr>tb_source := None\<rparr> | _ \<Rightarrow> b))"

definition assigned_budget :: "candidate_set \<Rightarrow> assignment_task \<Rightarrow> capacity_error + task_budget" where
  "assigned_budget cset t =
     (case match_candidate cset t of
        None \<Rightarrow> minimal_budget t
      | Some c \<Rightarrow> map_sum id (resolve_budget_source t c) (task_budget_of c))"

definition assigned_task_of :: "candidate_set \<Rightarrow> assignment_task \<Rightarrow> capacity_error + assigned_task" where
  "assigned_task_of cset t =
     map_sum id (\<lambda>b. \<lparr>as_task_id = tb_task_id b, as_requirement = at_requirement t, as_repo = tb_repo b,
        as_kind = at_task_kind t, as_target = at_target t, as_source = tb_source b,
        as_depends_on = at_depends_on t, as_budget = b\<rparr>) (assigned_budget cset t)"

definition project_assigned_tasks :: "assignment \<Rightarrow> candidate_set \<Rightarrow> capacity_error + assigned_task list" where
  "project_assigned_tasks a cset =
     map_sum id (sort_key (\<lambda>t. (as_target t, task_kind_value (as_kind t), as_requirement t)))
       (try_map (assigned_task_of cset) (an_tasks a))"

section \<open>The solver input\<close>

definition adapter_solver_bounds :: solver_bounds where
  "adapter_solver_bounds = \<lparr>sb_feasibility_state_limit = 200000, sb_optimization_state_limit = 1500\<rparr>"

definition POLICY_VERSION :: str where "POLICY_VERSION = ''tiered_v2''"

definition is_successor :: "successor_preference option \<Rightarrow> str \<Rightarrow> bool" where
  "is_successor preference label =
     (case preference of None \<Rightarrow> False | Some pr \<Rightarrow> label = sp_successor pr)"

definition lane_capped :: "successor_preference option \<Rightarrow> str \<Rightarrow> int \<Rightarrow> int" where
  "lane_capped preference label n =
     (case preference of None \<Rightarrow> n | Some pr \<Rightarrow> if label = sp_successor pr then min n (sp_lane_bytes pr) else n)"

definition executable_free :: "successor_preference option \<Rightarrow> capacity_drive \<Rightarrow> int" where
  "executable_free preference d =
     lane_capped preference (cd_label d)
       (if ev_executable (cd_evidence d) then ev_admissible_free (cd_evidence d) else 0)"

definition drive_maximum :: "successor_preference option \<Rightarrow> capacity_drive \<Rightarrow> int option" where
  "drive_maximum preference d =
     (let mx = (case ev_optimistic_usable_max (cd_evidence d) of
            Some m \<Rightarrow> Some m
          | None \<Rightarrow> if ev_executable (cd_evidence d)
                    then Some (max 0 (cd_capacity_bytes d - cd_safety_floor d)) else None) in
      map_option (lane_capped preference (cd_label d)) mx)"

definition drive_evidence_fact :: "capacity_drive \<Rightarrow> evidence_fact" where
  "drive_evidence_fact d =
     \<lparr>ef_label = cd_label d, ef_executable = ev_executable (cd_evidence d),
      ef_kind = evidence_kind_value (ev_kind (cd_evidence d)),
      ef_code = map_option evidence_code_value (ev_code (cd_evidence d))\<rparr>"

definition build_solver_input ::
  "catalog \<Rightarrow> reconcile_result \<Rightarrow> capacity_mode \<Rightarrow> (str \<times> evidence) list \<Rightarrow> solver_bounds
     \<Rightarrow> successor_preference option \<Rightarrow> solver_input \<times> capacity_drive list \<times> str set" where
  "build_solver_input cat result mode evidence_by_drive bounds preference =
     (let drives = inspect_drives cat (rr_plan_id result) evidence_by_drive;
          facts = drive_facts cat (rr_plan_id result) in
      (\<lparr>so_graph = \<lparr>rg_desired = rr_requirements result, rg_hash = []\<rparr>,
        so_candidates = rr_candidates result, so_drives = facts,
        so_executable_budget = sort_key fst (map (\<lambda>d. (cd_label d, executable_free preference d)) drives),
        so_max_usable = sort_key fst (map (\<lambda>d. (cd_label d, drive_maximum preference d)) drives),
        so_drive_evidence = sort_key fst (map (\<lambda>d. (cd_label d, drive_evidence_fact d)) drives),
        so_capacity_mode = mode_value mode, so_policy_version = POLICY_VERSION,
        so_bounds = bounds, so_preference = preference\<rparr>,
       drives, set (map df_label (filter is_placeable facts))))"

section \<open>Failures\<close>

definition plain_failure :: "failure_code \<Rightarrow> capacity_mode \<Rightarrow> str option \<Rightarrow> capacity_failure" where
  "plain_failure code mode rid =
     \<lparr>fl_code = code, fl_capacity_mode = mode, fl_requirement = rid, fl_task_ids = [],
      fl_target_tier = None, fl_eligible = [], fl_required_bytes = 0, fl_available_bytes = 0,
      fl_safety_floor_bytes = 0, fl_workspace_bytes = 0, fl_shortfall_bytes = 0, fl_evidence = None,
      fl_actions = [], fl_blocked_by = None, fl_evidence_code = None\<rparr>"

definition stale_target_failure :: "capacity_mode \<Rightarrow> str \<Rightarrow> candidate list \<Rightarrow> capacity_failure" where
  "stale_target_failure mode rid cs =
     (let is_replica = (strip_prefix ''protected_replica:'' rid \<noteq> None) in
      (plain_failure Target_Drive_Changed mode (Some rid))
        \<lparr>fl_task_ids := [task_id_of (if is_replica then REPLICATE else FETCH) rid],
         fl_target_tier := Some (if is_replica then ''replica'' else ''primary''),
         fl_eligible := sorted_set (map ca_target cs),
         fl_actions := [''reconcile_plan'', ''restore_target_drive_to_plan'']\<rparr>)"

definition stale_target_failures ::
  "reconcile_result \<Rightarrow> capacity_drive list \<Rightarrow> capacity_mode \<Rightarrow> str set option \<Rightarrow> capacity_failure list" where
  "stale_target_failures result drives mode placeable =
     (let in_plan = cd_label ` set drives;
          usable = (case placeable of None \<Rightarrow> in_plan | Some p \<Rightarrow> p) \<inter> in_plan in
      List.map_filter (\<lambda>(rid, cs).
        if cs = [] \<or> list_all (\<lambda>c. ca_target c \<in> usable) cs then None
        else Some (stale_target_failure mode rid cs)) (cs_by_requirement (rr_candidates result)))"

definition structural_failure_code :: "gate_code \<Rightarrow> failure_code option" where
  "structural_failure_code code =
     (case code of
        Target_Tier_Missing \<Rightarrow> Some Tier_Missing
      | Unproven_Provenance \<Rightarrow> Some Provenance_Unproven
      | Requirement_Exceeds_Usable_Max \<Rightarrow> Some Exceeds_Usable_Max
      | Failure_Domain_Unsatisfiable \<Rightarrow> Some Domain_Unsatisfiable
      | Graph_Dependency_Invariant \<Rightarrow> Some Dependency_Broken
      | _ \<Rightarrow> None)"

text \<open>Requirement, drives and peak bytes read off the keys a diagnostics dictionary carries.\<close>

fun diagnostic_requirement :: "diagnostics \<Rightarrow> str option" where
  "diagnostic_requirement (TierMissing rid _ _ _) = Some rid"
| "diagnostic_requirement (UnprovenRows rid _ _ _) = Some rid"
| "diagnostic_requirement (DependencyInvariant rid _ _) = Some rid"
| "diagnostic_requirement (DomainCollision _ replica _) = Some replica"
| "diagnostic_requirement (ExceedsMax rid _ _ _) = Some rid"
| "diagnostic_requirement _ = None"

fun diagnostic_drives :: "diagnostics \<Rightarrow> str list" where
  "diagnostic_drives (TierMissing _ _ _ eligible) = eligible"
| "diagnostic_drives (UnprovenRows _ _ _ drives) = drives"
| "diagnostic_drives (ExceedsMax _ _ _ maxima) = map fst maxima"
| "diagnostic_drives (SearchDiagnostics _ drives _) = drives"
| "diagnostic_drives _ = []"

fun diagnostic_peak :: "diagnostics \<Rightarrow> int" where
  "diagnostic_peak (ExceedsMax _ _ n _) = n"
| "diagnostic_peak _ = 0"

definition structural_failure_projection ::
  "gate_code \<Rightarrow> gate_result \<Rightarrow> capacity_mode \<Rightarrow> capacity_error + capacity_failure list" where
  "structural_failure_projection code gate mode =
     (let d = gr_diagnostics gate in
      case structural_failure_code code of
        None \<Rightarrow> Inl Unmapped_Code
      | Some fcode \<Rightarrow> Inr [(plain_failure fcode mode (diagnostic_requirement d))
          \<lparr>fl_eligible := diagnostic_drives d, fl_required_bytes := diagnostic_peak d,
           fl_shortfall_bytes := diagnostic_peak d, fl_actions := gr_actions gate\<rparr>])"

definition representative_requirement :: "solver_input \<Rightarrow> str option" where
  "representative_requirement inp =
     (case List.find (\<lambda>(_, cs). cs \<noteq> []) (cs_by_requirement (so_candidates inp)) of
        Some (rid, _) \<Rightarrow> Some rid
      | None \<Rightarrow> (case rg_desired (so_graph inp) of [] \<Rightarrow> None | r # _ \<Rightarrow> Some (rq_id r)))"

definition candidate_targets :: "solver_input \<Rightarrow> str set" where
  "candidate_targets inp = set (concat (map (\<lambda>(_, cs). map ca_target cs) (cs_by_requirement (so_candidates inp))))"

definition unknown_evidence_failures ::
  "capacity_drive list \<Rightarrow> capacity_mode \<Rightarrow> solver_input \<Rightarrow> capacity_failure list" where
  "unknown_evidence_failures drives mode inp =
     (let targets = candidate_targets inp;
          strict = filter (\<lambda>d. cd_label d \<in> targets \<and> \<not> ev_executable (cd_evidence d)) drives;
          unknown = (if strict = [] then filter (\<lambda>d. cd_label d \<in> targets) drives else strict) in
      map (\<lambda>d. (plain_failure Capacity_Unknown mode (representative_requirement inp))
        \<lparr>fl_target_tier := Some (drive_tier d), fl_eligible := [cd_label d],
         fl_safety_floor_bytes := cd_safety_floor d, fl_evidence := free_evidence_of d,
         fl_evidence_code := ev_code (cd_evidence d),
         fl_actions := actions_for d [''mount_or_reconcile_drive'', ''retry_preview'']\<rparr>) unknown)"

definition find_capacity_drive :: "capacity_drive list \<Rightarrow> str \<Rightarrow> capacity_drive option" where
  "find_capacity_drive drives = dict_get (map (\<lambda>d. (cd_label d, d)) drives)"

definition budget_at :: "solver_input \<Rightarrow> str \<Rightarrow> int" where
  "budget_at inp label = (case dict_get (so_executable_budget inp) label of None \<Rightarrow> 0 | Some n \<Rightarrow> n)"

text \<open>The failure of one requirement on its roomiest drive, if it does not fit there.\<close>

definition requirement_short ::
  "solver_input \<Rightarrow> capacity_drive list \<Rightarrow> capacity_mode \<Rightarrow> str \<times> candidate list \<Rightarrow> capacity_failure option" where
  "requirement_short inp drives mode = (\<lambda>(rid, cs).
     if cs = [] then None
     else
      (let c = hd (sort_key (\<lambda>c. (- budget_at inp (ca_target c), ca_target c)) cs) in
       case find_capacity_drive drives (ca_target c) of
         None \<Rightarrow> None
       | Some d \<Rightarrow>
          (let durable = cand_durable (mode = GUARANTEED) c; workspace = cand_workspace (mode = GUARANTEED) c;
               required = durable + workspace; available = budget_at inp (ca_target c) in
           if required \<le> available then None
           else Some \<lparr>fl_code = short_code durable available, fl_capacity_mode = mode,
              fl_requirement = Some rid, fl_task_ids = [task_id_of (ca_task_kind c) rid],
              fl_target_tier = Some (drive_tier d), fl_eligible = sorted_set (map ca_target cs),
              fl_required_bytes = required, fl_available_bytes = available,
              fl_safety_floor_bytes = cd_safety_floor d, fl_workspace_bytes = workspace,
              fl_shortfall_bytes = required - available, fl_evidence = free_evidence_of d,
              fl_actions = actions_for d [''expand_eligible_tier'', ''trim_selection'', ''change_capacity_mode''],
              fl_blocked_by = ca_depends_on c, fl_evidence_code = ev_code (cd_evidence d)\<rparr>)))"

fun worst_short :: "capacity_failure option \<Rightarrow> capacity_failure list \<Rightarrow> capacity_failure option" where
  "worst_short best [] = best"
| "worst_short best (f # fs) =
     worst_short (case best of
        None \<Rightarrow> Some f
      | Some b \<Rightarrow> if fl_shortfall_bytes f > fl_shortfall_bytes b then Some f else Some b) fs"

definition capacity_short_failures ::
  "solver_input \<Rightarrow> capacity_drive list \<Rightarrow> capacity_mode \<Rightarrow> capacity_failure list" where
  "capacity_short_failures inp drives mode =
     (case worst_short None (List.map_filter (requirement_short inp drives mode)
             (cs_by_requirement (so_candidates inp))) of
        None \<Rightarrow> [] | Some f \<Rightarrow> [f])"

section \<open>The plan\<close>

text \<open>Distinct blocking codes, and first occurrences as \<open>dict.fromkeys\<close> keeps them.\<close>

definition blocking_codes :: "reconcile_result \<Rightarrow> str list" where
  "blocking_codes result = sorted_set (map dg_code (filter (\<lambda>d. dg_severity d = BLOCKING \<or> dg_severity d = ERROR)
     (rr_diagnostics result)))"

definition first_occurrences :: "'a list \<Rightarrow> 'a list" where
  "first_occurrences xs = rev (remdups (rev xs))"

text \<open>The mode argument; \<open>provisioning\<close> is the deprecated spelling.\<close>

definition resolve_mode :: "mode_arg option \<Rightarrow> mode_arg option \<Rightarrow> capacity_error + capacity_mode" where
  "resolve_mode capacity_mode provisioning =
     (let default = (\<lambda>m. mode_from_value (case m of
            None \<Rightarrow> Mode_Member GUARANTEED
          | Some v \<Rightarrow> if v = Mode_Text [] then Mode_Member GUARANTEED else v)) in
      case provisioning of
        None \<Rightarrow> default capacity_mode
      | Some p \<Rightarrow>
         (case mode_from_value p of
            Inl e \<Rightarrow> Inl e
          | Inr legacy \<Rightarrow>
             (case capacity_mode of
                None \<Rightarrow> Inr legacy
              | Some v \<Rightarrow> (case mode_from_value v of
                    Inl e \<Rightarrow> Inl e
                  | Inr m \<Rightarrow> if m \<noteq> legacy then Inl Modes_Disagree else Inr legacy))))"

text \<open>A plan without tasks, and the graded projection of a verdict that is not feasible.\<close>

definition empty_plan ::
  "capacity_mode \<Rightarrow> str list \<Rightarrow> capacity_drive list \<Rightarrow> capacity_failure list \<Rightarrow> gate_code \<Rightarrow> plan_diagnostics
     \<Rightarrow> str list \<Rightarrow> capacity_plan" where
  "empty_plan mode blocking drives failures code pdiag actions =
     \<lparr>cp_mode = mode, cp_tasks = [], cp_batch_order = [], cp_blocking = blocking, cp_unassigned = [],
      cp_ledgers = ledgers drives [], cp_failures = failures, cp_gate_b_code = code,
      cp_gate_b_diagnostics = pdiag, cp_gate_b_actions = actions, cp_derivation_mode = None\<rparr>"

definition gate_failures ::
  "solver_input \<Rightarrow> capacity_drive list \<Rightarrow> capacity_mode \<Rightarrow> gate_result \<Rightarrow> capacity_error + capacity_failure list" where
  "gate_failures inp drives mode gate =
     (case gr_code gate of
        Infeasible_Under_Admission_Budget \<Rightarrow> Inr (capacity_short_failures inp drives mode)
      | Capacity_Evidence_Unknown \<Rightarrow> Inr (unknown_evidence_failures drives mode inp)
      | Packing_Inconclusive \<Rightarrow> Inr []
      | Infeasible_With_Unknown_At_Usable_Max \<Rightarrow> Inr []
      | Feasible \<Rightarrow> Inr []
      | code \<Rightarrow> structural_failure_projection code gate mode)"

definition plan_actions :: "gate_result \<Rightarrow> capacity_failure list \<Rightarrow> str list" where
  "plan_actions gate failures =
     (if gr_code gate = Capacity_Evidence_Unknown
         \<and> list_ex (\<lambda>f. fl_evidence_code f = Some DRIVE_SERIAL_REPAIR_REQUIRED) failures
      then first_occurrences (concat (map fl_actions failures))
      else gr_actions gate)"

definition feasible_plan ::
  "(key_part \<Rightarrow> int) \<Rightarrow> solver_input \<Rightarrow> capacity_drive list \<Rightarrow> capacity_mode \<Rightarrow> str list \<Rightarrow> reconcile_result
     \<Rightarrow> assignment \<Rightarrow> capacity_error + capacity_plan" where
  "feasible_plan hsh inp drives mode blocking result first =
     (let improved = improve hsh inp first no_monitor in
      case project_assigned_tasks (pr_assignment improved) (rr_candidates result) of
        Inl e \<Rightarrow> Inl e
      | Inr tasks \<Rightarrow>
         (case batch_order tasks result of
            Inl e \<Rightarrow> Inl e
          | Inr order \<Rightarrow> Inr
             \<lparr>cp_mode = mode, cp_tasks = tasks, cp_batch_order = order, cp_blocking = blocking,
              cp_unassigned = [], cp_ledgers = ledgers drives tasks, cp_failures = [],
              cp_gate_b_code = Feasible, cp_gate_b_diagnostics = NoPlanDiagnostics,
              cp_gate_b_actions = [], cp_derivation_mode = Some (pr_derivation_mode improved)\<rparr>))"

definition plan_capacity ::
  "(key_part \<Rightarrow> int) \<Rightarrow> catalog \<Rightarrow> reconcile_result \<Rightarrow> mode_arg option \<Rightarrow> (str \<times> evidence) list
     \<Rightarrow> successor_preference option \<Rightarrow> bool \<Rightarrow> mode_arg option \<Rightarrow> capacity_error + capacity_plan" where
  "plan_capacity hsh cat result capacity_mode evidence_by_drive preference cfg_given provisioning =
     (if cfg_given then Inl Config_Refused
      else (case resolve_mode capacity_mode provisioning of
        Inl e \<Rightarrow> Inl e
      | Inr mode \<Rightarrow>
         (case build_solver_input cat result mode evidence_by_drive adapter_solver_bounds preference of
            (inp, drives, placeable) \<Rightarrow>
             (let blocking = blocking_codes result;
                  stale = stale_target_failures result drives mode (Some placeable) in
              if stale \<noteq> []
              then Inr (empty_plan mode blocking drives stale Infeasible_Under_Admission_Budget
                     TargetDriveChanged [''reconcile_plan'', ''restore_target_drive_to_plan''])
              else (case gate_b hsh inp of
                None \<Rightarrow> Inl No_Verdict
              | Some gate \<Rightarrow>
                 (case (gr_code gate, gr_assignment gate) of
                    (Feasible, Some first) \<Rightarrow> feasible_plan hsh inp drives mode blocking result first
                  | _ \<Rightarrow>
                     (case gate_failures inp drives mode gate of
                        Inl e \<Rightarrow> Inl e
                      | Inr failures \<Rightarrow> Inr (empty_plan mode blocking drives failures (gr_code gate)
                          (GateDiagnostics (gr_diagnostics gate)) (plan_actions gate failures)))))))))"

end
