(* ===== verification/PlanGuarantees.thy ===== *)
theory PlanGuarantees
  imports CapacityPlan
begin

text \<open>
  What the composition reconciliation, Gate B, projection guarantees: every budget of a plan is the
  budget the search counted, a feasible plan stays within the drives and covers the desired
  copies, a stale snapshot fails closed, and planning always answers.
\<close>

section \<open>Candidates of one requirement\<close>

definition source_drive :: "candidate \<Rightarrow> str option" where
  "source_drive c = (case ca_source c of FromHome s \<Rightarrow> Some (si_drive s) | _ \<Rightarrow> None)"

definition budgets_by_source :: "candidate list \<Rightarrow> bool" where
  "budgets_by_source cs \<longleftrightarrow> (\<forall>c\<in>set cs. \<forall>d\<in>set cs.
     (source_drive c = None \<longleftrightarrow> source_drive d = None)
     \<and> (ca_target c = ca_target d \<and> source_drive c = source_drive d \<longrightarrow> ca_budget c = ca_budget d))"

lemma budgets_by_sourceD:
  assumes "budgets_by_source cs" "c \<in> set cs" "d \<in> set cs"
  shows "source_drive c = None \<longleftrightarrow> source_drive d = None"
    "ca_target c = ca_target d \<Longrightarrow> source_drive c = source_drive d \<Longrightarrow> ca_budget c = ca_budget d"
  using assms unfolding budgets_by_source_def by blast+

lemma target_candidates_budget:
  assumes "c \<in> set (target_candidates z inp req sources t)" "d \<in> set (target_candidates z inp req sources t)"
  shows "source_drive c = None \<longleftrightarrow> source_drive d = None"
    "source_drive c = source_drive d \<Longrightarrow> ca_budget c = ca_budget d"
  using assms
  by (cases t; cases "rq_kind req = PROTECTED_REPLICA"; cases "sources = []";
      auto simp: target_candidates_def fetch_candidate_def replica_candidate_def replica_file_budgets_def
        source_drive_def Let_def)+

lemma target_candidates_source:
  assumes "c \<in> set (target_candidates z inp req sources t)"
  shows "source_drive c = None \<longleftrightarrow> \<not> (rq_kind req = PROTECTED_REPLICA \<and> sources \<noteq> [])"
  using assms
  by (cases t; cases "rq_kind req = PROTECTED_REPLICA"; cases "sources = []")
    (auto simp: target_candidates_def fetch_candidate_def replica_candidate_def source_drive_def Let_def)

lemma requirement_candidates_budgets: "budgets_by_source (requirement_candidates z inp desired req m)"
  unfolding budgets_by_source_def
proof (intro ballI conjI impI)
  fix c d assume c: "c \<in> set (requirement_candidates z inp desired req m)"
    and d: "d \<in> set (requirement_candidates z inp desired req m)"
  let ?src = "if rq_kind req = PROTECTED_REPLICA
     then home_sources req desired m (pi_archived inp) (pi_drives inp) else []"
  let ?vt = "valid_targets (pi_archived inp) req m (accepted_complete_pool req (pi_drives inp))"
  from c d obtain l reused missing l' reused' missing' where
    t: "(l, reused, missing) \<in> set ?vt" "c \<in> set (target_candidates z inp req ?src (l, reused, missing))" and
    t': "(l', reused', missing') \<in> set ?vt" "d \<in> set (target_candidates z inp req ?src (l', reused', missing'))"
    unfolding in_requirement_candidates by fast
  show "source_drive c = None \<longleftrightarrow> source_drive d = None"
    using target_candidates_source [OF t(2)] target_candidates_source [OF t'(2)] by simp
  assume eq: "ca_target c = ca_target d \<and> source_drive c = source_drive d"
  have "l = l'" using target_candidates_fields(2) [OF t(2)] target_candidates_fields(2) [OF t'(2)] eq by simp
  then have "reused = reused' \<and> missing = missing'"
    using t(1) t'(1) unfolding in_valid_targets by blast
  with \<open>l = l'\<close> t(2) t'(2) eq show "ca_budget c = ca_budget d"
    using target_candidates_budget(2) by metis
qed

text \<open>What the planner relies on in a candidate set of reconciliation.\<close>

definition planned :: "reconcile_result \<Rightarrow> bool" where
  "planned r \<longleftrightarrow> (\<forall>(rid, cs)\<in>set (cs_by_requirement (rr_candidates r)).
      (\<forall>cs'. (rid, cs') \<in> set (cs_by_requirement (rr_candidates r)) \<longrightarrow> cs' = cs)
      \<and> budgets_by_source cs \<and> cs \<noteq> [] \<and> (\<forall>c\<in>set cs. ca_requirement c = rid)
      \<and> (\<exists>repo. cap_repo_part rid = Inr repo \<and> repo \<in> fst ` set (rr_manifests r)))"

lemma plannedD:
  assumes "planned r" "(rid, cs) \<in> set (cs_by_requirement (rr_candidates r))"
  shows "(rid, cs') \<in> set (cs_by_requirement (rr_candidates r)) \<Longrightarrow> cs' = cs"
    "budgets_by_source cs" "cs \<noteq> []" "c \<in> set cs \<Longrightarrow> ca_requirement c = rid"
    "\<exists>repo. cap_repo_part rid = Inr repo \<and> repo \<in> fst ` set (rr_manifests r)"
  using bspec [OF assms(1) [unfolded planned_def] assms(2)] by simp_all

lemma cap_repo_part_requirement: "cap_repo_part (requirement_name k repo) = Inr repo"
proof -
  have "split_once_tail (CHR '':'') (requirement_name k repo) = Some repo"
    using repo_part_requirement [of k repo] by (simp add: repo_part_def split: option.splits)
  then show ?thesis by (simp add: cap_repo_part_def)
qed

lemma reconcile_planned:
  assumes "reconcile_plan sha z cat p ids policy cfg ratio = Inr r"
  shows "planned r"
proof -
  from reconcile_parts [OF assms] obtain inp S where
    S: "candidates z inp (requirements sha inp) = Inr S" and
    rr: "rr_candidates r = S" "rr_manifests r = pi_manifests inp"
    by metis
  note cs = candidates_sets [OF S]
  show ?thesis
    unfolding planned_def rr
  proof (intro ballI case_prodI2 conjI allI impI)
    fix x rid cs assume x: "x \<in> set (cs_by_requirement S)" "x = (rid, cs)"
    then obtain q where q: "q \<in> set (rg_desired (requirements sha inp))" "rid = rq_id q"
      "outcome_of z inp (requirements sha inp) q = Open cs" unfolding cs(2) by blast
    have cands: "cs = requirement_candidates z inp (rg_desired (requirements sha inp)) q (manifest_of inp q)" "cs \<noteq> []"
      using q(3) by (auto simp: outcome_cases)
    show "cs' = cs" if "(rid, cs') \<in> set (cs_by_requirement S)" for cs'
    proof -
      from that obtain q' where q': "q' \<in> set (rg_desired (requirements sha inp))" "rid = rq_id q'"
        "outcome_of z inp (requirements sha inp) q' = Open cs'" unfolding cs(2) by blast
      have "q = q'" using requirement_determined [OF q(1) q'(1)] q(2) q'(2) by simp
      with q(3) q'(3) show ?thesis by simp
    qed
    show "budgets_by_source cs" "cs \<noteq> []" using cands requirement_candidates_budgets by simp_all
    show "ca_requirement c = rid" if "c \<in> set cs" for c
      using that unfolding cands(1) in_requirement_candidates q(2)
      by (auto dest: target_candidates_fields(1))
    have "cap_repo_part rid = Inr (rq_repo q)"
      using requirement_cases(1) [OF q(1)] q(2) cap_repo_part_requirement by metis
    with requirement_cases(4) [OF q(1)]
    show "\<exists>repo. cap_repo_part rid = Inr repo \<and> repo \<in> fst ` set (pi_manifests inp)" by blast
  qed
qed


section \<open>From an assignment to its tasks\<close>

lemma find_key_functional:
  assumes "(k, v) \<in> set xs" "\<And>v'. (k, v') \<in> set xs \<Longrightarrow> v' = v"
  shows "List.find (\<lambda>(x, _). x = k) xs = Some (k, v)"
proof -
  have "\<exists>y. List.find (\<lambda>(x, _). x = k) xs = Some y"
    using assms(1) by (cases "List.find (\<lambda>(x, _). x = k) xs") (auto simp: find_None_iff)
  then obtain y where y: "List.find (\<lambda>(x, _). x = k) xs = Some y" ..
  then have "y \<in> set xs \<and> fst y = k" by (auto simp: find_Some_iff in_set_conv_nth)
  with y assms(2) show ?thesis by (metis prod.collapse)
qed

lemma find_mem: "List.find P xs = Some x \<Longrightarrow> x \<in> set xs \<and> P x"
  by (auto simp: find_Some_iff)

lemma source_matches_drive:
  assumes "source_agrees (at_source t) (ca_source c)" "source_matches t m"
    and "source_drive m = None \<longleftrightarrow> source_drive c = None"
  shows "source_drive m = source_drive c"
  using assms by (cases "ca_source c"; cases "ca_source m"; cases "at_source t")
    (auto simp: source_agrees_def source_matches_def source_drive_def)

lemma source_matches_self:
  "source_agrees (at_source t) (ca_source c) \<Longrightarrow> source_drive c \<noteq> None \<Longrightarrow> source_matches t c"
  by (cases "ca_source c") (auto simp: source_agrees_def source_matches_def source_drive_def)

lemma match_candidate_budget:
  assumes pl: "planned r" and cs: "(at_requirement t, cs) \<in> set (cs_by_requirement (rr_candidates r))"
    and c: "c \<in> set cs" "at_target t = ca_target c" "source_agrees (at_source t) (ca_source c)"
  shows "\<exists>m. match_candidate (rr_candidates r) t = Some m \<and> m \<in> set cs \<and> ca_budget m = ca_budget c"
proof -
  let ?ms = "filter (\<lambda>c. ca_target c = at_target t) cs"
  have uniq: "cs' = cs" if "(at_requirement t, cs') \<in> set (cs_by_requirement (rr_candidates r))" for cs'
    using plannedD(1) [OF pl cs that] .
  have bs: "budgets_by_source cs" using plannedD(2) [OF pl cs] .
  have find: "List.find (\<lambda>(rid, _). rid = at_requirement t) (cs_by_requirement (rr_candidates r))
      = Some (at_requirement t, cs)"
    using find_key_functional [OF cs uniq] .
  have cm: "c \<in> set ?ms" using c by simp
  have budget: "ca_budget m = ca_budget c" if "m \<in> set ?ms" "source_drive m = source_drive c" for m
    using budgets_by_sourceD(2) [OF bs _ c(1)] c(2) that by simp
  have homog: "source_drive m = None \<longleftrightarrow> source_drive c = None" if "m \<in> set ?ms" for m
    using budgets_by_sourceD(1) [OF bs _ c(1)] that by simp
  show ?thesis
  proof (cases ?ms)
    case (Cons m rest)
    show ?thesis
    proof (cases rest)
      case Nil
      with Cons cm have "m = c" by simp
      with Nil Cons find c(1) show ?thesis by (simp add: match_candidate_def)
    next
      case (Cons m' rest')
      show ?thesis
      proof (cases "List.find (source_matches t) ?ms")
        case None
        then have "\<not> source_matches t c" using cm by (simp add: find_None_iff)
        with source_matches_self [OF c(3)] have "source_drive c = None" by blast
        moreover have "m \<in> set ?ms" using \<open>?ms = m # rest\<close> by simp
        ultimately have "ca_budget m = ca_budget c" "m \<in> set cs"
          using budget homog by auto
        with None find \<open>?ms = m # rest\<close> Cons show ?thesis by (simp add: match_candidate_def)
      next
        case (Some x)
        with find_mem [OF Some] have "x \<in> set ?ms" "source_matches t x" by simp_all
        then have "ca_budget x = ca_budget c" "x \<in> set cs"
          using budget source_matches_drive [OF c(3)] homog by auto
        with Some find \<open>?ms = m # rest\<close> Cons show ?thesis by (simp add: match_candidate_def)
      qed
    qed
  qed (use cm in simp)
qed

definition projects_to :: "reconcile_result \<Rightarrow> capacity_mode \<Rightarrow> assignment_task \<Rightarrow> assigned_task \<Rightarrow> bool" where
  "projects_to r mode t b \<longleftrightarrow> as_target b = at_target t \<and> as_requirement b = at_requirement t
     \<and> as_kind b = at_task_kind t \<and> as_depends_on b = at_depends_on t
     \<and> tb_durable_for mode (as_budget b) = at_durable t
     \<and> tb_workspace_for mode (as_budget b) = at_workspace t
     \<and> as_repo b \<in> fst ` set (rr_manifests r)"

lemma guaranteed_mode_value: "guaranteed_mode (mode_value mode) = (mode = GUARANTEED)"
  by (cases mode) (simp_all add: guaranteed_mode_def)

lemma resolve_budget_source_fields:
  "tb_repo (resolve_budget_source t m b) = tb_repo b"
  "tb_durable_for mode (resolve_budget_source t m b) = tb_durable_for mode b"
  "tb_workspace_for mode (resolve_budget_source t m b) = tb_workspace_for mode b"
  by (simp_all add: resolve_budget_source_def tb_durable_for_def tb_workspace_for_def
      split: option.split copy_source.split)

lemma task_budget_of_fields:
  assumes "cap_repo_part (ca_requirement c) = Inr repo"
  shows "\<exists>b. task_budget_of c = Inr b \<and> tb_repo b = repo
    \<and> tb_durable_for mode b = cand_durable (mode = GUARANTEED) c
    \<and> tb_workspace_for mode b = cand_workspace (mode = GUARANTEED) c"
  unfolding task_budget_of_def assms sum.case
  by (intro exI conjI, rule refl) (simp_all add: tb_durable_for_def tb_workspace_for_def
      cand_durable_def cand_workspace_def)

lemma same_budget_cand:
  "ca_budget m = ca_budget c \<Longrightarrow> cand_durable g m = cand_durable g c \<and> cand_workspace g m = cand_workspace g c"
  by (simp add: cand_durable_def cand_workspace_def)

lemma assigned_task_total:
  assumes pl: "planned r" and inp: "so_candidates inp = rr_candidates r" "so_capacity_mode inp = mode_value mode"
    and ok: "assignment_ok inp a" and t: "t \<in> set (an_tasks a)"
  shows "\<exists>b. assigned_task_of (rr_candidates r) t = Inr b \<and> projects_to r mode t b"
proof -
  from ok t obtain c where c: "c \<in> set (cands_for inp (at_requirement t))"
    "task_from (mode = GUARANTEED) t c"
    by (auto simp: assignment_ok_def Let_def list_all_iff list_ex_iff inp(2) guaranteed_mode_value)
  then obtain cs where cs: "(at_requirement t, cs) \<in> set (cs_by_requirement (rr_candidates r))" "c \<in> set cs"
    by (cases "dict_get (cs_by_requirement (rr_candidates r)) (at_requirement t)")
      (auto simp: cands_for_def inp(1) dest: dict_get_in_set)
  have ag: "at_target t = ca_target c" "source_agrees (at_source t) (ca_source c)"
    using c(2) by (simp_all add: task_from_def)
  from match_candidate_budget [OF pl cs ag] obtain m where
    m: "match_candidate (rr_candidates r) t = Some m" "m \<in> set cs" "ca_budget m = ca_budget c" by blast
  have rid: "ca_requirement m = at_requirement t" using plannedD(4) [OF pl cs(1) m(2)] .
  from plannedD(5) [OF pl cs(1)] obtain repo where repo: "cap_repo_part (at_requirement t) = Inr repo" "repo \<in> fst ` set (rr_manifests r)"
    by (elim exE conjE)
  have rp: "cap_repo_part (ca_requirement m) = Inr repo" by (simp only: rid repo(1))
  from task_budget_of_fields [OF rp, of mode] obtain b where b: "task_budget_of m = Inr b" "tb_repo b = repo"
    "tb_durable_for mode b = cand_durable (mode = GUARANTEED) m"
    "tb_workspace_for mode b = cand_workspace (mode = GUARANTEED) m" by blast
  note same = same_budget_cand [OF m(3)]
  have "at_durable t = cand_durable (mode = GUARANTEED) c" "at_workspace t = cand_workspace (mode = GUARANTEED) c"
    using c(2) by (simp_all add: task_from_def)
  with b repo(2) same show ?thesis
    by (simp add: assigned_task_of_def assigned_budget_def m(1) projects_to_def resolve_budget_source_fields)
qed


lemma try_map_list_all2:
  "(\<forall>x\<in>set xs. \<exists>y. f x = Inr y \<and> P x y) \<Longrightarrow> \<exists>ys. try_map f xs = Inr ys \<and> list_all2 P xs ys"
  by (induction xs) fastforce+

lemma project_total:
  assumes "planned r" "so_candidates inp = rr_candidates r" "so_capacity_mode inp = mode_value mode"
    and "assignment_ok inp a"
  shows "\<exists>bs. project_assigned_tasks a (rr_candidates r)
      = Inr (sort_key (\<lambda>t. (as_target t, task_kind_value (as_kind t), as_requirement t)) bs)
    \<and> list_all2 (projects_to r mode) (an_tasks a) bs"
proof -
  have "\<forall>t\<in>set (an_tasks a). \<exists>b. assigned_task_of (rr_candidates r) t = Inr b \<and> projects_to r mode t b"
    using assigned_task_total [OF assms] by (intro ballI)
  from try_map_list_all2 [OF this] show ?thesis
    by (elim exE conjE, intro exI conjI) (simp_all add: project_assigned_tasks_def)
qed

lemma list_all2_load:
  "list_all2 (projects_to r mode) ts bs \<Longrightarrow>
     sum_list (map (tb_durable_for mode) (map as_budget (filter (\<lambda>b. as_target b = l) bs))) = task_load at_durable ts l"
  by (induction rule: list_all2_induct) (simp_all add: task_load_def projects_to_def)

lemma list_all2_workspaces:
  "list_all2 (projects_to r mode) ts bs \<Longrightarrow>
     map (tb_workspace_for mode) (map as_budget (filter (\<lambda>b. as_target b = l) bs))
       = map at_workspace (filter (\<lambda>t. at_target t = l) ts)"
  by (induction rule: list_all2_induct) (simp_all add: projects_to_def)

lemma fold_max_map: "fold (\<lambda>t m. max m (f t)) ts (x :: int) = fold max (map f ts) x"
  by (induction ts arbitrary: x) (simp_all add: max.commute)

lemma py_max_le_task_peak: "py_max (map at_workspace (filter (\<lambda>t. at_target t = l) ts)) \<le> task_peak ts l"
proof (cases "map at_workspace (filter (\<lambda>t. at_target t = l) ts)")
  case (Cons x xs)
  have "fold max xs x \<le> fold max (x # xs) 0"
    using fold_max_mem [of xs x] fold_max_ge [where x = "max x 0" and xs = xs] fold_max_ge(1) [of "max x 0" xs]
    by (auto intro: order_trans [OF max.cobounded1])
  with Cons show ?thesis by (simp add: task_peak_def fold_max_map)
qed (simp add: task_peak_def fold_max_map)

lemma required_peak_ledger:
  "required_peak mode (ledger_of ts d) =
     (let bs = map as_budget (filter (\<lambda>b. as_target b = cd_label d) ts) in
      sum_list (map (tb_durable_for mode) bs) + py_max (map (tb_workspace_for mode) bs))"
proof -
  have "tb_durable_for mode = (if mode = GUARANTEED then tb_guaranteed_durable else tb_expected_durable)"
    "tb_workspace_for mode = (if mode = GUARANTEED then tb_workspace_peak_guaranteed else tb_workspace_peak_expected)"
    by (auto simp: tb_durable_for_def tb_workspace_for_def)
  then show ?thesis by (simp add: required_peak_def ledger_of_def Let_def)
qed

text \<open>The order of the tasks does not change a ledger.\<close>

lemma py_max_cong: "set xs = set ys \<Longrightarrow> py_max xs = py_max ys"
proof -
  have "py_max zs = Max (set zs)" if "zs \<noteq> []" for zs :: "int list"
    using that by (cases zs) (simp_all only: py_max.simps Max.set_eq_fold simp_thms)
  then show "set xs = set ys \<Longrightarrow> py_max xs = py_max ys"
    by (cases "xs = []"; cases "ys = []") simp_all
qed

lemma required_peak_sort: "required_peak mode (ledger_of (sort_key k bs) d) = required_peak mode (ledger_of bs d)"
proof -
  let ?bs = "filter (\<lambda>b. as_target b = cd_label d) bs"
  have m: "map as_budget (filter (\<lambda>b. as_target b = cd_label d) (sort_key k bs)) = map as_budget (sort_key k ?bs)"
    by (simp add: filter_sort)
  have "py_max (map (tb_workspace_for mode) (map as_budget (sort_key k ?bs)))
      = py_max (map (tb_workspace_for mode) (map as_budget ?bs))"
    by (rule py_max_cong) simp
  moreover have "sum_list (map (tb_durable_for mode) (map as_budget (sort_key k ?bs)))
      = sum_list (map (tb_durable_for mode) (map as_budget ?bs))"
    by (simp add: sum_list_sort)
  ultimately show ?thesis by (simp add: required_peak_ledger Let_def m)
qed

lemma projected_peak:
  assumes "list_all2 (projects_to r mode) ts bs"
  shows "required_peak mode (ledger_of (sort_key k bs) d) \<le> task_load at_durable ts (cd_label d) + task_peak ts (cd_label d)"
  using list_all2_load [OF assms, of "cd_label d"] list_all2_workspaces [OF assms, of "cd_label d"]
    py_max_le_task_peak [of "cd_label d" ts]
  unfolding required_peak_sort by (simp add: required_peak_ledger Let_def)


section \<open>The budgets of the drives\<close>

lemma distinct_map_sort: "distinct (map f (sort_key g xs)) \<longleftrightarrow> distinct (map f xs)"
  by (simp only: distinct_map distinct_sort set_sort)

lemma dict_get_sorted_map:
  assumes "distinct (map k ds)" "d \<in> set ds"
  shows "dict_get (sort_key fst (map (\<lambda>d. (k d, f d)) ds)) (k d) = Some (f d)"
  using assms by (subst dict_get_distinct) (auto simp: distinct_map_sort comp_def)

definition plan_input ::
  "catalog \<Rightarrow> reconcile_result \<Rightarrow> capacity_mode \<Rightarrow> (str \<times> evidence) list \<Rightarrow> successor_preference option \<Rightarrow> solver_input" where
  "plan_input cat result mode evidence_by_drive preference =
     fst (build_solver_input cat result mode evidence_by_drive adapter_solver_bounds preference)"

definition placeable_labels :: "catalog \<Rightarrow> str \<Rightarrow> str set" where
  "placeable_labels cat plan_id = set (map df_label (filter is_placeable (drive_facts cat plan_id)))"

lemma build_parts:
  "build_solver_input cat result mode ev adapter_solver_bounds pref =
     (plan_input cat result mode ev pref, inspect_drives cat (rr_plan_id result) ev,
      placeable_labels cat (rr_plan_id result))"
  by (simp add: plan_input_def build_solver_input_def placeable_labels_def Let_def)

lemma plan_input_fields [simp]:
  "so_candidates (plan_input cat result mode ev pref) = rr_candidates result"
  "so_capacity_mode (plan_input cat result mode ev pref) = mode_value mode"
  "rg_desired (so_graph (plan_input cat result mode ev pref)) = rr_requirements result"
  "so_preference (plan_input cat result mode ev pref) = pref"
  "so_bounds (plan_input cat result mode ev pref) = adapter_solver_bounds"
  by (simp_all add: plan_input_def build_solver_input_def Let_def)

lemma solver_ok_planned: "planned r \<Longrightarrow> so_candidates inp = rr_candidates r \<Longrightarrow> solver_ok inp"
  by (auto simp: solver_ok_def list_all_iff dest: plannedD(4))

text \<open>What a drive may be filled with: its admitted bytes, capped by a successor lane; nothing
  without executable evidence.\<close>

definition fillable :: "successor_preference option \<Rightarrow> capacity_drive \<Rightarrow> int" where
  "fillable preference d =
     (if ev_executable (cd_evidence d) then lane_capped preference (cd_label d) (usable_now d) else 0)"

lemma plan_budget:
  assumes "distinct (map cd_label (inspect_drives cat (rr_plan_id result) ev))"
    and "d \<in> set (inspect_drives cat (rr_plan_id result) ev)"
  shows "budget_of (plan_input cat result mode ev pref) (cd_label d) = fillable pref d"
proof -
  let ?inp = "plan_input cat result mode ev pref"
  have e: "evidence_of ?inp (cd_label d) = Some (drive_evidence_fact d)"
    using dict_get_sorted_map [OF assms, of drive_evidence_fact]
    by (simp add: evidence_of_def plan_input_def build_solver_input_def Let_def)
  have b: "dict_get (so_executable_budget ?inp) (cd_label d) = Some (executable_free pref d)"
    using dict_get_sorted_map [OF assms, of "executable_free pref"]
    by (simp add: plan_input_def build_solver_input_def Let_def)
  show ?thesis
  proof (cases "ev_executable (cd_evidence d)")
    case False
    with e have "not_executable ?inp (cd_label d)" by (simp add: not_executable_def drive_evidence_fact_def)
    with False show ?thesis by (simp add: budget_not_executable fillable_def)
  next
    case True
    with e have ne: "\<not> not_executable ?inp (cd_label d)" by (simp add: not_executable_def drive_evidence_fact_def)
    have "dict_get (map (\<lambda>l. (l, 0 :: int)) (filter (not_executable ?inp) (map fst (so_drive_evidence ?inp)))) (cd_label d) = None"
      using ne by (cases "dict_get (map (\<lambda>l. (l, 0 :: int)) (filter (not_executable ?inp) (map fst (so_drive_evidence ?inp)))) (cd_label d)")
        (auto dest!: dict_get_in_set)
    with b have "budget_of ?inp (cd_label d) = executable_free pref d"
      by (simp add: budget_of_def free_map_def dict_get_append)
    with True show ?thesis by (simp add: executable_free_def fillable_def usable_now_def)
  qed
qed


section \<open>The shape of a plan\<close>

lemma plan_capacity_split:
  assumes "plan_capacity hsh cat r cm ev pref False prov = Inr p"
  obtains (stale) mode where "resolve_mode cm prov = Inr mode"
      "stale_target_failures r (inspect_drives cat (rr_plan_id r) ev) mode (Some (placeable_labels cat (rr_plan_id r))) \<noteq> []"
      "p = empty_plan mode (blocking_codes r) (inspect_drives cat (rr_plan_id r) ev)
         (stale_target_failures r (inspect_drives cat (rr_plan_id r) ev) mode (Some (placeable_labels cat (rr_plan_id r))))
         Infeasible_Under_Admission_Budget TargetDriveChanged [''reconcile_plan'', ''restore_target_drive_to_plan'']"
  | (feasible) mode gate first where "resolve_mode cm prov = Inr mode"
      "stale_target_failures r (inspect_drives cat (rr_plan_id r) ev) mode (Some (placeable_labels cat (rr_plan_id r))) = []"
      "gate_b hsh (plan_input cat r mode ev pref) = Some gate" "gr_code gate = Feasible" "gr_assignment gate = Some first"
      "feasible_plan hsh (plan_input cat r mode ev pref) (inspect_drives cat (rr_plan_id r) ev) mode (blocking_codes r) r first = Inr p"
  | (graded) mode gate failures where "resolve_mode cm prov = Inr mode"
      "gate_b hsh (plan_input cat r mode ev pref) = Some gate" "gr_code gate \<noteq> Feasible \<or> gr_assignment gate = None"
      "p = empty_plan mode (blocking_codes r) (inspect_drives cat (rr_plan_id r) ev) failures (gr_code gate)
         (GateDiagnostics (gr_diagnostics gate)) (plan_actions gate failures)"
proof -
  from assms obtain mode where m: "resolve_mode cm prov = Inr mode"
    by (cases "resolve_mode cm prov") (simp_all add: plan_capacity_def)
  let ?stale = "stale_target_failures r (inspect_drives cat (rr_plan_id r) ev) mode (Some (placeable_labels cat (rr_plan_id r)))"
  note eq = assms [unfolded plan_capacity_def m build_parts Let_def, simplified]
  show thesis
  proof (cases "?stale = []")
    case False
    with eq show thesis by (intro stale [OF m]) simp_all
  next
    case True
    from eq True obtain gate where g: "gate_b hsh (plan_input cat r mode ev pref) = Some gate"
      by (cases "gate_b hsh (plan_input cat r mode ev pref)") simp_all
    show thesis
    proof (cases "gr_code gate = Feasible \<and> gr_assignment gate \<noteq> None")
      case gate: True
      then obtain first where "gr_assignment gate = Some first" by blast
      with eq True g gate show thesis by (intro feasible [OF m True g]) simp_all
    next
      case False
      then have c: "gr_code gate \<noteq> Feasible \<or> gr_assignment gate = None" by blast
      have "(case gate_failures (plan_input cat r mode ev pref) (inspect_drives cat (rr_plan_id r) ev) mode gate of
           Inl e \<Rightarrow> Inl e
         | Inr failures \<Rightarrow> Inr (empty_plan mode (blocking_codes r) (inspect_drives cat (rr_plan_id r) ev) failures
             (gr_code gate) (GateDiagnostics (gr_diagnostics gate)) (plan_actions gate failures))) = Inr p"
        using eq True g c by (cases "gr_code gate"; cases "gr_assignment gate") simp_all
      then show thesis
        by (cases "gate_failures (plan_input cat r mode ev pref) (inspect_drives cat (rr_plan_id r) ev) mode gate")
          (auto intro: graded [OF m g c])
    qed
  qed
qed


definition task_order :: "assigned_task \<Rightarrow> str \<times> str \<times> str" where
  "task_order t = (as_target t, task_kind_value (as_kind t), as_requirement t)"

lemma feasible_plan_parts:
  assumes pl: "planned r" and p: "plan_capacity hsh cat r cm ev pref False prov = Inr p"
    and code: "cp_gate_b_code p = Feasible"
  obtains a bs where "assignment_ok (plan_input cat r (cp_mode p) ev pref) a"
    "structural (plan_input cat r (cp_mode p) ev pref) = None"
    "list_all2 (projects_to r (cp_mode p)) (an_tasks a) bs"
    "cp_tasks p = sort_key task_order bs"
    "cp_ledgers p = ledgers (inspect_drives cat (rr_plan_id r) ev) (cp_tasks p)"
    "batch_order (cp_tasks p) r = Inr (cp_batch_order p)"
    "cp_blocking p = blocking_codes r"
    "stale_target_failures r (inspect_drives cat (rr_plan_id r) ev) (cp_mode p) (Some (placeable_labels cat (rr_plan_id r))) = []"
  using p
proof (cases rule: plan_capacity_split)
  case (feasible mode gate first)
  let ?inp = "plan_input cat r mode ev pref"
  have ok: "solver_ok ?inp" using solver_ok_planned [OF pl] by simp
  from gate_b_found [OF ok feasible(3,4)] feasible(5)
  have first: "assignment_ok ?inp first" "structural ?inp = None" by auto
  let ?a = "pr_assignment (improve hsh ?inp first no_monitor)"
  have a: "assignment_ok ?inp ?a" using improve_valid [OF ok first(1)] .
  from project_total [OF pl plan_input_fields(1,2) a] obtain bs where
    bs: "project_assigned_tasks ?a (rr_candidates r) = Inr (sort_key task_order bs)"
      "list_all2 (projects_to r mode) (an_tasks ?a) bs"
    unfolding task_order_def by auto
  from feasible(6) bs(1) obtain order where
    "batch_order (sort_key task_order bs) r = Inr order"
    and pp: "p = \<lparr>cp_mode = mode, cp_tasks = sort_key task_order bs, cp_batch_order = order,
       cp_blocking = blocking_codes r, cp_unassigned = [],
       cp_ledgers = ledgers (inspect_drives cat (rr_plan_id r) ev) (sort_key task_order bs), cp_failures = [],
       cp_gate_b_code = Feasible, cp_gate_b_diagnostics = NoPlanDiagnostics, cp_gate_b_actions = [],
       cp_derivation_mode = Some (pr_derivation_mode (improve hsh ?inp first no_monitor))\<rparr>"
    by (cases "batch_order (sort_key task_order bs) r") (simp_all add: feasible_plan_def Let_def)
  with a first(2) bs(2) feasible(2) show thesis by (intro that [of ?a bs]) simp_all
next
  case (stale mode)
  with code show thesis by (simp add: empty_plan_def)
next
  case (graded mode gate failures)
  have "solver_ok (plan_input cat r mode ev pref)" using solver_ok_planned [OF pl] by simp
  from gate_b_found [OF this graded(2)] graded(3,4) code show thesis by (auto simp: empty_plan_def)
qed

lemma assignment_targets: "list_all2 (projects_to r mode) ts bs \<Longrightarrow> map as_target bs = map at_target ts"
  by (induction rule: list_all2_induct) (simp_all add: projects_to_def)

lemma assignment_requirements: "list_all2 (projects_to r mode) ts bs \<Longrightarrow> map as_requirement bs = map at_requirement ts"
  by (induction rule: list_all2_induct) (simp_all add: projects_to_def)

lemma assignment_repos:
  "list_all2 (projects_to r mode) ts bs \<Longrightarrow> b \<in> set bs \<Longrightarrow> as_repo b \<in> fst ` set (rr_manifests r)"
  by (auto simp: list_all2_conv_all_nth in_set_conv_nth projects_to_def)

lemma stale_none:
  assumes "stale_target_failures r drives mode (Some usable) = []" "(rid, cs) \<in> set (cs_by_requirement (rr_candidates r))"
    and "c \<in> set cs"
  shows "ca_target c \<in> usable \<inter> cd_label ` set drives"
proof (rule ccontr)
  assume n: "ca_target c \<notin> usable \<inter> cd_label ` set drives"
  then have "\<not> list_all (\<lambda>c. ca_target c \<in> usable \<inter> cd_label ` set drives) cs" "cs \<noteq> []"
    using assms(3) by (auto simp: list_all_iff)
  with assms(2) have "stale_target_failure mode rid cs \<in> set (stale_target_failures r drives mode (Some usable))"
    by (force simp: stale_target_failures_def set_map_filter Let_def)
  with assms(1) show False by simp
qed

text \<open>A feasible plan of a reconciled catalog uses each drive within what it may be filled with.\<close>

lemma feasible_plan_fits:
  assumes pl: "planned r" and p: "plan_capacity hsh cat r cm ev pref False prov = Inr p"
    and code: "cp_gate_b_code p = Feasible"
    and labels: "distinct (map cd_label (inspect_drives cat (rr_plan_id r) ev))"
    and d: "d \<in> set (inspect_drives cat (rr_plan_id r) ev)" "cd_label d \<in> as_target ` set (cp_tasks p)"
  shows "required_peak (cp_mode p) (ledger_of (cp_tasks p) d) \<le> fillable pref d"
proof -
  let ?inp = "plan_input cat r (cp_mode p) ev pref"
  from feasible_plan_parts [OF pl p code] obtain a bs where
    a: "assignment_ok ?inp a" and bs: "list_all2 (projects_to r (cp_mode p)) (an_tasks a) bs"
    and ts: "cp_tasks p = sort_key task_order bs"
    by metis
  have "cd_label d \<in> set (map as_target bs)" using d(2) ts by simp
  then have "cd_label d \<in> set (map at_target (an_tasks a))" using assignment_targets [OF bs] by simp
  then obtain t where "t \<in> set (an_tasks a)" "at_target t = cd_label d" by auto
  with a have "task_load at_durable (an_tasks a) (cd_label d) + task_peak (an_tasks a) (cd_label d) \<le> budget_of ?inp (cd_label d)"
    by (auto simp: assignment_ok_def Let_def list_all_iff)
  with projected_peak [OF bs, of task_order d] show ?thesis
    unfolding ts plan_budget [OF labels d(1)] by (rule order_trans)
qed


section \<open>Planning always answers\<close>

lemma gate_b_total: "\<exists>g. gate_b hsh inp = Some g"
proof -
  let ?lim = "sb_feasibility_state_limit (so_bounds inp)"
  obtain s1 where s1: "search hsh inp (free_map inp) ?lim False no_monitor = Some s1" using search_total by blast
  obtain s2 where s2: "search hsh inp (optimistic_free inp) ?lim False no_monitor = Some s2" using search_total by blast
  have "\<exists>g. after_infeasible hsh inp n = Some g" for n
    using s2 by (simp add: after_infeasible_def Let_def)
  with s1 show ?thesis
    by (cases "structural inp"; cases "sr_kind s1") (simp_all add: gate_b_def)
qed

lemma gate_failures_total: "\<exists>fs. gate_failures inp drives mode gate = Inr fs"
  by (cases "gr_code gate")
    (simp_all add: gate_failures_def structural_failure_projection_def structural_failure_code_def Let_def)

lemma batch_order_total:
  assumes "\<forall>t\<in>set ts. as_repo t \<in> fst ` set (rr_manifests r)"
  shows "\<exists>order. batch_order ts r = Inr order"
proof -
  have "\<exists>y. map_sum id (Pair (as_target t)) (execution_rank t r) = Inr y" if "t \<in> set ts" for t
  proof -
    from dict_get_Some_of_mem [OF bspec [OF assms that]]
    obtain m where "dict_get (rr_manifests r) (as_repo t) = Some m" ..
    then show ?thesis by (simp add: execution_rank_def Let_def)
  qed
  with try_map_total [of ts "\<lambda>t. map_sum id (Pair (as_target t)) (execution_rank t r)"]
  obtain ys where "try_map (\<lambda>t. map_sum id (Pair (as_target t)) (execution_rank t r)) ts = Inr ys" by blast
  then show ?thesis by (simp add: batch_order_def)
qed

lemma feasible_plan_total:
  assumes "planned r" "assignment_ok (plan_input cat r mode ev pref) first"
  shows "\<exists>p. feasible_plan hsh (plan_input cat r mode ev pref) drives mode blocking r first = Inr p"
proof -
  let ?inp = "plan_input cat r mode ev pref"
  let ?a = "pr_assignment (improve hsh ?inp first no_monitor)"
  have ok: "solver_ok ?inp" using solver_ok_planned [OF assms(1)] by simp
  from project_total [OF assms(1) plan_input_fields(1,2) improve_valid [OF ok assms(2)]] obtain bs where
    bs: "project_assigned_tasks ?a (rr_candidates r) = Inr (sort_key task_order bs)"
      "list_all2 (projects_to r mode) (an_tasks ?a) bs"
    unfolding task_order_def by auto
  obtain order where "batch_order (sort_key task_order bs) r = Inr order"
    using batch_order_total [of "sort_key task_order bs" r] assignment_repos [OF bs(2)] by auto
  with bs(1) show ?thesis by (simp add: feasible_plan_def Let_def)
qed

lemma plan_capacity_total:
  assumes pl: "planned r" and m: "resolve_mode cm prov = Inr mode"
  shows "\<exists>p. plan_capacity hsh cat r cm ev pref False prov = Inr p"
proof -
  let ?inp = "plan_input cat r mode ev pref"
  have ok: "solver_ok ?inp" using solver_ok_planned [OF pl] by simp
  obtain gate where g: "gate_b hsh ?inp = Some gate" using gate_b_total by blast
  from gate_failures_total obtain fs where
    fs: "gate_failures ?inp (inspect_drives cat (rr_plan_id r) ev) mode gate = Inr fs" by blast
  show ?thesis
  proof (cases "gr_code gate = Feasible")
    case True
    from gate_b_found [OF ok g True] obtain a where a: "gr_assignment gate = Some a" "assignment_ok ?inp a" by blast
    from feasible_plan_total [OF pl a(2)] g True a(1) show ?thesis
      by (simp add: plan_capacity_def m build_parts Let_def)
  next
    case False
    with g fs show ?thesis
      by (cases "gr_code gate") (simp_all add: plan_capacity_def m build_parts Let_def)
  qed
qed

lemma try_map_fst:
  assumes "\<And>x y. h x = Inr y \<Longrightarrow> fst y = f x"
  shows "try_map h xs = Inr ys \<Longrightarrow> map fst ys = map f xs"
proof (induction xs arbitrary: ys)
  case (Cons x xs)
  then show ?case
    by (cases "h x"; cases "try_map h xs") (auto dest: assms)
qed simp

lemma ranked_fst: "map_sum id (Pair l) s = Inr y \<Longrightarrow> fst y = l"
  by (cases s) auto

lemma batch_order_targets:
  assumes "batch_order ts r = Inr order"
  shows "distinct order \<and> set order = as_target ` set ts"
proof (cases "try_map (\<lambda>t. map_sum id (Pair (as_target t)) (execution_rank t r)) ts")
  case (Inr ranked)
  have "map fst ranked = map as_target ts"
    by (rule try_map_fst [OF _ Inr]) (rule ranked_fst)
  then have "set (map fst ranked) = set (map as_target ts)" by simp
  with assms Inr show ?thesis by (auto simp: batch_order_def)
qed (use assms in \<open>simp add: batch_order_def\<close>)

lemma length_filter_distinct_key:
  "distinct (map f xs) \<Longrightarrow> length (filter (\<lambda>x. f x = k) xs) = (if k \<in> set (map f xs) then 1 else 0)"
  by (induction xs) auto

lemma cands_for_mem:
  "c \<in> set (cands_for inp rid) \<Longrightarrow> \<exists>cs. (rid, cs) \<in> set (cs_by_requirement (so_candidates inp)) \<and> c \<in> set cs"
  by (cases "dict_get (cs_by_requirement (so_candidates inp)) rid") (auto simp: cands_for_def dest: dict_get_in_set)

section \<open>The batch order\<close>

text \<open>A drive that only receives replicas.\<close>

definition only_replicas :: "assigned_task list \<Rightarrow> str \<Rightarrow> bool" where
  "only_replicas ts l = list_all (\<lambda>t. as_target t \<noteq> l \<or> as_kind t = REPLICATE) ts"

lemma fold_min: "(r::rank) \<in> set (x # xs) \<Longrightarrow> fold min xs x \<le> r" "fold min xs x \<in> set (x # xs)"
proof -
  have m: "fold min xs x = Min (set (x # xs))" for x and xs :: "rank list"
    by (simp only: Min.set_eq_fold)
  show "(r::rank) \<in> set (x # xs) \<Longrightarrow> fold min xs x \<le> r"
    unfolding m by (rule Min_le [OF finite_set])
  show "fold min xs x \<in> set (x # xs)"
    unfolding m by (rule Min_in [OF finite_set]) simp
qed

lemma min_rank_Min:
  assumes "rs \<noteq> []"
  shows "min_rank rs \<in> set rs" "r \<in> set rs \<Longrightarrow> min_rank rs \<le> r"
  using assms fold_min by (cases rs; simp only: min_rank.simps)+

lemma rank_tier:
  assumes "execution_rank t r = Inr k"
  shows "fst k \<le> 4" "fst k = 4 \<longleftrightarrow> as_kind t = REPLICATE"
proof -
  obtain m where "dict_get (rr_manifests r) (as_repo t) = Some m"
    using assms by (cases "dict_get (rr_manifests r) (as_repo t)") (simp_all add: execution_rank_def)
  then have "fst (projr (execution_rank t r)) = (if as_kind t = FETCH
      then if length (tb_missing_files (as_budget t)) < length m then 0
        else if sum_list (map mf_size_bytes m) > 250000000000 then 1
        else if strip_prefix ''protected_home:'' (as_requirement t) \<noteq> None then 2 else 3
      else 4)"
    by (cases "as_kind t") (simp_all add: execution_rank_def Let_def)
  then show "fst k \<le> 4" "fst k = 4 \<longleftrightarrow> as_kind t = REPLICATE"
    unfolding assms sum.sel by (cases "as_kind t"; simp)+
qed

lemma tuple_le_fst: "(a, x) \<le> (b, y) \<Longrightarrow> a \<le> (b :: _ :: linorder)" for x y :: "_ :: linorder"
  by (auto simp: less_eq_prod_def)

lemma rank_le_fst: "(a :: rank) \<le> b \<Longrightarrow> fst a \<le> fst b"
  by (cases a; cases b) (simp only: fst_conv tuple_le_fst)

lemma ranked_tiers:
  assumes "try_map (\<lambda>t. map_sum id (Pair (as_target t)) (execution_rank t r)) ts = Inr ranked"
    and "l \<in> set (map fst ranked)"
  shows "only_replicas ts l \<longleftrightarrow> 4 \<le> fst (min_rank (map snd (filter (\<lambda>(m, _). m = l) ranked)))"
proof -
  let ?rs = "map snd (filter (\<lambda>(m, _). m = l) ranked)"
  have rs: "k \<in> set ?rs \<longleftrightarrow> (\<exists>t\<in>set ts. as_target t = l \<and> execution_rank t r = Inr k)" for k
  proof -
    have "k \<in> set ?rs \<longleftrightarrow> (l, k) \<in> set ranked" by force
    also have "\<dots> \<longleftrightarrow> (\<exists>t\<in>set ts. map_sum id (Pair (as_target t)) (execution_rank t r) = Inr (l, k))"
      by (rule try_map_mem [OF assms(1)])
    also have "\<dots> \<longleftrightarrow> (\<exists>t\<in>set ts. as_target t = l \<and> execution_rank t r = Inr k)"
    proof (rule bex_cong [OF refl])
      fix t show "map_sum id (Pair (as_target t)) (execution_rank t r) = Inr (l, k)
          \<longleftrightarrow> as_target t = l \<and> execution_rank t r = Inr k"
        by (cases "execution_rank t r") auto
    qed
    finally show ?thesis .
  qed
  have total: "\<exists>k. execution_rank t r = Inr k" if "t \<in> set ts" for t
    using try_map_total_inv [OF assms(1) that] by (cases "execution_rank t r") auto
  have ne: "?rs \<noteq> []" using assms(2) by (force simp: filter_empty_conv)
  have "only_replicas ts l \<longleftrightarrow> (\<forall>k\<in>set ?rs. fst k = 4)"
    unfolding only_replicas_def list_all_iff rs using total rank_tier(2) by (metis rs)
  also have "\<dots> \<longleftrightarrow> 4 \<le> fst (min_rank ?rs)"
  proof
    assume "\<forall>k\<in>set ?rs. fst k = 4"
    from bspec [OF this min_rank_Min(1) [OF ne]] show "4 \<le> fst (min_rank ?rs)" by simp
  next
    assume le: "4 \<le> fst (min_rank ?rs)"
    show "\<forall>k\<in>set ?rs. fst k = 4"
    proof
      fix k assume k: "k \<in> set ?rs"
      have "fst (min_rank ?rs) \<le> fst k"
        by (rule rank_le_fst [OF min_rank_Min(2) [OF ne k]])
      moreover from k obtain t where "execution_rank t r = Inr k" unfolding rs by (elim bexE conjE)
      from rank_tier(1) [OF this] have "fst k \<le> 4" .
      ultimately show "fst k = 4" using le by linarith
    qed
  qed
  finally show ?thesis .
qed

section \<open>Properties\<close>

text \<open>
  C5: A feasible plan fits: for a reconciled catalog and drives with distinct labels, each drive
  the plan writes to holds the durable bytes plus the largest workspace of its tasks, in the
  plan's mode, within what the drive may be filled with: its admitted bytes, capped by a
  successor's lane, and nothing at all without executable evidence. The budgets added up are the
  ones of the tasks of the plan, whatever candidate of the target they were projected from.
\<close>

theorem feasible_plan_within_budget:
  assumes "reconcile_plan sha z cat p0 ids policy cfg ratio = Inr r"
    and "plan_capacity hsh cat' r cm ev pref False prov = Inr p" and "plan_feasible p"
    and "distinct (map cd_label (inspect_drives cat' (rr_plan_id r) ev))"
  shows "cp_ledgers p = ledgers (inspect_drives cat' (rr_plan_id r) ev) (cp_tasks p)
    \<and> list_all (\<lambda>d. cd_label d \<notin> as_target ` set (cp_tasks p)
         \<or> required_peak (cp_mode p) (ledger_of (cp_tasks p) d) \<le> fillable pref d)
       (inspect_drives cat' (rr_plan_id r) ev)"
proof -
  have pl: "planned r" by (rule reconcile_planned [OF assms(1)])
  have code: "cp_gate_b_code p = Feasible" using assms(3) by (simp add: plan_feasible_def)
  from feasible_plan_fits [OF pl assms(2) code assms(4)] have
    "list_all (\<lambda>d. cd_label d \<notin> as_target ` set (cp_tasks p)
         \<or> required_peak (cp_mode p) (ledger_of (cp_tasks p) d) \<le> fillable pref d)
       (inspect_drives cat' (rr_plan_id r) ev)"
    unfolding list_all_iff by blast
  moreover from feasible_plan_parts [OF pl assms(2) code]
  have "cp_ledgers p = ledgers (inspect_drives cat' (rr_plan_id r) ev) (cp_tasks p)" by metis
  ultimately show ?thesis by simp
qed

text \<open>
  C6: A feasible plan is complete: every selected repository has desired copies, every desired
  copy is already satisfied or carried out by exactly one task, and every task writes to a drive
  that the second read of the catalog still finds in the plan, active and enabled.
\<close>

theorem feasible_plan_complete:
  assumes "reconcile_plan sha z cat p0 ids policy cfg ratio = Inr r"
    and "plan_capacity hsh cat' r cm ev pref False prov = Inr p" and "plan_feasible p"
  shows "list_all (\<lambda>repo. repo \<in> rq_repo ` set (rr_requirements r)) (rr_repo_ids r)
    \<and> list_all (\<lambda>q. length (filter (\<lambda>t. as_requirement t = rq_id q) (cp_tasks p))
         = (if rq_id q \<in> rr_satisfied r then 0 else 1)) (rr_requirements r)
    \<and> list_all (\<lambda>t. as_target t \<in> placeable_labels cat' (rr_plan_id r)
         \<and> as_target t \<in> cd_label ` set (inspect_drives cat' (rr_plan_id r) ev)) (cp_tasks p)"
proof -
  have pl: "planned r" by (rule reconcile_planned [OF assms(1)])
  have code: "cp_gate_b_code p = Feasible" "cp_blocking p = []" using assms(3) by (simp_all add: plan_feasible_def)
  let ?inp = "plan_input cat' r (cp_mode p) ev pref"
  from feasible_plan_parts [OF pl assms(2) code(1)] obtain a bs where
    a: "assignment_ok ?inp a" and bs: "list_all2 (projects_to r (cp_mode p)) (an_tasks a) bs"
    and ts: "cp_tasks p = sort_key task_order bs" and bl: "cp_blocking p = blocking_codes r"
    and st: "stale_target_failures r (inspect_drives cat' (rr_plan_id r) ev) (cp_mode p)
      (Some (placeable_labels cat' (rr_plan_id r))) = []"
    by metis
  have nb: "\<not> list_ex (\<lambda>d. dg_severity d = BLOCKING \<and> P d) (rr_diagnostics r)" for P
  proof
    assume "list_ex (\<lambda>d. dg_severity d = BLOCKING \<and> P d) (rr_diagnostics r)"
    then obtain d where "d \<in> set (rr_diagnostics r)" "dg_severity d = BLOCKING" by (auto simp: list_ex_iff)
    then have "dg_code d \<in> set (blocking_codes r)" by (auto simp: blocking_codes_def)
    with bl code(2) show False by simp
  qed
  have nopolicy: "\<not> policy_blocked r repo" for repo
    using nb [of "\<lambda>d. dg_code d = ''MANIFEST_POLICY'' \<and> (''repo_id'', DText repo) \<in> set (dg_detail d)"]
    by (auto simp: policy_blocked_def list_ex_iff)
  have noblock: "\<not> blocked_by_diagnostic r rid" for rid
    using nb [of "\<lambda>d. dg_requirement d = Some rid"] by (simp add: blocked_by_diagnostic_def)
  have blocked: "blocked_reason ?inp rid = None" for rid
  proof -
    have "rid \<notin> fst ` set (cs_blocked (rr_candidates r))"
      using noblock [of rid] reconcile_blocked_diagnosed [OF assms(1), of rid] by blast
    then show ?thesis by (simp add: blocked_reason_def dict_get_None_iff)
  qed
  have repos: "list_all (\<lambda>repo. repo \<in> rq_repo ` set (rr_requirements r)) (rr_repo_ids r)"
    using reconcile_accounts [OF assms(1)] nopolicy by (simp add: list_all_iff)
  have sat: "rr_satisfied r = set (satisfied_ids ?inp)"
    using reconcile_parts [OF assms(1)] by (auto simp: satisfied_ids_def)
  have reqs: "map as_requirement bs = map at_requirement (an_tasks a)" by (rule assignment_requirements [OF bs])
  have dist: "distinct (map at_requirement (an_tasks a))"
    and ids: "set (map at_requirement (an_tasks a)) = set (unsatisfied ?inp)"
    using a by (simp_all add: assignment_ok_def Let_def)
  have count: "length (filter (\<lambda>t. as_requirement t = rid) (cp_tasks p)) = (if rid \<in> set (unsatisfied ?inp) then 1 else 0)" for rid
  proof -
    have "as_requirement ` set bs = set (unsatisfied ?inp)"
      using arg_cong [OF reqs, of set] ids by simp
    then show ?thesis
      using length_filter_distinct_key [of as_requirement "cp_tasks p" rid] dist reqs
      by (simp add: ts distinct_map_sort)
  qed
  have "list_all (\<lambda>q. length (filter (\<lambda>t. as_requirement t = rq_id q) (cp_tasks p))
         = (if rq_id q \<in> rr_satisfied r then 0 else 1)) (rr_requirements r)"
    using blocked by (simp add: list_all_iff count sat unsatisfied_def)
  moreover have "as_target t \<in> placeable_labels cat' (rr_plan_id r)
         \<and> as_target t \<in> cd_label ` set (inspect_drives cat' (rr_plan_id r) ev)" if "t \<in> set (cp_tasks p)" for t
  proof -
    have "as_target t \<in> set (map at_target (an_tasks a))"
      using that unfolding ts assignment_targets [OF bs, symmetric] by simp
    then obtain x where x: "x \<in> set (an_tasks a)" "as_target t = at_target x" by auto
    with a obtain c where c: "c \<in> set (cands_for ?inp (at_requirement x))" "ca_target c = as_target t"
      by (auto simp: assignment_ok_def Let_def list_all_iff list_ex_iff task_from_def)
    from cands_for_mem [OF c(1)] obtain cs where
      "(at_requirement x, cs) \<in> set (cs_by_requirement (rr_candidates r))" "c \<in> set cs" by auto
    from stale_none [OF st this] c(2) show ?thesis by auto
  qed
  ultimately show ?thesis using repos by (simp add: list_all_iff)
qed

text \<open>
  C24: A stale snapshot fails closed: when one captured candidate of one requirement targets a
  drive that the second read no longer finds in the plan, active and enabled, the plan is not
  feasible and has no task, even if other targets remain, and a failure names the requirement.
\<close>

theorem stale_target_fails_closed:
  assumes "resolve_mode cm prov = Inr mode"
    and "(rid, cs) \<in> set (cs_by_requirement (rr_candidates r))" and "c \<in> set cs"
    and "ca_target c \<notin> placeable_labels cat' (rr_plan_id r) \<inter> cd_label ` set (inspect_drives cat' (rr_plan_id r) ev)"
  shows "\<exists>p. plan_capacity hsh cat' r cm ev pref False prov = Inr p \<and> \<not> plan_feasible p \<and> cp_tasks p = []
    \<and> list_ex (\<lambda>f. fl_code f = Target_Drive_Changed \<and> fl_requirement f = Some rid) (cp_failures p)"
proof -
  let ?stale = "stale_target_failures r (inspect_drives cat' (rr_plan_id r) ev) mode (Some (placeable_labels cat' (rr_plan_id r)))"
  have "\<not> list_all (\<lambda>c. ca_target c \<in> placeable_labels cat' (rr_plan_id r)
      \<inter> cd_label ` set (inspect_drives cat' (rr_plan_id r) ev)) cs" "cs \<noteq> []"
    using assms(3,4) by (auto simp: list_all_iff)
  with assms(2) have f: "stale_target_failure mode rid cs \<in> set ?stale"
    by (force simp: stale_target_failures_def set_map_filter Let_def)
  then have "?stale \<noteq> []" by auto
  then have "plan_capacity hsh cat' r cm ev pref False prov
      = Inr (empty_plan mode (blocking_codes r) (inspect_drives cat' (rr_plan_id r) ev) ?stale
          Infeasible_Under_Admission_Budget TargetDriveChanged [''reconcile_plan'', ''restore_target_drive_to_plan''])"
    by (simp add: plan_capacity_def assms(1) build_parts Let_def)
  moreover have "fl_code (stale_target_failure mode rid cs) = Target_Drive_Changed
      \<and> fl_requirement (stale_target_failure mode rid cs) = Some rid"
    by (simp add: stale_target_failure_def plain_failure_def Let_def)
  ultimately show ?thesis
    using f by (auto simp: empty_plan_def plan_feasible_def list_ex_iff)
qed

text \<open>
  C26: Planning a reconciled catalog always answers: an unusable mode is the error of the mode,
  and otherwise there is a plan in that mode, which carries tasks and a batch order only under a
  FEASIBLE verdict and names each of its target drives exactly once in the batch order.
\<close>

theorem plan_capacity_answers:
  assumes "reconcile_plan sha z cat p0 ids policy cfg ratio = Inr r"
  shows "case resolve_mode cm prov of
      Inl e \<Rightarrow> plan_capacity hsh cat' r cm ev pref False prov = Inl e
    | Inr mode \<Rightarrow> (\<exists>p. plan_capacity hsh cat' r cm ev pref False prov = Inr p \<and> cp_mode p = mode
        \<and> (cp_gate_b_code p = Feasible \<or> cp_tasks p = [])
        \<and> distinct (cp_batch_order p) \<and> set (cp_batch_order p) = as_target ` set (cp_tasks p))"
proof (cases "resolve_mode cm prov")
  case (Inl e)
  then show ?thesis by (simp add: plan_capacity_def)
next
  case (Inr mode)
  have pl: "planned r" by (rule reconcile_planned [OF assms])
  from plan_capacity_total [OF pl Inr] obtain p where p: "plan_capacity hsh cat' r cm ev pref False prov = Inr p" by blast
  from p have mode: "cp_mode p = mode"
  proof (cases rule: plan_capacity_split)
    case (feasible mode' gate first)
    with Inr show ?thesis by (simp add: feasible_plan_def Let_def split: sum.splits) (metis capacity_plan.select_convs(1))
  qed (use Inr in \<open>simp_all add: empty_plan_def\<close>)
  show ?thesis
  proof (cases "cp_gate_b_code p = Feasible")
    case True
    from feasible_plan_parts [OF pl p True] have "batch_order (cp_tasks p) r = Inr (cp_batch_order p)" by metis
    with p mode Inr True batch_order_targets show ?thesis by auto
  next
    case False
    from p False have "cp_tasks p = [] \<and> cp_batch_order p = []"
    proof (cases rule: plan_capacity_split)
      case (feasible mode' gate first)
      with False show ?thesis by (auto simp: feasible_plan_def Let_def split: sum.splits)
    qed (simp_all add: empty_plan_def)
    with p mode Inr show ?thesis by auto
  qed
qed

text \<open>
  Bulk downloads run before replicas: in a batch order, once a drive has only replications
  left to do, every later drive has only replications too.
\<close>

theorem batch_order_bulk_first:
  assumes "batch_order ts r = Inr order"
  shows "sorted (map (only_replicas ts) order)"
proof (cases "try_map (\<lambda>t. map_sum id (Pair (as_target t)) (execution_rank t r)) ts")
  case (Inr ranked)
  let ?tier = "\<lambda>l. min_rank (map snd (filter (\<lambda>(m, _). m = l) ranked))"
  let ?labels = "remdups (map fst ranked)"
  have order: "order = sort_key (\<lambda>l. (?tier l, l)) ?labels"
    using assms Inr by (simp add: batch_order_def)
  have "sorted_wrt (\<lambda>a b. (?tier a, a) \<le> (?tier b, b)) order"
    using sorted_sort_key [of "\<lambda>l. (?tier l, l)" ?labels] unfolding order sorted_map .
  moreover have "only_replicas ts a \<le> only_replicas ts b"
    if "a \<in> set order" "b \<in> set order" "(?tier a, a) \<le> (?tier b, b)" for a b
  proof -
    have "fst (?tier a) \<le> fst (?tier b)"
      by (rule rank_le_fst [OF tuple_le_fst [OF that(3)]])
    moreover have "a \<in> set (map fst ranked)" "b \<in> set (map fst ranked)"
      using that(1,2) order by simp_all
    ultimately show ?thesis
      unfolding le_bool_def ranked_tiers [OF Inr \<open>a \<in> set (map fst ranked)\<close>]
        ranked_tiers [OF Inr \<open>b \<in> set (map fst ranked)\<close>]
      by (blast intro: order_trans)
  qed
  ultimately show ?thesis
    unfolding sorted_map by (rule sorted_wrt_mono_rel [rotated]) blast
qed (use assms in \<open>simp add: batch_order_def\<close>)

end
