(* ===== verification/CapacityInstances.thy ===== *)
theory CapacityInstances
  imports PlanGuarantees "HOL-Library.Code_Target_Nat"
begin

text \<open>
  One repository of one file, two plan drives: the whole chain from the catalog to the capacity
  plan, evaluated by the simplifier. The 64 MiB chunk size is not unfolded.
\<close>

declare DEFAULT_CHUNK_def [code del]

text \<open>Equations that keep the evaluator away from open terms.\<close>

primrec file_budgets :: "bool \<Rightarrow> rat \<Rightarrow> compression_cfg \<Rightarrow> bool \<Rightarrow> manifest_file list \<Rightarrow> file_budget list" where
  "file_budgets z ratio cfg replica [] = []"
| "file_budgets z ratio cfg replica (mf # ms) =
     file_budget z mf ratio cfg None replica # file_budgets z ratio cfg replica ms"

lemma file_budgets_map [code_unfold]:
  "map (\<lambda>mf. file_budget z mf ratio cfg None replica) ms = file_budgets z ratio cfg replica ms"
  by (induction ms) simp_all

lemma target_candidates_code [code]:
  "target_candidates z inp req sources (label, reused, missing) =
     (if rq_kind req = PROTECTED_REPLICA then
        (if sources \<noteq> []
         then map (\<lambda>s. replica_candidate z inp req label reused missing (FromHome s)) sources
         else [replica_candidate z inp req label reused missing (PendingHome (rq_independent_of req))])
      else [fetch_candidate z inp req label reused missing])"
  by (simp add: target_candidates_def)


definition plan_drive :: "str \<Rightarrow> str \<Rightarrow> catalog_drive" where
  "plan_drive label state = \<lparr>cg_label = label, cg_role = Some ''primary'', cg_raid_backed = Some 0,
     cg_capacity_bytes = Some 1000, cg_free_bytes = Some 1000, cg_filesystem_capacity_bytes = Some 1000,
     cg_identity_epoch = Some 1, cg_fs_uuid = Some label, cg_annex_uuid = None, cg_serial = None,
     cg_lifecycle = state, cg_eligibility = ''enabled''\<rparr>"

definition plan_catalog :: "str \<Rightarrow> catalog" where
  "plan_catalog state =
     \<lparr>ct_selection = [(''r'', True)],
      ct_files = [(''r'', \<lparr>fr_rfilename = ''x.gguf'', fr_size_bytes = Some 10, fr_sha256 = None,
         fr_format = Some ''gguf'', fr_quant = None\<rparr>)],
      ct_drives = [plan_drive ''d'' ''active'', plan_drive ''e'' state],
      ct_plan_drives = [(''p'', ''d''), (''p'', ''e'')], ct_numcopies = [], ct_archived = []\<rparr>"

definition plan_evidence :: "int \<Rightarrow> evidence" where
  "plan_evidence n = \<lparr>ev_kind = Live, ev_executable = True, ev_admissible_free = n, ev_code = None,
     ev_observed_free = Some n, ev_optimistic_usable_max = Some n, ev_legacy_free_bytes = None,
     ev_observed_at = None, ev_identity_epoch = Some 1\<rparr>"

text \<open>What reconciliation returns, written out; both drives are candidates of the one copy.\<close>

definition plan_file :: manifest_file where
  "plan_file = \<lparr>mf_rfilename = ''x.gguf'', mf_size_bytes = 10, mf_sha256 = None, mf_format = ''gguf'',
     mf_quant = None, mf_storage_action = ''raw''\<rparr>"

definition plan_candidate :: "str \<Rightarrow> candidate" where
  "plan_candidate label =
     \<lparr>ca_requirement = ''primary:r'', ca_task_kind = FETCH, ca_target = label, ca_source = NoSource,
      ca_depends_on = None, ca_reused = [], ca_missing = [plan_file],
      ca_budget = \<lparr>cb_guaranteed_durable = 10, cb_expected_durable = 10, cb_workspace_peak_guaranteed = 0,
        cb_workspace_peak_expected = 0, cb_file_budgets = [\<lparr>fb_rfilename = ''x.gguf'',
          fb_guaranteed_durable = 10, fb_expected_durable = 10, fb_workspace_peak_guaranteed = 0,
          fb_workspace_peak_expected = 0, fb_evidence = ''estimate''\<rparr>]\<rparr>,
      ca_transfer_bytes = 10\<rparr>"

definition plan_result :: reconcile_result where
  "plan_result =
     \<lparr>rr_plan_id = ''p'', rr_repo_ids = [''r''], rr_manifests = [(''r'', [plan_file])],
      rr_requirements = [\<lparr>rq_id = ''primary:r'', rq_repo = ''r'', rq_kind = PRIMARY,
        rq_eligible = [''d'', ''e''], rq_independent_of = None\<rparr>],
      rr_facts = [], rr_intents = [\<lparr>wi_task_id = ''fetch:primary:r'', wi_kind = FETCH,
        wi_requirement = ''primary:r'', wi_repo = ''r'', wi_eligible = [''d'', ''e''], wi_source_drive = None,
        wi_depends_on = None\<rparr>],
      rr_satisfied = {}, rr_matches = [], rr_diagnostics = [],
      rr_candidates = \<lparr>cs_satisfied = [],
        cs_by_requirement = [(''primary:r'', [plan_candidate ''d'', plan_candidate ''e''])],
        cs_drift = [], cs_blocked = []\<rparr>\<rparr>"

lemma plan_reconciled:
  "reconcile_plan id False (plan_catalog ''active'') ''p'' None \<lparr>allow_pickle = False\<rparr>
     \<lparr>cc_max_compress_ram_gb = 1, cc_stream_compress = True\<rparr> 1 = Inr plan_result"
  by code_simp

definition plan_hash :: "key_part \<Rightarrow> int" where
  "plan_hash part = (case part of (rid, target, _) \<Rightarrow> if target = ''d'' then 1 else 2)"

text \<open>The plan against the second read \<open>state\<close>, with 100 admissible bytes on each drive.\<close>

abbreviation plan_facts :: "(str \<times> evidence) list" where
  "plan_facts \<equiv> [(''d'', plan_evidence 100), (''e'', plan_evidence 100)]"

definition plan_on :: "str \<Rightarrow> capacity_error + capacity_plan" where
  "plan_on state = plan_capacity plan_hash (plan_catalog state) plan_result None plan_facts None False None"

lemma plan_feasible_on:
  obtains p where "plan_capacity plan_hash (plan_catalog ''active'') plan_result None plan_facts None False None = Inr p"
    "plan_feasible p" "cp_tasks p \<noteq> []"
proof -
  have "case plan_on ''active'' of Inr p \<Rightarrow> plan_feasible p \<and> cp_tasks p \<noteq> [] | Inl _ \<Rightarrow> False" by code_simp
  with that show ?thesis unfolding plan_on_def by (auto split: sum.splits)
qed

theorem feasible_plan_within_budget_witness:
  "\<exists>p. plan_feasible p \<and> cp_tasks p \<noteq> []
     \<and> list_all (\<lambda>d. cd_label d \<notin> as_target ` set (cp_tasks p)
         \<or> required_peak (cp_mode p) (ledger_of (cp_tasks p) d) \<le> fillable None d)
       (inspect_drives (plan_catalog ''active'') (rr_plan_id plan_result) plan_facts)"
proof -
  obtain p where p: "plan_capacity plan_hash (plan_catalog ''active'') plan_result None plan_facts None False None = Inr p"
    "plan_feasible p" "cp_tasks p \<noteq> []" by (rule plan_feasible_on)
  have d: "distinct (map cd_label (inspect_drives (plan_catalog ''active'') (rr_plan_id plan_result) plan_facts))"
    by code_simp
  from feasible_plan_within_budget [OF plan_reconciled p(1,2) d] p(2,3) show ?thesis by blast
qed

theorem feasible_plan_complete_witness:
  "\<exists>p. plan_feasible p \<and> list_all (\<lambda>q. length (filter (\<lambda>t. as_requirement t = rq_id q) (cp_tasks p))
         = (if rq_id q \<in> rr_satisfied plan_result then 0 else 1)) (rr_requirements plan_result)"
proof -
  obtain p where p: "plan_capacity plan_hash (plan_catalog ''active'') plan_result None plan_facts None False None = Inr p"
    "plan_feasible p" "cp_tasks p \<noteq> []" by (rule plan_feasible_on)
  from feasible_plan_complete [OF plan_reconciled p(1,2)] p(2) show ?thesis by blast
qed

text \<open>Drive \<open>e\<close> is lost between the reads; drive \<open>d\<close> alone could still take the copy.\<close>

theorem stale_target_fails_closed_witness:
  "\<exists>p. plan_on ''lost'' = Inr p \<and> \<not> plan_feasible p \<and> cp_tasks p = []
    \<and> list_ex (\<lambda>f. fl_code f = Target_Drive_Changed \<and> fl_requirement f = Some ''primary:r'') (cp_failures p)"
  unfolding plan_on_def
proof (rule stale_target_fails_closed)
  show "resolve_mode None None = Inr GUARANTEED" by code_simp
  show "(''primary:r'', [plan_candidate ''d'', plan_candidate ''e'']) \<in> set (cs_by_requirement (rr_candidates plan_result))"
    by (simp add: plan_result_def)
  show "plan_candidate ''e'' \<in> set [plan_candidate ''d'', plan_candidate ''e'']" by simp
  show "ca_target (plan_candidate ''e'') \<notin> placeable_labels (plan_catalog ''lost'') (rr_plan_id plan_result)
      \<inter> cd_label ` set (inspect_drives (plan_catalog ''lost'') (rr_plan_id plan_result) plan_facts)"
    by code_simp
qed

theorem plan_capacity_answers_witness:
  "\<exists>p. plan_on ''lost'' = Inr p \<and> cp_mode p = GUARANTEED"
proof -
  have "resolve_mode None None = Inr GUARANTEED" by code_simp
  with plan_capacity_answers [OF plan_reconciled, where cm = None and prov = None and hsh = plan_hash
      and cat' = "plan_catalog ''lost''" and ev = plan_facts and pref = None]
  show ?thesis unfolding plan_on_def by auto
qed

text \<open>One replication and one download on different drives.\<close>

definition order_task :: "task_kind \<Rightarrow> str \<Rightarrow> assigned_task" where
  "order_task kind target =
     \<lparr>as_task_id = [], as_requirement = ''primary:r'', as_repo = ''r'', as_kind = kind, as_target = target,
      as_source = None, as_depends_on = None,
      as_budget = \<lparr>tb_task_id = [], tb_requirement = [], tb_repo = [], tb_kind = kind, tb_target = target,
        tb_source = None, tb_missing_files = [''x.gguf''], tb_file_budgets = [], tb_guaranteed_durable = 10,
        tb_expected_durable = 10, tb_workspace_peak_guaranteed = 0, tb_workspace_peak_expected = 0,
        tb_evidence = []\<rparr>\<rparr>"

theorem batch_order_bulk_first_witness:
  "batch_order [order_task REPLICATE ''d'', order_task FETCH ''e''] plan_result = Inr [''e'', ''d'']
   \<and> sorted (map (only_replicas [order_task REPLICATE ''d'', order_task FETCH ''e'']) [''e'', ''d''])"
proof -
  have o: "batch_order [order_task REPLICATE ''d'', order_task FETCH ''e''] plan_result = Inr [''e'', ''d'']"
    by code_simp
  with batch_order_bulk_first [OF o] show ?thesis by blast
qed

end
