(* ===== verification/Json.thy ===== *)
theory Json
  imports Identity
begin

text \<open>
  Canonical JSON: \<open>json.dumps(value, sort_keys=True, separators=(",", ":"), ensure_ascii=True)\<close>,
  the text that \<open>slice/domain.py\<close> (\<open>_json\<close>), \<open>slice/folder_contract.py\<close> (\<open>_encode\<close>) and
  \<open>slice/state.py\<close> hash into their seals, target ids and journal digests. Values are the JSON
  values these modules build: no floats. The main lemma \<open>encode_inj\<close> says that two canonical
  values with one text are equal, so that a hash of the text identifies the value up to a
  collision of the hash.
\<close>

datatype json =
    JNull
  | JBool bool
  | JInt int
  | JStr str
  | JArr "json list"
  | JObj "(str \<times> json) list"

fun joined :: "str list \<Rightarrow> str" where
  "joined [] = []"
| "joined [x] = x"
| "joined (x # y # ys) = x @ CHR '','' # joined (y # ys)"

definition member_text :: "str \<times> str \<Rightarrow> str" where
  "member_text m = json_key (fst m) @ snd m"

primrec encode :: "json \<Rightarrow> str" where
  "encode JNull = ''null''"
| "encode (JBool b) = (if b then ''true'' else ''false'')"
| "encode (JInt i) = json_int i"
| "encode (JStr s) = json_string s"
| "encode (JArr xs) = ''['' @ joined (map encode xs) @ '']''"
| "encode (JObj ms) = ''{'' @ joined (map member_text (sort_key fst (map (map_prod id encode) ms))) @ ''}''"

text \<open>\<open>hashlib.sha256(_json(value)).hexdigest()\<close>, the hash function being a parameter.\<close>

definition json_hash :: "(str \<Rightarrow> str) \<Rightarrow> json \<Rightarrow> str" where
  "json_hash sha v = sha (encode v)"

definition jopt :: "('a \<Rightarrow> json) \<Rightarrow> 'a option \<Rightarrow> json" where
  "jopt f v = (case v of None \<Rightarrow> JNull | Some x \<Rightarrow> f x)"

section \<open>Canonical values\<close>

text \<open>The members of every object stand in strictly increasing order of their keys.\<close>

primrec canonical :: "json \<Rightarrow> bool" where
  "canonical JNull = True"
| "canonical (JBool b) = True"
| "canonical (JInt i) = True"
| "canonical (JStr s) = True"
| "canonical (JArr xs) = list_all id (map canonical xs)"
| "canonical (JObj ms) = (sorted_wrt (<) (map fst ms) \<and> list_all id (map snd (map (map_prod id canonical) ms)))"

lemma canonical_simps [simp]:
  "canonical (JArr xs) \<longleftrightarrow> (\<forall>x \<in> set xs. canonical x)"
  "canonical (JObj ms) \<longleftrightarrow> sorted_wrt (<) (map fst ms) \<and> (\<forall>m \<in> set ms. canonical (snd m))"
  by (auto simp: list_all_iff)

declare canonical.simps(5,6) [simp del]

lemma canonical_jopt [simp]: "(\<And>x. canonical (f x)) \<Longrightarrow> canonical (jopt f v)"
  by (cases v) (simp_all add: jopt_def)

lemma jopt_inj: "jopt f v = jopt f w \<Longrightarrow> (\<And>x. f x \<noteq> JNull) \<Longrightarrow> (\<And>x y. f x = f y \<Longrightarrow> x = y) \<Longrightarrow> v = w"
  by (cases v; cases w) (auto simp: jopt_def dest: sym)

lemma jopt_str_eq [simp]: "jopt JStr v = jopt JStr w \<longleftrightarrow> v = w"
  by (auto dest: jopt_inj)

lemma jopt_int_eq [simp]: "jopt JInt v = jopt JInt w \<longleftrightarrow> v = w"
  by (auto dest: jopt_inj)

lemma jopt_bool_eq [simp]: "jopt JBool v = jopt JBool w \<longleftrightarrow> v = w"
  by (auto dest: jopt_inj)

lemma sorted_members:
  assumes "sorted_wrt (<) (map fst ms)"
  shows "sort_key fst (map (map_prod id encode) ms) = map (map_prod id encode) ms"
proof -
  have "map fst (map (map_prod id encode) ms) = map fst ms" by simp
  with assms have "sorted (map fst (map (map_prod id encode) ms))"
    by (simp add: strict_sorted_iff)
  then show ?thesis by (simp add: sort_key_id_if_sorted)
qed

definition object_text :: "(str \<times> json) list \<Rightarrow> str" where
  "object_text ms = joined (map (\<lambda>m. json_key (fst m) @ encode (snd m)) ms)"

lemma encode_object:
  assumes "sorted_wrt (<) (map fst ms)"
  shows "encode (JObj ms) = CHR ''{'' # object_text ms @ ''}''"
  using assms by (simp add: sorted_members object_text_def member_text_def comp_def case_prod_unfold)

section \<open>One text, one value\<close>

text \<open>What may follow the text of a value: nothing, a comma or a closing bracket.\<close>

definition delimited :: "str \<Rightarrow> bool" where
  "delimited x \<longleftrightarrow> (case x of [] \<Rightarrow> True | c # _ \<Rightarrow> c = CHR '','' \<or> c = CHR '']'' \<or> c = CHR ''}'')"

lemma delimited_simps [simp]:
  "delimited []" "delimited (CHR '','' # x)" "delimited (CHR '']'' # x)" "delimited (CHR ''}'' # x)"
  by (simp_all add: delimited_def)

definition int_char :: "char \<Rightarrow> bool" where
  "int_char c \<longleftrightarrow> is_digit c \<or> c = CHR ''-''"

lemma json_int_chars: "\<forall>c \<in> set (json_int i). int_char c"
  by (auto simp: json_int_def int_char_def dest: dec_digits_chars)

lemma json_int_hd: "\<exists>c r. json_int i = c # r \<and> int_char c"
  using dec_digits_hd [of "nat i"] by (auto simp: json_int_def int_char_def)

lemma int_char_delims [simp]:
  "\<not> int_char (CHR '','')" "\<not> int_char (CHR '']'')" "\<not> int_char (CHR ''}'')" "\<not> int_char (CHR ''['')"
  "\<not> int_char (CHR ''{'')" "\<not> int_char (CHR ''n'')" "\<not> int_char (CHR ''t'')" "\<not> int_char (CHR ''f'')"
  "\<not> int_char dquote"
  by (simp_all add: int_char_def is_digit_def dquote_def char_of_def)

lemma dquote_chars [simp]:
  "dquote \<noteq> CHR '',''" "dquote \<noteq> CHR '']''" "dquote \<noteq> CHR ''}''" "dquote \<noteq> CHR ''[''" "dquote \<noteq> CHR ''{''"
  "dquote \<noteq> CHR ''n''" "dquote \<noteq> CHR ''t''" "dquote \<noteq> CHR ''f''"
  by (simp_all add: dquote_def char_of_def)

lemma dquote_chars' [simp]:
  "CHR '','' \<noteq> dquote" "CHR '']'' \<noteq> dquote" "CHR ''}'' \<noteq> dquote" "CHR ''['' \<noteq> dquote" "CHR ''{'' \<noteq> dquote"
  "CHR ''n'' \<noteq> dquote" "CHR ''t'' \<noteq> dquote" "CHR ''f'' \<noteq> dquote"
  by (metis dquote_chars)+

lemma span_unique:
  assumes "\<forall>c \<in> set a. P c" "\<forall>c \<in> set b. P c" "a @ x = b @ y"
    and "x = [] \<or> \<not> P (hd x)" "y = [] \<or> \<not> P (hd y)"
  shows "a = b \<and> x = y"
proof -
  have "takeWhile P (a @ x) = a" "takeWhile P (b @ y) = b"
    using assms(1,2,4,5) by (auto simp: takeWhile_append takeWhile_eq_Nil_iff)
  with assms(3) show ?thesis by simp
qed

lemma json_int_delimited:
  assumes "json_int i @ x = json_int j @ y" "delimited x" "delimited y"
  shows "i = j \<and> x = y"
proof -
  have "z = [] \<or> \<not> int_char (hd z)" if "delimited z" for z
    using that by (auto simp: delimited_def split: list.splits)
  then have "json_int i = json_int j \<and> x = y"
    using assms by (intro span_unique [where P = int_char] json_int_chars) auto
  then show ?thesis using json_int_inj by simp
qed

lemma json_string_delimited: "json_string s @ x = json_string t @ y \<Longrightarrow> s = t \<and> x = y"
  by (rule json_body_inj) (simp add: json_string_def)

text \<open>The first character tells the kind of a value.\<close>

datatype kind = KNull | KTrue | KFalse | KInt | KStr | KArr | KObj

definition kind_of :: "char \<Rightarrow> kind" where
  "kind_of c = (if c = CHR ''n'' then KNull else if c = CHR ''t'' then KTrue else if c = CHR ''f'' then KFalse
     else if c = dquote then KStr else if c = CHR ''['' then KArr else if c = CHR ''{'' then KObj else KInt)"

definition json_kind :: "json \<Rightarrow> kind" where
  "json_kind v = (case v of JNull \<Rightarrow> KNull | JBool b \<Rightarrow> (if b then KTrue else KFalse) | JInt _ \<Rightarrow> KInt
     | JStr _ \<Rightarrow> KStr | JArr _ \<Rightarrow> KArr | JObj _ \<Rightarrow> KObj)"

lemma kind_of_int: "int_char c \<Longrightarrow> kind_of c = KInt"
  by (auto simp: kind_of_def)

lemma kind_of_simps [simp]:
  "kind_of (CHR ''n'') = KNull" "kind_of (CHR ''t'') = KTrue" "kind_of (CHR ''f'') = KFalse"
  "kind_of dquote = KStr" "kind_of (CHR ''['') = KArr" "kind_of (CHR ''{'') = KObj" "kind_of (CHR '']'') = KInt"
  by (simp_all add: kind_of_def)

lemma encode_kind: "\<exists>c r. encode v = c # r \<and> kind_of c = json_kind v"
proof (cases v)
  case (JInt i)
  with json_int_hd [of i] kind_of_int show ?thesis by (auto simp: json_kind_def)
next
  case (JBool b)
  then show ?thesis by (cases b) (simp_all add: json_kind_def)
qed (simp_all add: json_kind_def json_string_def)

lemma encode_same_kind: "encode v @ x = encode w @ y \<Longrightarrow> json_kind v = json_kind w"
  using encode_kind [of v] encode_kind [of w] by auto

lemma encode_ne_delim: "encode v @ x \<noteq> CHR '']'' # y"
proof
  assume "encode v @ x = CHR '']'' # y"
  then have "kind_of (CHR '']'') = json_kind v" using encode_kind [of v] by auto
  then have "json_kind v = KInt" by simp
  then obtain i where "v = JInt i" by (auto simp: json_kind_def split: json.splits if_splits)
  with \<open>encode v @ x = CHR '']'' # y\<close> json_int_hd [of i] show False by auto
qed

lemma joined_Cons: "joined (x # xs) = x @ (if xs = [] then [] else CHR '','' # joined xs)"
  by (cases xs) simp_all

lemma array_inj:
  assumes ih: "\<And>v w x y. v \<in> set xs \<Longrightarrow> canonical w \<Longrightarrow> delimited x \<Longrightarrow> delimited y \<Longrightarrow>
      encode v @ x = encode w @ y \<Longrightarrow> v = w \<and> x = y"
    and "\<forall>w \<in> set ys. canonical w"
    and "joined (map encode xs) @ CHR '']'' # x = joined (map encode ys) @ CHR '']'' # y"
  shows "xs = ys \<and> x = y"
  using assms
proof (induction xs arbitrary: ys)
  case Nil
  then show ?case
    using encode_ne_delim by (cases ys) (auto simp: joined_Cons, metis)
next
  case (Cons v xs)
  show ?case
  proof (cases ys)
    case Nil
    with Cons.prems(3) show ?thesis
      using encode_ne_delim [of v] by (auto simp: joined_Cons)
  next
    case (Cons w ws)
    define rest where "rest zs z = (if zs = [] then CHR '']'' # z else CHR '','' # joined (map encode zs) @ CHR '']'' # z)"
      for zs :: "json list" and z
    have d: "delimited (rest zs z)" for zs z by (simp add: rest_def)
    have "encode v @ rest xs x = encode w @ rest ws y"
      using Cons.prems(3) Cons by (auto simp: joined_Cons rest_def split: if_splits)
    then have "v = w \<and> rest xs x = rest ws y"
      using Cons.prems(1,2) Cons d by (intro Cons.prems(1)) auto
    then have vw: "v = w" "rest xs x = rest ws y" by simp_all
    show ?thesis
    proof (cases "xs = [] \<or> ws = []")
      case True
      with vw show ?thesis using Cons by (auto simp: rest_def split: if_splits)
    next
      case False
      with vw have "joined (map encode xs) @ CHR '']'' # x = joined (map encode ws) @ CHR '']'' # y"
        by (simp add: rest_def)
      with Cons.IH [of ws] Cons.prems(1,2) Cons vw show ?thesis by auto
    qed
  qed
qed

lemma object_inj:
  assumes ih: "\<And>k v w x y. (k, v) \<in> set ms \<Longrightarrow> canonical w \<Longrightarrow> delimited x \<Longrightarrow> delimited y \<Longrightarrow>
      encode v @ x = encode w @ y \<Longrightarrow> v = w \<and> x = y"
    and "\<forall>m \<in> set ns. canonical (snd m)"
    and "object_text ms @ CHR ''}'' # x = object_text ns @ CHR ''}'' # y"
  shows "ms = ns \<and> x = y"
  using assms
proof (induction ms arbitrary: ns)
  case Nil
  then show ?case
    by (cases ns) (auto simp: object_text_def joined_Cons json_key_def json_string_def)
next
  case (Cons m ms)
  obtain k v where m: "m = (k, v)" by (cases m)
  show ?case
  proof (cases ns)
    case Nil
    with Cons.prems(3) show ?thesis
      by (auto simp: object_text_def joined_Cons json_key_def json_string_def)
  next
    case (Cons n ns')
    obtain j w where n: "n = (j, w)" by (cases n)
    define rest where "rest zs z = (if zs = [] then CHR ''}'' # z else CHR '','' # object_text zs @ CHR ''}'' # z)"
      for zs :: "(str \<times> json) list" and z
    have d: "delimited (rest zs z)" for zs z by (simp add: rest_def)
    have "json_string k @ CHR '':'' # encode v @ rest ms x = json_string j @ CHR '':'' # encode w @ rest ns' y"
      using Cons.prems(3) Cons m n
      by (auto simp: object_text_def joined_Cons rest_def json_key_def split: if_splits)
    from json_string_delimited [OF this]
    have kj: "k = j" and "encode v @ rest ms x = encode w @ rest ns' y" by simp_all
    then have "v = w \<and> rest ms x = rest ns' y"
      using Cons.prems(2) Cons m n d by (intro Cons.prems(1) [of k]) auto
    then have vw: "v = w" "rest ms x = rest ns' y" by simp_all
    show ?thesis
    proof (cases "ms = [] \<or> ns' = []")
      case True
      with vw kj m n Cons show ?thesis by (auto simp: rest_def split: if_splits)
    next
      case False
      with vw have "object_text ms @ CHR ''}'' # x = object_text ns' @ CHR ''}'' # y"
        by (simp add: rest_def)
      moreover have "ms = ns' \<and> x = y"
      proof (rule Cons.IH [OF _ _ calculation])
        fix k v w x y
        assume "(k, v) \<in> set ms" "canonical w" "delimited x" "delimited y" "encode v @ x = encode w @ y"
        then show "v = w \<and> x = y" by (intro Cons.prems(1) [of k]) simp_all
      qed (use Cons.prems(2) Cons in simp)
      ultimately show ?thesis using vw kj m n Cons by simp
    qed
  qed
qed

lemma encode_delimited_inj:
  "canonical v \<Longrightarrow> canonical w \<Longrightarrow> delimited x \<Longrightarrow> delimited y \<Longrightarrow> encode v @ x = encode w @ y \<Longrightarrow> v = w \<and> x = y"
proof (induction v arbitrary: w x y)
  case JNull
  have "json_kind w = KNull" using encode_same_kind [OF JNull.prems(5)] by (simp add: json_kind_def)
  then have "w = JNull" by (auto simp: json_kind_def split: json.splits if_splits)
  with JNull.prems show ?case by simp
next
  case (JBool b)
  have "json_kind w = (if b then KTrue else KFalse)"
    using encode_same_kind [OF JBool.prems(5)] by (simp add: json_kind_def)
  then have "w = JBool b" by (auto simp: json_kind_def split: json.splits if_splits)
  with JBool.prems show ?case by simp
next
  case (JInt i)
  have "json_kind w = KInt" using encode_same_kind [OF JInt.prems(5)] by (simp add: json_kind_def)
  then obtain j where "w = JInt j" by (auto simp: json_kind_def split: json.splits if_splits)
  with JInt.prems json_int_delimited [of i x j y] show ?case by simp
next
  case (JStr s)
  have "json_kind w = KStr" using encode_same_kind [OF JStr.prems(5)] by (simp add: json_kind_def)
  then obtain t where "w = JStr t" by (auto simp: json_kind_def split: json.splits if_splits)
  with JStr.prems json_string_delimited [of s x t y] show ?case by simp
next
  case (JArr xs)
  have "json_kind w = KArr" using encode_same_kind [OF JArr.prems(5)] by (simp add: json_kind_def)
  then obtain ys where w: "w = JArr ys" by (auto simp: json_kind_def split: json.splits if_splits)
  have "xs = ys \<and> x = y"
    by (rule array_inj) (use JArr w in auto)
  with w show ?case by simp
next
  case (JObj ms)
  have "json_kind w = KObj" using encode_same_kind [OF JObj.prems(5)] by (simp add: json_kind_def)
  then obtain ns where w: "w = JObj ns" by (auto simp: json_kind_def split: json.splits if_splits)
  have eq: "object_text ms @ CHR ''}'' # x = object_text ns @ CHR ''}'' # y"
    using JObj.prems w by (simp add: encode_object del: encode.simps)
  have "ms = ns \<and> x = y"
  proof (rule object_inj [OF _ _ eq])
    show "\<forall>m\<in>set ns. canonical (snd m)" using JObj.prems(2) w by simp
  qed (use JObj.IH JObj.prems(1) in fastforce)
  with w show ?case by simp
qed

theorem encode_inj: "canonical v \<Longrightarrow> canonical w \<Longrightarrow> encode v = encode w \<Longrightarrow> v = w"
  using encode_delimited_inj [of v w "[]" "[]"] by simp

text \<open>Two canonical values with one hash are equal, or their texts are a collision.\<close>

definition collision :: "(str \<Rightarrow> str) \<Rightarrow> bool" where
  "collision sha \<longleftrightarrow> (\<exists>x y. x \<noteq> y \<and> sha x = sha y)"

lemma json_hash_eq:
  "json_hash sha v = json_hash sha w \<Longrightarrow> canonical v \<Longrightarrow> canonical w \<Longrightarrow> v = w \<or> collision sha"
  by (auto simp: json_hash_def collision_def dest: encode_inj)

end
