(* ===== verification/SliceAuthority.thy ===== *)
theory SliceAuthority
  imports Json
begin

text \<open>
  Live delivery attempts: \<open>modelark/execution_authority.py\<close> and the state tables of
  \<open>modelark/slice/authority.py\<close>. A transaction is in one of twelve named states; the sets of
  resumable, running and terminal states and the transition table are the module's constants.
\<close>

section \<open>Refusals\<close>

text \<open>\<open>TransferRefusal(code, detail)\<close>; \<open>str(exc)\<close> is \<open>"code: detail"\<close>.\<close>

datatype refusal = Refusal (refusal_code: str) (refusal_detail: str)

definition refusal_text :: "refusal \<Rightarrow> str" where
  "refusal_text r = refusal_code r @ '': '' @ refusal_detail r"

section \<open>Transaction states\<close>

datatype phase =
    PReady | PApproved | PStarting | PTransferring | PVerifying | PStopped
  | PWaitingSource | PBlockedSource | PWaitingDestination
  | PComplete | PFailed | PInvalidated

text \<open>The states' own names, which refusals quote.\<close>

fun phase_text :: "phase \<Rightarrow> str" where
  "phase_text PReady = ''ready''"
| "phase_text PApproved = ''approved''"
| "phase_text PStarting = ''starting''"
| "phase_text PTransferring = ''transferring''"
| "phase_text PVerifying = ''verifying''"
| "phase_text PStopped = ''stopped''"
| "phase_text PWaitingSource = ''waiting_source''"
| "phase_text PBlockedSource = ''blocked_source''"
| "phase_text PWaitingDestination = ''waiting_destination''"
| "phase_text PComplete = ''complete''"
| "phase_text PFailed = ''failed''"
| "phase_text PInvalidated = ''invalidated''"

definition RESUMABLE_STATES :: "phase set" where
  "RESUMABLE_STATES = {PApproved, PStarting, PTransferring, PVerifying, PStopped,
     PWaitingSource, PBlockedSource, PWaitingDestination}"

definition RUNNING_STATES :: "phase set" where
  "RUNNING_STATES = RESUMABLE_STATES - {PApproved}"

definition TERMINAL_STATES :: "phase set" where
  "TERMINAL_STATES = {PComplete, PFailed, PInvalidated}"

definition OUTCOMES :: "phase set" where
  "OUTCOMES = {PStopped, PWaitingSource, PBlockedSource, PWaitingDestination, PFailed, PInvalidated}"

text \<open>The dictionary \<open>TRANSITIONS\<close>: \<open>None\<close> where the state is no key of it.\<close>

fun TRANSITIONS :: "phase \<Rightarrow> phase set option" where
  "TRANSITIONS PStarting = Some (OUTCOMES \<union> {PTransferring})"
| "TRANSITIONS PTransferring = Some (OUTCOMES \<union> {PTransferring, PVerifying})"
| "TRANSITIONS PVerifying = Some (OUTCOMES \<union> {PVerifying})"
| "TRANSITIONS PWaitingSource = Some (OUTCOMES \<union> {PTransferring})"
| "TRANSITIONS PBlockedSource = Some (OUTCOMES \<union> {PTransferring})"
| "TRANSITIONS PWaitingDestination = Some (OUTCOMES \<union> {PTransferring})"
| "TRANSITIONS PStopped = Some {PStopped}"
| "TRANSITIONS _ = None"

definition refusal_state :: "str \<Rightarrow> phase" where
  "refusal_state code =
     (if code = ''STOPPED'' then PStopped
      else if code = ''WAITING_SOURCE'' then PWaitingSource
      else if code = ''WAITING_DESTINATION'' then PWaitingDestination
      else if code = ''SOURCE_BLOCKED'' then PBlockedSource
      else if code = ''DESTINATION_CAPACITY_WAIT'' then PWaitingDestination
      else if strip_prefix ''DESTINATION_'' code \<noteq> None then PInvalidated
      else PFailed)"

lemma resumable_iff:
  "p \<in> RESUMABLE_STATES \<longleftrightarrow> p \<notin> {PReady, PComplete, PFailed, PInvalidated}"
  by (cases p) (simp_all add: RESUMABLE_STATES_def)

lemma running_iff:
  "p \<in> RUNNING_STATES \<longleftrightarrow> p \<notin> {PReady, PApproved, PComplete, PFailed, PInvalidated}"
  by (cases p) (simp_all add: RUNNING_STATES_def RESUMABLE_STATES_def)

lemma running_resumable: "p \<in> RUNNING_STATES \<Longrightarrow> p \<in> RESUMABLE_STATES"
  by (simp add: RUNNING_STATES_def)

lemma terminal_not_running: "p \<in> TERMINAL_STATES \<Longrightarrow> p \<notin> RESUMABLE_STATES"
  by (auto simp: TERMINAL_STATES_def resumable_iff)

text \<open>Every running state has a row in the table, and no other state has one.\<close>

lemma transitions_running: "p \<in> RUNNING_STATES \<longleftrightarrow> TRANSITIONS p \<noteq> None"
  by (cases p) (simp_all add: running_iff)

lemma transitions_target:
  "TRANSITIONS p = Some ts \<Longrightarrow> q \<in> ts \<Longrightarrow> q \<notin> {PReady, PApproved, PStarting, PComplete}"
  by (cases p) (auto simp: OUTCOMES_def)

lemma refusal_state_outcome: "refusal_state code \<in> OUTCOMES"
  by (simp add: refusal_state_def OUTCOMES_def)

section \<open>Attempts\<close>

text \<open>
  \<open>execution_authority.Attempt\<close>. The stored attempt read by a left join may lack an owner or
  a token, so that the actual attempt is a pair of optional values.
\<close>

record attempt =
  at_owner :: str
  at_token :: str

datatype authority_lost = AuthorityLost str

definition require_current ::
  "attempt \<Rightarrow> str option \<times> str option \<Rightarrow> phase \<Rightarrow> phase set \<Rightarrow> authority_lost + unit" where
  "require_current expected actual st allowed =
     (if (Some (at_owner expected), Some (at_token expected)) \<noteq> actual
      then Inl (AuthorityLost ''execution attempt differs'')
      else if st \<notin> allowed
      then Inl (AuthorityLost ''execution state does not permit this operation'')
      else Inr ())"

lemma require_current_Inr:
  "require_current e a st al = Inr u \<longleftrightarrow> a = (Some (at_owner e), Some (at_token e)) \<and> st \<in> al"
  by (auto simp: require_current_def)

section \<open>Reservations\<close>

text \<open>\<open>slice/state.py\<close> \<open>Reservation\<close>: what Start saw before it asked for the device.\<close>

record reservation =
  rs_state :: phase
  rs_serial :: nat
  rs_acknowledged :: nat

definition resumes :: "reservation \<Rightarrow> phase \<Rightarrow> nat \<Rightarrow> nat \<Rightarrow> bool" where
  "resumes r state serial acknowledged =
     (rs_state r = state \<and> state = PStopped \<and>
      rs_serial r = rs_acknowledged r \<and> rs_acknowledged r = serial \<and> serial = acknowledged)"

end
