(* ===== verification/FolderContract.thy ===== *)
theory FolderContract
  imports SliceAuthority
begin

text \<open>
  Folder contracts: \<open>modelark/slice/folder_contract.py\<close>. A target names a filesystem scope, a
  parent path by its components and a child to create; \<open>overlaps\<close> decides whether two targets
  can contain a common path. Values built from records arrive as JSON values, so that the
  \<open>isinstance\<close> checks of the constructors are branches of the model.
\<close>

definition refuse_contract :: "str \<Rightarrow> refusal + 'a" where
  "refuse_contract detail = Inl (Refusal ''FOLDER_CONTRACT_INVALID'' detail)"

definition nul :: char where
  "nul = char_of (0::nat)"

fun text_value :: "json \<Rightarrow> bool" where
  "text_value (JStr s) = (s \<noteq> [] \<and> s = py_strip s \<and> nul \<notin> set s)"
| "text_value _ = False"

text \<open>The strings of the model are code points below 256, all of which encode as UTF-8.\<close>

definition component :: "json \<Rightarrow> refusal + str" where
  "component v =
     (case v of
        JStr s \<Rightarrow>
          (if \<not> text_value v \<or> s = ''.'' \<or> s = ''..''
              \<or> list_ex (\<lambda>c. c = CHR ''/'' \<or> c = char_of (92::nat) \<or> c = CHR '':'') s
           then refuse_contract ''canonical single path component required'' else Inr s)
      | _ \<Rightarrow> refuse_contract ''canonical single path component required'')"

section \<open>Targets\<close>

datatype profile = NativeExt4 | Fat32Session

definition profile_value :: "profile \<Rightarrow> str" where
  "profile_value p = (case p of NativeExt4 \<Rightarrow> ''native-ext4-folder.v1'' | Fat32Session \<Rightarrow> ''fat32-folder-session.v1'')"

definition resume_policy :: "profile \<Rightarrow> str" where
  "resume_policy p = (if p = NativeExt4 then ''authenticated'' else ''new-root'')"

fun folder_profile :: "json \<Rightarrow> refusal + profile" where
  "folder_profile (JStr s) =
     (if s = profile_value NativeExt4 then Inr NativeExt4
      else if s = profile_value Fat32Session then Inr Fat32Session
      else refuse_contract ''unsupported folder profile'')"
| "folder_profile _ = refuse_contract ''unsupported folder profile''"

datatype parent_identity = InodeBirth int int | SessionToken str

record folder_target =
  ft_profile :: profile
  ft_scope :: str
  ft_parent :: "str list"
  ft_identity :: parent_identity
  ft_child :: str

definition hex_text :: "nat \<Rightarrow> str \<Rightarrow> bool" where
  "hex_text n s = (length s = n \<and> list_all is_hex s)"

fun parent_identity_of :: "profile \<Rightarrow> json \<Rightarrow> refusal + parent_identity" where
  "parent_identity_of NativeExt4 (JArr [JInt i, JInt b]) =
     (if 0 < i \<and> 0 < b then Inr (InodeBirth i b)
      else refuse_contract ''native parent inode and birth identity required'')"
| "parent_identity_of NativeExt4 _ = refuse_contract ''native parent inode and birth identity required''"
| "parent_identity_of Fat32Session (JStr t) =
     (if hex_text 32 t then Inr (SessionToken t)
      else refuse_contract ''retained-session parent token required; persistent FAT32 identity is unsupported'')"
| "parent_identity_of Fat32Session _ =
     refuse_contract ''retained-session parent token required; persistent FAT32 identity is unsupported''"

text \<open>\<open>FolderTarget.__post_init__\<close>, in the order of its checks.\<close>

definition make_target :: "json \<Rightarrow> json \<Rightarrow> json \<Rightarrow> json \<Rightarrow> json \<Rightarrow> refusal + folder_target" where
  "make_target profile scope parts ident child =
     (case folder_profile profile of Inl e \<Rightarrow> Inl e | Inr p \<Rightarrow>
      (case scope of
         JStr sc \<Rightarrow>
           (if \<not> text_value scope then refuse_contract ''unambiguous filesystem scope required''
            else (case parts of
               JArr vs \<Rightarrow>
                 (case try_map component vs of Inl e \<Rightarrow> Inl e | Inr ps \<Rightarrow>
                  (case component child of Inl e \<Rightarrow> Inl e | Inr c \<Rightarrow>
                   (case parent_identity_of p ident of Inl e \<Rightarrow> Inl e | Inr pid \<Rightarrow>
                     Inr \<lparr>ft_profile = p, ft_scope = sc, ft_parent = ps, ft_identity = pid, ft_child = c\<rparr>)))
             | _ \<Rightarrow> refuse_contract ''filesystem-relative parent components required''))
       | _ \<Rightarrow> refuse_contract ''unambiguous filesystem scope required''))"

definition target_parts :: "folder_target \<Rightarrow> str list" where
  "target_parts t = ft_parent t @ [ft_child t]"

definition TARGET_VERSION :: str where
  "TARGET_VERSION = ''modelark.slice.folder-target.v1''"

fun identity_json :: "parent_identity \<Rightarrow> json" where
  "identity_json (InodeBirth i b) = JArr [JInt i, JInt b]"
| "identity_json (SessionToken t) = JStr t"

definition target_json :: "folder_target \<Rightarrow> json" where
  "target_json t = JObj
     [(''child_name'', JStr (ft_child t)),
      (''filesystem_scope'', JStr (ft_scope t)),
      (''parent_identity'', identity_json (ft_identity t)),
      (''parent_parts'', JArr (map JStr (ft_parent t))),
      (''profile'', JStr (profile_value (ft_profile t))),
      (''version'', JStr TARGET_VERSION)]"

definition target_id :: "(str \<Rightarrow> str) \<Rightarrow> folder_target \<Rightarrow> str" where
  "target_id sha t = ''folder-target-v1:'' @ sha (encode (target_json t))"

text \<open>\<open>_fields\<close>: an object with exactly the given keys; its dictionary otherwise.\<close>

fun fields :: "json \<Rightarrow> str list \<Rightarrow> refusal + (str \<rightharpoonup> json)" where
  "fields (JObj ms) names =
     (if set (map fst ms) = set names then Inr (dict_get ms)
      else refuse_contract ''missing, extra or mixed-version fields'')"
| "fields _ names = refuse_contract ''missing, extra or mixed-version fields''"

definition target_from_record :: "json \<Rightarrow> refusal + folder_target" where
  "target_from_record v =
     (case fields v [''version'', ''profile'', ''filesystem_scope'', ''parent_parts'', ''parent_identity'', ''child_name''] of
        Inl e \<Rightarrow> Inl e
      | Inr d \<Rightarrow>
          (if d ''version'' \<noteq> Some (JStr TARGET_VERSION) then refuse_contract ''unsupported folder target version''
           else make_target (the (d ''profile'')) (the (d ''filesystem_scope'')) (the (d ''parent_parts''))
                  (the (d ''parent_identity'')) (the (d ''child_name''))))"

section \<open>Overlap\<close>

definition common_parts :: "'a list \<Rightarrow> 'a list \<Rightarrow> bool" where
  "common_parts xs ys = (let n = min (length xs) (length ys) in take n xs = take n ys)"

definition overlaps :: "folder_target \<Rightarrow> folder_target \<Rightarrow> refusal + bool" where
  "overlaps first second =
     (if ft_scope first \<noteq> ft_scope second then Inr False
      else if ft_profile first \<noteq> ft_profile second
      then refuse_contract ''inconsistent profiles for one filesystem scope''
      else if common_parts (target_parts first) (target_parts second) then Inr True
      else if ft_profile first = Fat32Session
      then refuse_contract ''FAT32 disjointness requires qualified driver name/alias semantics''
      else Inr False)"

section \<open>Capacity observations and reviews\<close>

record capacity_observation =
  co_available :: int
  co_inodes :: "int option"
  co_headroom :: int

definition make_capacity :: "int \<Rightarrow> int option \<Rightarrow> int \<Rightarrow> refusal + capacity_observation" where
  "make_capacity available inodes headroom =
     (if available < 0 \<or> headroom < 0 \<or> (case inodes of None \<Rightarrow> False | Some n \<Rightarrow> n < 0)
      then refuse_contract ''nonnegative integer capacity observations required''
      else Inr \<lparr>co_available = available, co_inodes = inodes, co_headroom = headroom\<rparr>)"

definition capacity_json :: "capacity_observation \<Rightarrow> json" where
  "capacity_json c = JObj
     [(''available_bytes'', JInt (co_available c)),
      (''free_inodes'', jopt JInt (co_inodes c)),
      (''headroom_bytes'', JInt (co_headroom c))]"

record folder_review =
  fr_target :: folder_target
  fr_closure :: str
  fr_capacity :: capacity_observation

definition REVIEW_VERSION :: str where
  "REVIEW_VERSION = ''modelark.slice.folder-review.v1''"

definition make_review :: "folder_target \<Rightarrow> str \<Rightarrow> capacity_observation \<Rightarrow> refusal + folder_review" where
  "make_review t seal c =
     (if \<not> hex_text 64 seal
      then refuse_contract ''folder target, domain closure seal and capacity observation required''
      else Inr \<lparr>fr_target = t, fr_closure = seal, fr_capacity = c\<rparr>)"

definition review_json :: "folder_review \<Rightarrow> json" where
  "review_json r = JObj
     [(''capacity'', capacity_json (fr_capacity r)),
      (''closure_seal'', JStr (fr_closure r)),
      (''target'', target_json (fr_target r)),
      (''version'', JStr REVIEW_VERSION)]"

definition review_seal :: "(str \<Rightarrow> str) \<Rightarrow> folder_review \<Rightarrow> str" where
  "review_seal sha r = json_hash sha (review_json r)"

section \<open>Lemmas\<close>

lemma list_all_id_map: "list_all id (map f xs) \<longleftrightarrow> (\<forall>x \<in> set xs. f x)"
  by (simp add: list_all_iff)

lemma identity_json_canonical [simp]: "canonical (identity_json p)"
  by (cases p) simp_all

lemma identity_json_inj: "identity_json p = identity_json q \<Longrightarrow> p = q"
  by (cases p; cases q) simp_all

lemma target_json_canonical [simp]: "canonical (target_json t)"
  by (simp add: target_json_def)

lemma profile_value_inj: "profile_value p = profile_value q \<Longrightarrow> p = q"
  by (cases p; cases q) (simp_all add: profile_value_def)

lemma target_json_inj: "target_json t = target_json u \<Longrightarrow> t = u"
  by (cases t; cases u) (auto simp: target_json_def inj_map_eq_map inj_def dest: identity_json_inj profile_value_inj)

lemma capacity_json_canonical [simp]: "canonical (capacity_json c)"
  by (simp add: capacity_json_def)

lemma review_json_canonical [simp]: "canonical (review_json r)"
  by (simp add: review_json_def)

lemma review_json_inj: "review_json r = review_json s \<Longrightarrow> r = s"
  by (cases r; cases s; cases "fr_capacity r"; cases "fr_capacity s")
    (auto simp: review_json_def capacity_json_def dest: target_json_inj)

lemma target_id_eq: "target_id sha t = target_id sha u \<Longrightarrow> t = u \<or> collision sha"
  using json_hash_eq [of sha "target_json t" "target_json u"]
  by (auto simp: target_id_def json_hash_def dest: target_json_inj)

text \<open>Two lists agree on their common length when one is a prefix of the other.\<close>

lemma common_parts_iff: "common_parts xs ys \<longleftrightarrow> (\<exists>zs. ys = xs @ zs) \<or> (\<exists>zs. xs = ys @ zs)"
proof
  assume c: "common_parts xs ys"
  show "(\<exists>zs. ys = xs @ zs) \<or> (\<exists>zs. xs = ys @ zs)"
  proof (cases "length xs \<le> length ys")
    case True
    with c have "xs = take (length xs) ys" by (simp add: common_parts_def Let_def min_def)
    then show ?thesis by (metis append_take_drop_id)
  next
    case False
    with c have "take (length ys) xs = ys" by (simp add: common_parts_def Let_def min_def)
    then show ?thesis by (metis append_take_drop_id)
  qed
next
  assume "(\<exists>zs. ys = xs @ zs) \<or> (\<exists>zs. xs = ys @ zs)"
  then show "common_parts xs ys" by (auto simp: common_parts_def Let_def min_def)
qed

lemma common_parts_sym: "common_parts xs ys = common_parts ys xs"
  by (auto simp: common_parts_iff)

lemma common_parts_self [simp]: "common_parts xs xs"
  by (simp add: common_parts_def)

text \<open>A path lies under a target when the components of the target are its first components.\<close>

definition under :: "'a list \<Rightarrow> 'a list \<Rightarrow> bool" where
  "under root path \<longleftrightarrow> take (length root) path = root"

lemma under_append [simp]: "under root (root @ p)"
  by (simp add: under_def)

lemma common_parts_under: "common_parts xs ys \<longleftrightarrow> (\<exists>p. under xs p \<and> under ys p)"
proof
  assume "common_parts xs ys"
  then consider zs where "ys = xs @ zs" | zs where "xs = ys @ zs" by (auto simp: common_parts_iff)
  then show "\<exists>p. under xs p \<and> under ys p"
  proof cases
    case 1
    then have "under xs ys \<and> under ys ys" by (simp add: under_def)
    then show ?thesis ..
  next
    case 2
    then have "under xs xs \<and> under ys xs" by (simp add: under_def)
    then show ?thesis ..
  qed
next
  assume "\<exists>p. under xs p \<and> under ys p"
  then obtain p where p: "take (length xs) p = xs" "take (length ys) p = ys" by (auto simp: under_def)
  let ?n = "min (length xs) (length ys)"
  have "take ?n (take (length xs) p) = take ?n (take (length ys) p)" by simp
  with p show "common_parts xs ys" by (simp add: common_parts_def Let_def)
qed

lemma overlaps_sym: "overlaps a b = overlaps b a"
proof (cases "ft_scope a = ft_scope b \<and> ft_profile a = ft_profile b")
  case True
  then show ?thesis
    by (simp add: overlaps_def common_parts_sym [of "target_parts a" "target_parts b"])
next
  case False
  then have "ft_scope b \<noteq> ft_scope a \<or> ft_profile b \<noteq> ft_profile a" by metis
  with False show ?thesis by (simp add: overlaps_def)
qed

lemma overlaps_cases:
  "overlaps a b = Inr v \<Longrightarrow>
   (ft_scope a \<noteq> ft_scope b \<and> \<not> v) \<or>
   (ft_scope a = ft_scope b \<and> ft_profile a = ft_profile b \<and>
    (v \<longleftrightarrow> common_parts (target_parts a) (target_parts b)) \<and> (v \<or> ft_profile a = NativeExt4))"
  by (cases "ft_profile a") (auto simp: overlaps_def refuse_contract_def split: if_splits)

section \<open>Records of targets\<close>

lemma refuse_contract_neq [simp]: "refuse_contract d \<noteq> Inr v" "Inr v \<noteq> refuse_contract d"
  by (simp_all add: refuse_contract_def)

lemma component_Inr: "component v = Inr s \<Longrightarrow> v = JStr s"
  by (auto simp: component_def split: json.splits if_splits)

lemma components_Inr: "try_map component vs = Inr ps \<Longrightarrow> vs = map JStr ps"
  by (induction vs arbitrary: ps) (auto split: sum.splits dest: component_Inr)

lemma folder_profile_Inr: "folder_profile v = Inr p \<Longrightarrow> v = JStr (profile_value p)"
  by (cases v) (auto split: if_splits)

lemma parent_identity_Inr: "parent_identity_of p v = Inr i \<Longrightarrow> v = identity_json i"
  by (induction p v rule: parent_identity_of.induct) (auto split: if_splits)

lemma make_target_Inr:
  assumes "make_target p sc ps i c = Inr t"
  shows "p = JStr (profile_value (ft_profile t)) \<and> sc = JStr (ft_scope t) \<and> ps = JArr (map JStr (ft_parent t))
    \<and> i = identity_json (ft_identity t) \<and> c = JStr (ft_child t)"
proof -
  from assms obtain pr s vs qs ch pid where "folder_profile p = Inr pr" "sc = JStr s" "ps = JArr vs"
    "try_map component vs = Inr qs" "component c = Inr ch" "parent_identity_of pr i = Inr pid"
    "t = \<lparr>ft_profile = pr, ft_scope = s, ft_parent = qs, ft_identity = pid, ft_child = ch\<rparr>"
    unfolding make_target_def by (auto split: sum.splits json.splits if_splits)
  then show ?thesis
    by (simp add: folder_profile_Inr components_Inr component_Inr parent_identity_Inr)
qed

lemma target_from_record_json:
  "target_from_record (target_json t) =
    make_target (JStr (profile_value (ft_profile t))) (JStr (ft_scope t)) (JArr (map JStr (ft_parent t)))
      (identity_json (ft_identity t)) (JStr (ft_child t))"
  by (simp add: target_from_record_def target_json_def dict_get_def insert_commute)

text \<open>A folder target that the constructor accepts is recovered from its own JSON record: the
  record written for a target passes every check of the reader and yields the same target.\<close>

theorem target_record_roundtrip:
  assumes "make_target p sc ps i c = Inr t"
  shows "target_from_record (target_json t) = Inr t"
  using assms make_target_Inr [OF assms] by (simp add: target_from_record_json)

theorem target_record_roundtrip_witness:
  "\<exists>t. ft_child t = ''models'' \<and> target_from_record (target_json t) = Inr t"
proof -
  have "make_target (JStr ''native-ext4-folder.v1'') (JStr ''ext4:1'') (JArr [JStr ''srv'', JStr ''out''])
      (JArr [JInt 12, JInt 7]) (JStr ''models'') =
    Inr \<lparr>ft_profile = NativeExt4, ft_scope = ''ext4:1'', ft_parent = [''srv'', ''out''],
      ft_identity = InodeBirth 12 7, ft_child = ''models''\<rparr>"
    by code_simp
  from target_record_roundtrip [OF this] show ?thesis by (intro exI conjI) simp_all
qed

text \<open>Two native targets conflict exactly when some path lies under both: the comparison of
  components finds every nesting and reports no other, and targets of different filesystem
  scopes never conflict.\<close>

theorem overlaps_exact:
  assumes "ft_profile a = NativeExt4" "ft_profile b = NativeExt4"
  shows "overlaps a b = Inr (ft_scope a = ft_scope b \<and>
    (\<exists>p. under (target_parts a) p \<and> under (target_parts b) p))"
  using assms by (simp add: overlaps_def common_parts_under)

end
