(* ===== verification/SliceDomain.thy ===== *)
theory SliceDomain
  imports FolderContract Digest
begin

text \<open>
  The domain of a usable slice: \<open>modelark/slice/domain.py\<close>. A catalog snapshot and a slice
  specification give a preview, the closure of artifacts that can be delivered from proven local
  copies together with the gaps that block it. A preview is sealed by the hash of its canonical
  JSON text; an approval quotes the seal. The hash \<open>sha\<close> is a parameter.
\<close>

section \<open>Values\<close>

definition join_path :: "str list \<Rightarrow> str" where
  "join_path cs = (case cs of [] \<Rightarrow> ''.'' | c # r \<Rightarrow> c @ concat (map (\<lambda>x. CHR ''/'' # x) r))"

text \<open>The components of a relative \<open>PurePosixPath\<close>: empty and \<open>.\<close> components vanish.\<close>

definition path_parts :: "str \<Rightarrow> str list" where
  "path_parts s = filter (\<lambda>c. c \<noteq> [] \<and> c \<noteq> ''.'') (py_split (CHR ''/'') s)"

text \<open>
  \<open>_path\<close>. A Windows drive is a colon in second place, as \<open>ntpath.splitroot\<close> reads it; the
  other forms of a drive begin with a separator and are absolute.
\<close>

definition path_ok :: "str \<Rightarrow> bool" where
  "path_ok s =
     (s \<noteq> [] \<and> char_of (92::nat) \<notin> set s \<and> nul \<notin> set s
      \<and> take 1 s \<noteq> ''/''
      \<and> take 1 (drop 1 s) \<noteq> '':''
      \<and> ''..'' \<notin> set (path_parts s)
      \<and> s \<noteq> ''.'' \<and> s = join_path (path_parts s))"

definition path_opt :: "str option \<Rightarrow> bool" where
  "path_opt v = (case v of None \<Rightarrow> False | Some s \<Rightarrow> path_ok s)"

definition is_hex_any :: "char \<Rightarrow> bool" where
  "is_hex_any c = is_hex (ascii_lower c)"

text \<open>\<open>_digest\<close>: 64 hexadecimal digits of either case.\<close>

definition digest_ok :: "str option \<Rightarrow> bool" where
  "digest_ok v = (case v of None \<Rightarrow> False | Some s \<Rightarrow> length s = 64 \<and> list_all is_hex_any s)"

text \<open>\<open>v is not None and not _digest(v)\<close>.\<close>

definition malformed_digest :: "str option \<Rightarrow> bool" where
  "malformed_digest v = (v \<noteq> None \<and> \<not> digest_ok v)"

text \<open>\<open>_integer\<close>.\<close>

definition integer_ok :: "int option \<Rightarrow> bool" where
  "integer_ok v = (case v of None \<Rightarrow> False | Some n \<Rightarrow> 0 \<le> n)"

text \<open>\<open>_ANNEX\<close>: the size field of a raw git-annex key that matches in full.\<close>

definition annex_size_tail :: "str \<Rightarrow> nat option" where
  "annex_size_tail s =
     (let ds = takeWhile is_digit s in
      if ds = [] then None else
      (case strip_prefix ''--'' (dropWhile is_digit s) of
         None \<Rightarrow> None
       | Some h \<Rightarrow>
           (let rest = drop 64 h in
            if hex64_text (take 64 h)
               \<and> (rest = [] \<or> take 1 rest = ''.'' \<and> \<not> list_ex (\<lambda>c. c = CHR ''/'' \<or> c = char_of (92::nat) \<or> c = nul) rest)
            then Some (dec_value ds 0) else None)))"

definition annex_size :: "str option \<Rightarrow> nat option" where
  "annex_size key =
     (case strip_prefix ''SHA256'' (case key of None \<Rightarrow> [] | Some k \<Rightarrow> k) of
        None \<Rightarrow> None
      | Some r \<Rightarrow>
          (case strip_prefix ''E-s'' r of
             Some t \<Rightarrow> annex_size_tail t
           | None \<Rightarrow> (case strip_prefix ''-s'' r of Some t \<Rightarrow> annex_size_tail t | None \<Rightarrow> None)))"

section \<open>Records\<close>

definition DOMAIN_VERSION :: str where
  "DOMAIN_VERSION = ''modelark.slice.domain.v1''"

definition CONSUMER_PROFILE :: str where
  "CONSUMER_PROFILE = ''hf-tree-v1''"

record slice_spec =
  sp_repos :: "str list"
  sp_destination :: str
  sp_root :: str
  sp_profile :: str

record file_fact =
  ff_repo :: str
  ff_name :: str
  ff_size :: "int option"
  ff_sha :: "str option"
  ff_format :: "str option"
  ff_quant :: "str option"

record copy_fact =
  cf_repo :: str
  cf_name :: str
  cf_drive :: str
  cf_relpath :: "str option"
  cf_orig_bytes :: "int option"
  cf_stored_bytes :: "int option"
  cf_orig_sha :: "str option"
  cf_provenance :: "str option"
  cf_annex_key :: "str option"
  cf_compressed :: py_flag
  cf_present :: "bool option"

record drive_fact =
  df_drive :: str
  df_fs_uuid :: "str option"
  df_annex_uuid :: "str option"
  df_serial :: "str option"
  df_epoch :: int
  df_generation :: int
  df_fingerprint :: "str option"
  df_capacity :: "int option"
  df_authority :: str
  df_lifecycle :: str
  df_eligibility :: str

record anchor_fact =
  an_drive :: str
  an_epoch :: int
  an_generation :: int
  an_fingerprint :: str
  an_capacity :: int
  an_authority :: str
  an_id :: str

record gap =
  gp_repo :: str
  gp_name :: "str option"
  gp_code :: str
  gp_drive :: "str option"
  gp_detail :: str

record catalog_snapshot =
  sn_catalog :: str
  sn_files :: "file_fact list"
  sn_copies :: "copy_fact list"
  sn_drives :: "drive_fact list"
  sn_anchors :: "anchor_fact list"
  sn_issues :: "gap list"
  sn_schema :: int

record source_evidence =
  ev_copy :: copy_fact
  ev_drive :: drive_fact
  ev_anchor :: anchor_fact
  ev_provenance :: str

record artifact =
  ar_repo :: str
  ar_name :: str
  ar_size :: int
  ar_sha :: str
  ar_format :: "str option"
  ar_quant :: "str option"
  ar_sources :: "source_evidence list"

record slice_preview =
  pv_spec :: slice_spec
  pv_snapshot :: str
  pv_closure :: "artifact list"
  pv_gaps :: "gap list"
  pv_seal :: str
  pv_version :: str

record slice_approval =
  ap_seal :: str
  ap_stage :: str
  ap_version :: str

text \<open>\<open>SliceSpec.__post_init__\<close> on an explicit sequence of repositories.\<close>

definition slice_refusal :: "str \<Rightarrow> str \<Rightarrow> refusal + 'a" where
  "slice_refusal code detail = Inl (Refusal code detail)"

definition make_spec :: "str list \<Rightarrow> str \<Rightarrow> str \<Rightarrow> str \<Rightarrow> refusal + slice_spec" where
  "make_spec repos destination root profile =
     (if repos = [] \<or> list_ex (\<lambda>r. \<not> path_ok r \<or> length (path_parts r) \<noteq> 2) repos
         \<or> py_strip destination = [] \<or> \<not> path_ok root
      then slice_refusal ''INVALID_SPEC'' ''explicit repositories and safe destination intent required''
      else if profile \<noteq> CONSUMER_PROFILE then slice_refusal ''UNSUPPORTED_PROFILE'' profile
      else Inr \<lparr>sp_repos = sorted_set repos, sp_destination = destination, sp_root = root, sp_profile = profile\<rparr>)"

section \<open>JSON records\<close>

text \<open>A flag that is neither a Boolean nor an integer is \<open>None\<close>.\<close>

fun flag_json :: "py_flag \<Rightarrow> json" where
  "flag_json (PyBool b) = JBool b"
| "flag_json (PyInt n) = JInt n"
| "flag_json PyOther = JNull"

definition file_json :: "file_fact \<Rightarrow> json" where
  "file_json f = JObj
     [(''format'', jopt JStr (ff_format f)), (''quant'', jopt JStr (ff_quant f)), (''repo_id'', JStr (ff_repo f)),
      (''rfilename'', JStr (ff_name f)), (''sha256'', jopt JStr (ff_sha f)), (''size_bytes'', jopt JInt (ff_size f))]"

definition copy_json :: "copy_fact \<Rightarrow> json" where
  "copy_json c = JObj
     [(''annex_key'', jopt JStr (cf_annex_key c)), (''compressed'', flag_json (cf_compressed c)),
      (''drive_label'', JStr (cf_drive c)), (''orig_bytes'', jopt JInt (cf_orig_bytes c)),
      (''orig_sha256'', jopt JStr (cf_orig_sha c)), (''present'', jopt JBool (cf_present c)),
      (''provenance'', jopt JStr (cf_provenance c)), (''repo_id'', JStr (cf_repo c)),
      (''rfilename'', JStr (cf_name c)), (''stored_bytes'', jopt JInt (cf_stored_bytes c)),
      (''stored_relpath'', jopt JStr (cf_relpath c))]"

text \<open>The record of a drive without its placement eligibility, as every seal uses it.\<close>

definition drive_json :: "drive_fact \<Rightarrow> json" where
  "drive_json d = JObj
     [(''annex_uuid'', jopt JStr (df_annex_uuid d)), (''drive_label'', JStr (df_drive d)),
      (''filesystem_capacity_bytes'', jopt JInt (df_capacity d)), (''fs_uuid'', jopt JStr (df_fs_uuid d)),
      (''identity_epoch'', JInt (df_epoch d)), (''identity_fingerprint'', jopt JStr (df_fingerprint d)),
      (''lifecycle'', JStr (df_lifecycle d)), (''serial'', jopt JStr (df_serial d)),
      (''write_authority'', JStr (df_authority d)), (''write_generation'', JInt (df_generation d))]"

definition anchor_json :: "anchor_fact \<Rightarrow> json" where
  "anchor_json a = JObj
     [(''anchor_id'', JStr (an_id a)), (''drive_label'', JStr (an_drive a)),
      (''filesystem_capacity_bytes'', JInt (an_capacity a)), (''generation'', JInt (an_generation a)),
      (''identity_epoch'', JInt (an_epoch a)), (''identity_fingerprint'', JStr (an_fingerprint a)),
      (''write_authority'', JStr (an_authority a))]"

definition gap_json :: "gap \<Rightarrow> json" where
  "gap_json g = JObj
     [(''code'', JStr (gp_code g)), (''detail'', JStr (gp_detail g)), (''drive_label'', jopt JStr (gp_drive g)),
      (''repo_id'', JStr (gp_repo g)), (''rfilename'', jopt JStr (gp_name g))]"

text \<open>The full record of a drive, by which snapshots sort their drives.\<close>

definition drive_key_json :: "drive_fact \<Rightarrow> json" where
  "drive_key_json d = JObj
     [(''annex_uuid'', jopt JStr (df_annex_uuid d)), (''drive_label'', JStr (df_drive d)),
      (''eligibility'', JStr (df_eligibility d)),
      (''filesystem_capacity_bytes'', jopt JInt (df_capacity d)), (''fs_uuid'', jopt JStr (df_fs_uuid d)),
      (''identity_epoch'', JInt (df_epoch d)), (''identity_fingerprint'', jopt JStr (df_fingerprint d)),
      (''lifecycle'', JStr (df_lifecycle d)), (''serial'', jopt JStr (df_serial d)),
      (''write_authority'', JStr (df_authority d)), (''write_generation'', JInt (df_generation d))]"

definition spec_json :: "slice_spec \<Rightarrow> json" where
  "spec_json s = JObj
     [(''consumer_profile'', JStr (sp_profile s)), (''destination_id'', JStr (sp_destination s)),
      (''destination_root'', JStr (sp_root s)), (''repo_ids'', JArr (map JStr (sp_repos s)))]"

definition evidence_json :: "source_evidence \<Rightarrow> json" where
  "evidence_json e = JObj
     [(''anchor'', anchor_json (ev_anchor e)), (''copy'', copy_json (ev_copy e)),
      (''digest_provenance'', JStr (ev_provenance e)), (''drive'', drive_json (ev_drive e))]"

definition artifact_json :: "artifact \<Rightarrow> json" where
  "artifact_json a = JObj
     [(''format'', jopt JStr (ar_format a)), (''quant'', jopt JStr (ar_quant a)), (''repo_id'', JStr (ar_repo a)),
      (''rfilename'', JStr (ar_name a)), (''sha256'', JStr (ar_sha a)), (''size_bytes'', JInt (ar_size a)),
      (''sources'', JArr (map evidence_json (ar_sources a)))]"

text \<open>\<open>canonical_bytes\<close>: the preview without its seal.\<close>

definition preview_json :: "slice_preview \<Rightarrow> json" where
  "preview_json p = JObj
     [(''closure'', JArr (map artifact_json (pv_closure p))), (''gaps'', JArr (map gap_json (pv_gaps p))),
      (''snapshot_id'', JStr (pv_snapshot p)), (''spec'', spec_json (pv_spec p)), (''version'', JStr (pv_version p))]"

definition snapshot_json :: "catalog_snapshot \<Rightarrow> json" where
  "snapshot_json s = JObj
     [(''anchors'', JArr (map anchor_json (sn_anchors s))), (''catalog_id'', JStr (sn_catalog s)),
      (''copies'', JArr (map copy_json (sn_copies s))), (''drives'', JArr (map drive_json (sn_drives s))),
      (''files'', JArr (map file_json (sn_files s))), (''issues'', JArr (map gap_json (sn_issues s))),
      (''schema_version'', JInt (sn_schema s))]"

text \<open>\<open>_source_snapshot_id\<close>.\<close>

definition source_snapshot_id :: "(str \<Rightarrow> str) \<Rightarrow> catalog_snapshot \<Rightarrow> str" where
  "source_snapshot_id sha s = json_hash sha (snapshot_json s)"

definition preview_seal :: "(str \<Rightarrow> str) \<Rightarrow> slice_preview \<Rightarrow> str" where
  "preview_seal sha p = json_hash sha (preview_json p)"

text \<open>\<open>CatalogSnapshot.__post_init__\<close> sorts every sequence by the canonical text of its records.\<close>

definition make_snapshot ::
  "str \<Rightarrow> file_fact list \<Rightarrow> copy_fact list \<Rightarrow> drive_fact list \<Rightarrow> anchor_fact list \<Rightarrow> gap list \<Rightarrow> int \<Rightarrow> catalog_snapshot" where
  "make_snapshot catalog files copies drives anchors issues schema =
     \<lparr>sn_catalog = catalog,
      sn_files = sort_key (\<lambda>x. encode (file_json x)) files,
      sn_copies = sort_key (\<lambda>x. encode (copy_json x)) copies,
      sn_drives = sort_key (\<lambda>x. encode (drive_key_json x)) drives,
      sn_anchors = sort_key (\<lambda>x. encode (anchor_json x)) anchors,
      sn_issues = sort_key (\<lambda>x. encode (gap_json x)) issues,
      sn_schema = schema\<rparr>"

definition preview_ready :: "slice_preview \<Rightarrow> bool" where
  "preview_ready p = (pv_closure p \<noteq> [] \<and> pv_gaps p = [])"

definition total_bytes :: "slice_preview \<Rightarrow> int" where
  "total_bytes p = sum_list (map ar_size (pv_closure p))"

definition required_drives :: "slice_preview \<Rightarrow> str list" where
  "required_drives p = sorted_set (map (\<lambda>a. df_drive (ev_drive (hd (ar_sources a)))) (pv_closure p))"

section \<open>One candidate source\<close>

text \<open>The checks on one drive before its identity is fingerprinted.\<close>

definition identity_named :: "drive_fact \<Rightarrow> bool" where
  "identity_named d = list_ex (\<lambda>v. case v of None \<Rightarrow> False | Some s \<Rightarrow> s \<noteq> [] \<and> py_strip s \<noteq> []) [df_fs_uuid d, df_annex_uuid d]"

definition clean_generation :: "drive_fact \<Rightarrow> bool" where
  "clean_generation d = (1 \<le> df_epoch d \<and> 0 < df_generation d \<and> integer_ok (df_capacity d) \<and> df_authority d = ''dedicated_local'')"

definition INDEPENDENT_PROVENANCE :: "str list" where
  "INDEPENDENT_PROVENANCE = [''ingestion_computed'', ''hub_confirmed'', ''archive-head-blob'', ''annex_key'']"

definition candidate_gap :: "file_fact \<Rightarrow> copy_fact \<Rightarrow> str \<Rightarrow> str \<Rightarrow> gap" where
  "candidate_gap file copy code detail =
     \<lparr>gp_repo = ff_repo file, gp_name = Some (ff_name file), gp_code = code, gp_drive = Some (cf_drive copy), gp_detail = detail\<rparr>"

definition anchor_binds :: "drive_fact \<Rightarrow> str \<Rightarrow> anchor_fact \<Rightarrow> bool" where
  "anchor_binds drive fingerprint anchor =
     (an_id anchor \<noteq> [] \<and> an_fingerprint anchor = fingerprint
      \<and> df_capacity drive = Some (an_capacity anchor) \<and> an_authority anchor = ''dedicated_local'')"

definition sizes_agree :: "file_fact \<Rightarrow> copy_fact \<Rightarrow> bool" where
  "sizes_agree file copy =
     (integer_ok (cf_orig_bytes copy) \<and> cf_orig_bytes copy = ff_size file \<and> integer_ok (cf_stored_bytes copy)
      \<and> (case annex_size (cf_annex_key copy) of None \<Rightarrow> True | Some n \<Rightarrow> cf_stored_bytes copy = Some (int n))
      \<and> (cf_compressed copy \<noteq> PyBool False \<or> cf_orig_bytes copy = cf_stored_bytes copy))"

fun spaced :: "str list \<Rightarrow> str" where
  "spaced [] = []"
| "spaced [x] = x"
| "spaced (x # y # ys) = x @ '' '' @ spaced (y # ys)"

text \<open>\<open>str(exc)\<close> of a digest evidence error.\<close>

definition digest_error_text :: "digest_error \<Rightarrow> str" where
  "digest_error_text e =
     (case e of
        Conflict sources \<Rightarrow> ''digest evidence conflict: '' @ spaced (map (\<lambda>(k, v). k @ ''='' @ v) sources)
      | Invalid m \<Rightarrow> m)"

text \<open>The established origin of the digest: a recorded one, or the raw annex key itself.\<close>

definition digest_proof :: "copy_fact \<Rightarrow> bool \<Rightarrow> str option" where
  "digest_proof copy compressed =
     (if cf_orig_sha copy \<noteq> None \<and> (case cf_provenance copy of None \<Rightarrow> False | Some p \<Rightarrow> p \<in> set INDEPENDENT_PROVENANCE)
      then cf_provenance copy
      else if \<not> compressed \<and> annex_size (cf_annex_key copy) \<noteq> None then Some ''annex_key''
      else None)"

text \<open>The last part of \<open>_source\<close>: the digest and its provenance. \<open>drive\<close> and \<open>anchor\<close> have passed.\<close>

definition source_digest ::
  "file_fact \<Rightarrow> copy_fact \<Rightarrow> drive_fact \<Rightarrow> anchor_fact \<Rightarrow> gap + (str \<times> source_evidence)" where
  "source_digest file copy drive anchor =
     (let fail = (\<lambda>code detail. Inl (candidate_gap file copy code detail)) in
      if \<not> sizes_agree file copy then fail ''SOURCE_SIZE_MISMATCH'' ''''
      else (case cf_compressed copy of
         PyBool compressed \<Rightarrow>
           if malformed_digest (cf_orig_sha copy)
           then fail ''SOURCE_PROVENANCE_UNPROVEN'' ''malformed original digest''
           else (case expected_sha256 (ff_sha file) (cf_orig_sha copy) (PyBool compressed) (cf_annex_key copy) of
              Inl e \<Rightarrow> fail ''SOURCE_DIGEST_CONFLICT'' (digest_error_text e)
            | Inr digest \<Rightarrow>
                (case digest_proof copy compressed of
                   None \<Rightarrow> fail ''SOURCE_PROVENANCE_UNPROVEN'' ''no independently established original-byte digest''
                 | Some p \<Rightarrow>
                     (if \<not> digest_ok digest then fail ''SOURCE_PROVENANCE_UNPROVEN'' ''original digest unknown''
                      else Inr (py_lower (the digest),
                             \<lparr>ev_copy = copy, ev_drive = drive, ev_anchor = anchor, ev_provenance = p\<rparr>))))
       | _ \<Rightarrow> fail ''SOURCE_PROVENANCE_UNPROVEN'' ''compression state unknown''))"

text \<open>
  \<open>_source\<close>: the digest and the evidence of one copy, or the one reason that refuses it. The
  outer error is the exception of \<open>identity_fingerprint_v1\<close>, which the identity check excludes.
  The anchors are indexed by drive, epoch and generation.
\<close>

definition source_of ::
  "(str \<Rightarrow> str) \<Rightarrow> file_fact \<Rightarrow> copy_fact \<Rightarrow> drive_fact option \<Rightarrow> (str \<times> int \<times> int \<Rightarrow> anchor_fact option)
    \<Rightarrow> identity_error + (gap + (str \<times> source_evidence))" where
  "source_of sha file copy drive anchors =
     (let fail = (\<lambda>code detail. Inr (Inl (candidate_gap file copy code detail))) in
      if cf_present copy = Some False then fail ''SOURCE_COPY_ABSENT'' ''''
      else (case drive of None \<Rightarrow> fail ''SOURCE_IDENTITY_UNPROVEN'' '''' | Some d \<Rightarrow>
        if \<not> identity_named d then fail ''SOURCE_IDENTITY_UNPROVEN'' ''''
        else if df_lifecycle d \<noteq> ''active'' then fail ''SOURCE_INACTIVE'' (df_lifecycle d)
        else if \<not> clean_generation d then fail ''SOURCE_RECONCILIATION_REQUIRED'' ''current clean generation required''
        else (case identity_fingerprint_v1 sha (df_fs_uuid d) (df_annex_uuid d) (df_serial d) (df_capacity d) of
           Inl e \<Rightarrow> Inl e
         | Inr fingerprint \<Rightarrow>
             (case anchors (df_drive d, df_epoch d, df_generation d) of
                None \<Rightarrow> fail ''SOURCE_RECONCILIATION_REQUIRED'' ''anchor does not bind current identity/generation''
              | Some anchor \<Rightarrow>
                  if df_fingerprint d \<noteq> Some fingerprint \<or> \<not> anchor_binds d fingerprint anchor
                  then fail ''SOURCE_RECONCILIATION_REQUIRED'' ''anchor does not bind current identity/generation''
                  else if \<not> path_opt (cf_relpath copy)
                  then fail ''SOURCE_PATH_UNSAFE'' (case cf_relpath copy of None \<Rightarrow> ''None'' | Some s \<Rightarrow> s)
                  else Inr (source_digest file copy d anchor)))))"

section \<open>The preview\<close>

datatype slice_error = SliceError refusal | FingerprintError identity_error

text \<open>\<open>_index\<close>: an evidence key may occur once. The refusal's detail leaves out the repeated key.\<close>

definition index_by :: "('a \<Rightarrow> 'k) \<Rightarrow> 'a list \<Rightarrow> refusal + ('k \<Rightarrow> 'a option)" where
  "index_by key items =
     (if distinct (map key items) then Inr (\<lambda>k. List.find (\<lambda>x. key x = k) items)
      else slice_refusal ''INVALID_SNAPSHOT'' ''duplicate evidence'')"

definition file_key :: "file_fact \<Rightarrow> str \<times> str" where
  "file_key f = (ff_repo f, ff_name f)"

definition copy_key :: "copy_fact \<Rightarrow> str \<times> str \<times> str" where
  "copy_key c = (cf_repo c, cf_name c, cf_drive c)"

definition anchor_key :: "anchor_fact \<Rightarrow> str \<times> int \<times> int" where
  "anchor_key a = (an_drive a, an_epoch a, an_generation a)"

definition scope :: "catalog_snapshot \<Rightarrow> slice_spec \<Rightarrow> catalog_snapshot" where
  "scope s spec =
     (let files = filter (\<lambda>f. ff_repo f \<in> set (sp_repos spec)) (sn_files s);
          keys = map file_key files;
          copies = filter (\<lambda>c. (cf_repo c, cf_name c) \<in> set keys) (sn_copies s);
          labels = map cf_drive copies;
          drives = filter (\<lambda>d. df_drive d \<in> set labels) (sn_drives s);
          current = map (\<lambda>d. (df_drive d, df_epoch d, df_generation d)) drives;
          anchors = filter (\<lambda>a. anchor_key a \<in> set current) (sn_anchors s) in
      make_snapshot (sn_catalog s) files copies drives anchors
        (filter (\<lambda>g. gp_repo g \<in> set (sp_repos spec)) (sn_issues s)) (sn_schema s))"

definition output_path :: "str \<Rightarrow> str \<Rightarrow> str" where
  "output_path repo name = repo @ CHR ''/'' # name"

text \<open>\<open>PurePosixPath(s).parents\<close> of a relative path, from the nearest to \<open>.\<close>.\<close>

definition parents :: "str \<Rightarrow> str list" where
  "parents s = (let ps = path_parts s in map (\<lambda>n. join_path (take n ps)) (rev [0..<length ps]))"

definition artifact_gap :: "file_fact \<Rightarrow> str \<Rightarrow> str \<Rightarrow> gap" where
  "artifact_gap file code detail =
     \<lparr>gp_repo = ff_repo file, gp_name = Some (ff_name file), gp_code = code, gp_drive = None, gp_detail = detail\<rparr>"

fun lefts :: "('a + 'b) list \<Rightarrow> 'a list" where
  "lefts [] = []"
| "lefts (Inl a # xs) = a # lefts xs"
| "lefts (Inr b # xs) = lefts xs"

fun rights :: "('a + 'b) list \<Rightarrow> 'b list" where
  "rights [] = []"
| "rights (Inl a # xs) = rights xs"
| "rights (Inr b # xs) = b # rights xs"

text \<open>One turn of the loop over the selected files: the gaps it adds, or its artifact.\<close>

definition file_outcome ::
  "(str \<Rightarrow> str) \<Rightarrow> str list \<Rightarrow> copy_fact list \<Rightarrow> (str \<Rightarrow> drive_fact option) \<Rightarrow> (str \<times> int \<times> int \<Rightarrow> anchor_fact option)
    \<Rightarrow> file_fact \<Rightarrow> identity_error + (gap list + artifact)" where
  "file_outcome sha outputs copies drives anchors file =
     (let gap = (\<lambda>code detail. Inr (Inl [artifact_gap file code detail])) in
      if \<not> path_ok (ff_name file) then gap ''ARTIFACT_PATH_UNSAFE'' (ff_name file)
      else if list_ex (\<lambda>p. p \<in> set outputs) (parents (output_path (ff_repo file) (ff_name file)))
      then gap ''OUTPUT_COLLISION'' (output_path (ff_repo file) (ff_name file))
      else if \<not> integer_ok (ff_size file) then gap ''ARTIFACT_SIZE_UNKNOWN'' ''''
      else if malformed_digest (ff_sha file) then gap ''ARTIFACT_DIGEST_INVALID'' ''''
      else (case try_map (\<lambda>c. source_of sha file c (drives (cf_drive c)) anchors)
                   (filter (\<lambda>c. (cf_repo c, cf_name c) = file_key file) copies) of
              Inl e \<Rightarrow> Inl e
            | Inr evidence \<Rightarrow>
                (let available = rights evidence; rejected = lefts evidence in
                 if available = [] then
                   Inr (Inl (if rejected = [] then [artifact_gap file ''ARCHIVE_MISSING'' ''''] else rejected))
                 else if length (remdups (map fst available)) \<noteq> 1 then
                   gap ''SOURCE_DIGEST_AMBIGUOUS'' ''qualifying archived originals disagree''
                 else Inr (Inr
                   \<lparr>ar_repo = ff_repo file, ar_name = ff_name file, ar_size = the (ff_size file),
                    ar_sha = fst (hd available), ar_format = ff_format file, ar_quant = ff_quant file,
                    ar_sources = sort_key (\<lambda>e. df_drive (ev_drive e)) (map snd available)\<rparr>))))"

definition repo_gap :: "str \<Rightarrow> gap" where
  "repo_gap repo = \<lparr>gp_repo = repo, gp_name = None, gp_code = ''MANIFEST_UNAVAILABLE'', gp_drive = None,
     gp_detail = ''repository has no archive manifest''\<rparr>"

definition missing_repos :: "slice_spec \<Rightarrow> file_fact list \<Rightarrow> gap list \<Rightarrow> str list" where
  "missing_repos spec selected gaps =
     filter (\<lambda>r. \<not> list_ex (\<lambda>f. ff_repo f = r) selected \<and> \<not> list_ex (\<lambda>g. gp_repo g = r) gaps) (sp_repos spec)"

definition seal_preview :: "(str \<Rightarrow> str) \<Rightarrow> slice_preview \<Rightarrow> slice_preview" where
  "seal_preview sha p = p\<lparr>pv_seal := preview_seal sha p\<rparr>"

definition preview :: "(str \<Rightarrow> str) \<Rightarrow> slice_spec \<Rightarrow> catalog_snapshot \<Rightarrow> slice_error + slice_preview" where
  "preview sha spec snapshot =
     (if sn_schema snapshot \<noteq> 7 \<or> sn_catalog snapshot = []
      then Inl (SliceError (Refusal ''INVALID_SNAPSHOT'' ''logical schema v7 and snapshot provenance required''))
      else
       (let s = scope snapshot spec in
        case index_by file_key (sn_files s) of Inl e \<Rightarrow> Inl (SliceError e) | Inr files \<Rightarrow>
        (case index_by copy_key (sn_copies s) of Inl e \<Rightarrow> Inl (SliceError e) | Inr _ \<Rightarrow>
        (case index_by df_drive (sn_drives s) of Inl e \<Rightarrow> Inl (SliceError e) | Inr drives \<Rightarrow>
        (case index_by anchor_key (sn_anchors s) of Inl e \<Rightarrow> Inl (SliceError e) | Inr anchors \<Rightarrow>
        (let issues = filter (\<lambda>g. gp_repo g \<in> set (sp_repos spec)) (sn_issues s);
             selected = filter (\<lambda>f. ff_repo f \<in> set (sp_repos spec)) (sn_files s);
             outputs = map (\<lambda>f. output_path (ff_repo f) (ff_name f)) (filter (\<lambda>f. path_ok (ff_name f)) selected) in
         case try_map (file_outcome sha outputs (sn_copies s) drives anchors) (sort_key file_key selected) of
           Inl e \<Rightarrow> Inl (FingerprintError e)
         | Inr outcomes \<Rightarrow>
             Inr (seal_preview sha
               \<lparr>pv_spec = spec, pv_snapshot = source_snapshot_id sha s, pv_closure = rights outcomes,
                pv_gaps = sort_key (\<lambda>g. encode (gap_json g))
                  (issues @ map repo_gap (missing_repos spec selected issues) @ concat (lefts outcomes)),
                pv_seal = '''', pv_version = DOMAIN_VERSION\<rparr>)))))))"

section \<open>Approval\<close>

definition verify_preview :: "(str \<Rightarrow> str) \<Rightarrow> slice_preview \<Rightarrow> refusal + unit" where
  "verify_preview sha p =
     (if pv_version p \<noteq> DOMAIN_VERSION \<or> pv_seal p \<noteq> preview_seal sha p
      then slice_refusal ''PREVIEW_TAMPERED'' '''' else Inr ())"

definition approve_preview ::
  "(str \<Rightarrow> str) \<Rightarrow> slice_preview \<Rightarrow> str \<Rightarrow> catalog_snapshot \<Rightarrow> slice_error + slice_approval" where
  "approve_preview sha proposal expected current =
     (case verify_preview sha proposal of Inl e \<Rightarrow> Inl (SliceError e) | Inr _ \<Rightarrow>
      if expected \<noteq> pv_seal proposal then Inl (SliceError (Refusal ''PREVIEW_STALE'' ''reviewed seal differs''))
      else if \<not> preview_ready proposal then Inl (SliceError (Refusal ''PREVIEW_BLOCKED'' ''''))
      else (case preview sha (pv_spec proposal) current of
         Inl e \<Rightarrow> Inl e
       | Inr fresh \<Rightarrow>
           if pv_seal fresh \<noteq> pv_seal proposal
           then Inl (SliceError (Refusal ''PREVIEW_STALE'' ''catalog evidence changed since preview''))
           else Inr \<lparr>ap_seal = pv_seal proposal, ap_stage = ''domain'', ap_version = DOMAIN_VERSION\<rparr>))"

definition validate_approval :: "(str \<Rightarrow> str) \<Rightarrow> slice_preview \<Rightarrow> slice_approval \<Rightarrow> refusal + unit" where
  "validate_approval sha proposal approval =
     (case verify_preview sha proposal of Inl e \<Rightarrow> Inl e | Inr _ \<Rightarrow>
      if ap_stage approval \<noteq> ''domain'' \<or> ap_version approval \<noteq> DOMAIN_VERSION
         \<or> ap_seal approval \<noteq> pv_seal proposal \<or> \<not> preview_ready proposal
      then slice_refusal ''APPROVAL_MISMATCH'' '''' else Inr ())"

end
