(* ===== verification/SlicePreview.thy ===== *)
theory SlicePreview
  imports SliceDomain
begin

text \<open>
  What a preview of \<open>modelark/slice/domain.py\<close> establishes: every source of every artifact is
  proven by the snapshot, a ready preview is complete, its outputs never collide, and an approval
  binds the evidence of the snapshot it was given against.
\<close>

lemma digest_proof_Some:
  assumes "digest_proof copy b = Some p"
  shows "cf_orig_sha copy \<noteq> None \<and> p \<in> set INDEPENDENT_PROVENANCE
    \<or> \<not> b \<and> annex_size (cf_annex_key copy) \<noteq> None"
proof (cases "cf_orig_sha copy \<noteq> None \<and> (case cf_provenance copy of None \<Rightarrow> False | Some p \<Rightarrow> p \<in> set INDEPENDENT_PROVENANCE)")
  case True
  with assms have "cf_provenance copy = Some p" unfolding digest_proof_def if_P [OF True] by blast
  with True show ?thesis by simp
next
  case False
  with assms have "(if \<not> b \<and> annex_size (cf_annex_key copy) \<noteq> None then Some ''annex_key'' else None) = Some p"
    unfolding digest_proof_def if_not_P [OF False] by blast
  then show ?thesis by (simp split: if_splits)
qed

lemma source_digest_Inr:
  assumes "source_digest file copy drive anchor = Inr (digest, e)"
  obtains b d p where "sizes_agree file copy" "cf_compressed copy = PyBool b"
    "expected_sha256 (ff_sha file) (cf_orig_sha copy) (PyBool b) (cf_annex_key copy) = Inr (Some d)"
    "digest_ok (Some d)" "digest = py_lower d"
    "e = \<lparr>ev_copy = copy, ev_drive = drive, ev_anchor = anchor, ev_provenance = p\<rparr>"
    "cf_orig_sha copy \<noteq> None \<and> p \<in> set INDEPENDENT_PROVENANCE
      \<or> \<not> b \<and> annex_size (cf_annex_key copy) \<noteq> None"
proof -
  have sz: "sizes_agree file copy"
    using assms by (rule contrapos_pp) (simp add: source_digest_def)
  obtain b where b: "cf_compressed copy = PyBool b"
    using assms sz by (cases "cf_compressed copy") (simp_all add: source_digest_def)
  have o: "\<not> malformed_digest (cf_orig_sha copy)"
    using assms by (rule contrapos_pn) (simp add: source_digest_def sz b)
  let ?x = "expected_sha256 (ff_sha file) (cf_orig_sha copy) (PyBool b) (cf_annex_key copy)"
  obtain dg where dg: "?x = Inr dg"
    using assms sz b o by (cases ?x) (simp_all add: source_digest_def)
  obtain p where p: "digest_proof copy b = Some p"
    using assms sz b o dg by (cases "digest_proof copy b") (simp_all add: source_digest_def)
  have ok: "digest_ok dg"
    using assms by (rule contrapos_pp) (simp add: source_digest_def sz b o dg p)
  then obtain d where d: "dg = Some d" by (cases dg) (simp_all add: digest_ok_def)
  have res: "digest = py_lower d" "e = \<lparr>ev_copy = copy, ev_drive = drive, ev_anchor = anchor, ev_provenance = p\<rparr>"
    using assms sz b o dg p ok d by (simp_all add: source_digest_def)
  have prov: "cf_orig_sha copy \<noteq> None \<and> p \<in> set INDEPENDENT_PROVENANCE
      \<or> \<not> b \<and> annex_size (cf_annex_key copy) \<noteq> None"
    by (rule digest_proof_Some [OF p])
  show thesis by (rule that [OF sz b _ _ res(1,2) prov]) (use dg ok d in simp_all)
qed

lemma source_of_Inr:
  assumes "source_of sha file copy drive anchors = Inr (Inr (digest, e))"
  obtains d fp a where "cf_present copy \<noteq> Some False" "drive = Some d" "identity_named d"
    "df_lifecycle d = ''active''" "clean_generation d"
    "identity_fingerprint_v1 sha (df_fs_uuid d) (df_annex_uuid d) (df_serial d) (df_capacity d) = Inr fp"
    "df_fingerprint d = Some fp" "anchors (df_drive d, df_epoch d, df_generation d) = Some a"
    "anchor_binds d fp a" "path_opt (cf_relpath copy)" "source_digest file copy d a = Inr (digest, e)"
proof -
  have pr: "cf_present copy \<noteq> Some False"
    using assms by (rule contrapos_pn) (simp add: source_of_def)
  obtain d where d: "drive = Some d"
    using assms pr by (cases drive) (simp_all add: source_of_def)
  have nm: "identity_named d"
    using assms by (rule contrapos_pp) (simp add: source_of_def d)
  have ac: "df_lifecycle d = ''active''"
    using assms by (rule contrapos_pp) (simp add: source_of_def d)
  have cg: "clean_generation d"
    using assms by (rule contrapos_pp) (simp add: source_of_def d)
  let ?f = "identity_fingerprint_v1 sha (df_fs_uuid d) (df_annex_uuid d) (df_serial d) (df_capacity d)"
  obtain fp where fp: "?f = Inr fp"
    using assms pr nm ac cg by (cases ?f) (simp_all add: source_of_def d)
  obtain a where a: "anchors (df_drive d, df_epoch d, df_generation d) = Some a"
    using assms pr nm ac cg fp
    by (cases "anchors (df_drive d, df_epoch d, df_generation d)") (simp_all add: source_of_def d)
  have bd: "df_fingerprint d = Some fp \<and> anchor_binds d fp a"
    using assms by (rule contrapos_pp) (simp add: source_of_def d pr nm ac cg fp a)
  have pt: "path_opt (cf_relpath copy)"
    using assms by (rule contrapos_pp) (simp add: source_of_def d pr nm ac cg fp a bd)
  have "source_digest file copy d a = Inr (digest, e)"
    using assms pr nm ac cg fp a bd pt by (simp add: source_of_def d)
  with that pr d nm ac cg fp a bd pt show thesis by blast
qed

lemma identity_named_fingerprint:
  "identity_named d \<Longrightarrow> \<exists>fp. identity_fingerprint_v1 sha (df_fs_uuid d) (df_annex_uuid d) s c = Inr fp"
  by (auto simp: identity_named_def identity_fingerprint_v1_def falsy_def split: option.splits)

lemma source_of_total: "\<exists>r. source_of sha file copy drive anchors = Inr r"
proof (cases drive)
  case (Some d)
  show ?thesis
  proof (cases "identity_named d")
    case True
    from identity_named_fingerprint [OF this] obtain fp where
      "identity_fingerprint_v1 sha (df_fs_uuid d) (df_annex_uuid d) (df_serial d) (df_capacity d) = Inr fp" by blast
    then show ?thesis using Some by (simp add: source_of_def Let_def split: option.splits)
  qed (simp add: source_of_def Let_def Some)
qed (simp add: source_of_def Let_def)

lemma set_lefts: "x \<in> set (lefts xs) \<longleftrightarrow> Inl x \<in> set xs"
  by (induction xs rule: lefts.induct) auto

lemma set_rights: "x \<in> set (rights xs) \<longleftrightarrow> Inr x \<in> set xs"
  by (induction xs rule: rights.induct) auto

lemma file_outcome_total: "\<exists>r. file_outcome sha outs copies drives anchors file = Inr r"
proof -
  obtain ys where "try_map (\<lambda>c. source_of sha file c (drives (cf_drive c)) anchors)
      (filter (\<lambda>c. (cf_repo c, cf_name c) = file_key file) copies) = Inr ys"
    using try_map_total [of _ "\<lambda>c. source_of sha file c (drives (cf_drive c)) anchors"] source_of_total by blast
  then show ?thesis by (simp add: file_outcome_def Let_def)
qed


lemma index_by_Inr: "index_by key xs = Inr f \<longleftrightarrow> distinct (map key xs) \<and> f = (\<lambda>k. List.find (\<lambda>x. key x = k) xs)"
  by (auto simp: index_by_def slice_refusal_def split: if_splits)

lemma scope_sets:
  "set (sn_files (scope s spec)) = {f \<in> set (sn_files s). ff_repo f \<in> set (sp_repos spec)}"
  "set (sn_copies (scope s spec)) \<subseteq> set (sn_copies s)"
  "set (sn_drives (scope s spec)) \<subseteq> set (sn_drives s)"
  "set (sn_anchors (scope s spec)) \<subseteq> set (sn_anchors s)"
  by (auto simp: scope_def Let_def make_snapshot_def)

text \<open>The files of a scoped snapshot in the order in which the loop visits them.\<close>

definition selected_files :: "catalog_snapshot \<Rightarrow> slice_spec \<Rightarrow> file_fact list" where
  "selected_files snapshot spec = sort_key file_key
     (filter (\<lambda>f. ff_repo f \<in> set (sp_repos spec)) (sn_files (scope snapshot spec)))"

lemma set_selected_files:
  "set (selected_files s spec) = {f \<in> set (sn_files s). ff_repo f \<in> set (sp_repos spec)}"
  by (auto simp: selected_files_def scope_sets)

definition selected_outputs :: "catalog_snapshot \<Rightarrow> slice_spec \<Rightarrow> str list" where
  "selected_outputs snapshot spec =
     map (\<lambda>f. output_path (ff_repo f) (ff_name f))
       (filter (\<lambda>f. path_ok (ff_name f)) (filter (\<lambda>f. ff_repo f \<in> set (sp_repos spec)) (sn_files (scope snapshot spec))))"

definition find_drive :: "catalog_snapshot \<Rightarrow> str \<Rightarrow> drive_fact option" where
  "find_drive s k = List.find (\<lambda>x. df_drive x = k) (sn_drives s)"

definition find_anchor :: "catalog_snapshot \<Rightarrow> str \<times> int \<times> int \<Rightarrow> anchor_fact option" where
  "find_anchor s k = List.find (\<lambda>x. anchor_key x = k) (sn_anchors s)"

definition outcome_at :: "(str \<Rightarrow> str) \<Rightarrow> catalog_snapshot \<Rightarrow> slice_spec \<Rightarrow> file_fact \<Rightarrow> identity_error + (gap list + artifact)" where
  "outcome_at sha snapshot spec = file_outcome sha (selected_outputs snapshot spec) (sn_copies (scope snapshot spec))
     (find_drive (scope snapshot spec)) (find_anchor (scope snapshot spec))"

text \<open>The value that \<open>preview\<close> returns once its snapshot has passed the index checks.\<close>

definition preview_of ::
  "(str \<Rightarrow> str) \<Rightarrow> slice_spec \<Rightarrow> catalog_snapshot \<Rightarrow> gap list \<Rightarrow> (gap list + artifact) list \<Rightarrow> slice_preview" where
  "preview_of sha spec s issues outcomes = seal_preview sha
     \<lparr>pv_spec = spec, pv_snapshot = source_snapshot_id sha s, pv_closure = rights outcomes,
      pv_gaps = sort_key (\<lambda>g. encode (gap_json g)) (issues
        @ map repo_gap (missing_repos spec (filter (\<lambda>f. ff_repo f \<in> set (sp_repos spec)) (sn_files s)) issues)
        @ concat (lefts outcomes)),
      pv_seal = '''', pv_version = DOMAIN_VERSION\<rparr>"

lemma preview_checks:
  assumes "preview sha spec snapshot = Inr p"
  shows "sn_schema snapshot = 7 \<and> sn_catalog snapshot \<noteq> []
    \<and> distinct (map file_key (sn_files (scope snapshot spec)))
    \<and> distinct (map copy_key (sn_copies (scope snapshot spec)))
    \<and> distinct (map df_drive (sn_drives (scope snapshot spec)))
    \<and> distinct (map anchor_key (sn_anchors (scope snapshot spec)))"
proof -
  let ?s = "scope snapshot spec"
  have ok: "\<not> (sn_schema snapshot \<noteq> 7 \<or> sn_catalog snapshot = [])"
    using assms by (rule contrapos_pn) (simp add: preview_def)
  have d: "distinct (map file_key (sn_files ?s))"
    using assms by (rule contrapos_pp) (use ok in \<open>simp add: preview_def Let_def index_by_def slice_refusal_def\<close>)
  have d2: "distinct (map copy_key (sn_copies ?s))"
    using assms by (rule contrapos_pp) (use ok d in \<open>simp add: preview_def Let_def index_by_def slice_refusal_def\<close>)
  have d3: "distinct (map df_drive (sn_drives ?s))"
    using assms by (rule contrapos_pp) (use ok d d2 in \<open>simp add: preview_def Let_def index_by_def slice_refusal_def\<close>)
  have d4: "distinct (map anchor_key (sn_anchors ?s))"
    using assms by (rule contrapos_pp) (use ok d d2 d3 in \<open>simp add: preview_def Let_def index_by_def slice_refusal_def\<close>)
  from ok d d2 d3 d4 show ?thesis by simp
qed

lemma preview_Inr:
  assumes "preview sha spec snapshot = Inr p"
  obtains outcomes where
    "try_map (outcome_at sha snapshot spec) (selected_files snapshot spec) = Inr outcomes"
    "p = preview_of sha spec (scope snapshot spec)
       (filter (\<lambda>g. gp_repo g \<in> set (sp_repos spec)) (sn_issues (scope snapshot spec))) outcomes"
proof -
  let ?s = "scope snapshot spec"
  let ?r = "try_map (outcome_at sha snapshot spec) (selected_files snapshot spec)"
  have fd: "(\<lambda>k. List.find (\<lambda>x. df_drive x = k) (sn_drives ?s)) = find_drive ?s"
    "(\<lambda>k. List.find (\<lambda>x. anchor_key x = k) (sn_anchors ?s)) = find_anchor ?s"
    by (simp_all add: find_drive_def find_anchor_def fun_eq_iff)
  have eq: "preview sha spec snapshot = (case ?r of Inl e \<Rightarrow> Inl (FingerprintError e) | Inr outcomes \<Rightarrow>
      Inr (preview_of sha spec ?s (filter (\<lambda>g. gp_repo g \<in> set (sp_repos spec)) (sn_issues ?s)) outcomes))"
    using preview_checks [OF assms]
    by (simp add: preview_def Let_def index_by_def fd preview_of_def outcome_at_def selected_outputs_def selected_files_def
        split: sum.split)
  obtain outs where outs: "?r = Inr outs" using assms unfolding eq by (cases ?r) simp_all
  show thesis by (rule that [OF outs]) (use assms in \<open>simp add: eq outs\<close>)
qed

lemma preview_of_fields [simp]:
  "pv_spec (preview_of sha spec s issues outs) = spec"
  "pv_closure (preview_of sha spec s issues outs) = rights outs"
  "pv_version (preview_of sha spec s issues outs) = DOMAIN_VERSION"
  "set (pv_gaps (preview_of sha spec s issues outs)) = set issues
     \<union> repo_gap ` set (missing_repos spec (filter (\<lambda>f. ff_repo f \<in> set (sp_repos spec)) (sn_files s)) issues)
     \<union> \<Union> (set ` set (lefts outs))"
  by (simp_all add: preview_of_def seal_preview_def Un_assoc)

lemma preview_of_sealed: "preview_seal sha (preview_of sha spec s issues outs) = pv_seal (preview_of sha spec s issues outs)"
  by (simp add: preview_of_def seal_preview_def preview_seal_def preview_json_def)

lemma file_outcome_artifact:
  assumes "file_outcome sha outs copies drives anchors file = Inr (Inr a)"
  obtains evidence where
    "try_map (\<lambda>c. source_of sha file c (drives (cf_drive c)) anchors)
       (filter (\<lambda>c. (cf_repo c, cf_name c) = file_key file) copies) = Inr evidence"
    "rights evidence \<noteq> []" "\<forall>x \<in> set (rights evidence). fst x = ar_sha a"
    "ar_repo a = ff_repo file" "ar_name a = ff_name file" "ff_size file = Some (ar_size a)" "0 \<le> ar_size a"
    "set (ar_sources a) = snd ` set (rights evidence)" "path_ok (ff_name file)"
    "\<forall>q \<in> set (parents (output_path (ff_repo file) (ff_name file))). q \<notin> set outs"
proof -
  let ?t = "try_map (\<lambda>c. source_of sha file c (drives (cf_drive c)) anchors)
       (filter (\<lambda>c. (cf_repo c, cf_name c) = file_key file) copies)"
  have 1: "path_ok (ff_name file)"
    using assms by (rule contrapos_pp) (simp add: file_outcome_def)
  have 2: "\<not> list_ex (\<lambda>p. p \<in> set outs) (parents (output_path (ff_repo file) (ff_name file)))"
    using assms by (rule contrapos_pn) (simp add: file_outcome_def 1)
  have 3: "integer_ok (ff_size file)"
    using assms by (rule contrapos_pp) (simp add: file_outcome_def 1 2)
  have 4: "\<not> malformed_digest (ff_sha file)"
    using assms by (rule contrapos_pn) (simp add: file_outcome_def 1 2 3)
  obtain ev where 5: "?t = Inr ev"
    using assms 1 2 3 4 by (cases ?t) (simp_all add: file_outcome_def)
  have 6: "rights ev \<noteq> []"
    using assms by (rule contrapos_pp) (simp add: file_outcome_def 1 2 3 4 5 Let_def)
  have 7: "length (remdups (map fst (rights ev))) = 1"
    using assms by (rule contrapos_pp) (simp add: file_outcome_def 1 2 3 4 5 6 Let_def)
  have a: "a = \<lparr>ar_repo = ff_repo file, ar_name = ff_name file, ar_size = the (ff_size file),
      ar_sha = fst (hd (rights ev)), ar_format = ff_format file, ar_quant = ff_quant file,
      ar_sources = sort_key (\<lambda>e. df_drive (ev_drive e)) (map snd (rights ev))\<rparr>"
    using assms by (simp add: file_outcome_def 1 2 3 4 5 6 7 Let_def)
  obtain z where z: "remdups (map fst (rights ev)) = [z]" using 7 by (auto simp: length_Suc_conv)
  then have "set (map fst (rights ev)) = {z}" by (metis set_remdups empty_set list.simps(15))
  then have all: "\<forall>x \<in> set (rights ev). fst x = z" by auto
  have hd: "fst (hd (rights ev)) = z" using all 6 by simp
  obtain n where n: "ff_size file = Some n" "0 \<le> n" using 3 by (auto simp: integer_ok_def split: option.splits)
  show thesis
    by (rule that [OF 5 6]) (use 1 2 n all hd in \<open>simp_all add: a list_ex_iff\<close>)
qed

section \<open>Every delivered artifact has proven sources\<close>

definition proven_source :: "(str \<Rightarrow> str) \<Rightarrow> catalog_snapshot \<Rightarrow> artifact \<Rightarrow> source_evidence \<Rightarrow> bool" where
  "proven_source sha s a e =
     (let c = ev_copy e; d = ev_drive e; k = ev_anchor e in
      c \<in> set (sn_copies s) \<and> d \<in> set (sn_drives s) \<and> k \<in> set (sn_anchors s)
      \<and> cf_repo c = ar_repo a \<and> cf_name c = ar_name a \<and> cf_drive c = df_drive d
      \<and> cf_present c \<noteq> Some False \<and> path_opt (cf_relpath c)
      \<and> df_lifecycle d = ''active'' \<and> clean_generation d
      \<and> anchor_key k = (df_drive d, df_epoch d, df_generation d)
      \<and> (case identity_fingerprint_v1 sha (df_fs_uuid d) (df_annex_uuid d) (df_serial d) (df_capacity d) of
           Inl _ \<Rightarrow> False | Inr fp \<Rightarrow> df_fingerprint d = Some fp \<and> anchor_binds d fp k)
      \<and> cf_orig_bytes c = Some (ar_size a)
      \<and> list_ex (\<lambda>f. file_key f = (ar_repo a, ar_name a) \<and>
           (case expected_sha256 (ff_sha f) (cf_orig_sha c) (cf_compressed c) (cf_annex_key c) of
              Inr (Some digest) \<Rightarrow> digest_ok (Some digest) \<and> py_lower digest = ar_sha a | _ \<Rightarrow> False)) (sn_files s)
      \<and> (cf_orig_sha c \<noteq> None \<and> ev_provenance e \<in> set INDEPENDENT_PROVENANCE
         \<or> cf_compressed c = PyBool False \<and> annex_size (cf_annex_key c) \<noteq> None))"

lemma source_of_proven:
  assumes src: "source_of sha f c (find_drive s' (cf_drive c)) (find_anchor s') = Inr (Inr (digest, e))"
    and sub: "set (sn_drives s') \<subseteq> set (sn_drives s)" "set (sn_anchors s') \<subseteq> set (sn_anchors s)"
    and c: "c \<in> set (sn_copies s)" "(cf_repo c, cf_name c) = file_key f" and f: "f \<in> set (sn_files s)"
    and a: "ar_repo a = ff_repo f" "ar_name a = ff_name f" "ff_size f = Some (ar_size a)" "digest = ar_sha a"
  shows "proven_source sha s a e"
proof (rule source_of_Inr [OF src])
  fix d fp k
  assume pr: "cf_present c \<noteq> Some False" and d: "find_drive s' (cf_drive c) = Some d"
    and st: "df_lifecycle d = ''active''" "clean_generation d"
    and fp: "identity_fingerprint_v1 sha (df_fs_uuid d) (df_annex_uuid d) (df_serial d) (df_capacity d) = Inr fp"
      "df_fingerprint d = Some fp"
    and k: "find_anchor s' (df_drive d, df_epoch d, df_generation d) = Some k" "anchor_binds d fp k"
    and pt: "path_opt (cf_relpath c)" and dg: "source_digest f c d k = Inr (digest, e)"
  have dd: "df_drive d = cf_drive c" "d \<in> set (sn_drives s)"
    using find_SomeD [OF d [unfolded find_drive_def]] sub(1) by auto
  have kk: "anchor_key k = (df_drive d, df_epoch d, df_generation d)" "k \<in> set (sn_anchors s)"
    using find_SomeD [OF k(1) [unfolded find_anchor_def]] sub(2) by auto
  show ?thesis
  proof (rule source_digest_Inr [OF dg])
    fix b dig p
    assume sz: "sizes_agree f c" and b: "cf_compressed c = PyBool b"
      and x: "expected_sha256 (ff_sha f) (cf_orig_sha c) (PyBool b) (cf_annex_key c) = Inr (Some dig)"
        "digest_ok (Some dig)" "digest = py_lower dig"
      and e: "e = \<lparr>ev_copy = c, ev_drive = d, ev_anchor = k, ev_provenance = p\<rparr>"
      and pv: "cf_orig_sha c \<noteq> None \<and> p \<in> set INDEPENDENT_PROVENANCE \<or> \<not> b \<and> annex_size (cf_annex_key c) \<noteq> None"
    have "list_ex (\<lambda>f. file_key f = (ar_repo a, ar_name a) \<and>
           (case expected_sha256 (ff_sha f) (cf_orig_sha c) (cf_compressed c) (cf_annex_key c) of
              Inr (Some digest) \<Rightarrow> digest_ok (Some digest) \<and> py_lower digest = ar_sha a | _ \<Rightarrow> False)) (sn_files s)"
      unfolding list_ex_iff by (rule bexI [OF _ f]) (use x a b in \<open>simp add: file_key_def\<close>)
    moreover have "cf_orig_bytes c = Some (ar_size a)" using sz a by (simp add: sizes_agree_def)
    moreover have "cf_repo c = ar_repo a" "cf_name c = ar_name a" using c(2) a by (simp_all add: file_key_def)
    ultimately show ?thesis
      using pr st fp k(2) pt dd kk c(1) pv b unfolding proven_source_def Let_def e by simp
  qed
qed

lemma closure_artifact:
  assumes "preview sha spec snapshot = Inr p" "a \<in> set (pv_closure p)"
  obtains f where "f \<in> set (sn_files snapshot)" "ff_repo f \<in> set (sp_repos spec)"
    "outcome_at sha snapshot spec f = Inr (Inr a)"
proof (rule preview_Inr [OF assms(1)])
  fix outs
  assume outs: "try_map (outcome_at sha snapshot spec) (selected_files snapshot spec) = Inr outs"
    and p: "p = preview_of sha spec (scope snapshot spec)
       (filter (\<lambda>g. gp_repo g \<in> set (sp_repos spec)) (sn_issues (scope snapshot spec))) outs"
  from assms(2) have "Inr a \<in> set outs" by (simp add: p set_rights)
  with try_map_mem [OF outs] obtain f where "f \<in> set (selected_files snapshot spec)"
    "outcome_at sha snapshot spec f = Inr (Inr a)" by blast
  with that [of f] show thesis by (simp add: set_selected_files)
qed

lemma outcome_proven:
  assumes out: "outcome_at sha snapshot spec f = Inr (Inr a)" and f: "f \<in> set (sn_files snapshot)"
  shows "ar_sources a \<noteq> [] \<and> (\<forall>e \<in> set (ar_sources a). proven_source sha snapshot a e)"
proof (rule file_outcome_artifact [OF out [unfolded outcome_at_def]])
  let ?s = "scope snapshot spec"
  fix ev
  assume ev: "try_map (\<lambda>c. source_of sha f c (find_drive ?s (cf_drive c)) (find_anchor ?s))
      (filter (\<lambda>c. (cf_repo c, cf_name c) = file_key f) (sn_copies ?s)) = Inr ev"
    and ne: "rights ev \<noteq> []" and same: "\<forall>x \<in> set (rights ev). fst x = ar_sha a"
    and a: "ar_repo a = ff_repo f" "ar_name a = ff_name f" "ff_size f = Some (ar_size a)"
    and src: "set (ar_sources a) = snd ` set (rights ev)"
  have "proven_source sha snapshot a e" if "e \<in> set (ar_sources a)" for e
  proof -
    from that src obtain dg where dg: "(dg, e) \<in> set (rights ev)" by auto
    then have "Inr (dg, e) \<in> set ev" by (simp add: set_rights)
    with try_map_mem [OF ev] obtain c where "c \<in> set (filter (\<lambda>c. (cf_repo c, cf_name c) = file_key f) (sn_copies ?s))"
      and src: "source_of sha f c (find_drive ?s (cf_drive c)) (find_anchor ?s) = Inr (Inr (dg, e))" by blast
    then have c: "c \<in> set (sn_copies ?s)" "(cf_repo c, cf_name c) = file_key f" by simp_all
    from c(1) scope_sets(2) [of snapshot spec] have cs: "c \<in> set (sn_copies snapshot)" by blast
    from same dg have "dg = ar_sha a" by auto
    with source_of_proven [OF src scope_sets(3,4) cs c(2) f a] show ?thesis by simp
  qed
  moreover from ne src have "ar_sources a \<noteq> []" by auto
  ultimately show ?thesis by blast
qed

text \<open>C17: Every artifact of a preview has at least one source, and each of its sources is a copy the
  snapshot records for that file on an active drive whose current identity and generation are bound
  by an anchor, with a safe path, the artifact's exact size, and original-byte evidence that
  resolves to the artifact's digest.\<close>

theorem preview_closure_proven:
  assumes "preview sha spec snapshot = Inr p"
  shows "list_all (\<lambda>a. ar_sources a \<noteq> [] \<and> list_all (proven_source sha snapshot a) (ar_sources a)) (pv_closure p)"
  unfolding list_all_iff
proof
  fix a
  assume "a \<in> set (pv_closure p)"
  from closure_artifact [OF assms this] obtain f where "f \<in> set (sn_files snapshot)"
    "outcome_at sha snapshot spec f = Inr (Inr a)" by blast
  with outcome_proven show "ar_sources a \<noteq> [] \<and> (\<forall>e\<in>set (ar_sources a). proven_source sha snapshot a e)" by blast
qed

section \<open>A ready preview covers its specification\<close>

lemma file_outcome_gaps: "file_outcome sha outs copies drives anchors file = Inr (Inl gs) \<Longrightarrow> gs \<noteq> []"
  by (auto simp: file_outcome_def Let_def split: if_splits sum.splits)

lemma rights_all:
  assumes "list_all2 R xs ys" "\<And>x y. R x y \<Longrightarrow> \<exists>b. y = Inr b \<and> f x = g b"
  shows "map g (rights ys) = map f xs"
  using assms(1)
proof (induction rule: list_all2_induct)
  case (Cons x xs y ys)
  from assms(2) [OF Cons(1)] obtain b where "y = Inr b" "f x = g b" by blast
  with Cons(3) show ?case by simp
qed simp

lemma try_map_all2: "try_map f xs = Inr ys \<Longrightarrow> list_all2 (\<lambda>x y. f x = Inr y) xs ys"
  by (induction xs arbitrary: ys) (auto split: sum.splits)

definition artifact_key :: "artifact \<Rightarrow> str \<times> str" where
  "artifact_key a = (ar_repo a, ar_name a)"

lemma list_all2_strengthen:
  "list_all2 P xs ys \<Longrightarrow> (\<And>x y. x \<in> set xs \<Longrightarrow> y \<in> set ys \<Longrightarrow> P x y \<Longrightarrow> Q x y) \<Longrightarrow> list_all2 Q xs ys"
  by (induction rule: list_all2_induct) auto

lemma ready_outcomes:
  assumes p: "p = preview_of sha spec s issues outs" and ready: "preview_ready p"
    and outs: "try_map (outcome_at sha snapshot spec) fs = Inr outs"
  shows "map artifact_key (pv_closure p) = map file_key fs"
proof -
  have none: "False" if "Inl gs \<in> set outs" for gs
  proof -
    from that have "gs \<in> set (lefts outs)" by (simp add: set_lefts)
    moreover from try_map_mem [OF outs] that obtain f where "outcome_at sha snapshot spec f = Inr (Inl gs)" by blast
    then have "gs \<noteq> []" unfolding outcome_at_def by (rule file_outcome_gaps)
    ultimately have "set (pv_gaps p) \<noteq> {}" by (auto simp: p)
    with ready show False by (simp add: preview_ready_def)
  qed
  have "list_all2 (\<lambda>f y. \<exists>a. y = Inr a \<and> file_key f = artifact_key a) fs outs"
  proof (rule list_all2_strengthen [OF try_map_all2 [OF outs]])
    fix f y
    assume y: "y \<in> set outs" "outcome_at sha snapshot spec f = Inr y"
    show "\<exists>a. y = Inr a \<and> file_key f = artifact_key a"
    proof (cases y)
      case (Inl gs)
      with y none show ?thesis by blast
    next
      case (Inr a)
      with y(2) have "file_outcome sha (selected_outputs snapshot spec) (sn_copies (scope snapshot spec))
          (find_drive (scope snapshot spec)) (find_anchor (scope snapshot spec)) f = Inr (Inr a)"
        by (simp add: outcome_at_def)
      then have "file_key f = artifact_key a"
        by (rule file_outcome_artifact) (simp add: file_key_def artifact_key_def)
      with Inr show ?thesis by blast
    qed
  qed
  then have "map artifact_key (rights outs) = map file_key fs"
    by (rule rights_all) blast
  then show ?thesis by (simp add: p)
qed

text \<open>C18: A preview that is ready for delivery has exactly one artifact for every file the snapshot
  records for the requested repositories, in the order of their names, and every requested
  repository contributes at least one: nothing asked for is left out silently.\<close>

theorem ready_preview_complete:
  assumes "preview sha spec snapshot = Inr p" "preview_ready p"
  shows "map artifact_key (pv_closure p) =
      sorted_set (map file_key (filter (\<lambda>f. ff_repo f \<in> set (sp_repos spec)) (sn_files snapshot)))
    \<and> list_all (\<lambda>r. list_ex (\<lambda>a. ar_repo a = r) (pv_closure p)) (sp_repos spec)"
proof (rule preview_Inr [OF assms(1)])
  fix outs
  let ?s = "scope snapshot spec"
  let ?issues = "filter (\<lambda>g. gp_repo g \<in> set (sp_repos spec)) (sn_issues ?s)"
  assume outs: "try_map (outcome_at sha snapshot spec) (selected_files snapshot spec) = Inr outs"
    and p: "p = preview_of sha spec ?s ?issues outs"
  from preview_checks [OF assms(1)] have files: "distinct (map file_key (sn_files ?s))" by blast
  have keys: "map artifact_key (pv_closure p) = map file_key (selected_files snapshot spec)"
    by (rule ready_outcomes [OF p assms(2) outs])
  have "sorted (map file_key (selected_files snapshot spec))"
    by (simp add: selected_files_def)
  moreover have "distinct (map file_key (selected_files snapshot spec))"
    using distinct_map_filter [OF files] by (simp add: selected_files_def distinct_map)
  ultimately have "map file_key (selected_files snapshot spec) =
      sorted_set (map file_key (filter (\<lambda>f. ff_repo f \<in> set (sp_repos spec)) (sn_files snapshot)))"
    by (intro sorted_distinct_set_unique) (simp_all add: set_selected_files)
  with keys have 1: "map artifact_key (pv_closure p) =
      sorted_set (map file_key (filter (\<lambda>f. ff_repo f \<in> set (sp_repos spec)) (sn_files snapshot)))" by simp
  have gaps: "pv_gaps p = []" using assms(2) by (simp add: preview_ready_def)
  have 2: "\<exists>a\<in>set (pv_closure p). ar_repo a = r" if r: "r \<in> set (sp_repos spec)" for r
  proof -
    have "r \<notin> set (missing_repos spec (filter (\<lambda>f. ff_repo f \<in> set (sp_repos spec)) (sn_files ?s)) ?issues)"
      "?issues = []"
      using gaps p by (auto simp flip: set_empty)
    then obtain f where "f \<in> set (sn_files ?s)" "ff_repo f = r"
      using r by (auto simp: missing_repos_def list_ex_iff)
    then have "f \<in> set (selected_files snapshot spec)" using r by (simp add: set_selected_files scope_sets)
    then have "file_key f \<in> set (map artifact_key (pv_closure p))" unfolding keys by simp
    then show ?thesis using \<open>ff_repo f = r\<close> by (auto simp: file_key_def artifact_key_def)
  qed
  from 1 2 show ?thesis by (simp add: list_all_iff list_ex_iff)
qed

section \<open>Output paths\<close>

lemma py_split_nonempty [simp]: "py_split c x \<noteq> []"
  by (cases x) (auto split: list.splits)

lemma py_split_append: "py_split c (x @ c # y) = py_split c x @ py_split c y"
proof (induction x)
  case (Cons a x)
  then show ?case by (cases "py_split c x") auto
qed simp

lemma path_parts_append: "path_parts (x @ CHR ''/'' # y) = path_parts x @ path_parts y"
  by (simp add: path_parts_def py_split_append)

lemma path_ok_parts: "path_ok s \<Longrightarrow> path_parts s \<noteq> [] \<and> s = join_path (path_parts s)"
  by (auto simp: path_ok_def join_path_def)

lemma join_path_append: "xs \<noteq> [] \<Longrightarrow> ys \<noteq> [] \<Longrightarrow> join_path (xs @ ys) = join_path xs @ CHR ''/'' # join_path ys"
  by (cases xs; cases ys) (simp_all add: join_path_def)

lemma output_path_parts:
  assumes "path_ok repo" "path_ok name"
  shows "path_parts (output_path repo name) = path_parts repo @ path_parts name"
    "output_path repo name = join_path (path_parts (output_path repo name))"
proof -
  show 1: "path_parts (output_path repo name) = path_parts repo @ path_parts name"
    by (simp add: output_path_def path_parts_append)
  show "output_path repo name = join_path (path_parts (output_path repo name))"
    using path_ok_parts [OF assms(1)] path_ok_parts [OF assms(2)]
    unfolding 1 by (simp add: join_path_append output_path_def)
qed

lemma make_spec_Inr:
  "make_spec repos dest root profile = Inr spec \<Longrightarrow>
    (\<forall>r \<in> set (sp_repos spec). path_ok r \<and> length (path_parts r) = 2) \<and> path_ok root \<and> sp_root spec = root
    \<and> sp_repos spec \<noteq> [] \<and> sp_destination spec = dest"
  by (auto simp: make_spec_def slice_refusal_def list_ex_iff split: if_splits)

definition artifact_path :: "artifact \<Rightarrow> str list" where
  "artifact_path a = path_parts (output_path (ar_repo a) (ar_name a))"

lemma proper_prefix_parent:
  assumes "path_ok repo" "path_ok name" "under ps (path_parts (output_path repo name))"
    "ps \<noteq> path_parts (output_path repo name)"
  shows "join_path ps \<in> set (parents (output_path repo name))"
proof -
  let ?qs = "path_parts (output_path repo name)"
  have take: "take (length ps) ?qs = ps" using assms(3) by (simp add: under_def)
  moreover have "length ps < length ?qs"
    using take assms(4) by (metis leI take_all)
  ultimately show ?thesis
    unfolding parents_def Let_def by (auto intro!: image_eqI [of _ _ "length ps"])
qed

text \<open>The output paths of a preview never collide: for a valid specification, the path of one
  artifact lies under the path of another only when the two are the same file, so that no file
  is asked to be a directory of another.\<close>

theorem preview_outputs_disjoint:
  assumes "make_spec repos dest root profile = Inr spec" "preview sha spec snapshot = Inr p"
  shows "list_all (\<lambda>a. list_all (\<lambda>b. under (artifact_path a) (artifact_path b) =
      (artifact_key a = artifact_key b)) (pv_closure p)) (pv_closure p)"
proof -
  note spec = make_spec_Inr [OF assms(1)]
  have facts: "path_ok (ar_repo a) \<and> length (path_parts (ar_repo a)) = 2 \<and> path_ok (ar_name a)
      \<and> output_path (ar_repo a) (ar_name a) \<in> set (selected_outputs snapshot spec)
      \<and> (\<forall>q \<in> set (parents (output_path (ar_repo a) (ar_name a))). q \<notin> set (selected_outputs snapshot spec))"
    if "a \<in> set (pv_closure p)" for a
  proof (rule closure_artifact [OF assms(2) that])
    fix f
    assume f: "f \<in> set (sn_files snapshot)" "ff_repo f \<in> set (sp_repos spec)" "outcome_at sha snapshot spec f = Inr (Inr a)"
    show ?thesis
    proof (rule file_outcome_artifact [OF f(3) [unfolded outcome_at_def]])
      assume a: "ar_repo a = ff_repo f" "ar_name a = ff_name f" "path_ok (ff_name f)"
        "\<forall>q \<in> set (parents (output_path (ff_repo f) (ff_name f))). q \<notin> set (selected_outputs snapshot spec)"
      have "output_path (ff_repo f) (ff_name f) \<in> set (selected_outputs snapshot spec)"
        using f(1,2) a(3) unfolding selected_outputs_def by (auto simp: scope_sets)
      with a f(2) spec show ?thesis by simp
    qed
  qed
  have "under (artifact_path a) (artifact_path b) = (artifact_key a = artifact_key b)"
    if a: "a \<in> set (pv_closure p)" and b: "b \<in> set (pv_closure p)" for a b
  proof
    assume u: "under (artifact_path a) (artifact_path b)"
    have oka: "path_ok (ar_repo a)" "path_ok (ar_name a)" "length (path_parts (ar_repo a)) = 2"
      using facts [OF a] by blast+
    have okb: "path_ok (ar_repo b)" "path_ok (ar_name b)" "length (path_parts (ar_repo b)) = 2"
      using facts [OF b] by blast+
    have out: "join_path (artifact_path a) = output_path (ar_repo a) (ar_name a)"
      using output_path_parts(2) [OF oka(1,2)] by (simp only: artifact_path_def)
    have eq: "artifact_path a = artifact_path b"
    proof (rule ccontr)
      assume "artifact_path a \<noteq> artifact_path b"
      with proper_prefix_parent [OF okb(1,2), of "artifact_path a"] u
      have "join_path (artifact_path a) \<in> set (parents (output_path (ar_repo b) (ar_name b)))"
        by (simp only: artifact_path_def not_False_eq_True simp_thms)
      with facts [OF b] facts [OF a] show False unfolding out by blast
    qed
    then have "path_parts (ar_repo a) @ path_parts (ar_name a) = path_parts (ar_repo b) @ path_parts (ar_name b)"
      using output_path_parts(1) [OF oka(1,2)] output_path_parts(1) [OF okb(1,2)] by (simp only: artifact_path_def)
    then have "path_parts (ar_repo a) = path_parts (ar_repo b) \<and> path_parts (ar_name a) = path_parts (ar_name b)"
      using oka(3) okb(3) by simp
    then have "join_path (path_parts (ar_repo a)) = join_path (path_parts (ar_repo b))"
      "join_path (path_parts (ar_name a)) = join_path (path_parts (ar_name b))" by simp_all
    then show "artifact_key a = artifact_key b"
      using path_ok_parts [OF oka(1)] path_ok_parts [OF oka(2)] path_ok_parts [OF okb(1)] path_ok_parts [OF okb(2)]
      by (simp add: artifact_key_def)
  next
    assume "artifact_key a = artifact_key b"
    then have "artifact_path a = artifact_path b" by (simp add: artifact_key_def artifact_path_def)
    then show "under (artifact_path a) (artifact_path b)" by (simp add: under_def)
  qed
  then show ?thesis by (simp add: list_all_iff)
qed

section \<open>Seals\<close>

lemma file_json_canonical [simp]: "canonical (file_json f)"
  by (simp add: file_json_def)

lemma flag_json_canonical [simp]: "canonical (flag_json b)"
  by (cases b) simp_all

lemma copy_json_canonical [simp]: "canonical (copy_json c)"
  by (simp add: copy_json_def)

lemma drive_json_canonical [simp]: "canonical (drive_json d)"
  by (simp add: drive_json_def)

lemma anchor_json_canonical [simp]: "canonical (anchor_json a)"
  by (simp add: anchor_json_def)

lemma gap_json_canonical [simp]: "canonical (gap_json g)"
  by (simp add: gap_json_def)

lemma spec_json_canonical [simp]: "canonical (spec_json s)"
  by (simp add: spec_json_def)

lemma evidence_json_canonical [simp]: "canonical (evidence_json e)"
  by (simp add: evidence_json_def)

lemma artifact_json_canonical [simp]: "canonical (artifact_json a)"
  by (simp add: artifact_json_def)

lemma preview_json_canonical [simp]: "canonical (preview_json p)"
  by (simp add: preview_json_def)

text \<open>Records that differ at most in placement eligibility.\<close>

definition forget_drive :: "drive_fact \<Rightarrow> drive_fact" where
  "forget_drive d = d\<lparr>df_eligibility := ''''\<rparr>"

definition forget_evidence :: "source_evidence \<Rightarrow> source_evidence" where
  "forget_evidence e = e\<lparr>ev_drive := forget_drive (ev_drive e)\<rparr>"

definition forget_artifact :: "artifact \<Rightarrow> artifact" where
  "forget_artifact a = a\<lparr>ar_sources := map forget_evidence (ar_sources a)\<rparr>"

lemma flag_json_eq [simp]: "flag_json a = flag_json b \<longleftrightarrow> a = b"
  by (cases a; cases b) simp_all

lemma copy_json_inj: "copy_json a = copy_json b \<Longrightarrow> a = b"
  by (cases a; cases b) (simp add: copy_json_def)

lemma drive_json_inj: "drive_json a = drive_json b \<Longrightarrow> forget_drive a = forget_drive b"
  by (cases a; cases b) (simp add: drive_json_def forget_drive_def)

lemma anchor_json_inj: "anchor_json a = anchor_json b \<Longrightarrow> a = b"
  by (cases a; cases b) (simp add: anchor_json_def)

lemma gap_json_inj: "gap_json a = gap_json b \<Longrightarrow> a = b"
  by (cases a; cases b) (simp add: gap_json_def)

lemma spec_json_inj: "spec_json a = spec_json b \<Longrightarrow> a = b"
  by (cases a; cases b) (simp add: spec_json_def inj_map_eq_map inj_def)

lemma evidence_json_inj: "evidence_json a = evidence_json b \<Longrightarrow> forget_evidence a = forget_evidence b"
  by (cases a; cases b)
    (auto simp: evidence_json_def forget_evidence_def dest: copy_json_inj drive_json_inj anchor_json_inj)

lemma map_json_inj:
  "map f xs = map f ys \<Longrightarrow> (\<And>x y. f x = f y \<Longrightarrow> g x = g y) \<Longrightarrow> map g xs = map g ys"
proof (induction xs arbitrary: ys)
  case (Cons x xs)
  from Cons.prems(1) obtain y zs where ys: "ys = y # zs" by (cases ys) simp_all
  with Cons.prems(1) have "f x = f y" and "map f xs = map f zs" by simp_all
  from Cons.prems(2) [OF this(1)] Cons.IH [OF this(2) Cons.prems(2)] ys show ?case by simp
qed simp

lemma artifact_json_inj:
  assumes "artifact_json a = artifact_json b"
  shows "forget_artifact a = forget_artifact b"
proof -
  from assms have "map evidence_json (ar_sources a) = map evidence_json (ar_sources b)"
    by (simp add: artifact_json_def)
  then have "map forget_evidence (ar_sources a) = map forget_evidence (ar_sources b)"
    by (rule map_json_inj) (rule evidence_json_inj)
  with assms show ?thesis
    by (cases a; cases b) (simp add: artifact_json_def forget_artifact_def)
qed

lemma preview_json_inj:
  assumes "preview_json p = preview_json q"
  shows "pv_spec p = pv_spec q \<and> pv_gaps p = pv_gaps q \<and> pv_snapshot p = pv_snapshot q
    \<and> map forget_artifact (pv_closure p) = map forget_artifact (pv_closure q)"
proof -
  from assms have c: "map artifact_json (pv_closure p) = map artifact_json (pv_closure q)"
    and g: "map gap_json (pv_gaps p) = map gap_json (pv_gaps q)"
    and r: "spec_json (pv_spec p) = spec_json (pv_spec q)" "pv_snapshot p = pv_snapshot q"
    by (simp_all add: preview_json_def)
  have "map forget_artifact (pv_closure p) = map forget_artifact (pv_closure q)"
    using c by (rule map_json_inj) (rule artifact_json_inj)
  moreover have "map (\<lambda>x. x) (pv_gaps p) = map (\<lambda>x. x) (pv_gaps q)"
    using g by (rule map_json_inj) (rule gap_json_inj)
  ultimately show ?thesis using r spec_json_inj by simp
qed

lemma verify_preview_Inr: "verify_preview sha p = Inr u \<longleftrightarrow> pv_version p = DOMAIN_VERSION \<and> pv_seal p = preview_seal sha p"
  by (auto simp: verify_preview_def slice_refusal_def)

lemma approve_preview_Inr:
  assumes "approve_preview sha proposal expected current = Inr ap"
  obtains fresh where "verify_preview sha proposal = Inr ()" "expected = pv_seal proposal" "preview_ready proposal"
    "preview sha (pv_spec proposal) current = Inr fresh" "pv_seal fresh = pv_seal proposal"
    "ap = \<lparr>ap_seal = pv_seal proposal, ap_stage = ''domain'', ap_version = DOMAIN_VERSION\<rparr>"
proof -
  have 1: "verify_preview sha proposal = Inr ()"
    using assms by (cases "verify_preview sha proposal") (simp_all add: approve_preview_def)
  have 2: "expected = pv_seal proposal"
    using assms by (rule contrapos_pp) (simp add: approve_preview_def 1)
  have 3: "preview_ready proposal"
    using assms by (rule contrapos_pp) (simp add: approve_preview_def 1 2)
  obtain fresh where 4: "preview sha (pv_spec proposal) current = Inr fresh"
    using assms 1 2 3 by (cases "preview sha (pv_spec proposal) current") (simp_all add: approve_preview_def)
  have 5: "pv_seal fresh = pv_seal proposal"
    using assms by (rule contrapos_pp) (simp add: approve_preview_def 1 2 3 4)
  show thesis by (rule that [OF 1 2 3 4 5]) (use assms in \<open>simp add: approve_preview_def 1 2 3 4 5\<close>)
qed

text \<open>C16: An approval binds the evidence of the moment it is given: when a reviewed preview is
  approved against the current snapshot, a preview computed from that snapshot has the same
  artifacts, sizes, digests and sources up to placement eligibility and no gaps, and the
  approval validates against the reviewed preview -- unless SHA-256 collides.\<close>

theorem approval_binds_evidence:
  assumes "approve_preview sha proposal expected current = Inr ap"
  shows "validate_approval sha proposal ap = Inr () \<and>
    (case preview sha (pv_spec proposal) current of
       Inl _ \<Rightarrow> False
     | Inr fresh \<Rightarrow> preview_ready fresh \<and>
         map forget_artifact (pv_closure fresh) = map forget_artifact (pv_closure proposal) \<or> collision sha)"
proof (rule approve_preview_Inr [OF assms])
  fix fresh
  assume v: "verify_preview sha proposal = Inr ()" and r: "preview_ready proposal"
    and f: "preview sha (pv_spec proposal) current = Inr fresh" "pv_seal fresh = pv_seal proposal"
    and ap: "ap = \<lparr>ap_seal = pv_seal proposal, ap_stage = ''domain'', ap_version = DOMAIN_VERSION\<rparr>"
  have "pv_seal fresh = preview_seal sha fresh"
    by (rule preview_Inr [OF f(1)]) (simp add: preview_of_sealed)
  with v f(2) have "json_hash sha (preview_json fresh) = json_hash sha (preview_json proposal)"
    by (simp add: verify_preview_Inr preview_seal_def)
  then have "preview_json fresh = preview_json proposal \<or> collision sha"
    by (rule json_hash_eq) simp_all
  then have "preview_ready fresh \<and> map forget_artifact (pv_closure fresh) = map forget_artifact (pv_closure proposal)
      \<or> collision sha"
    using preview_json_inj [of fresh proposal] r
    by (auto simp: preview_ready_def)
  moreover have "validate_approval sha proposal ap = Inr ()"
    using v r by (simp add: validate_approval_def ap)
  ultimately show ?thesis using f(1) by simp
qed

end
