(* ===== verification/FatLayout.thy ===== *)
theory FatLayout
  imports SlicePreview
begin

text \<open>
  Candidate layouts for FAT32: \<open>modelark/slice/fat32_layout.py\<close>, with the path and backing
  checks of \<open>modelark/slice/folder_plan.py\<close> that it uses. The whole proposed tree is checked
  without touching the destination; the loop over the paths keeps the spelling and the kind that
  each case-folded path has been given.
\<close>

definition absolute_ok :: "str \<Rightarrow> bool" where
  "absolute_ok s =
     (s \<noteq> [] \<and> nul \<notin> set s \<and> take 1 s = ''/'' \<and> take 2 s \<noteq> ''//''
      \<and> s = (if path_parts s = [] then ''/'' else CHR ''/'' # join_path (path_parts s))
      \<and> ''..'' \<notin> set (path_parts s))"

definition absolute :: "str \<Rightarrow> refusal + str" where
  "absolute s = (if absolute_ok s then Inr s
     else Inl (Refusal ''FOLDER_PLAN_INVALID'' ''canonical absolute path required''))"

definition backing :: "str list \<Rightarrow> refusal + str list" where
  "backing values =
     (if values = [] \<or> list_ex (\<lambda>v. v = [] \<or> v \<noteq> py_strip v \<or> nul \<in> set v) values
      then Inl (Refusal ''FOLDER_PLAN_INVALID'' ''backing identities required'')
      else if values \<noteq> sorted_set values
      then Inl (Refusal ''FOLDER_PLAN_INVALID'' ''backing identities must be sorted and unique'')
      else Inr values)"

section \<open>Names and sizes\<close>

definition MAX_FILE_BYTES :: int where
  "MAX_FILE_BYTES = 4294967295"

definition MAX_COMPONENT :: nat where
  "MAX_COMPONENT = 255"

definition MAX_PATH_BYTES :: nat where
  "MAX_PATH_BYTES = 4096"

definition ascii_upper :: "char \<Rightarrow> char" where
  "ascii_upper c = (let n = of_char c :: nat in if 97 \<le> n \<and> n \<le> 122 then char_of (n - 32) else c)"

definition fat_char :: "char \<Rightarrow> bool" where
  "fat_char c = (let n = of_char c :: nat in
     (65 \<le> n \<and> n \<le> 90) \<or> (97 \<le> n \<and> n \<le> 122) \<or> (48 \<le> n \<and> n \<le> 57)
     \<or> c = CHR ''_'' \<or> c = CHR ''.'' \<or> c = CHR '' '' \<or> c = CHR ''-'')"

definition DEVICES :: "str list" where
  "DEVICES = [''CON'', ''PRN'', ''AUX'', ''NUL'', ''CLOCK$''] @
     map (\<lambda>n. ''COM'' @ json_int n) [1..9] @ map (\<lambda>n. ''LPT'' @ json_int n) [1..9]"

definition TEMPORARY_NAME :: str where
  "TEMPORARY_NAME = ''.slice-'' @ replicate 32 (CHR ''0'')"

definition refuse_layout :: "str \<Rightarrow> refusal + 'a" where
  "refuse_layout detail = Inl (Refusal ''DESTINATION_LAYOUT_UNSUPPORTED'' detail)"

definition fat_name :: "bool \<Rightarrow> str \<Rightarrow> refusal + unit" where
  "fat_name generated value =
     (if value = [] \<or> \<not> list_all fat_char value \<or> value = ''.'' \<or> value = ''..'' \<or> value \<noteq> py_strip value
         \<or> last value = CHR ''.'' \<or> MAX_COMPONENT < length value
      then refuse_layout ''unsupported FAT32 component''
      else if map ascii_upper (hd (py_split (CHR ''.'') value)) \<in> set DEVICES
      then refuse_layout ''reserved DOS device name''
      else if strip_prefix ''.slice-'' (py_lower value) \<noteq> None \<and> \<not> generated
      then refuse_layout ''reserved temporary namespace''
      else Inr ())"

definition fat_size :: "int \<Rightarrow> refusal + unit" where
  "fat_size n = (if n < 0 \<or> MAX_FILE_BYTES < n
     then refuse_layout ''FAT32 requires each file, control and report to fit 32-bit size'' else Inr ())"

section \<open>The namespace loop\<close>

fun try_fold :: "('a \<Rightarrow> 's \<Rightarrow> 'e + 's) \<Rightarrow> 'a list \<Rightarrow> 's \<Rightarrow> 'e + 's" where
  "try_fold f [] s = Inr s"
| "try_fold f (x # xs) s = (case f x s of Inl e \<Rightarrow> Inl e | Inr t \<Rightarrow> try_fold f xs t)"

text \<open>The prefixes of a path with their last component and whether they are the file itself.\<close>

definition entries :: "str \<Rightarrow> (str \<times> str \<times> bool) list" where
  "entries path =
     (let ps = path_parts path in
      map (\<lambda>i. (ps ! i, join_path (take (Suc i) ps), Suc i = length ps)) [0..<length ps])"

type_synonym namespace = "str \<Rightarrow> (str \<times> bool) option"

definition claim_entry :: "str \<times> str \<times> bool \<Rightarrow> namespace \<Rightarrow> refusal + namespace" where
  "claim_entry e ns =
     (case e of (part, current, is_file) \<Rightarrow>
        (case fat_name False part of Inl r \<Rightarrow> Inl r | Inr _ \<Rightarrow>
         (case ns (py_lower current) of
            None \<Rightarrow> Inr (ns(py_lower current := Some (current, is_file)))
          | Some prior \<Rightarrow>
              if prior \<noteq> (current, is_file) \<or> is_file
              then refuse_layout ''duplicate, case-equivalent or file/directory collision''
              else Inr (ns(py_lower current := Some (current, is_file))))))"

definition rstrip_slash :: "str \<Rightarrow> str" where
  "rstrip_slash s = rev (dropWhile (\<lambda>c. c = CHR ''/'') (rev s))"

definition path_length_ok :: "str \<Rightarrow> str \<Rightarrow> refusal + unit" where
  "path_length_ok parent path =
     (if MAX_PATH_BYTES \<le> length path \<or> MAX_PATH_BYTES \<le> length (rstrip_slash parent @ CHR ''/'' # path)
      then refuse_layout ''FAT32 output or intermediate path exceeds qualified path bound'' else Inr ())"

text \<open>\<open>str(PurePosixPath(path).parent / name)\<close> for a path of at least two components.\<close>

definition sibling :: "str \<Rightarrow> str \<Rightarrow> str" where
  "sibling path name = join_path (butlast (path_parts path) @ [name])"

definition claim_path :: "str \<Rightarrow> str \<times> int \<Rightarrow> namespace \<Rightarrow> refusal + namespace" where
  "claim_path parent file ns =
     (case try_fold claim_entry (entries (fst file)) ns of Inl e \<Rightarrow> Inl e | Inr ns' \<Rightarrow>
      (case path_length_ok parent (fst file) of Inl e \<Rightarrow> Inl e | Inr _ \<Rightarrow>
       (case fat_name True TEMPORARY_NAME of Inl e \<Rightarrow> Inl e | Inr _ \<Rightarrow>
        (case path_length_ok parent (sibling (fst file) TEMPORARY_NAME) of Inl e \<Rightarrow> Inl e | Inr _ \<Rightarrow> Inr ns'))))"

definition check_record :: "str \<Rightarrow> str \<times> int \<Rightarrow> refusal + (str \<times> int)" where
  "check_record root r =
     (case try_map (fat_name False) (py_split (CHR ''/'') (fst r)) of Inl e \<Rightarrow> Inl e | Inr _ \<Rightarrow>
      (case fat_size (snd r) of Inl e \<Rightarrow> Inl e | Inr _ \<Rightarrow> Inr (root @ CHR ''/'' # fst r, snd r)))"

record fat_layout =
  fl_files :: "(str \<times> int) list"
  fl_directories :: "str list"
  fl_temporary :: "str list"

definition layout_directories :: "(str \<times> int) list \<Rightarrow> str list" where
  "layout_directories paths =
     sorted_set (concat (map (\<lambda>p. map (\<lambda>e. fst (snd e)) (filter (\<lambda>e. \<not> snd (snd e)) (entries (fst p)))) paths))"

definition admit_layout :: "(str \<times> int) list \<Rightarrow> str \<Rightarrow> str \<Rightarrow> int \<Rightarrow> int \<Rightarrow> refusal + fat_layout" where
  "admit_layout files root parent control receipt =
     (case fat_name False root of Inl e \<Rightarrow> Inl e | Inr _ \<Rightarrow>
      if \<not> absolute_ok parent
      then refuse_layout ''FOLDER_PLAN_INVALID: canonical absolute path required'' else
      (case fat_size control of Inl e \<Rightarrow> Inl e | Inr _ \<Rightarrow>
       (case fat_size receipt of Inl e \<Rightarrow> Inl e | Inr _ \<Rightarrow>
        if files = [] then refuse_layout ''nonempty payload layout required'' else
        (case try_map (check_record root) files of Inl e \<Rightarrow> Inl e | Inr payload \<Rightarrow>
         (let paths = payload @ [(root @ ''/.modelark-slice-owner'', control),
                                 (root @ ''/.modelark-slice-receipt.json'', receipt)] in
          case try_fold (claim_path parent) paths Map.empty of Inl e \<Rightarrow> Inl e | Inr _ \<Rightarrow>
            Inr \<lparr>fl_files = paths, fl_directories = layout_directories paths,
                 fl_temporary = map (\<lambda>p. sibling (fst p) TEMPORARY_NAME) paths\<rparr>)))))"

section \<open>No two paths meet when case is folded\<close>

definition entry_keys :: "str \<Rightarrow> str list" where
  "entry_keys path = map (\<lambda>e. py_lower (fst (snd e))) (entries path)"

text \<open>Two entries that meet when case is folded are one directory in one spelling.\<close>

definition agree :: "str \<times> str \<times> bool \<Rightarrow> str \<times> str \<times> bool \<Rightarrow> bool" where
  "agree d e = (py_lower (fst (snd d)) = py_lower (fst (snd e)) \<longrightarrow> snd d = snd e \<and> \<not> snd (snd e))"

text \<open>
  No file is, when case is folded, another file or a directory above it, and the directories above
  the two files that meet when case is folded are spelled alike.
\<close>

definition apart :: "str \<times> int \<Rightarrow> str \<times> int \<Rightarrow> bool" where
  "apart p q = (py_lower (fst p) \<notin> set (entry_keys (fst q)) \<and> py_lower (fst q) \<notin> set (entry_keys (fst p))
     \<and> list_all (\<lambda>d. list_all (agree d) (entries (fst q))) (entries (fst p)))"

text \<open>An entry is in the namespace; an entry may be added to it.\<close>

definition entered :: "namespace \<Rightarrow> str \<times> str \<times> bool \<Rightarrow> bool" where
  "entered ns e = (ns (py_lower (fst (snd e))) = Some (snd e))"

definition admissible :: "namespace \<Rightarrow> str \<times> str \<times> bool \<Rightarrow> bool" where
  "admissible ns e = (ns (py_lower (fst (snd e))) = None \<or>
     ns (py_lower (fst (snd e))) = Some (fst (snd e), False) \<and> \<not> snd (snd e))"

lemma claim_entry_Inr:
  assumes "claim_entry e ns = Inr ns'"
  shows "ns' = ns(py_lower (fst (snd e)) := Some (snd e)) \<and> admissible ns e"
  using assms
  by (cases e) (auto simp: claim_entry_def refuse_layout_def admissible_def split: sum.splits option.splits if_splits)

lemma entered_mono: "entered ns e \<Longrightarrow> ns \<subseteq>\<^sub>m ns' \<Longrightarrow> entered ns' e"
  by (auto simp: entered_def map_le_def dom_def)

lemma admissible_mono: "admissible ns' e \<Longrightarrow> ns \<subseteq>\<^sub>m ns' \<Longrightarrow> admissible ns e"
  by (auto simp: admissible_def map_le_def dom_def)

lemma claim_entry_le: "claim_entry e ns = Inr ns' \<Longrightarrow> ns \<subseteq>\<^sub>m ns' \<and> entered ns' e"
  using claim_entry_Inr [of e ns ns'] by (cases e) (auto simp: map_le_def admissible_def entered_def)

text \<open>What one path leaves in the namespace: old entries stay, and its own prefixes are added.\<close>

lemma claim_entries:
  assumes "try_fold claim_entry es ns = Inr ns'"
  shows "ns \<subseteq>\<^sub>m ns' \<and> (\<forall>e \<in> set es. entered ns' e \<and> admissible ns e)"
  using assms
proof (induction es arbitrary: ns)
  case (Cons e es)
  then obtain ns1 where s: "claim_entry e ns = Inr ns1" and r: "try_fold claim_entry es ns1 = Inr ns'"
    by (auto split: sum.splits)
  note 1 = claim_entry_le [OF s] and 2 = Cons.IH [OF r]
  from 1 2 have "ns \<subseteq>\<^sub>m ns'" by (blast intro: map_le_trans)
  moreover from 1 2 have "entered ns' e" by (blast intro: entered_mono)
  moreover have "admissible ns e" using claim_entry_Inr [OF s] ..
  moreover have "\<forall>e \<in> set es. entered ns' e \<and> admissible ns e" using 1 2 by (blast intro: admissible_mono)
  ultimately show ?case by simp
qed simp

text \<open>A relative path is below the bound, and so is the full path under the parent.\<close>

definition path_bounded :: "str \<Rightarrow> str \<Rightarrow> bool" where
  "path_bounded parent path =
     (length path < MAX_PATH_BYTES \<and> length (rstrip_slash parent @ CHR ''/'' # path) < MAX_PATH_BYTES)"

lemma claim_path_Inr:
  assumes "claim_path parent file ns = Inr ns'"
  shows "try_fold claim_entry (entries (fst file)) ns = Inr ns' \<and> path_bounded parent (fst file)
    \<and> path_bounded parent (sibling (fst file) TEMPORARY_NAME)"
  using assms
  by (auto simp: claim_path_def path_length_ok_def path_bounded_def refuse_layout_def split: sum.splits if_splits)

text \<open>A path ends in an entry for the file itself.\<close>

definition file_entry :: "str \<Rightarrow> str \<times> str \<times> bool" where
  "file_entry path = (last (path_parts path), path, True)"

definition proper_path :: "str \<Rightarrow> bool" where
  "proper_path path \<longleftrightarrow> path_parts path \<noteq> [] \<and> join_path (path_parts path) = path"

lemma file_entry_mem: "proper_path path \<Longrightarrow> file_entry path \<in> set (entries path)"
  by (auto simp: file_entry_def entries_def Let_def proper_path_def last_conv_nth
      intro!: image_eqI [of _ _ "length (path_parts path) - 1"])

lemma admissible_file:
  assumes "admissible ns (file_entry p)" "entered ns e"
  shows "py_lower (fst (snd e)) \<noteq> py_lower p"
  using assms by (auto simp: admissible_def entered_def file_entry_def)

lemma admissible_entry:
  assumes "admissible ns e" "entered ns (file_entry p)"
  shows "py_lower (fst (snd e)) \<noteq> py_lower p"
  using assms by (auto simp: admissible_def entered_def file_entry_def)

lemma entered_agree: "entered ns d \<Longrightarrow> admissible ns e \<Longrightarrow> agree d e"
  by (cases d; cases e) (auto simp: entered_def admissible_def agree_def)

lemma claim_paths:
  assumes "try_fold (claim_path parent) fs ns = Inr ns'" "\<forall>f \<in> set fs. proper_path (fst f)"
  shows "ns \<subseteq>\<^sub>m ns' \<and> (\<forall>f \<in> set fs. (\<forall>e \<in> set (entries (fst f)). admissible ns e)) \<and> sorted_wrt apart fs
    \<and> (\<forall>f \<in> set fs. path_bounded parent (fst f) \<and> path_bounded parent (sibling (fst f) TEMPORARY_NAME))"
  using assms
proof (induction fs arbitrary: ns)
  case (Cons f fs)
  then obtain ns1 where s: "claim_path parent f ns = Inr ns1" and r: "try_fold (claim_path parent) fs ns1 = Inr ns'"
    by (auto split: sum.splits)
  note 1 = claim_entries [OF conjunct1 [OF claim_path_Inr [OF s]]]
  have 2: "ns1 \<subseteq>\<^sub>m ns' \<and> (\<forall>f \<in> set fs. (\<forall>e \<in> set (entries (fst f)). admissible ns1 e)) \<and> sorted_wrt apart fs
    \<and> (\<forall>f \<in> set fs. path_bounded parent (fst f) \<and> path_bounded parent (sibling (fst f) TEMPORARY_NAME))"
    by (rule Cons.IH [OF r]) (use Cons.prems(2) in simp)
  have pf: "proper_path (fst f)" using Cons.prems(2) by simp
  have "apart f g" if g: "g \<in> set fs" for g
  proof -
    have pg: "proper_path (fst g)" using Cons.prems(2) g by simp
    have "\<forall>e \<in> set (entries (fst g)). py_lower (fst (snd e)) \<noteq> py_lower (fst f)"
      using 2 g 1 file_entry_mem [OF pf] admissible_entry by blast
    moreover have "\<forall>e \<in> set (entries (fst f)). py_lower (fst (snd e)) \<noteq> py_lower (fst g)"
      using 2 g 1 file_entry_mem [OF pg] admissible_file by blast
    moreover have "agree d e" if "d \<in> set (entries (fst f))" "e \<in> set (entries (fst g))" for d e
      using that 1 2 g entered_agree by blast
    ultimately show ?thesis unfolding apart_def entry_keys_def by (auto simp: list_all_iff)
  qed
  moreover have "\<forall>g \<in> set (f # fs). \<forall>e \<in> set (entries (fst g)). admissible ns e"
  proof
    fix g
    assume "g \<in> set (f # fs)"
    then consider "g = f" | "g \<in> set fs" by auto
    then show "\<forall>e \<in> set (entries (fst g)). admissible ns e"
      by cases (use 1 2 admissible_mono in blast)+
  qed
  moreover have "ns \<subseteq>\<^sub>m ns'" using 1 2 by (blast intro: map_le_trans)
  ultimately show ?case using 2 claim_path_Inr [OF s] by simp
qed simp

lemma fat_name_parts:
  assumes "fat_name g v = Inr u"
  shows "v \<noteq> [] \<and> v \<noteq> ''.'' \<and> CHR ''/'' \<notin> set v"
proof -
  from assms have v: "v \<noteq> []" "list_all fat_char v" "v \<noteq> ''.''"
    by (auto simp: fat_name_def refuse_layout_def split: if_splits)
  moreover have "\<not> fat_char (CHR ''/'')" by (simp add: fat_char_def)
  ultimately show ?thesis by (auto simp: list_all_iff)
qed

lemma py_split_join: "py_split c s = ws \<Longrightarrow> s = hd ws @ concat (map (\<lambda>w. c # w) (tl ws))"
proof (induction s arbitrary: ws)
  case (Cons a s)
  then show ?case
    by (cases "py_split c s") (auto split: list.splits)
qed simp

lemma join_split: "join_path (py_split (CHR ''/'') s) = s"
  using py_split_join [of "CHR ''/''" s "py_split (CHR ''/'') s"] py_split_nonempty [of "CHR ''/''" s]
  by (cases "py_split (CHR ''/'') s") (simp_all add: join_path_def)

lemma proper_of_split:
  assumes "\<forall>w \<in> set (py_split (CHR ''/'') s). w \<noteq> [] \<and> w \<noteq> ''.''"
  shows "proper_path s"
proof -
  have "path_parts s = py_split (CHR ''/'') s"
    unfolding path_parts_def by (rule filter_True) (use assms in blast)
  then show ?thesis using join_split [of s] py_split_nonempty [of "CHR ''/''" s] by (simp add: proper_path_def)
qed

lemma check_record_Inr:
  assumes "check_record root r = Inr f" "fat_name False root = Inr u"
  shows "proper_path (fst f) \<and> 0 \<le> snd f \<and> snd f \<le> MAX_FILE_BYTES \<and> f = (root @ CHR ''/'' # fst r, snd r)"
proof -
  from assms(1) obtain us where us: "try_map (fat_name False) (py_split (CHR ''/'') (fst r)) = Inr us"
    and n: "0 \<le> snd r" "snd r \<le> MAX_FILE_BYTES" and f: "f = (root @ CHR ''/'' # fst r, snd r)"
    by (auto simp: check_record_def fat_size_def refuse_layout_def split: sum.splits if_splits)
  have "\<forall>w \<in> set (py_split (CHR ''/'') (fst r)). w \<noteq> [] \<and> w \<noteq> ''.''"
    using try_map_total_inv [OF us] fat_name_parts by blast
  then have "\<forall>w \<in> set (py_split (CHR ''/'') (fst f)). w \<noteq> [] \<and> w \<noteq> ''.''"
    using fat_name_parts [OF assms(2)] by (simp add: f py_split_append py_split_single)
  then show ?thesis using proper_of_split n f by simp
qed

lemma admit_layout_Inr:
  assumes "admit_layout files root parent control receipt = Inr l"
  obtains payload ns where "fat_name False root = Inr ()" "0 \<le> control" "control \<le> MAX_FILE_BYTES"
    "0 \<le> receipt" "receipt \<le> MAX_FILE_BYTES" "files \<noteq> []" "try_map (check_record root) files = Inr payload"
    "fl_files l = payload @ [(root @ ''/.modelark-slice-owner'', control), (root @ ''/.modelark-slice-receipt.json'', receipt)]"
    "try_fold (claim_path parent) (fl_files l) Map.empty = Inr ns"
  using assms that
  by (auto simp: admit_layout_def fat_size_def refuse_layout_def Let_def split: sum.splits if_splits)

text \<open>C36: A layout that is admitted for FAT32 holds every input file under the root, then the ownership
  record and the receipt. No file of it shares its case-folded path with another file or with a
  directory above one, and directories above different files that meet when case is folded are
  spelled alike. Every file fits a 32-bit size, and every final and staging path is shorter than
  the path bound, both relative and as a full path under the parent.\<close>

theorem admitted_layout_apart:
  assumes "admit_layout files root parent control receipt = Inr l"
  shows "fl_files l = map (\<lambda>r. (root @ CHR ''/'' # fst r, snd r)) files
        @ [(root @ ''/.modelark-slice-owner'', control), (root @ ''/.modelark-slice-receipt.json'', receipt)]
    \<and> sorted_wrt apart (fl_files l)
    \<and> list_all (\<lambda>f. 0 \<le> snd f \<and> snd f \<le> MAX_FILE_BYTES \<and> path_bounded parent (fst f)
        \<and> path_bounded parent (sibling (fst f) TEMPORARY_NAME)) (fl_files l)"
proof (rule admit_layout_Inr [OF assms])
  fix payload ns
  assume root: "fat_name False root = Inr ()" and c: "0 \<le> control" "control \<le> MAX_FILE_BYTES"
    and r: "0 \<le> receipt" "receipt \<le> MAX_FILE_BYTES" and pay: "try_map (check_record root) files = Inr payload"
    and fl: "fl_files l = payload @ [(root @ ''/.modelark-slice-owner'', control), (root @ ''/.modelark-slice-receipt.json'', receipt)]"
    and loop: "try_fold (claim_path parent) (fl_files l) Map.empty = Inr ns"
  have p: "proper_path (fst f) \<and> 0 \<le> snd f \<and> snd f \<le> MAX_FILE_BYTES" if "f \<in> set payload" for f
    using that try_map_mem [OF pay] check_record_Inr [OF _ root] by blast
  have s: "proper_path (root @ CHR ''/'' # n)" if "CHR ''/'' \<notin> set n" "n \<noteq> []" "n \<noteq> ''.''" for n
    by (rule proper_of_split) (use fat_name_parts [OF root] that in \<open>simp add: py_split_append py_split_single\<close>)
  have "\<forall>f \<in> set (fl_files l). proper_path (fst f) \<and> 0 \<le> snd f \<and> snd f \<le> MAX_FILE_BYTES"
    using p c r s [of "''.modelark-slice-owner''"] s [of "''.modelark-slice-receipt.json''"] by (auto simp: fl)
  moreover have "payload = map (\<lambda>r. (root @ CHR ''/'' # fst r, snd r)) files"
  proof -
    have "list_all2 (\<lambda>r f. f = (root @ CHR ''/'' # fst r, snd r)) files payload"
      by (rule list_all2_mono [OF try_map_all2 [OF pay]]) (use check_record_Inr [OF _ root] in blast)
    then show ?thesis by (auto simp: list_all2_conv_all_nth intro: nth_equalityI)
  qed
  ultimately show ?thesis using claim_paths [OF loop] fl by (simp add: list_all_iff)
qed

end
