(* ===== verification/SlicePlan.thy ===== *)
theory SlicePlan
  imports FatLayout
begin

text \<open>
  Transfer plans: \<open>TransferPlan\<close> of \<open>modelark/slice/transaction.py\<close>, \<open>NativePlan\<close> of
  \<open>modelark/slice/folder_plan.py\<close> and \<open>Fat32Plan\<close> of \<open>modelark/slice/fat32_plan.py\<close>. A plan joins
  a sealed preview to a destination and charges the bytes of the artifacts and of the two records
  the transaction writes itself. A decode policy is kept as the JSON record it is sealed as. A
  Python \<open>ValueError\<close> that no handler turns into a refusal is a refusal with that code.
\<close>

section \<open>Complete records\<close>

text \<open>\<open>asdict\<close> of evidence, artifacts and previews, with the placement eligibility and the seal.\<close>

definition evidence_full :: "source_evidence \<Rightarrow> json" where
  "evidence_full e = JObj
     [(''anchor'', anchor_json (ev_anchor e)), (''copy'', copy_json (ev_copy e)),
      (''digest_provenance'', JStr (ev_provenance e)), (''drive'', drive_key_json (ev_drive e))]"

definition artifact_full :: "artifact \<Rightarrow> json" where
  "artifact_full a = JObj
     [(''format'', jopt JStr (ar_format a)), (''quant'', jopt JStr (ar_quant a)), (''repo_id'', JStr (ar_repo a)),
      (''rfilename'', JStr (ar_name a)), (''sha256'', JStr (ar_sha a)), (''size_bytes'', JInt (ar_size a)),
      (''sources'', JArr (map evidence_full (ar_sources a)))]"

definition preview_full :: "slice_preview \<Rightarrow> json" where
  "preview_full p = JObj
     [(''closure'', JArr (map artifact_full (pv_closure p))), (''gaps'', JArr (map gap_json (pv_gaps p))),
      (''seal'', JStr (pv_seal p)), (''snapshot_id'', JStr (pv_snapshot p)), (''spec'', spec_json (pv_spec p)),
      (''version'', JStr (pv_version p))]"

section \<open>Plans\<close>

record usb_binding =
  ub_device :: str
  ub_filesystem :: str
  ub_mount :: str
  ub_available :: int

record usb_plan =
  up_proposal :: slice_preview
  up_binding :: usb_binding
  up_version :: str
  up_reserve :: "int option"

record fat_intent =
  fi_scope :: str
  fi_parent :: "str list"
  fi_child :: str

datatype folder_root = NativeRoot folder_target | FatRoot fat_intent

record folder_plan =
  np_proposal :: slice_preview
  np_root :: folder_root
  np_admission :: str
  np_catalog :: str
  np_parent :: str
  np_backing :: "str list"
  np_capacity :: capacity_observation
  np_reserve :: int
  np_version :: str
  np_policy :: "json option"

datatype slice_plan = Usb usb_plan | Folder folder_plan

definition V1 :: str where "V1 = ''modelark.slice.transaction.v1''"
definition V2 :: str where "V2 = ''modelark.slice.transaction.v2''"
definition V3 :: str where "V3 = ''modelark.slice.transaction.v3''"

definition make_usb_binding :: "str \<Rightarrow> str \<Rightarrow> str \<Rightarrow> int \<Rightarrow> refusal + usb_binding" where
  "make_usb_binding device filesystem mount available =
     (if list_ex (\<lambda>v. py_strip v = []) [device, filesystem, mount] \<or> available < 0
      then Inl (Refusal ''DESTINATION_UNPROVEN'' '''')
      else Inr \<lparr>ub_device = device, ub_filesystem = filesystem, ub_mount = mount, ub_available = available\<rparr>)"

definition usb_binding_json :: "usb_binding \<Rightarrow> json" where
  "usb_binding_json b = JObj
     [(''available_bytes'', JInt (ub_available b)), (''device_id'', JStr (ub_device b)),
      (''filesystem_id'', JStr (ub_filesystem b)), (''mount_id'', JStr (ub_mount b))]"

definition usb_json :: "usb_plan \<Rightarrow> json" where
  "usb_json p = JObj
     ((''destination'', usb_binding_json (up_binding p))
      # (if up_version p = V3 then [(''metadata_reserve_bytes'', jopt JInt (up_reserve p))] else [])
      @ [(''proposal'', preview_full (up_proposal p)), (''version'', JStr (up_version p))])"

definition make_fat_intent :: "profile \<Rightarrow> str \<Rightarrow> str list \<Rightarrow> str \<Rightarrow> refusal + fat_intent" where
  "make_fat_intent profile filesystem parts child =
     (if profile \<noteq> Fat32Session \<or> \<not> text_value (JStr filesystem)
      then Inl (Refusal ''FAT32_PLAN_INVALID'' ''FAT32 path/backing intent required'')
      else (case try_map (fat_name False) (parts @ [child]) of
              Inl e \<Rightarrow> Inl e
            | Inr _ \<Rightarrow> Inr \<lparr>fi_scope = filesystem, fi_parent = parts, fi_child = child\<rparr>))"

definition fat_parts :: "fat_intent \<Rightarrow> str list" where
  "fat_parts t = fi_parent t @ [fi_child t]"

definition INTENT_VERSION :: str where
  "INTENT_VERSION = ''modelark.slice.fat32-intent.v1''"

definition fat_intent_json :: "bool \<Rightarrow> fat_intent \<Rightarrow> json" where
  "fat_intent_json tagged t = JObj
     ([(''child_name'', JStr (fi_child t)), (''filesystem_scope'', JStr (fi_scope t)),
       (''parent_parts'', JArr (map JStr (fi_parent t))), (''profile'', JStr (profile_value Fat32Session))]
      @ (if tagged then [(''version'', JStr INTENT_VERSION)] else []))"

definition fat_target_id :: "(str \<Rightarrow> str) \<Rightarrow> fat_intent \<Rightarrow> str" where
  "fat_target_id sha t = ''fat32-intent-v1:'' @ json_hash sha (fat_intent_json True t)"

text \<open>\<open>asdict(target)\<close> of a native target: its record without the version.\<close>

definition target_fields_json :: "folder_target \<Rightarrow> json" where
  "target_fields_json t = JObj
     [(''child_name'', JStr (ft_child t)), (''filesystem_scope'', JStr (ft_scope t)),
      (''parent_identity'', identity_json (ft_identity t)),
      (''parent_parts'', JArr (map JStr (ft_parent t))), (''profile'', JStr (profile_value (ft_profile t)))]"

fun root_json :: "folder_root \<Rightarrow> json" where
  "root_json (NativeRoot t) = target_fields_json t"
| "root_json (FatRoot t) = fat_intent_json False t"

fun root_id :: "(str \<Rightarrow> str) \<Rightarrow> folder_root \<Rightarrow> str" where
  "root_id sha (NativeRoot t) = target_id sha t"
| "root_id sha (FatRoot t) = fat_target_id sha t"

fun root_child :: "folder_root \<Rightarrow> str" where
  "root_child (NativeRoot t) = ft_child t"
| "root_child (FatRoot t) = fi_child t"

fun root_scope :: "folder_root \<Rightarrow> str" where
  "root_scope (NativeRoot t) = ft_scope t"
| "root_scope (FatRoot t) = fi_scope t"

text \<open>\<open>VERSION\<close> and \<open>POLICY_VERSION\<close> of the two modules, and the prefixes of their admissions.\<close>

fun folder_version :: "folder_root \<Rightarrow> bool \<Rightarrow> str" where
  "folder_version (NativeRoot t) policy =
     (if policy then ''modelark.slice.native-transaction.v2'' else ''modelark.slice.native-transaction.v1'')"
| "folder_version (FatRoot t) policy =
     (if policy then ''modelark.slice.fat32-transaction.v2'' else ''modelark.slice.fat32-transaction.v1'')"

fun admission_prefix :: "folder_root \<Rightarrow> bool \<Rightarrow> str" where
  "admission_prefix (NativeRoot t) policy = (if policy then ''native-folder-v2:'' else ''native-folder-v1:'')"
| "admission_prefix (FatRoot t) policy = (if policy then ''fat32-folder-v2:'' else ''fat32-folder-v1:'')"

fun tagged_root_json :: "folder_root \<Rightarrow> json" where
  "tagged_root_json (NativeRoot t) = target_json t"
| "tagged_root_json (FatRoot t) = fat_intent_json True t"

text \<open>\<open>binding_for\<close>: the admission that seals the stable path and backing policy.\<close>

definition binding_for ::
  "(str \<Rightarrow> str) \<Rightarrow> folder_root \<Rightarrow> str \<Rightarrow> str \<Rightarrow> str list \<Rightarrow> json option \<Rightarrow> refusal + str" where
  "binding_for sha root catalog parent ids policy =
     (case absolute catalog of Inl e \<Rightarrow> Inl e | Inr c \<Rightarrow>
      (case absolute parent of Inl e \<Rightarrow> Inl e | Inr p \<Rightarrow>
       (case backing ids of Inl e \<Rightarrow> Inl e | Inr b \<Rightarrow>
        Inr (admission_prefix root (policy \<noteq> None) @ json_hash sha (JObj
          ([(''backing_ids'', JArr (map JStr b)), (''catalog'', JStr c)]
           @ (case policy of None \<Rightarrow> [] | Some j \<Rightarrow> [(''decode_policy'', j)])
           @ [(''parent_path'', JStr p), (''target'', tagged_root_json root),
              (''version'', JStr (folder_version root (policy \<noteq> None)))]))))))"

definition folder_binding_json :: "folder_plan \<Rightarrow> json" where
  "folder_binding_json p = JObj [(''admission_id'', JStr (np_admission p)), (''target'', root_json (np_root p))]"

definition folder_json :: "folder_plan \<Rightarrow> json" where
  "folder_json p = JObj
     ([(''backing_ids'', JArr (map JStr (np_backing p))), (''capacity'', capacity_json (np_capacity p)),
       (''catalog'', JStr (np_catalog p))]
      @ (case np_policy p of None \<Rightarrow> [] | Some j \<Rightarrow> [(''decode_policy'', j)])
      @ [(''destination'', folder_binding_json p), (''metadata_reserve_bytes'', JInt (np_reserve p)),
         (''parent_path'', JStr (np_parent p)), (''proposal'', preview_full (np_proposal p)),
         (''version'', JStr (np_version p))])"

fun plan_json :: "slice_plan \<Rightarrow> json" where
  "plan_json (Usb p) = usb_json p"
| "plan_json (Folder p) = folder_json p"

definition plan_seal :: "(str \<Rightarrow> str) \<Rightarrow> slice_plan \<Rightarrow> str" where
  "plan_seal sha p = json_hash sha (plan_json p)"

fun plan_proposal :: "slice_plan \<Rightarrow> slice_preview" where
  "plan_proposal (Usb p) = up_proposal p"
| "plan_proposal (Folder p) = np_proposal p"

fun plan_version :: "slice_plan \<Rightarrow> str" where
  "plan_version (Usb p) = up_version p"
| "plan_version (Folder p) = np_version p"

fun is_folder :: "slice_plan \<Rightarrow> bool" where
  "is_folder (Usb p) = False"
| "is_folder (Folder p) = True"

fun session_only :: "slice_plan \<Rightarrow> bool" where
  "session_only (Usb p) = False"
| "session_only (Folder p) = (case np_root p of NativeRoot _ \<Rightarrow> False | FatRoot _ \<Rightarrow> True)"

fun device_id :: "(str \<Rightarrow> str) \<Rightarrow> slice_plan \<Rightarrow> str" where
  "device_id sha (Usb p) = ub_device (up_binding p)"
| "device_id sha (Folder p) = root_id sha (np_root p)"

fun destination_json :: "slice_plan \<Rightarrow> json" where
  "destination_json (Usb p) = usb_binding_json (up_binding p)"
| "destination_json (Folder p) = folder_binding_json p"

definition CONTROL_NAME :: str where
  "CONTROL_NAME = ''.modelark-slice-owner''"

fun control_path :: "slice_plan \<Rightarrow> str" where
  "control_path (Usb p) = CONTROL_NAME"
| "control_path (Folder p) = root_child (np_root p) @ CHR ''/'' # CONTROL_NAME"

section \<open>Receipts and charges\<close>

text \<open>\<open>str(PurePosixPath(root) / repo / name)\<close>.\<close>

definition artifact_target :: "slice_plan \<Rightarrow> artifact \<Rightarrow> str" where
  "artifact_target plan a =
     join_path (path_parts (sp_root (pv_spec (plan_proposal plan))) @ path_parts (ar_repo a) @ path_parts (ar_name a))"

definition file_receipt :: "slice_plan \<Rightarrow> artifact \<Rightarrow> json \<Rightarrow> json" where
  "file_receipt plan a source = JObj
     [(''path'', JStr (artifact_target plan a)), (''sha256'', JStr (ar_sha a)), (''size'', JInt (ar_size a)),
      (''source'', source)]"

definition verification_json :: "str \<Rightarrow> nat \<Rightarrow> json" where
  "verification_json layout n = JObj
     [(''content'', JStr ''sha256-original-bytes''), (''file_count'', JInt (int n)),
      (''layout'', JStr layout), (''result'', JStr ''verified'')]"

definition receipt_json :: "(str \<Rightarrow> str) \<Rightarrow> slice_plan \<Rightarrow> str \<Rightarrow> json list \<Rightarrow> json" where
  "receipt_json sha plan tx files =
     (case plan of
        Usb p \<Rightarrow>
          JObj ([(''destination'', destination_json plan), (''files'', JArr files)]
            @ (if up_version p = V1 then [] else [(''plan'', plan_json plan)])
            @ [(''seal'', JStr (plan_seal sha plan))]
            @ (if up_version p = V1 then [] else [(''status'', JStr ''complete''), (''topology'', JStr ''direct'')])
            @ [(''transaction'', JStr tx)]
            @ (if up_version p = V1 then [] else [(''verification'', verification_json ''authenticated'' (length files))])
            @ [(''version'', JStr (up_version p))])
      | Folder p \<Rightarrow>
          (case np_root p of
             NativeRoot t \<Rightarrow> JObj
               [(''capacity_evidence'', JStr ''advisory-shared-space-not-reserved''),
                (''destination'', destination_json plan), (''files'', JArr files), (''plan'', plan_json plan),
                (''profile'', JStr (profile_value (ft_profile t))), (''resume_policy'', JStr ''authenticated''),
                (''seal'', JStr (plan_seal sha plan)), (''status'', JStr ''complete''), (''topology'', JStr ''folder''),
                (''transaction'', JStr tx), (''verification'', verification_json ''authenticated'' (length files)),
                (''version'', JStr (np_version p))]
           | FatRoot t \<Rightarrow> JObj
               [(''capacity_evidence'', JStr ''advisory-shared-space-not-reserved''),
                (''destination'', destination_json plan), (''files'', JArr files),
                (''host_transaction_completion'', JStr ''not-claimed''), (''plan'', plan_json plan),
                (''profile'', JStr (profile_value Fat32Session)),
                (''receipt_persistence'', JStr ''not-self-certified''), (''resume_policy'', JStr ''new-root''),
                (''seal'', JStr (plan_seal sha plan)), (''status'', JStr ''export-verified''),
                (''topology'', JStr ''folder''), (''transaction'', JStr tx),
                (''verification'', verification_json ''live-session-authenticated'' (length files)),
                (''version'', JStr (np_version p))]))"

definition control_json :: "(str \<Rightarrow> str) \<Rightarrow> slice_plan \<Rightarrow> str \<Rightarrow> str \<Rightarrow> json" where
  "control_json sha plan tx store_root = JObj
     [(''destination'', destination_json plan), (''seal'', JStr (plan_seal sha plan)),
      (''store'', JStr store_root), (''transaction'', JStr tx)]"

definition width :: "json \<Rightarrow> nat" where
  "width v = length (encode v)"

text \<open>\<open>max(sources, key=...)\<close> keeps the first of the largest; it raises on an empty sequence.\<close>

fun longest :: "('a \<Rightarrow> nat) \<Rightarrow> 'a list \<Rightarrow> 'a option" where
  "longest f [] = None"
| "longest f (x # xs) = Some (fold (\<lambda>y m. if f m < f y then y else m) xs x)"

definition widest_file :: "slice_plan \<Rightarrow> artifact \<Rightarrow> refusal + json" where
  "widest_file plan a =
     (case longest (\<lambda>e. width (evidence_full e)) (ar_sources a) of
        None \<Rightarrow> Inl (Refusal ''ValueError'' ''max() arg is an empty sequence'')
      | Some e \<Rightarrow> Inr (file_receipt plan a (evidence_full e)))"

definition ZERO_TX :: str where
  "ZERO_TX = replicate 32 (CHR ''0'')"

text \<open>The sizes of the ownership record and of the receipt with the widest sealed sources.\<close>

definition metadata_sizes :: "(str \<Rightarrow> str) \<Rightarrow> slice_plan \<Rightarrow> str \<Rightarrow> refusal + (nat \<times> nat)" where
  "metadata_sizes sha plan store_root =
     (case try_map (widest_file plan) (pv_closure (plan_proposal plan)) of
        Inl e \<Rightarrow> Inl e
      | Inr files \<Rightarrow> Inr (width (control_json sha plan ZERO_TX store_root), width (receipt_json sha plan ZERO_TX files)))"

definition required_bytes :: "(str \<Rightarrow> str) \<Rightarrow> slice_plan \<Rightarrow> str \<Rightarrow> refusal + int" where
  "required_bytes sha plan store_root =
     (case metadata_sizes sha plan store_root of Inl e \<Rightarrow> Inl e | Inr (control, receipt) \<Rightarrow>
      (let minimum = int control + int receipt; total = total_bytes (plan_proposal plan) in
       case plan of
         Usb p \<Rightarrow>
           (let reserve = (case up_reserve p of None \<Rightarrow> minimum | Some r \<Rightarrow> r) in
            if reserve < minimum \<or> ub_available (up_binding p) < total + reserve
            then Inl (Refusal ''DESTINATION_CAPACITY_INSUFFICIENT'' ''artifact and transaction metadata charge'')
            else Inr (total + reserve))
       | Folder p \<Rightarrow>
           (case np_root p of
              NativeRoot _ \<Rightarrow>
                (if np_reserve p < minimum
                 then Inl (Refusal ''DESTINATION_CAPACITY_UNPROVEN'' ''native metadata reserve is too small'')
                 else Inr (total + np_reserve p + co_headroom (np_capacity p)))
            | FatRoot t \<Rightarrow>
                (case admit_layout (map (\<lambda>a. (output_path (ar_repo a) (ar_name a), ar_size a)) (pv_closure (np_proposal p)))
                        (fi_child t) (np_parent p) (int control) (int receipt) of
                   Inl e \<Rightarrow> Inl e
                 | Inr _ \<Rightarrow>
                     if np_reserve p < minimum
                     then Inl (Refusal ''DESTINATION_CAPACITY_UNPROVEN'' ''FAT32 metadata reserve is too small'')
                     else Inr (total + np_reserve p + co_headroom (np_capacity p))))))"

section \<open>Construction\<close>

text \<open>\<open>TransferPlan.__post_init__\<close>. Versions before the third drop the metadata reserve.\<close>

definition make_usb :: "(str \<Rightarrow> str) \<Rightarrow> slice_preview \<Rightarrow> usb_binding \<Rightarrow> str \<Rightarrow> int option \<Rightarrow> refusal + slice_plan" where
  "make_usb sha proposal binding version reserve =
     (case verify_preview sha proposal of Inl e \<Rightarrow> Inl e | Inr _ \<Rightarrow>
      if \<not> preview_ready proposal \<or> version \<notin> {V1, V2, V3} then Inl (Refusal ''PREVIEW_BLOCKED'' '''')
      else if sp_destination (pv_spec proposal) \<noteq> ub_device binding
      then Inl (Refusal ''DESTINATION_CHANGED'' ''binding differs from reviewed destination intent'')
      else if ub_available binding < total_bytes proposal
      then Inl (Refusal ''DESTINATION_CAPACITY_INSUFFICIENT'' '''')
      else if version = V3 \<and> \<not> integer_ok reserve
      then Inl (Refusal ''DESTINATION_CAPACITY_UNPROVEN'' ''explicit metadata reserve required'')
      else if take 1 (path_parts (sp_root (pv_spec proposal))) = [CONTROL_NAME]
      then Inl (Refusal ''OUTPUT_COLLISION'' ''reserved control path'')
      else
       (let plan = Usb \<lparr>up_proposal = proposal, up_binding = binding, up_version = version,
                        up_reserve = (if version = V3 then reserve else None)\<rparr> in
        if version = V3
        then (case required_bytes sha plan '''' of Inl e \<Rightarrow> Inl e | Inr _ \<Rightarrow> Inr plan)
        else Inr plan))"

fun folder_invalid :: "folder_root \<Rightarrow> str" where
  "folder_invalid (NativeRoot _) = ''FOLDER_PLAN_INVALID''"
| "folder_invalid (FatRoot _) = ''FAT32_PLAN_INVALID''"

text \<open>\<open>NativePlan.__post_init__\<close> and \<open>Fat32Plan.__post_init__\<close>.\<close>

definition make_folder :: "(str \<Rightarrow> str) \<Rightarrow> folder_plan \<Rightarrow> refusal + slice_plan" where
  "make_folder sha p =
     (if np_version p \<noteq> folder_version (np_root p) (np_policy p \<noteq> None) \<or> np_reserve p < 0
         \<or> (case np_root p of NativeRoot t \<Rightarrow> ft_profile t \<noteq> NativeExt4 | FatRoot _ \<Rightarrow> False)
      then Inl (Refusal (folder_invalid (np_root p)) ''typed plan required'')
      else
       (case verify_preview sha (np_proposal p) of Inl e \<Rightarrow> Inl e | Inr _ \<Rightarrow>
        if \<not> preview_ready (np_proposal p) then Inl (Refusal ''PREVIEW_BLOCKED'' '''') else
        (case backing (np_backing p) of Inl e \<Rightarrow> Inl e | Inr _ \<Rightarrow>
         (case binding_for sha (np_root p) (np_catalog p) (np_parent p) (np_backing p) (np_policy p) of Inl e \<Rightarrow> Inl e
          | Inr expected \<Rightarrow>
              if np_admission p \<noteq> expected then Inl (Refusal ''ADMISSION_CORRUPT'' ''admission differs from binding'')
              else if sp_destination (pv_spec (np_proposal p)) \<noteq> root_id sha (np_root p)
                 \<or> sp_root (pv_spec (np_proposal p)) \<noteq> root_child (np_root p)
              then Inl (Refusal ''DESTINATION_CHANGED'' ''closure differs from reviewed folder intent'')
              else (case required_bytes sha (Folder p) '''' of Inl e \<Rightarrow> Inl e | Inr _ \<Rightarrow> Inr (Folder p))))))"

section \<open>Widths\<close>

lemma width_simps [simp]:
  "width JNull = 4" "width (JStr s) = length (json_string s)" "width (JInt i) = length (json_int i)"
  by (simp_all add: width_def)

lemma length_joined: "length (joined xs) = sum_list (map length xs) + (length xs - 1)"
  by (induction xs rule: joined.induct) simp_all

lemma width_array: "width (JArr xs) = sum_list (map width xs) + (length xs - 1) + 2"
  by (simp add: width_def [abs_def] length_joined comp_def)

lemma sum_list_all2_le:
  "list_all2 (\<lambda>x y. (f x :: nat) \<le> g y) xs ys \<Longrightarrow> sum_list (map f xs) \<le> sum_list (map g ys)"
  by (induction rule: list_all2_induct) simp_all

lemma width_array_mono: "list_all2 (\<lambda>x y. width x \<le> width y) xs ys \<Longrightarrow> width (JArr xs) \<le> width (JArr ys)"
  using sum_list_all2_le [of width width xs ys] list_all2_lengthD [of _ xs ys] by (simp add: width_array)

lemma width_object:
  "sorted_wrt (<) (map fst ms) \<Longrightarrow>
    width (JObj ms) = sum_list (map (\<lambda>m. length (json_key (fst m)) + width (snd m)) ms) + (length ms - 1) + 2"
  unfolding width_def [abs_def] encode_object by (simp add: object_text_def length_joined comp_def)

text \<open>Two objects with the same keys in order: the wider members make the wider object.\<close>

lemma width_object_mono:
  assumes "list_all2 (\<lambda>m n. fst m = fst n \<and> width (snd m) \<le> width (snd n)) ms ns" "sorted_wrt (<) (map fst ns)"
  shows "width (JObj ms) \<le> width (JObj ns)"
proof -
  have keys: "map fst ms = map fst ns"
    using assms(1) by (induction rule: list_all2_induct) simp_all
  have "sum_list (map (\<lambda>m. length (json_key (fst m)) + width (snd m)) ms)
      \<le> sum_list (map (\<lambda>m. length (json_key (fst m)) + width (snd m)) ns)"
    by (rule sum_list_all2_le) (use assms(1) in \<open>auto elim: list_all2_mono\<close>)
  moreover have "length ms = length ns" using assms(1) by (rule list_all2_lengthD)
  ultimately show ?thesis using assms(2) keys by (simp add: width_object)
qed

lemma longest_Some:
  assumes "longest f xs = Some m" "x \<in> set xs"
  shows "f x \<le> f m"
proof -
  have fold: "f x \<le> f (fold (\<lambda>y m. if f m < f y then y else m) ys a) " if "x = a \<or> x \<in> set ys" for ys a x
    using that
  proof (induction ys arbitrary: a x)
    case (Cons y ys)
    let ?b = "if f a < f y then y else a"
    from Cons.prems consider "x = a \<or> x = y" | "x \<in> set ys" by auto
    then show ?case
    proof cases
      case 1
      then have "f x \<le> f ?b" by auto
      also have "f ?b \<le> f (fold (\<lambda>y m. if f m < f y then y else m) ys ?b)" by (rule Cons.IH) simp
      finally show ?thesis by simp
    next
      case 2
      then show ?thesis using Cons.IH [of x ?b] by simp
    qed
  qed simp
  obtain a ys where "xs = a # ys" using assms(2) by (cases xs) auto
  with assms fold [of x a ys] show ?thesis by auto
qed

section \<open>The metadata charge\<close>

text \<open>The text of a transaction id has the width of the placeholder it was charged with.\<close>

lemma json_char_hex: "is_hex c \<Longrightarrow> json_char c = [c]"
  by (auto simp: is_hex_def json_char_def Let_def)

lemma json_string_hex: "list_all is_hex s \<Longrightarrow> length (json_string s) = length s + 2"
  by (induction s) (simp_all add: json_string_def json_char_hex)

lemma length_tx: "hex_text 32 tx \<Longrightarrow> length (json_string tx) = length (json_string ZERO_TX)"
proof -
  assume "hex_text 32 tx"
  moreover have "list_all is_hex ZERO_TX" by (simp add: ZERO_TX_def list_all_iff is_hex_def)
  ultimately show ?thesis
    using json_string_hex [of tx] json_string_hex [of ZERO_TX] by (simp add: hex_text_def ZERO_TX_def)
qed

lemma control_width: "hex_text 32 tx \<Longrightarrow> width (control_json sha plan tx store) = width (control_json sha plan ZERO_TX store)"
  by (simp add: control_json_def width_object length_tx)

lemma receipt_width_mono:
  assumes "hex_text 32 tx" "list_all2 (\<lambda>x y. width x \<le> width y) files files'"
  shows "width (receipt_json sha plan tx files) \<le> width (receipt_json sha plan ZERO_TX files')"
proof -
  note len = list_all2_lengthD [OF assms(2)]
  note w = width_array_mono [OF assms(2)] length_tx [OF assms(1)]
  show ?thesis
  proof (cases plan)
    case (Usb p)
    show ?thesis
      unfolding receipt_json_def Usb slice_plan.case
      by (rule width_object_mono) (simp_all add: w len)
  next
    case (Folder p)
    show ?thesis
    proof (cases "np_root p")
      case (NativeRoot t)
      show ?thesis
        unfolding receipt_json_def Folder slice_plan.case NativeRoot folder_root.case
        by (rule width_object_mono) (simp_all add: w len)
    next
      case (FatRoot t)
      show ?thesis
        unfolding receipt_json_def Folder slice_plan.case FatRoot folder_root.case
        by (rule width_object_mono) (simp_all add: w len)
    qed
  qed
qed

text \<open>The files of a receipt when each artifact was read from one of its sealed sources.\<close>

definition sealed_choice :: "slice_plan \<Rightarrow> source_evidence list \<Rightarrow> bool" where
  "sealed_choice plan es = list_all2 (\<lambda>a e. e \<in> set (ar_sources a)) (pv_closure (plan_proposal plan)) es"

definition receipt_files :: "slice_plan \<Rightarrow> source_evidence list \<Rightarrow> json list" where
  "receipt_files plan es = map2 (\<lambda>a e. file_receipt plan a (evidence_full e)) (pv_closure (plan_proposal plan)) es"

lemma widest_file_le:
  assumes "widest_file plan a = Inr f" "e \<in> set (ar_sources a)"
  shows "width (file_receipt plan a (evidence_full e)) \<le> width f"
proof -
  from assms(1) obtain m where m: "longest (\<lambda>e. width (evidence_full e)) (ar_sources a) = Some m"
    and f: "f = file_receipt plan a (evidence_full m)"
    by (auto simp: widest_file_def split: option.splits)
  have "width (evidence_full e) \<le> width (evidence_full m)" by (rule longest_Some [OF m assms(2)])
  then show ?thesis
    unfolding f file_receipt_def by (intro width_object_mono) simp_all
qed

lemma receipt_files_le:
  assumes "try_map (widest_file plan) as = Inr fs" "list_all2 (\<lambda>a e. e \<in> set (ar_sources a)) as es"
  shows "list_all2 (\<lambda>x y. width x \<le> width y) (map2 (\<lambda>a e. file_receipt plan a (evidence_full e)) as es) fs"
  using assms(2,1)
proof (induction as es arbitrary: fs rule: list_all2_induct)
  case (Cons a as e es)
  then obtain f gs where f: "widest_file plan a = Inr f" "try_map (widest_file plan) as = Inr gs" "fs = f # gs"
    by (auto split: sum.splits)
  with widest_file_le [OF f(1) Cons(1)] Cons(3) [OF f(2)] show ?case by simp
qed simp

lemma required_bytes_Inr:
  assumes "required_bytes sha plan store = Inr n"
  obtains control receipt reserve where "metadata_sizes sha plan store = Inr (control, receipt)"
    "int control + int receipt \<le> reserve"
    "case plan of Usb p \<Rightarrow> n = total_bytes (plan_proposal plan) + reserve \<and> n \<le> ub_available (up_binding p)
       | Folder p \<Rightarrow> n = total_bytes (plan_proposal plan) + reserve + co_headroom (np_capacity p)"
proof -
  obtain c r where m: "metadata_sizes sha plan store = Inr (c, r)"
    using assms by (cases "metadata_sizes sha plan store") (auto simp: required_bytes_def)
  show thesis
  proof (cases plan)
    case (Usb p)
    define reserve where "reserve = (case up_reserve p of None \<Rightarrow> int c + int r | Some v \<Rightarrow> v)"
    show thesis
      by (rule that [OF m, of reserve])
        (use assms m Usb in \<open>auto simp: required_bytes_def Let_def reserve_def split: if_splits\<close>)
  next
    case (Folder p)
    show thesis
      by (rule that [OF m, of "np_reserve p"])
        (use assms m Folder in \<open>auto simp: required_bytes_def Let_def split: if_splits folder_root.splits sum.splits\<close>)
  qed
qed

text \<open>C23: The bytes a plan charges cover what its transaction writes: for any transaction id and any
  choice of a sealed source for each artifact, the artifacts, the ownership record and the receipt
  together fit in the charge; for a USB plan the charge fits in the available bytes of the binding.\<close>

theorem charge_covers_records:
  assumes "required_bytes sha plan store = Inr n" "hex_text 32 tx" "sealed_choice plan es"
  shows "total_bytes (plan_proposal plan) + int (width (control_json sha plan tx store))
      + int (width (receipt_json sha plan tx (receipt_files plan es)))
      \<le> n - (case plan of Usb _ \<Rightarrow> 0 | Folder p \<Rightarrow> co_headroom (np_capacity p))
    \<and> (case plan of Usb p \<Rightarrow> n \<le> ub_available (up_binding p) | Folder _ \<Rightarrow> True)"
proof -
  obtain c r reserve where m: "metadata_sizes sha plan store = Inr (c, r)" and le: "int c + int r \<le> reserve"
    and n: "case plan of Usb p \<Rightarrow> n = total_bytes (plan_proposal plan) + reserve \<and> n \<le> ub_available (up_binding p)
       | Folder p \<Rightarrow> n = total_bytes (plan_proposal plan) + reserve + co_headroom (np_capacity p)"
    by (rule required_bytes_Inr [OF assms(1)])
  from m obtain fs where fs: "try_map (widest_file plan) (pv_closure (plan_proposal plan)) = Inr fs"
    and cr: "c = width (control_json sha plan ZERO_TX store)" "r = width (receipt_json sha plan ZERO_TX fs)"
    by (auto simp: metadata_sizes_def split: sum.splits)
  have "width (control_json sha plan tx store) = c" using control_width [OF assms(2)] cr by simp
  moreover have "width (receipt_json sha plan tx (receipt_files plan es)) \<le> r"
    unfolding cr receipt_files_def
    by (rule receipt_width_mono [OF assms(2)], rule receipt_files_le [OF fs])
      (use assms(3) in \<open>simp add: sealed_choice_def\<close>)
  ultimately show ?thesis
    using n le by (cases plan) simp_all
qed

end
