(* ===== verification/SliceInstances.thy ===== *)
theory SliceInstances
  imports SlicePreview SlicePlan "HOL-Library.Multiset" "HOL-Library.Code_Target_Nat"
begin

text \<open>
  One repository with one archived file, previewed, approved and planned for a USB drive, and
  small folder and FAT32 layouts: concrete inputs of the theorems on slices. The hash stays a
  parameter where its value does not matter; \<open>same\<close> is a hash without collisions, \<open>flat\<close> one of
  constant width.
\<close>

definition same :: "str \<Rightarrow> str" where
  "same s = s"

definition w_digest :: str where
  "w_digest = replicate 64 (CHR ''a'')"

definition w_file :: file_fact where
  "w_file = \<lparr>ff_repo = ''a/b'', ff_name = ''m'', ff_size = Some 3, ff_sha = None, ff_format = None, ff_quant = None\<rparr>"

definition w_copy :: copy_fact where
  "w_copy = \<lparr>cf_repo = ''a/b'', cf_name = ''m'', cf_drive = ''d'', cf_relpath = Some ''m'', cf_orig_bytes = Some 3,
     cf_stored_bytes = Some 3, cf_orig_sha = Some w_digest, cf_provenance = Some ''hub_confirmed'', cf_annex_key = None,
     cf_compressed = PyBool False, cf_present = None\<rparr>"

definition w_print :: "(str \<Rightarrow> str) \<Rightarrow> str" where
  "w_print sha = sha (identity_payload (Some ''F'') None None (Some 9))"

definition w_drive :: "(str \<Rightarrow> str) \<Rightarrow> drive_fact" where
  "w_drive sha = \<lparr>df_drive = ''d'', df_fs_uuid = Some ''F'', df_annex_uuid = None, df_serial = None, df_epoch = 1,
     df_generation = 1, df_fingerprint = Some (w_print sha), df_capacity = Some 9, df_authority = ''dedicated_local'',
     df_lifecycle = ''active'', df_eligibility = ''enabled''\<rparr>"

definition w_anchor :: "(str \<Rightarrow> str) \<Rightarrow> anchor_fact" where
  "w_anchor sha = \<lparr>an_drive = ''d'', an_epoch = 1, an_generation = 1, an_fingerprint = w_print sha, an_capacity = 9,
     an_authority = ''dedicated_local'', an_id = ''n''\<rparr>"

definition w_snapshot :: "(str \<Rightarrow> str) \<Rightarrow> catalog_snapshot" where
  "w_snapshot sha = make_snapshot ''c'' [w_file] [w_copy] [w_drive sha] [w_anchor sha] [] 7"

definition w_spec :: slice_spec where
  "w_spec = \<lparr>sp_repos = [''a/b''], sp_destination = ''usb'', sp_root = ''out'', sp_profile = CONSUMER_PROFILE\<rparr>"

definition w_evidence :: "(str \<Rightarrow> str) \<Rightarrow> source_evidence" where
  "w_evidence sha = \<lparr>ev_copy = w_copy, ev_drive = w_drive sha, ev_anchor = w_anchor sha, ev_provenance = ''hub_confirmed''\<rparr>"

definition w_artifact :: "(str \<Rightarrow> str) \<Rightarrow> artifact" where
  "w_artifact sha = \<lparr>ar_repo = ''a/b'', ar_name = ''m'', ar_size = 3, ar_sha = w_digest, ar_format = None, ar_quant = None,
     ar_sources = [w_evidence sha]\<rparr>"

definition w_preview :: "(str \<Rightarrow> str) \<Rightarrow> slice_preview" where
  "w_preview sha = seal_preview sha \<lparr>pv_spec = w_spec, pv_snapshot = source_snapshot_id sha (w_snapshot sha),
     pv_closure = [w_artifact sha], pv_gaps = [], pv_seal = '''', pv_version = DOMAIN_VERSION\<rparr>"

lemma w_spec_eq: "make_spec [''a/b''] ''usb'' ''out'' CONSUMER_PROFILE = Inr w_spec"
  by code_simp

lemma w_scope: "scope (w_snapshot sha) w_spec = w_snapshot sha"
  by (simp add: scope_def w_snapshot_def make_snapshot_def w_spec_def w_file_def w_copy_def w_drive_def w_anchor_def
      file_key_def anchor_key_def)

lemma w_paths: "path_ok ''m''" "parents (output_path ''a/b'' ''m'') = [''a/b'', ''a'', ''.'']" "output_path ''a/b'' ''m'' = ''a/b/m''"
  by code_simp+

lemma w_sizes: "sizes_agree w_file w_copy" "malformed_digest (cf_orig_sha w_copy) = False" "digest_ok (Some w_digest)"
  "expected_sha256 None (Some w_digest) (PyBool False) None = Inr (Some w_digest)" "py_lower w_digest = w_digest"
  "digest_proof w_copy False = Some ''hub_confirmed''"
  by code_simp+

lemma w_clean: "clean_generation (w_drive sha)" "identity_named (w_drive sha)" "anchor_binds (w_drive sha) (w_print sha) (w_anchor sha)"
  by (simp_all add: clean_generation_def identity_named_def anchor_binds_def w_drive_def w_anchor_def integer_ok_def py_strip_def is_space_def)

lemma w_source: "source_of sha w_file w_copy (Some (w_drive sha)) (\<lambda>k. List.find (\<lambda>x. anchor_key x = k) [w_anchor sha])
   = Inr (Inr (w_digest, w_evidence sha))"
proof -
  have "source_digest w_file w_copy (w_drive sha) (w_anchor sha) = Inr (w_digest, w_evidence sha)"
    using w_sizes by (simp add: source_digest_def w_evidence_def w_copy_def w_file_def)
  then show ?thesis
    using w_clean [of sha] w_paths(1)
    by (simp add: source_of_def identity_fingerprint_v1_def falsy_def w_copy_def w_drive_def w_anchor_def anchor_key_def w_print_def path_opt_def)
qed

lemma w_preview_eq: "preview sha w_spec (w_snapshot sha) = Inr (w_preview sha)"
proof -
  let ?s = "w_snapshot sha"
  have fields: "sn_files ?s = [w_file]" "sn_copies ?s = [w_copy]" "sn_drives ?s = [w_drive sha]" "sn_anchors ?s = [w_anchor sha]"
    "sn_issues ?s = []" "sn_schema ?s = 7" "sn_catalog ?s = ''c''"
    by (simp_all add: w_snapshot_def make_snapshot_def)
  have f: "ff_repo w_file = ''a/b''" "ff_name w_file = ''m''" "ff_size w_file = Some 3" "ff_sha w_file = None"
    "ff_format w_file = None" "ff_quant w_file = None" "cf_repo w_copy = ''a/b''" "cf_name w_copy = ''m''" "cf_drive w_copy = ''d''"
    "df_drive (w_drive sha) = ''d''" "sp_repos w_spec = [''a/b'']"
    by (simp_all add: w_file_def w_copy_def w_drive_def w_spec_def)
  have "file_outcome sha [''a/b/m''] [w_copy] (\<lambda>k. List.find (\<lambda>x. df_drive x = k) [w_drive sha])
      (\<lambda>k. List.find (\<lambda>x. anchor_key x = k) [w_anchor sha]) w_file = Inr (Inr (w_artifact sha))"
    using w_source [of sha] w_paths
    by (simp add: file_outcome_def f file_key_def malformed_digest_def integer_ok_def w_artifact_def Let_def)
  then show ?thesis
    using w_paths
    by (simp add: preview_def fields w_scope index_by_def f missing_repos_def w_preview_def Let_def)
qed

lemma w_ready: "preview_ready (w_preview sha)"
  by (simp add: preview_ready_def w_preview_def seal_preview_def)

lemma w_spec_of: "pv_spec (w_preview sha) = w_spec"
  by (simp add: w_preview_def seal_preview_def)

lemma w_verify: "verify_preview sha (w_preview sha) = Inr ()"
  by (simp add: verify_preview_def w_preview_def seal_preview_def preview_seal_def preview_json_def)

definition w_approval :: "(str \<Rightarrow> str) \<Rightarrow> slice_approval" where
  "w_approval sha = \<lparr>ap_seal = pv_seal (w_preview sha), ap_stage = ''domain'', ap_version = DOMAIN_VERSION\<rparr>"

lemma w_approval_eq: "approve_preview sha (w_preview sha) (pv_seal (w_preview sha)) (w_snapshot sha) = Inr (w_approval sha)"
  by (simp add: approve_preview_def w_verify w_ready w_spec_of w_preview_eq w_approval_def)

lemma w_validated: "validate_approval sha (w_preview sha) (w_approval sha) = Inr ()"
  by (simp add: validate_approval_def w_verify w_ready w_approval_def)

section \<open>Witnesses on previews\<close>

theorem preview_closure_proven_witness:
  "list_all (\<lambda>a. ar_sources a \<noteq> [] \<and> list_all (proven_source same (w_snapshot same) a) (ar_sources a)) (pv_closure (w_preview same))"
  by (rule preview_closure_proven [OF w_preview_eq])

theorem ready_preview_complete_witness:
  "map artifact_key (pv_closure (w_preview same)) =
      sorted_set (map file_key (filter (\<lambda>f. ff_repo f \<in> set (sp_repos w_spec)) (sn_files (w_snapshot same))))
    \<and> list_all (\<lambda>r. list_ex (\<lambda>a. ar_repo a = r) (pv_closure (w_preview same))) (sp_repos w_spec)"
  by (rule ready_preview_complete [OF w_preview_eq w_ready])

theorem preview_outputs_disjoint_witness:
  "list_all (\<lambda>a. list_all (\<lambda>b. under (artifact_path a) (artifact_path b) =
      (artifact_key a = artifact_key b)) (pv_closure (w_preview same))) (pv_closure (w_preview same))"
  by (rule preview_outputs_disjoint [OF w_spec_eq w_preview_eq])

theorem approval_binds_evidence_witness:
  "validate_approval same (w_preview same) (w_approval same) = Inr () \<and>
    (case preview same (pv_spec (w_preview same)) (w_snapshot same) of
       Inl _ \<Rightarrow> False
     | Inr fresh \<Rightarrow> preview_ready fresh \<and>
         map forget_artifact (pv_closure fresh) = map forget_artifact (pv_closure (w_preview same)) \<or> collision same)"
  by (rule approval_binds_evidence [OF w_approval_eq])

section \<open>A USB plan\<close>

text \<open>The width of a text, computed without building it.\<close>

lemma width_object_code: "width (JObj ms) = sum_list (map (\<lambda>m. length (json_key (fst m)) + width (snd m)) ms) + (length ms - 1) + 2"
proof -
  let ?xs = "map (map_prod id encode) ms"
  have "mset (map length (map member_text (sort_key fst ?xs))) = mset (map length (map member_text ?xs))"
    by (simp only: mset_map mset_sort)
  then have "sum_list (map length (map member_text (sort_key fst ?xs))) = sum_list (map length (map member_text ?xs))"
    by (metis sum_mset_sum_list)
  then show ?thesis
    by (simp add: width_def [abs_def] length_joined member_text_def comp_def)
qed

lemma width_code [code]:
  "width JNull = 4" "width (JBool b) = (if b then 4 else 5)" "width (JInt i) = length (json_int i)"
  "width (JStr s) = length (json_string s)"
  "width (JArr xs) = sum_list (map width xs) + (length xs - 1) + 2"
  "width (JObj ms) = sum_list (map (\<lambda>m. length (json_key (fst m)) + width (snd m)) ms) + (length ms - 1) + 2"
  by (simp_all add: width_array width_object_code) (simp_all add: width_def)

definition flat :: "str \<Rightarrow> str" where
  "flat s = ''7''"

lemma flat_hash [simp]: "json_hash flat v = ''7''"
  by (simp add: json_hash_def flat_def)

definition w_plan :: slice_plan where
  "w_plan = Usb \<lparr>up_proposal = w_preview flat,
     up_binding = \<lparr>ub_device = ''usb'', ub_filesystem = ''f'', ub_mount = ''m'', ub_available = 9000\<rparr>,
     up_version = V3, up_reserve = Some 8000\<rparr>"

text \<open>The same values with every hash replaced by its value.\<close>

definition w_flat_preview :: slice_preview where
  "w_flat_preview = \<lparr>pv_spec = w_spec, pv_snapshot = ''7'', pv_closure = [w_artifact flat], pv_gaps = [],
     pv_seal = ''7'', pv_version = DOMAIN_VERSION\<rparr>"

lemma w_flat: "w_preview flat = w_flat_preview"
  by (simp add: w_preview_def seal_preview_def w_flat_preview_def source_snapshot_id_def preview_seal_def)

definition w_flat_plan :: slice_plan where
  "w_flat_plan = Usb \<lparr>up_proposal = w_flat_preview,
     up_binding = \<lparr>ub_device = ''usb'', ub_filesystem = ''f'', ub_mount = ''m'', ub_available = 9000\<rparr>,
     up_version = V3, up_reserve = Some 8000\<rparr>"

lemma w_plan_flat: "w_plan = w_flat_plan"
  by (simp add: w_plan_def w_flat_plan_def w_flat)

lemma w_widest: "try_map (widest_file w_flat_plan) [w_artifact flat] = Inr [file_receipt w_flat_plan (w_artifact flat) (evidence_full (w_evidence flat))]"
  by (simp add: widest_file_def w_artifact_def)

definition w_control :: json where
  "w_control = JObj [(''destination'', destination_json w_flat_plan), (''seal'', JStr ''7''), (''store'', JStr ''/s''), (''transaction'', JStr ZERO_TX)]"

definition w_receipt :: json where
  "w_receipt = JObj [(''destination'', destination_json w_flat_plan),
     (''files'', JArr [file_receipt w_flat_plan (w_artifact flat) (evidence_full (w_evidence flat))]),
     (''plan'', plan_json w_flat_plan), (''seal'', JStr ''7''), (''status'', JStr ''complete''), (''topology'', JStr ''direct''),
     (''transaction'', JStr ZERO_TX), (''verification'', verification_json ''authenticated'' 1), (''version'', JStr V3)]"

lemma w_widths: "width w_control + width w_receipt \<le> 8000"
  by code_simp

lemma w_required: "required_bytes flat w_plan ''/s'' = Inr 8003"
proof -
  have closure: "pv_closure (plan_proposal w_flat_plan) = [w_artifact flat]" "total_bytes (plan_proposal w_flat_plan) = 3"
    by (simp_all add: w_flat_plan_def w_flat_preview_def total_bytes_def w_artifact_def)
  have "metadata_sizes flat w_flat_plan ''/s'' = Inr (width w_control, width w_receipt)"
    unfolding metadata_sizes_def closure w_widest
    by (simp add: w_control_def w_receipt_def control_json_def receipt_json_def plan_seal_def, simp add: w_flat_plan_def plan_seal_def V1_def V3_def)
  moreover have "int (width w_control) + int (width w_receipt) \<le> 8000" using w_widths by linarith
  ultimately show ?thesis
    unfolding w_plan_flat required_bytes_def by (simp add: closure Let_def, simp add: w_flat_plan_def)
qed

theorem charge_covers_records_witness:
  "total_bytes (plan_proposal w_plan) + int (width (control_json flat w_plan ZERO_TX ''/s''))
      + int (width (receipt_json flat w_plan ZERO_TX (receipt_files w_plan [w_evidence flat])))
      \<le> 8003 - (case w_plan of Usb _ \<Rightarrow> 0 | Folder p \<Rightarrow> co_headroom (np_capacity p))
    \<and> (case w_plan of Usb p \<Rightarrow> 8003 \<le> ub_available (up_binding p) | Folder _ \<Rightarrow> True)"
proof (rule charge_covers_records [OF w_required])
  show "hex_text 32 ZERO_TX" by code_simp
  show "sealed_choice w_plan [w_evidence flat]"
    by (simp add: sealed_choice_def w_plan_flat w_flat_plan_def w_flat_preview_def w_artifact_def)
qed

section \<open>Layouts\<close>

definition w_layout :: fat_layout where
  "w_layout = (let paths = [(''out/a/b/m'', 3), (''out/a/c'', 4), (''out/.modelark-slice-owner'', 10), (''out/.modelark-slice-receipt.json'', 20)] in
     \<lparr>fl_files = paths, fl_directories = layout_directories paths, fl_temporary = map (\<lambda>p. sibling (fst p) TEMPORARY_NAME) paths\<rparr>)"

lemma w_layout_eq: "admit_layout [(''a/b/m'', 3), (''a/c'', 4)] ''out'' ''/mnt'' 10 20 = Inr w_layout"
  by code_simp

theorem admitted_layout_apart_witness:
  "sorted_wrt apart (fl_files w_layout)"
  using admitted_layout_apart [OF w_layout_eq] by blast

end
