(* ===== verification/SliceStore.thy ===== *)
theory SliceStore
  imports SlicePlan
begin

text \<open>
  The durable single-host slice authority: the \<open>Store\<close> of \<open>modelark/slice/state.py\<close>. The SQLite
  database is a record of its three tables. Every operation that the code runs between
  \<open>BEGIN IMMEDIATE\<close> and \<open>COMMIT\<close> is one function from a store to a refusal (\<open>ROLLBACK\<close>, the store
  is unchanged) or a result with the store committed. A row of a plan holds the plan that its JSON
  text decodes to, or the reason why it does not decode; journal payloads are JSON values. A
  \<open>None\<close> row that the code unpacks raises \<open>TypeError\<close>, a duplicate key \<open>IntegrityError\<close>: both are
  refusals with that code.
\<close>

section \<open>Admission records\<close>

text \<open>\<open>DecodePolicy.from_record\<close> of \<open>modelark/artifact_policy.py\<close> with the two records it contains.\<close>

fun int_value :: "json option \<Rightarrow> int option" where
  "int_value (Some (JInt n)) = Some n"
| "int_value _ = None"

definition positive :: "json option \<Rightarrow> bool" where
  "positive v = (case int_value v of None \<Rightarrow> False | Some n \<Rightarrow> 0 < n)"

definition dict_of :: "json \<Rightarrow> str list \<Rightarrow> (str \<Rightarrow> json option) option" where
  "dict_of v names =
     (case v of
        JObj ms \<Rightarrow> (if set (map fst ms) = set names then Some (dict_get ms) else None)
      | _ \<Rightarrow> None)"

definition decode_limits_ok :: "json option \<Rightarrow> bool" where
  "decode_limits_ok v =
     (case v of None \<Rightarrow> False | Some j \<Rightarrow>
      (case dict_of j [''stored_frame_bytes'', ''decoded_frame_bytes'', ''read_bytes'', ''zstd_window_bytes''] of
         None \<Rightarrow> False
       | Some d \<Rightarrow> positive (d ''stored_frame_bytes'') \<and> positive (d ''decoded_frame_bytes'')
           \<and> positive (d ''read_bytes'') \<and> positive (d ''zstd_window_bytes'')))"

definition memory_policy_ok :: "json option \<Rightarrow> bool" where
  "memory_policy_ok v =
     (case v of None \<Rightarrow> False | Some j \<Rightarrow>
      (case dict_of j [''version'', ''address_space_bytes'', ''reserve_bytes''] of
         None \<Rightarrow> False
       | Some d \<Rightarrow> positive (d ''address_space_bytes'')
           \<and> (case int_value (d ''reserve_bytes'') of None \<Rightarrow> False | Some n \<Rightarrow> 0 \<le> n)
           \<and> d ''version'' = Some (JStr ''modelark.codec-memory.v1'')))"

definition bound_by :: "json option \<Rightarrow> str \<Rightarrow> int \<Rightarrow> bool" where
  "bound_by v key n =
     (case v of Some (JObj ms) \<Rightarrow> (case int_value (dict_get ms key) of None \<Rightarrow> False | Some m \<Rightarrow> m \<le> n) | _ \<Rightarrow> False)"

definition address_space :: "json option \<Rightarrow> int" where
  "address_space v =
     (case v of Some (JObj ms) \<Rightarrow> (case int_value (dict_get ms ''address_space_bytes'') of None \<Rightarrow> 0 | Some m \<Rightarrow> m) | _ \<Rightarrow> 0)"

definition decode_policy_ok :: "json \<Rightarrow> bool" where
  "decode_policy_ok v =
     (case dict_of v [''version'', ''limits'', ''memory'', ''zstd_window_unit''] of
        None \<Rightarrow> False
      | Some d \<Rightarrow>
          decode_limits_ok (d ''limits'') \<and> memory_policy_ok (d ''memory'')
          \<and> d ''version'' = Some (JStr ''modelark.original-decode.v1'')
          \<and> d ''zstd_window_unit'' = Some (JStr ''bytes'')
          \<and> bound_by (d ''limits'') ''read_bytes'' 1048576
          \<and> bound_by (d ''limits'') ''decoded_frame_bytes'' (address_space (d ''memory''))
          \<and> bound_by (d ''limits'') ''stored_frame_bytes'' (address_space (d ''memory''))
          \<and> bound_by (d ''limits'') ''zstd_window_bytes'' 67108864)"

text \<open>An absolute path that \<open>os.path.normpath\<close> leaves alone: it keeps exactly two leading slashes.\<close>

definition normal_absolute :: "str \<Rightarrow> bool" where
  "normal_absolute s =
     (let body = (if path_parts s = [] then ''/'' else CHR ''/'' # join_path (path_parts s)) in
      take 1 s = ''/'' \<and> ''..'' \<notin> set (path_parts s) \<and> (s = body \<or> s = CHR ''/'' # body))"

definition admission_version :: "json \<Rightarrow> json option" where
  "admission_version v = (case v of JObj ms \<Rightarrow> dict_get ms ''version'' | _ \<Rightarrow> None)"

definition admission_invalid :: "str \<Rightarrow> refusal + 'a" where
  "admission_invalid detail = Inl (Refusal ''ADMISSION_CORRUPT'' detail)"

definition validate_admission :: "(str \<Rightarrow> str) \<Rightarrow> slice_plan \<Rightarrow> json \<Rightarrow> refusal + unit" where
  "validate_admission sha plan admission =
     (let guarded = (admission_version admission = Some (JStr ''modelark.slice.direct.v2''));
          keys = [''version'', ''catalog'', ''capacity''] @ (if guarded then [''decode_policy''] else []);
          valid = (case dict_of admission keys of
                     None \<Rightarrow> False
                   | Some d \<Rightarrow>
                       (d ''version'' = Some (JStr ''modelark.slice.direct.v1'') \<or> guarded)
                       \<and> (case d ''catalog'' of Some (JStr c) \<Rightarrow> normal_absolute c \<and> nul \<notin> set c | _ \<Rightarrow> False)
                       \<and> (case d ''capacity'' of Some (JObj _) \<Rightarrow> True | _ \<Rightarrow> False));
          prefix = (if guarded then ''direct-v2:'' else ''direct-v1:'') in
      if guarded \<and> \<not> (case admission of JObj ms \<Rightarrow>
             (case dict_get ms ''decode_policy'' of None \<Rightarrow> False | Some p \<Rightarrow> decode_policy_ok p) | _ \<Rightarrow> False)
      then admission_invalid ''invalid direct admission record''
      else if \<not> valid \<or> (case plan of Usb p \<Rightarrow> ub_mount (up_binding p) \<noteq> prefix @ json_hash sha admission
                                     | Folder p \<Rightarrow> np_admission p \<noteq> prefix @ json_hash sha admission)
      then admission_invalid ''direct admission differs from sealed binding''
      else Inr ())"

section \<open>Overlapping claims\<close>

fun root_profile :: "folder_root \<Rightarrow> profile" where
  "root_profile (NativeRoot t) = ft_profile t"
| "root_profile (FatRoot t) = Fat32Session"

fun root_parts :: "folder_root \<Rightarrow> str list" where
  "root_parts (NativeRoot t) = target_parts t"
| "root_parts (FatRoot t) = fat_parts t"

text \<open>A folder's backing identities against a whole legacy device, with case folded.\<close>

text \<open>\<open>str.casefold\<close> on device identities, which are read as ASCII like every string of the model.\<close>

definition backs_device :: "folder_plan \<Rightarrow> usb_plan \<Rightarrow> bool" where
  "backs_device f u =
     (let keys = map py_lower (np_backing f) in
      py_lower (ub_device (up_binding u)) \<in> set keys
      \<or> py_lower (''filesystem:'' @ ub_filesystem (up_binding u)) \<in> set keys)"

fun claims_overlap :: "slice_plan \<Rightarrow> slice_plan \<Rightarrow> refusal + bool" where
  "claims_overlap (Folder p) (Folder q) =
     (case (np_root p, np_root q) of
        (NativeRoot t, NativeRoot u) \<Rightarrow> overlaps t u
      | (a, b) \<Rightarrow>
          if root_scope a \<noteq> root_scope b then Inr False
          else if root_profile a \<noteq> root_profile b
          then Inl (Refusal ''DESTINATION_UNPROVEN'' ''mixed filesystem profiles'')
          else Inr (common_parts (map py_lower (root_parts a)) (map py_lower (root_parts b))))"
| "claims_overlap (Usb p) (Usb q) = Inr (ub_device (up_binding p) = ub_device (up_binding q))"
| "claims_overlap (Folder p) (Usb q) = Inr (backs_device p q)"
| "claims_overlap (Usb p) (Folder q) = Inr (backs_device q p)"

section \<open>The tables\<close>

datatype stored_plan = Stored slice_plan | Undecodable str

record tx_row =
  tx_plan :: stored_plan
  tx_seal :: str
  tx_state :: phase
  tx_stop :: bool
  tx_reason :: str
  tx_journal_seq :: nat
  tx_journal_digest :: str
  tx_stop_serial :: nat
  tx_acknowledged :: nat
  tx_consumed :: "str option"
  tx_admission :: "json option"

record owner_row =
  ow_device :: str
  ow_tx :: str
  ow_attempt :: "str option"

record journal_row =
  jr_tx :: str
  jr_seq :: nat
  jr_event :: str
  jr_payload :: json
  jr_digest :: str

record store =
  st_txs :: "str \<Rightarrow> tx_row option"
  st_owners :: "owner_row list"
  st_journal :: "journal_row list"

datatype status = Status (status_tx: str) (status_state: phase) (status_reason: str)

definition empty_store :: store where
  "empty_store = \<lparr>st_txs = (\<lambda>_. None), st_owners = [], st_journal = []\<rparr>"

text \<open>\<open>SELECT ... FROM transactions WHERE id=?\<close> whose row is unpacked at once.\<close>

definition the_row :: "store \<Rightarrow> str \<Rightarrow> refusal + tx_row" where
  "the_row s tx = (case st_txs s tx of
     None \<Rightarrow> Inl (Refusal ''TypeError'' ''cannot unpack non-iterable NoneType object'') | Some r \<Rightarrow> Inr r)"

definition set_row :: "str \<Rightarrow> (tx_row \<Rightarrow> tx_row) \<Rightarrow> store \<Rightarrow> store" where
  "set_row tx f s = s\<lparr>st_txs := (st_txs s)(tx := map_option f (st_txs s tx))\<rparr>"

definition owner_of :: "store \<Rightarrow> str \<Rightarrow> owner_row option" where
  "owner_of s device = List.find (\<lambda>o'. ow_device o' = device) (st_owners s)"

definition load_plan :: "stored_plan \<Rightarrow> refusal + slice_plan" where
  "load_plan p = (case p of Stored q \<Rightarrow> Inr q | Undecodable d \<Rightarrow> Inl (Refusal ''STATE_CORRUPT'' d))"

section \<open>Operations\<close>

definition create ::
  "(str \<Rightarrow> str) \<Rightarrow> str \<Rightarrow> slice_plan \<Rightarrow> slice_approval \<Rightarrow> json option \<Rightarrow> str \<Rightarrow> store \<Rightarrow> refusal + (str \<times> store)" where
  "create sha root plan approval admission tx s =
     (if \<not> is_folder plan \<and> plan_version plan \<noteq> V3
      then Inl (Refusal ''LEGACY_PLAN'' ''new transactions require protocol v3'')
      else if is_folder plan \<and> admission \<noteq> None
      then admission_invalid ''native admission is part of the plan''
      else
       (case validate_approval sha (plan_proposal plan) approval of Inl e \<Rightarrow> Inl e | Inr _ \<Rightarrow>
       (case required_bytes sha plan root of Inl e \<Rightarrow> Inl e | Inr _ \<Rightarrow>
       (case (case admission of None \<Rightarrow> Inr () | Some a \<Rightarrow> validate_admission sha plan a) of Inl e \<Rightarrow> Inl e | Inr _ \<Rightarrow>
        (if st_txs s tx \<noteq> None then Inl (Refusal ''IntegrityError'' ''UNIQUE constraint failed: transactions.id'')
         else Inr (tx, s\<lparr>st_txs := (st_txs s)(tx := Some
           \<lparr>tx_plan = Stored plan, tx_seal = plan_seal sha plan, tx_state = PReady, tx_stop = False, tx_reason = '''',
            tx_journal_seq = 0, tx_journal_digest = '''', tx_stop_serial = 0, tx_acknowledged = 0,
            tx_consumed = None, tx_admission = admission\<rparr>)\<rparr>))))))"

definition load :: "(str \<Rightarrow> str) \<Rightarrow> store \<Rightarrow> str \<Rightarrow> refusal + slice_plan" where
  "load sha s tx =
     (case st_txs s tx of None \<Rightarrow> Inl (Refusal ''TRANSACTION_MISSING'' tx) | Some r \<Rightarrow>
      (case load_plan (tx_plan r) of Inl e \<Rightarrow> Inl e | Inr p \<Rightarrow>
       if plan_seal sha p \<noteq> tx_seal r then Inl (Refusal ''STATE_CORRUPT'' ''plan seal differs'') else Inr p))"

definition load_admission :: "(str \<Rightarrow> str) \<Rightarrow> store \<Rightarrow> str \<Rightarrow> refusal + json" where
  "load_admission sha s tx =
     (case load sha s tx of Inl e \<Rightarrow> Inl e | Inr plan \<Rightarrow>
      (case plan of
         Folder p \<Rightarrow> Inr (JObj [(''catalog'', JStr (np_catalog p)), (''version'', JStr (np_version p))])
       | Usb _ \<Rightarrow>
          (case st_txs s tx of None \<Rightarrow> Inl (Refusal ''TRANSACTION_MISSING'' tx) | Some r \<Rightarrow>
           (case tx_admission r of
              None \<Rightarrow> Inl (Refusal ''ADMISSION_MISSING'' ''legacy internal transaction has no direct admission'')
            | Some a \<Rightarrow> (case validate_admission sha plan a of Inl e \<Rightarrow> Inl e | Inr _ \<Rightarrow> Inr a)))))"

definition approve :: "(str \<Rightarrow> str) \<Rightarrow> str \<Rightarrow> str \<Rightarrow> store \<Rightarrow> refusal + (unit \<times> store)" where
  "approve sha tx expected s =
     (case load sha s tx of Inl e \<Rightarrow> Inl e | Inr _ \<Rightarrow>
      (case the_row s tx of Inl e \<Rightarrow> Inl e | Inr r \<Rightarrow>
       if tx_seal r \<noteq> expected then Inl (Refusal ''PREVIEW_STALE'' '''')
       else if tx_state r \<notin> {PReady, PApproved} then Inl (Refusal ''APPROVAL_STATE'' (phase_text (tx_state r)))
       else Inr ((), set_row tx (\<lambda>r. if tx_state r = PReady then r\<lparr>tx_state := PApproved\<rparr> else r) s)))"

definition get_status :: "store \<Rightarrow> str \<Rightarrow> refusal + status" where
  "get_status s tx =
     (case st_txs s tx of None \<Rightarrow> Inl (Refusal ''TRANSACTION_MISSING'' tx)
      | Some r \<Rightarrow> Inr (Status tx (tx_state r) (tx_reason r)))"

definition owner :: "store \<Rightarrow> str \<Rightarrow> str option" where
  "owner s device = map_option ow_tx (owner_of s device)"

text \<open>The loop over the other claims: a corrupt or overlapping one refuses the reservation.\<close>

definition conflict :: "(str \<Rightarrow> str) \<Rightarrow> store \<Rightarrow> str \<Rightarrow> slice_plan \<Rightarrow> refusal + unit" where
  "conflict sha s tx plan =
     (case try_map (\<lambda>o'. case st_txs s (ow_tx o') of
              None \<Rightarrow> Inr ()
            | Some r \<Rightarrow>
                (case load_plan (tx_plan r) of Inl e \<Rightarrow> Inl e | Inr other \<Rightarrow>
                 if plan_seal sha other \<noteq> tx_seal r then Inl (Refusal ''STATE_CORRUPT'' ''existing claim has a corrupt plan'')
                 else (case claims_overlap plan other of Inl e \<Rightarrow> Inl e
                       | Inr b \<Rightarrow> if b then Inl (Refusal ''DESTINATION_BUSY'' (ow_tx o')) else Inr ())))
            (filter (\<lambda>o'. ow_tx o' \<noteq> tx) (st_owners s)) of
        Inl e \<Rightarrow> Inl e
      | Inr _ \<Rightarrow> Inr ())"

text \<open>
  \<open>inspect\<close> inside \<open>reserve\<close>: the final status of a complete transaction, or whether the device
  has its owner row already, with the reservation.
\<close>

definition inspect :: "(str \<Rightarrow> str) \<Rightarrow> str \<Rightarrow> str \<Rightarrow> store \<Rightarrow> refusal + (status + (bool \<times> reservation))" where
  "inspect sha tx device s =
     (case the_row s tx of Inl e \<Rightarrow> Inl e | Inr r \<Rightarrow>
      (case load_plan (tx_plan r) of Inl e \<Rightarrow> Inl e | Inr plan \<Rightarrow>
       if plan_seal sha plan \<noteq> tx_seal r \<or> device_id sha plan \<noteq> device
       then Inl (Refusal ''STATE_CORRUPT'' ''reservation differs from sealed plan'')
       else if tx_state r = PComplete then Inr (Inl (Status tx (tx_state r) ''''))
       else (case conflict sha s tx plan of Inl e \<Rightarrow> Inl e | Inr _ \<Rightarrow>
         if (case owner_of s device of None \<Rightarrow> False | Some o' \<Rightarrow> ow_tx o' \<noteq> tx)
         then Inl (Refusal ''DESTINATION_BUSY'' (case owner s device of None \<Rightarrow> '''' | Some t \<Rightarrow> t))
         else if tx_state r \<notin> RESUMABLE_STATES
         then Inl (Refusal (if tx_state r = PReady then ''APPROVAL_MISSING'' else ''NOT_RESUMABLE'') (phase_text (tx_state r)))
         else Inr (Inr (owner_of s device \<noteq> None,
                \<lparr>rs_state = tx_state r, rs_serial = tx_stop_serial r, rs_acknowledged = tx_acknowledged r\<rparr>)))))"

text \<open>
  The two transactions of \<open>reserve\<close>: a reader, which answers when the transaction is complete or
  owns its device, and the writer, which runs with the reservation that the reader has seen.
\<close>

definition reserve_read :: "(str \<Rightarrow> str) \<Rightarrow> str \<Rightarrow> str \<Rightarrow> store \<Rightarrow> refusal + (status + (bool \<times> reservation))" where
  "reserve_read sha tx device s = inspect sha tx device s"

definition reserve_write ::
  "(str \<Rightarrow> str) \<Rightarrow> str \<Rightarrow> str \<Rightarrow> reservation \<Rightarrow> store \<Rightarrow> refusal + ((status + reservation) \<times> store)" where
  "reserve_write sha tx device r s =
     (case inspect sha tx device s of
        Inl e \<Rightarrow> Inl e
      | Inr (Inl st) \<Rightarrow> Inr (Inl st, s)
      | Inr (Inr (owned, current)) \<Rightarrow>
          (let ignored = list_ex (\<lambda>o'. ow_device o' = device \<or> ow_tx o' = tx) (st_owners s);
               s' = (if ignored then s
                     else s\<lparr>st_owners := st_owners s @ [\<lparr>ow_device = device, ow_tx = tx, ow_attempt = None\<rparr>]\<rparr>) in
           Inr (Inr r, if owned then s' else set_row tx (\<lambda>r. r\<lparr>tx_state := PStarting, tx_reason := ''''\<rparr>) s')))"

definition current_attempt :: "store \<Rightarrow> str \<Rightarrow> attempt option" where
  "current_attempt s device =
     (case owner_of s device of None \<Rightarrow> None | Some o' \<Rightarrow>
      map_option (\<lambda>t. \<lparr>at_owner = ow_tx o', at_token = t\<rparr>) (ow_attempt o'))"

definition attempt_consumed :: "store \<Rightarrow> str \<Rightarrow> bool" where
  "attempt_consumed s tx = (case st_txs s tx of None \<Rightarrow> False | Some r \<Rightarrow> tx_consumed r \<noteq> None)"

definition resumes_row :: "reservation \<Rightarrow> tx_row \<Rightarrow> bool" where
  "resumes_row rs r = resumes rs (tx_state r) (tx_stop_serial r) (tx_acknowledged r)"

definition guard_preclaim :: "str \<Rightarrow> str \<Rightarrow> reservation \<Rightarrow> store \<Rightarrow> refusal + unit" where
  "guard_preclaim tx device rs s =
     (case the_row s tx of Inl e \<Rightarrow> Inl e | Inr r \<Rightarrow>
      if owner s device \<noteq> Some tx then Inl (Refusal ''EXECUTION_FENCE_LOST'' '''')
      else if tx_stop r \<and> \<not> resumes_row rs r then Inl (Refusal ''STOPPED'' '''')
      else if tx_state r \<notin> RESUMABLE_STATES then Inl (Refusal ''NOT_RESUMABLE'' (phase_text (tx_state r)))
      else Inr ())"

definition refuse_preclaim ::
  "str \<Rightarrow> str \<Rightarrow> reservation \<Rightarrow> refusal \<Rightarrow> bool \<Rightarrow> store \<Rightarrow> refusal + (status \<times> store)" where
  "refuse_preclaim tx device rs refused interrupted s =
     (if owner s device \<noteq> Some tx then Inl (Refusal ''EXECUTION_FENCE_LOST'' '''')
      else (case the_row s tx of Inl e \<Rightarrow> Inl e | Inr r \<Rightarrow>
        if tx_state r \<notin> RESUMABLE_STATES then Inl (Refusal ''NOT_RESUMABLE'' (phase_text (tx_state r)))
        else
         (let pending = (tx_stop r \<and> \<not> resumes_row rs r);
              serial = (if interrupted \<and> \<not> pending then tx_stop_serial r + 1 else tx_stop_serial r) in
          if pending \<or> interrupted \<or> refusal_code refused = ''STOPPED''
          then Inr (Status tx PStopped ''STOPPED'',
                    set_row tx (\<lambda>r. r\<lparr>tx_state := PStopped, tx_reason := ''STOPPED'', tx_stop := True,
                                     tx_stop_serial := serial, tx_acknowledged := serial\<rparr>) s)
          else Inr (Status tx (refusal_state (refusal_code refused)) (refusal_text refused),
                    set_row tx (\<lambda>r. r\<lparr>tx_state := refusal_state (refusal_code refused),
                                     tx_reason := refusal_text refused, tx_stop := False\<rparr>) s))))"

definition set_attempt :: "str \<Rightarrow> str \<Rightarrow> str \<Rightarrow> store \<Rightarrow> store" where
  "set_attempt device tx token s =
     s\<lparr>st_owners := map (\<lambda>o'. if ow_device o' = device \<and> ow_tx o' = tx then o'\<lparr>ow_attempt := Some token\<rparr> else o') (st_owners s)\<rparr>"

text \<open>The one-shot rule: a session-only plan whose only attempt has been spent.\<close>

definition spent :: "slice_plan \<Rightarrow> tx_row \<Rightarrow> bool" where
  "spent plan r = (session_only plan \<and> tx_consumed r \<noteq> None)"

definition claim :: "(str \<Rightarrow> str) \<Rightarrow> str \<Rightarrow> str \<Rightarrow> attempt \<Rightarrow> reservation \<Rightarrow> store \<Rightarrow> refusal + (status \<times> store)" where
  "claim sha tx device a rs s =
     (case the_row s tx of Inl e \<Rightarrow> Inl e | Inr r \<Rightarrow>
      if tx_state r = PComplete then Inr (Status tx PComplete '''', s)
      else if tx_state r \<notin> RESUMABLE_STATES then Inl (Refusal ''NOT_RESUMABLE'' (phase_text (tx_state r)))
      else if owner s device \<noteq> Some tx \<or> at_owner a \<noteq> tx then Inl (Refusal ''EXECUTION_FENCE_LOST'' '''')
      else (case load_plan (tx_plan r) of Inl e \<Rightarrow> Inl e | Inr plan \<Rightarrow>
        if plan_seal sha plan \<noteq> tx_seal r \<or> device_id sha plan \<noteq> device
        then Inl (Refusal ''STATE_CORRUPT'' ''claim differs from sealed intent'')
        else if spent plan r
        then Inl (Refusal ''FAT32_NEW_ROOT_REQUIRED'' ''this intent has spent its only attempt'')
        else
         (let s' = set_attempt device tx (at_token a) s in
          if tx_stop r \<and> \<not> resumes_row rs r
          then Inr (Status tx PStopped ''STOPPED'',
                    set_row tx (\<lambda>r. r\<lparr>tx_state := PStopped, tx_reason := ''STOPPED'', tx_acknowledged := tx_stop_serial r\<rparr>) s')
          else Inr (Status tx PStarting '''',
                    set_row tx (\<lambda>r. r\<lparr>tx_consumed := (if session_only plan then Some (at_token a) else tx_consumed r),
                                     tx_state := PStarting, tx_reason := '''', tx_stop := False\<rparr>) s'))))"

text \<open>\<open>_require_attempt\<close>: the state and the stop flag of the attempt's transaction.\<close>

definition require_attempt :: "store \<Rightarrow> attempt \<Rightarrow> str \<Rightarrow> bool \<Rightarrow> refusal + (phase \<times> bool)" where
  "require_attempt s a device allow_stop =
     (case st_txs s (at_owner a) of None \<Rightarrow> Inl (Refusal ''EXECUTION_FENCE_LOST'' '''') | Some r \<Rightarrow>
      (case require_current a (owner s device, case owner_of s device of None \<Rightarrow> None | Some o' \<Rightarrow> ow_attempt o')
              (tx_state r) RUNNING_STATES of
         Inl (AuthorityLost d) \<Rightarrow>
           Inl (Refusal (if tx_state r \<in> TERMINAL_STATES then ''NOT_RESUMABLE'' else ''EXECUTION_FENCE_LOST'') d)
       | Inr _ \<Rightarrow>
           if tx_stop r \<and> \<not> allow_stop then Inl (Refusal ''STOPPED'' '''') else Inr (tx_state r, tx_stop r)))"

definition transition :: "attempt \<Rightarrow> str \<Rightarrow> phase \<Rightarrow> str \<Rightarrow> store \<Rightarrow> refusal + (status \<times> store)" where
  "transition a device state reason s =
     (if state \<notin> RUNNING_STATES \<union> {PFailed, PInvalidated} then Inl (Refusal ''STATE_TRANSITION_INVALID'' (phase_text state))
      else (case require_attempt s a device True of Inl e \<Rightarrow> Inl e | Inr (current, stopped) \<Rightarrow>
        (let stop = (stopped \<and> state \<notin> {PFailed, PInvalidated});
             state' = (if stop then PStopped else state);
             reason' = (if stop then ''STOPPED'' else reason) in
         (case TRANSITIONS current of
            None \<Rightarrow> Inl (Refusal ''KeyError'' '''')
          | Some allowed \<Rightarrow>
              if state' \<notin> allowed then Inl (Refusal ''STATE_TRANSITION_INVALID'' (phase_text current @ '' -> '' @ phase_text state'))
              else Inr (Status (at_owner a) state' reason',
                        set_row (at_owner a)
                          (\<lambda>r. r\<lparr>tx_state := state', tx_reason := reason',
                                tx_acknowledged := (if state' = PStopped then tx_stop_serial r else tx_acknowledged r)\<rparr>) s)))))"

definition request_stop :: "str \<Rightarrow> store \<Rightarrow> refusal + (unit \<times> store)" where
  "request_stop tx s =
     Inr ((), set_row tx (\<lambda>r. r\<lparr>tx_stop := True, tx_stop_serial := tx_stop_serial r + 1\<rparr>) s)"

definition stop_requested :: "store \<Rightarrow> str \<Rightarrow> refusal + bool" where
  "stop_requested s tx = (case the_row s tx of Inl e \<Rightarrow> Inl e | Inr r \<Rightarrow> Inr (tx_stop r))"

definition head :: "store \<Rightarrow> str \<Rightarrow> (nat \<times> str) option" where
  "head s tx = map_option (\<lambda>r. (tx_journal_seq r, tx_journal_digest r)) (st_txs s tx)"

definition guard :: "attempt \<Rightarrow> str \<Rightarrow> store \<Rightarrow> refusal + (bool \<times> (nat \<times> str) option)" where
  "guard a device s =
     (case require_attempt s a device True of Inl e \<Rightarrow> Inl e | Inr (_, stopped) \<Rightarrow> Inr (stopped, head s (at_owner a)))"

text \<open>The digest that chains a journal row to its predecessor.\<close>

definition entry_json :: "str \<Rightarrow> nat \<Rightarrow> str \<Rightarrow> str \<Rightarrow> json \<Rightarrow> json" where
  "entry_json tx seq previous event payload =
     JArr [JStr tx, JInt (int seq), JStr previous, JStr event, JStr (encode payload)]"

definition entry_digest :: "(str \<Rightarrow> str) \<Rightarrow> str \<Rightarrow> nat \<Rightarrow> str \<Rightarrow> str \<Rightarrow> json \<Rightarrow> str" where
  "entry_digest sha tx seq previous event payload = json_hash sha (entry_json tx seq previous event payload)"

definition append_event ::
  "(str \<Rightarrow> str) \<Rightarrow> str \<Rightarrow> str \<Rightarrow> json \<Rightarrow> (nat \<times> str) option \<Rightarrow> attempt \<Rightarrow> str \<Rightarrow> store
    \<Rightarrow> refusal + ((nat \<times> str) \<times> store)" where
  "append_event sha tx event payload expected a device s =
     (case require_attempt s a device False of Inl e \<Rightarrow> Inl e | Inr (state, _) \<Rightarrow>
      if state \<notin> {PTransferring, PVerifying} then Inl (Refusal ''STATE_TRANSITION_INVALID'' (''journal append in '' @ phase_text state))
      else if at_owner a \<noteq> tx then Inl (Refusal ''EXECUTION_FENCE_LOST'' '''')
      else (case the_row s tx of Inl e \<Rightarrow> Inl e | Inr r \<Rightarrow>
        if expected \<noteq> None \<and> expected \<noteq> Some (tx_journal_seq r, tx_journal_digest r)
        then Inl (Refusal ''JOURNAL_CORRUPT'' ''journal changed outside its fenced writer'')
        else
         (let seq = tx_journal_seq r + 1;
              digest = entry_digest sha tx seq (tx_journal_digest r) event payload in
          if list_ex (\<lambda>j. jr_tx j = tx \<and> jr_seq j = seq) (st_journal s)
          then Inl (Refusal ''IntegrityError'' ''UNIQUE constraint failed: journal.tx, journal.seq'')
          else Inr ((seq, digest),
                 set_row tx (\<lambda>r. r\<lparr>tx_journal_seq := seq, tx_journal_digest := digest\<rparr>)
                   (s\<lparr>st_journal := st_journal s @
                      [\<lparr>jr_tx = tx, jr_seq = seq, jr_event = event, jr_payload = payload, jr_digest = digest\<rparr>]\<rparr>)))))"

text \<open>The verification loop of \<open>events\<close> from the expected sequence number and the last digest.\<close>

fun chain :: "(str \<Rightarrow> str) \<Rightarrow> str \<Rightarrow> nat \<Rightarrow> str \<Rightarrow> journal_row list \<Rightarrow> refusal + (str \<times> (str \<times> json) list)" where
  "chain sha tx expected previous [] = Inr (previous, [])"
| "chain sha tx expected previous (j # js) =
     (if jr_seq j \<noteq> expected \<or> jr_digest j \<noteq> entry_digest sha tx (jr_seq j) previous (jr_event j) (jr_payload j)
      then Inl (Refusal ''JOURNAL_CORRUPT'' '''')
      else (case chain sha tx (expected + 1) (jr_digest j) js of Inl e \<Rightarrow> Inl e
            | Inr (final, evs) \<Rightarrow> Inr (final, (jr_event j, jr_payload j) # evs)))"

definition rows_of :: "store \<Rightarrow> str \<Rightarrow> journal_row list" where
  "rows_of s tx = sort_key jr_seq (filter (\<lambda>j. jr_tx j = tx) (st_journal s))"

definition events :: "(str \<Rightarrow> str) \<Rightarrow> store \<Rightarrow> str \<Rightarrow> refusal + (str \<times> json) list" where
  "events sha s tx =
     (case chain sha tx 1 '''' (rows_of s tx) of Inl e \<Rightarrow> Inl e | Inr (previous, evs) \<Rightarrow>
      if head s tx \<noteq> Some (length (rows_of s tx), previous)
      then Inl (Refusal ''JOURNAL_CORRUPT'' ''journal tail differs from durable head'') else Inr evs)"

definition receipt :: "(str \<Rightarrow> str) \<Rightarrow> store \<Rightarrow> str \<Rightarrow> refusal + json option" where
  "receipt sha s tx =
     (case events sha s tx of Inl e \<Rightarrow> Inl e
      | Inr evs \<Rightarrow> Inr (map_option snd (List.find (\<lambda>e. fst e = ''receipt'') (rev evs))))"

text \<open>
  \<open>complete\<close>. Its first transaction reads the journal, which later writers only extend; a receipt
  that is JSON \<open>null\<close> counts as none. The callback that releases the process lease is assumed to
  return.
\<close>

definition complete :: "(str \<Rightarrow> str) \<Rightarrow> attempt \<Rightarrow> str \<Rightarrow> store \<Rightarrow> refusal + (unit \<times> store)" where
  "complete sha a device s =
     (case receipt sha s (at_owner a) of Inl e \<Rightarrow> Inl e | Inr rc \<Rightarrow>
      if rc = None \<or> rc = Some JNull then Inl (Refusal ''RECEIPT_MISSING'' '''')
      else (case require_attempt s a device False of Inl e \<Rightarrow> Inl e | Inr (state, _) \<Rightarrow>
        if state \<noteq> PVerifying then Inl (Refusal ''STATE_TRANSITION_INVALID'' (''completion in '' @ phase_text state))
        else Inr ((), set_row (at_owner a) (\<lambda>r. r\<lparr>tx_state := PComplete, tx_reason := ''''\<rparr>)
               (s\<lparr>st_owners := filter (\<lambda>o'. \<not> (ow_device o' = device \<and> ow_tx o' = at_owner a)) (st_owners s)\<rparr>))))"

end
