(* ===== verification/SliceProtocol.thy ===== *)
theory SliceProtocol
  imports SliceStore
begin

text \<open>
  The store of \<open>modelark/slice/state.py\<close> as a state machine. Processes run their operations in any
  order; each is one committed database transaction, and one that is refused changes nothing. The
  invariants below hold in every store that some sequence of operations reaches from the empty
  one, whatever the processes do.
\<close>

section \<open>Operations as steps\<close>

datatype store_op =
    OpCreate slice_plan slice_approval "json option" str
  | OpApprove str str
  | OpReserve str str reservation
  | OpRefuse str str reservation refusal bool
  | OpClaim str str attempt reservation
  | OpTransition attempt str phase str
  | OpStop str
  | OpAppend str str json "(nat \<times> str) option" attempt str
  | OpComplete attempt str

text \<open>\<open>COMMIT\<close> or \<open>ROLLBACK\<close>.\<close>

definition settle :: "store \<Rightarrow> refusal + ('a \<times> store) \<Rightarrow> store" where
  "settle s r = (case r of Inl _ \<Rightarrow> s | Inr x \<Rightarrow> snd x)"

definition apply_op :: "(str \<Rightarrow> str) \<Rightarrow> str \<Rightarrow> store_op \<Rightarrow> store \<Rightarrow> store" where
  "apply_op sha root x s =
     (case x of
        OpCreate plan approval admission tx \<Rightarrow> settle s (create sha root plan approval admission tx s)
      | OpApprove tx seal \<Rightarrow> settle s (approve sha tx seal s)
      | OpReserve tx device r \<Rightarrow> settle s (reserve_write sha tx device r s)
      | OpRefuse tx device r refused interrupted \<Rightarrow> settle s (refuse_preclaim tx device r refused interrupted s)
      | OpClaim tx device a r \<Rightarrow> settle s (claim sha tx device a r s)
      | OpTransition a device state reason \<Rightarrow> settle s (transition a device state reason s)
      | OpStop tx \<Rightarrow> settle s (request_stop tx s)
      | OpAppend tx event payload expected a device \<Rightarrow> settle s (append_event sha tx event payload expected a device s)
      | OpComplete a device \<Rightarrow> settle s (complete sha a device s))"

definition run_ops :: "(str \<Rightarrow> str) \<Rightarrow> str \<Rightarrow> store_op list \<Rightarrow> store \<Rightarrow> store" where
  "run_ops sha root ops s = fold (apply_op sha root) ops s"

lemma run_ops_simps [simp]:
  "run_ops sha root [] s = s"
  "run_ops sha root (x # xs) s = run_ops sha root xs (apply_op sha root x s)"
  by (simp_all add: run_ops_def)

lemma run_ops_append [simp]: "run_ops sha root (xs @ ys) s = run_ops sha root ys (run_ops sha root xs s)"
  by (simp add: run_ops_def)

lemma run_ops_invariant:
  assumes "\<And>x s. P s \<Longrightarrow> P (apply_op sha root x s)" "P s"
  shows "P (run_ops sha root ops s)"
  using assms(2) by (induction ops arbitrary: s) (simp_all add: assms(1))

lemma settle_cases: "P s \<Longrightarrow> (\<And>v s'. r = Inr (v, s') \<Longrightarrow> P s') \<Longrightarrow> P (settle s r)"
  by (cases r) (simp_all add: settle_def split_paired_all)

section \<open>What each operation does\<close>

lemma set_row_simps [simp]:
  "st_txs (set_row tx f s) t = (if t = tx then map_option f (st_txs s tx) else st_txs s t)"
  "st_owners (set_row tx f s) = st_owners s" "st_journal (set_row tx f s) = st_journal s"
  by (simp_all add: set_row_def)

lemma set_attempt_simps [simp]:
  "st_txs (set_attempt d tx t s) = st_txs s" "st_journal (set_attempt d tx t s) = st_journal s"
  by (simp_all add: set_attempt_def)

lemma set_row_cong:
  assumes "\<And>r. st_txs s tx = Some r \<Longrightarrow> f r = g r"
  shows "set_row tx f s = set_row tx g s"
proof -
  have "map_option f (st_txs s tx) = map_option g (st_txs s tx)"
    using assms by (cases "st_txs s tx") simp_all
  then show ?thesis by (simp add: set_row_def)
qed

lemma the_row_Inr [simp]: "the_row s tx = Inr r \<longleftrightarrow> st_txs s tx = Some r"
  by (auto simp: the_row_def split: option.splits)

lemma load_plan_Inr [simp]: "load_plan p = Inr q \<longleftrightarrow> p = Stored q"
  by (auto simp: load_plan_def split: stored_plan.splits)

lemma create_Inr:
  assumes "create sha root plan approval admission tx s = Inr (v, s')"
  shows "st_txs s tx = None \<and> s' = s\<lparr>st_txs := (st_txs s)(tx := Some
       \<lparr>tx_plan = Stored plan, tx_seal = plan_seal sha plan, tx_state = PReady, tx_stop = False, tx_reason = '''',
        tx_journal_seq = 0, tx_journal_digest = '''', tx_stop_serial = 0, tx_acknowledged = 0,
        tx_consumed = None, tx_admission = admission\<rparr>)\<rparr>"
  using assms by (auto simp: create_def admission_invalid_def split: if_splits sum.splits)

lemma approve_Inr:
  assumes "approve sha tx seal s = Inr (v, s')"
  shows "\<exists>r. st_txs s tx = Some r \<and> tx_state r \<in> {PReady, PApproved}
    \<and> s' = set_row tx (\<lambda>r. r\<lparr>tx_state := PApproved\<rparr>) s"
proof -
  obtain p where l: "load sha s tx = Inr p" using assms by (cases "load sha s tx") (simp_all add: approve_def)
  then obtain r where r: "st_txs s tx = Some r" by (auto simp: load_def split: option.splits)
  have st: "tx_state r \<in> {PReady, PApproved}"
    and s': "s' = set_row tx (\<lambda>r. if tx_state r = PReady then r\<lparr>tx_state := PApproved\<rparr> else r) s"
    using assms r l by (auto simp: approve_def the_row_def split: if_splits)
  have "set_row tx (\<lambda>r. if tx_state r = PReady then r\<lparr>tx_state := PApproved\<rparr> else r) s = set_row tx (\<lambda>r. r\<lparr>tx_state := PApproved\<rparr>) s"
    by (rule set_row_cong) (use st r in auto)
  with r st s' show ?thesis by blast
qed

lemma inspect_Inr:
  assumes "inspect sha tx device s = Inr (Inr (owned, rs))"
  obtains r p where "st_txs s tx = Some r" "tx_plan r = Stored p" "tx_seal r = plan_seal sha p" "device_id sha p = device"
    "conflict sha s tx p = Inr ()" "tx_state r \<in> RESUMABLE_STATES" "owned \<longleftrightarrow> owner_of s device \<noteq> None"
    "\<And>o'. owner_of s device = Some o' \<Longrightarrow> ow_tx o' = tx"
    "rs = \<lparr>rs_state = tx_state r, rs_serial = tx_stop_serial r, rs_acknowledged = tx_acknowledged r\<rparr>"
  using assms that
  by (auto simp: inspect_def the_row_def load_plan_def split: option.splits stored_plan.splits if_splits sum.splits)

lemma owner_of_None: "owner_of s d = None \<longleftrightarrow> (\<forall>o' \<in> set (st_owners s). ow_device o' \<noteq> d)"
  by (auto simp: owner_of_def find_None_iff)

lemma owner_of_Some: "owner_of s d = Some o' \<Longrightarrow> o' \<in> set (st_owners s) \<and> ow_device o' = d"
  unfolding owner_of_def by (drule find_SomeD) simp

lemma reserve_write_Inr:
  assumes "reserve_write sha tx device rs s = Inr (v, s')"
  obtains "s' = s"
  | r p where "st_txs s tx = Some r" "tx_plan r = Stored p" "tx_seal r = plan_seal sha p" "device_id sha p = device"
      "conflict sha s tx p = Inr ()" "tx_state r \<in> RESUMABLE_STATES" "owner_of s device = None" "v = Inr rs"
      "s' = set_row tx (\<lambda>r. r\<lparr>tx_state := PStarting, tx_reason := ''''\<rparr>)
         (if list_ex (\<lambda>o'. ow_tx o' = tx) (st_owners s) then s
          else s\<lparr>st_owners := st_owners s @ [\<lparr>ow_device = device, ow_tx = tx, ow_attempt = None\<rparr>]\<rparr>)"
proof (cases "inspect sha tx device s")
  case (Inl e)
  with assms show thesis by (simp add: reserve_write_def)
next
  case (Inr x)
  show thesis
  proof (cases x)
    case (Inl st)
    with Inr assms show thesis by (intro that(1)) (simp add: reserve_write_def)
  next
    case (Inr y)
    obtain owned cur where y: "y = (owned, cur)" by (cases y)
    have i: "inspect sha tx device s = Inr (Inr (owned, cur))" using \<open>inspect sha tx device s = Inr x\<close> Inr y by simp
    show thesis
    proof (rule inspect_Inr [OF i])
      fix r p
      assume r: "st_txs s tx = Some r" "tx_plan r = Stored p" "tx_seal r = plan_seal sha p" "device_id sha p = device"
        "conflict sha s tx p = Inr ()" "tx_state r \<in> RESUMABLE_STATES" and o: "owned \<longleftrightarrow> owner_of s device \<noteq> None"
      show thesis
      proof (cases owned)
        case True
        with o have "list_ex (\<lambda>o'. ow_device o' = device \<or> ow_tx o' = tx) (st_owners s)"
          by (auto simp: owner_of_None list_ex_iff)
        with assms i True have "s' = s" by (simp add: reserve_write_def)
        then show thesis by (rule that(1))
      next
        case False
        with o have n: "owner_of s device = None" by simp
        then have "list_ex (\<lambda>o'. ow_device o' = device \<or> ow_tx o' = tx) (st_owners s) = list_ex (\<lambda>o'. ow_tx o' = tx) (st_owners s)"
          by (auto simp: owner_of_None list_ex_iff)
        with assms i False show thesis by (intro that(2) [OF r n]) (simp_all add: reserve_write_def Let_def)
      qed
    qed
  qed
qed

text \<open>A change of one row that keeps its plan, its seal and its journal head.\<close>

definition row_frame :: "tx_row \<Rightarrow> tx_row \<Rightarrow> bool" where
  "row_frame r r' \<longleftrightarrow> tx_plan r' = tx_plan r \<and> tx_seal r' = tx_seal r \<and> tx_journal_seq r' = tx_journal_seq r
    \<and> tx_journal_digest r' = tx_journal_digest r \<and> tx_admission r' = tx_admission r"

lemma refuse_preclaim_Inr:
  assumes "refuse_preclaim tx device rs refused interrupted s = Inr (v, s')"
  obtains r and f :: "tx_row \<Rightarrow> tx_row" where "owner s device = Some tx" "st_txs s tx = Some r" "tx_state r \<in> RESUMABLE_STATES"
    "s' = set_row tx f s" "row_frame r (f r)" "tx_consumed (f r) = tx_consumed r"
    "tx_state (f r) \<in> OUTCOMES" "tx_stop_serial r \<le> tx_stop_serial (f r)"
    "tx_stop r \<and> \<not> tx_stop (f r) \<Longrightarrow> resumes_row rs r"
    "tx_stop (f r) \<longrightarrow> tx_acknowledged (f r) = tx_stop_serial (f r)"
    "\<not> tx_stop (f r) \<longrightarrow> tx_stop_serial (f r) = tx_stop_serial r \<and> tx_acknowledged (f r) = tx_acknowledged r"
    "v = Status tx (tx_state (f r)) (tx_reason (f r))"
proof -
  have o: "owner s device = Some tx"
    using assms by (rule contrapos_pp) (simp add: refuse_preclaim_def)
  obtain r where r: "st_txs s tx = Some r"
    using assms o by (cases "st_txs s tx") (simp_all add: refuse_preclaim_def the_row_def)
  have st: "tx_state r \<in> RESUMABLE_STATES"
    using assms by (rule contrapos_pp) (simp add: refuse_preclaim_def the_row_def o r)
  define pending where "pending = (tx_stop r \<and> \<not> resumes_row rs r)"
  define serial where "serial = (if interrupted \<and> \<not> pending then tx_stop_serial r + 1 else tx_stop_serial r)"
  define f :: "tx_row \<Rightarrow> tx_row" where "f = (if pending \<or> interrupted \<or> refusal_code refused = ''STOPPED''
    then (\<lambda>r. r\<lparr>tx_state := PStopped, tx_reason := ''STOPPED'', tx_stop := True, tx_stop_serial := serial, tx_acknowledged := serial\<rparr>)
    else (\<lambda>r. r\<lparr>tx_state := refusal_state (refusal_code refused), tx_reason := refusal_text refused, tx_stop := False\<rparr>))"
  have eq: "refuse_preclaim tx device rs refused interrupted s =
     (if owner s device \<noteq> Some tx then Inl (Refusal ''EXECUTION_FENCE_LOST'' '''')
      else if tx_state r \<notin> RESUMABLE_STATES then Inl (Refusal ''NOT_RESUMABLE'' (phase_text (tx_state r)))
      else Inr (Status tx (tx_state (f r)) (tx_reason (f r)), set_row tx f s))"
    unfolding refuse_preclaim_def the_row_def r option.case sum.case Let_def
      pending_def [symmetric] serial_def [symmetric] f_def by simp
  have "v = Status tx (tx_state (f r)) (tx_reason (f r)) \<and> s' = set_row tx f s"
    using assms o st unfolding eq by simp
  moreover have "tx_state (f r) \<in> OUTCOMES"
    using refusal_state_outcome [of "refusal_code refused"] by (simp add: f_def OUTCOMES_def)
  moreover have "tx_stop_serial r \<le> tx_stop_serial (f r)" by (simp add: f_def serial_def)
  moreover have "resumes_row rs r" if "tx_stop r \<and> \<not> tx_stop (f r)"
    using that by (simp add: f_def pending_def split: if_splits)
  moreover have "tx_stop (f r) \<longrightarrow> tx_acknowledged (f r) = tx_stop_serial (f r)" by (simp add: f_def)
  moreover have "\<not> tx_stop (f r) \<longrightarrow> tx_stop_serial (f r) = tx_stop_serial r \<and> tx_acknowledged (f r) = tx_acknowledged r"
    by (simp add: f_def)
  moreover have "row_frame r (f r)" "tx_consumed (f r) = tx_consumed r" by (simp_all add: f_def row_frame_def)
  ultimately show thesis using that [OF o r st] by blast
qed

lemma claim_Inr:
  assumes "claim sha tx device a rs s = Inr (v, s')"
  obtains (complete) "s' = s" "v = Status tx PComplete ''''" "\<exists>r. st_txs s tx = Some r \<and> tx_state r = PComplete"
  | (stopped) r p where "owner s device = Some tx" "at_owner a = tx" "st_txs s tx = Some r" "tx_state r \<in> RESUMABLE_STATES"
      "tx_plan r = Stored p" "\<not> spent p r"
      "tx_stop r \<and> \<not> resumes_row rs r" "v = Status tx PStopped ''STOPPED''"
      "s' = set_row tx (\<lambda>r. r\<lparr>tx_state := PStopped, tx_reason := ''STOPPED'', tx_acknowledged := tx_stop_serial r\<rparr>)
         (set_attempt device tx (at_token a) s)"
  | (starting) r p where "owner s device = Some tx" "at_owner a = tx" "st_txs s tx = Some r" "tx_state r \<in> RESUMABLE_STATES"
      "tx_plan r = Stored p" "\<not> spent p r"
      "\<not> (tx_stop r \<and> \<not> resumes_row rs r)" "v = Status tx PStarting ''''"
      "s' = set_row tx (\<lambda>r. r\<lparr>tx_consumed := (if session_only p then Some (at_token a) else tx_consumed r),
                              tx_state := PStarting, tx_reason := '''', tx_stop := False\<rparr>)
         (set_attempt device tx (at_token a) s)"
proof -
  obtain r where r: "st_txs s tx = Some r"
    using assms by (cases "st_txs s tx") (simp_all add: claim_def the_row_def)
  show thesis
  proof (cases "tx_state r = PComplete")
    case True
    with assms r show thesis by (intro that(1)) (simp_all add: claim_def the_row_def)
  next
    case nc: False
    have st: "tx_state r \<in> RESUMABLE_STATES"
      using assms by (rule contrapos_pp) (simp add: claim_def the_row_def r nc)
    have o: "owner s device = Some tx \<and> at_owner a = tx"
      using assms by (rule contrapos_pp) (simp add: claim_def the_row_def r nc st)
    obtain p where p: "load_plan (tx_plan r) = Inr p"
      using assms r nc st o by (cases "load_plan (tx_plan r)") (simp_all add: claim_def the_row_def)
    have d: "\<not> (plan_seal sha p \<noteq> tx_seal r \<or> device_id sha p \<noteq> device)"
      using assms by (rule contrapos_pn) (simp add: claim_def the_row_def r nc st o p)
    have c: "\<not> spent p r"
      using assms by (rule contrapos_pn) (use d in \<open>simp add: claim_def the_row_def r nc st o p\<close>)
    note fs = o [THEN conjunct1] o [THEN conjunct2] r st p [unfolded load_plan_Inr] c
    show thesis
    proof (cases "tx_stop r \<and> \<not> resumes_row rs r")
      case True
      show thesis
        by (rule that(2) [OF fs True]) (use assms nc st o p d c True r in \<open>simp_all add: claim_def the_row_def Let_def\<close>)
    next
      case False
      show thesis
        by (rule that(3) [OF fs False]) (use assms nc st o p d c False r in \<open>auto simp: claim_def the_row_def Let_def\<close>)
    qed
  qed
qed

lemma require_attempt_Inr:
  assumes "require_attempt s a device allow = Inr (state, stopped)"
  obtains r o' where "st_txs s (at_owner a) = Some r" "state = tx_state r" "stopped = tx_stop r" "tx_state r \<in> RUNNING_STATES"
    "owner_of s device = Some o'" "ow_tx o' = at_owner a" "ow_attempt o' = Some (at_token a)" "allow \<or> \<not> tx_stop r"
  using assms that
  by (auto simp: require_attempt_def require_current_Inr owner_def split: option.splits sum.splits authority_lost.splits if_splits)

lemma transition_Inr:
  assumes "transition a device state reason s = Inr (v, s')"
  obtains r o' state' reason' allowed where "st_txs s (at_owner a) = Some r" "tx_state r \<in> RUNNING_STATES"
    "owner_of s device = Some o'" "ow_tx o' = at_owner a" "ow_attempt o' = Some (at_token a)"
    "TRANSITIONS (tx_state r) = Some allowed" "state' \<in> allowed"
    "state' = (if tx_stop r \<and> state \<notin> {PFailed, PInvalidated} then PStopped else state)"
    "v = Status (at_owner a) state' reason'"
    "s' = set_row (at_owner a) (\<lambda>r. r\<lparr>tx_state := state', tx_reason := reason',
            tx_acknowledged := (if state' = PStopped then tx_stop_serial r else tx_acknowledged r)\<rparr>) s"
proof -
  have st: "state \<in> RUNNING_STATES \<union> {PFailed, PInvalidated}"
    using assms by (rule contrapos_pp) (simp add: transition_def)
  obtain cur stp where q: "require_attempt s a device True = Inr (cur, stp)"
    using assms st by (cases "require_attempt s a device True") (auto simp: transition_def)
  show thesis
  proof (rule require_attempt_Inr [OF q])
    fix r o'
    assume r: "st_txs s (at_owner a) = Some r" "tx_state r \<in> RUNNING_STATES" "owner_of s device = Some o'"
      "ow_tx o' = at_owner a" "ow_attempt o' = Some (at_token a)" and c: "cur = tx_state r" "stp = tx_stop r"
    define state' where "state' = (if tx_stop r \<and> state \<notin> {PFailed, PInvalidated} then PStopped else state)"
    define reason' where "reason' = (if tx_stop r \<and> state \<notin> {PFailed, PInvalidated} then ''STOPPED'' else reason)"
    from r(2) transitions_running [of "tx_state r"] obtain allowed where al: "TRANSITIONS (tx_state r) = Some allowed"
      by auto
    have eq: "transition a device state reason s =
      (if state \<notin> RUNNING_STATES \<union> {PFailed, PInvalidated} then Inl (Refusal ''STATE_TRANSITION_INVALID'' (phase_text state))
       else if state' \<notin> allowed then Inl (Refusal ''STATE_TRANSITION_INVALID'' (phase_text (tx_state r) @ '' -> '' @ phase_text state'))
       else Inr (Status (at_owner a) state' reason', set_row (at_owner a) (\<lambda>r. r\<lparr>tx_state := state', tx_reason := reason',
            tx_acknowledged := (if state' = PStopped then tx_stop_serial r else tx_acknowledged r)\<rparr>) s))"
      unfolding transition_def q c sum.case prod.case Let_def al option.case state'_def reason'_def by (rule refl)
    have al': "state' \<in> allowed"
      using assms st unfolding eq by (auto split: if_splits)
    have "v = Status (at_owner a) state' reason'"
      "s' = set_row (at_owner a) (\<lambda>r. r\<lparr>tx_state := state', tx_reason := reason',
            tx_acknowledged := (if state' = PStopped then tx_stop_serial r else tx_acknowledged r)\<rparr>) s"
      using assms st al' unfolding eq by (auto split: if_splits)
    then show thesis by (rule that [OF r al al' state'_def])
  qed
qed

lemma append_event_Inr:
  assumes "append_event sha tx event payload expected a device s = Inr (v, s')"
  obtains r o' where "st_txs s tx = Some r" "at_owner a = tx" "tx_state r \<in> {PTransferring, PVerifying}" "\<not> tx_stop r"
    "owner_of s device = Some o'" "ow_tx o' = tx" "ow_attempt o' = Some (at_token a)"
    "expected = None \<or> expected = Some (tx_journal_seq r, tx_journal_digest r)"
    "v = (tx_journal_seq r + 1, entry_digest sha tx (tx_journal_seq r + 1) (tx_journal_digest r) event payload)"
    "s' = set_row tx (\<lambda>r. r\<lparr>tx_journal_seq := fst v, tx_journal_digest := snd v\<rparr>)
       (s\<lparr>st_journal := st_journal s @ [\<lparr>jr_tx = tx, jr_seq = fst v, jr_event = event, jr_payload = payload, jr_digest = snd v\<rparr>]\<rparr>)"
proof -
  obtain cur stp where q: "require_attempt s a device False = Inr (cur, stp)"
    using assms by (cases "require_attempt s a device False") (auto simp: append_event_def)
  show thesis
  proof (rule require_attempt_Inr [OF q])
    fix r o'
    assume r: "st_txs s (at_owner a) = Some r" "owner_of s device = Some o'" "ow_tx o' = at_owner a"
      "ow_attempt o' = Some (at_token a)" "False \<or> \<not> tx_stop r" and c: "cur = tx_state r"
    have st: "tx_state r \<in> {PTransferring, PVerifying}"
      using assms by (rule contrapos_pp) (simp add: append_event_def q c)
    have tx: "at_owner a = tx"
      using assms by (rule contrapos_pp) (use st in \<open>auto simp: append_event_def q c\<close>)
    have row: "the_row s tx = Inr r" using r(1) tx by simp
    have ex: "\<not> (expected \<noteq> None \<and> expected \<noteq> Some (tx_journal_seq r, tx_journal_digest r))"
      using assms by (rule contrapos_pn) (use st tx in \<open>auto simp: append_event_def q c row\<close>)
    then have ex': "expected = None \<or> expected = Some (tx_journal_seq r, tx_journal_digest r)" by blast
    have v: "v = (tx_journal_seq r + 1, entry_digest sha tx (tx_journal_seq r + 1) (tx_journal_digest r) event payload)
      \<and> s' = set_row tx (\<lambda>r. r\<lparr>tx_journal_seq := fst v, tx_journal_digest := snd v\<rparr>)
       (s\<lparr>st_journal := st_journal s @ [\<lparr>jr_tx = tx, jr_seq = fst v, jr_event = event, jr_payload = payload, jr_digest = snd v\<rparr>]\<rparr>)"
      using assms st tx ex by (auto simp: append_event_def q c row Let_def split: if_splits)
    show thesis
      by (rule that [of r o', OF _ tx st _ _ _ _ ex' v [THEN conjunct1] v [THEN conjunct2]]) (use r tx in simp_all)
  qed
qed

lemma complete_Inr:
  assumes "complete sha a device s = Inr (v, s')"
  obtains r o' rc where "receipt sha s (at_owner a) = Inr (Some rc)" "st_txs s (at_owner a) = Some r" "tx_state r = PVerifying"
    "\<not> tx_stop r" "owner_of s device = Some o'" "ow_tx o' = at_owner a" "ow_attempt o' = Some (at_token a)"
    "s' = set_row (at_owner a) (\<lambda>r. r\<lparr>tx_state := PComplete, tx_reason := ''''\<rparr>)
       (s\<lparr>st_owners := filter (\<lambda>o'. \<not> (ow_device o' = device \<and> ow_tx o' = at_owner a)) (st_owners s)\<rparr>)"
proof -
  obtain rc where rc: "receipt sha s (at_owner a) = Inr (Some rc)" and nn: "rc \<noteq> JNull"
    using assms by (auto simp: complete_def split: sum.splits if_splits)
  obtain cur stp where q: "require_attempt s a device False = Inr (cur, stp)"
    using assms rc nn by (cases "require_attempt s a device False") (auto simp: complete_def)
  show thesis
  proof (rule require_attempt_Inr [OF q])
    fix r o'
    assume r: "st_txs s (at_owner a) = Some r" "owner_of s device = Some o'" "ow_tx o' = at_owner a"
      "ow_attempt o' = Some (at_token a)" "False \<or> \<not> tx_stop r" and c: "cur = tx_state r"
    have st: "tx_state r = PVerifying"
      using assms by (rule contrapos_pp) (simp add: complete_def rc nn q c)
    show thesis
      by (rule that [OF rc r(1) st]) (use assms st r in \<open>auto simp: complete_def rc nn q c\<close>)
  qed
qed

end
