(* ===== verification/SliceClaims.thy ===== *)
theory SliceClaims
  imports SliceProtocol
begin

text \<open>
  Exclusive claims. In every reachable store the plans that own a destination are pairwise
  disjoint, each owner row belongs to an existing transaction that has been started and has not
  completed, and every such transaction holds its claim, failed ones included.
\<close>

section \<open>Overlap is symmetric\<close>

lemma claims_overlap_sym: "claims_overlap p q = claims_overlap q p"
proof (cases p; cases q)
  fix a b
  assume pq: "p = Folder a" "q = Folder b"
  show ?thesis
  proof (cases "np_root a"; cases "np_root b")
    fix t u
    assume "np_root a = NativeRoot t" "np_root b = NativeRoot u"
    then show ?thesis by (simp add: pq overlaps_sym)
  qed (auto simp: pq common_parts_sym eq_commute)
qed (auto simp: eq_commute)

section \<open>The view of a store that claims depend on\<close>

definition plan_at :: "store \<Rightarrow> str \<Rightarrow> slice_plan option" where
  "plan_at s tx = (case st_txs s tx of None \<Rightarrow> None | Some r \<Rightarrow>
     (case tx_plan r of Stored p \<Rightarrow> Some p | Undecodable _ \<Rightarrow> None))"

definition phase_at :: "store \<Rightarrow> str \<Rightarrow> phase option" where
  "phase_at s tx = map_option tx_state (st_txs s tx)"

definition idle :: "phase \<Rightarrow> bool" where
  "idle p \<longleftrightarrow> p \<in> {PReady, PApproved, PComplete}"

definition claim_keys :: "store \<Rightarrow> (str \<times> str) list" where
  "claim_keys s = map (\<lambda>o'. (ow_device o', ow_tx o')) (st_owners s)"

fun disjoint_plans :: "slice_plan option \<Rightarrow> slice_plan option \<Rightarrow> bool" where
  "disjoint_plans (Some p) (Some q) = (claims_overlap p q = Inr False)"
| "disjoint_plans _ _ = False"

lemma disjoint_plans_sym: "disjoint_plans a b = disjoint_plans b a"
  by (cases a; cases b) (simp_all add: claims_overlap_sym)

definition sealed_rows :: "(str \<Rightarrow> str) \<Rightarrow> store \<Rightarrow> bool" where
  "sealed_rows sha s \<longleftrightarrow> (\<forall>tx r. st_txs s tx = Some r \<longrightarrow> (\<exists>p. tx_plan r = Stored p \<and> tx_seal r = plan_seal sha p))"

definition owners_started :: "(str \<Rightarrow> str) \<Rightarrow> store \<Rightarrow> bool" where
  "owners_started sha s \<longleftrightarrow> (\<forall>k \<in> set (claim_keys s). \<exists>p q. plan_at s (snd k) = Some p \<and> device_id sha p = fst k
     \<and> phase_at s (snd k) = Some q \<and> \<not> idle q)"

definition started_owned :: "store \<Rightarrow> bool" where
  "started_owned s \<longleftrightarrow> (\<forall>tx q. phase_at s tx = Some q \<and> \<not> idle q \<longrightarrow> tx \<in> snd ` set (claim_keys s))"

definition owners_apart :: "store \<Rightarrow> bool" where
  "owners_apart s \<longleftrightarrow> (\<forall>k \<in> set (claim_keys s). \<forall>l \<in> set (claim_keys s).
     snd k \<noteq> snd l \<longrightarrow> disjoint_plans (plan_at s (snd k)) (plan_at s (snd l)))"

definition keys_distinct :: "store \<Rightarrow> bool" where
  "keys_distinct s \<longleftrightarrow> distinct (map fst (claim_keys s)) \<and> distinct (map snd (claim_keys s))"

definition claims_ok :: "(str \<Rightarrow> str) \<Rightarrow> store \<Rightarrow> bool" where
  "claims_ok sha s \<longleftrightarrow> sealed_rows sha s \<and> keys_distinct s \<and> owners_started sha s \<and> started_owned s \<and> owners_apart s"

lemmas claims_defs = claims_ok_def sealed_rows_def keys_distinct_def owners_started_def started_owned_def owners_apart_def

lemma claim_keys_simps [simp]:
  "claim_keys (set_row tx f s) = claim_keys s" "claim_keys (set_attempt d tx t s) = claim_keys s"
  "claim_keys (s\<lparr>st_txs := x\<rparr>) = claim_keys s" "claim_keys (s\<lparr>st_journal := j\<rparr>) = claim_keys s"
  by (auto simp: claim_keys_def set_attempt_def)

lemma view_attempt [simp]:
  "plan_at (set_attempt d tx t s) = plan_at s" "phase_at (set_attempt d tx t s) = phase_at s"
  "plan_at (s\<lparr>st_journal := j\<rparr>) = plan_at s" "phase_at (s\<lparr>st_journal := j\<rparr>) = phase_at s"
  "plan_at (s\<lparr>st_owners := w\<rparr>) = plan_at s" "phase_at (s\<lparr>st_owners := w\<rparr>) = phase_at s"
  "sealed_rows sha (set_attempt d tx t s) = sealed_rows sha s"
  "sealed_rows sha (s\<lparr>st_journal := j\<rparr>) = sealed_rows sha s" "sealed_rows sha (s\<lparr>st_owners := w\<rparr>) = sealed_rows sha s"
  by (simp_all add: plan_at_def phase_at_def sealed_rows_def fun_eq_iff)

lemma phase_set_row: "phase_at (set_row tx f s) t = (if t = tx then map_option (\<lambda>r. tx_state (f r)) (st_txs s tx) else phase_at s t)"
  by (simp add: phase_at_def option.map_comp comp_def)

lemma plan_set_row:
  assumes "\<And>r. st_txs s tx = Some r \<Longrightarrow> tx_plan (f r) = tx_plan r"
  shows "plan_at (set_row tx f s) = plan_at s"
proof
  fix t
  show "plan_at (set_row tx f s) t = plan_at s t"
    using assms by (cases "st_txs s tx") (simp_all add: plan_at_def)
qed

lemma sealed_set_row:
  assumes "sealed_rows sha s" "\<And>r. st_txs s tx = Some r \<Longrightarrow> tx_plan (f r) = tx_plan r \<and> tx_seal (f r) = tx_seal r"
  shows "sealed_rows sha (set_row tx f s)"
  using assms unfolding sealed_rows_def by (auto split: if_splits)

text \<open>Changing a row without moving it into or out of the started states keeps the claims.\<close>

lemma claims_set_row:
  assumes ok: "claims_ok sha s"
    and f: "\<And>r. st_txs s tx = Some r \<Longrightarrow> tx_plan (f r) = tx_plan r \<and> tx_seal (f r) = tx_seal r
      \<and> (idle (tx_state (f r)) \<longleftrightarrow> idle (tx_state r))"
  shows "claims_ok sha (set_row tx f s)"
proof -
  have plan: "plan_at (set_row tx f s) = plan_at s" using f by (intro plan_set_row) simp
  have phase: "(\<exists>q. phase_at (set_row tx f s) t = Some q \<and> \<not> idle q) \<longleftrightarrow> (\<exists>q. phase_at s t = Some q \<and> \<not> idle q)" for t
    using f by (cases "st_txs s tx") (auto simp: phase_set_row phase_at_def)
  have "owners_started sha (set_row tx f s)"
    using ok phase unfolding claims_ok_def owners_started_def plan by (simp del: phase_set_row)
  moreover have "started_owned (set_row tx f s)"
    using ok phase unfolding claims_ok_def started_owned_def by (simp del: phase_set_row)
  moreover have "sealed_rows sha (set_row tx f s)"
    using ok f by (intro sealed_set_row) (simp_all add: claims_ok_def)
  ultimately show ?thesis
    using ok unfolding claims_ok_def keys_distinct_def owners_apart_def plan by simp
qed

lemma claims_attempt: "claims_ok sha (set_attempt d tx t s) = claims_ok sha s"
  by (simp add: claims_defs)

lemma claims_journal: "claims_ok sha (s\<lparr>st_journal := j\<rparr>) = claims_ok sha s"
  by (simp add: claims_defs)

lemma owner_key: "owner s d = Some tx \<Longrightarrow> (d, tx) \<in> set (claim_keys s)"
  by (auto simp: owner_def claim_keys_def dest!: owner_of_Some)

lemma owner_not_idle:
  assumes "claims_ok sha s" "owner s d = Some tx" "st_txs s tx = Some r"
  shows "\<not> idle (tx_state r)"
  using assms(1,3) owner_key [OF assms(2)] by (force simp: claims_ok_def owners_started_def phase_at_def)

lemma claims_create:
  assumes ok: "claims_ok sha s" and new: "st_txs s tx = None" and r: "tx_plan r = Stored p" "tx_seal r = plan_seal sha p" "tx_state r = PReady"
  shows "claims_ok sha (s\<lparr>st_txs := (st_txs s)(tx := Some r)\<rparr>)"
proof -
  let ?s = "s\<lparr>st_txs := (st_txs s)(tx := Some r)\<rparr>"
  have ne: "snd k \<noteq> tx" if "k \<in> set (claim_keys s)" for k
    using ok that new by (auto simp: claims_ok_def owners_started_def plan_at_def split: option.splits)
  have plan: "plan_at ?s t = plan_at s t" "phase_at ?s t = phase_at s t" if "t \<noteq> tx" for t
    using that by (simp_all add: plan_at_def phase_at_def)
  have "sealed_rows sha ?s" using ok r by (simp add: claims_ok_def sealed_rows_def)
  moreover have "owners_started sha ?s"
    using ok ne plan by (simp add: claims_ok_def owners_started_def)
  moreover have "started_owned ?s"
    using ok plan r by (auto simp: claims_ok_def started_owned_def phase_at_def idle_def split: if_splits)
  moreover have "owners_apart ?s"
    using ok ne plan by (simp add: claims_ok_def owners_apart_def)
  ultimately show ?thesis using ok by (simp add: claims_ok_def keys_distinct_def)
qed

lemma conflict_Inr:
  assumes "conflict sha s tx p = Inr ()" "k \<in> set (claim_keys s)" "snd k \<noteq> tx" "plan_at s (snd k) = Some q"
  shows "claims_overlap p q = Inr False"
proof -
  from assms(2) obtain o' where o: "o' \<in> set (st_owners s)" "k = (ow_device o', ow_tx o')" by (auto simp: claim_keys_def)
  let ?f = "\<lambda>o'. case st_txs s (ow_tx o') of
              None \<Rightarrow> Inr ()
            | Some r \<Rightarrow>
                (case load_plan (tx_plan r) of Inl e \<Rightarrow> Inl e | Inr other \<Rightarrow>
                 if plan_seal sha other \<noteq> tx_seal r then Inl (Refusal ''STATE_CORRUPT'' ''existing claim has a corrupt plan'')
                 else (case claims_overlap p other of Inl e \<Rightarrow> Inl e
                       | Inr b \<Rightarrow> if b then Inl (Refusal ''DESTINATION_BUSY'' (ow_tx o')) else Inr ()))"
  obtain us where us: "try_map ?f (filter (\<lambda>o'. ow_tx o' \<noteq> tx) (st_owners s)) = Inr us"
    using assms(1) unfolding conflict_def by (cases "try_map ?f (filter (\<lambda>o'. ow_tx o' \<noteq> tx) (st_owners s))") simp_all
  obtain u where u: "?f o' = Inr u"
    using try_map_total_inv [OF us, of o'] o assms(3) by auto
  from assms(4) o obtain r where r: "st_txs s (ow_tx o') = Some r" "tx_plan r = Stored q"
    by (auto simp: plan_at_def split: option.splits stored_plan.splits)
  with u show ?thesis by (auto simp: load_plan_def split: if_splits sum.splits)
qed

lemma claims_reserve:
  assumes ok: "claims_ok sha s" and r: "st_txs s tx = Some r" "tx_plan r = Stored p" "device_id sha p = device"
    and free: "conflict sha s tx p = Inr ()" "owner_of s device = None" and st: "tx_state r \<in> RESUMABLE_STATES"
  shows "\<not> list_ex (\<lambda>o'. ow_tx o' = tx) (st_owners s)"
    and "claims_ok sha (set_row tx (\<lambda>r. r\<lparr>tx_state := PStarting, tx_reason := ''''\<rparr>)
      (s\<lparr>st_owners := st_owners s @ [\<lparr>ow_device = device, ow_tx = tx, ow_attempt = None\<rparr>]\<rparr>))" (is "claims_ok sha ?s")
proof -
  have pl: "plan_at s tx = Some p" using r by (simp add: plan_at_def)
  have nodev: "device \<notin> fst ` set (claim_keys s)"
    using free(2) by (auto simp: owner_of_None claim_keys_def)
  have notx: "tx \<notin> snd ` set (claim_keys s)"
  proof
    assume "tx \<in> snd ` set (claim_keys s)"
    then obtain k where "k \<in> set (claim_keys s)" "snd k = tx" by auto
    with ok pl r(3) have "fst k = device" "k \<in> set (claim_keys s)" by (auto simp: claims_ok_def owners_started_def)
    with nodev show False by force
  qed
  then show "\<not> list_ex (\<lambda>o'. ow_tx o' = tx) (st_owners s)" by (force simp: list_ex_iff claim_keys_def)
  have keys: "claim_keys ?s = claim_keys s @ [(device, tx)]" by (simp add: claim_keys_def)
  have plan: "plan_at ?s = plan_at s" by (subst plan_set_row) simp_all
  have phase: "phase_at ?s t = (if t = tx then Some PStarting else phase_at s t)" for t
    using r(1) by (simp add: phase_set_row)
  have "sealed_rows sha ?s" using ok by (intro sealed_set_row) (simp_all add: claims_ok_def)
  moreover have "keys_distinct ?s"
    using ok nodev notx unfolding claims_ok_def keys_distinct_def keys by simp
  moreover have "owners_started sha ?s"
    using ok pl r(3) unfolding claims_ok_def owners_started_def keys plan phase by (auto simp: idle_def)
  moreover have "started_owned ?s"
    using ok unfolding claims_ok_def started_owned_def keys phase by auto
  moreover have "owners_apart ?s"
  proof -
    have new: "disjoint_plans (Some p) (plan_at s (snd k))" if k: "k \<in> set (claim_keys s)" for k
    proof -
      from ok k obtain q where q: "plan_at s (snd k) = Some q" by (auto simp: claims_ok_def owners_started_def)
      have "snd k \<noteq> tx" using notx k by auto
      with conflict_Inr [OF free(1) k _ q] q show ?thesis by simp
    qed
    then have "disjoint_plans (plan_at s (snd k)) (Some p)" if "k \<in> set (claim_keys s)" for k
      using that disjoint_plans_sym by blast
    with new ok show ?thesis
      unfolding claims_ok_def owners_apart_def keys plan by (auto simp: pl)
  qed
  ultimately show "claims_ok sha ?s" by (simp add: claims_ok_def)
qed

lemma claims_complete:
  assumes ok: "claims_ok sha s" and r: "st_txs s tx = Some r" and o: "owner_of s device = Some o'" "ow_tx o' = tx"
  shows "claims_ok sha (set_row tx (\<lambda>r. r\<lparr>tx_state := PComplete, tx_reason := ''''\<rparr>)
       (s\<lparr>st_owners := filter (\<lambda>o'. \<not> (ow_device o' = device \<and> ow_tx o' = tx)) (st_owners s)\<rparr>))" (is "claims_ok sha ?s")
proof -
  have dtx: "(device, tx) \<in> set (claim_keys s)"
    using o by (intro owner_key) (simp add: owner_def)
  have keys: "claim_keys ?s = filter (\<lambda>k. k \<noteq> (device, tx)) (claim_keys s)"
    by (simp add: claim_keys_def filter_map comp_def)
  have only: "k = (device, tx)" if "k \<in> set (claim_keys s)" "snd k = tx" for k
  proof -
    have "inj_on snd (set (claim_keys s))" using ok by (simp add: claims_ok_def keys_distinct_def distinct_map)
    from inj_onD [OF this, of k "(device, tx)"] that dtx show ?thesis by simp
  qed
  have plan: "plan_at ?s = plan_at s" by (subst plan_set_row) simp_all
  have phase: "phase_at ?s t = (if t = tx then Some PComplete else phase_at s t)" for t
    using r by (simp add: phase_set_row)
  have "sealed_rows sha ?s" using ok by (intro sealed_set_row) (simp_all add: claims_ok_def)
  moreover have "keys_distinct ?s"
    using ok unfolding claims_ok_def keys_distinct_def keys by (simp add: distinct_map_filter)
  moreover have "owners_started sha ?s"
    using ok only unfolding claims_ok_def owners_started_def keys plan phase by auto
  moreover have "started_owned ?s"
    unfolding started_owned_def
  proof (intro allI impI)
    fix t q
    assume q: "phase_at ?s t = Some q \<and> \<not> idle q"
    then have t: "t \<noteq> tx" unfolding phase by (auto simp: idle_def)
    from ok have own: "started_owned s" by (simp add: claims_ok_def)
    from q t have "phase_at s t = Some q \<and> \<not> idle q" unfolding phase by simp
    with own obtain k where "k \<in> set (claim_keys s)" "snd k = t"
      unfolding started_owned_def by blast
    with t have "k \<in> set (claim_keys ?s)" unfolding keys by auto
    with \<open>snd k = t\<close> show "t \<in> snd ` set (claim_keys ?s)" by blast
  qed
  moreover have "owners_apart ?s"
    using ok unfolding claims_ok_def owners_apart_def keys plan by simp
  ultimately show ?thesis by (simp add: claims_ok_def)
qed

section \<open>Every operation keeps the claims\<close>

lemma running_not_idle: "p \<in> RUNNING_STATES \<Longrightarrow> \<not> idle p"
  by (auto simp: running_iff idle_def)

lemma outcome_not_idle: "p \<in> OUTCOMES \<Longrightarrow> \<not> idle p"
  by (auto simp: OUTCOMES_def idle_def)

lemma transition_not_idle: "TRANSITIONS p = Some ts \<Longrightarrow> q \<in> ts \<Longrightarrow> \<not> idle q"
  using transitions_target [of p ts q] by (auto simp: idle_def)

lemma claims_step:
  assumes ok: "claims_ok sha s"
  shows "claims_ok sha (apply_op sha root x s)"
proof (cases x)
  case (OpCreate plan approval admission tx)
  show ?thesis unfolding apply_op_def OpCreate store_op.case
    by (rule settle_cases [where P = "claims_ok sha", OF ok], drule create_Inr) (auto intro!: claims_create ok)
next
  case (OpApprove tx seal)
  show ?thesis unfolding apply_op_def OpApprove store_op.case
    by (rule settle_cases [where P = "claims_ok sha", OF ok], drule approve_Inr) (auto intro!: claims_set_row ok simp: idle_def)
next
  case (OpReserve tx device rs)
  show ?thesis unfolding apply_op_def OpReserve store_op.case
  proof (rule settle_cases [where P = "claims_ok sha", OF ok])
    fix v s'
    assume "reserve_write sha tx device rs s = Inr (v, s')"
    then show "claims_ok sha s'"
    proof (cases rule: reserve_write_Inr)
      case 1
      with ok show ?thesis by simp
    next
      case (2 r p)
      from claims_reserve [OF ok 2(1,2,4,5,7,6)] 2(9) show ?thesis by simp
    qed
  qed
next
  case (OpRefuse tx device rs refused interrupted)
  show ?thesis unfolding apply_op_def OpRefuse store_op.case
  proof (rule settle_cases [where P = "claims_ok sha", OF ok], erule refuse_preclaim_Inr)
    fix v s' r f
    assume "owner s device = Some tx" "st_txs s tx = Some r" "s' = set_row tx f s" "row_frame r (f r)" "tx_state (f r) \<in> OUTCOMES"
    then show "claims_ok sha s'"
      using owner_not_idle [OF ok] outcome_not_idle by (auto intro!: claims_set_row ok simp: row_frame_def)
  qed
next
  case (OpClaim tx device a rs)
  show ?thesis unfolding apply_op_def OpClaim store_op.case
  proof (rule settle_cases [where P = "claims_ok sha", OF ok])
    fix v s'
    assume "claim sha tx device a rs s = Inr (v, s')"
    then show "claims_ok sha s'"
    proof (cases rule: claim_Inr)
      case complete
      with ok show ?thesis by simp
    next
      case (stopped r p)
      with owner_not_idle [OF ok stopped(1,3)] ok show ?thesis
        by (auto intro!: claims_set_row simp: claims_attempt idle_def)
    next
      case (starting r p)
      with owner_not_idle [OF ok starting(1,3)] ok show ?thesis
        by (auto intro!: claims_set_row simp: claims_attempt idle_def)
    qed
  qed
next
  case (OpTransition a device state reason)
  show ?thesis unfolding apply_op_def OpTransition store_op.case
  proof (rule settle_cases [where P = "claims_ok sha", OF ok], erule transition_Inr)
    fix v s' r state' reason' allowed
    assume t: "st_txs s (at_owner a) = Some r" "tx_state r \<in> RUNNING_STATES" "TRANSITIONS (tx_state r) = Some allowed" "state' \<in> allowed"
      "s' = set_row (at_owner a) (\<lambda>r. r\<lparr>tx_state := state', tx_reason := reason',
            tx_acknowledged := (if state' = PStopped then tx_stop_serial r else tx_acknowledged r)\<rparr>) s"
    show "claims_ok sha s'"
      unfolding t(5) by (rule claims_set_row [OF ok])
        (use t running_not_idle transition_not_idle in auto)
  qed
next
  case (OpStop tx)
  show ?thesis unfolding apply_op_def OpStop store_op.case
    by (rule settle_cases [where P = "claims_ok sha", OF ok]) (auto simp: request_stop_def intro!: claims_set_row ok)
next
  case (OpAppend tx event payload expected a device)
  show ?thesis unfolding apply_op_def OpAppend store_op.case
  proof (rule settle_cases [where P = "claims_ok sha", OF ok], erule append_event_Inr)
    fix v s'
    assume s': "s' = set_row tx (\<lambda>r. r\<lparr>tx_journal_seq := fst v, tx_journal_digest := snd v\<rparr>)
       (s\<lparr>st_journal := st_journal s @ [\<lparr>jr_tx = tx, jr_seq = fst v, jr_event = event, jr_payload = payload, jr_digest = snd v\<rparr>]\<rparr>)"
    show "claims_ok sha s'"
      unfolding s' by (rule claims_set_row) (use ok in \<open>simp_all add: claims_journal\<close>)
  qed
next
  case (OpComplete a device)
  show ?thesis unfolding apply_op_def OpComplete store_op.case
  proof (rule settle_cases [where P = "claims_ok sha", OF ok], erule complete_Inr)
    fix v s' r o'
    assume c: "st_txs s (at_owner a) = Some r" "owner_of s device = Some o'" "ow_tx o' = at_owner a"
      "s' = set_row (at_owner a) (\<lambda>r. r\<lparr>tx_state := PComplete, tx_reason := ''''\<rparr>)
         (s\<lparr>st_owners := filter (\<lambda>o'. \<not> (ow_device o' = device \<and> ow_tx o' = at_owner a)) (st_owners s)\<rparr>)"
    show "claims_ok sha s'" unfolding c(4) by (rule claims_complete [OF ok c(1-3)])
  qed
qed

lemma claims_empty: "claims_ok sha empty_store"
  by (simp add: claims_defs empty_store_def claim_keys_def phase_at_def)

lemma claims_reachable: "claims_ok sha (run_ops sha root ops empty_store)"
  by (rule run_ops_invariant [OF claims_step claims_empty])

text \<open>The check of exclusivity over the owner rows, as a computation.\<close>

definition exclusive :: "(str \<Rightarrow> str) \<Rightarrow> store \<Rightarrow> bool" where
  "exclusive sha s \<longleftrightarrow>
     distinct (map ow_device (st_owners s)) \<and> distinct (map ow_tx (st_owners s))
     \<and> list_all (\<lambda>a. list_all (\<lambda>b. ow_tx a = ow_tx b \<or>
          disjoint_plans (plan_at s (ow_tx a)) (plan_at s (ow_tx b))) (st_owners s)) (st_owners s)
     \<and> list_all (\<lambda>a. case plan_at s (ow_tx a) of None \<Rightarrow> False | Some p \<Rightarrow> device_id sha p = ow_device a) (st_owners s)"

lemma claims_exclusive: "claims_ok sha s \<Longrightarrow> exclusive sha s"
  by (auto simp: exclusive_def claims_defs claim_keys_def comp_def list_all_iff split: option.splits)

text \<open>C13: Whatever operations concurrent processes run, in any order and with any reservations and
  attempts, the claims on destinations stay exclusive: one owner per destination, one destination
  per transaction, each destination that of the owner's sealed plan, and any two owning plans
  are disjoint in the sense of the overlap check.\<close>

theorem claims_stay_exclusive: "exclusive sha (run_ops sha root ops empty_store)"
  by (rule claims_exclusive [OF claims_reachable])

end
