(* ===== verification/SliceAttempts.thy ===== *)
theory SliceAttempts
  imports SliceClaims
begin

text \<open>
  The life of one transaction and of its attempts. \<open>row_step\<close> lists every change that an operation
  of \<open>modelark/slice/state.py\<close> can make to a transaction's row; the guarantees on stops, terminal
  states, the one-shot rule of session-only plans and the fencing of stale attempts follow by
  cases on it.
\<close>

section \<open>The changes of a row\<close>

inductive row_step :: "tx_row \<Rightarrow> tx_row \<Rightarrow> bool" where
  row_same: "row_step r r"
| row_approve: "tx_state r \<in> {PReady, PApproved} \<Longrightarrow> row_step r (r\<lparr>tx_state := PApproved\<rparr>)"
| row_reserve: "tx_state r \<in> RESUMABLE_STATES \<Longrightarrow> row_step r (r\<lparr>tx_state := PStarting, tx_reason := ''''\<rparr>)"
| row_refuse: "tx_state r \<in> RESUMABLE_STATES \<Longrightarrow> row_frame r r' \<Longrightarrow> tx_consumed r' = tx_consumed r \<Longrightarrow>
    tx_state r' \<in> OUTCOMES \<Longrightarrow> tx_stop_serial r \<le> tx_stop_serial r' \<Longrightarrow>
    (tx_stop r' \<longrightarrow> tx_acknowledged r' = tx_stop_serial r') \<Longrightarrow>
    (\<not> tx_stop r' \<longrightarrow> tx_stop_serial r' = tx_stop_serial r \<and> tx_acknowledged r' = tx_acknowledged r
      \<and> (tx_stop r \<longrightarrow> tx_acknowledged r = tx_stop_serial r)) \<Longrightarrow> row_step r r'"
| row_claim_stop: "tx_state r \<in> RESUMABLE_STATES \<Longrightarrow> tx_stop r \<Longrightarrow>
    row_step r (r\<lparr>tx_state := PStopped, tx_reason := ''STOPPED'', tx_acknowledged := tx_stop_serial r\<rparr>)"
| row_claim_start: "tx_state r \<in> RESUMABLE_STATES \<Longrightarrow> tx_plan r = Stored p \<Longrightarrow> \<not> spent p r \<Longrightarrow>
    (tx_stop r \<longrightarrow> tx_state r = PStopped \<and> tx_acknowledged r = tx_stop_serial r) \<Longrightarrow>
    row_step r (r\<lparr>tx_consumed := (if session_only p then Some token else tx_consumed r),
                 tx_state := PStarting, tx_reason := '''', tx_stop := False\<rparr>)"
| row_move: "tx_state r \<in> RUNNING_STATES \<Longrightarrow> TRANSITIONS (tx_state r) = Some allowed \<Longrightarrow> q \<in> allowed \<Longrightarrow>
    (tx_stop r \<longrightarrow> q \<in> {PStopped, PFailed, PInvalidated}) \<Longrightarrow>
    row_step r (r\<lparr>tx_state := q, tx_reason := reason,
                 tx_acknowledged := (if q = PStopped then tx_stop_serial r else tx_acknowledged r)\<rparr>)"
| row_stop: "row_step r (r\<lparr>tx_stop := True, tx_stop_serial := tx_stop_serial r + 1\<rparr>)"
| row_append: "tx_state r \<in> {PTransferring, PVerifying} \<Longrightarrow> \<not> tx_stop r \<Longrightarrow>
    row_step r (r\<lparr>tx_journal_seq := tx_journal_seq r + 1, tx_journal_digest := digest\<rparr>)"
| row_complete: "tx_state r = PVerifying \<Longrightarrow> \<not> tx_stop r \<Longrightarrow>
    row_step r (r\<lparr>tx_state := PComplete, tx_reason := ''''\<rparr>)"

inductive_cases row_stepE: "row_step r r'"

lemma resumes_row_iff:
  "resumes_row rs r \<Longrightarrow> tx_state r = PStopped \<and> tx_acknowledged r = tx_stop_serial r \<and> rs_serial rs = tx_stop_serial r"
  by (simp add: resumes_row_def resumes_def)

lemma refuse_row_step:
  assumes "refuse_preclaim tx device rs refused interrupted s = Inr (v, s')" "st_txs s tx = Some r"
  shows "\<exists>r'. row_step r r' \<and> st_txs s' tx = Some r' \<and> (\<forall>t. t \<noteq> tx \<longrightarrow> st_txs s' t = st_txs s t)
    \<and> st_owners s' = st_owners s \<and> st_journal s' = st_journal s"
proof (rule refuse_preclaim_Inr [OF assms(1)])
  fix r0 :: tx_row and f :: "tx_row \<Rightarrow> tx_row"
  assume f: "st_txs s tx = Some r0" "tx_state r0 \<in> RESUMABLE_STATES" "s' = set_row tx f s" "row_frame r0 (f r0)"
    "tx_consumed (f r0) = tx_consumed r0" "tx_state (f r0) \<in> OUTCOMES" "tx_stop_serial r0 \<le> tx_stop_serial (f r0)"
    and clear: "tx_stop r0 \<and> \<not> tx_stop (f r0) \<Longrightarrow> resumes_row rs r0"
    and set: "tx_stop (f r0) \<longrightarrow> tx_acknowledged (f r0) = tx_stop_serial (f r0)"
      "\<not> tx_stop (f r0) \<longrightarrow> tx_stop_serial (f r0) = tx_stop_serial r0 \<and> tx_acknowledged (f r0) = tx_acknowledged r0"
  have r: "r0 = r" using f(1) assms(2) by simp
  have "row_step r (f r)"
    by (rule row_refuse) (use f clear set resumes_row_iff [of rs r] in \<open>simp_all add: r\<close>)
  with f r show ?thesis by (intro exI [of _ "f r"]) simp
qed

text \<open>Every operation changes a given transaction's row by one such step.\<close>

lemma row_step_set_row:
  assumes "st_txs s tx = Some r" "\<And>r0. st_txs s t = Some r0 \<Longrightarrow> row_step r0 (f r0)"
  shows "\<exists>r'. row_step r r' \<and> st_txs (set_row t f s) tx = Some r'"
  using assms row_same by (cases "tx = t") auto

lemma row_step_at:
  assumes "row_step r0 (f r0)" "st_txs s tx = Some r" "st_txs s t = Some r0"
  shows "\<exists>r'. row_step r r' \<and> st_txs (set_row t f s) tx = Some r'"
  by (rule row_step_set_row [OF assms(2)]) (use assms(1,3) in simp)

lemma settle_row_step:
  assumes "st_txs s tx = Some r" "\<And>v s'. res = Inr (v, s') \<Longrightarrow> \<exists>r'. row_step r r' \<and> st_txs s' tx = Some r'"
  shows "\<exists>r'. row_step r r' \<and> st_txs (settle s res) tx = Some r'"
proof (cases res)
  case (Inl e)
  then show ?thesis using assms(1) row_same by (auto simp: settle_def)
next
  case (Inr x)
  then show ?thesis using assms(2) [of "fst x" "snd x"] by (simp add: settle_def)
qed

lemma claim_row_step:
  assumes row: "st_txs s t = Some r" and "claim sha tx device a rs s = Inr (v, s')"
  shows "\<exists>r'. row_step r r' \<and> st_txs s' t = Some r'"
  using assms(2)
proof (cases rule: claim_Inr)
  case complete
  then show ?thesis using row row_same by blast
next
  case (stopped r0 p)
  show ?thesis unfolding stopped(9)
    by (rule row_step_set_row) (use row stopped in \<open>auto intro!: row_claim_stop\<close>)
next
  case (starting r0 p)
  have "row_step r0 (r0\<lparr>tx_consumed := (if session_only p then Some (at_token a) else tx_consumed r0),
      tx_state := PStarting, tx_reason := '''', tx_stop := False\<rparr>)"
    by (rule row_claim_start [OF starting(4-6)]) (use starting(7) resumes_row_iff [of rs r0] in blast)
  then show ?thesis unfolding starting(9)
    by (rule row_step_at) (use row starting(3) in simp_all)
qed

lemma op_row_step:
  assumes row: "st_txs s t = Some r"
  shows "\<exists>r'. row_step r r' \<and> st_txs (apply_op sha root x s) t = Some r'"
proof (cases x)
  case (OpCreate plan approval admission tx)
  show ?thesis unfolding apply_op_def OpCreate store_op.case
  proof (rule settle_row_step [OF row])
    fix v s'
    assume "create sha root plan approval admission tx s = Inr (v, s')"
    from create_Inr [OF this] row have "st_txs s' t = Some r" by auto
    with row_same show "\<exists>r'. row_step r r' \<and> st_txs s' t = Some r'" by blast
  qed
next
  case (OpApprove tx seal)
  show ?thesis unfolding apply_op_def OpApprove store_op.case
  proof (rule settle_row_step [OF row])
    fix v s'
    assume "approve sha tx seal s = Inr (v, s')"
    from approve_Inr [OF this] obtain r0 where r0: "st_txs s tx = Some r0" "tx_state r0 \<in> {PReady, PApproved}"
      and s': "s' = set_row tx (\<lambda>r. r\<lparr>tx_state := PApproved\<rparr>) s" by blast
    show "\<exists>r'. row_step r r' \<and> st_txs s' t = Some r'"
      unfolding s' by (rule row_step_set_row [OF row]) (use r0 in \<open>auto intro!: row_approve\<close>)
  qed
next
  case (OpReserve tx device rs)
  show ?thesis unfolding apply_op_def OpReserve store_op.case
  proof (rule settle_row_step [OF row])
    fix v s'
    assume "reserve_write sha tx device rs s = Inr (v, s')"
    then show "\<exists>r'. row_step r r' \<and> st_txs s' t = Some r'"
    proof (cases rule: reserve_write_Inr)
      case 1
      with row row_same show ?thesis by blast
    next
      case (2 r0 p)
      show ?thesis unfolding 2(9)
        by (rule row_step_set_row) (use row 2 in \<open>auto intro!: row_reserve split: if_splits\<close>)
    qed
  qed
next
  case (OpRefuse tx device rs refused interrupted)
  show ?thesis unfolding apply_op_def OpRefuse store_op.case
  proof (rule settle_row_step [OF row])
    fix v s'
    assume ref: "refuse_preclaim tx device rs refused interrupted s = Inr (v, s')"
    then obtain r0 where r0: "st_txs s tx = Some r0" by (rule refuse_preclaim_Inr)
    from refuse_row_step [OF ref r0] row r0 row_same show "\<exists>r'. row_step r r' \<and> st_txs s' t = Some r'"
      by (cases "t = tx") auto
  qed
next
  case (OpClaim tx device a rs)
  show ?thesis unfolding apply_op_def OpClaim store_op.case
    by (rule settle_row_step [OF row]) (rule claim_row_step [OF row])
next
  case (OpTransition a device state reason)
  show ?thesis unfolding apply_op_def OpTransition store_op.case
  proof (rule settle_row_step [OF row], erule transition_Inr)
    fix v s' r0 state' reason' allowed
    assume r0: "st_txs s (at_owner a) = Some r0" "tx_state r0 \<in> RUNNING_STATES" "TRANSITIONS (tx_state r0) = Some allowed"
      "state' \<in> allowed" and q: "state' = (if tx_stop r0 \<and> state \<notin> {PFailed, PInvalidated} then PStopped else state)"
      and s': "s' = set_row (at_owner a) (\<lambda>r. r\<lparr>tx_state := state', tx_reason := reason',
            tx_acknowledged := (if state' = PStopped then tx_stop_serial r else tx_acknowledged r)\<rparr>) s"
    have "row_step r0 (r0\<lparr>tx_state := state', tx_reason := reason',
            tx_acknowledged := (if state' = PStopped then tx_stop_serial r0 else tx_acknowledged r0)\<rparr>)"
      by (rule row_move [OF r0(2-4)]) (auto simp: q)
    then show "\<exists>r'. row_step r r' \<and> st_txs s' t = Some r'"
      unfolding s' by (rule row_step_at) (use row r0(1) in simp_all)
  qed
next
  case (OpStop tx)
  show ?thesis unfolding apply_op_def OpStop store_op.case
  proof (rule settle_row_step [OF row])
    fix v s'
    assume "request_stop tx s = Inr (v, s')"
    then have s': "s' = set_row tx (\<lambda>r. r\<lparr>tx_stop := True, tx_stop_serial := tx_stop_serial r + 1\<rparr>) s"
      by (simp add: request_stop_def)
    show "\<exists>r'. row_step r r' \<and> st_txs s' t = Some r'"
      unfolding s' by (rule row_step_set_row [OF row]) (rule row_stop)
  qed
next
  case (OpAppend tx event payload expected a device)
  show ?thesis unfolding apply_op_def OpAppend store_op.case
  proof (rule settle_row_step [OF row], erule append_event_Inr)
    fix v s' r0
    assume r0: "st_txs s tx = Some r0" "tx_state r0 \<in> {PTransferring, PVerifying}" "\<not> tx_stop r0"
      and v: "v = (tx_journal_seq r0 + 1, entry_digest sha tx (tx_journal_seq r0 + 1) (tx_journal_digest r0) event payload)"
      and s': "s' = set_row tx (\<lambda>r. r\<lparr>tx_journal_seq := fst v, tx_journal_digest := snd v\<rparr>)
       (s\<lparr>st_journal := st_journal s @ [\<lparr>jr_tx = tx, jr_seq = fst v, jr_event = event, jr_payload = payload, jr_digest = snd v\<rparr>]\<rparr>)"
    have "row_step r0 (r0\<lparr>tx_journal_seq := fst v, tx_journal_digest := snd v\<rparr>)"
      using row_append [OF r0(2,3)] by (simp add: v)
    then show "\<exists>r'. row_step r r' \<and> st_txs s' t = Some r'"
      unfolding s' by (rule row_step_at) (use row r0(1) in simp_all)
  qed
next
  case (OpComplete a device)
  show ?thesis unfolding apply_op_def OpComplete store_op.case
  proof (rule settle_row_step [OF row], erule complete_Inr)
    fix v s' r0
    assume r0: "st_txs s (at_owner a) = Some r0" "tx_state r0 = PVerifying" "\<not> tx_stop r0"
      and s': "s' = set_row (at_owner a) (\<lambda>r. r\<lparr>tx_state := PComplete, tx_reason := ''''\<rparr>)
         (s\<lparr>st_owners := filter (\<lambda>o'. \<not> (ow_device o' = device \<and> ow_tx o' = at_owner a)) (st_owners s)\<rparr>)"
    show "\<exists>r'. row_step r r' \<and> st_txs s' t = Some r'"
      unfolding s' by (rule row_step_set_row) (use row r0 row_complete [OF r0(2,3)] in simp_all)
  qed
qed

text \<open>A property of rows that every step keeps holds after any run.\<close>

lemma run_row_invariant:
  assumes row: "st_txs s t = Some r" and P: "P r" and step: "\<And>r r'. P r \<Longrightarrow> row_step r r' \<Longrightarrow> P r'"
  shows "\<exists>r'. P r' \<and> st_txs (run_ops sha root ops s) t = Some r'"
  using row P
proof (induction ops arbitrary: s r)
  case (Cons x ops)
  from op_row_step [OF Cons.prems(1), of sha root x] obtain r' where "row_step r r'"
    "st_txs (apply_op sha root x s) t = Some r'" by blast
  with Cons.IH [of "apply_op sha root x s" r'] step [OF Cons.prems(2)] show ?case by simp
qed auto

section \<open>Final states\<close>

definition same_but_stop :: "tx_row \<Rightarrow> tx_row \<Rightarrow> bool" where
  "same_but_stop r r' \<longleftrightarrow> r' = r\<lparr>tx_stop := tx_stop r', tx_stop_serial := tx_stop_serial r'\<rparr>"

lemma terminal_row_step:
  assumes "row_step r r'" "tx_state r \<in> TERMINAL_STATES"
  shows "same_but_stop r r'"
  using assms
  by (cases rule: row_step.cases)
    (auto simp: same_but_stop_def TERMINAL_STATES_def resumable_iff running_iff)

lemma same_but_stop_trans: "same_but_stop r r' \<Longrightarrow> same_but_stop r' r'' \<Longrightarrow> same_but_stop r r''"
  by (cases r; cases r'; cases r'') (simp add: same_but_stop_def)

text \<open>A complete, failed or invalidated transaction is final: no sequence of operations changes its
  row again, except that stop requests are still counted on it.\<close>

theorem final_state_absorbs:
  assumes "st_txs s tx = Some r" "tx_state r \<in> TERMINAL_STATES"
  shows "case st_txs (run_ops sha root ops s) tx of None \<Rightarrow> False | Some r' \<Rightarrow> same_but_stop r r'"
proof -
  have "\<exists>r'. (tx_state r' \<in> TERMINAL_STATES \<and> same_but_stop r r') \<and> st_txs (run_ops sha root ops s) tx = Some r'"
  proof (rule run_row_invariant [OF assms(1)])
    show "tx_state r \<in> TERMINAL_STATES \<and> same_but_stop r r" using assms(2) by (simp add: same_but_stop_def)
  next
    fix q q'
    assume q: "tx_state q \<in> TERMINAL_STATES \<and> same_but_stop r q" "row_step q q'"
    then have "same_but_stop q q'" by (intro terminal_row_step) simp_all
    moreover from this have "tx_state q' = tx_state q" by (cases q; cases q') (simp add: same_but_stop_def)
    ultimately show "tx_state q' \<in> TERMINAL_STATES \<and> same_but_stop r q'" using q same_but_stop_trans by metis
  qed
  then show ?thesis by auto
qed

section \<open>Stops\<close>

text \<open>
  The serial number of the last stop request, the last acknowledged one and the flag: as long as
  an unacknowledged request exists the flag is up.
\<close>

definition stops_ok :: "tx_row \<Rightarrow> bool" where
  "stops_ok r \<longleftrightarrow> tx_acknowledged r \<le> tx_stop_serial r \<and> (tx_stop r \<or> tx_acknowledged r = tx_stop_serial r)"

lemma stops_row_step:
  assumes "row_step r r'" "stops_ok r"
  shows "stops_ok r'"
  using assms by (cases rule: row_step.cases) (auto simp: stops_ok_def)

lemma rows_ok_step:
  fixes s :: store and P :: "tx_row \<Rightarrow> bool"
  assumes step: "\<And>r r'. P r \<Longrightarrow> row_step r r' \<Longrightarrow> P r'"
    and new: "\<And>r. tx_state r = PReady \<Longrightarrow> \<not> tx_stop r \<Longrightarrow> tx_stop_serial r = 0 \<Longrightarrow> tx_acknowledged r = 0 \<Longrightarrow> tx_consumed r = None \<Longrightarrow> P r"
    and all: "\<forall>t r. st_txs s t = Some r \<longrightarrow> P r"
  shows "\<forall>t r. st_txs (apply_op sha root x s) t = Some r \<longrightarrow> P r"
proof (intro allI impI)
  fix t r
  assume r: "st_txs (apply_op sha root x s) t = Some r"
  show "P r"
  proof (cases "st_txs s t")
    case (Some r0)
    from op_row_step [OF this, of sha root x] r all Some show ?thesis using step by auto
  next
    case None
    show ?thesis
    proof (cases x)
      case (OpCreate plan approval admission tx)
      with r None show ?thesis
        by (cases "create sha root plan approval admission tx s")
          (auto simp: apply_op_def settle_def dest!: create_Inr intro!: new split: if_splits)
    next
      case (OpReserve tx device rs)
      with r None show ?thesis
        by (cases "reserve_write sha tx device rs s")
          (auto simp: apply_op_def settle_def elim!: reserve_write_Inr split: if_splits)
    next
      case (OpApprove tx seal)
      with r None show ?thesis
        by (cases "approve sha tx seal s") (auto simp: apply_op_def settle_def dest!: approve_Inr split: if_splits)
    next
      case (OpRefuse tx device rs refused interrupted)
      with r None show ?thesis
        by (cases "refuse_preclaim tx device rs refused interrupted s")
          (auto simp: apply_op_def settle_def elim!: refuse_preclaim_Inr split: if_splits)
    next
      case (OpClaim tx device a rs)
      with r None show ?thesis
        by (cases "claim sha tx device a rs s") (auto simp: apply_op_def settle_def elim!: claim_Inr split: if_splits)
    next
      case (OpTransition a device state reason)
      with r None show ?thesis
        by (cases "transition a device state reason s") (auto simp: apply_op_def settle_def elim!: transition_Inr split: if_splits)
    next
      case (OpStop tx)
      with r None show ?thesis by (auto simp: apply_op_def settle_def request_stop_def split: if_splits)
    next
      case (OpAppend tx event payload expected a device)
      with r None show ?thesis
        by (cases "append_event sha tx event payload expected a device s")
          (auto simp: apply_op_def settle_def elim!: append_event_Inr split: if_splits)
    next
      case (OpComplete a device)
      with r None show ?thesis
        by (cases "complete sha a device s") (auto simp: apply_op_def settle_def elim!: complete_Inr split: if_splits)
    qed
  qed
qed

text \<open>C37: In every reachable store no stop request is lost: as long as the flag of a transaction is
  down, the last request that was made on it has been acknowledged, and no acknowledgment ever
  runs ahead of the requests.\<close>

theorem stops_acknowledged:
  "case st_txs (run_ops sha root ops empty_store) tx of None \<Rightarrow> True | Some r \<Rightarrow> stops_ok r"
proof -
  have "\<forall>t r. st_txs (run_ops sha root ops empty_store) t = Some r \<longrightarrow> stops_ok r"
  proof (rule run_ops_invariant [where P = "\<lambda>s :: store. \<forall>t r. st_txs s t = Some r \<longrightarrow> stops_ok r"])
    fix x and s :: store
    assume "\<forall>t r. st_txs s t = Some r \<longrightarrow> stops_ok r"
    then show "\<forall>t r. st_txs (apply_op sha root x s) t = Some r \<longrightarrow> stops_ok r"
      by (rule rows_ok_step [rotated 2]) (simp_all add: stops_row_step, simp add: stops_ok_def)
  qed (simp add: empty_store_def)
  then show ?thesis by (simp split: option.split)
qed

lemma serial_row_step: "row_step r r' \<Longrightarrow> tx_stop_serial r \<le> tx_stop_serial r'"
  by (cases rule: row_step.cases) auto

lemma serial_run:
  assumes "st_txs s t = Some r"
  shows "\<exists>r'. tx_stop_serial r \<le> tx_stop_serial r' \<and> st_txs (run_ops sha root ops s) t = Some r'"
  by (rule run_row_invariant [OF assms, where P = "\<lambda>q. tx_stop_serial r \<le> tx_stop_serial q"])
    (auto dest: serial_row_step)

lemma serial_stop:
  assumes "st_txs s t = Some r" "OpStop t \<in> set ops"
  shows "\<exists>r'. tx_stop_serial r < tx_stop_serial r' \<and> st_txs (run_ops sha root ops s) t = Some r'"
proof -
  from assms(2) obtain xs ys where ops: "ops = xs @ OpStop t # ys" by (meson split_list)
  from serial_run [OF assms(1), of sha root xs] obtain q where q: "tx_stop_serial r \<le> tx_stop_serial q"
    "st_txs (run_ops sha root xs s) t = Some q" by blast
  let ?s = "apply_op sha root (OpStop t) (run_ops sha root xs s)"
  have "st_txs ?s t = Some (q\<lparr>tx_stop := True, tx_stop_serial := tx_stop_serial q + 1\<rparr>)"
    using q(2) by (simp add: apply_op_def settle_def request_stop_def)
  from serial_run [OF this, of sha root ys] q(1) show ?thesis unfolding ops by auto
qed

text \<open>C20: A stop requested after a Start took its reservation is never overridden by that Start: whatever
  runs in between, if the stop flag is still up when the Start claims its attempt, the claim does
  not start the transaction.\<close>

theorem later_stop_wins:
  assumes "reserve_read sha tx device s = Inr (Inr (owned, rs))" "OpStop tx \<in> set ops"
    and "st_txs (run_ops sha root ops s) tx = Some r" "tx_stop r"
  shows "case claim sha tx device a rs (run_ops sha root ops s) of
      Inl _ \<Rightarrow> True | Inr (st, s') \<Rightarrow> status_state st \<noteq> PStarting
        \<and> (case st_txs s' tx of None \<Rightarrow> False | Some r' \<Rightarrow> tx_stop r')"
proof -
  let ?s = "run_ops sha root ops s"
  from assms(1) obtain r0 where r0: "st_txs s tx = Some r0" "rs_serial rs = tx_stop_serial r0"
    unfolding reserve_read_def by (elim inspect_Inr) auto
  from serial_stop [OF r0(1) assms(2), of sha root] assms(3) have "rs_serial rs < tx_stop_serial r" by (simp add: r0(2))
  then have no: "\<not> resumes_row rs r" using resumes_row_iff [of rs r] by auto
  show ?thesis
  proof (cases "claim sha tx device a rs ?s")
    case (Inr x)
    obtain st s' where x: "x = (st, s')" by (cases x)
    with Inr have c: "claim sha tx device a rs ?s = Inr (st, s')" by simp
    have "status_state st \<noteq> PStarting \<and> (case st_txs s' tx of None \<Rightarrow> False | Some r' \<Rightarrow> tx_stop r')"
      using c
    proof (cases rule: claim_Inr)
      case complete
      then show ?thesis using assms(3,4) by simp
    next
      case (stopped r1 p)
      then show ?thesis using assms(3,4) by simp
    next
      case (starting r1 p)
      with assms(3,4) no have False by auto
      then show ?thesis ..
    qed
    with Inr x show ?thesis by simp
  qed simp
qed

text \<open>While a stop is pending nothing more is written: the journal refuses every event, completion
  is refused, and a transition either fails, ends the transaction, or stops it and acknowledges the
  request.\<close>

theorem pending_stop_blocks:
  assumes "st_txs s (at_owner a) = Some r" "tx_stop r"
  shows "isl (append_event sha (at_owner a) event payload expected a device s) \<and> isl (complete sha a device s)
    \<and> (case transition a device q reason s of
         Inl _ \<Rightarrow> True
       | Inr (st, s') \<Rightarrow> status_state st \<in> {PFailed, PInvalidated}
           \<or> status_state st = PStopped \<and> (case st_txs s' (at_owner a) of None \<Rightarrow> False
               | Some r' \<Rightarrow> tx_state r' = PStopped \<and> tx_acknowledged r' = tx_stop_serial r'))"
proof (intro conjI)
  show "isl (append_event sha (at_owner a) event payload expected a device s)"
  proof (cases "append_event sha (at_owner a) event payload expected a device s")
    case (Inr x)
    then have "append_event sha (at_owner a) event payload expected a device s = Inr (fst x, snd x)" by simp
    then show ?thesis by (rule append_event_Inr) (use assms in auto)
  qed simp
  show "isl (complete sha a device s)"
  proof (cases "complete sha a device s")
    case (Inr x)
    then have "complete sha a device s = Inr ((), snd x)" by (cases x) simp
    then show ?thesis by (rule complete_Inr) (use assms in auto)
  qed simp
  show "case transition a device q reason s of
         Inl _ \<Rightarrow> True
       | Inr (st, s') \<Rightarrow> status_state st \<in> {PFailed, PInvalidated}
           \<or> status_state st = PStopped \<and> (case st_txs s' (at_owner a) of None \<Rightarrow> False
               | Some r' \<Rightarrow> tx_state r' = PStopped \<and> tx_acknowledged r' = tx_stop_serial r')"
  proof (cases "transition a device q reason s")
    case (Inr x)
    obtain st s' where x: "x = (st, s')" by (cases x)
    with Inr have t: "transition a device q reason s = Inr (st, s')" by simp
    have "status_state st \<in> {PFailed, PInvalidated}
           \<or> status_state st = PStopped \<and> (case st_txs s' (at_owner a) of None \<Rightarrow> False
               | Some r' \<Rightarrow> tx_state r' = PStopped \<and> tx_acknowledged r' = tx_stop_serial r')"
      by (rule transition_Inr [OF t]) (use assms in \<open>auto split: if_splits\<close>)
    then show ?thesis unfolding Inr x by simp
  qed simp
qed

section \<open>The only attempt of a session\<close>

lemma spent_row_step:
  assumes "row_step r r'" "tx_plan r = Stored p" "session_only p" "tx_consumed r \<noteq> None"
  shows "tx_plan r' = Stored p \<and> tx_consumed r' = tx_consumed r"
  using assms by (cases rule: row_step.cases) (auto simp: row_frame_def spent_def)

text \<open>C22: A session-only plan has one attempt: once a claim has started it, no later claim ever starts
  it again, whatever has happened in between.\<close>

theorem single_attempt:
  assumes "claim sha tx device a rs s = Inr (Status tx PStarting reason, s1)"
    and "plan_at s tx = Some p" "session_only p"
  shows "case claim sha tx device' b rs' (run_ops sha root ops s1) of
      Inl _ \<Rightarrow> True | Inr (st, _) \<Rightarrow> status_state st \<noteq> PStarting"
proof -
  obtain r where r: "st_txs s1 tx = Some r" "tx_plan r = Stored p" "tx_consumed r \<noteq> None"
    using assms(1)
  proof (cases rule: claim_Inr)
    case (starting r0 p0)
    then have "p0 = p" using assms(2) by (simp add: plan_at_def)
    with starting assms(3) show ?thesis by (intro that [of "the (st_txs s1 tx)"]) simp_all
  qed simp_all
  obtain r' where r': "tx_plan r' = Stored p \<and> tx_consumed r' \<noteq> None" "st_txs (run_ops sha root ops s1) tx = Some r'"
    using run_row_invariant [OF r(1), where P = "\<lambda>q. tx_plan q = Stored p \<and> tx_consumed q \<noteq> None"] r(2,3)
      spent_row_step [OF _ _ assms(3)] by metis
  show ?thesis
  proof (cases "claim sha tx device' b rs' (run_ops sha root ops s1)")
    case (Inr x)
    obtain st s' where x: "x = (st, s')" by (cases x)
    with Inr have c: "claim sha tx device' b rs' (run_ops sha root ops s1) = Inr (st, s')" by simp
    have "status_state st \<noteq> PStarting"
      using c by (cases rule: claim_Inr) (use r' assms(3) in \<open>auto simp: spent_def\<close>)
    then show ?thesis using Inr x by simp
  qed simp
qed

section \<open>Fencing\<close>

definition claims_device :: "str \<Rightarrow> store_op \<Rightarrow> bool" where
  "claims_device device x = (case x of OpClaim tx d a rs \<Rightarrow> d = device | _ \<Rightarrow> False)"

text \<open>What the owner row of a device may become without a claim on it: the same holder, or none.\<close>

definition held_by :: "store \<Rightarrow> str \<Rightarrow> attempt \<Rightarrow> bool" where
  "held_by s device b \<longleftrightarrow> (case owner_of s device of None \<Rightarrow> True
     | Some o' \<Rightarrow> ow_attempt o' = None \<or> ow_tx o' = at_owner b \<and> ow_attempt o' = Some (at_token b))"

lemma owner_of_filter:
  "distinct (map ow_device (st_owners s)) \<Longrightarrow>
    owner_of (s\<lparr>st_owners := filter P (st_owners s)\<rparr>) d = (case owner_of s d of None \<Rightarrow> None | Some o' \<Rightarrow> if P o' then Some o' else None)"
proof -
  have "distinct (map ow_device os) \<Longrightarrow> List.find (\<lambda>o'. ow_device o' = d) (filter P os) =
      (case List.find (\<lambda>o'. ow_device o' = d) os of None \<Rightarrow> None | Some o' \<Rightarrow> if P o' then Some o' else None)" for os
  proof (induction os)
    case (Cons o' os)
    from Cons.prems have "ow_device o' = d \<Longrightarrow> List.find (\<lambda>o'. ow_device o' = d) os = None"
      by (metis (mono_tags, lifting) distinct.simps(2) find_None_iff image_eqI list.set_map list.simps(9))
    with Cons show ?case by auto
  qed simp
  then show "distinct (map ow_device (st_owners s)) \<Longrightarrow> ?thesis" by (simp add: owner_of_def)
qed

lemma owner_of_append:
  "owner_of (s\<lparr>st_owners := st_owners s @ [w]\<rparr>) d = (case owner_of s d of None \<Rightarrow> if ow_device w = d then Some w else None | Some o' \<Rightarrow> Some o')"
proof -
  have "List.find (\<lambda>o'. ow_device o' = d) (os @ [w]) =
      (case List.find (\<lambda>o'. ow_device o' = d) os of None \<Rightarrow> if ow_device w = d then Some w else None | Some o' \<Rightarrow> Some o')" for os
    by (induction os) auto
  then show ?thesis by (simp add: owner_of_def)
qed

lemma owner_of_set_row [simp]: "owner_of (set_row tx f s) = owner_of s"
  by (simp add: owner_of_def fun_eq_iff)

lemma owner_of_journal [simp]: "owner_of (s\<lparr>st_journal := j\<rparr>) = owner_of s" "owner_of (s\<lparr>st_txs := t\<rparr>) = owner_of s"
  by (simp_all add: owner_of_def fun_eq_iff)

lemma owner_of_attempt:
  "owner_of (set_attempt d tx t s) e = map_option (\<lambda>o'. if ow_device o' = d \<and> ow_tx o' = tx then o'\<lparr>ow_attempt := Some t\<rparr> else o') (owner_of s e)"
proof -
  have "List.find (\<lambda>o'. ow_device o' = e) (map (\<lambda>o'. if ow_device o' = d \<and> ow_tx o' = tx then o'\<lparr>ow_attempt := Some t\<rparr> else o') os) =
      map_option (\<lambda>o'. if ow_device o' = d \<and> ow_tx o' = tx then o'\<lparr>ow_attempt := Some t\<rparr> else o') (List.find (\<lambda>o'. ow_device o' = e) os)" for os
    by (induction os) auto
  then show ?thesis by (simp add: owner_of_def set_attempt_def)
qed

lemma held_step:
  assumes held: "held_by s device b" and no: "\<not> claims_device device x" and d: "distinct (map ow_device (st_owners s))"
  shows "held_by (apply_op sha root x s) device b"
proof (cases x)
  case (OpCreate plan approval admission tx)
  show ?thesis unfolding apply_op_def OpCreate store_op.case
    by (rule settle_cases [where P = "\<lambda>s. held_by s device b", OF held])
      (use held in \<open>auto simp: held_by_def dest!: create_Inr\<close>)
next
  case (OpApprove tx seal)
  show ?thesis unfolding apply_op_def OpApprove store_op.case
    by (rule settle_cases [where P = "\<lambda>s. held_by s device b", OF held])
      (use held in \<open>auto simp: held_by_def dest!: approve_Inr\<close>)
next
  case (OpReserve tx dev rs)
  show ?thesis unfolding apply_op_def OpReserve store_op.case
    by (rule settle_cases [where P = "\<lambda>s. held_by s device b", OF held])
      (use held in \<open>auto simp: held_by_def owner_of_append split: option.splits if_splits elim!: reserve_write_Inr\<close>)
next
  case (OpRefuse tx dev rs refused interrupted)
  show ?thesis unfolding apply_op_def OpRefuse store_op.case
    by (rule settle_cases [where P = "\<lambda>s. held_by s device b", OF held])
      (use held in \<open>auto simp: held_by_def elim!: refuse_preclaim_Inr\<close>)
next
  case (OpClaim tx dev a rs)
  with no have dev: "dev \<noteq> device" by (simp add: claims_device_def)
  have "owner_of (set_attempt dev tx t s) device = owner_of s device" for t
    using dev by (cases "owner_of s device") (auto simp: owner_of_attempt dest!: owner_of_Some)
  then show ?thesis unfolding apply_op_def OpClaim store_op.case
    by (intro settle_cases [where P = "\<lambda>s. held_by s device b", OF held])
      (use held in \<open>auto simp: held_by_def elim!: claim_Inr\<close>)
next
  case (OpTransition a dev state reason)
  show ?thesis unfolding apply_op_def OpTransition store_op.case
    by (rule settle_cases [where P = "\<lambda>s. held_by s device b", OF held])
      (use held in \<open>auto simp: held_by_def elim!: transition_Inr\<close>)
next
  case (OpStop tx)
  show ?thesis unfolding apply_op_def OpStop store_op.case
    by (rule settle_cases [where P = "\<lambda>s. held_by s device b", OF held])
      (use held in \<open>auto simp: held_by_def request_stop_def\<close>)
next
  case (OpAppend tx event payload expected a dev)
  show ?thesis unfolding apply_op_def OpAppend store_op.case
    by (rule settle_cases [where P = "\<lambda>s. held_by s device b", OF held])
      (use held in \<open>auto simp: held_by_def elim!: append_event_Inr\<close>)
next
  case (OpComplete a dev)
  show ?thesis unfolding apply_op_def OpComplete store_op.case
    by (rule settle_cases [where P = "\<lambda>s. held_by s device b", OF held])
      (use held in \<open>auto simp: held_by_def owner_of_filter [OF d] split: option.splits if_splits elim!: complete_Inr\<close>)
qed

lemma held_run:
  assumes "claims_ok sha s" "held_by s device b" "list_all (\<lambda>x. \<not> claims_device device x) ops"
  shows "held_by (run_ops sha root ops s) device b"
  using assms
proof (induction ops arbitrary: s)
  case (Cons x ops)
  have "distinct (map ow_device (st_owners s))"
    using Cons.prems(1) by (simp add: claims_ok_def keys_distinct_def claim_keys_def comp_def)
  then have "held_by (apply_op sha root x s) device b" using Cons.prems by (intro held_step) simp_all
  with Cons.IH [OF claims_step [OF Cons.prems(1)]] Cons.prems(3) show ?case by simp
qed simp

lemma held_fences:
  assumes "held_by s device b" "a \<noteq> b"
  shows "isl (require_attempt s a device allow)"
proof (cases "require_attempt s a device allow")
  case (Inr x)
  then have "require_attempt s a device allow = Inr (fst x, snd x)" by simp
  then show ?thesis
  proof (rule require_attempt_Inr)
    fix o'
    assume "owner_of s device = Some o'" "ow_tx o' = at_owner a" "ow_attempt o' = Some (at_token a)"
    with assms(1) have "at_owner a = at_owner b" "at_token a = at_token b" by (auto simp: held_by_def)
    with assms(2) have False by (cases a; cases b) simp
    then show ?thesis ..
  qed
qed simp

text \<open>C14: A stale attempt is fenced out: after a claim has published attempt \<open>b\<close> on a destination, and
  until the next claim on it, no other attempt can pass the guard, append to the journal, move the
  transaction or complete it on that destination, whatever operations run in between.\<close>

theorem stale_attempt_fenced:
  assumes "claim sha tx device b rs (run_ops sha root before empty_store) = Inr (Status tx PStarting reason, s1)"
    and "list_all (\<lambda>x. \<not> claims_device device x) ops" "a \<noteq> b"
  shows "isl (guard a device (run_ops sha root ops s1))
    \<and> isl (append_event sha t event payload expected a device (run_ops sha root ops s1))
    \<and> isl (transition a device q why (run_ops sha root ops s1))
    \<and> isl (complete sha a device (run_ops sha root ops s1))"
proof -
  let ?init = "run_ops sha root before empty_store" and ?s = "run_ops sha root ops s1"
  have s1: "s1 = apply_op sha root (OpClaim tx device b rs) ?init"
    using assms(1) by (simp add: apply_op_def settle_def)
  have ok: "claims_ok sha s1" unfolding s1 by (rule claims_step [OF claims_reachable])
  have "held_by s1 device b"
    using assms(1)
  proof (cases rule: claim_Inr)
    case (starting r p)
    then obtain o' where "owner_of ?init device = Some o'" "ow_tx o' = tx" by (auto simp: owner_def)
    with starting owner_of_Some [of ?init device o'] show ?thesis by (simp add: held_by_def owner_of_attempt)
  qed simp_all
  then have "held_by ?s device b" by (rule held_run [OF ok _ assms(2)])
  then have no: "isl (require_attempt ?s a device allow)" for allow by (rule held_fences [OF _ assms(3)])
  obtain e where e: "require_attempt ?s a device True = Inl e" using no [of True] by (auto simp: isl_def)
  obtain f where f: "require_attempt ?s a device False = Inl f" using no [of False] by (auto simp: isl_def)
  show ?thesis
    using e f by (auto simp: guard_def append_event_def transition_def complete_def split: sum.splits)
qed

end
