(* ===== verification/SliceJournal.thy ===== *)
theory SliceJournal
  imports SliceAttempts
begin

text \<open>
  The transaction journal of \<open>modelark/slice/state.py\<close>: what \<open>append\<close> writes is what \<open>events\<close>
  reads, no operation rewrites an entry, the head kept in the transaction's row pins the whole
  history up to a collision of the hash, and a complete transaction has its receipt.
\<close>

section \<open>Chains\<close>

definition tx_rows :: "store \<Rightarrow> str \<Rightarrow> journal_row list" where
  "tx_rows s tx = filter (\<lambda>j. jr_tx j = tx) (st_journal s)"

definition event_of :: "journal_row \<Rightarrow> str \<times> json" where
  "event_of j = (jr_event j, jr_payload j)"

lemma chain_events: "chain sha tx n d js = Inr (d', evs) \<Longrightarrow> evs = map event_of js"
  by (induction js arbitrary: n d evs) (auto simp: event_of_def split: if_splits sum.splits)

lemma chain_append:
  "chain sha tx n d (js @ ks) = (case chain sha tx n d js of Inl e \<Rightarrow> Inl e | Inr (d', es) \<Rightarrow>
     (case chain sha tx (n + length js) d' ks of Inl e \<Rightarrow> Inl e | Inr (d'', fs) \<Rightarrow> Inr (d'', es @ fs)))"
  by (induction js arbitrary: n d) (auto split: sum.splits prod.splits)

lemma chain_snoc:
  assumes "chain sha tx 1 '''' (js @ [j]) = Inr (d, evs)"
  obtains d' where "chain sha tx 1 '''' js = Inr (d', map event_of js)"
    "d = entry_digest sha tx (length js + 1) d' (jr_event j) (jr_payload j)"
proof -
  from assms obtain d' es where "chain sha tx 1 '''' js = Inr (d', es)"
    by (auto simp: chain_append split: sum.splits)
  with assms chain_events [OF this] show thesis
    by (intro that) (auto simp: chain_append split: if_splits)
qed

definition history_ok :: "(str \<Rightarrow> str) \<Rightarrow> str \<Rightarrow> (nat \<times> str) option \<Rightarrow> journal_row list \<Rightarrow> bool" where
  "history_ok sha tx h js = (case h of None \<Rightarrow> js = []
   | Some (n, d) \<Rightarrow> map jr_seq js = [1..<Suc n] \<and> chain sha tx 1 '''' js = Inr (d, map event_of js))"

definition journal_ok :: "(str \<Rightarrow> str) \<Rightarrow> store \<Rightarrow> bool" where
  "journal_ok sha s \<longleftrightarrow> (\<forall>tx. history_ok sha tx (head s tx) (tx_rows s tx))"

lemma history_ok_simps [simp]:
  "history_ok sha tx None js \<longleftrightarrow> js = []"
  "history_ok sha tx (Some (n, d)) js \<longleftrightarrow> map jr_seq js = [1..<Suc n] \<and> chain sha tx 1 '''' js = Inr (d, map event_of js)"
  by (simp_all add: history_ok_def)

lemma journal_okD: "journal_ok sha s \<Longrightarrow> history_ok sha tx (head s tx) (tx_rows s tx)"
  by (simp add: journal_ok_def)

lemma journal_rows:
  assumes "journal_ok sha s" "head s tx = Some (n, d)"
  shows "map jr_seq (tx_rows s tx) = [1..<Suc n]" "chain sha tx 1 '''' (tx_rows s tx) = Inr (d, map event_of (tx_rows s tx))"
    "length (tx_rows s tx) = n"
proof -
  from journal_okD [OF assms(1), of tx] assms(2) show 1: "map jr_seq (tx_rows s tx) = [1..<Suc n]"
    and "chain sha tx 1 '''' (tx_rows s tx) = Inr (d, map event_of (tx_rows s tx))" by simp_all
  from arg_cong [OF 1, of length] show "length (tx_rows s tx) = n" by simp
qed

lemma events_ok:
  assumes "journal_ok sha s" "head s tx = Some (n, d)"
  shows "events sha s tx = Inr (map event_of (tx_rows s tx))"
proof -
  note rows = journal_rows [OF assms]
  have "sorted (map jr_seq (tx_rows s tx))" unfolding rows(1) by (rule sorted_upt)
  then have "rows_of s tx = tx_rows s tx"
    unfolding rows_of_def tx_rows_def [symmetric] by (simp add: sort_key_id_if_sorted)
  with rows assms(2) show ?thesis by (simp add: events_def)
qed

section \<open>What operations do to journals\<close>

lemma head_set_row:
  assumes "\<And>r. st_txs s tx = Some r \<Longrightarrow> tx_journal_seq (f r) = tx_journal_seq r \<and> tx_journal_digest (f r) = tx_journal_digest r"
  shows "head (set_row tx f s) = head s"
proof
  fix t
  show "head (set_row tx f s) t = head s t"
    using assms by (cases "st_txs s tx") (simp_all add: head_def)
qed

lemma head_simps [simp]:
  "head (set_attempt d tx t s) = head s" "head (s\<lparr>st_owners := w\<rparr>) = head s" "head (s\<lparr>st_journal := j\<rparr>) = head s"
  by (simp_all add: head_def fun_eq_iff)

definition same_journal :: "store \<Rightarrow> store \<Rightarrow> bool" where
  "same_journal s s' \<longleftrightarrow> st_journal s' = st_journal s \<and> head s' = head s"

lemma same_journal_self: "same_journal s s"
  by (simp add: same_journal_def)

lemma other_ops_journal:
  assumes "\<And>plan approval admission tx. x \<noteq> OpCreate plan approval admission tx"
    "\<And>tx event payload expected a device. x \<noteq> OpAppend tx event payload expected a device"
  shows "same_journal s (apply_op sha root x s)"
proof (cases x)
  case (OpApprove tx seal)
  show ?thesis unfolding apply_op_def OpApprove store_op.case
    by (rule settle_cases [where P = "same_journal s", OF same_journal_self])
      (auto simp: same_journal_def head_set_row dest!: approve_Inr)
next
  case (OpReserve tx dev rs)
  show ?thesis unfolding apply_op_def OpReserve store_op.case
    by (rule settle_cases [where P = "same_journal s", OF same_journal_self])
      (auto simp: same_journal_def head_set_row elim!: reserve_write_Inr)
next
  case (OpRefuse tx dev rs refused interrupted)
  show ?thesis unfolding apply_op_def OpRefuse store_op.case
    by (rule settle_cases [where P = "same_journal s", OF same_journal_self])
      (auto simp: same_journal_def row_frame_def elim!: refuse_preclaim_Inr intro!: head_set_row)
next
  case (OpClaim tx dev a rs)
  show ?thesis unfolding apply_op_def OpClaim store_op.case
    by (rule settle_cases [where P = "same_journal s", OF same_journal_self])
      (auto simp: same_journal_def head_set_row elim!: claim_Inr)
next
  case (OpTransition a dev state reason)
  show ?thesis unfolding apply_op_def OpTransition store_op.case
    by (rule settle_cases [where P = "same_journal s", OF same_journal_self])
      (auto simp: same_journal_def head_set_row elim!: transition_Inr)
next
  case (OpStop tx)
  show ?thesis unfolding apply_op_def OpStop store_op.case
    by (rule settle_cases [where P = "same_journal s", OF same_journal_self])
      (auto simp: same_journal_def head_set_row request_stop_def)
next
  case (OpComplete a dev)
  show ?thesis unfolding apply_op_def OpComplete store_op.case
    by (rule settle_cases [where P = "same_journal s", OF same_journal_self])
      (auto simp: same_journal_def head_set_row elim!: complete_Inr)
qed (use assms in auto)

lemma create_journal:
  assumes "create sha root plan approval admission tx s = Inr (v, s')"
  shows "st_journal s' = st_journal s \<and> head s tx = None \<and> head s' = (head s)(tx := Some (0, ''''))"
  using create_Inr [OF assms] by (auto simp: head_def fun_eq_iff)

lemma append_journal:
  assumes "append_event sha tx event payload expected a device s = Inr (v, s')"
  obtains n d where "head s tx = Some (n, d)" "v = (n + 1, entry_digest sha tx (n + 1) d event payload)"
    "head s' = (head s)(tx := Some v)"
    "st_journal s' = st_journal s @ [\<lparr>jr_tx = tx, jr_seq = fst v, jr_event = event, jr_payload = payload, jr_digest = snd v\<rparr>]"
proof (rule append_event_Inr [OF assms])
  fix r o'
  assume r: "st_txs s tx = Some r"
    and v: "v = (tx_journal_seq r + 1, entry_digest sha tx (tx_journal_seq r + 1) (tx_journal_digest r) event payload)"
    and s': "s' = set_row tx (\<lambda>r. r\<lparr>tx_journal_seq := fst v, tx_journal_digest := snd v\<rparr>)
       (s\<lparr>st_journal := st_journal s @ [\<lparr>jr_tx = tx, jr_seq = fst v, jr_event = event, jr_payload = payload, jr_digest = snd v\<rparr>]\<rparr>)"
  show thesis
    by (rule that [of "tx_journal_seq r" "tx_journal_digest r"])
      (use r v in \<open>auto simp: s' head_def fun_eq_iff\<close>)
qed

lemma tx_rows_same: "st_journal s' = st_journal s \<Longrightarrow> tx_rows s' = tx_rows s"
  by (simp add: tx_rows_def fun_eq_iff)

lemma append_rows:
  assumes ok: "journal_ok sha s" and app: "append_event sha tx event payload expected a device s = Inr (v, s')"
  shows "tx_rows s' t = (if t = tx then tx_rows s tx @
      [\<lparr>jr_tx = tx, jr_seq = fst v, jr_event = event, jr_payload = payload, jr_digest = snd v\<rparr>] else tx_rows s t)"
    and "journal_ok sha s'"
proof -
  obtain n d where h: "head s tx = Some (n, d)" and v: "v = (n + 1, entry_digest sha tx (n + 1) d event payload)"
    and h': "head s' = (head s)(tx := Some v)"
    and j: "st_journal s' = st_journal s @ [\<lparr>jr_tx = tx, jr_seq = fst v, jr_event = event, jr_payload = payload, jr_digest = snd v\<rparr>]"
    by (rule append_journal [OF app])
  have rows: "tx_rows s' t = (if t = tx then tx_rows s tx @
      [\<lparr>jr_tx = tx, jr_seq = fst v, jr_event = event, jr_payload = payload, jr_digest = snd v\<rparr>] else tx_rows s t)" for t
    by (simp add: tx_rows_def j)
  then show "tx_rows s' t = (if t = tx then tx_rows s tx @
      [\<lparr>jr_tx = tx, jr_seq = fst v, jr_event = event, jr_payload = payload, jr_digest = snd v\<rparr>] else tx_rows s t)" .
  note old = journal_rows [OF ok h]
  have "history_ok sha t (head s' t) (tx_rows s' t)" for t
  proof (cases "t = tx")
    case True
    have "chain sha tx 1 '''' (tx_rows s' tx) = Inr (snd v, map event_of (tx_rows s' tx))"
      by (simp add: rows chain_append old v event_of_def del: One_nat_def)
    moreover have "map jr_seq (tx_rows s' tx) = [1..<Suc (fst v)]"
      using old(1) by (simp add: rows v)
    moreover have "head s' tx = Some (fst v, snd v)" by (simp add: h')
    ultimately show ?thesis by (simp only: True history_ok_simps)
  next
    case False
    then have "tx_rows s' t = tx_rows s t" "head s' t = head s t" by (simp_all add: rows h')
    with journal_okD [OF ok, of t] show ?thesis by simp
  qed
  then show "journal_ok sha s'" unfolding journal_ok_def by (rule allI)
qed

lemma journal_step:
  assumes ok: "journal_ok sha s"
  shows "journal_ok sha (apply_op sha root x s) \<and> (\<exists>zs. tx_rows (apply_op sha root x s) t = tx_rows s t @ zs)"
proof (cases "(\<exists>plan approval admission tx. x = OpCreate plan approval admission tx)
    \<or> (\<exists>tx event payload expected a device. x = OpAppend tx event payload expected a device)")
  case False
  then have "same_journal s (apply_op sha root x s)" by (intro other_ops_journal) auto
  then have same: "st_journal (apply_op sha root x s) = st_journal s" "head (apply_op sha root x s) = head s"
    by (simp_all only: same_journal_def)
  from same(1) have "tx_rows (apply_op sha root x s) = tx_rows s" by (rule tx_rows_same)
  with same(2)
  have "journal_ok sha (apply_op sha root x s) \<longleftrightarrow> journal_ok sha s"
    unfolding journal_ok_def by (simp only:)
  with ok have "journal_ok sha (apply_op sha root x s)" by simp
  moreover have "tx_rows (apply_op sha root x s) t = tx_rows s t @ []"
    using \<open>tx_rows (apply_op sha root x s) = tx_rows s\<close> by simp
  ultimately show ?thesis by (intro conjI exI)
next
  case True
  then show ?thesis
  proof (elim disjE exE)
    fix plan approval admission tx
    assume x: "x = OpCreate plan approval admission tx"
    show ?thesis
    proof (cases "create sha root plan approval admission tx s")
      case (Inr w)
      then have "create sha root plan approval admission tx s = Inr (fst w, snd w)" by simp
      note c = create_journal [OF this]
      have rows: "tx_rows (snd w) = tx_rows s" using c by (intro tx_rows_same) simp
      have none: "tx_rows s tx = []" using journal_okD [OF ok, of tx] c by simp
      have "journal_ok sha (snd w)"
        unfolding journal_ok_def
      proof
        fix u
        show "history_ok sha u (head (snd w) u) (tx_rows (snd w) u)"
          using journal_okD [OF ok, of u] c none by (cases "u = tx") (simp_all add: rows)
      qed
      with rows Inr show ?thesis by (simp add: x apply_op_def settle_def)
    qed (use ok in \<open>simp add: x apply_op_def settle_def\<close>)
  next
    fix tx event payload expected a device
    assume x: "x = OpAppend tx event payload expected a device"
    show ?thesis
    proof (cases "append_event sha tx event payload expected a device s")
      case (Inr w)
      then have "append_event sha tx event payload expected a device s = Inr (fst w, snd w)" by simp
      from append_rows [OF ok this] Inr show ?thesis by (simp add: x apply_op_def settle_def)
    qed (use ok in \<open>simp add: x apply_op_def settle_def\<close>)
  qed
qed

lemma journal_empty: "journal_ok sha empty_store"
  by (simp add: journal_ok_def head_def empty_store_def tx_rows_def)

lemma journal_reachable: "journal_ok sha (run_ops sha root ops empty_store)"
  by (rule run_ops_invariant [OF conjunct1 [OF journal_step] journal_empty])

section \<open>Properties\<close>

text \<open>C35: The journal replays what was written: in every reachable store the events of a transaction can
  be read, and after a successful append they are the events before it followed by the new one.\<close>

theorem journal_replays:
  assumes "append_event sha tx event payload expected a device (run_ops sha root ops empty_store) = Inr (v, s')"
  shows "case events sha (run_ops sha root ops empty_store) tx of Inl _ \<Rightarrow> False
    | Inr evs \<Rightarrow> events sha s' tx = Inr (evs @ [(event, payload)])"
proof -
  let ?s = "run_ops sha root ops empty_store"
  have ok: "journal_ok sha ?s" by (rule journal_reachable)
  obtain n d where h: "head ?s tx = Some (n, d)" and h': "head s' = (head ?s)(tx := Some v)"
    by (rule append_journal [OF assms])
  have "events sha s' tx = Inr (map event_of (tx_rows s' tx))"
    by (rule events_ok [OF append_rows(2) [OF ok assms], of tx "fst v" "snd v"]) (simp add: h')
  with events_ok [OF ok h] append_rows(1) [OF ok assms, of tx] show ?thesis by (simp add: event_of_def)
qed

text \<open>The text of an event, which is what the digest binds.\<close>

definition event_text :: "str \<times> json \<Rightarrow> str \<times> str" where
  "event_text e = (fst e, encode (snd e))"

lemma entry_json_canonical [simp]: "canonical (entry_json tx n d event payload)"
  by (simp add: entry_json_def)

lemma chain_binds:
  assumes "chain sha tx 1 '''' js = Inr (d, es)" "chain sha tx 1 '''' ks = Inr (d, fs)" "length js = length ks" "\<not> collision sha"
  shows "map (event_text \<circ> event_of) js = map (event_text \<circ> event_of) ks"
  using assms(3,1,2)
proof (induction js arbitrary: ks d es fs rule: rev_induct)
  case Nil
  then show ?case by simp
next
  case (snoc j js)
  from snoc.prems(1) obtain k ks' where ks: "ks = ks' @ [k]" by (cases ks rule: rev_cases) simp_all
  obtain d1 where 1: "chain sha tx 1 '''' js = Inr (d1, map event_of js)"
    "d = entry_digest sha tx (length js + 1) d1 (jr_event j) (jr_payload j)"
    by (rule chain_snoc [OF snoc.prems(2)])
  obtain d2 where 2: "chain sha tx 1 '''' ks' = Inr (d2, map event_of ks')"
    "d = entry_digest sha tx (length ks' + 1) d2 (jr_event k) (jr_payload k)"
    by (rule chain_snoc [OF snoc.prems(3) [unfolded ks]])
  from 1(2) 2(2) have "json_hash sha (entry_json tx (length js + 1) d1 (jr_event j) (jr_payload j)) =
      json_hash sha (entry_json tx (length ks' + 1) d2 (jr_event k) (jr_payload k))" by (simp add: entry_digest_def)
  with assms(4) have "entry_json tx (length js + 1) d1 (jr_event j) (jr_payload j) =
      entry_json tx (length ks' + 1) d2 (jr_event k) (jr_payload k)" using json_hash_eq by fastforce
  then have e: "d1 = d2" "jr_event j = jr_event k" "encode (jr_payload j) = encode (jr_payload k)" "length js = length ks'"
    by (simp_all add: entry_json_def)
  from snoc.IH [OF e(4) 1(1)] 2(1) e(1) have "map (event_text \<circ> event_of) js = map (event_text \<circ> event_of) ks'" by blast
  with e(2,3) show ?case by (simp add: ks event_text_def event_of_def comp_def)
qed

text \<open>C15: The durable head pins the history: two stores, however their journals have been edited, that
  keep the same head for a transaction and both pass the verification of \<open>events\<close> read the same
  events, unless SHA-256 collides.\<close>

theorem journal_tamper_evident:
  assumes "head s tx = head s' tx" "events sha s tx = Inr es" "events sha s' tx = Inr fs"
  shows "map event_text es = map event_text fs \<or> collision sha"
proof (rule disjCI)
  assume nc: "\<not> collision sha"
  have destr: "\<exists>d. chain sha tx 1 '''' (rows_of u tx) = Inr (d, vs) \<and> head u tx = Some (length (rows_of u tx), d)"
    if "events sha u tx = Inr vs" for u vs
    using that by (auto simp: events_def split: sum.splits if_splits)
  from destr [OF assms(2)] obtain d where 1: "chain sha tx 1 '''' (rows_of s tx) = Inr (d, es)"
    "head s tx = Some (length (rows_of s tx), d)" by blast
  from destr [OF assms(3)] obtain d' where 2: "chain sha tx 1 '''' (rows_of s' tx) = Inr (d', fs)"
    "head s' tx = Some (length (rows_of s' tx), d')" by blast
  from 1(2) 2(2) assms(1) have same: "d = d'" "length (rows_of s tx) = length (rows_of s' tx)" by simp_all
  have "map (event_text \<circ> event_of) (rows_of s tx) = map (event_text \<circ> event_of) (rows_of s' tx)"
    by (rule chain_binds [OF 1(1) _ same(2) nc]) (use 2(1) same(1) in simp)
  then show "map event_text es = map event_text fs"
    using chain_events [OF 1(1)] chain_events [OF 2(1)] by simp
qed

section \<open>Completion\<close>

definition receipted :: "store \<Rightarrow> bool" where
  "receipted s \<longleftrightarrow> (\<forall>tx. phase_at s tx = Some PComplete \<longrightarrow> (\<exists>j \<in> set (st_journal s). jr_tx j = tx \<and> jr_event j = ''receipt''))"

lemma receipt_row:
  assumes "receipt sha s tx = Inr (Some rc)"
  shows "\<exists>j \<in> set (st_journal s). jr_tx j = tx \<and> jr_event j = ''receipt''"
proof -
  from assms obtain evs where e: "events sha s tx = Inr evs" and f: "List.find (\<lambda>e. fst e = ''receipt'') (rev evs) \<noteq> None"
    by (auto simp: receipt_def split: sum.splits)
  from f obtain ev where ev: "ev \<in> set evs" "fst ev = ''receipt''" by (auto simp: find_None_iff)
  from e obtain d where "chain sha tx 1 '''' (rows_of s tx) = Inr (d, evs)" by (auto simp: events_def split: sum.splits if_splits)
  from chain_events [OF this] ev obtain j where "j \<in> set (rows_of s tx)" "jr_event j = ''receipt''"
    by (auto simp: event_of_def)
  then show ?thesis by (auto simp: rows_of_def)
qed

lemma complete_only:
  assumes x: "\<And>a device. x \<noteq> OpComplete a device" and c: "phase_at (apply_op sha root x s) tx = Some PComplete"
  shows "phase_at s tx = Some PComplete"
proof -
  let ?P = "\<lambda>s'. phase_at s' tx = Some PComplete \<longrightarrow> phase_at s tx = Some PComplete"
  have "?P (apply_op sha root x s)"
  proof (cases x)
    case (OpCreate plan approval admission t)
    show ?thesis unfolding apply_op_def OpCreate store_op.case
      by (rule settle_cases [where P = ?P]) (auto simp: phase_at_def split: if_splits dest!: create_Inr)
  next
    case (OpApprove t seal)
    show ?thesis unfolding apply_op_def OpApprove store_op.case
      by (rule settle_cases [where P = ?P]) (auto simp: phase_set_row split: if_splits dest!: approve_Inr)
  next
    case (OpReserve t dev rs)
    show ?thesis unfolding apply_op_def OpReserve store_op.case
      by (rule settle_cases [where P = ?P]) (auto simp: phase_set_row split: if_splits elim!: reserve_write_Inr)
  next
    case (OpRefuse t dev rs refused interrupted)
    show ?thesis unfolding apply_op_def OpRefuse store_op.case
      by (rule settle_cases [where P = ?P])
        (auto simp: phase_set_row OUTCOMES_def split: if_splits elim!: refuse_preclaim_Inr)
  next
    case (OpClaim t dev a rs)
    show ?thesis unfolding apply_op_def OpClaim store_op.case
      by (rule settle_cases [where P = ?P]) (auto simp: phase_set_row split: if_splits elim!: claim_Inr)
  next
    case (OpTransition a dev state reason)
    show ?thesis unfolding apply_op_def OpTransition store_op.case
      by (rule settle_cases [where P = ?P])
        (auto simp: phase_set_row split: if_splits elim!: transition_Inr dest: transitions_target)
  next
    case (OpStop t)
    show ?thesis unfolding apply_op_def OpStop store_op.case
      by (rule settle_cases [where P = ?P]) (auto simp: phase_set_row phase_at_def request_stop_def split: if_splits)
  next
    case (OpAppend t event payload expected a dev)
    show ?thesis unfolding apply_op_def OpAppend store_op.case
      by (rule settle_cases [where P = ?P]) (auto simp: phase_set_row phase_at_def split: if_splits elim!: append_event_Inr)
  qed (use x in simp)
  with c show ?thesis by blast
qed

lemma complete_phase:
  assumes "phase_at (apply_op sha root x s) tx = Some PComplete"
  shows "phase_at s tx = Some PComplete \<or> (\<exists>j \<in> set (st_journal s). jr_tx j = tx \<and> jr_event j = ''receipt'')"
proof (cases "\<exists>a device. x = OpComplete a device")
  case True
  then obtain a device where x: "x = OpComplete a device" by blast
  show ?thesis
  proof (cases "complete sha a device s")
    case (Inr w)
    then have c: "complete sha a device s = Inr ((), snd w)" by (cases w) simp
    then show ?thesis
    proof (rule complete_Inr)
      fix r o' rc
      assume rc: "receipt sha s (at_owner a) = Inr (Some rc)"
        and s': "snd w = set_row (at_owner a) (\<lambda>r. r\<lparr>tx_state := PComplete, tx_reason := ''''\<rparr>)
          (s\<lparr>st_owners := filter (\<lambda>o'. \<not> (ow_device o' = device \<and> ow_tx o' = at_owner a)) (st_owners s)\<rparr>)"
      have "apply_op sha root x s = snd w" using Inr by (simp add: x apply_op_def settle_def)
      with assms s' have "tx = at_owner a \<or> phase_at s tx = Some PComplete"
        by (auto simp: phase_set_row split: if_splits)
      with receipt_row [OF rc] show ?thesis by blast
    qed
  next
    case (Inl e)
    with assms show ?thesis by (simp add: x apply_op_def settle_def)
  qed
next
  case False
  then have "phase_at s tx = Some PComplete" by (intro complete_only [OF _ assms]) simp
  then show ?thesis ..
qed

lemma receipted_step:
  assumes "journal_ok sha s" "receipted s"
  shows "receipted (apply_op sha root x s)"
  unfolding receipted_def
proof (intro allI impI)
  fix tx
  assume "phase_at (apply_op sha root x s) tx = Some PComplete"
  from complete_phase [OF this] assms(2) obtain j where j: "j \<in> set (st_journal s)" "jr_tx j = tx" "jr_event j = ''receipt''"
    unfolding receipted_def by blast
  then have "j \<in> set (tx_rows s tx)" by (simp add: tx_rows_def)
  with journal_step [OF assms(1), of root x tx] have "j \<in> set (tx_rows (apply_op sha root x s) tx)" by auto
  with j show "\<exists>j \<in> set (st_journal (apply_op sha root x s)). jr_tx j = tx \<and> jr_event j = ''receipt''"
    by (auto simp: tx_rows_def)
qed

lemma receipted_reachable:
  "journal_ok sha (run_ops sha root ops empty_store) \<and> receipted (run_ops sha root ops empty_store)"
proof (rule run_ops_invariant [where P = "\<lambda>s. journal_ok sha s \<and> receipted s"])
  show "journal_ok sha empty_store \<and> receipted empty_store"
    by (rule conjI [OF journal_empty]) (simp add: receipted_def phase_at_def empty_store_def)
qed (use receipted_step journal_step in blast)

text \<open>C21: A transaction is complete only with its receipt: in every reachable store the journal of a
  complete transaction can be read and contains a receipt.\<close>

theorem complete_has_receipt:
  assumes "phase_at (run_ops sha root ops empty_store) tx = Some PComplete"
  shows "case events sha (run_ops sha root ops empty_store) tx of Inl _ \<Rightarrow> False
    | Inr evs \<Rightarrow> list_ex (\<lambda>e. fst e = ''receipt'') evs"
proof -
  let ?s = "run_ops sha root ops empty_store"
  note inv = receipted_reachable [of sha root ops]
  from assms obtain r where "st_txs ?s tx = Some r" by (auto simp: phase_at_def)
  then have h: "head ?s tx = Some (tx_journal_seq r, tx_journal_digest r)" by (simp add: head_def)
  from inv assms obtain j where "j \<in> set (tx_rows ?s tx)" "jr_event j = ''receipt''"
    by (auto simp: receipted_def tx_rows_def)
  then have "list_ex (\<lambda>e. fst e = ''receipt'') (map event_of (tx_rows ?s tx))"
    by (auto simp: list_ex_iff event_of_def)
  with events_ok [OF conjunct1 [OF inv] h] show ?thesis by simp
qed

end
