(* ===== verification/SliceRefine.thy ===== *)
theory SliceRefine
  imports SliceJournal
begin

text \<open>
  What a client of the store may rely on, as an automaton over leases. A lease state knows the
  phase of every transaction, who holds which destination under which attempt, and the events
  written so far; it knows nothing of seals, plans, stop counters, sequence numbers and digests.
  Every operation of the store is a step of the automaton. The second half shows that the store
  does not refuse for ever: a running transaction that nobody wants stopped can be resumed and
  carried to completion from every reachable store.
\<close>

section \<open>The lease automaton\<close>

record lease_state =
  ls_phase :: "str \<Rightarrow> phase option"
  ls_holder :: "str \<Rightarrow> (str \<times> str option) option"
  ls_log :: "str \<Rightarrow> (str \<times> json) list"

definition no_leases :: lease_state where
  "no_leases = \<lparr>ls_phase = (\<lambda>_. None), ls_holder = (\<lambda>_. None), ls_log = (\<lambda>_. [])\<rparr>"

definition at_phase :: "str \<Rightarrow> phase \<Rightarrow> lease_state \<Rightarrow> lease_state" where
  "at_phase tx p l = l\<lparr>ls_phase := (ls_phase l)(tx := Some p)\<rparr>"

definition held :: "str \<Rightarrow> (str \<times> str option) option \<Rightarrow> lease_state \<Rightarrow> lease_state" where
  "held device h l = l\<lparr>ls_holder := (ls_holder l)(device := h)\<rparr>"

definition logged :: "str \<Rightarrow> str \<times> json \<Rightarrow> lease_state \<Rightarrow> lease_state" where
  "logged tx e l = l\<lparr>ls_log := (ls_log l)(tx := ls_log l tx @ [e])\<rparr>"

inductive lease_step :: "lease_state \<Rightarrow> lease_state \<Rightarrow> bool" where
  lease_skip: "lease_step l l"
| lease_new: "ls_phase l tx = None \<Longrightarrow> ls_log l tx = [] \<Longrightarrow> lease_step l (at_phase tx PReady l)"
| lease_approve: "ls_phase l tx = Some p \<Longrightarrow> p \<in> {PReady, PApproved} \<Longrightarrow> lease_step l (at_phase tx PApproved l)"
| lease_take: "ls_phase l tx = Some p \<Longrightarrow> p \<in> RESUMABLE_STATES \<Longrightarrow> ls_holder l device = None \<Longrightarrow>
    (\<forall>d t. ls_holder l d \<noteq> Some (tx, t)) \<Longrightarrow>
    lease_step l (at_phase tx PStarting (held device (Some (tx, None)) l))"
| lease_refuse: "ls_holder l device = Some (tx, t) \<Longrightarrow> ls_phase l tx = Some p \<Longrightarrow> p \<in> RESUMABLE_STATES \<Longrightarrow> q \<in> OUTCOMES \<Longrightarrow>
    lease_step l (at_phase tx q l)"
| lease_attempt: "ls_holder l device = Some (tx, t) \<Longrightarrow> ls_phase l tx = Some p \<Longrightarrow> p \<in> RESUMABLE_STATES \<Longrightarrow>
    q \<in> {PStarting, PStopped} \<Longrightarrow> lease_step l (at_phase tx q (held device (Some (tx, Some token)) l))"
| lease_move: "ls_holder l device = Some (tx, Some token) \<Longrightarrow> ls_phase l tx = Some p \<Longrightarrow> TRANSITIONS p = Some qs \<Longrightarrow> q \<in> qs \<Longrightarrow>
    lease_step l (at_phase tx q l)"
| lease_log: "ls_holder l device = Some (tx, Some token) \<Longrightarrow> ls_phase l tx = Some p \<Longrightarrow> p \<in> {PTransferring, PVerifying} \<Longrightarrow>
    lease_step l (logged tx e l)"
| lease_finish: "ls_holder l device = Some (tx, Some token) \<Longrightarrow> ls_phase l tx = Some PVerifying \<Longrightarrow>
    list_ex (\<lambda>e. fst e = ''receipt'') (ls_log l tx) \<Longrightarrow>
    lease_step l (at_phase tx PComplete (held device None l))"

inductive_cases lease_stepE: "lease_step l l'"

text \<open>The lease view of a store.\<close>

definition log_at :: "(str \<Rightarrow> str) \<Rightarrow> store \<Rightarrow> str \<Rightarrow> (str \<times> json) list" where
  "log_at sha s tx = (case events sha s tx of Inl _ \<Rightarrow> [] | Inr es \<Rightarrow> es)"

definition holder_at :: "store \<Rightarrow> str \<Rightarrow> (str \<times> str option) option" where
  "holder_at s device = map_option (\<lambda>o'. (ow_tx o', ow_attempt o')) (owner_of s device)"

definition lease_of :: "(str \<Rightarrow> str) \<Rightarrow> store \<Rightarrow> lease_state" where
  "lease_of sha s = \<lparr>ls_phase = phase_at s, ls_holder = holder_at s, ls_log = log_at sha s\<rparr>"

definition store_ok :: "(str \<Rightarrow> str) \<Rightarrow> store \<Rightarrow> bool" where
  "store_ok sha s \<longleftrightarrow> claims_ok sha s \<and> journal_ok sha s"

lemma store_ok_reachable: "store_ok sha (run_ops sha root ops empty_store)"
  by (simp add: store_ok_def claims_reachable journal_reachable)

lemma lease_of_simps [simp]:
  "ls_phase (lease_of sha s) = phase_at s" "ls_holder (lease_of sha s) = holder_at s" "ls_log (lease_of sha s) = log_at sha s"
  by (simp_all add: lease_of_def)

lemma lease_eqI:
  "ls_phase l = ls_phase m \<Longrightarrow> ls_holder l = ls_holder m \<Longrightarrow> ls_log l = ls_log m \<Longrightarrow> l = (m :: lease_state)"
  by simp

lemma lease_sel [simp]:
  "ls_phase (at_phase tx p l) = (ls_phase l)(tx := Some p)" "ls_holder (at_phase tx p l) = ls_holder l" "ls_log (at_phase tx p l) = ls_log l"
  "ls_phase (held d h l) = ls_phase l" "ls_holder (held d h l) = (ls_holder l)(d := h)" "ls_log (held d h l) = ls_log l"
  "ls_phase (logged tx e l) = ls_phase l" "ls_holder (logged tx e l) = ls_holder l"
  "ls_log (logged tx e l) = (ls_log l)(tx := ls_log l tx @ [e])"
  by (simp_all add: at_phase_def held_def logged_def)

section \<open>Logs\<close>

lemma log_rows:
  assumes "journal_ok sha s"
  shows "log_at sha s tx = map event_of (tx_rows s tx)"
proof (cases "head s tx")
  case None
  then have "tx_rows s tx = []" using journal_okD [OF assms, of tx] by simp
  then show ?thesis using None by (simp add: log_at_def events_def rows_of_def tx_rows_def)
next
  case (Some nd)
  obtain n d where "nd = (n, d)" by (cases nd)
  with events_ok [OF assms, of tx n d] Some show ?thesis by (simp add: log_at_def)
qed

lemma log_same:
  assumes "journal_ok sha s" "journal_ok sha s'" "st_journal s' = st_journal s"
  shows "log_at sha s' = log_at sha s"
proof
  fix tx
  from tx_rows_same [OF assms(3)] show "log_at sha s' tx = log_at sha s tx"
    by (simp only: log_rows assms(1,2))
qed

section \<open>Holders\<close>

lemma holder_simps [simp]:
  "holder_at (set_row tx f s) = holder_at s" "holder_at (s\<lparr>st_journal := j\<rparr>) = holder_at s" "holder_at (s\<lparr>st_txs := x\<rparr>) = holder_at s"
  by (simp_all add: holder_at_def fun_eq_iff)

lemma holder_attempt:
  assumes "owner s device = Some tx"
  shows "holder_at (set_attempt device tx t s) = (holder_at s)(device := Some (tx, Some t))"
proof
  fix d
  show "holder_at (set_attempt device tx t s) d = ((holder_at s)(device := Some (tx, Some t))) d"
  proof (cases "owner_of s d")
    case None
    with assms show ?thesis by (auto simp: holder_at_def owner_of_attempt owner_def)
  next
    case (Some w)
    from owner_of_Some [OF Some] have "ow_device w = d" ..
    with Some assms show ?thesis by (auto simp: holder_at_def owner_of_attempt owner_def)
  qed
qed

lemma holder_append:
  "owner_of s (ow_device w) = None \<Longrightarrow>
    holder_at (s\<lparr>st_owners := st_owners s @ [w]\<rparr>) = (holder_at s)(ow_device w := Some (ow_tx w, ow_attempt w))"
  by (auto simp: holder_at_def fun_eq_iff owner_of_append split: option.splits)

lemma holder_release:
  assumes "claims_ok sha s" "owner_of s device = Some w" "ow_tx w = tx"
  shows "holder_at (s\<lparr>st_owners := filter (\<lambda>o'. \<not> (ow_device o' = device \<and> ow_tx o' = tx)) (st_owners s)\<rparr>)
    = (holder_at s)(device := None)"
proof
  have d: "distinct (map ow_device (st_owners s))"
    using assms(1) by (simp add: claims_ok_def keys_distinct_def claim_keys_def comp_def)
  fix e
  show "holder_at (s\<lparr>st_owners := filter (\<lambda>o'. \<not> (ow_device o' = device \<and> ow_tx o' = tx)) (st_owners s)\<rparr>) e
    = ((holder_at s)(device := None)) e"
    using assms(2,3) owner_of_Some [of s e]
    by (auto simp: holder_at_def owner_of_filter [OF d] split: option.splits)
qed

lemma holder_owner: "owner s device = Some tx \<Longrightarrow> \<exists>t. holder_at s device = Some (tx, t)"
  by (auto simp: owner_def holder_at_def)

lemma holder_none:
  assumes "\<not> list_ex (\<lambda>o'. ow_tx o' = tx) (st_owners s)"
  shows "holder_at s d \<noteq> Some (tx, t)"
  using assms owner_of_Some [of s d] by (auto simp: holder_at_def list_ex_iff)

lemma phase_upd:
  assumes "st_txs s tx = Some r" "tx_state (f r) = q"
  shows "phase_at (set_row tx f s) = (phase_at s)(tx := Some q)"
  using assms by (auto simp: fun_eq_iff phase_set_row)

lemma phase_keep:
  assumes "\<And>r. st_txs s tx = Some r \<Longrightarrow> tx_state (f r) = tx_state r"
  shows "phase_at (set_row tx f s) = phase_at s"
  using assms by (cases "st_txs s tx") (auto simp: fun_eq_iff phase_set_row phase_at_def)

section \<open>Simulation\<close>

text \<open>One operation that leaves the journals alone, by what it does to phases and holders.\<close>

lemma lease_ofI:
  assumes "store_ok sha s" "store_ok sha s'" "st_journal s' = st_journal s" "phase_at s' = ls_phase l" "holder_at s' = ls_holder l"
    "ls_log l = log_at sha s"
  shows "lease_of sha s' = l"
  using assms log_same [of sha s s'] by (intro lease_eqI) (simp_all add: store_ok_def)

lemma lease_settle:
  assumes "\<And>v s'. r = Inr (v, s') \<Longrightarrow> lease_step (lease_of sha s) (lease_of sha s')"
  shows "lease_step (lease_of sha s) (lease_of sha (settle s r))"
proof (cases r)
  case (Inl e)
  then show ?thesis by (simp add: settle_def lease_skip)
next
  case (Inr x)
  then show ?thesis using assms [of "fst x" "snd x"] by (simp add: settle_def)
qed

lemma store_ok_step: "store_ok sha s \<Longrightarrow> store_ok sha (apply_op sha root x s)"
  by (simp add: store_ok_def claims_step journal_step)

lemma settled_ok:
  assumes "store_ok sha s" "apply_op sha root x s = settle s r" "r = Inr (v, s')"
  shows "store_ok sha s'"
  using store_ok_step [OF assms(1), of root x] by (simp add: assms(2,3) settle_def)

lemma create_lease:
  assumes ok: "store_ok sha s" and c: "create sha root plan approval admission tx s = Inr (v, s')"
  shows "lease_step (lease_of sha s) (lease_of sha s')"
proof -
  have ok': "store_ok sha s'"
    by (rule settled_ok [OF ok _ c, of root "OpCreate plan approval admission tx"]) (simp add: apply_op_def)
  note eff = create_Inr [OF c]
  have "tx_rows s tx = []"
    using journal_okD [of sha s tx] ok eff by (simp add: store_ok_def head_def)
  then have "lease_step (lease_of sha s) (at_phase tx PReady (lease_of sha s))"
    using ok eff by (intro lease_new) (simp_all add: phase_at_def log_rows store_ok_def)
  moreover have "lease_of sha s' = at_phase tx PReady (lease_of sha s)"
    by (rule lease_ofI [OF ok ok']) (use eff in \<open>auto simp: phase_at_def fun_eq_iff\<close>)
  ultimately show ?thesis by simp
qed

lemma approve_lease:
  assumes ok: "store_ok sha s" and c: "approve sha tx seal s = Inr (v, s')"
  shows "lease_step (lease_of sha s) (lease_of sha s')"
proof -
  have ok': "store_ok sha s'" by (rule settled_ok [OF ok _ c, of undefined "OpApprove tx seal"]) (simp add: apply_op_def)
  from approve_Inr [OF c] obtain r where r: "st_txs s tx = Some r" "tx_state r \<in> {PReady, PApproved}"
    and s': "s' = set_row tx (\<lambda>r. r\<lparr>tx_state := PApproved\<rparr>) s" by blast
  have "lease_of sha s' = at_phase tx PApproved (lease_of sha s)"
    by (rule lease_ofI [OF ok ok']) (simp_all add: s' phase_upd [OF r(1)])
  moreover have "lease_step (lease_of sha s) (at_phase tx PApproved (lease_of sha s))"
    by (rule lease_approve [of _ _ "tx_state r"]) (use r in \<open>simp_all add: phase_at_def\<close>)
  ultimately show ?thesis by simp
qed

lemma reserve_lease:
  assumes ok: "store_ok sha s" and c: "reserve_write sha tx device rs s = Inr (v, s')"
  shows "lease_step (lease_of sha s) (lease_of sha s')"
  using c
proof (cases rule: reserve_write_Inr)
  case 1
  then show ?thesis by (simp add: lease_skip)
next
  case (2 r p)
  have ok': "store_ok sha s'" by (rule settled_ok [OF ok _ c, of undefined "OpReserve tx device rs"]) (simp add: apply_op_def)
  have cl: "claims_ok sha s" using ok by (simp add: store_ok_def)
  have none: "\<not> list_ex (\<lambda>o'. ow_tx o' = tx) (st_owners s)" by (rule claims_reserve(1) [OF cl 2(1,2,4,5,7,6)])
  then have s': "s' = set_row tx (\<lambda>r. r\<lparr>tx_state := PStarting, tx_reason := ''''\<rparr>)
      (s\<lparr>st_owners := st_owners s @ [\<lparr>ow_device = device, ow_tx = tx, ow_attempt = None\<rparr>]\<rparr>)" using 2(9) by simp
  have "phase_at s' = (phase_at s)(tx := Some PStarting)"
    unfolding s' by (subst phase_upd [of _ tx r]) (use 2(1) in simp_all)
  moreover have "holder_at s' = (holder_at s)(device := Some (tx, None))"
    unfolding s' by (simp add: holder_append [of s "\<lparr>ow_device = device, ow_tx = tx, ow_attempt = None\<rparr>", simplified] 2(7))
  ultimately have "lease_of sha s' = at_phase tx PStarting (held device (Some (tx, None)) (lease_of sha s))"
    by (intro lease_ofI [OF ok ok']) (simp_all add: s')
  moreover have "lease_step (lease_of sha s) (at_phase tx PStarting (held device (Some (tx, None)) (lease_of sha s)))"
    by (rule lease_take [of _ _ "tx_state r"])
      (use 2 holder_none [OF none] in \<open>simp_all add: phase_at_def holder_at_def [of s device]\<close>)
  ultimately show ?thesis by simp
qed

lemma refuse_lease:
  assumes ok: "store_ok sha s" and c: "refuse_preclaim tx device rs refused interrupted s = Inr (v, s')"
  shows "lease_step (lease_of sha s) (lease_of sha s')"
  using c
proof (rule refuse_preclaim_Inr)
  fix r and f :: "tx_row \<Rightarrow> tx_row"
  assume r: "owner s device = Some tx" "st_txs s tx = Some r" "tx_state r \<in> RESUMABLE_STATES"
    and s': "s' = set_row tx f s" and q: "tx_state (f r) \<in> OUTCOMES"
  have ok': "store_ok sha s'"
    by (rule settled_ok [OF ok _ c, of undefined "OpRefuse tx device rs refused interrupted"]) (simp add: apply_op_def)
  have "lease_of sha s' = at_phase tx (tx_state (f r)) (lease_of sha s)"
    by (rule lease_ofI [OF ok ok']) (simp_all add: s' phase_upd [OF r(2)])
  moreover obtain t where "holder_at s device = Some (tx, t)" using holder_owner [OF r(1)] by blast
  then have "lease_step (lease_of sha s) (at_phase tx (tx_state (f r)) (lease_of sha s))"
    by (intro lease_refuse [of _ device _ t "tx_state r"]) (use r q in \<open>simp_all add: phase_at_def\<close>)
  ultimately show ?thesis by simp
qed

lemma claim_lease:
  assumes ok: "store_ok sha s" and c: "claim sha tx device a rs s = Inr (v, s')"
  shows "lease_step (lease_of sha s) (lease_of sha s')"
proof -
  have ok': "store_ok sha s'" by (rule settled_ok [OF ok _ c, of undefined "OpClaim tx device a rs"]) (simp add: apply_op_def)
  have step: "lease_step (lease_of sha s) (lease_of sha s')"
    if r: "owner s device = Some tx" "st_txs s tx = Some r" "tx_state r \<in> RESUMABLE_STATES"
      and s': "s' = set_row tx f (set_attempt device tx t s)" and q: "tx_state (f r) \<in> {PStarting, PStopped}" for r f t
  proof -
    have "lease_of sha s' = at_phase tx (tx_state (f r)) (held device (Some (tx, Some t)) (lease_of sha s))"
      by (rule lease_ofI [OF ok ok']) (use r in \<open>simp_all add: s' phase_upd [of _ tx r] holder_attempt\<close>)
    moreover obtain u where "holder_at s device = Some (tx, u)" using holder_owner [OF r(1)] by blast
    then have "lease_step (lease_of sha s) (at_phase tx (tx_state (f r)) (held device (Some (tx, Some t)) (lease_of sha s)))"
      by (intro lease_attempt [of _ device _ u "tx_state r"]) (use r q in \<open>simp_all add: phase_at_def\<close>)
    ultimately show ?thesis by simp
  qed
  show ?thesis
    using c
  proof (cases rule: claim_Inr)
    case complete
    then show ?thesis by (simp add: lease_skip)
  next
    case (stopped r p)
    show ?thesis by (rule step [OF stopped(1,3,4,9)]) simp
  next
    case (starting r p)
    show ?thesis by (rule step [OF starting(1,3,4,9)]) simp
  qed
qed

lemma holder_exact:
  "owner_of s device = Some o' \<Longrightarrow> ow_tx o' = tx \<Longrightarrow> ow_attempt o' = t \<Longrightarrow> holder_at s device = Some (tx, t)"
  by (simp add: holder_at_def)

lemma transition_lease:
  assumes ok: "store_ok sha s" and c: "transition a device q why s = Inr (v, s')"
  shows "lease_step (lease_of sha s) (lease_of sha s')"
  using c
proof (rule transition_Inr)
  fix r o' state' reason' allowed
  assume r: "st_txs s (at_owner a) = Some r" "owner_of s device = Some o'" "ow_tx o' = at_owner a" "ow_attempt o' = Some (at_token a)"
    and t: "TRANSITIONS (tx_state r) = Some allowed" "state' \<in> allowed"
    and s': "s' = set_row (at_owner a) (\<lambda>r. r\<lparr>tx_state := state', tx_reason := reason',
            tx_acknowledged := (if state' = PStopped then tx_stop_serial r else tx_acknowledged r)\<rparr>) s"
  have ok': "store_ok sha s'" by (rule settled_ok [OF ok _ c, of undefined "OpTransition a device q why"]) (simp add: apply_op_def)
  have "lease_of sha s' = at_phase (at_owner a) state' (lease_of sha s)"
    by (rule lease_ofI [OF ok ok']) (simp_all add: s' phase_upd [OF r(1)])
  moreover have "lease_step (lease_of sha s) (at_phase (at_owner a) state' (lease_of sha s))"
    by (rule lease_move [of _ device _ "at_token a" "tx_state r"])
      (use r t holder_exact [OF r(2-4)] in \<open>simp_all add: phase_at_def\<close>)
  ultimately show ?thesis by simp
qed

lemma stop_lease:
  assumes ok: "store_ok sha s" and c: "request_stop tx s = Inr (v, s')"
  shows "lease_step (lease_of sha s) (lease_of sha s')"
proof -
  have ok': "store_ok sha s'" by (rule settled_ok [OF ok _ c, of undefined "OpStop tx"]) (simp add: apply_op_def)
  from c have s': "s' = set_row tx (\<lambda>r. r\<lparr>tx_stop := True, tx_stop_serial := tx_stop_serial r + 1\<rparr>) s" by (simp add: request_stop_def)
  have "lease_of sha s' = lease_of sha s"
    by (rule lease_ofI [OF ok ok']) (simp_all add: s' phase_keep)
  then show ?thesis by (simp add: lease_skip)
qed

lemma append_lease:
  assumes ok: "store_ok sha s" and c: "append_event sha tx event payload expected a device s = Inr (v, s')"
  shows "lease_step (lease_of sha s) (lease_of sha s')"
  using c
proof (rule append_event_Inr)
  fix r o'
  assume r: "st_txs s tx = Some r" "tx_state r \<in> {PTransferring, PVerifying}" "owner_of s device = Some o'" "ow_tx o' = tx"
      "ow_attempt o' = Some (at_token a)"
    and s': "s' = set_row tx (\<lambda>r. r\<lparr>tx_journal_seq := fst v, tx_journal_digest := snd v\<rparr>)
       (s\<lparr>st_journal := st_journal s @ [\<lparr>jr_tx = tx, jr_seq = fst v, jr_event = event, jr_payload = payload, jr_digest = snd v\<rparr>]\<rparr>)"
  have j: "journal_ok sha s" using ok by (simp add: store_ok_def)
  have "log_at sha s' = (log_at sha s)(tx := log_at sha s tx @ [(event, payload)])"
    by (rule ext) (simp add: log_rows [OF j] log_rows [OF append_rows(2) [OF j c]] append_rows(1) [OF j c] event_of_def)
  then have "lease_of sha s' = logged tx (event, payload) (lease_of sha s)"
    by (intro lease_eqI) (simp_all add: s' phase_keep)
  moreover have "lease_step (lease_of sha s) (logged tx (event, payload) (lease_of sha s))"
    by (rule lease_log [of _ device _ "at_token a" "tx_state r"])
      (use r holder_exact [OF r(3-5)] in \<open>simp_all add: phase_at_def\<close>)
  ultimately show ?thesis by simp
qed

lemma receipt_logged: "receipt sha s tx = Inr (Some rc) \<Longrightarrow> list_ex (\<lambda>e. fst e = ''receipt'') (log_at sha s tx)"
  by (auto simp: receipt_def log_at_def list_ex_iff find_Some_iff split: sum.splits) (metis nth_mem set_rev length_rev fst_conv)

lemma complete_lease:
  assumes ok: "store_ok sha s" and c: "complete sha a device s = Inr (v, s')"
  shows "lease_step (lease_of sha s) (lease_of sha s')"
  using c
proof (rule complete_Inr)
  fix r o' rc
  let ?tx = "at_owner a"
  assume rc: "receipt sha s ?tx = Inr (Some rc)" and r: "st_txs s ?tx = Some r" "tx_state r = PVerifying" "owner_of s device = Some o'"
      "ow_tx o' = ?tx" "ow_attempt o' = Some (at_token a)"
    and s': "s' = set_row ?tx (\<lambda>r. r\<lparr>tx_state := PComplete, tx_reason := ''''\<rparr>)
       (s\<lparr>st_owners := filter (\<lambda>o'. \<not> (ow_device o' = device \<and> ow_tx o' = ?tx)) (st_owners s)\<rparr>)"
  have cl: "claims_ok sha s" using ok by (simp add: store_ok_def)
  have ok': "store_ok sha s'" by (rule settled_ok [OF ok _ c, of undefined "OpComplete a device"]) (simp add: apply_op_def)
  have "holder_at s' = (holder_at s)(device := None)"
    unfolding s' by (simp only: holder_simps holder_release [OF cl r(3,4)])
  then have "lease_of sha s' = at_phase ?tx PComplete (held device None (lease_of sha s))"
    by (intro lease_ofI [OF ok ok']) (use r in \<open>simp_all add: s' phase_upd [of _ ?tx r]\<close>)
  moreover have "lease_step (lease_of sha s) (at_phase ?tx PComplete (held device None (lease_of sha s)))"
    by (rule lease_finish [of _ device _ "at_token a"])
      (use r holder_exact [OF r(3-5)] receipt_logged [OF rc] in \<open>simp_all add: phase_at_def\<close>)
  ultimately show ?thesis by simp
qed

lemma op_lease_step:
  assumes ok: "store_ok sha s"
  shows "lease_step (lease_of sha s) (lease_of sha (apply_op sha root x s))"
  by (cases x; simp only: apply_op_def store_op.case; rule lease_settle)
    (erule create_lease [OF ok] approve_lease [OF ok] reserve_lease [OF ok] refuse_lease [OF ok] claim_lease [OF ok]
      transition_lease [OF ok] stop_lease [OF ok] append_lease [OF ok] complete_lease [OF ok])+

text \<open>C12: The store refines the lease automaton: from every reachable store each operation, accepted or
  refused, does to phases, holders and event logs exactly one step of the automaton.\<close>

theorem store_refines_leases:
  "lease_step (lease_of sha (run_ops sha root ops empty_store))
     (lease_of sha (apply_op sha root x (run_ops sha root ops empty_store)))"
  by (rule op_lease_step [OF store_ok_reachable])

section \<open>Resuming and completing\<close>

text \<open>A running row that nobody wants stopped, or whose stop has been acknowledged.\<close>

definition restartable :: "tx_row \<Rightarrow> bool" where
  "restartable r \<longleftrightarrow> tx_state r \<in> RUNNING_STATES \<and> (\<not> tx_stop r \<or> tx_state r = PStopped \<and> tx_acknowledged r = tx_stop_serial r)"

lemma conflict_clear:
  assumes ok: "claims_ok sha s" and own: "owner s device = Some tx" and p: "plan_at s tx = Some p"
  shows "conflict sha s tx p = Inr ()"
proof -
  have key: "(device, tx) \<in> set (claim_keys s)" by (rule owner_key [OF own])
  let ?f = "\<lambda>w. case st_txs s (ow_tx w) of None \<Rightarrow> Inr ()
      | Some r \<Rightarrow> (case load_plan (tx_plan r) of Inl e \<Rightarrow> Inl e | Inr other \<Rightarrow>
          if plan_seal sha other \<noteq> tx_seal r then Inl (Refusal ''STATE_CORRUPT'' ''existing claim has a corrupt plan'')
          else (case claims_overlap p other of Inl e \<Rightarrow> Inl e
                | Inr b \<Rightarrow> if b then Inl (Refusal ''DESTINATION_BUSY'' (ow_tx w)) else Inr ()))"
  have "?f w = Inr ()" if w: "w \<in> set (filter (\<lambda>w. ow_tx w \<noteq> tx) (st_owners s))" for w
  proof -
    from w have wk: "(ow_device w, ow_tx w) \<in> set (claim_keys s)" "ow_tx w \<noteq> tx" by (auto simp: claim_keys_def)
    from ok wk(1) obtain q where q: "plan_at s (ow_tx w) = Some q"
      unfolding claims_ok_def owners_started_def by fastforce
    from ok have "owners_apart s" by (simp add: claims_ok_def)
    with key wk have "disjoint_plans (plan_at s tx) (plan_at s (ow_tx w))"
      unfolding owners_apart_def by (metis snd_conv)
    then have "claims_overlap p q = Inr False" by (simp add: p q)
    moreover from q obtain r where r: "st_txs s (ow_tx w) = Some r" "tx_plan r = Stored q"
      by (auto simp: plan_at_def split: option.splits stored_plan.splits)
    moreover have "tx_seal r = plan_seal sha q" using ok r by (fastforce simp: claims_ok_def sealed_rows_def)
    ultimately show ?thesis by (simp add: load_plan_def)
  qed
  then have "\<exists>us. try_map ?f (filter (\<lambda>w. ow_tx w \<noteq> tx) (st_owners s)) = Inr us"
    by (intro try_map_total ballI exI)
  then obtain us where "try_map ?f (filter (\<lambda>w. ow_tx w \<noteq> tx) (st_owners s)) = Inr us" ..
  then show ?thesis unfolding conflict_def by (simp only: sum.case)
qed

lemma started_owner:
  assumes ok: "claims_ok sha s" and r: "st_txs s tx = Some r" "tx_plan r = Stored p" "\<not> idle (tx_state r)"
  shows "owner s (device_id sha p) = Some tx"
proof -
  have "phase_at s tx = Some (tx_state r)" using r(1) by (simp add: phase_at_def)
  with ok r(3) obtain k where k: "k \<in> set (claim_keys s)" "snd k = tx"
    unfolding claims_ok_def started_owned_def by blast
  with ok r(1,2) have dev: "fst k = device_id sha p" by (auto simp: claims_ok_def owners_started_def plan_at_def)
  from k dev obtain w where w: "w \<in> set (st_owners s)" "ow_device w = device_id sha p" "ow_tx w = tx" by (auto simp: claim_keys_def)
  have "inj_on fst (set (claim_keys s))" using ok by (simp add: claims_ok_def keys_distinct_def distinct_map)
  moreover obtain v where v: "owner_of s (device_id sha p) = Some v"
    using w by (cases "owner_of s (device_id sha p)") (auto simp: owner_of_None)
  moreover from v have "(device_id sha p, ow_tx v) \<in> set (claim_keys s)" by (intro owner_key) (simp add: owner_def)
  ultimately have "(device_id sha p, ow_tx v) = k" using k(1) dev by (intro inj_onD [of fst]) simp_all
  with k(2) v show ?thesis by (auto simp: owner_def)
qed

text \<open>An attempt that may go on: it holds the destination, in the given phase, with no stop pending.\<close>

definition live :: "(str \<Rightarrow> str) \<Rightarrow> store \<Rightarrow> attempt \<Rightarrow> str \<Rightarrow> phase \<Rightarrow> bool" where
  "live sha s a device p \<longleftrightarrow> store_ok sha s \<and> holder_at s device = Some (at_owner a, Some (at_token a))
     \<and> (\<exists>r. st_txs s (at_owner a) = Some r \<and> tx_state r = p \<and> \<not> tx_stop r)"

lemma require_attempt_live:
  assumes "live sha s a device p" "p \<in> RUNNING_STATES"
  shows "require_attempt s a device allow = Inr (p, False)"
  using assms
  by (auto simp: live_def require_attempt_def holder_at_def owner_def require_current_def)

lemma live_row:
  assumes "live sha s a device p"
  obtains r where "st_txs s (at_owner a) = Some r" "tx_state r = p" "\<not> tx_stop r"
  using assms by (auto simp: live_def)

lemma live_move:
  assumes l: "live sha s a device p" and t: "TRANSITIONS p = Some qs" "q \<in> qs" and q: "q \<in> RUNNING_STATES"
  shows "live sha (apply_op sha root (OpTransition a device q why) s) a device q"
proof -
  from t(1) have "p \<in> RUNNING_STATES" by (simp add: transitions_running)
  note req = require_attempt_live [OF l this]
  obtain r where r: "st_txs s (at_owner a) = Some r" "tx_state r = p" "\<not> tx_stop r" by (rule live_row [OF l])
  let ?s = "apply_op sha root (OpTransition a device q why) s"
  have s': "?s = set_row (at_owner a) (\<lambda>r. r\<lparr>tx_state := q, tx_reason := why,
      tx_acknowledged := (if q = PStopped then tx_stop_serial r else tx_acknowledged r)\<rparr>) s"
    using t q by (simp add: apply_op_def transition_def req settle_def)
  have "store_ok sha ?s" using l by (intro store_ok_step) (simp add: live_def)
  with l r show ?thesis by (simp add: live_def s')
qed

lemma unique_seq:
  assumes "journal_ok sha s" "st_txs s tx = Some r"
  shows "\<not> list_ex (\<lambda>j. jr_tx j = tx \<and> jr_seq j = tx_journal_seq r + 1) (st_journal s)"
proof -
  have "head s tx = Some (tx_journal_seq r, tx_journal_digest r)" using assms(2) by (simp add: head_def)
  note seqs = journal_rows(1) [OF assms(1) this]
  have "jr_seq j \<le> tx_journal_seq r" if "j \<in> set (st_journal s)" "jr_tx j = tx" for j
  proof -
    from that have "jr_seq j \<in> set (map jr_seq (tx_rows s tx))" by (simp add: tx_rows_def)
    then show ?thesis unfolding seqs by auto
  qed
  then show ?thesis by (fastforce simp: list_ex_iff)
qed

lemma live_log:
  assumes l: "live sha s a device p" and p: "p \<in> {PTransferring, PVerifying}"
  shows "live sha (apply_op sha root (OpAppend (at_owner a) event payload None a device) s) a device p"
    and "events sha (apply_op sha root (OpAppend (at_owner a) event payload None a device) s) (at_owner a)
      = Inr (log_at sha s (at_owner a) @ [(event, payload)])"
proof -
  let ?tx = "at_owner a" and ?s = "apply_op sha root (OpAppend (at_owner a) event payload None a device) s"
  from p have "p \<in> RUNNING_STATES" by (auto simp: running_iff)
  note req = require_attempt_live [OF l this]
  obtain r where r: "st_txs s ?tx = Some r" "tx_state r = p" "\<not> tx_stop r" by (rule live_row [OF l])
  have j: "journal_ok sha s" using l by (simp add: live_def store_ok_def)
  define digest where "digest = entry_digest sha ?tx (tx_journal_seq r + 1) (tx_journal_digest r) event payload"
  define s' where "s' = set_row ?tx (\<lambda>r'. r'\<lparr>tx_journal_seq := tx_journal_seq r + 1, tx_journal_digest := digest\<rparr>)
       (s\<lparr>st_journal := st_journal s @ [\<lparr>jr_tx = ?tx, jr_seq = tx_journal_seq r + 1, jr_event = event, jr_payload = payload, jr_digest = digest\<rparr>]\<rparr>)"
  have app: "append_event sha ?tx event payload None a device s = Inr ((tx_journal_seq r + 1, digest), s')"
    using unique_seq [OF j r(1)] r(1) p by (auto simp: append_event_def req the_row_def Let_def digest_def s'_def)
  then have s: "?s = s'" by (simp add: apply_op_def settle_def)
  have ok: "store_ok sha ?s" using l by (intro store_ok_step) (simp add: live_def)
  with l r show "live sha ?s a device p" by (simp add: live_def s s'_def)
  have "head ?s ?tx = Some (tx_journal_seq r + 1, digest)" using r(1) by (simp add: s s'_def head_def)
  from events_ok [OF _ this, of sha] ok have "events sha ?s ?tx = Inr (map event_of (tx_rows ?s ?tx))"
    by (simp add: store_ok_def)
  then show "events sha ?s ?tx = Inr (log_at sha s ?tx @ [(event, payload)])"
    by (simp add: s append_rows(1) [OF j app] log_rows [OF j] event_of_def)
qed

lemma live_complete:
  assumes l: "live sha s a device PVerifying" and e: "events sha s (at_owner a) = Inr (es @ [(''receipt'', JObj rc)])"
  shows "phase_at (apply_op sha root (OpComplete a device) s) (at_owner a) = Some PComplete"
proof -
  have "receipt sha s (at_owner a) = Inr (Some (JObj rc))" by (simp add: receipt_def e)
  moreover have "require_attempt s a device False = Inr (PVerifying, False)"
    by (rule require_attempt_live [OF l]) (simp add: running_iff)
  moreover obtain r where "st_txs s (at_owner a) = Some r" by (rule live_row [OF l])
  ultimately show ?thesis by (simp add: apply_op_def complete_def settle_def phase_set_row)
qed

text \<open>The operations of an attempt that has nothing left to copy.\<close>

definition finishing :: "attempt \<Rightarrow> str \<Rightarrow> (str \<times> json) list \<Rightarrow> store_op list" where
  "finishing a device rc = [OpTransition a device PTransferring '''', OpTransition a device PVerifying '''',
     OpAppend (at_owner a) ''receipt'' (JObj rc) None a device, OpComplete a device]"

lemma live_finishes:
  assumes "live sha s a device PStarting"
  shows "phase_at (run_ops sha root (finishing a device rc) s) (at_owner a) = Some PComplete"
proof -
  let ?do = "apply_op sha root"
  have 1: "live sha (?do (OpTransition a device PTransferring '''') s) a device PTransferring"
    by (rule live_move [OF assms TRANSITIONS.simps(1)]) (simp_all add: running_iff)
  have 2: "live sha (?do (OpTransition a device PVerifying '''') (?do (OpTransition a device PTransferring '''') s)) a device PVerifying"
    by (rule live_move [OF 1 TRANSITIONS.simps(2)]) (simp_all add: running_iff)
  note 3 = live_log [OF 2, of root "''receipt''" "JObj rc"]
  show ?thesis
    unfolding finishing_def run_ops_simps by (rule live_complete [OF 3(1) 3(2)]) simp_all
qed

lemma claim_goes:
  assumes ok: "store_ok sha s" and r: "st_txs s tx = Some r" "tx_plan r = Stored p" and run: "tx_state r \<in> RUNNING_STATES"
    and go: "\<not> (tx_stop r \<and> \<not> resumes_row rs r)" and sp: "\<not> spent p r"
  obtains s' where "claim sha tx (device_id sha p) \<lparr>at_owner = tx, at_token = t\<rparr> rs s = Inr (Status tx PStarting '''', s')"
    "live sha s' \<lparr>at_owner = tx, at_token = t\<rparr> (device_id sha p) PStarting" "head s' tx = head s tx"
proof -
  let ?d = "device_id sha p" and ?a = "\<lparr>at_owner = tx, at_token = t\<rparr>"
  have cl: "claims_ok sha s" using ok by (simp add: store_ok_def)
  have seal: "tx_seal r = plan_seal sha p" using cl r by (fastforce simp: claims_ok_def sealed_rows_def)
  have own: "owner s ?d = Some tx" by (rule started_owner [OF cl r running_not_idle [OF run]])
  have res: "tx_state r \<in> RESUMABLE_STATES" "tx_state r \<noteq> PComplete" using run by (auto simp: running_iff resumable_iff)
  define s' where "s' = set_row tx (\<lambda>r. r\<lparr>tx_consumed := (if session_only p then Some (at_token ?a) else tx_consumed r),
      tx_state := PStarting, tx_reason := '''', tx_stop := False\<rparr>) (set_attempt ?d tx t s)"
  have c: "claim sha tx ?d ?a rs s = Inr (Status tx PStarting '''', s')"
    using r seal own res sp go by (simp add: claim_def the_row_def load_plan_def Let_def s'_def)
  have "store_ok sha s'" by (rule settled_ok [OF ok _ c, of undefined "OpClaim tx ?d ?a rs"]) (simp add: apply_op_def)
  then have l: "live sha s' ?a ?d PStarting"
    using r(1) by (simp add: live_def s'_def holder_attempt [OF own])
  have "head s' = head s" unfolding s'_def by (subst head_set_row) simp_all
  then show thesis by (intro that [OF c l]) simp
qed

lemma claim_restarts:
  assumes ok: "store_ok sha s" and r: "st_txs s tx = Some r" "tx_plan r = Stored p" and re: "restartable r" and sp: "\<not> spent p r"
  shows "reserve_read sha tx (device_id sha p) s = Inr (Inr (True,
      \<lparr>rs_state = tx_state r, rs_serial = tx_stop_serial r, rs_acknowledged = tx_acknowledged r\<rparr>))"
    and "\<exists>s'. claim sha tx (device_id sha p) \<lparr>at_owner = tx, at_token = t\<rparr>
        \<lparr>rs_state = tx_state r, rs_serial = tx_stop_serial r, rs_acknowledged = tx_acknowledged r\<rparr> s = Inr (Status tx PStarting '''', s')
      \<and> live sha s' \<lparr>at_owner = tx, at_token = t\<rparr> (device_id sha p) PStarting"
proof -
  let ?rs = "\<lparr>rs_state = tx_state r, rs_serial = tx_stop_serial r, rs_acknowledged = tx_acknowledged r\<rparr>"
  let ?d = "device_id sha p"
  have cl: "claims_ok sha s" using ok by (simp add: store_ok_def)
  have run: "tx_state r \<in> RUNNING_STATES" using re by (simp add: restartable_def)
  have seal: "tx_seal r = plan_seal sha p" using cl r by (fastforce simp: claims_ok_def sealed_rows_def)
  have own: "owner s ?d = Some tx" by (rule started_owner [OF cl r running_not_idle [OF run]])
  have res: "tx_state r \<in> RESUMABLE_STATES" "tx_state r \<noteq> PComplete" using run by (auto simp: running_iff resumable_iff)
  have free: "conflict sha s tx p = Inr ()"
    by (rule conflict_clear [OF cl own]) (use r in \<open>simp add: plan_at_def\<close>)
  from own obtain w where w: "owner_of s ?d = Some w" "ow_tx w = tx" by (auto simp: owner_def)
  show "reserve_read sha tx ?d s = Inr (Inr (True, ?rs))"
    using r seal free w res by (simp add: reserve_read_def inspect_def the_row_def load_plan_def)
  have "\<not> (tx_stop r \<and> \<not> resumes_row ?rs r)" using re by (auto simp: restartable_def resumes_row_def resumes_def)
  from claim_goes [OF ok r run this sp]
  show "\<exists>s'. claim sha tx ?d \<lparr>at_owner = tx, at_token = t\<rparr> ?rs s = Inr (Status tx PStarting '''', s')
      \<and> live sha s' \<lparr>at_owner = tx, at_token = t\<rparr> ?d PStarting" by metis
qed

text \<open>C19: A running transaction can always be resumed and brought to completion: in every reachable store,
  if no stop request is outstanding on it and its plan may be attempted again, Start finds its claim
  and no conflict, the claim of a fresh attempt starts it whatever attempt held it before, and that
  attempt can then move it through transferring and verifying, write the receipt and complete it.\<close>

theorem running_can_complete:
  assumes "st_txs (run_ops sha root ops empty_store) tx = Some r" "tx_plan r = Stored p" "restartable r" "\<not> spent p r"
  shows "case reserve_read sha tx (device_id sha p) (run_ops sha root ops empty_store) of
      Inr (Inr (owned, rs)) \<Rightarrow> owned \<and>
        (let a = \<lparr>at_owner = tx, at_token = token\<rparr> in
         case claim sha tx (device_id sha p) a rs (run_ops sha root ops empty_store) of
           Inr (st, s') \<Rightarrow> st = Status tx PStarting ''''
             \<and> phase_at (run_ops sha root (finishing a (device_id sha p) rc) s') tx = Some PComplete
         | Inl _ \<Rightarrow> False)
    | _ \<Rightarrow> False"
proof -
  note re = claim_restarts [OF store_ok_reachable assms]
  from re(2) [of token] obtain s' where s': "claim sha tx (device_id sha p) \<lparr>at_owner = tx, at_token = token\<rparr>
      \<lparr>rs_state = tx_state r, rs_serial = tx_stop_serial r, rs_acknowledged = tx_acknowledged r\<rparr>
      (run_ops sha root ops empty_store) = Inr (Status tx PStarting '''', s')"
    "live sha s' \<lparr>at_owner = tx, at_token = token\<rparr> (device_id sha p) PStarting" by blast
  from live_finishes [OF s'(2), of root rc] show ?thesis by (simp add: re(1) s'(1) Let_def)
qed

end
