(* ===== verification/StoreInstances.thy ===== *)
theory StoreInstances
  imports SliceRefine SliceInstances
begin

text \<open>
  A transaction carried through the store: created, approved, reserved, claimed, transferred,
  verified and completed, with the plan of \<open>SliceInstances\<close>; and small stores for the theorems
  that start from an arbitrary one. They are the concrete inputs of the theorems on the store.
\<close>

section \<open>One transaction\<close>

definition w_row :: "phase \<Rightarrow> (nat \<times> str) \<Rightarrow> tx_row" where
  "w_row p h = \<lparr>tx_plan = Stored w_plan, tx_seal = ''7'', tx_state = p, tx_stop = False, tx_reason = '''',
     tx_journal_seq = fst h, tx_journal_digest = snd h, tx_stop_serial = 0, tx_acknowledged = 0, tx_consumed = None,
     tx_admission = None\<rparr>"

definition w_store :: "phase \<Rightarrow> str option \<Rightarrow> store" where
  "w_store p a = \<lparr>st_txs = [''t'' \<mapsto> w_row p (0, '''')], st_owners = [\<lparr>ow_device = ''usb'', ow_tx = ''t'', ow_attempt = a\<rparr>], st_journal = []\<rparr>"

definition w_reservation :: "phase \<Rightarrow> reservation" where
  "w_reservation p = \<lparr>rs_state = p, rs_serial = 0, rs_acknowledged = 0\<rparr>"

definition w_attempt :: attempt where
  "w_attempt = \<lparr>at_owner = ''t'', at_token = ''k''\<rparr>"

definition w_begin :: "store_op list" where
  "w_begin = [OpCreate w_plan (w_approval flat) None ''t'', OpApprove ''t'' ''7'', OpReserve ''t'' ''usb'' (w_reservation PApproved)]"

lemma w_plan_facts: "plan_seal flat w_plan = ''7''" "device_id flat w_plan = ''usb''" "is_folder w_plan = False"
  "plan_version w_plan = V3" "plan_proposal w_plan = w_preview flat" "session_only w_plan = False"
  by (simp_all add: plan_seal_def) (simp_all add: w_plan_def)

lemma w_created: "create flat ''/s'' w_plan (w_approval flat) None ''t'' empty_store =
    Inr (''t'', \<lparr>st_txs = [''t'' \<mapsto> w_row PReady (0, '''')], st_owners = [], st_journal = []\<rparr>)"
  by (simp add: create_def w_plan_facts w_validated w_required empty_store_def w_row_def)

lemma w_approved: "approve flat ''t'' ''7'' \<lparr>st_txs = [''t'' \<mapsto> w_row PReady (0, '''')], st_owners = [], st_journal = []\<rparr>
    = Inr ((), \<lparr>st_txs = [''t'' \<mapsto> w_row PApproved (0, '''')], st_owners = [], st_journal = []\<rparr>)"
  by (simp add: approve_def load_def load_plan_def w_plan_facts w_row_def the_row_def set_row_def)

lemma w_reserved: "reserve_write flat ''t'' ''usb'' (w_reservation PApproved)
      \<lparr>st_txs = [''t'' \<mapsto> w_row PApproved (0, '''')], st_owners = [], st_journal = []\<rparr>
    = Inr (Inr (w_reservation PApproved), w_store PStarting None)"
  by (simp add: reserve_write_def inspect_def the_row_def load_plan_def w_plan_facts w_row_def conflict_def owner_of_def
      resumable_iff set_row_def w_store_def w_reservation_def)

lemma w_begun: "run_ops flat ''/s'' w_begin empty_store = w_store PStarting None"
  by (simp add: w_begin_def apply_op_def settle_def w_created w_approved w_reserved)

lemma w_claimed: "claim flat ''t'' ''usb'' w_attempt rs (w_store PStarting b)
    = Inr (Status ''t'' PStarting '''', w_store PStarting (Some ''k''))"
  by (simp add: claim_def w_store_def w_row_def the_row_def resumable_iff owner_def owner_of_def w_attempt_def load_plan_def
      w_plan_facts spent_def set_row_def set_attempt_def)

lemma w_owner: "owner_of (w_store p a) ''usb'' = Some \<lparr>ow_device = ''usb'', ow_tx = ''t'', ow_attempt = a\<rparr>"
  "owner (w_store p a) ''usb'' = Some ''t''" "st_txs (w_store p a) ''t'' = Some (w_row p (0, ''''))"
  by (simp_all add: owner_def owner_of_def w_store_def)

lemma w_required_attempt: "p \<in> RUNNING_STATES \<Longrightarrow> require_attempt (w_store p (Some ''k'')) w_attempt ''usb'' allow = Inr (p, False)"
  by (simp add: require_attempt_def w_owner w_attempt_def require_current_def) (simp add: w_row_def)

lemma w_move: "p \<in> RUNNING_STATES \<Longrightarrow> TRANSITIONS p = Some qs \<Longrightarrow> q \<in> qs \<Longrightarrow> q \<in> RUNNING_STATES - {PStopped} \<Longrightarrow>
    transition w_attempt ''usb'' q '''' (w_store p (Some ''k'')) = Inr (Status ''t'' q '''', w_store q (Some ''k''))"
  by (simp add: transition_def w_required_attempt, simp add: w_attempt_def w_store_def set_row_def w_row_def)

theorem stale_attempt_fenced_witness:
  "isl (guard \<lparr>at_owner = ''t'', at_token = ''old''\<rparr> ''usb'' (run_ops flat ''/s'' [OpStop ''t''] (w_store PStarting (Some ''k''))))
    \<and> isl (append_event flat ''t'' ''operation'' JNull None \<lparr>at_owner = ''t'', at_token = ''old''\<rparr> ''usb''
        (run_ops flat ''/s'' [OpStop ''t''] (w_store PStarting (Some ''k''))))
    \<and> isl (transition \<lparr>at_owner = ''t'', at_token = ''old''\<rparr> ''usb'' PTransferring ''''
        (run_ops flat ''/s'' [OpStop ''t''] (w_store PStarting (Some ''k''))))
    \<and> isl (complete flat \<lparr>at_owner = ''t'', at_token = ''old''\<rparr> ''usb''
        (run_ops flat ''/s'' [OpStop ''t''] (w_store PStarting (Some ''k''))))"
  by (rule stale_attempt_fenced [OF w_claimed [of "w_reservation PApproved" None, folded w_begun]])
    (simp_all add: claims_device_def w_attempt_def)

section \<open>Its journal\<close>

definition w_transfer :: "store_op list" where
  "w_transfer = w_begin @ [OpClaim ''t'' ''usb'' w_attempt (w_reservation PApproved),
     OpTransition w_attempt ''usb'' PTransferring '''', OpTransition w_attempt ''usb'' PVerifying '''']"

definition w_logged :: store where
  "w_logged = \<lparr>st_txs = [''t'' \<mapsto> w_row PVerifying (1, ''7'')], st_owners = [\<lparr>ow_device = ''usb'', ow_tx = ''t'', ow_attempt = Some ''k''\<rparr>],
     st_journal = [\<lparr>jr_tx = ''t'', jr_seq = 1, jr_event = ''receipt'', jr_payload = JObj [], jr_digest = ''7''\<rparr>]\<rparr>"

definition w_append :: store_op where
  "w_append = OpAppend ''t'' ''receipt'' (JObj []) None w_attempt ''usb''"

lemma w_verifying: "run_ops flat ''/s'' w_transfer empty_store = w_store PVerifying (Some ''k'')"
proof -
  have "transition w_attempt ''usb'' PTransferring '''' (w_store PStarting (Some ''k'')) = Inr (Status ''t'' PTransferring '''', w_store PTransferring (Some ''k''))"
    by (rule w_move [OF _ TRANSITIONS.simps(1)]) (simp_all add: running_iff)
  moreover have "transition w_attempt ''usb'' PVerifying '''' (w_store PTransferring (Some ''k'')) = Inr (Status ''t'' PVerifying '''', w_store PVerifying (Some ''k''))"
    by (rule w_move [OF _ TRANSITIONS.simps(2)]) (simp_all add: running_iff)
  ultimately show ?thesis
    unfolding w_transfer_def run_ops_append w_begun by (simp add: apply_op_def settle_def w_claimed)
qed

lemma w_entry: "entry_digest flat tx n d e p = ''7''"
  by (simp add: entry_digest_def)

lemma w_appended: "append_event flat ''t'' ''receipt'' (JObj []) None w_attempt ''usb'' (w_store PVerifying (Some ''k'')) = Inr ((1, ''7''), w_logged)"
proof -
  have "require_attempt (w_store PVerifying (Some ''k'')) w_attempt ''usb'' False = Inr (PVerifying, False)"
    by (rule w_required_attempt) (simp add: running_iff)
  then show ?thesis
    by (simp add: append_event_def, simp add: w_attempt_def the_row_def w_entry w_store_def w_row_def set_row_def w_logged_def Let_def)
qed

theorem journal_replays_witness:
  "case events flat (run_ops flat ''/s'' w_transfer empty_store) ''t'' of Inl _ \<Rightarrow> False
    | Inr evs \<Rightarrow> events flat w_logged ''t'' = Inr (evs @ [(''receipt'', JObj [])])"
  by (rule journal_replays [OF w_appended [folded w_verifying]])

lemma w_events: "events flat w_logged ''t'' = Inr [(''receipt'', JObj [])]"
  by (simp add: events_def rows_of_def w_logged_def w_entry head_def w_row_def)

lemma w_complete: "phase_at (run_ops flat ''/s'' (w_transfer @ [w_append, OpComplete w_attempt ''usb'']) empty_store) ''t'' = Some PComplete"
proof -
  have "require_attempt w_logged w_attempt ''usb'' False = Inr (PVerifying, False)"
    by (simp add: require_attempt_def owner_def owner_of_def w_attempt_def require_current_def running_iff w_logged_def w_row_def)
  moreover have "receipt flat w_logged (at_owner w_attempt) = Inr (Some (JObj []))"
    by (simp add: receipt_def w_attempt_def w_events)
  ultimately have "\<exists>s. complete flat w_attempt ''usb'' w_logged = Inr ((), s) \<and> phase_at s ''t'' = Some PComplete"
    by (simp add: complete_def phase_set_row) (simp add: w_attempt_def w_logged_def)
  moreover have "run_ops flat ''/s'' (w_transfer @ [w_append]) empty_store = w_logged"
    by (simp add: w_verifying w_append_def apply_op_def settle_def w_appended)
  ultimately show ?thesis by (auto simp: apply_op_def settle_def)
qed

theorem complete_has_receipt_witness:
  "case events flat (run_ops flat ''/s'' (w_transfer @ [w_append, OpComplete w_attempt ''usb'']) empty_store) ''t'' of Inl _ \<Rightarrow> False
    | Inr evs \<Rightarrow> list_ex (\<lambda>e. fst e = ''receipt'') evs"
  by (rule complete_has_receipt [OF w_complete])

theorem running_can_complete_witness:
  "case reserve_read flat ''t'' (device_id flat w_plan) (run_ops flat ''/s'' w_transfer empty_store) of
      Inr (Inr (owned, rs)) \<Rightarrow> owned \<and>
        (let a = \<lparr>at_owner = ''t'', at_token = ''new''\<rparr> in
         case claim flat ''t'' (device_id flat w_plan) a rs (run_ops flat ''/s'' w_transfer empty_store) of
           Inr (st, s') \<Rightarrow> st = Status ''t'' PStarting ''''
             \<and> phase_at (run_ops flat ''/s'' (finishing a (device_id flat w_plan) []) s') ''t'' = Some PComplete
         | Inl _ \<Rightarrow> False)
    | _ \<Rightarrow> False"
proof (rule running_can_complete)
  show "st_txs (run_ops flat ''/s'' w_transfer empty_store) ''t'' = Some (w_row PVerifying (0, ''''))"
    by (simp add: w_verifying w_owner)
qed (simp_all add: w_row_def restartable_def running_iff spent_def)

section \<open>Other stores\<close>

text \<open>Under a hash that collides, an edited entry goes unnoticed.\<close>

definition w_edited :: store where
  "w_edited = w_logged\<lparr>st_journal := [\<lparr>jr_tx = ''t'', jr_seq = 1, jr_event = ''receipt'', jr_payload = JBool True, jr_digest = ''7''\<rparr>]\<rparr>"

lemma w_edited_events: "events flat w_edited ''t'' = Inr [(''receipt'', JBool True)]"
  by (simp add: events_def rows_of_def w_edited_def w_logged_def w_entry head_def w_row_def)

theorem journal_tamper_evident_witness:
  "map event_text [(''receipt'', JObj [])] = map event_text [(''receipt'', JBool True)] \<or> collision flat"
  by (rule journal_tamper_evident [OF _ w_events w_edited_events]) (simp add: w_edited_def)

definition w_failed :: store where
  "w_failed = w_store PFailed (Some ''k'')"

theorem final_state_absorbs_witness:
  "case st_txs (run_ops flat ''/s'' [OpStop ''t'', OpApprove ''t'' ''7''] w_failed) ''t'' of None \<Rightarrow> False
    | Some r' \<Rightarrow> same_but_stop (w_row PFailed (0, '''')) r'"
  by (rule final_state_absorbs) (simp_all add: w_failed_def w_owner, simp add: w_row_def TERMINAL_STATES_def)

lemma w_inspected: "reserve_read flat ''t'' ''usb'' (w_store PStopped (Some ''k'')) = Inr (Inr (True, w_reservation PStopped))"
  by (simp add: reserve_read_def inspect_def the_row_def w_owner,
      simp add: w_row_def load_plan_def w_plan_facts resumable_iff w_reservation_def w_store_def conflict_def owner_of_def)

theorem later_stop_wins_witness:
  "case claim flat ''t'' ''usb'' w_attempt (w_reservation PStopped) (run_ops flat ''/s'' [OpStop ''t''] (w_store PStopped (Some ''k''))) of
      Inl _ \<Rightarrow> True | Inr (st, s') \<Rightarrow> status_state st \<noteq> PStarting
        \<and> (case st_txs s' ''t'' of None \<Rightarrow> False | Some r' \<Rightarrow> tx_stop r')"
  by (rule later_stop_wins [OF w_inspected, where r = "(w_row PStopped (0, ''''))\<lparr>tx_stop := True, tx_stop_serial := 1\<rparr>"])
    (simp_all add: apply_op_def settle_def request_stop_def w_owner w_row_def)

section \<open>A session-only plan\<close>

definition w_fat_plan :: slice_plan where
  "w_fat_plan = Folder \<lparr>np_proposal = w_preview flat, np_root = FatRoot \<lparr>fi_scope = ''fs'', fi_parent = [''p''], fi_child = ''c''\<rparr>,
     np_admission = ''a'', np_catalog = ''/c'', np_parent = ''/mnt'', np_backing = [''x''],
     np_capacity = \<lparr>co_available = 0, co_inodes = None, co_headroom = 0\<rparr>, np_reserve = 0, np_version = ''v'', np_policy = None\<rparr>"

definition w_fat_store :: "phase \<Rightarrow> str option \<Rightarrow> str option \<Rightarrow> store" where
  "w_fat_store p a used = \<lparr>st_txs = [''t'' \<mapsto> (w_row p (0, ''''))\<lparr>tx_plan := Stored w_fat_plan, tx_consumed := used\<rparr>],
     st_owners = [\<lparr>ow_device = ''fat32-intent-v1:7'', ow_tx = ''t'', ow_attempt = a\<rparr>], st_journal = []\<rparr>"

lemma w_fat_facts: "plan_seal flat w_fat_plan = ''7''" "device_id flat w_fat_plan = ''fat32-intent-v1:7''" "session_only w_fat_plan"
  by (simp_all add: plan_seal_def) (simp_all add: w_fat_plan_def fat_target_id_def)

lemma w_fat_claimed: "claim flat ''t'' ''fat32-intent-v1:7'' w_attempt (w_reservation PStarting) (w_fat_store PStarting None None)
    = Inr (Status ''t'' PStarting '''', w_fat_store PStarting (Some ''k'') (Some ''k''))"
  by (simp add: claim_def w_fat_store_def w_row_def the_row_def resumable_iff owner_def owner_of_def w_attempt_def load_plan_def
      w_fat_facts spent_def set_row_def set_attempt_def)

theorem single_attempt_witness:
  "case claim flat ''t'' ''fat32-intent-v1:7'' \<lparr>at_owner = ''t'', at_token = ''next''\<rparr> (w_reservation PStarting)
      (run_ops flat ''/s'' [OpStop ''t''] (w_fat_store PStarting (Some ''k'') (Some ''k''))) of
      Inl _ \<Rightarrow> True | Inr (st, _) \<Rightarrow> status_state st \<noteq> PStarting"
  by (rule single_attempt [OF w_fat_claimed, where p = w_fat_plan])
    (simp_all add: w_fat_facts plan_at_def w_fat_store_def)

end
