(* ===== verification/SliceTransfer.thy ===== *)
theory SliceTransfer
  imports SliceProtocol
begin

text \<open>
  The ground of the transfer engine \<open>modelark/slice/transaction.py\<close>: programs that read and change
  a world and may raise, the destination and source ports as a record of functions, the delivery
  authority of \<open>modelark/slice/authority.py\<close>, and the operations recorded in a journal.

  A raise keeps what has been done so far, so that a world after an exception is the world of a
  crash at that point. The store is shared: before each access other processes may run any
  operations (\<open>su_others\<close>), and an access may find the database busy (\<open>su_busy\<close>). The ports answer
  as they like; what they are, files or devices, is their own business. File contents are byte
  strings, one character per byte, and \<open>su_sha\<close> is the hex digest of a byte string.
\<close>

section \<open>Programs\<close>

text \<open>\<open>TransferRefusal\<close>, \<open>FileExistsError\<close> with its text, \<open>KeyboardInterrupt\<close>, and any other exception.\<close>

datatype failure = Refused refusal | FileExists str | Interrupted | Crashed str

type_synonym ('w, 'a) run = "'w \<Rightarrow> (failure + 'a) \<times> 'w"

definition ret :: "'a \<Rightarrow> ('w, 'a) run" where
  "ret x w = (Inr x, w)"

definition raising :: "failure \<Rightarrow> ('w, 'a) run" where
  "raising e w = (Inl e, w)"

definition andthen :: "('w, 'a) run \<Rightarrow> ('a \<Rightarrow> ('w, 'b) run) \<Rightarrow> ('w, 'b) run" where
  "andthen m k w = (case m w of (Inl e, w') \<Rightarrow> (Inl e, w') | (Inr x, w') \<Rightarrow> k x w')"

text \<open>\<open>try: m except: handler\<close>, and \<open>try: m finally: cleanup\<close>.\<close>

definition catching :: "('w, 'a) run \<Rightarrow> (failure \<Rightarrow> ('w, 'a) run) \<Rightarrow> ('w, 'a) run" where
  "catching m h w = (case m w of (Inl e, w') \<Rightarrow> h e w' | (Inr x, w') \<Rightarrow> (Inr x, w'))"

definition lastly :: "('w, 'a) run \<Rightarrow> ('w, unit) run \<Rightarrow> ('w, 'a) run" where
  "lastly m c w = (case m w of (r, w') \<Rightarrow> (case c w' of (Inl e, w'') \<Rightarrow> (Inl e, w'') | (Inr _, w'') \<Rightarrow> (r, w'')))"

definition refusing :: "str \<Rightarrow> str \<Rightarrow> ('w, 'a) run" where
  "refusing code detail = raising (Refused (Refusal code detail))"

definition getting :: "('w \<Rightarrow> 'a) \<Rightarrow> ('w, 'a) run" where
  "getting f w = (Inr (f w), w)"

definition changing :: "('w \<Rightarrow> 'w) \<Rightarrow> ('w, unit) run" where
  "changing f w = (Inr (), f w)"

definition whenever :: "bool \<Rightarrow> ('w, unit) run \<Rightarrow> ('w, unit) run" where
  "whenever b m = (if b then m else ret ())"

fun each :: "('a \<Rightarrow> ('w, unit) run) \<Rightarrow> 'a list \<Rightarrow> ('w, unit) run" where
  "each f [] = ret ()"
| "each f (x # xs) = andthen (f x) (\<lambda>_. each f xs)"

section \<open>Ports\<close>

record object_info =
  oi_directory :: bool
  oi_token :: "str option"
  oi_bytes :: int

text \<open>
  An open stream: the pieces that its \<open>read\<close> calls deliver in turn and, after the last one, an
  exception or the end. A piece is what one call returns, so short reads are part of the model.
\<close>

record reading =
  rd_pieces :: "str list"
  rd_fail :: "failure option"

text \<open>
  \<open>DestinationPort\<close> and \<open>SourcePort\<close> over one environment, with the kernel sockets of \<open>Lease\<close>:
  \<open>po_lease\<close> tries to bind the exclusion of the device, \<open>po_retained\<close> asks for a live marker. A
  source has one of three shapes: \<open>open_polled\<close> is given the session's poll to call at work,
  \<open>open_checked\<close> its full check, and a plain \<open>open\<close> neither. The work before the source opens is
  \<open>po_opening\<close>, with a call after each part; \<open>po_close\<close> is what leaving the opened context does.
  What a source calls inside a \<open>read\<close> coincides with the polls around the read. \<open>po_preflight\<close> is
  the work of the optional \<open>preflight\<close>, a check before each part, or \<open>None\<close> where a source needs none.
\<close>

datatype source_shape = OpenPolled | OpenChecked | OpenPlain

record 'e port =
  po_check :: "slice_plan \<Rightarrow> int \<Rightarrow> int \<Rightarrow> ('e, unit) run"
  po_inspect :: "str \<Rightarrow> ('e, object_info option) run"
  po_mkdir :: "str \<Rightarrow> str \<Rightarrow> ('e, unit) run"
  po_create :: "str \<Rightarrow> str \<Rightarrow> ('e, unit) run"
  po_append :: "str \<Rightarrow> str \<Rightarrow> str \<Rightarrow> ('e, unit) run"
  po_discard :: "str \<Rightarrow> str \<Rightarrow> ('e, unit) run"
  po_read :: "str \<Rightarrow> ('e, reading) run"
  po_flush :: "str \<Rightarrow> ('e, unit) run"
  po_publish :: "str \<Rightarrow> str \<Rightarrow> str \<Rightarrow> ('e, unit) run"
  po_list :: "str \<Rightarrow> ('e, str list) run"
  po_shape :: source_shape
  po_opening :: "source_evidence \<Rightarrow> ('e, unit) run list"
  po_open :: "source_evidence \<Rightarrow> ('e, catalog_snapshot \<times> reading) run"
  po_close :: "source_evidence \<Rightarrow> ('e, unit) run"
  po_preflight :: "('e, unit) run list option"
  po_begin :: "('e, unit) run"
  po_end :: "('e, unit) run"
  po_lease :: "('e, bool) run"
  po_retained :: "attempt \<Rightarrow> ('e, bool) run"

section \<open>Operations of a journal\<close>

datatype op_kind = KFile | KDirectory | KControl | KReceipt

datatype op_state = SIntent | SPrepared | SComplete

text \<open>The dictionary of an operation without its seal and device, which are the plan's.\<close>

record transfer_op =
  to_path :: str
  to_kind :: op_kind
  to_size :: int
  to_sha :: str
  to_token :: str
  to_temporary :: "str option"
  to_source :: json
  to_state :: op_state

fun kind_text :: "op_kind \<Rightarrow> str" where
  "kind_text KFile = ''file''"
| "kind_text KDirectory = ''directory''"
| "kind_text KControl = ''control''"
| "kind_text KReceipt = ''receipt''"

fun state_text :: "op_state \<Rightarrow> str" where
  "state_text SIntent = ''intent''"
| "state_text SPrepared = ''prepared''"
| "state_text SComplete = ''complete''"

definition op_json :: "(str \<Rightarrow> str) \<Rightarrow> slice_plan \<Rightarrow> transfer_op \<Rightarrow> json" where
  "op_json sha plan op = JObj
     [(''device'', JStr (device_id sha plan)), (''kind'', JStr (kind_text (to_kind op))), (''path'', JStr (to_path op)),
      (''seal'', JStr (plan_seal sha plan)), (''sha'', JStr (to_sha op)), (''size'', JInt (to_size op)),
      (''source'', to_source op), (''state'', JStr (state_text (to_state op))),
      (''temporary'', jopt JStr (to_temporary op)), (''token'', JStr (to_token op))]"

text \<open>\<open>str(PurePosixPath(path).parent)\<close> and a sibling of a path.\<close>

definition parent_of :: "str \<Rightarrow> str" where
  "parent_of path = join_path (butlast (path_parts path))"

definition beside :: "str \<Rightarrow> str \<Rightarrow> str" where
  "beside path name = join_path (butlast (path_parts path) @ [name])"

definition staging :: "str \<Rightarrow> str \<Rightarrow> str" where
  "staging path token = beside path (''.slice-'' @ token)"

definition receipt_path :: "slice_plan \<Rightarrow> str" where
  "receipt_path plan = join_path (path_parts (sp_root (pv_spec (plan_proposal plan))) @ [''.modelark-slice-receipt.json''])"

text \<open>\<open>files\<close> and \<open>directories\<close> of \<open>_operations\<close>.\<close>

definition artifact_at :: "slice_plan \<Rightarrow> str \<Rightarrow> artifact option" where
  "artifact_at plan = dict_get (map (\<lambda>a. (artifact_target plan a, a)) (pv_closure (plan_proposal plan)))"

definition proper_parents :: "str \<Rightarrow> str list" where
  "proper_parents path = filter (\<lambda>p. p \<noteq> ''.'') (parents path)"

definition plan_directories :: "slice_plan \<Rightarrow> str list" where
  "plan_directories plan = concat (map (\<lambda>a. proper_parents (artifact_target plan a)) (pv_closure (plan_proposal plan)))"

text \<open>Python's truth value of a JSON value.\<close>

fun json_true :: "json \<Rightarrow> bool" where
  "json_true JNull = False"
| "json_true (JBool b) = b"
| "json_true (JInt n) = (n \<noteq> 0)"
| "json_true (JStr s) = (s \<noteq> [])"
| "json_true (JArr xs) = (xs \<noteq> [])"
| "json_true (JObj ms) = (ms \<noteq> [])"

text \<open>A recorded source without the placement eligibility of its drive; \<open>None\<close> where the source raises.\<close>

definition without_eligibility :: "json \<Rightarrow> json option" where
  "without_eligibility v = (case v of
     JObj ms \<Rightarrow> (case dict_get ms ''drive'' of
        Some (JObj ds) \<Rightarrow>
          (if dict_get ds ''eligibility'' = None then None
           else Some (JObj (map (\<lambda>m. if fst m = ''drive'' then (''drive'', JObj (filter (\<lambda>d. fst d \<noteq> ''eligibility'') ds)) else m) ms)))
      | _ \<Rightarrow> None)
   | _ \<Rightarrow> None)"

definition approved_source :: "artifact \<Rightarrow> json \<Rightarrow> bool" where
  "approved_source a v = (case without_eligibility v of None \<Rightarrow> False
     | Some r \<Rightarrow> encode r \<in> set (map (\<lambda>e. encode (evidence_json e)) (ar_sources a)))"

definition kind_of_text :: "str \<Rightarrow> op_kind option" where
  "kind_of_text s = List.find (\<lambda>k. kind_text k = s) [KFile, KDirectory, KControl, KReceipt]"

definition state_of_text :: "str \<Rightarrow> op_state option" where
  "state_of_text s = List.find (\<lambda>k. state_text k = s) [SIntent, SPrepared, SComplete]"

text \<open>
  The typed reading of a payload. A payload that lacks a field which every writer of the module
  writes is refused at once; the source refuses it or raises when it comes to use the field.
\<close>

definition decode_op :: "(str \<Rightarrow> str) \<Rightarrow> slice_plan \<Rightarrow> json \<Rightarrow> transfer_op option" where
  "decode_op sha plan v = (case v of
     JObj ms \<Rightarrow>
       (case (dict_get ms ''path'', dict_get ms ''kind'', dict_get ms ''size'', dict_get ms ''sha'', dict_get ms ''token'',
              dict_get ms ''temporary'', dict_get ms ''source'', dict_get ms ''state'') of
          (Some (JStr path), Some (JStr kind), Some (JInt n), Some (JStr digest), Some (JStr token), Some temporary,
           Some source, Some (JStr state)) \<Rightarrow>
            (case (kind_of_text kind, state_of_text state,
                   case temporary of JNull \<Rightarrow> Some None | JStr t \<Rightarrow> Some (Some t) | _ \<Rightarrow> None) of
               (Some k, Some st, Some tmp) \<Rightarrow>
                 (if dict_get ms ''seal'' = Some (JStr (plan_seal sha plan)) \<and> dict_get ms ''device'' = Some (JStr (device_id sha plan))
                     \<and> path_ok path \<and> hex_text 32 token
                  then Some \<lparr>to_path = path, to_kind = k, to_size = n, to_sha = digest, to_token = token,
                             to_temporary = tmp, to_source = source, to_state = st\<rparr>
                  else None)
             | _ \<Rightarrow> None)
        | _ \<Rightarrow> None)
   | _ \<Rightarrow> None)"

text \<open>What \<open>_operations\<close> requires of one operation of the plan, with the detail of its refusal.\<close>

definition operation_fault :: "slice_plan \<Rightarrow> transfer_op \<Rightarrow> str option" where
  "operation_fault plan op =
     (let placed = (case to_kind op of
            KFile \<Rightarrow> (case artifact_at plan (to_path op) of
               None \<Rightarrow> Some (to_path op)
             | Some a \<Rightarrow>
                 if to_size op \<noteq> ar_size a \<or> to_sha op \<noteq> ar_sha a then Some (to_path op)
                 else if json_true (to_source op)
                 then (if approved_source a (to_source op) then None else Some ''unsealed source record'')
                 else if to_state op \<noteq> SIntent then Some ''prepared file lacks source proof'' else None)
          | KDirectory \<Rightarrow> if to_path op \<in> set (plan_directories plan) then None else Some (to_path op)
          | KControl \<Rightarrow> if to_path op = control_path plan then None else Some (to_path op)
          | KReceipt \<Rightarrow> if to_path op = receipt_path plan then None else Some (to_path op)) in
      case placed of Some d \<Rightarrow> Some d
      | None \<Rightarrow>
          if to_temporary op \<noteq> (if to_kind op = KDirectory then None else Some (staging (to_path op) (to_token op)))
          then Some ''temporary identity differs'' else None)"

definition same_identity :: "transfer_op \<Rightarrow> transfer_op \<Rightarrow> bool" where
  "same_identity p q \<longleftrightarrow> to_kind p = to_kind q \<and> to_token p = to_token q \<and> to_temporary p = to_temporary q
     \<and> to_size p = to_size q \<and> to_sha p = to_sha q"

definition journal_corrupt :: "str \<Rightarrow> refusal + 'a" where
  "journal_corrupt detail = Inl (Refusal ''JOURNAL_CORRUPT'' detail)"

text \<open>One turn of the loop of \<open>_operations\<close>; \<open>ops\<close> is the dictionary \<open>result\<close>.\<close>

definition replay_event ::
  "(str \<Rightarrow> str) \<Rightarrow> slice_plan \<Rightarrow> str \<Rightarrow> str \<times> json \<Rightarrow> (str \<times> transfer_op) list \<Rightarrow> refusal + (str \<times> transfer_op) list" where
  "replay_event sha plan tx e ops =
     (if fst e = ''operation'' then
        (case decode_op sha plan (snd e) of None \<Rightarrow> journal_corrupt '''' | Some op \<Rightarrow>
          (case operation_fault plan op of Some d \<Rightarrow> journal_corrupt d | None \<Rightarrow>
            (case map_of ops (to_path op) of
               None \<Rightarrow> Inr (AList.update (to_path op) op ops)
             | Some previous \<Rightarrow>
                 if same_identity previous op then Inr (AList.update (to_path op) op ops)
                 else journal_corrupt ''operation identity changed'')))
      else if fst e = ''receipt''
         \<and> (case snd e of JObj ms \<Rightarrow> dict_get ms ''seal'' = Some (JStr (plan_seal sha plan)) \<and> dict_get ms ''transaction'' = Some (JStr tx)
            | _ \<Rightarrow> False)
      then Inr ops else journal_corrupt ''unexpected event'')"

fun replay_events ::
  "(str \<Rightarrow> str) \<Rightarrow> slice_plan \<Rightarrow> str \<Rightarrow> (str \<times> json) list \<Rightarrow> (str \<times> transfer_op) list \<Rightarrow> refusal + (str \<times> transfer_op) list" where
  "replay_events sha plan tx [] ops = Inr ops"
| "replay_events sha plan tx (e # es) ops =
     (case replay_event sha plan tx e ops of Inl r \<Rightarrow> Inl r | Inr ops' \<Rightarrow> replay_events sha plan tx es ops')"

end
