(* ===== verification/SliceSession.thy ===== *)
theory SliceSession
  imports SliceTransfer
begin

text \<open>
  The delivery authority of \<open>modelark/slice/authority.py\<close> and the methods of \<open>Session\<close> in
  \<open>modelark/slice/transaction.py\<close> up to the publication of one object. The test hook \<open>fault\<close>, which
  no caller of the repository passes, does nothing.
\<close>

section \<open>A session\<close>

text \<open>
  What a session is given: the hash, the store's root, what the other processes do before each
  access to the store and which accesses find it busy, the names that \<open>uuid4\<close> yields, the ports,
  the transaction, its plan and its attempt.
\<close>

record 'e session =
  su_sha :: "str \<Rightarrow> str"
  su_root :: str
  su_others :: "nat \<Rightarrow> store_op list"
  su_busy :: "nat \<Rightarrow> bool"
  su_names :: "nat \<Rightarrow> str"
  su_port :: "'e port"
  su_tx :: str
  su_plan :: slice_plan
  su_attempt :: attempt

text \<open>
  What it changes: the environment of the ports, the store and the number of accesses to it, the
  number of names used, the lease, and the attributes of \<open>Session\<close>. The usage of a token lists the
  allocation of each of its paths.
\<close>

record 'e world =
  wd_env :: 'e
  wd_store :: store
  wd_turn :: nat
  wd_fresh :: nat
  wd_lease :: bool
  se_ops :: "(str \<times> transfer_op) list"
  se_head :: "(nat \<times> str) option"
  se_paths :: "(str \<times> transfer_op) list"
  se_usage :: "str \<Rightarrow> (str \<times> int) list"
  se_allocated :: int
  se_verified :: "str list"
  se_terminal :: bool
  se_required :: int

definition on_env :: "('e, 'a) run \<Rightarrow> ('e world, 'a) run" where
  "on_env m w = (case m (wd_env w) of (r, e) \<Rightarrow> (r, w\<lparr>wd_env := e\<rparr>))"

text \<open>The store model's refusals that stand for Python's own exceptions.\<close>

definition failure_of :: "refusal \<Rightarrow> failure" where
  "failure_of r = (if refusal_code r \<in> {''TypeError'', ''IntegrityError'', ''KeyError'', ''ValueError''}
     then Crashed (refusal_code r) else Refused r)"

definition settled :: "refusal + 'a \<Rightarrow> ('w, 'a) run" where
  "settled r = (case r of Inl e \<Rightarrow> raising (failure_of e) | Inr x \<Rightarrow> ret x)"

definition store_busy :: failure where
  "store_busy = Refused (Refusal ''STATE_BUSY'' ''private state writer did not finish'')"

text \<open>One database transaction, after whatever the other processes have committed.\<close>

definition turned :: "'e session \<Rightarrow> 'e world \<Rightarrow> 'e world" where
  "turned su w = w\<lparr>wd_store := run_ops (su_sha su) (su_root su) (su_others su (wd_turn w)) (wd_store w), wd_turn := wd_turn w + 1\<rparr>"

definition storing :: "'e session \<Rightarrow> (store \<Rightarrow> refusal + ('a \<times> store)) \<Rightarrow> ('e world, 'a) run" where
  "storing su f w =
     (if su_busy su (wd_turn w) then (Inl store_busy, turned su w)
      else (case f (wd_store (turned su w)) of
              Inl e \<Rightarrow> (Inl (failure_of e), turned su w)
            | Inr (x, s) \<Rightarrow> (Inr x, (turned su w)\<lparr>wd_store := s\<rparr>)))"

definition asking :: "'e session \<Rightarrow> (store \<Rightarrow> refusal + 'a) \<Rightarrow> ('e world, 'a) run" where
  "asking su f = storing su (\<lambda>s. case f s of Inl e \<Rightarrow> Inl e | Inr x \<Rightarrow> Inr (x, s))"

definition fresh_name :: "'e session \<Rightarrow> ('e world, str) run" where
  "fresh_name su w = (Inr (su_names su (wd_fresh w)), w\<lparr>wd_fresh := wd_fresh w + 1\<rparr>)"

definition su_device :: "'e session \<Rightarrow> str" where
  "su_device su = device_id (su_sha su) (su_plan su)"

section \<open>The authority\<close>

text \<open>\<open>Lease.check\<close> in the process that took the lease, and \<open>Lease.close\<close>.\<close>

definition lease_check :: "('e world, unit) run" where
  "lease_check = andthen (getting wd_lease) (\<lambda>open'. if open' then ret () else refusing ''EXECUTION_FENCE_LOST'' '''')"

definition lease_close :: "('e world, unit) run" where
  "lease_close = changing (\<lambda>w. w\<lparr>wd_lease := False\<rparr>)"

definition auth_boundary :: "'e session \<Rightarrow> ('e world, (nat \<times> str) option) run" where
  "auth_boundary su = andthen lease_check (\<lambda>_. andthen (asking su (guard (su_attempt su) (su_device su)))
     (\<lambda>(stopped, hd'). if stopped then refusing ''STOPPED'' '''' else ret hd'))"

definition auth_transition :: "'e session \<Rightarrow> phase \<Rightarrow> str \<Rightarrow> ('e world, status) run" where
  "auth_transition su state reason = andthen lease_check (\<lambda>_.
     andthen (storing su (transition (su_attempt su) (su_device su) state reason)) (\<lambda>outcome.
       if status_state outcome = PStopped \<and> state \<noteq> PStopped then refusing ''STOPPED'' '''' else ret outcome))"

definition auth_append :: "'e session \<Rightarrow> str \<Rightarrow> json \<Rightarrow> (nat \<times> str) option \<Rightarrow> ('e world, nat \<times> str) run" where
  "auth_append su event payload expected = andthen lease_check (\<lambda>_.
     storing su (append_event (su_sha su) (su_tx su) event payload expected (su_attempt su) (su_device su)))"

text \<open>\<open>complete\<close>: the store releases the lease before it commits.\<close>

definition auth_complete :: "'e session \<Rightarrow> ('e world, unit) run" where
  "auth_complete su = andthen lease_check (\<lambda>_.
     andthen (storing su (complete (su_sha su) (su_attempt su) (su_device su))) (\<lambda>_. lease_close))"

definition auth_refuse :: "'e session \<Rightarrow> refusal \<Rightarrow> ('e world, status) run" where
  "auth_refuse su r = auth_transition su (refusal_state (refusal_code r)) (refusal_text r)"

definition auth_close :: "'e session \<Rightarrow> ('e world, unit) run" where
  "auth_close su = lastly
     (andthen (getting wd_lease) (\<lambda>open'. whenever open'
        (andthen (asking su (\<lambda>s. get_status s (su_tx su))) (\<lambda>current.
           whenever (status_state current \<in> {PStarting, PTransferring, PVerifying})
             (andthen (auth_transition su PStopped '''') (\<lambda>_. ret ()))))))
     lease_close"

section \<open>Boundaries\<close>

definition poll :: "'e session \<Rightarrow> ('e world, unit) run" where
  "poll su = andthen (auth_boundary su) (\<lambda>hd'. andthen (getting se_head) (\<lambda>mine.
     if hd' \<noteq> mine then refusing ''JOURNAL_CORRUPT'' ''journal changed outside its fenced writer'' else ret ()))"

definition boundary :: "'e session \<Rightarrow> ('e world, unit) run" where
  "boundary su = andthen (poll su) (\<lambda>_. andthen (getting (\<lambda>w. (se_allocated w, se_required w)))
     (\<lambda>(allocated, required). on_env (po_check (su_port su) (su_plan su) allocated required)))"

definition inspecting :: "'e session \<Rightarrow> str \<Rightarrow> ('e world, object_info option) run" where
  "inspecting su path = on_env (po_inspect (su_port su) path)"

text \<open>\<open>max(usage.values(), default=0)\<close> of allocations that are never negative.\<close>

definition peak :: "(str \<times> int) list \<Rightarrow> int" where
  "peak us = foldr (\<lambda>u n. max (snd u) n) us 0"

definition set_usage :: "str \<Rightarrow> (str \<times> int) list \<Rightarrow> 'e world \<Rightarrow> 'e world" where
  "set_usage token us w = w\<lparr>se_usage := (se_usage w)(token := us),
     se_allocated := se_allocated w + peak us - peak (se_usage w token)\<rparr>"

definition owned :: "'e session \<Rightarrow> str \<Rightarrow> transfer_op \<Rightarrow> ('e world, object_info option) run" where
  "owned su path op = andthen (inspecting su path) (\<lambda>info.
     case info of
       None \<Rightarrow> andthen (changing (\<lambda>w. set_usage (to_token op) (AList.delete path (se_usage w (to_token op))) w)) (\<lambda>_. ret None)
     | Some i \<Rightarrow>
         if oi_token i \<noteq> Some (to_token op) \<or> oi_directory i \<noteq> (to_kind op = KDirectory) then refusing ''OUTPUT_COLLISION'' path
         else if oi_bytes i < 0 then refusing ''DESTINATION_ALLOCATION_UNPROVEN'' path
         else andthen (changing (\<lambda>w. set_usage (to_token op) (AList.update path (oi_bytes i) (se_usage w (to_token op))) w))
           (\<lambda>_. ret (Some i)))"

definition refresh_parent :: "'e session \<Rightarrow> str \<Rightarrow> ('e world, unit) run" where
  "refresh_parent su path = andthen (getting (\<lambda>w. map_of (se_paths w) (parent_of path))) (\<lambda>found.
     case found of None \<Rightarrow> ret () | Some op \<Rightarrow> andthen (owned su (parent_of path) op) (\<lambda>_. ret ()))"

definition check_parents :: "'e session \<Rightarrow> str \<Rightarrow> ('e world, unit) run" where
  "check_parents su path = each (\<lambda>parent. andthen (getting (\<lambda>w. map_of (se_ops w) parent)) (\<lambda>found.
     case found of None \<Rightarrow> refusing ''OUTPUT_COLLISION'' parent
     | Some op \<Rightarrow>
         if to_kind op \<noteq> KDirectory \<or> to_state op \<noteq> SComplete then refusing ''OUTPUT_COLLISION'' parent
         else andthen (owned su parent op) (\<lambda>info. if info = None then refusing ''OUTPUT_COLLISION'' parent else ret ())))
     (rev (proper_parents path))"

section \<open>Reading back\<close>

text \<open>The loop of \<open>_matches\<close>: it ends at the first empty piece.\<close>

fun absorb :: "'e session \<Rightarrow> str list \<Rightarrow> failure option \<Rightarrow> str \<Rightarrow> ('e world, str) run" where
  "absorb su [] fail data = (case fail of None \<Rightarrow> ret data | Some e \<Rightarrow> raising e)"
| "absorb su (p # ps) fail data = (if p = [] then ret data else andthen (boundary su) (\<lambda>_. absorb su ps fail (data @ p)))"

definition fits :: "'e session \<Rightarrow> transfer_op \<Rightarrow> str \<Rightarrow> bool" where
  "fits su op data \<longleftrightarrow> int (length data) = to_size op \<and> su_sha su data = to_sha op"

definition matches :: "'e session \<Rightarrow> str \<Rightarrow> transfer_op \<Rightarrow> ('e world, bool) run" where
  "matches su path op = andthen (on_env (po_read (su_port su) path)) (\<lambda>r.
     andthen (absorb su (rd_pieces r) (rd_fail r) []) (\<lambda>data.
       andthen (boundary su) (\<lambda>_. ret (fits su op data))))"

definition verify_control :: "'e session \<Rightarrow> bool \<Rightarrow> ('e world, unit) run" where
  "verify_control su required = andthen (getting (\<lambda>w. map_of (se_ops w) (control_path (su_plan su)))) (\<lambda>found.
     case (case found of None \<Rightarrow> None | Some op \<Rightarrow> if to_state op = SComplete then Some op else None) of
       None \<Rightarrow> if required then refusing ''CONTROL_CORRUPT'' ''ownership record is not complete'' else ret ()
     | Some op \<Rightarrow> andthen (owned su (to_path op) op) (\<lambda>info.
         if info = None then refusing ''CONTROL_CORRUPT'' ''ownership record disappeared or changed''
         else andthen (matches su (to_path op) op) (\<lambda>same.
           if same then ret () else refusing ''CONTROL_CORRUPT'' ''ownership record disappeared or changed'')))"

definition check :: "'e session \<Rightarrow> ('e world, unit) run" where
  "check su = andthen (boundary su) (\<lambda>_. verify_control su False)"

section \<open>Recorded operations\<close>

definition op_paths :: "transfer_op \<Rightarrow> str list" where
  "op_paths op = to_path op # (case to_temporary op of None \<Rightarrow> [] | Some t \<Rightarrow> [t])"

definition note_op :: "transfer_op \<Rightarrow> 'e world \<Rightarrow> 'e world" where
  "note_op op w = w\<lparr>se_ops := AList.update (to_path op) op (se_ops w),
     se_paths := fold (\<lambda>p. AList.update p op) (op_paths op) (se_paths w)\<rparr>"

definition record_op :: "'e session \<Rightarrow> transfer_op \<Rightarrow> op_state \<Rightarrow> ('e world, transfer_op) run" where
  "record_op su op' state = (let op = op'\<lparr>to_state := state\<rparr> in
     andthen (getting se_head) (\<lambda>mine.
     andthen (auth_append su ''operation'' (op_json (su_sha su) (su_plan su) op) mine) (\<lambda>h.
     andthen (changing (\<lambda>w. note_op op (w\<lparr>se_head := Some h\<rparr>))) (\<lambda>_. ret op))))"

definition open_op :: "'e session \<Rightarrow> str \<Rightarrow> op_kind \<Rightarrow> int \<Rightarrow> str \<Rightarrow> ('e world, transfer_op) run" where
  "open_op su path kind n digest = andthen (getting (\<lambda>w. map_of (se_ops w) path)) (\<lambda>found.
     case found of
       Some previous \<Rightarrow>
         if to_kind previous \<noteq> kind \<or> to_size previous \<noteq> n \<or> to_sha previous \<noteq> digest
         then refusing ''JOURNAL_CORRUPT'' path else ret previous
     | None \<Rightarrow> andthen (inspecting su path) (\<lambda>info.
         if info \<noteq> None then refusing ''OUTPUT_COLLISION'' path
         else andthen (fresh_name su) (\<lambda>token.
           record_op su \<lparr>to_path = path, to_kind = kind, to_size = n, to_sha = digest, to_token = token,
             to_temporary = (if kind = KDirectory then None else Some (staging path token)),
             to_source = JNull, to_state = SIntent\<rparr> SIntent)))"

section \<open>Directories\<close>

definition make_directory :: "'e session \<Rightarrow> str \<Rightarrow> transfer_op \<Rightarrow> ('e world, unit) run" where
  "make_directory su path op = andthen (check su) (\<lambda>_. andthen (check_parents su path) (\<lambda>_.
     andthen (owned su path op) (\<lambda>existing.
       if existing \<noteq> None \<and> to_state op = SComplete then ret ()
       else andthen (whenever (existing = None)
           (andthen (on_env (po_mkdir (su_port su) path (to_token op))) (\<lambda>_.
            andthen (owned su path op) (\<lambda>_. refresh_parent su path)))) (\<lambda>_.
         andthen (on_env (po_flush (su_port su) path)) (\<lambda>_.
         andthen (on_env (po_flush (su_port su) (parent_of path))) (\<lambda>_.
         andthen (record_op su op SComplete) (\<lambda>_. ret ())))))))"

definition directory :: "'e session \<Rightarrow> str \<Rightarrow> ('e world, unit) run" where
  "directory su path = andthen (open_op su path KDirectory 0 '''') (make_directory su path)"

definition make_parents :: "'e session \<Rightarrow> str \<Rightarrow> ('e world, unit) run" where
  "make_parents su path = each (directory su) (rev (proper_parents path))"

text \<open>The approved tree holds nothing that the session does not own.\<close>

definition claimed :: "'e session \<Rightarrow> str \<Rightarrow> ('e world, unit) run" where
  "claimed su path = andthen (getting (\<lambda>w. map_of (se_paths w) path)) (\<lambda>found.
     case found of None \<Rightarrow> refusing ''OUTPUT_COLLISION'' path
     | Some op \<Rightarrow> andthen (owned su path op) (\<lambda>info. if info = None then refusing ''OUTPUT_COLLISION'' path else ret ()))"

definition destination_root :: "'e session \<Rightarrow> str" where
  "destination_root su = sp_root (pv_spec (plan_proposal (su_plan su)))"

definition audit_layout :: "'e session \<Rightarrow> ('e world, unit) run" where
  "audit_layout su = andthen (boundary su) (\<lambda>_.
     andthen (each (\<lambda>path. andthen (inspecting su path) (\<lambda>info. whenever (info \<noteq> None) (claimed su path)))
       (rev (proper_parents (destination_root su)) @ [join_path (path_parts (destination_root su))])) (\<lambda>_.
     andthen (on_env (po_list (su_port su) (join_path (path_parts (destination_root su))))) (\<lambda>paths.
       each (\<lambda>path. andthen (boundary su) (\<lambda>_. claimed su path)) paths)))"

section \<open>Publication\<close>

text \<open>\<open>except FileExistsError\<close> around the atomic rename.\<close>

definition publishing :: "'e session \<Rightarrow> str \<Rightarrow> str \<Rightarrow> str \<Rightarrow> ('e world, unit) run" where
  "publishing su temp path token = catching (on_env (po_publish (su_port su) temp path token))
     (\<lambda>e. case e of FileExists _ \<Rightarrow> refusing ''OUTPUT_COLLISION'' path | _ \<Rightarrow> raising e)"

definition discard_left :: "'e session \<Rightarrow> str \<Rightarrow> transfer_op \<Rightarrow> ('e world, unit) run" where
  "discard_left su temp op = andthen (owned su temp op) (\<lambda>left. whenever (left \<noteq> None)
     (andthen (check_parents su temp) (\<lambda>_.
      andthen (on_env (po_discard (su_port su) temp (to_token op))) (\<lambda>_.
      andthen (owned su temp op) (\<lambda>_. andthen (refresh_parent su temp) (\<lambda>_.
        on_env (po_flush (su_port su) (parent_of temp))))))))"

text \<open>
  \<open>_publish\<close> of an operation with a temporary file; the directory kind has none. A new object is
  read back before the rename; the rest happens for a new and for a published object.
\<close>

definition publish_new :: "'e session \<Rightarrow> str \<Rightarrow> transfer_op \<Rightarrow> ('e world, unit) run" where
  "publish_new su temp op = andthen (owned su temp op) (\<lambda>staged.
     andthen (if staged = None then ret False else matches su temp op) (\<lambda>same.
       if \<not> same then refusing ''RECOVERY_DIGEST_MISMATCH'' temp
       else andthen (check_parents su (to_path op)) (\<lambda>_. andthen (boundary su) (\<lambda>_.
         andthen (publishing su temp (to_path op) (to_token op)) (\<lambda>_.
         andthen (owned su (to_path op) op) (\<lambda>_. refresh_parent su (to_path op)))))))"

definition conclude :: "'e session \<Rightarrow> str \<Rightarrow> transfer_op \<Rightarrow> ('e world, transfer_op) run" where
  "conclude su temp op = andthen (on_env (po_flush (su_port su) (parent_of (to_path op)))) (\<lambda>_.
     andthen (record_op su op SComplete) (\<lambda>done'.
     andthen (discard_left su temp done') (\<lambda>_.
     andthen (whenever (to_kind op = KFile) (changing (\<lambda>w. w\<lparr>se_verified := List.insert (to_token done') (se_verified w)\<rparr>)))
       (\<lambda>_. ret done'))))"

definition publish :: "'e session \<Rightarrow> transfer_op \<Rightarrow> ('e world, transfer_op) run" where
  "publish su op = (case to_temporary op of None \<Rightarrow> raising (Crashed ''TypeError'') | Some temp \<Rightarrow>
     andthen (check su) (\<lambda>_. andthen (check_parents su (to_path op)) (\<lambda>_.
     andthen (owned su (to_path op) op) (\<lambda>final.
     andthen (if final = None then publish_new su temp op
              else andthen (matches su (to_path op) op) (\<lambda>same.
                if same then ret () else refusing ''RECOVERY_DIGEST_MISMATCH'' (to_path op))) (\<lambda>_.
     conclude su temp op)))))"

end
