(* ===== verification/SliceDelivery.thy ===== *)
theory SliceDelivery
  imports SliceSession
begin

text \<open>
  The rest of \<open>modelark/slice/transaction.py\<close>: writing an object, choosing the source of a file,
  the final verification, one step of a session, and \<open>start\<close> with \<open>DeliveryAuthority.acquire\<close>.
\<close>

section \<open>Writing\<close>

definition QUANTUM :: nat where
  "QUANTUM = 1048576"

text \<open>
  \<open>_read_chunk\<close>: short reads are gathered up to the quantum, with a poll before and after each
  read. The polls are counted, and happen before what the call returns or raises.
\<close>

fun chunk :: "str list \<Rightarrow> failure option \<Rightarrow> str \<Rightarrow> nat \<times> (failure + (str \<times> str list))" where
  "chunk [] fail data =
     (if QUANTUM \<le> length data then (0, Inr (data, []))
      else (case fail of Some e \<Rightarrow> (1, Inl e) | None \<Rightarrow> (2, Inr (data, []))))"
| "chunk (p # ps) fail data =
     (if QUANTUM \<le> length data then (0, Inr (data, p # ps))
      else if QUANTUM - length data < length p
      then (2, Inl (Refused (Refusal ''SOURCE_READ_FAILED'' ''source violated bounded binary read'')))
      else if p = [] then (2, Inr (data, ps))
      else (case chunk ps fail (data @ p) of (n, r) \<Rightarrow> (n + 2, r)))"

lemma chunk_shorter:
  "chunk ps fail data = (n, Inr (piece, ps')) \<Longrightarrow> length ps' \<le> length ps \<and> (length data < length piece \<longrightarrow> length ps' < length ps)"
proof (induction ps fail data arbitrary: n rule: chunk.induct)
  case (2 p ps fail data)
  show ?case
  proof (cases "QUANTUM \<le> length data \<or> QUANTUM - length data < length p \<or> p = []")
    case True
    with 2(2) show ?thesis by (auto split: if_splits)
  next
    case False
    obtain m r where c: "chunk ps fail (data @ p) = (m, r)" by (cases "chunk ps fail (data @ p)")
    with False 2(2) have "r = Inr (piece, ps')" by (auto split: if_splits)
    with 2(1) False c have "length ps' \<le> length ps" by auto
    then show ?thesis by simp
  qed
qed (auto split: if_splits option.splits)

lemma chunk_rest: "(n, Inr b) = chunk ps fail [] \<Longrightarrow> (p, ps') = b \<Longrightarrow> p \<noteq> [] \<Longrightarrow> length ps' < length ps"
  using chunk_shorter [of ps fail "[]" n p ps'] by auto

definition polls :: "'e session \<Rightarrow> nat \<Rightarrow> ('e world, unit) run" where
  "polls su n = each (\<lambda>_. poll su) (replicate n ())"

text \<open>The loop of \<open>_write\<close>; \<open>data\<close> is what has been written.\<close>

function write_chunks ::
  "'e session \<Rightarrow> transfer_op \<Rightarrow> str \<Rightarrow> str list \<Rightarrow> failure option \<Rightarrow> str \<Rightarrow> ('e world, str) run" where
  "write_chunks su op temp ps fail data =
     (case chunk ps fail [] of (n, r) \<Rightarrow> andthen (polls su n) (\<lambda>_.
       case r of
         Inl e \<Rightarrow> raising e
       | Inr (piece, ps') \<Rightarrow>
           if piece = [] then ret data
           else andthen (boundary su) (\<lambda>_. andthen (check_parents su temp) (\<lambda>_.
             if to_size op < int (length (data @ piece)) then refusing ''SOURCE_DIGEST_MISMATCH'' ''''
             else andthen (on_env (po_append (su_port su) temp (to_token op) piece)) (\<lambda>_.
               andthen (owned su temp op) (\<lambda>_. write_chunks su op temp ps' fail (data @ piece)))))))"
  by pat_completeness auto

termination
  by (relation "measure (\<lambda>(su, op, temp, ps, fail, data). length ps)") (simp_all add: chunk_rest)

declare write_chunks.simps [simp del]

definition stage :: "'e session \<Rightarrow> str \<Rightarrow> transfer_op \<Rightarrow> ('e world, unit) run" where
  "stage su temp op = andthen (owned su temp op) (\<lambda>left.
     andthen (whenever (left \<noteq> None) (andthen (on_env (po_discard (su_port su) temp (to_token op))) (\<lambda>_.
        andthen (owned su temp op) (\<lambda>_. ret ())))) (\<lambda>_.
     andthen (on_env (po_create (su_port su) temp (to_token op))) (\<lambda>_.
     andthen (owned su temp op) (\<lambda>_. refresh_parent su temp))))"

definition prepare :: "'e session \<Rightarrow> str \<Rightarrow> transfer_op \<Rightarrow> reading \<Rightarrow> json \<Rightarrow> ('e world, transfer_op) run" where
  "prepare su temp op r source = andthen (stage su temp op) (\<lambda>_.
     andthen (write_chunks su op temp (rd_pieces r) (rd_fail r) []) (\<lambda>data.
       if \<not> fits su op data then refusing ''SOURCE_DIGEST_MISMATCH'' ''''
       else andthen (boundary su) (\<lambda>_. andthen (on_env (po_flush (su_port su) temp)) (\<lambda>_.
         andthen (record_op su (op\<lparr>to_source := source\<rparr>) SPrepared) (publish su)))))"

definition write_new :: "'e session \<Rightarrow> transfer_op \<Rightarrow> reading \<Rightarrow> json \<Rightarrow> ('e world, transfer_op) run" where
  "write_new su op0 r source = (case to_temporary op0 of None \<Rightarrow> raising (Crashed ''TypeError'') | Some temp \<Rightarrow>
     andthen (check su) (\<lambda>_. andthen (check_parents su (to_path op0)) (\<lambda>_.
     andthen (owned su (to_path op0) op0) (\<lambda>final.
       if final \<noteq> None then refusing ''OUTPUT_COLLISION'' (to_path op0)
       else andthen (record_op su (op0\<lparr>to_source := JNull\<rparr>) SIntent) (\<lambda>op. prepare su temp op r source)))))"

text \<open>\<open>io.BytesIO(data)\<close> read by the quantum.\<close>

function slices :: "str \<Rightarrow> str list" where
  "slices s = (if s = [] then [] else take QUANTUM s # slices (drop QUANTUM s))"
  by pat_completeness auto

termination
  by (relation "measure length") (auto simp: QUANTUM_def)

declare slices.simps [simp del]

definition bytes_io :: "str \<Rightarrow> reading" where
  "bytes_io data = \<lparr>rd_pieces = slices data, rd_fail = None\<rparr>"

text \<open>A record of the transaction itself: its ownership record and its receipt.\<close>

definition deliver_record :: "'e session \<Rightarrow> str \<Rightarrow> op_kind \<Rightarrow> json \<Rightarrow> ('e world, unit) run" where
  "deliver_record su path kind payload = (let data = encode payload in
     andthen (open_op su path kind (int (length data)) (su_sha su data)) (\<lambda>op.
     andthen (if to_state op \<in> {SPrepared, SComplete} then publish su op else write_new su op (bytes_io data) JNull) (\<lambda>_. ret ())))"

definition control :: "'e session \<Rightarrow> ('e world, unit) run" where
  "control su = deliver_record su (control_path (su_plan su)) KControl
     (control_json (su_sha su) (su_plan su) (su_tx su) (su_root su))"

section \<open>Files\<close>

text \<open>\<open>_same_source\<close>; an evidence key that occurs twice raises.\<close>

definition same_source :: "(str \<Rightarrow> str) \<Rightarrow> artifact \<Rightarrow> source_evidence \<Rightarrow> catalog_snapshot \<Rightarrow> failure + bool" where
  "same_source sha a candidate s =
     (case (filter (\<lambda>f. file_key f = (ar_repo a, ar_name a)) (sn_files s),
            filter (\<lambda>c. copy_key c = (ar_repo a, ar_name a, df_drive (ev_drive candidate))) (sn_copies s),
            filter (\<lambda>v. df_drive v = df_drive (ev_drive candidate)) (sn_drives s)) of
        ([file], [copy], [drive]) \<Rightarrow>
          if (ff_size file, ff_format file, ff_quant file) \<noteq> (Some (ar_size a), ar_format a, ar_quant a) then Inr False
          else (case index_by anchor_key (sn_anchors s) of Inl e \<Rightarrow> Inl (Crashed (refusal_text e)) | Inr anchors \<Rightarrow>
            (case source_of sha file copy (Some drive) anchors of
               Inl e \<Rightarrow> Inl (Crashed ''ValueError'')
             | Inr (Inl _) \<Rightarrow> Inr False
             | Inr (Inr (digest, actual)) \<Rightarrow> Inr (digest = ar_sha a \<and> evidence_json candidate = evidence_json actual)))
      | _ \<Rightarrow> Inr False)"

text \<open>
  One source of \<open>_file\<close>: what it calls while it opens, and its context around the write. What the
  exit of the context raises replaces the outcome of the body, as in Python.
\<close>

definition source_call :: "'e session \<Rightarrow> ('e world, unit) run" where
  "source_call su = (case po_shape (su_port su) of OpenPolled \<Rightarrow> poll su | OpenChecked \<Rightarrow> boundary su | OpenPlain \<Rightarrow> ret ())"

definition use_source :: "'e session \<Rightarrow> artifact \<Rightarrow> transfer_op \<Rightarrow> source_evidence \<Rightarrow> ('e world, transfer_op) run" where
  "use_source su a op candidate =
     andthen (each (\<lambda>part. andthen (on_env part) (\<lambda>_. source_call su)) (po_opening (su_port su) candidate)) (\<lambda>_.
     andthen (on_env (po_open (su_port su) candidate)) (\<lambda>(snapshot, stream). lastly
       (case same_source (su_sha su) a candidate snapshot of
          Inl e \<Rightarrow> raising e
        | Inr same \<Rightarrow> if same then write_new su op stream (evidence_full candidate)
                       else refusing ''SOURCE_CHANGED'' (df_drive (ev_drive candidate)))
       (on_env (po_close (su_port su) candidate))))"

definition source_refusal :: "str \<Rightarrow> bool" where
  "source_refusal code \<longleftrightarrow> strip_prefix ''SOURCE_'' code \<noteq> None \<or> code = ''WAITING_SOURCE''"

text \<open>\<open>json.dumps\<close> with its default separators.\<close>

fun comma_joined :: "str list \<Rightarrow> str" where
  "comma_joined [] = []"
| "comma_joined [x] = x"
| "comma_joined (x # y # ys) = x @ '', '' @ comma_joined (y # ys)"

definition member_dump :: "str \<times> str \<Rightarrow> str" where
  "member_dump m = json_string (fst m) @ '': '' @ snd m"

definition object_dump :: "(str \<times> str) list \<Rightarrow> str" where
  "object_dump ms = ''{'' @ comma_joined (map member_dump ms) @ ''}''"

definition candidate_dump :: "str \<times> str \<times> str \<Rightarrow> str" where
  "candidate_dump c = (case c of (code, label, detail) \<Rightarrow> object_dump
     [(''code'', json_string code), (''drive_label'', json_string label), (''detail'', json_string detail)])"

definition sources_refusal :: "artifact \<Rightarrow> (str \<times> str \<times> str) list \<Rightarrow> refusal" where
  "sources_refusal a errors = Refusal
     (if list_ex (\<lambda>e. fst e = ''WAITING_SOURCE'') errors then ''WAITING_SOURCE'' else ''SOURCE_BLOCKED'')
     (object_dump [(''repo_id'', json_string (ar_repo a)), (''rfilename'', json_string (ar_name a)),
        (''candidates'', ''['' @ comma_joined (map candidate_dump errors) @ '']'')])"

text \<open>The candidates in the sealed order; only a refusal of a source passes on to the next one.\<close>

fun try_sources ::
  "'e session \<Rightarrow> artifact \<Rightarrow> transfer_op \<Rightarrow> source_evidence list \<Rightarrow> (str \<times> str \<times> str) list \<Rightarrow> ('e world, transfer_op) run" where
  "try_sources su a op [] errors = raising (Refused (sources_refusal a errors))"
| "try_sources su a op (s # ss) errors = catching (use_source su a op s) (\<lambda>e.
     case e of
       Refused r \<Rightarrow>
         if source_refusal (refusal_code r)
         then try_sources su a op ss (errors @ [(refusal_code r, df_drive (ev_drive s), refusal_detail r)])
         else raising e
     | _ \<Rightarrow> raising e)"

text \<open>
  \<open>_file\<close>. A file whose source proof is recorded and whose bytes are still there is published
  again; an unproven final file is refused.
\<close>

definition still_there :: "'e session \<Rightarrow> transfer_op \<Rightarrow> ('e world, bool) run" where
  "still_there su op = (case to_temporary op of None \<Rightarrow> raising (Crashed ''TypeError'') | Some temp \<Rightarrow>
     andthen (owned su temp op) (\<lambda>left. ret (left \<noteq> None)))"

definition deliver_file :: "'e session \<Rightarrow> artifact \<Rightarrow> ('e world, transfer_op) run" where
  "deliver_file su a = (let path = artifact_target (su_plan su) a in
     andthen (make_parents su path) (\<lambda>_.
     andthen (open_op su path KFile (ar_size a) (ar_sha a)) (\<lambda>op.
     andthen (owned su path op) (\<lambda>final.
     andthen (if to_state op \<in> {SPrepared, SComplete} \<and> json_true (to_source op)
              then (if final \<noteq> None then ret True else still_there su op)
              else if final \<noteq> None then refusing ''UNPREPARED_PUBLICATION'' path else ret False) (\<lambda>proven.
       if proven then publish su op else try_sources su a op (ar_sources a) [])))))"

section \<open>Final verification\<close>

definition verify_found :: "'e session \<Rightarrow> str \<Rightarrow> transfer_op option \<Rightarrow> ('e world, json) run" where
  "verify_found su path found = (case found of None \<Rightarrow> raising (Crashed ''KeyError'')
     | Some op \<Rightarrow>
         if to_state op \<noteq> SComplete \<or> \<not> json_true (to_source op) then refusing ''VERIFICATION_FAILED'' path
         else andthen (owned su path op) (\<lambda>info.
           if info = None then refusing ''VERIFICATION_FAILED'' path
           else andthen (matches su path op) (\<lambda>same.
             if \<not> same then refusing ''VERIFICATION_FAILED'' path
             else ret (JObj [(''path'', JStr path), (''sha256'', JStr (to_sha op)), (''size'', JInt (to_size op)),
                             (''source'', to_source op)]))))"

definition verify_file :: "'e session \<Rightarrow> artifact \<Rightarrow> ('e world, json) run" where
  "verify_file su a = (let path = artifact_target (su_plan su) a in
     andthen (getting (\<lambda>w. map_of (se_ops w) path)) (verify_found su path))"

fun verify_files :: "'e session \<Rightarrow> artifact list \<Rightarrow> ('e world, json list) run" where
  "verify_files su [] = ret []"
| "verify_files su (a # as) = andthen (verify_file su a) (\<lambda>f. andthen (verify_files su as) (\<lambda>fs. ret (f # fs)))"

definition end_session :: "'e session \<Rightarrow> ('e world, unit) run" where
  "end_session su = on_env (po_end (su_port su))"

definition append_receipt :: "'e session \<Rightarrow> json \<Rightarrow> ('e world, unit) run" where
  "append_receipt su payload = andthen (getting se_head) (\<lambda>mine.
     andthen (auth_append su ''receipt'' payload mine) (\<lambda>h. changing (\<lambda>w. w\<lparr>se_head := Some h\<rparr>)))"

definition finish :: "'e session \<Rightarrow> ('e world, unit) run" where
  "finish su = andthen (verify_control su True) (\<lambda>_.
     andthen (auth_transition su PVerifying '''') (\<lambda>_.
     andthen (verify_files su (pv_closure (plan_proposal (su_plan su)))) (\<lambda>files.
     andthen (audit_layout su) (\<lambda>_.
     (let payload = receipt_json (su_sha su) (su_plan su) (su_tx su) files in
      andthen (deliver_record su (receipt_path (su_plan su)) KReceipt payload) (\<lambda>_.
      andthen (append_receipt su payload) (\<lambda>_.
      andthen (whenever (session_only (su_plan su)) (end_session su)) (\<lambda>_. auth_complete su))))))))"

section \<open>Steps\<close>

text \<open>
  The loop of \<open>_step\<close>: complete files are read back once per session; the first file that is not
  complete is worked on, and the answer says whether there was one.
\<close>

definition delivered :: "'e session \<Rightarrow> artifact \<Rightarrow> ('e world, transfer_op option) run" where
  "delivered su a = (let path = artifact_target (su_plan su) a in
     andthen (getting (\<lambda>w. map_of (se_ops w) path)) (\<lambda>found.
       case found of None \<Rightarrow> ret None
       | Some op \<Rightarrow>
           if to_state op \<noteq> SComplete then ret None
           else andthen (owned su path op) (\<lambda>info. ret (if info = None then None else Some op))))"

fun next_file :: "'e session \<Rightarrow> artifact list \<Rightarrow> ('e world, bool) run" where
  "next_file su [] = ret False"
| "next_file su (a # as) = andthen (delivered su a) (\<lambda>found.
     case found of
       None \<Rightarrow> andthen (deliver_file su a) (\<lambda>_. ret True)
     | Some op \<Rightarrow>
         andthen (getting se_verified) (\<lambda>verified.
         andthen (whenever (to_token op \<notin> set verified)
             (andthen (matches su (to_path op) op) (\<lambda>same.
               if same then changing (\<lambda>w. w\<lparr>se_verified := List.insert (to_token op) (se_verified w)\<rparr>)
               else refusing ''RECOVERY_DIGEST_MISMATCH'' (to_path op)))) (\<lambda>_.
         andthen (still_there su op) (\<lambda>left.
         andthen (whenever left (andthen (publish su op) (\<lambda>_. ret ()))) (\<lambda>_. next_file su as)))))"

definition get_state :: "'e session \<Rightarrow> ('e world, status) run" where
  "get_state su = asking su (\<lambda>s. get_status s (su_tx su))"

definition step_body :: "'e session \<Rightarrow> phase \<Rightarrow> ('e world, status option) run" where
  "step_body su current = andthen (check su) (\<lambda>_. andthen (audit_layout su) (\<lambda>_.
     andthen (whenever (current \<in> {PWaitingSource, PBlockedSource, PWaitingDestination})
        (andthen (auth_transition su PTransferring '''') (\<lambda>_. ret ()))) (\<lambda>_.
     andthen (next_file su (pv_closure (plan_proposal (su_plan su)))) (\<lambda>worked.
       if worked then andthen (get_state su) (\<lambda>st. ret (Some st))
       else andthen (finish su) (\<lambda>_. ret None)))))"

text \<open>The handlers of \<open>_step\<close>: the refusal is published as the transaction's state.\<close>

definition terminate :: "('e world, unit) run" where
  "terminate = changing (\<lambda>w. w\<lparr>se_terminal := True\<rparr>)"

definition ATTENDED :: "str set" where
  "ATTENDED = {''STOPPED'', ''WAITING_SOURCE'', ''WAITING_DESTINATION'', ''SOURCE_BLOCKED'', ''DESTINATION_CAPACITY_WAIT''}"

definition publish_outcome :: "'e session \<Rightarrow> refusal \<Rightarrow> ('e world, status) run" where
  "publish_outcome su r = catching (auth_transition su (refusal_state (refusal_code r)) (refusal_text r)) (\<lambda>e.
     case e of
       Refused r' \<Rightarrow> if refusal_code r' = ''STOPPED''
         then andthen terminate (\<lambda>_. ret (Status (su_tx su) PStopped ''STOPPED'')) else raising e
     | _ \<Rightarrow> raising e)"

definition settle_step :: "'e session \<Rightarrow> failure \<Rightarrow> ('e world, status option) run" where
  "settle_step su e = (case e of
       Refused r \<Rightarrow>
         if refusal_code r = ''STATE_BUSY'' then andthen lease_close (\<lambda>_. raising e)
         else andthen (changing (\<lambda>w. w\<lparr>se_terminal :=
             refusal_code r \<in> {''STOPPED'', ''DESTINATION_CAPACITY_WAIT''} \<or> refusal_code r \<notin> ATTENDED\<rparr>)) (\<lambda>_.
           andthen (lastly (publish_outcome su r) (andthen (getting se_terminal) (\<lambda>t. whenever t lease_close))) (\<lambda>outcome.
             if status_state outcome = PStopped then ret (Some outcome)
             else if refusal_code r \<notin> ATTENDED then raising e else ret None))
     | FileExists detail \<Rightarrow>
         andthen terminate (\<lambda>_.
         andthen (lastly (andthen (auth_transition su PFailed ''OUTPUT_COLLISION'') (\<lambda>_. ret ())) lease_close) (\<lambda>_.
           refusing ''OUTPUT_COLLISION'' detail))
     | _ \<Rightarrow> raising e)"

definition not_resumable :: "str \<Rightarrow> ('e world, 'a) run" where
  "not_resumable detail = refusing ''NOT_RESUMABLE'' detail"

definition step_plain :: "'e session \<Rightarrow> ('e world, status) run" where
  "step_plain su = andthen (getting se_terminal) (\<lambda>t.
     if t then not_resumable ''session encountered a terminal refusal''
     else andthen (catching (get_state su) (\<lambda>e. andthen (whenever (e = store_busy) lease_close) (\<lambda>_. raising e))) (\<lambda>current.
       if status_state current = PComplete then ret current
       else if status_state current \<in> {PFailed, PInvalidated}
       then andthen terminate (\<lambda>_. andthen lease_close (\<lambda>_. not_resumable (phase_text (status_state current))))
       else andthen lease_check (\<lambda>_.
         andthen (catching (step_body su (status_state current)) (settle_step su)) (\<lambda>answer.
           case answer of Some st \<Rightarrow> ret st | None \<Rightarrow> get_state su))))"

text \<open>\<open>_close_fat_abort\<close>, and \<open>step\<close>: a session-only plan ends with its first failure or outcome.\<close>

definition close_fat_abort :: "'e session \<Rightarrow> failure \<Rightarrow> ('e world, unit) run" where
  "close_fat_abort su e = lastly
     (whenever (e = Interrupted) (storing su (request_stop (su_tx su))))
     (lastly (auth_close su) (end_session su))"

definition step :: "'e session \<Rightarrow> ('e world, status) run" where
  "step su = (if \<not> session_only (su_plan su) then step_plain su
     else andthen (catching (step_plain su) (\<lambda>e.
         andthen terminate (\<lambda>_. andthen (close_fat_abort su e) (\<lambda>_. raising e)))) (\<lambda>result.
       andthen (whenever (status_state result \<notin> {PTransferring, PVerifying})
         (andthen terminate (\<lambda>_. andthen lease_close (\<lambda>_. end_session su)))) (\<lambda>_. ret result)))"

text \<open>\<open>run\<close> may go on for ever where objects keep vanishing: \<open>None\<close> when the fuel is spent.\<close>

fun run_steps :: "nat \<Rightarrow> 'e session \<Rightarrow> ('e world, status option) run" where
  "run_steps 0 su = ret None"
| "run_steps (Suc n) su = andthen (step su) (\<lambda>result.
     if status_state result \<in> {PTransferring, PVerifying} then run_steps n su else ret (Some result))"

definition close_session :: "'e session \<Rightarrow> ('e world, unit) run" where
  "close_session su = lastly (auth_close su) (whenever (session_only (su_plan su)) (end_session su))"

definition can_write :: "'e session \<Rightarrow> ('e world, bool) run" where
  "can_write su = catching (andthen lease_check (\<lambda>_. ret True))
     (\<lambda>e. case e of Refused _ \<Rightarrow> ret False | _ \<Rightarrow> raising e)"

section \<open>Start\<close>

text \<open>\<open>_allocated\<close>: an object may have two names, but its token counts once.\<close>

fun allocation :: "'e session \<Rightarrow> (str \<times> transfer_op) list \<Rightarrow> str list \<Rightarrow> int \<Rightarrow> ('e world, int) run" where
  "allocation su [] seen n = ret n"
| "allocation su ((path, op) # xs) seen n =
     (if path \<in> set seen then allocation su xs seen n
      else andthen (inspecting su path) (\<lambda>info.
        case info of None \<Rightarrow> allocation su xs (path # seen) n
        | Some i \<Rightarrow>
            if oi_token i \<noteq> Some (to_token op) \<or> oi_bytes i < 0 then refusing ''OUTPUT_COLLISION'' path
            else if to_token op \<in> set (path # seen) then allocation su xs (path # seen) n
            else allocation su xs (to_token op # path # seen) (n + oi_bytes i)))"

definition op_names :: "(str \<times> transfer_op) list \<Rightarrow> (str \<times> transfer_op) list" where
  "op_names ops = concat (map (\<lambda>(_, op). map (\<lambda>p. (p, op)) (op_paths op)) ops)"

text \<open>\<open>_operations\<close>: two reads of the store.\<close>

definition recorded :: "'e session \<Rightarrow> ('e world, (str \<times> transfer_op) list) run" where
  "recorded su = andthen (asking su (\<lambda>s. load (su_sha su) s (su_tx su))) (\<lambda>plan.
     andthen (asking su (\<lambda>s. events (su_sha su) s (su_tx su))) (\<lambda>es.
       settled (replay_events (su_sha su) plan (su_tx su) es [])))"

definition allocated :: "'e session \<Rightarrow> ('e world, int) run" where
  "allocated su = andthen (asking su (\<lambda>s. events (su_sha su) s (su_tx su))) (\<lambda>evs.
     if evs = [] then ret 0
     else andthen (recorded su) (\<lambda>ops. allocation su (op_names ops) [] 0))"

text \<open>\<open>Session.__init__\<close>.\<close>

definition adopt :: "'e session \<Rightarrow> (str \<times> transfer_op) list \<Rightarrow> ('e world, unit) run" where
  "adopt su ops = andthen (settled (required_bytes (su_sha su) (su_plan su) (su_root su))) (\<lambda>n.
     andthen (changing (\<lambda>w. w\<lparr>se_required := n\<rparr>)) (\<lambda>_.
       each (\<lambda>(p, op). andthen (changing (\<lambda>w. w\<lparr>se_paths := AList.update p op (se_paths w)\<rparr>))
         (\<lambda>_. andthen (owned su p op) (\<lambda>_. ret ()))) (op_names ops)))"

definition fresh_session :: "(str \<times> transfer_op) list \<Rightarrow> (nat \<times> str) option \<Rightarrow> 'e world \<Rightarrow> 'e world" where
  "fresh_session ops h w = w\<lparr>se_ops := ops, se_head := h, se_paths := [], se_usage := (\<lambda>_. []), se_allocated := 0,
     se_verified := [], se_terminal := False\<rparr>"

definition init_session :: "'e session \<Rightarrow> ('e world, unit) run" where
  "init_session su = andthen (recorded su) (\<lambda>ops.
     andthen (asking su (\<lambda>s. Inr (head s (su_tx su)))) (\<lambda>h.
     andthen (changing (fresh_session ops h)) (\<lambda>_. adopt su ops)))"

text \<open>\<open>Lease\<close>: a new token and the two sockets.\<close>

definition take_lease :: "'e session \<Rightarrow> ('e world, 'e session) run" where
  "take_lease su = andthen (fresh_name su) (\<lambda>token.
     andthen (on_env (po_lease (su_port su))) (\<lambda>free.
       if \<not> free then refusing ''DESTINATION_BUSY'' ''''
       else andthen (changing (\<lambda>w. w\<lparr>wd_lease := True\<rparr>)) (\<lambda>_.
         ret (su\<lparr>su_attempt := \<lparr>at_owner = su_tx su, at_token = token\<rparr>\<rparr>))))"

text \<open>Who holds the device already: the transaction itself, or another claim.\<close>

definition lease_held :: "'e session \<Rightarrow> failure \<Rightarrow> ('e world, status) run" where
  "lease_held su e = andthen (get_state su) (\<lambda>current.
     if status_state current = PComplete then ret current
     else andthen (asking su (\<lambda>s. Inr (current_attempt s (su_device su)))) (\<lambda>found.
       case found of None \<Rightarrow> raising e
       | Some a \<Rightarrow>
           if at_owner a \<noteq> su_tx su then raising e
           else andthen (on_env (po_retained (su_port su) a)) (\<lambda>live.
             if \<not> live then raising e
             else andthen (asking su (\<lambda>s. Inr (current_attempt s (su_device su)))) (\<lambda>again.
               if again = Some a then get_state su else raising e))))"

definition preclaim_check :: "'e session \<Rightarrow> reservation \<Rightarrow> ('e world, unit) run" where
  "preclaim_check su r = andthen lease_check (\<lambda>_. asking su (guard_preclaim (su_tx su) (su_device su) r))"

definition refuse_claim :: "'e session \<Rightarrow> reservation \<Rightarrow> refusal \<Rightarrow> bool \<Rightarrow> ('e world, status) run" where
  "refuse_claim su r refused interrupted = andthen lease_check (\<lambda>_.
     storing su (refuse_preclaim (su_tx su) (su_device su) r refused interrupted))"

text \<open>The source checks before the claim: \<open>Some\<close> outcome where an attended wait is published.\<close>

definition preflight :: "'e session \<Rightarrow> reservation \<Rightarrow> ('e world, unit) run list option \<Rightarrow> ('e world, status option) run" where
  "preflight su r parts = (case parts of None \<Rightarrow> ret None | Some ms \<Rightarrow>
     catching
       (andthen (preclaim_check su r) (\<lambda>_.
        andthen (each (\<lambda>m. andthen (preclaim_check su r) (\<lambda>_. m)) ms) (\<lambda>_.
        andthen (preclaim_check su r) (\<lambda>_. ret None))))
       (\<lambda>e. case e of
          Interrupted \<Rightarrow> andthen (refuse_claim su r (Refusal ''STOPPED'' '''') True) (\<lambda>_. raising e)
        | Refused refused \<Rightarrow> andthen (refuse_claim su r refused False) (\<lambda>outcome.
            if refusal_code refused \<in> {''SOURCE_BLOCKED'', ''WAITING_SOURCE''}
            then andthen lease_close (\<lambda>_. ret (Some outcome)) else raising e)
        | _ \<Rightarrow> raising e))"

definition claiming :: "'e session \<Rightarrow> reservation \<Rightarrow> ('e world, status option) run" where
  "claiming su r = andthen (storing su (claim (su_sha su) (su_tx su) (su_device su) (su_attempt su) r)) (\<lambda>outcome.
     if status_state outcome \<in> {PComplete, PStopped}
     then andthen lease_close (\<lambda>_. if status_state outcome = PStopped then refusing ''STOPPED'' '''' else ret (Some outcome))
     else ret None)"

text \<open>\<open>DeliveryAuthority.acquire\<close>: a status, or the session's attempt.\<close>

definition claim_lease :: "'e session \<Rightarrow> reservation \<Rightarrow> bool \<Rightarrow> ('e world, status + 'e session) run" where
  "claim_lease su r checked = catching
     (andthen (get_state su) (\<lambda>current.
        if status_state current = PComplete then andthen lease_close (\<lambda>_. ret (Inl current))
        else andthen (preflight su r (if checked then map_option (map on_env) (po_preflight (su_port su)) else None)) (\<lambda>waiting.
          case waiting of Some st \<Rightarrow> ret (Inl st)
          | None \<Rightarrow> andthen (claiming su r) (\<lambda>outcome.
              case outcome of Some st \<Rightarrow> ret (Inl st) | None \<Rightarrow> ret (Inr su)))))
     (\<lambda>e. andthen lease_close (\<lambda>_. raising e))"

definition acquire :: "'e session \<Rightarrow> reservation \<Rightarrow> bool \<Rightarrow> ('e world, status + 'e session) run" where
  "acquire su0 r checked = andthen
     (catching (andthen (take_lease su0) (\<lambda>su. ret (Inr su)))
        (\<lambda>e. case e of Refused _ \<Rightarrow> andthen (lease_held su0 e) (\<lambda>st. ret (Inl st)) | _ \<Rightarrow> raising e)) (\<lambda>got.
     case got of Inl st \<Rightarrow> ret (Inl st) | Inr su \<Rightarrow> claim_lease su r checked)"

text \<open>The body of \<open>start\<close> under its handlers.\<close>

definition open_session :: "'e session \<Rightarrow> int \<Rightarrow> ('e world, unit) run" where
  "open_session su required =
     andthen (whenever (session_only (su_plan su)) (on_env (po_begin (su_port su)))) (\<lambda>_.
     andthen (allocated su) (\<lambda>n.
     andthen (on_env (po_check (su_port su) (su_plan su) n required)) (\<lambda>_.
     andthen (auth_transition su PTransferring '''') (\<lambda>_.
     andthen (init_session su) (\<lambda>_.
     andthen (audit_layout su) (\<lambda>_.
     andthen (whenever (is_folder (su_plan su)) (directory su (destination_root su))) (\<lambda>_. control su)))))))"

definition abandon :: "'e session \<Rightarrow> failure \<Rightarrow> ('e world, unit) run" where
  "abandon su e = (case e of
       Refused r \<Rightarrow> lastly
         (whenever (refusal_code r \<notin> {''DESTINATION_BUSY'', ''STATE_BUSY'', ''NOT_RESUMABLE''})
            (andthen (auth_refuse su r) (\<lambda>_. ret ())))
         (andthen lease_close (\<lambda>_. whenever (session_only (su_plan su)) (end_session su)))
     | _ \<Rightarrow> if session_only (su_plan su) then close_fat_abort su e else lease_close)"

definition begin_session :: "'e session \<Rightarrow> int \<Rightarrow> ('e world, status + 'e session) run" where
  "begin_session su required = andthen
     (catching (open_session su required) (\<lambda>e. andthen (abandon su e) (\<lambda>_. raising e))) (\<lambda>_. ret (Inr su))"

text \<open>Sources are checked before the claim only while the journal is empty.\<close>

definition preflight_due :: "'e session \<Rightarrow> ('e world, bool) run" where
  "preflight_due su = (if po_preflight (su_port su) = None then ret False
     else andthen (asking su (\<lambda>s. events (su_sha su) s (su_tx su))) (\<lambda>evs. ret (evs = [])))"

text \<open>
  \<open>Store.reserve\<close>: a reader first, and only where nobody owns the device yet a writer, which looks
  again; other processes may run in between.
\<close>

definition reserving :: "'e session \<Rightarrow> ('e world, status + reservation) run" where
  "reserving su = andthen (asking su (reserve_read (su_sha su) (su_tx su) (su_device su))) (\<lambda>found.
     case found of Inl st \<Rightarrow> ret (Inl st)
     | Inr (mine, r) \<Rightarrow> if mine then ret (Inr r)
         else storing su (reserve_write (su_sha su) (su_tx su) (su_device su) r))"

definition begin_plan :: "'e session \<Rightarrow> ('e world, status + 'e session) run" where
  "begin_plan su1 = andthen (get_state su1) (\<lambda>st.
     if status_state st = PReady then refusing ''APPROVAL_MISSING'' ''''
     else if status_state st = PComplete then ret (Inl st)
     else andthen (settled (required_bytes (su_sha su1) (su_plan su1) (su_root su1))) (\<lambda>required.
       andthen (reserving su1) (\<lambda>reserved.
       case reserved of Inl st' \<Rightarrow> ret (Inl st')
       | Inr r \<Rightarrow> andthen (preflight_due su1) (\<lambda>checked.
           andthen (acquire su1 r checked) (\<lambda>got.
           case got of Inl st' \<Rightarrow> ret (Inl st') | Inr su \<Rightarrow> begin_session su required)))))"

definition start :: "'e session \<Rightarrow> ('e world, status + 'e session) run" where
  "start su0 = andthen (asking su0 (\<lambda>s. load (su_sha su0) s (su_tx su0))) (\<lambda>plan.
     begin_plan (su0\<lparr>su_plan := plan\<rparr>))"

section \<open>A delivery\<close>

text \<open>
  What \<open>operator.py\<close> and \<open>folder_operator.py\<close> do with a session: \<open>run\<close> under \<open>with session\<close>, and a
  keyboard interrupt of it requests a stop and runs on until the stop is acknowledged. An
  interrupt of \<open>start\<close> itself is passed on here; the operators answer it with a second \<open>start\<close>.
\<close>

definition acknowledge :: "nat \<Rightarrow> 'e session \<Rightarrow> ('e world, status option) run" where
  "acknowledge n su = andthen (storing su (request_stop (su_tx su))) (\<lambda>_.
     catching (run_steps n su) (\<lambda>e. case e of
         Refused r \<Rightarrow> if refusal_code r = ''STOPPED'' then ret (Some (Status (su_tx su) PStopped ''STOPPED'')) else raising e
       | _ \<Rightarrow> raising e))"

definition delivery :: "nat \<Rightarrow> 'e session \<Rightarrow> ('e world, status option) run" where
  "delivery n su0 = andthen (start su0) (\<lambda>got.
     case got of Inl st \<Rightarrow> ret (Some st)
     | Inr su \<Rightarrow> lastly
         (catching (run_steps n su) (\<lambda>e. if e = Interrupted then acknowledge n su else raising e))
         (close_session su))"

end
