(* ===== verification/SliceRuns.thy ===== *)
theory SliceRuns
  imports SliceDelivery
begin

text \<open>
  Reasoning about programs that may raise. \<open>yields I m R\<close>: from a world with the invariant \<open>I\<close> the
  program ends, with a result or an exception, in a world with \<open>I\<close>, and a result is in \<open>R\<close>. The
  rules follow the structure of a program; the collection \<open>safe\<close> holds those that need no guess.
\<close>

named_theorems safe \<open>rules that reduce a program's invariant to its parts\<close>

section \<open>Triples\<close>

definition yields :: "('w \<Rightarrow> bool) \<Rightarrow> ('w, 'a) run \<Rightarrow> ('a \<Rightarrow> bool) \<Rightarrow> bool" where
  "yields I m R \<longleftrightarrow> (\<forall>w. I w \<longrightarrow> I (snd (m w)) \<and> (\<forall>x. fst (m w) = Inr x \<longrightarrow> R x))"

text \<open>The same with a precondition, a postcondition of result and world, and one for exceptions.\<close>

definition runs :: "('w \<Rightarrow> bool) \<Rightarrow> ('w, 'a) run \<Rightarrow> ('a \<Rightarrow> 'w \<Rightarrow> bool) \<Rightarrow> ('w \<Rightarrow> bool) \<Rightarrow> bool" where
  "runs P m Q E \<longleftrightarrow> (\<forall>w. P w \<longrightarrow> (case m w of (Inl e, w') \<Rightarrow> E w' | (Inr x, w') \<Rightarrow> Q x w'))"

lemma yieldsD: "yields I m R \<Longrightarrow> I w \<Longrightarrow> I (snd (m w))"
  by (simp add: yields_def)

lemma yields_resultD: "yields I m R \<Longrightarrow> I w \<Longrightarrow> m w = (Inr x, w') \<Longrightarrow> R x \<and> I w'"
  unfolding yields_def by (drule spec [of _ w]) simp

lemma yields_weaken: "yields I m R \<Longrightarrow> (\<And>x. R x \<Longrightarrow> S x) \<Longrightarrow> yields I m S"
  by (simp add: yields_def)

lemma yields_when: "(\<And>w. I w \<Longrightarrow> b) \<Longrightarrow> (b \<Longrightarrow> yields I m R) \<Longrightarrow> yields I m R"
  by (auto simp: yields_def)

lemma yields_any: "yields I m R \<Longrightarrow> yields I m (\<lambda>_. True)"
  by (erule yields_weaken) simp

lemma yields_ret [safe]: "R x \<Longrightarrow> yields I (ret x) R"
  by (simp add: yields_def ret_def)

lemma yields_raising [safe]: "yields I (raising e) R"
  by (simp add: yields_def raising_def)

lemma yields_refusing [safe]: "yields I (refusing c d) R"
  by (simp add: refusing_def yields_raising)

lemma yields_changing [safe]: "(\<And>w. I w \<Longrightarrow> I (f w)) \<Longrightarrow> R () \<Longrightarrow> yields I (changing f) R"
  by (simp add: yields_def changing_def)

lemma yields_andthen:
  assumes "yields I m R" "\<And>x. R x \<Longrightarrow> yields I (k x) S"
  shows "yields I (andthen m k) S"
  unfolding yields_def
proof (intro allI impI)
  fix w
  assume w: "I w"
  obtain r w' where m: "m w = (r, w')" by (cases "m w")
  have I': "I w'" using yieldsD [OF assms(1) w] m by simp
  show "I (snd (andthen m k w)) \<and> (\<forall>x. fst (andthen m k w) = Inr x \<longrightarrow> S x)"
  proof (cases r)
    case (Inl e)
    with m I' show ?thesis by (simp add: andthen_def)
  next
    case (Inr x)
    with yields_resultD [OF assms(1) w] m have "R x" by simp
    from assms(2) [OF this] I' Inr m show ?thesis by (simp add: andthen_def yields_def)
  qed
qed

lemma yields_getting [safe]:
  assumes "\<And>w. I w \<Longrightarrow> yields I (k (f w)) S"
  shows "yields I (andthen (getting f) k) S"
  using assms by (simp add: yields_def andthen_def getting_def)

lemma yields_catching [safe]:
  assumes "yields I m R" "\<And>e. yields I (h e) R"
  shows "yields I (catching m h) R"
  unfolding yields_def
proof (intro allI impI)
  fix w
  assume w: "I w"
  obtain r w' where m: "m w = (r, w')" by (cases "m w")
  have "I w'" using yieldsD [OF assms(1) w] m by simp
  with m assms yields_resultD [OF assms(1) w] show "I (snd (catching m h w)) \<and> (\<forall>x. fst (catching m h w) = Inr x \<longrightarrow> R x)"
    by (cases r) (simp_all add: catching_def yields_def)
qed

lemma yields_lastly [safe]:
  assumes "yields I m R" "yields I c (\<lambda>_. True)"
  shows "yields I (lastly m c) R"
  unfolding yields_def
proof (intro allI impI)
  fix w
  assume w: "I w"
  obtain r w' where m: "m w = (r, w')" by (cases "m w")
  obtain r' w'' where c: "c w' = (r', w'')" by (cases "c w'")
  have 1: "I w'" using yieldsD [OF assms(1) w] m by simp
  have 2: "I w''" using yieldsD [OF assms(2) 1] c by simp
  have "R x" if "r = Inr x" for x using yields_resultD [OF assms(1) w] m that by simp
  with m c 2 show "I (snd (lastly m c w)) \<and> (\<forall>x. fst (lastly m c w) = Inr x \<longrightarrow> R x)"
    by (cases r') (simp_all add: lastly_def)
qed

lemma yields_whenever [safe]: "(b \<Longrightarrow> yields I m R) \<Longrightarrow> R () \<Longrightarrow> yields I (whenever b m) R"
  by (simp add: whenever_def yields_ret)

lemma yields_each:
  assumes "\<And>x. x \<in> set xs \<Longrightarrow> yields I (f x) (\<lambda>_. True)" "R ()"
  shows "yields I (each f xs) R"
  using assms(1)
proof (induction xs)
  case (Cons x xs)
  show ?case
    unfolding each.simps by (rule yields_andthen [OF Cons.prems Cons.IH]) (simp_all add: Cons.prems)
qed (simp add: yields_ret assms(2))

lemma yields_if [safe]: "(b \<Longrightarrow> yields I m R) \<Longrightarrow> (\<not> b \<Longrightarrow> yields I n R) \<Longrightarrow> yields I (if b then m else n) R"
  by simp

lemma yields_option [safe]:
  "(v = None \<Longrightarrow> yields I m R) \<Longrightarrow> (\<And>x. v = Some x \<Longrightarrow> yields I (f x) R) \<Longrightarrow>
    yields I (case v of None \<Rightarrow> m | Some x \<Rightarrow> f x) R"
  by (cases v) simp_all

lemma yields_sum [safe]:
  "(\<And>e. v = Inl e \<Longrightarrow> yields I (f e) R) \<Longrightarrow> (\<And>x. v = Inr x \<Longrightarrow> yields I (g x) R) \<Longrightarrow>
    yields I (case v of Inl e \<Rightarrow> f e | Inr x \<Rightarrow> g x) R"
  by (cases v) simp_all

lemma yields_prod [safe]:
  "(\<And>a b. v = (a, b) \<Longrightarrow> yields I (f a b) R) \<Longrightarrow> yields I (case v of (a, b) \<Rightarrow> f a b) R"
  by (cases v) simp

lemma yields_failure [safe]:
  "(\<And>r. v = Refused r \<Longrightarrow> yields I (f1 r) R) \<Longrightarrow> (\<And>d. v = FileExists d \<Longrightarrow> yields I (f2 d) R) \<Longrightarrow>
    (v = Interrupted \<Longrightarrow> yields I f3 R) \<Longrightarrow> (\<And>d. v = Crashed d \<Longrightarrow> yields I (f4 d) R) \<Longrightarrow>
    yields I (case v of Refused r \<Rightarrow> f1 r | FileExists d \<Rightarrow> f2 d | Interrupted \<Rightarrow> f3 | Crashed d \<Rightarrow> f4 d) R"
  by (cases v) simp_all

lemma yields_let [safe]: "yields I (f x) R \<Longrightarrow> yields I (let y = x in f y) R"
  by (simp add: Let_def)

lemma yields_settled [safe]: "(\<And>x. R x) \<Longrightarrow> yields I (settled r) R"
  by (cases r) (simp_all add: settled_def yields_raising yields_ret)

text \<open>Declared last, because the rule for \<open>getting\<close> is to be tried first.\<close>

lemma yields_seq [safe]:
  "yields I m (\<lambda>_. True) \<Longrightarrow> (\<And>x. yields I (k x) S) \<Longrightarrow> yields I (andthen m k) S"
  by (rule yields_andthen)

section \<open>Pre- and postconditions\<close>

lemma runs_yields:
  fixes m :: "('a, 'b) run"
  shows "yields I m R \<longleftrightarrow> runs I m (\<lambda>x w. I w \<and> R x) I"
proof -
  have "(I (snd r) \<and> (\<forall>x. fst r = Inr x \<longrightarrow> R x)) \<longleftrightarrow>
      (case r of (Inl e, w') \<Rightarrow> I w' | (Inr x, w') \<Rightarrow> I w' \<and> R x)" for r :: "(failure + 'b) \<times> 'a"
    by (cases "fst r") (simp_all add: case_prod_unfold)
  then show ?thesis unfolding yields_def runs_def by (simp only:)
qed

lemma runsD: "runs P m Q E \<Longrightarrow> P w \<Longrightarrow> m w = (Inr x, w') \<Longrightarrow> Q x w'"
  unfolding runs_def by (drule spec [of _ w]) simp

lemma runs_failD: "runs P m Q E \<Longrightarrow> P w \<Longrightarrow> m w = (Inl e, w') \<Longrightarrow> E w'"
  unfolding runs_def by (drule spec [of _ w]) simp

lemma runs_andthen:
  assumes "runs P m Q E" "\<And>x. runs (Q x) (k x) S E"
  shows "runs P (andthen m k) S E"
  unfolding runs_def
proof (intro allI impI)
  fix w
  assume w: "P w"
  obtain r w' where m: "m w = (r, w')" by (cases "m w")
  show "case andthen m k w of (Inl e, w') \<Rightarrow> E w' | (Inr x, w') \<Rightarrow> S x w'"
  proof (cases r)
    case (Inl e)
    with m runs_failD [OF assms(1) w] show ?thesis by (simp add: andthen_def)
  next
    case (Inr x)
    with m runsD [OF assms(1) w] have "Q x w'" by simp
    with assms(2) [of x] m Inr show ?thesis by (simp add: andthen_def runs_def)
  qed
qed

lemma runs_conseq:
  "runs P m Q E \<Longrightarrow> (\<And>w. P' w \<Longrightarrow> P w) \<Longrightarrow> (\<And>x w. Q x w \<Longrightarrow> Q' x w) \<Longrightarrow> (\<And>w. E w \<Longrightarrow> E' w) \<Longrightarrow> runs P' m Q' E'"
  unfolding runs_def
proof (intro allI impI)
  fix w
  assume a: "\<forall>w. P w \<longrightarrow> (case m w of (Inl e, w') \<Rightarrow> E w' | (Inr x, w') \<Rightarrow> Q x w')"
    "\<And>w. P' w \<Longrightarrow> P w" "\<And>x w. Q x w \<Longrightarrow> Q' x w" "\<And>w. E w \<Longrightarrow> E' w" "P' w"
  obtain r w' where m: "m w = (r, w')" by (cases "m w")
  from a(1) a(2) [OF a(5)] m have "case r of Inl e \<Rightarrow> E w' | Inr x \<Rightarrow> Q x w'" by fastforce
  with a(3, 4) m show "case m w of (Inl e, w') \<Rightarrow> E' w' | (Inr x, w') \<Rightarrow> Q' x w'" by (cases r) simp_all
qed

lemma runs_ret: "(\<And>w. P w \<Longrightarrow> Q x w) \<Longrightarrow> runs P (ret x) Q E"
  by (simp add: runs_def ret_def)

lemma runs_raising: "(\<And>w. P w \<Longrightarrow> E w) \<Longrightarrow> runs P (raising e) Q E"
  by (simp add: runs_def raising_def)

lemma runs_refusing: "(\<And>w. P w \<Longrightarrow> E w) \<Longrightarrow> runs P (refusing c d) Q E"
  by (simp add: refusing_def runs_raising)

lemma runs_changing: "(\<And>w. P w \<Longrightarrow> Q () (f w)) \<Longrightarrow> runs P (changing f) Q E"
  by (simp add: runs_def changing_def)

lemma runs_getting:
  assumes "\<And>x. runs (\<lambda>w. P w \<and> f w = x) (k x) Q E"
  shows "runs P (andthen (getting f) k) Q E"
  using assms by (auto simp: runs_def andthen_def getting_def)

lemma runs_if: "(b \<Longrightarrow> runs P m Q E) \<Longrightarrow> (\<not> b \<Longrightarrow> runs P n Q E) \<Longrightarrow> runs P (if b then m else n) Q E"
  by simp

lemma runs_assume: "(b \<Longrightarrow> runs P m Q E) \<Longrightarrow> runs (\<lambda>w. P w \<and> b) m Q E"
  by (simp add: runs_def)

lemma runs_after:
  assumes "yields I m R" "\<And>x. R x \<Longrightarrow> runs I (k x) S I"
  shows "runs I (andthen m k) S I"
  using assms(1) unfolding runs_yields
  by (rule runs_andthen) (rule runs_assume, rule assms(2))

lemma yields_runs:
  assumes "runs I m (\<lambda>x w. Q x w) I" "\<And>x. runs (Q x) (k x) (\<lambda>x w. I w \<and> S x) I"
  shows "yields I (andthen m k) S"
  unfolding runs_yields using assms by (rule runs_andthen)

end
