(* ===== verification/SliceSteps.thy ===== *)
theory SliceSteps
  imports SliceRuns
begin

text \<open>
  What every part of a session keeps, given what its primitive operations keep. The locale \<open>quiet\<close>
  asks this of the operations that only look and of the store; \<open>delivering\<close> adds those that change
  the destination, for operations that the sealed plan allows.
\<close>

section \<open>Looking\<close>

locale quiet =
  fixes su :: "'e session" and I :: "'e world \<Rightarrow> bool"
  assumes check_kept: "yields I (on_env (po_check (su_port su) plan n r)) (\<lambda>_. True)"
    and look_kept: "yields I (inspecting su path) (\<lambda>_. True)"
    and turn_kept: "I w \<Longrightarrow> I (turned su w)"
    and transition_kept: "yields I (storing su (transition (su_attempt su) (su_device su) state reason)) (\<lambda>_. True)"
    and complete_kept: "yields I (storing su (complete (su_sha su) (su_attempt su) (su_device su))) (\<lambda>_. True)"
    and stop_kept: "yields I (storing su (request_stop (su_tx su))) (\<lambda>_. True)"
    and lease_kept: "I w \<Longrightarrow> I (w\<lparr>wd_lease := b\<rparr>)"
    and usage_kept: "I w \<Longrightarrow> I (set_usage token us w)"
begin

lemmas [safe] = check_kept look_kept transition_kept complete_kept stop_kept

lemma asking_safe [safe]: "yields I (asking su f) (\<lambda>_. True)"
  unfolding yields_def
proof (intro allI impI conjI)
  fix w
  assume w: "I w"
  have "I (turned su w)" by (rule turn_kept [OF w])
  then show "I (snd (asking su f w))"
    by (simp add: asking_def storing_def split: sum.splits)
qed simp

lemma lease_check_safe [safe]: "yields I lease_check (\<lambda>_. True)"
  unfolding lease_check_def by (intro safe TrueI)

lemma lease_close_safe [safe]: "yields I lease_close (\<lambda>_. True)"
  unfolding lease_close_def by (intro safe lease_kept TrueI)

lemma auth_boundary_safe [safe]: "yields I (auth_boundary su) (\<lambda>_. True)"
  unfolding auth_boundary_def by (intro safe TrueI)

lemma auth_transition_safe [safe]: "yields I (auth_transition su state reason) (\<lambda>_. True)"
  unfolding auth_transition_def by (intro safe TrueI)

lemma auth_complete_safe [safe]: "yields I (auth_complete su) (\<lambda>_. True)"
  unfolding auth_complete_def by (intro safe)

lemma auth_close_safe [safe]: "yields I (auth_close su) (\<lambda>_. True)"
  unfolding auth_close_def by (intro safe TrueI)

lemma poll_safe [safe]: "yields I (poll su) (\<lambda>_. True)"
  unfolding poll_def by (intro safe TrueI)

lemma boundary_safe [safe]: "yields I (boundary su) (\<lambda>_. True)"
  unfolding boundary_def by (intro safe)

lemma owned_safe [safe]: "yields I (owned su path op) (\<lambda>_. True)"
  unfolding owned_def by (intro safe usage_kept TrueI)

lemma refresh_parent_safe [safe]: "yields I (refresh_parent su path) (\<lambda>_. True)"
  unfolding refresh_parent_def by (intro safe TrueI)

lemma check_parents_safe [safe]: "yields I (check_parents su path) (\<lambda>_. True)"
  unfolding check_parents_def by (intro safe yields_each TrueI)

lemma absorb_safe [safe]: "yields I (absorb su ps fail data) (\<lambda>_. True)"
proof (induction ps arbitrary: data)
  case Nil
  show ?case unfolding absorb.simps by (intro safe TrueI)
next
  case (Cons p ps)
  show ?case unfolding absorb.simps by (intro safe Cons.IH TrueI)
qed

lemma claimed_safe [safe]: "yields I (claimed su path) (\<lambda>_. True)"
  unfolding claimed_def by (intro safe TrueI)

lemma get_state_safe [safe]: "yields I (get_state su) (\<lambda>_. True)"
  unfolding get_state_def by (intro safe)

lemma polls_safe [safe]: "yields I (polls su n) (\<lambda>_. True)"
  unfolding polls_def by (intro safe yields_each TrueI)

end

section \<open>Operations that the plan allows\<close>

text \<open>
  The names that the plan gives to its objects. They are different, none of them is a directory of
  the plan, and the root of a folder plan is one.
\<close>

definition plan_outputs :: "slice_plan \<Rightarrow> str list" where
  "plan_outputs plan = map (artifact_target plan) (pv_closure (plan_proposal plan)) @ [control_path plan, receipt_path plan]"

definition plan_closed :: "slice_plan \<Rightarrow> bool" where
  "plan_closed plan \<longleftrightarrow> distinct (plan_outputs plan) \<and> list_all (\<lambda>p. p \<notin> set (plan_directories plan)) (plan_outputs plan)
     \<and> (is_folder plan \<longrightarrow> sp_root (pv_spec (plan_proposal plan)) \<in> set (plan_directories plan))"

definition planned :: "slice_plan \<Rightarrow> str \<Rightarrow> op_kind \<Rightarrow> int \<Rightarrow> str \<Rightarrow> bool" where
  "planned plan path kind n digest = (case kind of
       KFile \<Rightarrow> (case artifact_at plan path of None \<Rightarrow> False | Some a \<Rightarrow> n = ar_size a \<and> digest = ar_sha a)
     | KDirectory \<Rightarrow> path \<in> set (plan_directories plan)
     | KControl \<Rightarrow> path = control_path plan
     | KReceipt \<Rightarrow> path = receipt_path plan)"

definition new_op :: "str \<Rightarrow> op_kind \<Rightarrow> int \<Rightarrow> str \<Rightarrow> str \<Rightarrow> transfer_op" where
  "new_op path kind n digest token = \<lparr>to_path = path, to_kind = kind, to_size = n, to_sha = digest, to_token = token,
     to_temporary = (if kind = KDirectory then None else Some (staging path token)), to_source = JNull, to_state = SIntent\<rparr>"

lemma operation_fault_None:
  "operation_fault plan op = None \<longleftrightarrow>
     planned plan (to_path op) (to_kind op) (to_size op) (to_sha op)
     \<and> to_temporary op = (if to_kind op = KDirectory then None else Some (staging (to_path op) (to_token op)))
     \<and> (to_kind op = KFile \<longrightarrow> (if json_true (to_source op)
          then (case artifact_at plan (to_path op) of None \<Rightarrow> False | Some a \<Rightarrow> approved_source a (to_source op))
          else to_state op = SIntent))"
  by (cases "to_kind op") (auto simp: operation_fault_def planned_def split: option.splits)

lemma artifact_at_target:
  assumes "plan_closed plan" "a \<in> set (pv_closure (plan_proposal plan))"
  shows "artifact_at plan (artifact_target plan a) = Some a"
proof -
  have "distinct (map (artifact_target plan) xs) \<Longrightarrow> a \<in> set xs \<Longrightarrow>
      dict_get (map (\<lambda>a. (artifact_target plan a, a)) xs) (artifact_target plan a) = Some a" for xs
    by (simp add: dict_get_def map_of_eq_Some_iff comp_def distinct_map rev_map)
  with assms show ?thesis by (simp add: artifact_at_def plan_closed_def plan_outputs_def)
qed

lemma artifact_at_Some:
  assumes "artifact_at plan path = Some a"
  shows "a \<in> set (pv_closure (plan_proposal plan)) \<and> path = artifact_target plan a"
  using assms by (auto simp: artifact_at_def dest!: dict_get_in_set)

lemma planned_output:
  "planned plan path kind n digest \<Longrightarrow> kind \<noteq> KDirectory \<Longrightarrow> path \<in> set (plan_outputs plan)"
  by (cases kind) (auto simp: planned_def plan_outputs_def dest: artifact_at_Some split: option.splits)

text \<open>An operation on the path of an artifact is a file.\<close>

lemma planned_artifact:
  assumes "plan_closed plan" "planned plan path kind n digest" "artifact_at plan path = Some a"
  shows "kind = KFile"
proof -
  have a: "path \<in> artifact_target plan ` set (pv_closure (plan_proposal plan))"
    using artifact_at_Some [OF assms(3)] by simp
  moreover have "path \<noteq> control_path plan" "path \<noteq> receipt_path plan" "path \<notin> set (plan_directories plan)"
    using a assms(1) unfolding plan_closed_def plan_outputs_def list_all_iff by force+
  ultimately show ?thesis using assms(2) by (cases kind) (simp_all add: planned_def)
qed

lemma planned_file:
  "plan_closed plan \<Longrightarrow> a \<in> set (pv_closure (plan_proposal plan)) \<Longrightarrow>
    planned plan (artifact_target plan a) KFile (ar_size a) (ar_sha a)"
  by (simp add: planned_def artifact_at_target)

lemma planned_parent:
  "a \<in> set (pv_closure (plan_proposal plan)) \<Longrightarrow> p \<in> set (proper_parents (artifact_target plan a)) \<Longrightarrow>
    planned plan p KDirectory n d"
  by (auto simp: planned_def plan_directories_def)

lemma fault_new: "planned plan path kind n digest \<Longrightarrow> operation_fault plan (new_op path kind n digest token) = None"
  by (simp add: operation_fault_None new_op_def)

lemma fault_state:
  "operation_fault plan op = None \<Longrightarrow> (to_kind op = KFile \<Longrightarrow> json_true (to_source op)) \<Longrightarrow>
    operation_fault plan (op\<lparr>to_state := st\<rparr>) = None"
  by (auto simp: operation_fault_None split: option.splits)

lemma fault_intent: "operation_fault plan op = None \<Longrightarrow> operation_fault plan (op\<lparr>to_source := JNull, to_state := SIntent\<rparr>) = None"
  by (auto simp: operation_fault_None split: option.splits)

lemma fault_source:
  "operation_fault plan op = None \<Longrightarrow> to_kind op = KFile \<Longrightarrow> to_state op \<noteq> SIntent \<Longrightarrow> json_true (to_source op)"
  by (auto simp: operation_fault_None split: if_splits)

text \<open>The source that a file's bytes come from, as it is recorded.\<close>

definition sourced :: "slice_plan \<Rightarrow> transfer_op \<Rightarrow> json \<Rightarrow> bool" where
  "sourced plan op v \<longleftrightarrow> to_kind op = KFile \<longrightarrow> json_true v \<and>
     (case artifact_at plan (to_path op) of None \<Rightarrow> False | Some a \<Rightarrow> approved_source a v)"

lemma fault_prepared:
  "operation_fault plan op = None \<Longrightarrow> sourced plan op v \<Longrightarrow> operation_fault plan (op\<lparr>to_source := v, to_state := SPrepared\<rparr>) = None"
  by (auto simp: operation_fault_None sourced_def split: option.splits)

lemma evidence_full_true: "json_true (evidence_full e)"
  by (simp add: evidence_full_def)

lemma without_eligibility_full: "without_eligibility (evidence_full e) = Some (evidence_json e)"
  by (simp add: without_eligibility_def evidence_full_def dict_get_def drive_key_json_def evidence_json_def drive_json_def)

lemma approved_full: "e \<in> set (ar_sources a) \<Longrightarrow> approved_source a (evidence_full e)"
  by (simp add: approved_source_def without_eligibility_full)

definition good :: "'e session \<Rightarrow> (transfer_op \<Rightarrow> bool) \<Rightarrow> transfer_op \<Rightarrow> bool" where
  "good su extra op \<longleftrightarrow> operation_fault (su_plan su) op = None \<and> extra op"

section \<open>Delivering\<close>

locale delivering = quiet su I for su :: "'e session" and I :: "'e world \<Rightarrow> bool" +
  fixes extra :: "transfer_op \<Rightarrow> bool"
  assumes closed: "I w \<Longrightarrow> plan_closed (su_plan su)"
    and known: "I w \<Longrightarrow> map_of (se_ops w) path = Some op \<Longrightarrow> good su extra op \<and> to_path op = path"
    and extra_state: "extra (op\<lparr>to_state := st\<rparr>) = extra op"
    and extra_source: "extra (op\<lparr>to_source := v\<rparr>) = extra op"
    and extra_new: "I w \<Longrightarrow> planned (su_plan su) path kind n digest \<Longrightarrow> extra (new_op path kind n digest (su_names su k))"
    and record_kept: "good su extra (op\<lparr>to_state := st\<rparr>) \<Longrightarrow> yields I (record_op su op st) (\<lambda>_. True)"
    and receipt_kept: "yields I (append_receipt su (receipt_json (su_sha su) (su_plan su) (su_tx su) files)) (\<lambda>_. True)"
    and fresh_kept: "I w \<Longrightarrow> I (w\<lparr>wd_fresh := k\<rparr>)"
    and verified_kept: "I w \<Longrightarrow> I (w\<lparr>se_verified := ts\<rparr>)"
    and terminal_kept: "I w \<Longrightarrow> I (w\<lparr>se_terminal := b\<rparr>)"
    and mkdir_kept: "good su extra op \<Longrightarrow> to_kind op = KDirectory \<Longrightarrow>
      yields I (on_env (po_mkdir (su_port su) (to_path op) (to_token op))) (\<lambda>_. True)"
    and create_kept: "good su extra op \<Longrightarrow> to_temporary op = Some temp \<Longrightarrow>
      yields I (on_env (po_create (su_port su) temp (to_token op))) (\<lambda>_. True)"
    and append_kept: "good su extra op \<Longrightarrow> to_temporary op = Some temp \<Longrightarrow>
      yields I (on_env (po_append (su_port su) temp (to_token op) data)) (\<lambda>_. True)"
    and discard_kept: "good su extra op \<Longrightarrow> to_temporary op = Some temp \<Longrightarrow>
      yields I (on_env (po_discard (su_port su) temp (to_token op))) (\<lambda>_. True)"
    and publish_kept: "good su extra op \<Longrightarrow> to_temporary op = Some temp \<Longrightarrow> yields I (publish_new su temp op) (\<lambda>_. True)"
    and read_kept: "yields I (on_env (po_read (su_port su) path)) (\<lambda>_. True)"
    and flush_kept: "yields I (on_env (po_flush (su_port su) path)) (\<lambda>_. True)"
    and list_kept: "yields I (on_env (po_list (su_port su) path)) (\<lambda>_. True)"
    and opening_kept: "part \<in> set (po_opening (su_port su) s) \<Longrightarrow> yields I (on_env part) (\<lambda>_. True)"
    and open_kept: "yields I (on_env (po_open (su_port su) s)) (\<lambda>_. True)"
    and close_kept: "yields I (on_env (po_close (su_port su) s)) (\<lambda>_. True)"
    and end_kept: "yields I (end_session su) (\<lambda>_. True)"
begin

lemmas [safe] = receipt_kept read_kept flush_kept list_kept open_kept close_kept end_kept

lemma good_state:
  "good su extra op \<Longrightarrow> (to_kind op = KFile \<Longrightarrow> json_true (to_source op)) \<Longrightarrow> good su extra (op\<lparr>to_state := st\<rparr>)"
  by (simp add: good_def fault_state extra_state)

lemma good_intent: "good su extra op \<Longrightarrow> good su extra (op\<lparr>to_source := JNull, to_state := SIntent\<rparr>)"
  by (simp add: good_def fault_intent extra_state extra_source)

lemma good_prepared:
  "good su extra op \<Longrightarrow> sourced (su_plan su) op v \<Longrightarrow> good su extra (op\<lparr>to_source := v, to_state := SPrepared\<rparr>)"
  by (simp add: good_def fault_prepared extra_state extra_source)

text \<open>An operation whose bytes may be published: a file has its source proof.\<close>

definition proven :: "transfer_op \<Rightarrow> bool" where
  "proven op \<longleftrightarrow> good su extra op \<and> (to_kind op = KFile \<longrightarrow> json_true (to_source op))"

lemma good_temporary:
  "good su extra op \<Longrightarrow> to_temporary op = Some temp \<Longrightarrow> to_kind op \<noteq> KDirectory"
  by (auto simp: good_def operation_fault_None)

lemma record_result: "fst (record_op su op st w) = Inr x \<Longrightarrow> x = op\<lparr>to_state := st\<rparr>"
  by (auto simp: record_op_def Let_def andthen_def getting_def changing_def ret_def split: sum.splits prod.splits)

lemma record_yields:
  assumes "good su extra (op\<lparr>to_state := st\<rparr>)"
  shows "yields I (record_op su op st) (\<lambda>x. x = op\<lparr>to_state := st\<rparr>)"
  using record_kept [OF assms] record_result unfolding yields_def by blast

lemma matches_safe [safe]: "yields I (matches su path op) (\<lambda>_. True)"
  unfolding matches_def by (intro safe TrueI)

lemma verify_control_safe [safe]: "yields I (verify_control su b) (\<lambda>_. True)"
  unfolding verify_control_def by (intro safe TrueI)

lemma check_safe [safe]: "yields I (check su) (\<lambda>_. True)"
  unfolding check_def by (intro safe)

lemma fresh_name_yields:
  assumes "planned (su_plan su) path kind n digest"
  shows "yields I (fresh_name su) (\<lambda>t. extra (new_op path kind n digest t))"
  using extra_new [OF _ assms] by (auto simp: yields_def fresh_name_def fresh_kept)

lemma new_op_yields:
  assumes "planned (su_plan su) path kind n digest"
  shows "yields I (andthen (fresh_name su) (\<lambda>token. record_op su
      \<lparr>to_path = path, to_kind = kind, to_size = n, to_sha = digest, to_token = token,
       to_temporary = (if kind = KDirectory then None else Some (staging path token)), to_source = JNull, to_state = SIntent\<rparr> SIntent))
    (\<lambda>op. good su extra op \<and> to_path op = path \<and> to_kind op = kind \<and> to_size op = n \<and> to_sha op = digest)"
  unfolding new_op_def [symmetric]
proof (rule yields_andthen [OF fresh_name_yields [OF assms]])
  fix token
  assume "extra (new_op path kind n digest token)"
  then have "good su extra (new_op path kind n digest token)"
    using assms by (simp add: good_def fault_new)
  moreover have "(new_op path kind n digest token)\<lparr>to_state := SIntent\<rparr> = new_op path kind n digest token"
    by (simp add: new_op_def)
  ultimately show "yields I (record_op su (new_op path kind n digest token) SIntent)
      (\<lambda>op. good su extra op \<and> to_path op = path \<and> to_kind op = kind \<and> to_size op = n \<and> to_sha op = digest)"
    by (intro yields_weaken [OF record_yields]) (simp_all add: new_op_def)
qed

lemma open_op_yields:
  assumes "planned (su_plan su) path kind n digest"
  shows "yields I (open_op su path kind n digest)
    (\<lambda>op. good su extra op \<and> to_path op = path \<and> to_kind op = kind \<and> to_size op = n \<and> to_sha op = digest)"
  unfolding open_op_def
proof (intro new_op_yields [OF assms] safe)
  fix w previous
  assume "I w" "map_of (se_ops w) path = Some previous"
    "\<not> (to_kind previous \<noteq> kind \<or> to_size previous \<noteq> n \<or> to_sha previous \<noteq> digest)"
  with known show "good su extra previous \<and> to_path previous = path \<and> to_kind previous = kind
      \<and> to_size previous = n \<and> to_sha previous = digest" by blast
qed

lemma make_directory_safe:
  assumes "good su extra op" "to_path op = path" "to_kind op = KDirectory"
  shows "yields I (make_directory su path op) (\<lambda>_. True)"
proof -
  have "yields I (on_env (po_mkdir (su_port su) path (to_token op))) (\<lambda>_. True)"
    using mkdir_kept [OF assms(1, 3)] assms(2) by simp
  moreover have "yields I (record_op su op SComplete) (\<lambda>_. True)"
    using assms by (intro record_kept good_state) simp_all
  ultimately show ?thesis unfolding make_directory_def by (intro safe TrueI)
qed

lemma directory_safe:
  assumes "path \<in> set (plan_directories (su_plan su))"
  shows "yields I (directory su path) (\<lambda>_. True)"
  unfolding directory_def
  by (rule yields_andthen [OF open_op_yields]) (use assms in \<open>auto simp: planned_def intro: make_directory_safe\<close>)

lemma make_parents_safe:
  assumes "a \<in> set (pv_closure (plan_proposal (su_plan su)))"
  shows "yields I (make_parents su (artifact_target (su_plan su) a)) (\<lambda>_. True)"
  unfolding make_parents_def
  by (intro yields_each directory_safe TrueI) (use assms in \<open>auto simp: plan_directories_def\<close>)

lemma audit_layout_safe [safe]: "yields I (audit_layout su) (\<lambda>_. True)"
  unfolding audit_layout_def by (intro safe yields_each TrueI)

text \<open>Publishing and writing.\<close>

lemma discard_left_safe:
  "good su extra op \<Longrightarrow> to_temporary op = Some temp \<Longrightarrow> yields I (discard_left su temp op) (\<lambda>_. True)"
  unfolding discard_left_def by (intro discard_kept safe TrueI)

lemma conclude_safe:
  assumes "good su extra (op\<lparr>to_state := SComplete\<rparr>)" "to_temporary op = Some temp"
  shows "yields I (conclude su temp op) (\<lambda>_. True)"
  unfolding conclude_def
proof (rule yields_seq [OF flush_kept], rule yields_andthen [OF record_yields [OF assms(1)]])
  fix done'
  assume "done' = op\<lparr>to_state := SComplete\<rparr>"
  then show "yields I (andthen (discard_left su temp done') (\<lambda>_.
     andthen (whenever (to_kind op = KFile) (changing (\<lambda>w. w\<lparr>se_verified := List.insert (to_token done') (se_verified w)\<rparr>)))
     (\<lambda>_. ret done'))) (\<lambda>_. True)"
    using assms by (intro discard_left_safe safe verified_kept TrueI) simp_all
qed

lemma publish_safe:
  assumes "proven op"
  shows "yields I (publish su op) (\<lambda>_. True)"
proof -
  have g: "good su extra op" and c: "good su extra (op\<lparr>to_state := SComplete\<rparr>)"
    using assms good_state by (auto simp: proven_def)
  then show ?thesis unfolding publish_def by (intro conclude_safe publish_kept safe TrueI)
qed

lemma write_chunks_safe:
  assumes "good su extra op" "to_temporary op = Some temp"
  shows "yields I (write_chunks su op temp ps fail data) (\<lambda>_. True)"
proof (induction "length ps" arbitrary: ps data rule: less_induct)
  case less
  obtain n r where c: "chunk ps fail [] = (n, r)" by (cases "chunk ps fail []")
  have rest: "yields I (write_chunks su op temp ps' fail data') (\<lambda>_. True)" if "\<exists>p. p \<noteq> [] \<and> r = Inr (p, ps')" for ps' data'
    by (rule less) (use c that chunk_rest [of n _ ps fail] in fastforce)
  show ?case
    unfolding write_chunks.simps [of su op temp ps] c prod.case
    by (intro rest append_kept [OF assms] safe TrueI) auto
qed

lemma stage_safe:
  assumes "good su extra op" "to_temporary op = Some temp"
  shows "yields I (stage su temp op) (\<lambda>_. True)"
  unfolding stage_def by (intro create_kept [OF assms] discard_kept [OF assms] safe TrueI)

lemma prepare_safe:
  assumes "good su extra op" "to_temporary op = Some temp" "sourced (su_plan su) op v"
  shows "yields I (prepare su temp op r v) (\<lambda>_. True)"
proof -
  have g: "good su extra ((op\<lparr>to_source := v\<rparr>)\<lparr>to_state := SPrepared\<rparr>)" using good_prepared [OF assms(1, 3)] by simp
  have "proven ((op\<lparr>to_source := v\<rparr>)\<lparr>to_state := SPrepared\<rparr>)"
    using g assms(3) by (simp add: proven_def sourced_def)
  then have final: "yields I (andthen (record_op su (op\<lparr>to_source := v\<rparr>) SPrepared) (publish su)) (\<lambda>_. True)"
    by (intro yields_andthen [OF record_yields [OF g]]) (simp add: publish_safe)
  show ?thesis
    unfolding prepare_def by (intro final stage_safe [OF assms(1, 2)] write_chunks_safe [OF assms(1, 2)] safe TrueI)
qed

lemma write_new_safe:
  assumes "good su extra op" "sourced (su_plan su) op v"
  shows "yields I (write_new su op r v) (\<lambda>_. True)"
proof -
  have g: "good su extra ((op\<lparr>to_source := JNull\<rparr>)\<lparr>to_state := SIntent\<rparr>)" using good_intent [OF assms(1)] by simp
  have final: "yields I (andthen (record_op su (op\<lparr>to_source := JNull\<rparr>) SIntent) (\<lambda>op'. prepare su temp op' r v)) (\<lambda>_. True)"
    if "to_temporary op = Some temp" for temp
  proof (rule yields_andthen [OF record_yields [OF g]])
    fix op'
    assume op': "op' = (op\<lparr>to_source := JNull\<rparr>)\<lparr>to_state := SIntent\<rparr>"
    have "sourced (su_plan su) op' v" using assms(2) by (simp add: op' sourced_def)
    then show "yields I (prepare su temp op' r v) (\<lambda>_. True)"
      using g that by (intro prepare_safe) (simp_all add: op')
  qed
  show ?thesis unfolding write_new_def by (intro final safe TrueI)
qed

lemma deliver_record_safe:
  assumes "planned (su_plan su) path kind (int (length (encode v))) (su_sha su (encode v))" "kind \<noteq> KFile"
  shows "yields I (deliver_record su path kind v) (\<lambda>_. True)"
  unfolding deliver_record_def Let_def
proof (rule yields_andthen [OF open_op_yields [OF assms(1)]])
  fix op
  assume op: "good su extra op \<and> to_path op = path \<and> to_kind op = kind
    \<and> to_size op = int (length (encode v)) \<and> to_sha op = su_sha su (encode v)"
  then have "proven op" "sourced (su_plan su) op JNull" using assms(2) by (simp_all add: proven_def sourced_def)
  with op show "yields I (andthen (if to_state op \<in> {SPrepared, SComplete} then publish su op
      else write_new su op (bytes_io (encode v)) JNull) (\<lambda>_. ret ())) (\<lambda>_. True)"
    by (intro publish_safe write_new_safe safe TrueI) simp_all
qed

lemma control_safe [safe]: "yields I (control su) (\<lambda>_. True)"
  unfolding control_def by (rule deliver_record_safe) (simp_all add: planned_def)

text \<open>Files.\<close>

lemma source_call_safe [safe]: "yields I (source_call su) (\<lambda>_. True)"
  by (cases "po_shape (su_port su)") (simp_all add: source_call_def safe)

lemma use_source_safe:
  assumes "good su extra op" "artifact_at (su_plan su) (to_path op) = Some a" "s \<in> set (ar_sources a)"
  shows "yields I (use_source su a op s) (\<lambda>_. True)"
proof -
  have "sourced (su_plan su) op (evidence_full s)"
    using assms by (simp add: sourced_def evidence_full_true approved_full)
  then show ?thesis
    unfolding use_source_def
    by (intro write_new_safe [OF assms(1)] safe yields_each opening_kept TrueI)
qed

lemma try_sources_safe:
  assumes "good su extra op" "artifact_at (su_plan su) (to_path op) = Some a" "set ss \<subseteq> set (ar_sources a)"
  shows "yields I (try_sources su a op ss errors) (\<lambda>_. True)"
  using assms(3)
proof (induction ss arbitrary: errors)
  case Nil
  show ?case by (simp add: yields_raising)
next
  case (Cons s ss)
  have "yields I (use_source su a op s) (\<lambda>_. True)" using Cons.prems by (intro use_source_safe [OF assms(1, 2)]) simp
  moreover have "yields I (try_sources su a op ss errors') (\<lambda>_. True)" for errors' using Cons by simp
  ultimately show ?case unfolding try_sources.simps by (intro safe)
qed

lemma still_there_safe [safe]: "yields I (still_there su op) (\<lambda>_. True)"
  unfolding still_there_def by (intro safe TrueI)

text \<open>Only an operation with its source proof is taken for proven.\<close>

lemma recorded_proof:
  "yields I (if to_state op \<in> {SPrepared, SComplete} \<and> json_true (to_source op)
             then (if final \<noteq> None then ret True else still_there su op)
             else if final \<noteq> None then refusing ''UNPREPARED_PUBLICATION'' path else ret False)
     (\<lambda>b. b \<longrightarrow> json_true (to_source op))"
  by (intro safe yields_weaken [OF still_there_safe]) simp_all

lemma deliver_file_safe:
  assumes a: "a \<in> set (pv_closure (plan_proposal (su_plan su)))"
  shows "yields I (deliver_file su a) (\<lambda>_. True)"
  unfolding deliver_file_def Let_def
proof (rule yields_when [where b = "plan_closed (su_plan su)"], erule closed,
    rule yields_seq [OF make_parents_safe [OF a]],
    rule yields_andthen [OF open_op_yields [OF planned_file [OF _ a]]], assumption,
    rule yields_seq [OF owned_safe], rule yields_andthen [OF recorded_proof])
  assume closed: "plan_closed (su_plan su)"
  fix op final b
  assume op: "good su extra op \<and> to_path op = artifact_target (su_plan su) a \<and> to_kind op = KFile
      \<and> to_size op = ar_size a \<and> to_sha op = ar_sha a" and b: "b \<longrightarrow> json_true (to_source op)"
  have "artifact_at (su_plan su) (to_path op) = Some a" using op artifact_at_target [OF closed a] by simp
  then show "yields I (if b then publish su op else try_sources su a op (ar_sources a) []) (\<lambda>_. True)"
    using op b by (intro yields_if publish_safe try_sources_safe) (simp_all add: proven_def)
qed

lemma verify_file_safe [safe]: "yields I (verify_file su a) (\<lambda>_. True)"
  unfolding verify_file_def verify_found_def by (intro safe TrueI)

lemma verify_files_safe: "yields I (verify_files su as) (\<lambda>_. True)"
proof (induction as)
  case Nil
  show ?case unfolding verify_files.simps by (intro safe TrueI)
next
  case (Cons a as)
  show ?case unfolding verify_files.simps by (intro Cons.IH safe TrueI)
qed

lemma finish_safe [safe]: "yields I (finish su) (\<lambda>_. True)"
  unfolding finish_def by (intro verify_files_safe deliver_record_safe safe TrueI) (simp_all add: planned_def)

text \<open>Steps.\<close>

lemma delivered_yields:
  "yields I (delivered su a) (\<lambda>v. \<forall>op. v = Some op \<longrightarrow> proven op)"
  unfolding delivered_def Let_def
proof (intro safe)
  fix w op info
  assume "I w" "map_of (se_ops w) (artifact_target (su_plan su) a) = Some op" "\<not> to_state op \<noteq> SComplete"
  with known have "good su extra op" "to_state op \<noteq> SIntent" by auto
  then show "\<forall>op'. (if info = None then None else Some op) = Some op' \<longrightarrow> proven op'"
    by (auto simp: proven_def good_def dest: fault_source)
qed simp_all

lemma next_file_safe:
  "set as \<subseteq> set (pv_closure (plan_proposal (su_plan su))) \<Longrightarrow> yields I (next_file su as) (\<lambda>_. True)"
proof (induction as)
  case Nil
  show ?case unfolding next_file.simps by (intro safe TrueI)
next
  case (Cons a as)
  have work: "yields I (deliver_file su a) (\<lambda>_. True)" using Cons.prems by (intro deliver_file_safe) simp
  have rest: "yields I (next_file su as) (\<lambda>_. True)" using Cons by simp
  show ?case
    unfolding next_file.simps
    by (rule yields_andthen [OF delivered_yields])
      (intro work rest publish_safe safe verified_kept TrueI, simp_all)
qed

lemma step_body_safe [safe]: "yields I (step_body su current) (\<lambda>_. True)"
  unfolding step_body_def by (intro next_file_safe safe TrueI) simp

lemma publish_outcome_safe [safe]: "yields I (publish_outcome su r) (\<lambda>_. True)"
  unfolding publish_outcome_def terminate_def by (intro safe terminal_kept TrueI)

lemma settle_step_safe [safe]: "yields I (settle_step su e) (\<lambda>_. True)"
  unfolding settle_step_def terminate_def by (intro safe terminal_kept TrueI)

lemma step_plain_safe [safe]: "yields I (step_plain su) (\<lambda>_. True)"
  unfolding step_plain_def terminate_def not_resumable_def by (intro safe terminal_kept TrueI)

lemma close_fat_abort_safe [safe]: "yields I (close_fat_abort su e) (\<lambda>_. True)"
  unfolding close_fat_abort_def by (intro safe TrueI)

lemma step_safe [safe]: "yields I (step su) (\<lambda>_. True)"
  unfolding step_def terminate_def by (intro safe terminal_kept TrueI)

lemma run_steps_safe: "yields I (run_steps n su) (\<lambda>_. True)"
proof (induction n)
  case 0
  show ?case unfolding run_steps.simps by (intro safe TrueI)
next
  case (Suc n)
  show ?case unfolding run_steps.simps by (intro Suc.IH safe TrueI)
qed

lemma close_session_safe: "yields I (close_session su) (\<lambda>_. True)"
  unfolding close_session_def by (intro safe TrueI)

end

end
