(* ===== verification/SliceTrace.thy ===== *)
theory SliceTrace
  imports SliceSteps SliceJournal
begin

text \<open>
  What a delivery does to the destination. A traced port remembers the calls it received, the
  latest first. Whatever the ports answer, the other processes do and the journal contains, a
  session writes nowhere but below names that the sealed plan gives it, and publishes nothing that
  it has not just read back.
\<close>

section \<open>Calls\<close>

datatype call =
    Checked
  | Inspected str
  | MadeDirectory str str
  | Created str str
  | Appended str str str
  | Discarded str str
  | WasRead str "reading option"
  | Flushed str
  | Published str str str
  | Listed str
  | Other

definition logging :: "(failure + 'a \<Rightarrow> call) \<Rightarrow> ('e, 'a) run \<Rightarrow> ('e \<times> call list, 'a) run" where
  "logging c m w = (case m (fst w) of (r, e) \<Rightarrow> (r, (e, c r # snd w)))"

definition traced :: "'e port \<Rightarrow> ('e \<times> call list) port" where
  "traced p = \<lparr>po_check = (\<lambda>plan n r. logging (\<lambda>_. Checked) (po_check p plan n r)),
     po_inspect = (\<lambda>path. logging (\<lambda>_. Inspected path) (po_inspect p path)),
     po_mkdir = (\<lambda>path t. logging (\<lambda>_. MadeDirectory path t) (po_mkdir p path t)),
     po_create = (\<lambda>path t. logging (\<lambda>_. Created path t) (po_create p path t)),
     po_append = (\<lambda>path t data. logging (\<lambda>_. Appended path t data) (po_append p path t data)),
     po_discard = (\<lambda>path t. logging (\<lambda>_. Discarded path t) (po_discard p path t)),
     po_read = (\<lambda>path. logging (\<lambda>r. WasRead path (case r of Inl _ \<Rightarrow> None | Inr x \<Rightarrow> Some x)) (po_read p path)),
     po_flush = (\<lambda>path. logging (\<lambda>_. Flushed path) (po_flush p path)),
     po_publish = (\<lambda>temp path t. logging (\<lambda>_. Published temp path t) (po_publish p temp path t)),
     po_list = (\<lambda>root. logging (\<lambda>_. Listed root) (po_list p root)),
     po_shape = po_shape p,
     po_opening = (\<lambda>s. map (logging (\<lambda>_. Other)) (po_opening p s)),
     po_open = (\<lambda>s. logging (\<lambda>_. Other) (po_open p s)),
     po_close = (\<lambda>s. logging (\<lambda>_. Other) (po_close p s)),
     po_preflight = map_option (map (logging (\<lambda>_. Other))) (po_preflight p),
     po_begin = logging (\<lambda>_. Other) (po_begin p),
     po_end = logging (\<lambda>_. Other) (po_end p),
     po_lease = logging (\<lambda>_. Other) (po_lease p),
     po_retained = (\<lambda>a. logging (\<lambda>_. Other) (po_retained p a))\<rparr>"

definition with_trace :: "('e \<times> call list) session \<Rightarrow> 'e port \<Rightarrow> ('e \<times> call list) session" where
  "with_trace su p = su\<lparr>su_port := traced p\<rparr>"

definition the_log :: "('e \<times> call list) world \<Rightarrow> call list" where
  "the_log w = snd (wd_env w)"

lemma traced_simps [simp]:
  "po_check (traced p) plan n r = logging (\<lambda>_. Checked) (po_check p plan n r)"
  "po_inspect (traced p) path = logging (\<lambda>_. Inspected path) (po_inspect p path)"
  "po_mkdir (traced p) path t = logging (\<lambda>_. MadeDirectory path t) (po_mkdir p path t)"
  "po_create (traced p) path t = logging (\<lambda>_. Created path t) (po_create p path t)"
  "po_append (traced p) path t data = logging (\<lambda>_. Appended path t data) (po_append p path t data)"
  "po_discard (traced p) path t = logging (\<lambda>_. Discarded path t) (po_discard p path t)"
  "po_read (traced p) path = logging (\<lambda>r. WasRead path (case r of Inl _ \<Rightarrow> None | Inr x \<Rightarrow> Some x)) (po_read p path)"
  "po_flush (traced p) path = logging (\<lambda>_. Flushed path) (po_flush p path)"
  "po_publish (traced p) temp path t = logging (\<lambda>_. Published temp path t) (po_publish p temp path t)"
  "po_list (traced p) root = logging (\<lambda>_. Listed root) (po_list p root)"
  "po_opening (traced p) s = map (logging (\<lambda>_. Other)) (po_opening p s)"
  "po_open (traced p) s = logging (\<lambda>_. Other) (po_open p s)"
  "po_shape (traced p) = po_shape p" "po_close (traced p) s = logging (\<lambda>_. Other) (po_close p s)"
  "po_preflight (traced p) = map_option (map (logging (\<lambda>_. Other))) (po_preflight p)"
  "po_begin (traced p) = logging (\<lambda>_. Other) (po_begin p)" "po_end (traced p) = logging (\<lambda>_. Other) (po_end p)"
  "po_lease (traced p) = logging (\<lambda>_. Other) (po_lease p)"
  "po_retained (traced p) a = logging (\<lambda>_. Other) (po_retained p a)"
  by (simp_all add: traced_def)

lemma with_trace_simps [simp]:
  "su_port (with_trace su p) = traced p" "su_sha (with_trace su p) = su_sha su" "su_root (with_trace su p) = su_root su"
  "su_others (with_trace su p) = su_others su" "su_busy (with_trace su p) = su_busy su" "su_names (with_trace su p) = su_names su"
  "su_tx (with_trace su p) = su_tx su" "su_plan (with_trace su p) = su_plan su" "su_attempt (with_trace su p) = su_attempt su"
  "su_device (with_trace su p) = su_device su"
  "(with_trace su p)\<lparr>su_plan := plan\<rparr> = with_trace (su\<lparr>su_plan := plan\<rparr>) p"
  "(with_trace su p)\<lparr>su_attempt := a\<rparr> = with_trace (su\<lparr>su_attempt := a\<rparr>) p"
  by (simp_all add: with_trace_def su_device_def)

section \<open>What calls are allowed\<close>

text \<open>What the loop over a stream reads, and the object that was read last; checks and inspections may
  follow it.\<close>

definition reading_data :: "reading \<Rightarrow> str" where
  "reading_data r = concat (takeWhile (\<lambda>p. p \<noteq> []) (rd_pieces r))"

fun last_read :: "call list \<Rightarrow> (str \<times> reading) option" where
  "last_read (Checked # cs) = last_read cs"
| "last_read (Inspected _ # cs) = last_read cs"
| "last_read (WasRead path (Some r) # cs) = Some (path, r)"
| "last_read _ = None"

definition staged_name :: "slice_plan \<Rightarrow> str \<Rightarrow> str \<Rightarrow> bool" where
  "staged_name plan name token = list_ex (\<lambda>path. name = staging path token) (plan_outputs plan)"

text \<open>The bytes are those that the plan seals for the path, where it seals any.\<close>

definition sealed_bytes :: "(str \<Rightarrow> str) \<Rightarrow> slice_plan \<Rightarrow> str \<Rightarrow> str \<Rightarrow> bool" where
  "sealed_bytes sha plan path data = (case artifact_at plan path of None \<Rightarrow> True
     | Some a \<Rightarrow> int (length data) = ar_size a \<and> sha data = ar_sha a)"

fun call_ok :: "(str \<Rightarrow> str) \<Rightarrow> slice_plan \<Rightarrow> call \<Rightarrow> call list \<Rightarrow> bool" where
  "call_ok sha plan (MadeDirectory path t) cs = (path \<in> set (plan_directories plan))"
| "call_ok sha plan (Created name t) cs = staged_name plan name t"
| "call_ok sha plan (Appended name t data) cs = staged_name plan name t"
| "call_ok sha plan (Discarded name t) cs = staged_name plan name t"
| "call_ok sha plan (Published name path t) cs =
     (name = staging path t \<and> path \<in> set (plan_outputs plan)
      \<and> (case last_read cs of None \<Rightarrow> False | Some (read, r) \<Rightarrow> read = name \<and> sealed_bytes sha plan path (reading_data r)))"
| "call_ok sha plan _ cs = True"

fun log_ok :: "(str \<Rightarrow> str) \<Rightarrow> slice_plan \<Rightarrow> call list \<Rightarrow> bool" where
  "log_ok sha plan [] = True"
| "log_ok sha plan (c # cs) = (call_ok sha plan c cs \<and> log_ok sha plan cs)"

section \<open>The store of a session\<close>

text \<open>What the store of a session goes through is a sequence of operations of the store.\<close>

definition stored_by :: "'e session \<Rightarrow> (store \<Rightarrow> refusal + ('a \<times> store)) \<Rightarrow> bool" where
  "stored_by su f \<longleftrightarrow> (\<forall>s. \<exists>xs. settle s (f s) = run_ops (su_sha su) (su_root su) xs s)"

lemma stored_byI: "(\<And>s. settle s (f s) = apply_op (su_sha su) (su_root su) x s) \<Longrightarrow> stored_by su f"
  unfolding stored_by_def by (intro allI exI [of _ "[x]"]) simp

lemma stored_transition: "stored_by su (transition a d st r)"
  by (rule stored_byI [where x = "OpTransition a d st r"]) (simp add: apply_op_def)

lemma stored_complete: "stored_by su (complete (su_sha su) a d)"
  by (rule stored_byI [where x = "OpComplete a d"]) (simp add: apply_op_def)

lemma stored_stop: "stored_by su (request_stop tx)"
  by (rule stored_byI [where x = "OpStop tx"]) (simp add: apply_op_def)

lemma stored_append: "stored_by su (append_event (su_sha su) tx event payload h a d)"
  by (rule stored_byI [where x = "OpAppend tx event payload h a d"]) (simp add: apply_op_def)

lemma stored_claim: "stored_by su (claim (su_sha su) tx d a r)"
  by (rule stored_byI [where x = "OpClaim tx d a r"]) (simp add: apply_op_def)

lemma stored_refuse: "stored_by su (refuse_preclaim tx d r e i)"
  by (rule stored_byI [where x = "OpRefuse tx d r e i"]) (simp add: apply_op_def)

lemma stored_reserve: "stored_by su (reserve_write (su_sha su) tx d r)"
  by (rule stored_byI [where x = "OpReserve tx d r"]) (simp add: apply_op_def)

lemma stored_query: "stored_by su (\<lambda>s. case f s of Inl e \<Rightarrow> Inl e | Inr x \<Rightarrow> Inr (x, s))"
  unfolding stored_by_def by (intro allI exI [of _ "[]"]) (simp add: settle_def split: sum.splits)

lemmas stored = stored_transition stored_complete stored_stop stored_append stored_claim stored_refuse stored_reserve stored_query

lemma storing_store:
  assumes "stored_by su f"
  shows "\<exists>xs. wd_store (snd (storing su f w)) = run_ops (su_sha su) (su_root su) xs (wd_store w)"
proof -
  let ?s = "wd_store (turned su w)"
  have t: "?s = run_ops (su_sha su) (su_root su) (su_others su (wd_turn w)) (wd_store w)" by (simp add: turned_def)
  obtain xs where xs: "settle ?s (f ?s) = run_ops (su_sha su) (su_root su) xs ?s" using assms by (auto simp: stored_by_def)
  have "wd_store (snd (storing su f w)) = (if su_busy su (wd_turn w) then ?s else settle ?s (f ?s))"
    by (simp add: storing_def settle_def split: sum.splits prod.splits)
  also have "\<dots> = run_ops (su_sha su) (su_root su)
      (su_others su (wd_turn w) @ (if su_busy su (wd_turn w) then [] else xs)) (wd_store w)"
    using xs by (simp add: t [symmetric])
  finally show ?thesis ..
qed

section \<open>The invariant of a session\<close>

text \<open>The plan is the one that the store has sealed for the transaction.\<close>

definition bound_plan :: "'e session \<Rightarrow> 'e world \<Rightarrow> bool" where
  "bound_plan su w \<longleftrightarrow> load (su_sha su) (wd_store w) (su_tx su) = Inr (su_plan su)"

lemma load_row:
  "load sha s tx = Inr p \<longleftrightarrow> (\<exists>r. st_txs s tx = Some r \<and> tx_plan r = Stored p \<and> tx_seal r = plan_seal sha p)"
  by (auto simp: load_def load_plan_def split: option.splits sum.splits stored_plan.splits)

lemma row_step_plan: "row_step r r' \<Longrightarrow> tx_plan r' = tx_plan r \<and> tx_seal r' = tx_seal r"
  by (cases rule: row_step.cases) (auto simp: row_frame_def)

lemma load_stable:
  assumes "load sha s tx = Inr p"
  shows "load sha (run_ops sha root xs s) tx = Inr p"
proof -
  obtain r where r: "st_txs s tx = Some r" "tx_plan r = Stored p \<and> tx_seal r = plan_seal sha p"
    using assms by (auto simp: load_row)
  have "\<exists>r'. (tx_plan r' = Stored p \<and> tx_seal r' = plan_seal sha p) \<and> st_txs (run_ops sha root xs s) tx = Some r'"
    by (rule run_row_invariant [OF r(1), where P = "\<lambda>r. tx_plan r = Stored p \<and> tx_seal r = plan_seal sha p"])
      (rule r(2), drule row_step_plan, simp)
  then show ?thesis by (auto simp: load_row)
qed

definition trace_ok :: "('e \<times> call list) session \<Rightarrow> ('e \<times> call list) world \<Rightarrow> bool" where
  "trace_ok su w \<longleftrightarrow> log_ok (su_sha su) (su_plan su) (the_log w) \<and> bound_plan su w \<and> plan_closed (su_plan su)"

definition ops_ok :: "'e session \<Rightarrow> 'e world \<Rightarrow> bool" where
  "ops_ok su w \<longleftrightarrow> list_all (\<lambda>(path, op). operation_fault (su_plan su) op = None \<and> to_path op = path) (se_ops w)"

definition session_ok :: "('e \<times> call list) session \<Rightarrow> ('e \<times> call list) world \<Rightarrow> bool" where
  "session_ok su w \<longleftrightarrow> trace_ok su w \<and> ops_ok su w"

text \<open>An object has been read, and nothing but checks and inspections happened since.\<close>

definition just_read :: "('e \<times> call list) session \<Rightarrow> str \<Rightarrow> reading \<Rightarrow> ('e \<times> call list) world \<Rightarrow> bool" where
  "just_read su path r w \<longleftrightarrow> session_ok su w \<and> last_read (the_log w) = Some (path, r)"

lemma the_log_simps [simp]:
  "the_log (turned su w) = the_log w" "the_log (w\<lparr>wd_store := s\<rparr>) = the_log w" "the_log (w\<lparr>wd_lease := b\<rparr>) = the_log w"
  "the_log (w\<lparr>wd_fresh := k\<rparr>) = the_log w" "the_log (w\<lparr>se_verified := v\<rparr>) = the_log w"
  "the_log (w\<lparr>se_terminal := b\<rparr>) = the_log w" "the_log (set_usage t us w) = the_log w" "the_log (w\<lparr>wd_env := e\<rparr>) = snd e"
  "the_log (w\<lparr>se_head := h\<rparr>) = the_log w" "the_log (note_op op w) = the_log w" "the_log (w\<lparr>se_required := n\<rparr>) = the_log w"
  "the_log (w\<lparr>se_paths := ps\<rparr>) = the_log w" "the_log (w\<lparr>se_ops := ops\<rparr>) = the_log w"
  "the_log (w\<lparr>se_usage := f\<rparr>) = the_log w" "the_log (w\<lparr>se_allocated := n\<rparr>) = the_log w"
  by (simp_all add: the_log_def turned_def set_usage_def note_op_def)

lemma se_ops_simps [simp]:
  "se_ops (turned su w) = se_ops w" "se_ops (set_usage t us w) = se_ops w"
  "se_ops (note_op op w) = AList.update (to_path op) op (se_ops w)"
  "wd_store (set_usage t us w) = wd_store w" "wd_store (note_op op w) = wd_store w"
  by (simp_all add: turned_def set_usage_def note_op_def)

text \<open>Properties of the log, of the operations and of what the store keeps: the store moves on, the
  accounts change, and a call extends the log.\<close>

definition frames :: "('e \<times> call list) session \<Rightarrow> (('e \<times> call list) world \<Rightarrow> bool) \<Rightarrow> bool" where
  "frames su I \<longleftrightarrow> (\<forall>w w' xs. the_log w' = the_log w \<and> se_ops w' = se_ops w
     \<and> wd_store w' = run_ops (su_sha su) (su_root su) xs (wd_store w) \<longrightarrow> I w \<longrightarrow> I w')"

lemma framesD:
  "frames su I \<Longrightarrow> I w \<Longrightarrow> the_log w' = the_log w \<Longrightarrow> se_ops w' = se_ops w \<Longrightarrow>
    \<exists>xs. wd_store w' = run_ops (su_sha su) (su_root su) xs (wd_store w) \<Longrightarrow> I w'"
  unfolding frames_def by blast

lemma framesD':
  "frames su I \<Longrightarrow> I w \<Longrightarrow> the_log w' = the_log w \<Longrightarrow> se_ops w' = se_ops w \<Longrightarrow> wd_store w' = wd_store w \<Longrightarrow> I w'"
  by (erule framesD) (auto intro: exI [of _ "[]"])

lemma bound_frame: "bound_plan su w \<Longrightarrow> wd_store w' = run_ops (su_sha su) (su_root su) xs (wd_store w) \<Longrightarrow> bound_plan su w'"
  by (simp add: bound_plan_def load_stable)

lemma frames_trace: "frames su (trace_ok su)"
  unfolding frames_def trace_ok_def using bound_frame by fastforce

lemma frames_session: "frames su (session_ok su)"
  unfolding frames_def session_ok_def
proof (intro allI impI)
  fix w w' :: "('a \<times> call list) world" and xs
  assume w: "the_log w' = the_log w \<and> se_ops w' = se_ops w \<and> wd_store w' = run_ops (su_sha su) (su_root su) xs (wd_store w)"
    and ok: "trace_ok su w \<and> ops_ok su w"
  have "trace_ok su w'" by (rule framesD [OF frames_trace, of su w]) (use w ok in auto)
  with w ok show "trace_ok su w' \<and> ops_ok su w'" by (simp add: ops_ok_def)
qed

lemma frames_read: "frames su (just_read su path r)"
  unfolding frames_def just_read_def
proof (intro allI impI)
  fix w w' :: "('a \<times> call list) world" and xs
  assume w: "the_log w' = the_log w \<and> se_ops w' = se_ops w \<and> wd_store w' = run_ops (su_sha su) (su_root su) xs (wd_store w)"
    and ok: "session_ok su w \<and> last_read (the_log w) = Some (path, r)"
  have "session_ok su w'" by (rule framesD [OF frames_session, of su w]) (use w ok in auto)
  with w ok show "session_ok su w' \<and> last_read (the_log w') = Some (path, r)" by simp
qed

lemma storing_frames:
  assumes "frames su I" "stored_by su f"
  shows "yields I (storing (with_trace su p) f) (\<lambda>_. True)"
  unfolding yields_def
proof (intro allI impI conjI)
  fix w
  assume w: "I w"
  have "stored_by (with_trace su p) f" using assms(2) by (simp add: stored_by_def)
  note st = storing_store [OF this, of w]
  show "I (snd (storing (with_trace su p) f w))"
    by (rule framesD [OF assms(1) w]) (use st in \<open>simp_all add: storing_def split: sum.splits prod.splits\<close>)
qed simp

lemma call_yields:
  assumes "\<And>r w e. I w \<Longrightarrow> I (w\<lparr>wd_env := (e, c r # the_log w)\<rparr>)"
  shows "yields I (on_env (logging c m)) (\<lambda>_. True)"
  using assms by (auto simp: yields_def on_env_def logging_def the_log_def split: prod.splits)

text \<open>What looks only, in such an invariant.\<close>

lemma quiet_frames:
  assumes "frames su I" "\<And>w e c. I w \<Longrightarrow> c = Checked \<or> (\<exists>path. c = Inspected path) \<Longrightarrow> I (w\<lparr>wd_env := (e, c # the_log w)\<rparr>)"
  shows "quiet (with_trace su p) I"
proof
  show "yields I (on_env (po_check (su_port (with_trace su p)) plan n r)) (\<lambda>_. True)" for plan n r
    by (simp, rule call_yields) (rule assms(2), simp_all)
  show "yields I (inspecting (with_trace su p) path) (\<lambda>_. True)" for path
    by (simp add: inspecting_def, rule call_yields) (rule assms(2), simp_all)
  show "I w \<Longrightarrow> I (turned (with_trace su p) w)" for w
    by (erule framesD [OF assms(1)]) (simp_all, auto simp: turned_def)
  show "I w \<Longrightarrow> I (w\<lparr>wd_lease := b\<rparr>)" for w b by (erule framesD' [OF assms(1)]) simp_all
  show "I w \<Longrightarrow> I (set_usage token us w)" for w token us by (erule framesD' [OF assms(1)]) simp_all
qed (simp_all add: storing_frames [OF assms(1)] stored)

lemma log_call:
  "call_ok (su_sha su) (su_plan su) c (the_log w) \<Longrightarrow> session_ok su w \<Longrightarrow> session_ok su (w\<lparr>wd_env := (e, c # the_log w)\<rparr>)"
  by (simp add: session_ok_def trace_ok_def ops_ok_def bound_plan_def)

interpretation traces: quiet "with_trace su p" "trace_ok su" for su p
  by (rule quiet_frames [OF frames_trace]) (auto simp: trace_ok_def bound_plan_def)

interpretation sessions: quiet "with_trace su p" "session_ok su" for su p
  by (rule quiet_frames [OF frames_session], rule log_call) auto

interpretation readings: quiet "with_trace su p" "just_read su path r" for su p path r
  by (rule quiet_frames [OF frames_read]) (auto simp: just_read_def intro: log_call)

section \<open>Reading back and publishing\<close>

lemma absorb_data:
  "absorb su ps fail data w = (Inr x, w') \<Longrightarrow> x = data @ concat (takeWhile (\<lambda>p. p \<noteq> []) ps)"
proof (induction ps arbitrary: data w)
  case Nil
  then show ?case by (cases fail) (simp_all add: ret_def raising_def)
next
  case (Cons p ps)
  show ?case
  proof (cases "p = []")
    case True
    with Cons.prems show ?thesis by (simp add: ret_def)
  next
    case False
    with Cons.prems obtain w1 where "absorb su ps fail (data @ p) w1 = (Inr x, w')"
      by (auto simp: andthen_def split: sum.splits prod.splits)
    from Cons.IH [OF this] False show ?thesis by simp
  qed
qed

lemma absorb_fst: "fst (absorb su ps fail data w) = Inr x \<Longrightarrow> x = data @ concat (takeWhile (\<lambda>p. p \<noteq> []) ps)"
  by (cases "absorb su ps fail data w") (auto dest: absorb_data)

lemma read_runs:
  "runs (session_ok su) (on_env (po_read (su_port (with_trace su p)) path)) (\<lambda>r. just_read su path r) (session_ok su)"
  by (auto simp: runs_def on_env_def logging_def just_read_def the_log_def [symmetric] log_call split: prod.splits sum.splits)

lemma yields_reads: "yields (just_read su path r) m R \<Longrightarrow> runs (just_read su path r) m (\<lambda>x w. just_read su path r w \<and> R x) (session_ok su)"
  unfolding runs_yields by (erule runs_conseq) (simp_all add: just_read_def)

lemma absorb_reads:
  "runs (just_read su path r) (absorb (with_trace su p) (rd_pieces r) (rd_fail r) [])
     (\<lambda>data w. just_read su path r w \<and> data = reading_data r) (session_ok su)"
proof (rule yields_reads)
  show "yields (just_read su path r) (absorb (with_trace su p) (rd_pieces r) (rd_fail r) []) (\<lambda>data. data = reading_data r)"
    using readings.absorb_safe [of su path r p "rd_pieces r" "rd_fail r" "[]"]
    unfolding yields_def by (auto simp: reading_data_def dest: absorb_fst)
qed

definition certified :: "('e \<times> call list) session \<Rightarrow> str \<Rightarrow> transfer_op \<Rightarrow> ('e \<times> call list) world \<Rightarrow> bool" where
  "certified su path op w \<longleftrightarrow> (\<exists>r. just_read su path r w \<and> fits su op (reading_data r))"

lemma matches_runs:
  "runs (session_ok su) (matches (with_trace su p) path op) (\<lambda>same w. session_ok su w \<and> (same \<longrightarrow> certified su path op w)) (session_ok su)"
  unfolding matches_def
proof (rule runs_andthen [OF read_runs], rule runs_andthen [OF absorb_reads], rule runs_assume,
    rule runs_andthen [OF yields_reads [OF readings.boundary_safe]], rule runs_ret)
  fix r data x w
  assume "data = reading_data r" "just_read su path r w \<and> True"
  then show "session_ok su w \<and> (fits (with_trace su p) op data \<longrightarrow> certified su path op w)"
    by (auto simp: certified_def fits_def just_read_def)
qed

lemma publish_call_ok:
  assumes op: "operation_fault (su_plan su) op = None" and temp: "to_temporary op = Some temp" and c: "certified su temp op w"
  shows "call_ok (su_sha su) (su_plan su) (Published temp (to_path op) (to_token op)) (the_log w)"
proof -
  from c obtain r where r: "last_read (the_log w) = Some (temp, r)" "fits su op (reading_data r)"
    by (auto simp: certified_def just_read_def)
  have p: "planned (su_plan su) (to_path op) (to_kind op) (to_size op) (to_sha op)" "to_kind op \<noteq> KDirectory"
    "temp = staging (to_path op) (to_token op)"
    using op temp by (auto simp: operation_fault_None split: if_splits)
  have closed: "plan_closed (su_plan su)" using c by (auto simp: certified_def just_read_def session_ok_def trace_ok_def)
  have "sealed_bytes (su_sha su) (su_plan su) (to_path op) (reading_data r)"
    using p(1,2) r(2) planned_artifact [OF closed p(1)]
    by (auto simp: sealed_bytes_def planned_def fits_def split: option.splits)
  with r p planned_output [OF p(1,2)] show ?thesis by simp
qed

lemma publishing_yields:
  assumes "operation_fault (su_plan su) op = None" "to_temporary op = Some temp"
  shows "runs (certified su temp op) (publishing (with_trace su p) temp (to_path op) (to_token op)) (\<lambda>_. session_ok su) (session_ok su)"
  unfolding runs_def
proof (intro allI impI)
  fix w
  assume c: "certified su temp op w"
  then have s: "session_ok su w" by (auto simp: certified_def just_read_def)
  note after = log_call [OF publish_call_ok [OF assms c] s]
  show "case publishing (with_trace su p) temp (to_path op) (to_token op) w of (Inl e, w') \<Rightarrow> session_ok su w' | (Inr x, w') \<Rightarrow> session_ok su w'"
    by (auto simp: publishing_def catching_def on_env_def logging_def refusing_def raising_def after the_log_def [symmetric]
        split: prod.splits sum.splits failure.splits)
qed

lemma certified_yields:
  assumes "\<And>r. yields (just_read su path r) m (\<lambda>_. True)"
  shows "runs (certified su path op) m (\<lambda>_. certified su path op) (session_ok su)"
  unfolding runs_def
proof (intro allI impI)
  fix w
  assume "certified su path op w"
  then obtain r where r: "just_read su path r w" "fits su op (reading_data r)" by (auto simp: certified_def)
  have "just_read su path r (snd (m w))" by (rule yieldsD [OF assms r(1)])
  with r(2) show "case m w of (Inl e, w') \<Rightarrow> session_ok su w' | (Inr x, w') \<Rightarrow> certified su path op w'"
    by (auto simp: certified_def just_read_def split: prod.splits sum.splits)
qed

lemma yields_both: "yields (session_ok su) m R \<Longrightarrow> runs (session_ok su) m (\<lambda>x. session_ok su) (session_ok su)"
  unfolding runs_yields by (erule runs_conseq) simp_all

lemma publish_new_yields:
  assumes "operation_fault (su_plan su) op = None" "to_temporary op = Some temp"
  shows "yields (session_ok su) (publish_new (with_trace su p) temp op) (\<lambda>_. True)"
proof -
  have refused: "runs (session_ok su) (if staged = None then ret False else matches (with_trace su p) temp op)
      (\<lambda>same w. session_ok su w \<and> (same \<longrightarrow> certified su temp op w)) (session_ok su)" for staged :: "object_info option"
    by (cases staged) (simp_all add: runs_ret matches_runs)
  show ?thesis
    unfolding publish_new_def runs_yields
  proof (rule runs_andthen [OF yields_both [OF sessions.owned_safe]], rule runs_andthen [OF refused], rule runs_if)
    fix staged :: "object_info option" and same
    assume "\<not> \<not> same"
    then have pre: "session_ok su w \<and> (same \<longrightarrow> certified su temp op w) \<Longrightarrow> certified su temp op w" for w by simp
    have last: "runs (session_ok su) (andthen (owned (with_trace su p) (to_path op) op) (\<lambda>_. refresh_parent (with_trace su p) (to_path op)))
        (\<lambda>x w. session_ok su w \<and> True) (session_ok su)"
      unfolding runs_yields [symmetric] by (intro safe)
    show "runs (\<lambda>w. session_ok su w \<and> (same \<longrightarrow> certified su temp op w))
       (andthen (check_parents (with_trace su p) (to_path op)) (\<lambda>_. andthen (boundary (with_trace su p)) (\<lambda>_.
         andthen (publishing (with_trace su p) temp (to_path op) (to_token op)) (\<lambda>_.
         andthen (owned (with_trace su p) (to_path op) op) (\<lambda>_. refresh_parent (with_trace su p) (to_path op))))))
       (\<lambda>x w. session_ok su w \<and> True) (session_ok su)"
      by (rule runs_conseq [where P = "certified su temp op", OF _ pre])
        (rule runs_andthen [OF certified_yields [OF readings.check_parents_safe]]
          runs_andthen [OF certified_yields [OF readings.boundary_safe]]
          runs_andthen [OF publishing_yields [OF assms]] last | assumption)+
  qed (rule runs_refusing, simp)
qed

end
