(* ===== verification/SliceConfined.thy ===== *)
theory SliceConfined
  imports SliceTrace
begin

text \<open>
  The properties of the traces of a delivery, from \<open>start\<close> through any number of steps: where it
  writes, what it publishes, and that the operations it keeps are well typed.
\<close>

section \<open>Steps of a session\<close>

lemma append_yields: "yields (session_ok su) (auth_append (with_trace su p) event payload h) (\<lambda>_. True)"
  unfolding auth_append_def
  by (rule yields_seq [OF sessions.lease_check_safe])
    (use storing_frames [OF frames_session stored_append] in simp)

lemma update_set: "x \<in> set (AList.update k v xs) \<Longrightarrow> x = (k, v) \<or> x \<in> set xs"
  by (induction xs) (auto split: if_splits)

lemma session_note:
  assumes "session_ok su w" "operation_fault (su_plan su) op = None"
  shows "session_ok su (note_op op (w\<lparr>se_head := h\<rparr>))"
  using assms by (auto simp: session_ok_def trace_ok_def ops_ok_def bound_plan_def list_all_iff dest!: update_set)

lemma record_yields_session:
  assumes "operation_fault (su_plan su) (op\<lparr>to_state := st\<rparr>) = None"
  shows "yields (session_ok su) (record_op (with_trace su p) op st) (\<lambda>_. True)"
  unfolding record_op_def Let_def
  by (intro append_yields safe session_note TrueI) (use assms in simp_all)

lemma receipt_yields_session: "yields (session_ok su) (append_receipt (with_trace su p) payload) (\<lambda>_. True)"
  unfolding append_receipt_def
  by (intro append_yields safe TrueI) (erule framesD' [OF frames_session], simp_all)

lemma fault_staged:
  assumes "operation_fault (su_plan su) op = None" "to_temporary op = Some temp"
  shows "staged_name (su_plan su) temp (to_token op)"
proof -
  have "planned (su_plan su) (to_path op) (to_kind op) (to_size op) (to_sha op)" "to_kind op \<noteq> KDirectory"
    "temp = staging (to_path op) (to_token op)"
    using assms by (auto simp: operation_fault_None split: if_splits)
  then show ?thesis using planned_output by (auto simp: staged_name_def list_ex_iff)
qed

lemma call_session:
  assumes "\<And>r l. call_ok (su_sha su) (su_plan su) (c r) l"
  shows "yields (session_ok su) (on_env (logging c m)) (\<lambda>_. True)"
  by (rule call_yields) (rule log_call, rule assms)

interpretation deliveries: delivering "with_trace su p" "session_ok su" "\<lambda>_. True" for su p
proof
  show "session_ok su w \<Longrightarrow> plan_closed (su_plan (with_trace su p))" for w
    by (simp add: session_ok_def trace_ok_def)
  show "session_ok su w \<Longrightarrow> map_of (se_ops w) path = Some op \<Longrightarrow> good (with_trace su p) (\<lambda>_. True) op \<and> to_path op = path" for w path op
    by (auto simp: session_ok_def ops_ok_def good_def list_all_iff dest!: map_of_SomeD)
  show "good (with_trace su p) (\<lambda>_. True) (op\<lparr>to_state := st\<rparr>) \<Longrightarrow>
      yields (session_ok su) (record_op (with_trace su p) op st) (\<lambda>_. True)" for op st
    by (rule record_yields_session) (simp add: good_def)
  show "session_ok su w \<Longrightarrow> session_ok su (w\<lparr>wd_fresh := k\<rparr>)" for w k by (erule framesD' [OF frames_session]) simp_all
  show "session_ok su w \<Longrightarrow> session_ok su (w\<lparr>se_verified := ts\<rparr>)" for w ts by (erule framesD' [OF frames_session]) simp_all
  show "session_ok su w \<Longrightarrow> session_ok su (w\<lparr>se_terminal := b\<rparr>)" for w b by (erule framesD' [OF frames_session]) simp_all
  show "good (with_trace su p) (\<lambda>_. True) op \<Longrightarrow> to_kind op = KDirectory \<Longrightarrow>
      yields (session_ok su) (on_env (po_mkdir (su_port (with_trace su p)) (to_path op) (to_token op))) (\<lambda>_. True)" for op
    by (simp, rule call_session) (simp add: good_def operation_fault_None planned_def)
  show "part \<in> set (po_opening (su_port (with_trace su p)) s) \<Longrightarrow> yields (session_ok su) (on_env part) (\<lambda>_. True)" for part s
    by (auto intro: call_session)
qed (simp_all add: good_def call_session fault_staged publish_new_yields receipt_yields_session end_session_def)

section \<open>Start\<close>

lemma replay_event_Inr:
  assumes "replay_event sha plan tx e ops = Inr ops'"
  obtains "ops' = ops"
  | op where "decode_op sha plan (snd e) = Some op" "operation_fault plan op = None" "ops' = AList.update (to_path op) op ops"
proof (cases "fst e = ''operation''")
  case True
  show thesis
  proof (cases "decode_op sha plan (snd e)")
    case (Some op)
    show thesis
    proof (cases "operation_fault plan op")
      case None
      have "ops' = AList.update (to_path op) op ops"
        using assms by (simp add: replay_event_def True Some None journal_corrupt_def split: option.splits if_splits)
      with Some None show thesis by (rule that(2))
    qed (use assms Some True in \<open>simp add: replay_event_def journal_corrupt_def\<close>)
  qed (use assms True in \<open>simp add: replay_event_def journal_corrupt_def\<close>)
next
  case False
  with assms have "ops' = ops" by (simp add: replay_event_def journal_corrupt_def split: if_splits)
  then show thesis by (rule that(1))
qed

lemma replay_event_ops:
  assumes "replay_event sha plan tx e ops = Inr ops'" "list_all (\<lambda>(path, op). operation_fault plan op = None \<and> to_path op = path) ops"
  shows "list_all (\<lambda>(path, op). operation_fault plan op = None \<and> to_path op = path) ops'"
  using assms(1)
  by (rule replay_event_Inr) (use assms(2) in \<open>auto simp: list_all_iff dest!: update_set\<close>)

lemma replay_events_ops:
  "replay_events sha plan tx es ops = Inr ops' \<Longrightarrow> list_all (\<lambda>(path, op). operation_fault plan op = None \<and> to_path op = path) ops \<Longrightarrow>
    list_all (\<lambda>(path, op). operation_fault plan op = None \<and> to_path op = path) ops'"
proof (induction es arbitrary: ops)
  case (Cons e es)
  then obtain ops1 where e: "replay_event sha plan tx e ops = Inr ops1" and es: "replay_events sha plan tx es ops1 = Inr ops'"
    by (cases "replay_event sha plan tx e ops") simp_all
  show ?case by (rule Cons.IH [OF es replay_event_ops [OF e Cons.prems(2)]])
qed simp

text \<open>What the session's parameters do not change.\<close>

lemma turned_session: "turned (su\<lparr>su_plan := plan\<rparr>) w = turned su w" "turned (su\<lparr>su_attempt := a\<rparr>) w = turned su w"
  by (simp_all add: turned_def)

lemma storing_session [simp]:
  "storing (su\<lparr>su_plan := plan\<rparr>) f = storing su f" "storing (su\<lparr>su_attempt := a\<rparr>) f = storing su f"
  "asking (su\<lparr>su_plan := plan\<rparr>) g = asking su g" "asking (su\<lparr>su_attempt := a\<rparr>) g = asking su g"
  by (rule ext, simp add: storing_def asking_def turned_session split: sum.split prod.split)+

definition attempting :: "'e session \<Rightarrow> str \<Rightarrow> 'e session" where
  "attempting su t = su\<lparr>su_attempt := \<lparr>at_owner = su_tx su, at_token = t\<rparr>\<rparr>"

lemma with_trace_attempting: "with_trace (attempting su t) p = (with_trace su p)\<lparr>su_attempt := \<lparr>at_owner = su_tx su, at_token = t\<rparr>\<rparr>"
  by (simp add: attempting_def)

lemma attempting_simps [simp]: "su_sha (attempting su t) = su_sha su" "su_plan (attempting su t) = su_plan su"
  "su_tx (attempting su t) = su_tx su" "su_root (attempting su t) = su_root su"
  "su_attempt (attempting su t) = \<lparr>at_owner = su_tx su, at_token = t\<rparr>"
  by (simp_all add: attempting_def)

lemma trace_attempt [simp]:
  "trace_ok (su\<lparr>su_attempt := a\<rparr>) = trace_ok su" "session_ok (su\<lparr>su_attempt := a\<rparr>) = session_ok su"
  "trace_ok (attempting su t) = trace_ok su" "session_ok (attempting su t) = session_ok su"
  by (simp_all add: attempting_def trace_ok_def session_ok_def ops_ok_def bound_plan_def fun_eq_iff)

lemma other_call: "yields (trace_ok su) (on_env (logging (\<lambda>_. Other) m)) (\<lambda>_. True)"
  by (rule call_yields) (simp add: trace_ok_def bound_plan_def)

lemma stored_yields: "stored_by su f \<Longrightarrow> yields (trace_ok su) (storing (with_trace su p) f) (\<lambda>_. True)"
  by (rule storing_frames [OF frames_trace])

lemma trace_kept:
  "trace_ok su w \<Longrightarrow> the_log w' = the_log w \<Longrightarrow> se_ops w' = se_ops w \<Longrightarrow> wd_store w' = wd_store w \<Longrightarrow> trace_ok su w'"
  by (rule framesD' [OF frames_trace])

lemma take_lease_yields:
  "yields (trace_ok su) (take_lease (with_trace su p)) (\<lambda>su'. \<exists>t. su' = with_trace (attempting su t) p)"
proof -
  have name: "yields (trace_ok su) (fresh_name (with_trace su p)) (\<lambda>_. True)"
    by (auto simp: yields_def fresh_name_def intro: trace_kept)
  have lease: "yields (trace_ok su) (on_env (po_lease (su_port (with_trace su p)))) (\<lambda>_. True)"
    by (simp add: other_call)
  show ?thesis
    unfolding take_lease_def by (intro name lease safe TrueI) (auto simp: with_trace_attempting intro: trace_kept)
qed

lemma asking_yields: "yields (trace_ok su) (asking (with_trace su p) f) (\<lambda>_. True)"
  by (rule traces.asking_safe)

lemma lease_held_yields: "yields (trace_ok su) (lease_held (with_trace su p) e) (\<lambda>_. True)"
proof -
  have live: "yields (trace_ok su) (on_env (po_retained (su_port (with_trace su p)) a)) (\<lambda>_. True)" for a
    by (simp add: other_call)
  show ?thesis unfolding lease_held_def by (intro live safe TrueI)
qed

lemma preclaim_check_yields: "yields (trace_ok su) (preclaim_check (with_trace su p) r) (\<lambda>_. True)"
  unfolding preclaim_check_def by (intro safe)

lemma refuse_claim_yields: "yields (trace_ok su) (refuse_claim (with_trace su p) r e i) (\<lambda>_. True)"
  unfolding refuse_claim_def
  by (rule yields_seq [OF traces.lease_check_safe]) (simp add: stored_yields stored_refuse)

lemma preflight_yields:
  assumes "\<And>ms m. parts = Some ms \<Longrightarrow> m \<in> set ms \<Longrightarrow> yields (trace_ok su) m (\<lambda>_. True)"
  shows "yields (trace_ok su) (preflight (with_trace su p) r parts) (\<lambda>_. True)"
  unfolding preflight_def
  by (intro refuse_claim_yields preclaim_check_yields safe yields_each assms TrueI)

lemma claiming_yields: "yields (trace_ok su) (claiming (with_trace su p) r) (\<lambda>_. True)"
proof -
  have c: "yields (trace_ok su) (storing (with_trace su p) (claim (su_sha (with_trace su p)) (su_tx (with_trace su p))
      (su_device (with_trace su p)) (su_attempt (with_trace su p)) r)) (\<lambda>_. True)"
    by (simp add: stored_yields stored_claim)
  show ?thesis unfolding claiming_def by (intro c safe TrueI)
qed

definition session_of :: "('e \<times> call list) session \<Rightarrow> 'e port \<Rightarrow> status + ('e \<times> call list) session \<Rightarrow> bool" where
  "session_of su p got \<longleftrightarrow> (case got of Inl _ \<Rightarrow> True | Inr su' \<Rightarrow> \<exists>t. su' = with_trace (attempting su t) p)"

lemma claim_lease_yields:
  "yields (trace_ok su) (claim_lease (with_trace su p) r checked) (\<lambda>got. \<forall>su'. got = Inr su' \<longrightarrow> su' = with_trace su p)"
proof -
  have parts: "yields (trace_ok su) m (\<lambda>_. True)"
    if "(if checked then map_option (map on_env) (po_preflight (su_port (with_trace su p))) else None) = Some ms" "m \<in> set ms" for ms m
    using that by (auto split: if_splits intro: other_call)
  show ?thesis
    unfolding claim_lease_def by (intro preflight_yields claiming_yields safe) (use parts in simp_all)
qed

lemma acquire_yields: "yields (trace_ok su) (acquire (with_trace su p) r checked) (session_of su p)"
proof -
  have lease: "yields (trace_ok su) (catching (andthen (take_lease (with_trace su p)) (\<lambda>su. ret (Inr su)))
      (\<lambda>e. case e of Refused _ \<Rightarrow> andthen (lease_held (with_trace su p) e) (\<lambda>st. ret (Inl st)) | _ \<Rightarrow> raising e)) (session_of su p)"
    by (intro yields_catching yields_andthen [OF take_lease_yields] lease_held_yields safe)
      (auto simp: session_of_def)
  show ?thesis
    unfolding acquire_def
  proof (rule yields_andthen [OF lease], rule yields_sum)
    fix got st
    show "yields (trace_ok su) (ret (Inl st)) (session_of su p)" by (rule yields_ret) (simp add: session_of_def)
  next
    fix got su'
    assume "session_of su p got" "got = Inr su'"
    then obtain t where su': "su' = with_trace (attempting su t) p" by (auto simp: session_of_def)
    show "yields (trace_ok su) (claim_lease su' r checked) (session_of su p)"
      using claim_lease_yields [of "attempting su t" p r checked]
      by (auto simp: su' session_of_def yields_def split: sum.splits)
  qed
qed

lemma asking_runs:
  assumes "frames su I"
  shows "runs I (asking (with_trace su p) f) (\<lambda>x w. I w \<and> f (wd_store w) = Inr x) I"
  unfolding runs_def
proof (intro allI impI)
  fix w
  assume w: "I w"
  have "I (turned (with_trace su p) w)"
    by (rule framesD [OF assms w]) (simp_all, auto simp: turned_def)
  then show "case asking (with_trace su p) f w of (Inl e, w') \<Rightarrow> I w' | (Inr x, w') \<Rightarrow> I w' \<and> f (wd_store w') = Inr x"
    by (simp add: asking_def storing_def split: sum.split)
qed

lemma trace_of_session: "session_ok su w \<Longrightarrow> trace_ok su w"
  by (simp add: session_ok_def)

lemma session_runs: "yields (session_ok su) m R \<Longrightarrow> runs (session_ok su) m (\<lambda>_. session_ok su) (trace_ok su)"
  unfolding runs_yields by (erule runs_conseq) (simp_all add: trace_of_session)

lemma trace_runs: "yields (trace_ok su) m R \<Longrightarrow> runs (trace_ok su) m (\<lambda>x w. trace_ok su w \<and> R x) (trace_ok su)"
  by (simp add: runs_yields)

lemma recorded_runs:
  "runs (trace_ok su) (recorded (with_trace su p))
     (\<lambda>ops w. trace_ok su w \<and> list_all (\<lambda>(path, op). operation_fault (su_plan su) op = None \<and> to_path op = path) ops) (trace_ok su)"
  unfolding recorded_def
proof (rule runs_andthen)
  show "runs (trace_ok su) (asking (with_trace su p) (\<lambda>s. load (su_sha (with_trace su p)) s (su_tx (with_trace su p))))
      (\<lambda>plan w. trace_ok su w \<and> plan = su_plan su) (trace_ok su)"
    by (rule runs_conseq [OF asking_runs [OF frames_trace]]) (auto simp: trace_ok_def bound_plan_def)
  fix plan
  show "runs (\<lambda>w. trace_ok su w \<and> plan = su_plan su)
      (andthen (asking (with_trace su p) (\<lambda>s. events (su_sha (with_trace su p)) s (su_tx (with_trace su p)))) (\<lambda>es.
        settled (replay_events (su_sha (with_trace su p)) plan (su_tx (with_trace su p)) es [])))
      (\<lambda>ops w. trace_ok su w \<and> list_all (\<lambda>(path, op). operation_fault (su_plan su) op = None \<and> to_path op = path) ops) (trace_ok su)"
  proof (rule runs_assume, rule runs_andthen [OF trace_runs [OF traces.asking_safe]], rule runs_assume)
    fix es
    assume p: "plan = su_plan su"
    show "runs (trace_ok su) (settled (replay_events (su_sha (with_trace su p)) plan (su_tx (with_trace su p)) es []))
      (\<lambda>ops w. trace_ok su w \<and> list_all (\<lambda>(path, op). operation_fault (su_plan su) op = None \<and> to_path op = path) ops) (trace_ok su)"
      by (cases "replay_events (su_sha (with_trace su p)) plan (su_tx (with_trace su p)) es []")
        (auto simp: settled_def p dest: replay_events_ops intro!: runs_raising runs_ret)
  qed
qed

lemma session_fields [simp]:
  "session_ok su (w\<lparr>se_required := n\<rparr>) = session_ok su w" "session_ok su (w\<lparr>se_paths := ps\<rparr>) = session_ok su w"
  by (simp_all add: session_ok_def trace_ok_def ops_ok_def bound_plan_def)

lemma adopt_yields: "yields (session_ok su) (adopt (with_trace su p) ops) (\<lambda>_. True)"
  unfolding adopt_def by (intro safe yields_each TrueI) simp_all

lemma fresh_session_ok:
  assumes "trace_ok su w" "list_all (\<lambda>(path, op). operation_fault (su_plan su) op = None \<and> to_path op = path) ops"
  shows "session_ok su (fresh_session ops h w)"
  using assms by (simp add: session_ok_def trace_ok_def ops_ok_def bound_plan_def fresh_session_def the_log_def)

lemma init_runs: "runs (trace_ok su) (init_session (with_trace su p)) (\<lambda>_. session_ok su) (trace_ok su)"
  unfolding init_session_def
  by (rule runs_andthen [OF recorded_runs], rule runs_assume, rule runs_andthen [OF trace_runs [OF traces.asking_safe]],
      rule runs_andthen [OF runs_changing session_runs [OF adopt_yields]])
    (simp add: fresh_session_ok)

lemma inspecting_each: "yields (trace_ok su) (allocation (with_trace su p) xs seen n) (\<lambda>_. True)"
proof (induction xs arbitrary: seen n)
  case Nil
  show ?case unfolding allocation.simps by (intro safe TrueI)
next
  case (Cons x xs)
  show ?case by (cases x) (simp only: allocation.simps, intro Cons.IH safe)
qed

lemma allocated_yields: "yields (trace_ok su) (allocated (with_trace su p)) (\<lambda>_. True)"
  unfolding allocated_def recorded_def by (intro inspecting_each safe TrueI)

lemma session_control: "yields (session_ok su) (andthen (audit_layout (with_trace su p)) (\<lambda>_.
     andthen (whenever (is_folder (su_plan (with_trace su p))) (directory (with_trace su p) (destination_root (with_trace su p))))
       (\<lambda>_. control (with_trace su p)))) (\<lambda>_. True)"
proof -
  have "yields (session_ok su) (directory (with_trace su p) (destination_root (with_trace su p))) (\<lambda>_. True)" if "is_folder (su_plan su)"
  proof (rule yields_when [where b = "plan_closed (su_plan su)"])
    assume "plan_closed (su_plan su)"
    with that show "yields (session_ok su) (directory (with_trace su p) (destination_root (with_trace su p))) (\<lambda>_. True)"
      by (intro deliveries.directory_safe) (simp add: plan_closed_def destination_root_def)
  qed (simp add: session_ok_def trace_ok_def)
  then have dir: "yields (session_ok su) (whenever (is_folder (su_plan (with_trace su p)))
      (directory (with_trace su p) (destination_root (with_trace su p)))) (\<lambda>_. True)"
    by (intro yields_whenever) simp_all
  show ?thesis by (intro dir safe)
qed

lemma open_session_runs: "runs (trace_ok su) (open_session (with_trace su p) required) (\<lambda>_. session_ok su) (trace_ok su)"
proof -
  have beginning: "yields (trace_ok su) (whenever (session_only (su_plan (with_trace su p))) (on_env (po_begin (su_port (with_trace su p))))) (\<lambda>_. True)"
    by (intro yields_whenever TrueI) (simp add: other_call)
  show ?thesis
    unfolding open_session_def
    by (rule runs_after [OF beginning], rule runs_after [OF allocated_yields], rule runs_after [OF traces.check_kept],
        rule runs_after [OF traces.auth_transition_safe], rule runs_andthen [OF init_runs session_runs [OF session_control]])
qed

lemma auth_refuse_yields: "yields (trace_ok su) (auth_refuse (with_trace su p) r) (\<lambda>_. True)"
  unfolding auth_refuse_def by (rule traces.auth_transition_safe)

lemma end_session_yields: "yields (trace_ok su) (end_session (with_trace su p)) (\<lambda>_. True)"
  by (simp add: end_session_def other_call)

lemma abandon_yields: "yields (trace_ok su) (abandon (with_trace su p) e) (\<lambda>_. True)"
  unfolding abandon_def close_fat_abort_def by (intro auth_refuse_yields end_session_yields safe TrueI)

lemma begin_session_runs:
  "runs (trace_ok su) (begin_session (with_trace su p) required) (\<lambda>got w. session_ok su w \<and> got = Inr (with_trace su p)) (trace_ok su)"
proof -
  have abandoned: "yields (trace_ok su) (andthen (abandon (with_trace su p) e) (\<lambda>_. raising e)) (\<lambda>_::unit. False)" for e
    by (intro yields_seq [OF abandon_yields] yields_raising)
  have opened: "runs (trace_ok su) (catching (open_session (with_trace su p) required)
      (\<lambda>e. andthen (abandon (with_trace su p) e) (\<lambda>_. raising e))) (\<lambda>_. session_ok su) (trace_ok su)"
    unfolding runs_def
  proof (intro allI impI)
    fix w
    assume w: "trace_ok su w"
    show "case catching (open_session (with_trace su p) required)
        (\<lambda>e. andthen (abandon (with_trace su p) e) (\<lambda>_. raising e)) w of
        (Inl e, w') \<Rightarrow> trace_ok su w' | (Inr x, w') \<Rightarrow> session_ok su w'"
    proof (cases "fst (open_session (with_trace su p) required w)")
      case (Inl e)
      then obtain w' where o: "open_session (with_trace su p) required w = (Inl e, w')"
        by (cases "open_session (with_trace su p) required w") simp
      from runs_failD [OF open_session_runs w o] have w': "trace_ok su w'" .
      note a = abandoned [of e, unfolded yields_def, rule_format, OF w']
      show ?thesis
        using a by (cases "andthen (abandon (with_trace su p) e) (\<lambda>_. raising e :: (_, unit) run) w'")
          (auto simp: catching_def o split: sum.split)
    next
      case (Inr x)
      then obtain w' where o: "open_session (with_trace su p) required w = (Inr x, w')"
        by (cases "open_session (with_trace su p) required w") simp
      from runsD [OF open_session_runs w o] show ?thesis by (simp add: catching_def o)
    qed
  qed
  show ?thesis
    unfolding begin_session_def by (rule runs_andthen [OF opened], rule runs_ret) simp
qed

definition started :: "('e \<times> call list) session \<Rightarrow> 'e port \<Rightarrow> status + ('e \<times> call list) session \<Rightarrow> ('e \<times> call list) world \<Rightarrow> bool" where
  "started su p got w \<longleftrightarrow> trace_ok su w \<and> (case got of Inl _ \<Rightarrow> True
     | Inr su' \<Rightarrow> (\<exists>t. su' = with_trace (attempting su t) p) \<and> session_ok su w)"

lemma begin_plan_runs: "runs (trace_ok su) (begin_plan (with_trace su p)) (started su p) (trace_ok su)"
proof -
  have answer: "runs (trace_ok su) (ret (Inl st)) (started su p) (trace_ok su)" for st
    by (rule runs_ret) (simp add: started_def)
  have due: "yields (trace_ok su) (preflight_due (with_trace su p)) (\<lambda>_. True)"
    unfolding preflight_due_def by (intro safe TrueI)
  have stored_w: "yields (trace_ok su) (storing (with_trace su p)
      (reserve_write (su_sha (with_trace su p)) (su_tx (with_trace su p)) (su_device (with_trace su p)) r)) (\<lambda>_. True)" for r
    by (simp add: stored_yields stored_reserve)
  have reserved: "yields (trace_ok su) (reserving (with_trace su p)) (\<lambda>_. True)"
    unfolding reserving_def by (intro safe stored_w TrueI)
  have got: "runs (trace_ok su) (case got of Inl st \<Rightarrow> ret (Inl st) | Inr su' \<Rightarrow> begin_session su' required) (started su p) (trace_ok su)"
    if "session_of su p got" for got required
  proof (cases got)
    case (Inl st)
    with answer show ?thesis by simp
  next
    case (Inr su')
    with that obtain t where su': "su' = with_trace (attempting su t) p" by (auto simp: session_of_def)
    show ?thesis
      unfolding Inr sum.case su'
      by (rule runs_conseq [OF begin_session_runs]) (auto simp: started_def trace_of_session)
  qed
  show ?thesis
    unfolding begin_plan_def
    by (rule runs_after [OF traces.get_state_safe], rule runs_if, rule runs_refusing, assumption,
        rule runs_if, rule answer, rule runs_after [OF yields_settled [OF TrueI]], rule runs_after [OF reserved])
      (auto split: sum.split intro!: answer runs_after [OF due] runs_after [OF acquire_yields] got)
qed

lemma start_runs:
  assumes "su = su0\<lparr>su_plan := plan\<rparr>"
  shows "runs (trace_ok su) (start (with_trace su0 p)) (started su p) (trace_ok su)"
proof -
  have same: "asking (with_trace su0 p) f = asking (with_trace su p) f" for f
    by (simp add: assms fun_eq_iff asking_def storing_def turned_def with_trace_def split: sum.split prod.split)
  have loaded: "runs (trace_ok su) (asking (with_trace su0 p) (\<lambda>s. load (su_sha (with_trace su0 p)) s (su_tx (with_trace su0 p))))
      (\<lambda>q w. trace_ok su w \<and> q = plan) (trace_ok su)"
    unfolding same
    by (rule runs_conseq [OF asking_runs [OF frames_trace]]) (auto simp: trace_ok_def bound_plan_def assms)
  have begun: "runs (trace_ok su) (begin_plan ((with_trace su0 p)\<lparr>su_plan := plan\<rparr>)) (started su p) (trace_ok su)"
    using begin_plan_runs by (simp add: assms)
  show ?thesis
    unfolding start_def by (rule runs_andthen [OF loaded], rule runs_assume) (simp only: begun)
qed

lemma delivery_yields:
  assumes "su = su0\<lparr>su_plan := plan\<rparr>"
  shows "yields (trace_ok su) (delivery n (with_trace su0 p)) (\<lambda>_. True)"
proof -
  have "runs (started su p got)
      (case got of Inl st \<Rightarrow> ret (Some st) | Inr su \<Rightarrow> lastly
         (catching (run_steps n su) (\<lambda>e. if e = Interrupted then acknowledge n su else raising e)) (close_session su))
      (\<lambda>_. trace_ok su) (trace_ok su)" for got
  proof (cases got)
    case (Inl st)
    then show ?thesis by (simp, intro runs_ret) (simp add: started_def)
  next
    case (Inr su')
    have "yields (session_ok su) (lastly
         (catching (run_steps n (with_trace (attempting su t) p))
           (\<lambda>e. if e = Interrupted then acknowledge n (with_trace (attempting su t) p) else raising e))
         (close_session (with_trace (attempting su t) p))) (\<lambda>_. True)" for t
    proof -
      let ?su = "attempting su t"
      have "yields (session_ok ?su) (lastly
         (catching (run_steps n (with_trace ?su p)) (\<lambda>e. if e = Interrupted then acknowledge n (with_trace ?su p) else raising e))
         (close_session (with_trace ?su p))) (\<lambda>_. True)"
        unfolding acknowledge_def
        by (intro deliveries.run_steps_safe deliveries.close_session_safe safe TrueI)
      then show ?thesis by simp
    qed
    note steps = this [THEN session_runs]
    show ?thesis
    proof (cases "\<exists>t. su' = with_trace (attempting su t) p")
      case True
      then obtain t where t: "su' = with_trace (attempting su t) p" ..
      show ?thesis
        unfolding Inr sum.case t
        by (rule runs_conseq [OF steps]) (auto simp: started_def trace_of_session)
    next
      case False
      then have "\<not> started su p got w" for w by (simp add: started_def Inr)
      then show ?thesis by (simp add: runs_def)
    qed
  qed
  then have "runs (trace_ok su) (delivery n (with_trace su0 p)) (\<lambda>_. trace_ok su) (trace_ok su)"
    unfolding delivery_def by (rule runs_andthen [OF start_runs [OF assms]])
  then show ?thesis
    unfolding runs_yields by (rule runs_conseq) simp_all
qed

section \<open>Properties\<close>

text \<open>Every change of the destination is at a name of the plan.\<close>

fun within_plan :: "slice_plan \<Rightarrow> call \<Rightarrow> bool" where
  "within_plan plan (MadeDirectory path t) = (path \<in> set (plan_directories plan))"
| "within_plan plan (Created name t) = staged_name plan name t"
| "within_plan plan (Appended name t data) = staged_name plan name t"
| "within_plan plan (Discarded name t) = staged_name plan name t"
| "within_plan plan (Published name path t) = (name = staging path t \<and> path \<in> set (plan_outputs plan))"
| "within_plan plan _ = True"

text \<open>Every publication follows a read of the staged object whose bytes are those sealed for the path.\<close>

fun publications_read :: "(str \<Rightarrow> str) \<Rightarrow> slice_plan \<Rightarrow> call list \<Rightarrow> bool" where
  "publications_read sha plan [] = True"
| "publications_read sha plan (c # cs) =
     (publications_read sha plan cs \<and>
      (case c of
         Published name path t \<Rightarrow>
           (case last_read cs of None \<Rightarrow> False
            | Some (read, r) \<Rightarrow> read = name \<and> sealed_bytes sha plan path (reading_data r))
       | _ \<Rightarrow> True))"

lemma log_ok_within: "log_ok sha plan cs \<Longrightarrow> list_all (within_plan plan) cs"
proof (induction cs)
  case (Cons c cs)
  then show ?case by (cases c) simp_all
qed simp

lemma log_ok_read: "log_ok sha plan cs \<Longrightarrow> publications_read sha plan cs"
proof (induction cs)
  case (Cons c cs)
  then show ?case by (cases c) simp_all
qed simp

lemma delivery_log:
  assumes "load (su_sha su) (wd_store w) (su_tx su) = Inr plan" "plan_closed plan" "the_log w = []"
  shows "log_ok (su_sha su) plan (the_log (snd (delivery n (with_trace su p) w)))"
proof -
  have "trace_ok (su\<lparr>su_plan := plan\<rparr>) w" using assms by (simp add: trace_ok_def bound_plan_def)
  from yieldsD [OF delivery_yields [OF refl] this, of n p] show ?thesis by (simp add: trace_ok_def)
qed

text \<open>C8: A delivery stays inside its plan: whatever the destination and the sources answer, whatever
  the other processes do with the store and however the delivery ends, for a plan whose outputs
  are distinct and are no directories of it (\<open>plan_closed\<close>), it makes only directories of the sealed plan, writes and discards only the staging names next to the plan's outputs, and
  renames a staging name only to the output it stands for.\<close>

theorem delivery_confined:
  assumes "load (su_sha su) (wd_store w) (su_tx su) = Inr plan" "plan_closed plan" "the_log w = []"
  shows "list_all (within_plan plan) (the_log (snd (delivery n (with_trace su p) w)))"
  by (rule log_ok_within [OF delivery_log [OF assms]])

text \<open>C9: Nothing is published unread: when a delivery publishes an object, the last thing it did with the
  destination, checks and inspections apart, was to read that very staging object back, and the
  bytes it read have the length and the SHA-256 digest that the plan seals for the output, where
  the output is an artifact (the plan seals no digest for the ownership record and the receipt).\<close>

theorem publications_verified:
  assumes "load (su_sha su) (wd_store w) (su_tx su) = Inr plan" "plan_closed plan" "the_log w = []"
  shows "publications_read (su_sha su) plan (the_log (snd (delivery n (with_trace su p) w)))"
  by (rule log_ok_read [OF delivery_log [OF assms]])

text \<open>C11: A session is well typed: from a successful start on, after any number of steps, every operation it
  holds is one that the journal's own validation accepts for the sealed plan: its kind fits its
  path, its size and digest are the artifact's, its staging name is its path's and its token's, and
  a prepared or complete file names a sealed source; and it is filed under its path.\<close>

theorem session_well_typed:
  assumes "load (su_sha su) (wd_store w) (su_tx su) = Inr plan" "plan_closed plan" "the_log w = []"
    and "start (with_trace su p) w = (Inr (Inr su'), w')"
  shows "list_all (\<lambda>(path, op). operation_fault plan op = None \<and> to_path op = path) (se_ops (snd (run_steps n su' w')))"
proof -
  let ?su = "su\<lparr>su_plan := plan\<rparr>"
  have "trace_ok ?su w" using assms by (simp add: trace_ok_def bound_plan_def)
  from runsD [OF start_runs [OF refl] this assms(4)] obtain t where
    su': "su' = with_trace (attempting ?su t) p" and ok: "session_ok ?su w'" by (auto simp: started_def)
  from ok have "session_ok (attempting ?su t) w'" by simp
  from yieldsD [OF deliveries.run_steps_safe this, of n p] show ?thesis
    by (simp add: su' session_ok_def ops_ok_def)
qed

end
