(* ===== verification/SliceVerified.thy ===== *)
theory SliceVerified
  imports SliceConfined
begin

text \<open>
  What completion means: when \<open>_finish\<close> returns, every artifact of the sealed plan has been read back
  from its final place during it, with the sealed length and digest, the journal holds the receipt
  that lists exactly these files with one of their sealed sources each, and the store has the
  transaction complete and the lease is released.
\<close>

section \<open>Files read back\<close>

text \<open>A call that reads back the bytes sealed for an artifact at its final path.\<close>

definition reads_back :: "(str \<Rightarrow> str) \<Rightarrow> slice_plan \<Rightarrow> artifact \<Rightarrow> call \<Rightarrow> bool" where
  "reads_back sha plan a c = (case c of
       WasRead path (Some r) \<Rightarrow> path = artifact_target plan a \<and> int (length (reading_data r)) = ar_size a
         \<and> sha (reading_data r) = ar_sha a
     | _ \<Rightarrow> False)"

definition read_back :: "(str \<Rightarrow> str) \<Rightarrow> slice_plan \<Rightarrow> artifact list \<Rightarrow> call list \<Rightarrow> bool" where
  "read_back sha plan as cs \<longleftrightarrow> list_all (\<lambda>a. list_ex (reads_back sha plan a) cs) as"

text \<open>The calls since the log was \<open>l0\<close>.\<close>

definition since :: "call list \<Rightarrow> ('e \<times> call list) world \<Rightarrow> call list" where
  "since l0 w = take (length (the_log w) - length l0) (the_log w)"

definition grown :: "call list \<Rightarrow> (call \<Rightarrow> bool) list \<Rightarrow> ('e \<times> call list) world \<Rightarrow> bool" where
  "grown l0 ps w \<longleftrightarrow> (\<exists>pre. the_log w = pre @ l0 \<and> list_all (\<lambda>p. list_ex p pre) ps)"

lemma grown_since: "grown l0 ps w \<Longrightarrow> list_all (\<lambda>p. list_ex p (since l0 w)) ps"
  by (auto simp: grown_def since_def)

lemma grown_call: "grown l0 ps w \<Longrightarrow> grown l0 ps (w\<lparr>wd_env := (e, c # the_log w)\<rparr>)"
  unfolding grown_def
proof (elim exE conjE, intro exI conjI)
  fix pre
  assume "the_log w = pre @ l0" "list_all (\<lambda>p. list_ex p pre) ps"
  then show "the_log (w\<lparr>wd_env := (e, c # the_log w)\<rparr>) = (c # pre) @ l0" "list_all (\<lambda>p. list_ex p (c # pre)) ps"
    by (simp_all add: list_all_iff)
qed

definition checked :: "('e \<times> call list) session \<Rightarrow> call list \<Rightarrow> (call \<Rightarrow> bool) list \<Rightarrow> ('e \<times> call list) world \<Rightarrow> bool" where
  "checked su l0 ps w \<longleftrightarrow> session_ok su w \<and> grown l0 ps w"

lemma frames_checked: "frames su (checked su l0 ps)"
  unfolding frames_def checked_def
proof (intro allI impI)
  fix w w' :: "('a \<times> call list) world" and xs
  assume w: "the_log w' = the_log w \<and> se_ops w' = se_ops w \<and> wd_store w' = run_ops (su_sha su) (su_root su) xs (wd_store w)"
    and ok: "session_ok su w \<and> grown l0 ps w"
  have "session_ok su w'" by (rule framesD [OF frames_session, of su w]) (use w ok in auto)
  with w ok show "session_ok su w' \<and> grown l0 ps w'" by (simp add: grown_def)
qed

lemma checked_call:
  "call_ok (su_sha su) (su_plan su) c (the_log w) \<Longrightarrow> checked su l0 ps w \<Longrightarrow> checked su l0 ps (w\<lparr>wd_env := (e, c # the_log w)\<rparr>)"
  by (simp add: checked_def log_call grown_call)

interpretation checks: quiet "with_trace su p" "checked su l0 ps" for su p l0 ps
  by (rule quiet_frames [OF frames_checked], rule checked_call) auto

text \<open>The log only grows.\<close>

lemma grown_frames: "frames su (grown l0 ps)"
  by (simp add: frames_def grown_def)

interpretation growing: quiet "with_trace su p" "grown l0 ps" for su p l0 ps
  by (rule quiet_frames [OF grown_frames grown_call])

lemma both_yields:
  assumes "yields (session_ok su) m R" "yields (grown l0 ps) m (\<lambda>_. True)"
  shows "yields (checked su l0 ps) m R"
  using assms by (auto simp: yields_def checked_def)

lemma grown_record: "yields (grown l0 ps) (record_op (with_trace su p) op st) (\<lambda>_. True)"
proof -
  have app: "yields (grown l0 ps) (auth_append (with_trace su p) event payload h) (\<lambda>_. True)" for event payload h
    unfolding auth_append_def
    by (rule yields_seq [OF growing.lease_check_safe])
      (use storing_frames [OF grown_frames stored_append] in simp)
  show ?thesis unfolding record_op_def Let_def by (intro app safe TrueI) (simp add: grown_def)
qed

lemma grown_receipt: "yields (grown l0 ps) (append_receipt (with_trace su p) payload) (\<lambda>_. True)"
proof -
  have app: "yields (grown l0 ps) (auth_append (with_trace su p) event payload h) (\<lambda>_. True)" for event h
    unfolding auth_append_def
    by (rule yields_seq [OF growing.lease_check_safe])
      (use storing_frames [OF grown_frames stored_append] in simp)
  show ?thesis unfolding append_receipt_def by (intro app safe TrueI) (simp add: grown_def)
qed

lemma grown_logging: "yields (grown l0 ps) (on_env (logging c m)) (\<lambda>_. True)"
  by (rule call_yields) (rule grown_call)

lemma grown_publish: "yields (grown l0 ps) (publish_new (with_trace su p) temp op) (\<lambda>_. True)"
proof -
  have "yields (grown l0 ps) (publishing (with_trace su p) temp path t) (\<lambda>_. True)" for path t
    unfolding publishing_def by (simp only: with_trace_simps traced_simps) (intro grown_logging safe)
  moreover have "yields (grown l0 ps) (matches (with_trace su p) temp op) (\<lambda>_. True)"
    unfolding matches_def by (simp only: with_trace_simps traced_simps) (intro grown_logging safe TrueI)
  ultimately show ?thesis unfolding publish_new_def by (intro safe TrueI)
qed

interpretation completions: delivering "with_trace su p" "checked su l0 ps" "\<lambda>_. True" for su p l0 ps
proof
  show "checked su l0 ps w \<Longrightarrow> plan_closed (su_plan (with_trace su p))" for w
    by (simp add: checked_def session_ok_def trace_ok_def)
  show "checked su l0 ps w \<Longrightarrow> map_of (se_ops w) path = Some op \<Longrightarrow> good (with_trace su p) (\<lambda>_. True) op \<and> to_path op = path" for w path op
    unfolding checked_def by (rule deliveries.known) simp_all
  show "checked su l0 ps w \<Longrightarrow> checked su l0 ps (w\<lparr>wd_fresh := k\<rparr>)" for w k by (erule framesD' [OF frames_checked]) simp_all
  show "checked su l0 ps w \<Longrightarrow> checked su l0 ps (w\<lparr>se_verified := ts\<rparr>)" for w ts by (erule framesD' [OF frames_checked]) simp_all
  show "checked su l0 ps w \<Longrightarrow> checked su l0 ps (w\<lparr>se_terminal := b\<rparr>)" for w b by (erule framesD' [OF frames_checked]) simp_all
  show "good (with_trace su p) (\<lambda>_. True) (op\<lparr>to_state := st\<rparr>) \<Longrightarrow>
      yields (checked su l0 ps) (record_op (with_trace su p) op st) (\<lambda>_. True)" for op st
    by (rule both_yields [OF deliveries.record_kept grown_record])
  show "yields (checked su l0 ps) (append_receipt (with_trace su p)
      (receipt_json (su_sha (with_trace su p)) (su_plan (with_trace su p)) (su_tx (with_trace su p)) files)) (\<lambda>_. True)" for files
    by (rule both_yields [OF deliveries.receipt_kept grown_receipt])
  show "good (with_trace su p) (\<lambda>_. True) op \<Longrightarrow> to_kind op = KDirectory \<Longrightarrow>
      yields (checked su l0 ps) (on_env (po_mkdir (su_port (with_trace su p)) (to_path op) (to_token op))) (\<lambda>_. True)" for op
    by (rule both_yields [OF deliveries.mkdir_kept]) (simp_all add: grown_logging)
  show "good (with_trace su p) (\<lambda>_. True) op \<Longrightarrow> to_temporary op = Some temp \<Longrightarrow>
      yields (checked su l0 ps) (on_env (po_create (su_port (with_trace su p)) temp (to_token op))) (\<lambda>_. True)" for op temp
    by (rule both_yields [OF deliveries.create_kept]) (simp_all add: grown_logging)
  show "good (with_trace su p) (\<lambda>_. True) op \<Longrightarrow> to_temporary op = Some temp \<Longrightarrow>
      yields (checked su l0 ps) (on_env (po_append (su_port (with_trace su p)) temp (to_token op) data)) (\<lambda>_. True)" for op temp data
    by (rule both_yields [OF deliveries.append_kept]) (simp_all add: grown_logging)
  show "good (with_trace su p) (\<lambda>_. True) op \<Longrightarrow> to_temporary op = Some temp \<Longrightarrow>
      yields (checked su l0 ps) (on_env (po_discard (su_port (with_trace su p)) temp (to_token op))) (\<lambda>_. True)" for op temp
    by (rule both_yields [OF deliveries.discard_kept]) (simp_all add: grown_logging)
  show "good (with_trace su p) (\<lambda>_. True) op \<Longrightarrow> to_temporary op = Some temp \<Longrightarrow>
      yields (checked su l0 ps) (publish_new (with_trace su p) temp op) (\<lambda>_. True)" for op temp
    by (rule both_yields [OF deliveries.publish_kept grown_publish])
  show "part \<in> set (po_opening (su_port (with_trace su p)) s) \<Longrightarrow> yields (checked su l0 ps) (on_env part) (\<lambda>_. True)" for part s
    by (rule both_yields [OF deliveries.opening_kept]) (auto simp: grown_logging)
  show "yields (checked su l0 ps) (on_env (po_read (su_port (with_trace su p)) path)) (\<lambda>_. True)" for path
    by (rule both_yields [OF deliveries.read_kept]) (simp add: grown_logging)
  show "yields (checked su l0 ps) (on_env (po_flush (su_port (with_trace su p)) path)) (\<lambda>_. True)" for path
    by (rule both_yields [OF deliveries.flush_kept]) (simp add: grown_logging)
  show "yields (checked su l0 ps) (on_env (po_list (su_port (with_trace su p)) path)) (\<lambda>_. True)" for path
    by (rule both_yields [OF deliveries.list_kept]) (simp add: grown_logging)
  show "yields (checked su l0 ps) (on_env (po_open (su_port (with_trace su p)) s)) (\<lambda>_. True)" for s
    by (rule both_yields [OF deliveries.open_kept]) (simp add: grown_logging)
  show "yields (checked su l0 ps) (on_env (po_close (su_port (with_trace su p)) s)) (\<lambda>_. True)" for s
    by (rule both_yields [OF deliveries.close_kept]) (simp add: grown_logging)
  show "yields (checked su l0 ps) (end_session (with_trace su p)) (\<lambda>_. True)"
    by (rule both_yields [OF deliveries.end_kept]) (simp add: grown_logging end_session_def)
qed simp_all

lemma results: "yields P m R \<Longrightarrow> runs P m (\<lambda>x w. P w \<and> R x) (\<lambda>_. True)"
  unfolding runs_yields by (erule runs_conseq) simp_all

lemma grown_weaken: "grown l0 (p # ps) w \<Longrightarrow> (\<And>c. p c \<Longrightarrow> q c) \<Longrightarrow> grown l0 (q # ps) w"
  by (auto simp: grown_def list_ex_iff)

definition read_fit :: "'e session \<Rightarrow> str \<Rightarrow> transfer_op \<Rightarrow> call \<Rightarrow> bool" where
  "read_fit su path op c \<longleftrightarrow> (\<exists>r. c = WasRead path (Some r) \<and> fits su op (reading_data r))"

lemma read_grown:
  "runs (checked su l0 ps) (on_env (po_read (su_port (with_trace su p)) path))
     (\<lambda>r. checked su l0 ((\<lambda>c. c = WasRead path (Some r)) # ps)) (\<lambda>_. True)"
  unfolding runs_def
proof (intro allI impI)
  fix w :: "('a \<times> call list) world"
  assume w: "checked su l0 ps w"
  obtain x e where m: "po_read p path (fst (wd_env w)) = (x, e)" by fastforce
  show "case on_env (po_read (su_port (with_trace su p)) path) w of (Inl e, w') \<Rightarrow> True
      | (Inr r, w') \<Rightarrow> checked su l0 ((\<lambda>c. c = WasRead path (Some r)) # ps) w'"
  proof (cases x)
    case (Inl f)
    with m show ?thesis by (simp add: on_env_def logging_def)
  next
    case (Inr r)
    let ?w' = "w\<lparr>wd_env := (e, WasRead path (Some r) # the_log w)\<rparr>"
    have "checked su l0 ps ?w'" by (rule checked_call [OF _ w]) simp
    moreover have "grown l0 ((\<lambda>c. c = WasRead path (Some r)) # ps) ?w'"
    proof -
      from w obtain pre where "the_log w = pre @ l0" "list_all (\<lambda>p. list_ex p pre) ps" by (auto simp: checked_def grown_def)
      then show ?thesis by (auto simp: grown_def list_all_iff intro!: exI [of _ "WasRead path (Some r) # pre"])
    qed
    ultimately have "checked su l0 ((\<lambda>c. c = WasRead path (Some r)) # ps) ?w'" by (simp add: checked_def)
    then show ?thesis using m Inr by (simp add: on_env_def logging_def the_log_def)
  qed
qed

lemma absorb_grown: "yields (checked su l0 ps) (absorb (with_trace su p) (rd_pieces r) (rd_fail r) []) (\<lambda>data. data = reading_data r)"
  using checks.absorb_safe [of su l0 ps p "rd_pieces r" "rd_fail r" "[]"]
  unfolding yields_def by (auto simp: reading_data_def dest: absorb_fst)

lemma matches_grown:
  "runs (checked su l0 ps) (matches (with_trace su p) path op)
     (\<lambda>same w. checked su l0 ps w \<and> (same \<longrightarrow> checked su l0 (read_fit su path op # ps) w)) (\<lambda>_. True)"
  unfolding matches_def
proof (rule runs_andthen [OF read_grown], rule runs_andthen [OF results [OF absorb_grown]], rule runs_assume,
    rule runs_andthen [OF results [OF checks.boundary_safe]], rule runs_ret)
  fix r data x and w :: "('a \<times> call list) world"
  assume d: "data = reading_data r" and w: "checked su l0 ((\<lambda>c. c = WasRead path (Some r)) # ps) w \<and> True"
  then have "checked su l0 ps w" by (auto simp: checked_def grown_def)
  moreover have "checked su l0 (read_fit su path op # ps) w" if "fits su op data"
    using w d that by (auto simp: checked_def read_fit_def elim!: grown_weaken)
  ultimately show "checked su l0 ps w \<and> (fits (with_trace su p) op data \<longrightarrow> checked su l0 (read_fit su path op # ps) w)"
    by (simp add: fits_def)
qed

text \<open>The operation of a final file, and its entry in the receipt.\<close>

lemma final_file:
  assumes w: "session_ok su w" and a: "a \<in> set (pv_closure (plan_proposal (su_plan su)))"
    and op: "map_of (se_ops w) (artifact_target (su_plan su) a) = Some op" and src: "json_true (to_source op)"
  shows "to_size op = ar_size a" "to_sha op = ar_sha a" "approved_source a (to_source op)"
proof -
  have c: "plan_closed (su_plan su)" using w by (simp add: session_ok_def trace_ok_def)
  have f: "operation_fault (su_plan su) op = None" "to_path op = artifact_target (su_plan su) a"
    using w map_of_SomeD [OF op] by (auto simp: session_ok_def ops_ok_def list_all_iff)
  note at = artifact_at_target [OF c a]
  have k: "to_kind op = KFile"
    using f planned_artifact [OF c] at unfolding operation_fault_None by metis
  show "to_size op = ar_size a" "to_sha op = ar_sha a" "approved_source a (to_source op)"
    using f at k src by (simp_all add: operation_fault_None planned_def)
qed

definition receipt_entry :: "slice_plan \<Rightarrow> artifact \<Rightarrow> json \<Rightarrow> bool" where
  "receipt_entry plan a v \<longleftrightarrow> (\<exists>source. approved_source a source \<and> v = file_receipt plan a source)"

lemma grown_subset: "grown l0 ps w \<Longrightarrow> set qs \<subseteq> set ps \<Longrightarrow> grown l0 qs w"
  by (auto simp: grown_def list_all_iff)

lemma checked_matches:
  assumes "\<And>c. read_fit su path op c \<Longrightarrow> q c"
  shows "runs (checked su l0 ps) (matches (with_trace su p) path op)
    (\<lambda>same w. checked su l0 ps w \<and> (same \<longrightarrow> checked su l0 (q # ps) w)) (\<lambda>_. True)"
  by (rule runs_conseq [OF matches_grown]) (auto simp: checked_def elim: grown_weaken intro: assms)

lemma verify_found_runs:
  assumes op: "to_size op = ar_size a" "to_sha op = ar_sha a" "approved_source a (to_source op)"
    and path: "path = artifact_target (su_plan su) a"
  shows "runs (checked su l0 ps) (verify_found (with_trace su p) path (Some op))
    (\<lambda>f w. checked su l0 (reads_back (su_sha su) (su_plan su) a # ps) w \<and> receipt_entry (su_plan su) a f) (\<lambda>_. True)"
proof -
  let ?rb = "reads_back (su_sha su) (su_plan su) a"
  have fit: "read_fit su path op c \<Longrightarrow> ?rb c" for c using op path by (auto simp: read_fit_def reads_back_def fits_def)
  have matched: "runs (\<lambda>w. checked su l0 ps w \<and> True) (matches (with_trace su p) path op)
      (\<lambda>same w. checked su l0 ps w \<and> (same \<longrightarrow> checked su l0 (?rb # ps) w)) (\<lambda>_. True)"
    using checked_matches [OF fit] by simp
  have entry: "receipt_entry (su_plan su) a (JObj [(''path'', JStr path), (''sha256'', JStr (to_sha op)),
      (''size'', JInt (to_size op)), (''source'', to_source op)])"
    using op path by (auto simp: receipt_entry_def file_receipt_def)
  show ?thesis
    unfolding verify_found_def option.case
    by (rule runs_if, rule runs_refusing, rule TrueI, rule runs_andthen [OF results [OF checks.owned_safe]],
        rule runs_if, rule runs_refusing, rule TrueI, rule runs_andthen [OF matched],
        rule runs_if, rule runs_refusing, rule TrueI, rule runs_ret)
      (simp add: entry)
qed

lemma verify_file_runs:
  assumes a: "a \<in> set (pv_closure (plan_proposal (su_plan su)))"
  shows "runs (checked su l0 ps) (verify_file (with_trace su p) a)
    (\<lambda>f w. checked su l0 (reads_back (su_sha su) (su_plan su) a # ps) w \<and> receipt_entry (su_plan su) a f) (\<lambda>_. True)"
  unfolding verify_file_def Let_def with_trace_simps
proof (rule runs_getting)
  fix found :: "transfer_op option"
  let ?path = "artifact_target (su_plan su) a"
  let ?Q = "\<lambda>f w. checked su l0 (reads_back (su_sha su) (su_plan su) a # ps) w \<and> receipt_entry (su_plan su) a f"
  define ok where "ok \<longleftrightarrow> (\<forall>op. found = Some op \<longrightarrow> json_true (to_source op) \<longrightarrow>
    to_size op = ar_size a \<and> to_sha op = ar_sha a \<and> approved_source a (to_source op))"
  have pre: "checked su l0 ps w \<and> ok" if "checked su l0 ps w \<and> map_of (se_ops w) ?path = found" for w
    using that final_file [OF _ a] by (auto simp: checked_def ok_def)
  have "runs (checked su l0 ps) (verify_found (with_trace su p) ?path found) ?Q (\<lambda>_. True)" if ok
  proof (cases "\<exists>op. found = Some op \<and> json_true (to_source op)")
    case True
    with that show ?thesis by (auto simp: ok_def intro: verify_found_runs)
  next
    case False
    then show ?thesis by (cases found) (simp_all add: verify_found_def runs_raising runs_refusing)
  qed
  from runs_conseq [OF runs_assume [OF this] pre]
  show "runs (\<lambda>w. checked su l0 ps w \<and> map_of (se_ops w) ?path = found)
      (verify_found (with_trace su p) ?path found) ?Q (\<lambda>_. True)" by simp
qed

lemma verify_files_runs:
  assumes "set as \<subseteq> set (pv_closure (plan_proposal (su_plan su)))"
  shows "runs (checked su l0 ps) (verify_files (with_trace su p) as)
    (\<lambda>files w. checked su l0 (map (reads_back (su_sha su) (su_plan su)) as @ ps) w
       \<and> list_all2 (receipt_entry (su_plan su)) as files) (\<lambda>_. True)"
  using assms
proof (induction as arbitrary: ps)
  case Nil
  show ?case by (simp add: runs_ret)
next
  case (Cons a as)
  let ?rb = "reads_back (su_sha su) (su_plan su)"
  have a: "a \<in> set (pv_closure (plan_proposal (su_plan su)))" and as: "set as \<subseteq> set (pv_closure (plan_proposal (su_plan su)))"
    using Cons.prems by simp_all
  show ?case
    unfolding verify_files.simps
  proof (rule runs_andthen [OF verify_file_runs [OF a]], rule runs_assume, rule runs_andthen [OF Cons.IH [OF as]], rule runs_ret)
    fix f fs and w :: "('a \<times> call list) world"
    assume f: "receipt_entry (su_plan su) a f"
      and w: "checked su l0 (map ?rb as @ ?rb a # ps) w \<and> list_all2 (receipt_entry (su_plan su)) as fs"
    then have "checked su l0 (map ?rb (a # as) @ ps) w" by (auto simp: checked_def elim: grown_subset)
    with f w show "checked su l0 (map ?rb (a # as) @ ps) w \<and> list_all2 (receipt_entry (su_plan su)) (a # as) (f # fs)" by simp
  qed
qed


section \<open>The journal's receipt\<close>

text \<open>Rows of the journal are never removed.\<close>

lemma apply_op_rows: "set (st_journal s) \<subseteq> set (st_journal (apply_op sha root x s))"
proof (cases "(\<exists>plan approval admission tx. x = OpCreate plan approval admission tx)
    \<or> (\<exists>tx event payload expected a device. x = OpAppend tx event payload expected a device)")
  case False
  then have "same_journal s (apply_op sha root x s)" by (intro other_ops_journal) auto
  then show ?thesis by (simp add: same_journal_def)
next
  case True
  then show ?thesis
  proof (elim disjE exE)
    fix plan approval admission tx
    assume x: "x = OpCreate plan approval admission tx"
    show ?thesis
    proof (cases "create sha root plan approval admission tx s")
      case (Inr w)
      then have "create sha root plan approval admission tx s = Inr (fst w, snd w)" by simp
      from create_journal [OF this] Inr show ?thesis by (simp add: x apply_op_def settle_def)
    qed (simp add: x apply_op_def settle_def)
  next
    fix tx event payload expected a device
    assume x: "x = OpAppend tx event payload expected a device"
    show ?thesis
    proof (cases "append_event sha tx event payload expected a device s")
      case (Inr w)
      then have "append_event sha tx event payload expected a device s = Inr (fst w, snd w)" by simp
      then show ?thesis by (rule append_journal) (auto simp: x apply_op_def settle_def Inr)
    qed (simp add: x apply_op_def settle_def)
  qed
qed

lemma run_ops_rows: "set (st_journal s) \<subseteq> set (st_journal (run_ops sha root xs s))"
proof (induction xs arbitrary: s)
  case (Cons x xs)
  show ?case using apply_op_rows [of s sha root x] Cons.IH [of "apply_op sha root x s"] by simp
qed simp

definition journal_has :: "str \<Rightarrow> str \<Rightarrow> json \<Rightarrow> store \<Rightarrow> bool" where
  "journal_has tx event payload s \<longleftrightarrow> list_ex (\<lambda>j. jr_tx j = tx \<and> jr_event j = event \<and> jr_payload j = payload) (st_journal s)"

lemma journal_has_kept: "journal_has tx event payload s \<Longrightarrow> journal_has tx event payload (run_ops sha root xs s)"
  using run_ops_rows [of s sha root xs] by (auto simp: journal_has_def list_ex_iff)

lemma journal_has_new: "append_event sha tx event payload h a d s = Inr (v, s') \<Longrightarrow> journal_has tx event payload s'"
  by (erule append_journal) (simp add: journal_has_def)

definition receipted :: "('e \<times> call list) session \<Rightarrow> call list \<Rightarrow> (call \<Rightarrow> bool) list \<Rightarrow> json \<Rightarrow> ('e \<times> call list) world \<Rightarrow> bool" where
  "receipted su l0 ps v w \<longleftrightarrow> checked su l0 ps w \<and> journal_has (su_tx su) ''receipt'' v (wd_store w)"

lemma frames_receipted: "frames su (receipted su l0 ps v)"
  unfolding frames_def receipted_def
proof (intro allI impI)
  fix w w' :: "('a \<times> call list) world" and xs
  assume w: "the_log w' = the_log w \<and> se_ops w' = se_ops w \<and> wd_store w' = run_ops (su_sha su) (su_root su) xs (wd_store w)"
    and ok: "checked su l0 ps w \<and> journal_has (su_tx su) ''receipt'' v (wd_store w)"
  have "checked su l0 ps w'" by (rule framesD [OF frames_checked, of su l0 ps w]) (use w ok in auto)
  with w ok show "checked su l0 ps w' \<and> journal_has (su_tx su) ''receipt'' v (wd_store w')" by (simp add: journal_has_kept)
qed

lemma receipted_call:
  "call_ok (su_sha su) (su_plan su) c (the_log w) \<Longrightarrow> receipted su l0 ps v w \<Longrightarrow>
    receipted su l0 ps v (w\<lparr>wd_env := (e, c # the_log w)\<rparr>)"
  by (simp add: receipted_def checked_call)

interpretation receipts: quiet "with_trace su p" "receipted su l0 ps v" for su p l0 ps v
  by (rule quiet_frames [OF frames_receipted], rule receipted_call) auto


lemma storing_after:
  assumes "frames su I" "stored_by su f"
  shows "runs I (storing (with_trace su p) f) (\<lambda>x w. I w \<and> (\<exists>s. f s = Inr (x, wd_store w))) (\<lambda>_. True)"
  unfolding runs_def
proof (intro allI impI)
  fix w
  assume w: "I w"
  have "I (snd (storing (with_trace su p) f w))" by (rule yieldsD [OF storing_frames [OF assms] w])
  then show "case storing (with_trace su p) f w of (Inl e, w') \<Rightarrow> True
      | (Inr x, w') \<Rightarrow> I w' \<and> (\<exists>s. f s = Inr (x, wd_store w'))"
    by (auto simp: storing_def split: sum.splits prod.splits)
qed

lemma append_receipt_runs:
  "runs (checked su l0 ps) (append_receipt (with_trace su p) v) (\<lambda>_. receipted su l0 ps v) (\<lambda>_. True)"
proof -
  have app: "runs (checked su l0 ps) (auth_append (with_trace su p) ''receipt'' v h) (\<lambda>_. receipted su l0 ps v) (\<lambda>_. True)" for h
    unfolding auth_append_def with_trace_simps
    by (rule runs_andthen [OF results [OF checks.lease_check_safe]], rule runs_assume,
        rule runs_conseq [OF storing_after [OF frames_checked stored_append]])
      (auto simp: receipted_def intro: journal_has_new)
  show ?thesis
    unfolding append_receipt_def
  proof (rule runs_getting, rule runs_andthen)
    fix h
    show "runs (\<lambda>w. checked su l0 ps w \<and> se_head w = h) (auth_append (with_trace su p) ''receipt'' v h)
        (\<lambda>_. receipted su l0 ps v) (\<lambda>_. True)"
      by (rule runs_conseq [OF app]) simp_all
  next
    fix h
    show "runs (receipted su l0 ps v) (changing (se_head_update (\<lambda>_. Some h))) (\<lambda>_. receipted su l0 ps v) (\<lambda>_. True)"
      by (rule runs_changing, erule framesD' [OF frames_receipted]) simp_all
  qed
qed

text \<open>The last step: the transaction is complete and the lease is gone.\<close>

definition finished :: "('e \<times> call list) session \<Rightarrow> call list \<Rightarrow> (call \<Rightarrow> bool) list \<Rightarrow> json \<Rightarrow> ('e \<times> call list) world \<Rightarrow> bool" where
  "finished su l0 ps v w \<longleftrightarrow> receipted su l0 ps v w \<and> phase_at (wd_store w) (su_tx su) = Some PComplete \<and> \<not> wd_lease w"

lemma complete_moves_phase:
  "complete sha a d s = Inr (x, s') \<Longrightarrow> phase_at s' (at_owner a) = Some PComplete"
  by (erule complete_Inr) (simp add: phase_at_def set_row_def)

lemma auth_complete_runs:
  assumes "at_owner (su_attempt su) = su_tx su"
  shows "runs (receipted su l0 ps v) (auth_complete (with_trace su p)) (\<lambda>_. finished su l0 ps v) (\<lambda>_. True)"
  unfolding auth_complete_def with_trace_simps
proof (rule runs_andthen [OF results [OF receipts.lease_check_safe]], rule runs_assume,
    rule runs_andthen [OF storing_after [OF frames_receipted stored_complete]])
  fix x
  show "runs (\<lambda>w. receipted su l0 ps v w \<and> (\<exists>s. complete (su_sha su) (su_attempt su) (su_device su) s = Inr (x, wd_store w)))
      lease_close (\<lambda>_. finished su l0 ps v) (\<lambda>_. True)"
    unfolding lease_close_def
  proof (rule runs_changing, elim conjE exE)
    fix w :: "('a \<times> call list) world" and s
    assume w: "receipted su l0 ps v w" and s: "complete (su_sha su) (su_attempt su) (su_device su) s = Inr (x, wd_store w)"
    have "receipted su l0 ps v (w\<lparr>wd_lease := False\<rparr>)" by (rule framesD' [OF frames_receipted w]) simp_all
    with complete_moves_phase [OF s] show "finished su l0 ps v (w\<lparr>wd_lease := False\<rparr>)" by (simp add: finished_def assms)
  qed
qed

lemma finish_runs:
  assumes "at_owner (su_attempt su) = su_tx su"
  shows "runs (checked su l0 []) (finish (with_trace su p))
    (\<lambda>_ w. \<exists>files. list_all2 (receipt_entry (su_plan su)) (pv_closure (plan_proposal (su_plan su))) files
       \<and> finished su l0 (map (reads_back (su_sha su) (su_plan su)) (pv_closure (plan_proposal (su_plan su))))
           (receipt_json (su_sha su) (su_plan su) (su_tx su) files) w) (\<lambda>_. True)"
proof -
  let ?as = "pv_closure (plan_proposal (su_plan su))"
  let ?ps = "map (reads_back (su_sha su) (su_plan su)) ?as"
  have files: "runs (checked su l0 []) (verify_files (with_trace su p) ?as)
      (\<lambda>files w. checked su l0 ?ps w \<and> list_all2 (receipt_entry (su_plan su)) ?as files) (\<lambda>_. True)"
    using verify_files_runs [of ?as su l0 "[]" p] by simp
  have tail: "runs (checked su l0 ?ps) (andthen (audit_layout (with_trace su p)) (\<lambda>_.
      andthen (deliver_record (with_trace su p) (receipt_path (su_plan su)) KReceipt v) (\<lambda>_.
      andthen (append_receipt (with_trace su p) v) (\<lambda>_.
      andthen (whenever (session_only (su_plan su)) (end_session (with_trace su p))) (\<lambda>_. auth_complete (with_trace su p))))))
    (\<lambda>_. finished su l0 ?ps v) (\<lambda>_. True)" if "v = receipt_json (su_sha su) (su_plan su) (su_tx su) files" for v files
  proof -
    have rec: "yields (checked su l0 ?ps) (deliver_record (with_trace su p) (receipt_path (su_plan su)) KReceipt v) (\<lambda>_. True)"
      by (rule completions.deliver_record_safe) (auto simp: planned_def that)
    have last: "yields (receipted su l0 ?ps v) (whenever (session_only (su_plan su)) (end_session (with_trace su p))) (\<lambda>_. True)"
      by (intro safe TrueI) (simp add: end_session_def call_yields receipted_call)
    show ?thesis
      by (rule runs_andthen [OF results [OF completions.audit_layout_safe]], rule runs_assume,
          rule runs_andthen [OF results [OF rec]], rule runs_assume,
          rule runs_andthen [OF append_receipt_runs], rule runs_andthen [OF results [OF last]], rule runs_assume,
          rule auth_complete_runs [OF assms])
  qed
  show ?thesis
    unfolding finish_def with_trace_simps Let_def
    by (rule runs_andthen [OF results [OF completions.verify_control_safe]], rule runs_assume,
        rule runs_andthen [OF results [OF checks.auth_transition_safe]], rule runs_assume,
        rule runs_andthen [OF files], rule runs_assume,
        rule runs_conseq [OF tail [OF refl]]) auto
qed


section \<open>Properties\<close>

text \<open>C10: Completion means verified: when \<open>_finish\<close> returns, after any number of steps of a started
  session, every artifact of the sealed plan has been read back from its final path since the
  method began, with the sealed length and digest; the journal holds a receipt that lists exactly
  these files, each with its sealed size and digest and one of its sealed sources; the transaction
  is complete in the store, and the lease is released.\<close>

theorem finish_verifies:
  assumes "load (su_sha su) (wd_store w) (su_tx su) = Inr plan" "plan_closed plan" "the_log w = []"
    and "start (with_trace su p) w = (Inr (Inr su'), w1)"
    and "finish su' (snd (run_steps n su' w1)) = (Inr (), w2)"
  shows "read_back (su_sha su) plan (pv_closure (plan_proposal plan)) (since (the_log (snd (run_steps n su' w1))) w2)
    \<and> (\<exists>files. list_all2 (receipt_entry plan) (pv_closure (plan_proposal plan)) files
        \<and> journal_has (su_tx su) ''receipt'' (receipt_json (su_sha su) plan (su_tx su) files) (wd_store w2))
    \<and> phase_at (wd_store w2) (su_tx su) = Some PComplete \<and> \<not> wd_lease w2"
proof -
  let ?su = "su\<lparr>su_plan := plan\<rparr>" and ?w = "snd (run_steps n su' w1)"
  have "trace_ok ?su w" using assms by (simp add: trace_ok_def bound_plan_def)
  from runsD [OF start_runs [OF refl] this assms(4)] obtain t where
    su': "su' = with_trace (attempting ?su t) p" and ok: "session_ok ?su w1" by (auto simp: started_def)
  from ok have "session_ok (attempting ?su t) w1" by simp
  from yieldsD [OF deliveries.run_steps_safe this, of n p] have "session_ok (attempting ?su t) ?w" by (simp add: su')
  then have c: "checked (attempting ?su t) (the_log ?w) [] ?w" by (simp add: checked_def grown_def)
  have owner: "at_owner (su_attempt (attempting ?su t)) = su_tx (attempting ?su t)" by simp
  from assms(5) have "finish (with_trace (attempting ?su t) p) ?w = (Inr (), w2)" by (simp add: su')
  from runsD [OF finish_runs [OF owner] c this] obtain files where
    files: "list_all2 (receipt_entry plan) (pv_closure (plan_proposal plan)) files"
    and fin: "finished (attempting ?su t) (the_log ?w) (map (reads_back (su_sha su) plan) (pv_closure (plan_proposal plan)))
        (receipt_json (su_sha su) plan (su_tx su) files) w2" by auto
  from fin have "grown (the_log ?w) (map (reads_back (su_sha su) plan) (pv_closure (plan_proposal plan))) w2"
    by (simp add: finished_def receipted_def checked_def)
  from grown_since [OF this] files fin show ?thesis
    by (auto simp: finished_def receipted_def read_back_def list.pred_map comp_def)
qed

end
