(* ===== verification/SlicePaths.thy ===== *)
theory SlicePaths
  imports SliceSteps
begin

text \<open>
  Paths as lists of parts: what joins and splits back, the directories above a path, and the
  staging names beside an object, which stand in the same directory.
\<close>

definition part_ok :: "str \<Rightarrow> bool" where
  "part_ok c \<longleftrightarrow> c \<noteq> [] \<and> c \<noteq> ''.'' \<and> CHR ''/'' \<notin> set c"

lemma py_split_free: "w \<in> set (py_split c s) \<Longrightarrow> c \<notin> set w"
proof (induction s arbitrary: w)
  case (Cons x xs)
  then show ?case by (cases "py_split c xs") (auto split: if_splits)
qed simp

lemma path_parts_ok: "w \<in> set (path_parts s) \<Longrightarrow> part_ok w"
  by (auto simp: path_parts_def part_ok_def dest: py_split_free)

lemma path_parts_part: "part_ok w \<Longrightarrow> path_parts w = [w]"
  by (simp add: path_parts_def part_ok_def py_split_single)

lemma path_parts_join: "list_all part_ok ws \<Longrightarrow> path_parts (join_path ws) = ws"
proof (induction ws)
  case Nil
  then show ?case by (simp add: join_path_def path_parts_def py_split_single)
next
  case (Cons w ws)
  show ?case
  proof (cases ws)
    case Nil
    with Cons.prems show ?thesis by (simp add: join_path_def path_parts_part)
  next
    case (Cons v vs)
    have "join_path (w # ws) = w @ CHR ''/'' # join_path ws"
      using join_path_append [of "[w]" ws] Cons by (simp add: join_path_def)
    with Cons.IH Cons.prems show ?thesis by (simp add: path_parts_append path_parts_part)
  qed
qed

lemma parts_all: "list_all part_ok (path_parts s)"
  by (simp add: list_all_iff path_parts_ok)

lemma join_path_inj: "list_all part_ok ws \<Longrightarrow> list_all part_ok vs \<Longrightarrow> join_path ws = join_path vs \<Longrightarrow> ws = vs"
  by (metis path_parts_join)

lemma join_path_dot: "list_all part_ok ws \<Longrightarrow> join_path ws = ''.'' \<longleftrightarrow> ws = []"
  using join_path_inj [of ws "[]"] by (auto simp: join_path_def)

text \<open>The proper directories above a path, nearest first.\<close>

definition above :: "str list \<Rightarrow> str list" where
  "above ws = map (\<lambda>n. join_path (take n ws)) (rev [1..<length ws])"

lemma above_in: "q \<in> set (above ws) \<longleftrightarrow> (\<exists>n. 0 < n \<and> n < length ws \<and> q = join_path (take n ws))"
  by (auto simp: above_def image_iff Suc_le_eq)

lemma proper_parents_above: "proper_parents s = above (path_parts s)"
proof -
  let ?ws = "path_parts s"
  have keep: "join_path (take n ?ws) \<noteq> ''.''" if "n \<in> {1..<length ?ws}" for n
  proof -
    have "list_all part_ok (take n ?ws)" using parts_all [of s] by (auto simp: list_all_iff dest: in_set_takeD)
    from join_path_dot [OF this] that show ?thesis by auto
  qed
  have drop: "join_path (take 0 ?ws) = ''.''" by (simp add: join_path_def)
  have "parents s = map (\<lambda>n. join_path (take n ?ws)) (rev [0..<length ?ws])" by (simp add: parents_def Let_def)
  also have "rev [0..<length ?ws] = (if ?ws = [] then [] else rev [1..<length ?ws] @ [0])"
    by (cases ?ws) (simp_all add: upt_conv_Cons del: upt_Suc)
  finally show ?thesis
    using keep drop by (auto simp: proper_parents_def above_def filter_empty_conv intro!: filter_True)
qed

lemma proper_parents_join: "list_all part_ok ws \<Longrightarrow> proper_parents (join_path ws) = above ws"
  by (simp add: proper_parents_above path_parts_join)

lemma above_above:
  assumes "list_all part_ok ws" "n \<le> length ws"
  shows "set (proper_parents (join_path (take n ws))) = {join_path (take m ws) | m. 0 < m \<and> m < n}"
proof -
  have "list_all part_ok (take n ws)" using assms(1) by (auto simp: list_all_iff dest: in_set_takeD)
  moreover have "take m (take n ws) = take m ws" if "m < n" for m using that by (simp add: min_def)
  moreover have "length (take n ws) = n" using assms(2) by simp
  ultimately show ?thesis
    unfolding proper_parents_join [OF \<open>list_all part_ok (take n ws)\<close>] set_eq_iff above_in mem_Collect_eq by metis
qed

text \<open>The directories above a directory above a path are above the path.\<close>

lemma proper_parents_parts: "q \<in> set (proper_parents s) \<longleftrightarrow> (\<exists>n. 0 < n \<and> n < length (path_parts s) \<and> q = join_path (take n (path_parts s)))"
  by (simp add: proper_parents_above above_in)

lemma parents_prefix:
  assumes "i < length (rev (proper_parents s))"
  shows "set (proper_parents (rev (proper_parents s) ! i)) = set (take i (rev (proper_parents s)))"
proof -
  let ?ws = "path_parts s"
  have r: "rev (proper_parents s) = map (\<lambda>n. join_path (take n ?ws)) [1..<length ?ws]"
    by (simp add: proper_parents_above above_def rev_map)
  have i: "Suc i < length ?ws" using assms by (simp add: r)
  have "[1..<length ?ws] ! i = Suc i" using i by (simp del: upt_Suc)
  then have "rev (proper_parents s) ! i = join_path (take (Suc i) ?ws)" using i by (simp add: r)
  moreover have "set (take i (rev (proper_parents s))) = {join_path (take m ?ws) | m. 0 < m \<and> m < Suc i}"
    using i by (auto simp: r take_map image_iff simp del: upt_Suc)
  ultimately show ?thesis using above_above [OF parts_all, of "Suc i" s] i by simp
qed

text \<open>The directory of a path is the last of the directories above it.\<close>

lemma parent_above: "parent_of q = ''.'' \<or> parent_of q \<in> set (proper_parents q)"
proof (cases "length (path_parts q) \<le> 1")
  case True
  then have "butlast (path_parts q) = []" by (cases "path_parts q") auto
  then show ?thesis by (simp add: parent_of_def join_path_def)
next
  case False
  then have "0 < length (path_parts q) - 1" "length (path_parts q) - 1 < length (path_parts q)" by simp_all
  then show ?thesis unfolding parent_of_def proper_parents_parts butlast_conv_take by blast
qed

text \<open>The names of \<open>uuid4\<close> (\<open>_valid_owner_token\<close>), and a staging name.\<close>

definition token_ok :: "str \<Rightarrow> bool" where
  "token_ok t \<longleftrightarrow> hex_text 32 t"

lemma staging_part: "token_ok t \<Longrightarrow> part_ok (''.slice-'' @ t)"
proof -
  assume "token_ok t"
  then have "list_all is_hex t" by (simp add: token_ok_def hex_text_def)
  moreover have "\<not> is_hex (CHR ''/'')" by (simp add: is_hex_def)
  ultimately have "CHR ''/'' \<notin> set t" by (auto simp: list_all_iff)
  then show ?thesis unfolding part_ok_def by simp
qed

lemma staging_parts: "token_ok t \<Longrightarrow> path_parts (staging q t) = butlast (path_parts q) @ [''.slice-'' @ t]"
  unfolding staging_def beside_def
  by (rule path_parts_join, drule staging_part) (auto simp: list_all_iff path_parts_ok dest: in_set_butlastD)

lemma staging_parent: "token_ok t \<Longrightarrow> parent_of (staging q t) = parent_of q"
  by (simp add: parent_of_def staging_parts)

lemma take_butlast_snoc: "n < length ws \<Longrightarrow> take n (butlast ws @ [x]) = take n ws"
  by (simp add: take_butlast)

lemma staging_parents: "token_ok t \<Longrightarrow> path_parts q \<noteq> [] \<Longrightarrow> proper_parents (staging q t) = proper_parents q"
proof -
  assume t: "token_ok t" and q: "path_parts q \<noteq> []"
  have "length (butlast (path_parts q) @ [''.slice-'' @ t]) = length (path_parts q)" using q by (cases "path_parts q") simp_all
  then show ?thesis using q by (auto simp: proper_parents_above staging_parts [OF t] above_def take_butlast)
qed

end
