(* ===== verification/SliceHonest.thy ===== *)
theory SliceHonest
  imports SlicePaths SliceVerified SliceRefine
begin

text \<open>
  A destination and sources that do what their ports promise. \<open>view\<close> reads the destination: what
  stands at a path is the token of its owner, whether it is a directory, and its bytes. On such
  ports every function of a session succeeds, and the lemmas say what it leaves behind.
\<close>

type_synonym node = "str \<times> bool \<times> str"

type_synonym files = "str \<Rightarrow> node option"

abbreviation does :: "('w \<Rightarrow> bool) \<Rightarrow> ('w, 'a) run \<Rightarrow> ('a \<Rightarrow> 'w \<Rightarrow> bool) \<Rightarrow> bool" where
  "does P m Q \<equiv> runs P m Q (\<lambda>_. False)"

definition shown :: "node option \<Rightarrow> object_info option \<Rightarrow> bool" where
  "shown v i \<longleftrightarrow> (case v of None \<Rightarrow> i = None
     | Some (t, d, c) \<Rightarrow> (case i of None \<Rightarrow> False | Some x \<Rightarrow> oi_directory x = d \<and> oi_token x = Some t \<and> 0 \<le> oi_bytes x))"

section \<open>The destination port\<close>

text \<open>The directory of a path is in place.\<close>

definition housed :: "files \<Rightarrow> str \<Rightarrow> bool" where
  "housed V path \<longleftrightarrow> parent_of path = ''.'' \<or> (\<exists>t c. V (parent_of path) = Some (t, True, c))"

text \<open>
  The laws of \<open>DestinationPort\<close>, for the calls that its clients may make: objects are made in a
  directory that is there, under a creation token, files under the staging name of their token.
  Publication is atomic and never replaces; it may retain the staging name, as a hard link does,
  or move it, as a rename does.
\<close>

locale honest =
  fixes p :: "'e port" and view :: "'e \<Rightarrow> files"
  assumes check_ok: "does (\<lambda>e. view e = V) (po_check p plan n r) (\<lambda>_ e. view e = V)"
    and inspect_ok: "does (\<lambda>e. view e = V) (po_inspect p path) (\<lambda>i e. view e = V \<and> shown (V path) i)"
    and mkdir_ok: "V path = None \<Longrightarrow> housed V path \<Longrightarrow> token_ok t \<Longrightarrow>
      does (\<lambda>e. view e = V) (po_mkdir p path t) (\<lambda>_ e. view e = V(path \<mapsto> (t, True, [])))"
    and create_ok: "V (staging q t) = None \<Longrightarrow> housed V (staging q t) \<Longrightarrow> token_ok t \<Longrightarrow>
      does (\<lambda>e. view e = V) (po_create p (staging q t) t) (\<lambda>_ e. view e = V(staging q t \<mapsto> (t, False, [])))"
    and append_ok: "V (staging q t) = Some (t, False, c) \<Longrightarrow> token_ok t \<Longrightarrow>
      does (\<lambda>e. view e = V) (po_append p (staging q t) t data) (\<lambda>_ e. view e = V(staging q t \<mapsto> (t, False, c @ data)))"
    and discard_ok: "V (staging q t) = Some (t, False, c) \<Longrightarrow> token_ok t \<Longrightarrow>
      does (\<lambda>e. view e = V) (po_discard p (staging q t) t) (\<lambda>_ e. view e = V(staging q t := None))"
    and read_ok: "V path = Some (t, False, c) \<Longrightarrow>
      does (\<lambda>e. view e = V) (po_read p path) (\<lambda>r e. view e = V \<and> rd_fail r = None \<and> reading_data r = c)"
    and flush_ok: "path = ''.'' \<or> V path \<noteq> None \<Longrightarrow> does (\<lambda>e. view e = V) (po_flush p path) (\<lambda>_ e. view e = V)"
    and publish_ok: "V (staging path t) = Some (t, False, c) \<Longrightarrow> V path = None \<Longrightarrow> housed V path \<Longrightarrow> token_ok t \<Longrightarrow>
      does (\<lambda>e. view e = V) (po_publish p (staging path t) path t)
        (\<lambda>_ e. view e = V(path \<mapsto> (t, False, c)) \<or> view e = V(staging path t := None, path \<mapsto> (t, False, c)))"
    and list_ok: "does (\<lambda>e. view e = V) (po_list p root) (\<lambda>ps e. view e = V \<and> list_all (\<lambda>q. V q \<noteq> None) ps)"
    and begin_ok: "does (\<lambda>e. view e = V) (po_begin p) (\<lambda>_ e. view e = V)"
    and end_ok: "does (\<lambda>e. view e = V) (po_end p) (\<lambda>_ e. view e = V)"
    and lease_ok: "does (\<lambda>e. view e = V) (po_lease p) (\<lambda>free e. view e = V \<and> free)"
    and preflight_ok: "po_preflight p = Some ms \<Longrightarrow> m \<in> set ms \<Longrightarrow> does (\<lambda>e. view e = V) m (\<lambda>_ e. view e = V)"

text \<open>What a stream delivers to \<open>_read_chunk\<close>, short reads included: no read exceeds what is asked for.\<close>

inductive feeds :: "str list \<Rightarrow> str \<Rightarrow> bool" where
  feeds_end: "chunk ps None [] = (n, Inr ([], ps')) \<Longrightarrow> feeds ps []"
| feeds_more: "chunk ps None [] = (n, Inr (piece, ps')) \<Longrightarrow> piece \<noteq> [] \<Longrightarrow> feeds ps' data \<Longrightarrow> feeds ps (piece @ data)"

inductive_cases feedsE: "feeds ps data"

text \<open>A source serves an artifact: its work succeeds, its snapshot still shows the approved source, and
  its stream delivers bytes of the sealed size and digest.\<close>

definition serves :: "('e \<Rightarrow> files) \<Rightarrow> (str \<Rightarrow> str) \<Rightarrow> 'e port \<Rightarrow> artifact \<Rightarrow> source_evidence \<Rightarrow> bool" where
  "serves view sha p a s \<longleftrightarrow> (\<forall>V. (\<forall>part \<in> set (po_opening p s). does (\<lambda>e. view e = V) part (\<lambda>_ e. view e = V))
     \<and> does (\<lambda>e. view e = V) (po_close p s) (\<lambda>_ e. view e = V)
     \<and> does (\<lambda>e. view e = V) (po_open p s) (\<lambda>(snap, r) e. view e = V \<and> same_source sha a s snap = Inr True
         \<and> rd_fail r = None \<and> (\<exists>data. feeds (rd_pieces r) data \<and> int (length data) = ar_size a \<and> sha data = ar_sha a)))"

text \<open>A traced port is honest when the port is.\<close>

lemma does_logging:
  assumes "does (\<lambda>e. view e = V) m (\<lambda>x e. view e = V' \<and> R x)"
  shows "does (\<lambda>e. view (fst e) = V) (logging c m) (\<lambda>x e. view (fst e) = V' \<and> R x)"
  unfolding runs_def
proof (intro allI impI)
  fix e :: "'a \<times> call list"
  assume e: "view (fst e) = V"
  obtain r e' where m: "m (fst e) = (r, e')" by fastforce
  show "case logging c m e of (Inl _, w) \<Rightarrow> False | (Inr x, w) \<Rightarrow> view (fst w) = V' \<and> R x"
    using assms e m unfolding runs_def by (cases r) (auto simp: logging_def dest!: spec [of _ "fst e"])
qed

lemma does_logging_either:
  assumes "does (\<lambda>e. view e = V) m (\<lambda>_ e. view e = W \<or> view e = W')"
  shows "does (\<lambda>e. view (fst e) = V) (logging c m) (\<lambda>_ e. view (fst e) = W \<or> view (fst e) = W')"
  unfolding runs_def
proof (intro allI impI)
  fix e :: "'a \<times> call list"
  assume e: "view (fst e) = V"
  obtain r e' where m: "m (fst e) = (r, e')" by fastforce
  show "case logging c m e of (Inl _, w) \<Rightarrow> False | (Inr _, w) \<Rightarrow> view (fst w) = W \<or> view (fst w) = W'"
    using assms e m unfolding runs_def by (cases r) (auto simp: logging_def dest!: spec [of _ "fst e"])
qed

lemma does_logging_view: "does (\<lambda>e. view e = V) m (\<lambda>_ e. view e = V') \<Longrightarrow>
    does (\<lambda>e. view (fst e) = V) (logging c m) (\<lambda>_ e. view (fst e) = V')"
  using does_logging [of view V m V' "\<lambda>_. True"] by simp

lemma honest_traced:
  assumes h: "honest p view"
  shows "honest (traced p) (\<lambda>e. view (fst e))"
proof (rule honest.intro)
  show "does (\<lambda>e. view (fst e) = V) m (\<lambda>_ e. view (fst e) = V)" if "po_preflight (traced p) = Some ms" "m \<in> set ms" for ms m V
  proof -
    from that obtain ms' m' where m: "po_preflight p = Some ms'" "m' \<in> set ms'" "m = logging (\<lambda>_. Other) m'" by auto
    show ?thesis unfolding m(3) by (rule does_logging_view) (rule honest.preflight_ok [OF h m(1,2)])
  qed
  show "does (\<lambda>e. view (fst e) = V) (po_read (traced p) path) (\<lambda>r e. view (fst e) = V \<and> rd_fail r = None \<and> reading_data r = c)"
    if "V path = Some (t, False, c)" for V path t c
    unfolding traced_simps by (rule does_logging, rule honest.read_ok [OF h], rule that)
  show "does (\<lambda>e. view (fst e) = V) (po_list (traced p) root) (\<lambda>ps e. view (fst e) = V \<and> list_all (\<lambda>q. V q \<noteq> None) ps)" for V root
    unfolding traced_simps by (rule does_logging [OF honest.list_ok [OF h]])
  show "does (\<lambda>e. view (fst e) = V) (po_lease (traced p)) (\<lambda>free e. view (fst e) = V \<and> free)" for V
    unfolding traced_simps by (rule does_logging [OF honest.lease_ok [OF h]])
  show "does (\<lambda>e. view (fst e) = V) (po_publish (traced p) (staging path t) path t)
      (\<lambda>_ e. view (fst e) = V(path \<mapsto> (t, False, c)) \<or> view (fst e) = V(staging path t := None, path \<mapsto> (t, False, c)))"
    if "V (staging path t) = Some (t, False, c)" "V path = None" "housed V path" "token_ok t" for V path t c
    unfolding traced_simps by (rule does_logging_either [OF honest.publish_ok [OF h that]])
qed (simp_all add: does_logging_view does_logging honest.check_ok [OF h] honest.inspect_ok [OF h] honest.mkdir_ok [OF h]
    honest.create_ok [OF h] honest.append_ok [OF h] honest.flush_ok [OF h] honest.discard_ok [OF h]
    honest.begin_ok [OF h] honest.end_ok [OF h])

lemma serves_traced:
  assumes "serves view sha p a s"
  shows "serves (\<lambda>e. view (fst e)) sha (traced p) a s"
  using assms unfolding serves_def
  by (auto intro!: does_logging_view does_logging simp: case_prod_unfold)


section \<open>What a session knows\<close>

text \<open>An object belongs to an operation; the object of a complete operation is in place.\<close>

definition fit_node :: "transfer_op \<Rightarrow> node \<Rightarrow> bool" where
  "fit_node op v \<longleftrightarrow> fst v = to_token op \<and> fst (snd v) = (to_kind op = KDirectory)"

definition suits :: "files \<Rightarrow> str \<Rightarrow> transfer_op \<Rightarrow> bool" where
  "suits V q op \<longleftrightarrow> (\<forall>v. V q = Some v \<longrightarrow> fit_node op v)"

definition placed :: "'e session \<Rightarrow> files \<Rightarrow> transfer_op \<Rightarrow> bool" where
  "placed su V op \<longleftrightarrow> (\<exists>c. V (to_path op) = Some (to_token op, to_kind op = KDirectory, c)
     \<and> (to_kind op \<noteq> KDirectory \<longrightarrow> fits su op c))"

definition typed :: "'e session \<Rightarrow> transfer_op \<Rightarrow> bool" where
  "typed su op \<longleftrightarrow> planned (su_plan su) (to_path op) (to_kind op) (to_size op) (to_sha op)
     \<and> to_temporary op = (if to_kind op = KDirectory then None else Some (staging (to_path op) (to_token op)))
     \<and> (\<exists>n. to_token op = su_names su n) \<and> (to_kind op = KDirectory \<longrightarrow> to_size op = 0 \<and> to_sha op = '''')"

type_synonym op_map = "str \<Rightarrow> transfer_op option"

definition intact :: "'e session \<Rightarrow> files \<Rightarrow> op_map \<Rightarrow> bool" where
  "intact su V M \<longleftrightarrow> (\<forall>path op. M path = Some op \<longrightarrow> to_path op = path \<and> typed su op
     \<and> (to_state op = SComplete \<longrightarrow> placed su V op \<and> (to_kind op = KFile \<longrightarrow> json_true (to_source op))))"

text \<open>The dictionary \<open>paths\<close> knows every object, and the staging name of what is unfinished.\<close>

definition like :: "transfer_op \<Rightarrow> transfer_op option \<Rightarrow> bool" where
  "like op x \<longleftrightarrow> (case x of None \<Rightarrow> False | Some op' \<Rightarrow> to_token op' = to_token op \<and> to_kind op' = to_kind op)"

definition filed :: "files \<Rightarrow> op_map \<Rightarrow> op_map \<Rightarrow> bool" where
  "filed V M F \<longleftrightarrow> (\<forall>path op. M path = Some op \<longrightarrow> like op (F path)
       \<and> (to_state op \<noteq> SComplete \<longrightarrow> (\<forall>temp. to_temporary op = Some temp \<longrightarrow> like op (F temp))))
     \<and> (\<forall>q op. F q = Some op \<longrightarrow> suits V q op) \<and> (\<forall>q. V q \<noteq> None \<longrightarrow> F q \<noteq> None)"

definition running :: "'e session \<Rightarrow> phase \<Rightarrow> 'e world \<Rightarrow> bool" where
  "running su ph w \<longleftrightarrow> wd_lease w \<and> \<not> se_terminal w \<and> live (su_sha su) (wd_store w) (su_attempt su) (su_device su) ph
     \<and> ph \<in> {PTransferring, PVerifying} \<and> head (wd_store w) (su_tx su) = se_head w"

text \<open>The destination shows \<open>V\<close> and the operations are \<open>M\<close>.\<close>

definition here :: "('e \<Rightarrow> files) \<Rightarrow> 'e session \<Rightarrow> phase \<Rightarrow> files \<Rightarrow> op_map \<Rightarrow> 'e world \<Rightarrow> bool" where
  "here view su ph V M w \<longleftrightarrow> view (wd_env w) = V \<and> running su ph w \<and> map_of (se_ops w) = M \<and> intact su V M
     \<and> filed V M (map_of (se_paths w))"

lemma running_simps [simp]:
  "running su ph (w\<lparr>wd_turn := n\<rparr>) = running su ph w" "running su ph (w\<lparr>wd_fresh := n\<rparr>) = running su ph w"
  "running su ph (w\<lparr>wd_env := e\<rparr>) = running su ph w" "running su ph (set_usage t us w) = running su ph w"
  "running su ph (w\<lparr>se_verified := v\<rparr>) = running su ph w"
  "running su ph (w\<lparr>se_paths := f\<rparr>) = running su ph w" "running su ph (w\<lparr>se_ops := ops\<rparr>) = running su ph w"
  by (simp_all add: running_def set_usage_def)

lemma here_simps [simp]:
  "here view su ph V M (w\<lparr>wd_turn := n\<rparr>) = here view su ph V M w" "here view su ph V M (w\<lparr>wd_fresh := n\<rparr>) = here view su ph V M w"
  "here view su ph V M (set_usage t us w) = here view su ph V M w"
  "here view su ph V M (w\<lparr>se_verified := v\<rparr>) = here view su ph V M w"
  by (simp_all add: here_def) (simp add: set_usage_def)

lemma here_env: "here view su ph V M w \<Longrightarrow> view e = V \<Longrightarrow> here view su ph V M (w\<lparr>wd_env := e\<rparr>)"
  by (simp add: here_def)

text \<open>Rules for triples.\<close>

lemma does_lastly:
  assumes "does P m Q" "\<And>x. does (Q x) c (\<lambda>_. Q x)"
  shows "does P (lastly m c) Q"
  unfolding runs_def
proof (intro allI impI)
  fix w
  assume w: "P w"
  obtain v w' where m: "m w = (v, w')" by fastforce
  from assms(1) w m obtain x where x: "v = Inr x" "Q x w'" unfolding runs_def by (cases v) fastforce+
  obtain u w'' where c: "c w' = (u, w'')" by fastforce
  from assms(2) x(2) c have "case u of Inl _ \<Rightarrow> False | Inr _ \<Rightarrow> Q x w''" unfolding runs_def by (cases u) fastforce+
  with m c x show "case lastly m c w of (Inl e, w') \<Rightarrow> False | (Inr x, w') \<Rightarrow> Q x w'" by (cases u) (simp_all add: lastly_def)
qed

lemma does_each: "(\<And>x. x \<in> set xs \<Longrightarrow> does P (f x) (\<lambda>_. P)) \<Longrightarrow> does P (each f xs) (\<lambda>_. P)"
proof (induction xs)
  case (Cons x xs)
  show ?case unfolding each.simps by (rule runs_andthen [OF Cons.prems Cons.IH]) (simp_all add: Cons.prems)
qed (simp add: runs_ret)

lemma does_whenever: "(b \<Longrightarrow> does P m (\<lambda>_. P)) \<Longrightarrow> does P (whenever b m) (\<lambda>_. P)"
  by (cases b) (simp_all add: whenever_def runs_ret)

lemma does_pre: "(\<And>w. P w \<Longrightarrow> does (\<lambda>w'. w' = w) m Q) \<Longrightarrow> does P m Q"
  by (simp add: runs_def)

lemma does_absurd: "(\<And>w. \<not> P w) \<Longrightarrow> runs P m Q E"
  by (simp add: runs_def)

lemma does_catching:
  assumes "does P m Q"
  shows "does P (catching m h) Q"
  unfolding runs_def
proof (intro allI impI)
  fix w
  assume w: "P w"
  obtain r w' where m: "m w = (r, w')" by fastforce
  from assms w m have "case r of Inl e \<Rightarrow> False | Inr x \<Rightarrow> Q x w'" unfolding runs_def by fastforce
  with m show "case catching m h w of (Inl e, w') \<Rightarrow> False | (Inr x, w') \<Rightarrow> Q x w'" by (cases r) (simp_all add: catching_def)
qed

lemma does_env:
  assumes "does (\<lambda>e. view e = V) m (\<lambda>x e. view e = V' \<and> R x)" "\<And>w e. P w \<Longrightarrow> view e = V' \<Longrightarrow> J (w\<lparr>wd_env := e\<rparr>)"
    "\<And>w. P w \<Longrightarrow> view (wd_env w) = V"
  shows "does P (on_env m) (\<lambda>x w. J w \<and> R x)"
  unfolding runs_def
proof (intro allI impI)
  fix w
  assume w: "P w"
  obtain r e where m: "m (wd_env w) = (r, e)" by fastforce
  show "case on_env m w of (Inl _, w') \<Rightarrow> False | (Inr x, w') \<Rightarrow> J w' \<and> R x"
    using assms w m unfolding runs_def by (cases r) (auto simp: on_env_def dest!: spec [of _ "wd_env w"])
qed


section \<open>A session left alone\<close>

text \<open>No other process works on the store, and the staging names meet no name of the plan.\<close>

definition names_clear :: "slice_plan \<Rightarrow> str \<Rightarrow> bool" where
  "names_clear plan t \<longleftrightarrow> token_ok t
     \<and> list_all (\<lambda>q. staging q t \<notin> set (plan_outputs plan) \<union> set (plan_directories plan)) (plan_outputs plan)"

locale undisturbed = honest "su_port su" view for su :: "'e session" and view :: "'e \<Rightarrow> files" +
  assumes others: "su_others su k = []"
    and never_busy: "\<not> su_busy su k"
    and owner_ok: "at_owner (su_attempt su) = su_tx su"
    and closed: "plan_closed (su_plan su)"
    and outputs_ok: "q \<in> set (plan_outputs (su_plan su)) \<Longrightarrow> path_parts q \<noteq> []"
    and clear: "names_clear (su_plan su) (su_names su n)"
begin

lemma turned_ok: "turned su w = w\<lparr>wd_turn := wd_turn w + 1\<rparr>"
  by (simp add: turned_def others)

lemma storing_ok: "storing su f w = (case f (wd_store w) of
     Inl e \<Rightarrow> (Inl (failure_of e), w\<lparr>wd_turn := wd_turn w + 1\<rparr>)
   | Inr (x, s) \<Rightarrow> (Inr x, w\<lparr>wd_turn := wd_turn w + 1, wd_store := s\<rparr>))"
  by (simp add: storing_def turned_ok never_busy split: sum.split)

lemma asking_ok: "asking su f w = (case f (wd_store w) of
     Inl e \<Rightarrow> (Inl (failure_of e), w\<lparr>wd_turn := wd_turn w + 1\<rparr>)
   | Inr x \<Rightarrow> (Inr x, w\<lparr>wd_turn := wd_turn w + 1\<rparr>))"
  by (simp add: asking_def storing_ok split: sum.split)

lemma running_attempt:
  assumes "running su ph w"
  shows "require_attempt (wd_store w) (su_attempt su) (su_device su) allow = Inr (ph, False)"
  using assms by (intro require_attempt_live [where sha = "su_sha su"]) (auto simp: running_def running_iff)

lemma poll_ok: "does (here view su ph V M) (poll su) (\<lambda>_. here view su ph V M)"
proof (rule does_pre)
  fix w
  assume w: "here view su ph V M w"
  then have r: "running su ph w" by (simp add: here_def)
  then have "poll su w = (Inr (), w\<lparr>wd_turn := wd_turn w + 1\<rparr>)"
    by (simp add: poll_def auth_boundary_def lease_check_def andthen_def getting_def ret_def asking_ok guard_def
        running_attempt owner_ok) (simp add: running_def)
  with w show "does (\<lambda>w'. w' = w) (poll su) (\<lambda>_. here view su ph V M)" by (simp add: runs_def)
qed

lemma env_ok:
  assumes "does (\<lambda>e. view e = V) m (\<lambda>x e. view e = V \<and> R x)"
  shows "does (here view su ph V M) (on_env m) (\<lambda>x w. here view su ph V M w \<and> R x)"
  by (rule does_env [OF assms]) (simp_all add: here_env, simp add: here_def)

lemma env_ok': "does (\<lambda>e. view e = V) m (\<lambda>_ e. view e = V) \<Longrightarrow> does (here view su ph V M) (on_env m) (\<lambda>_. here view su ph V M)"
  using env_ok [of V m "\<lambda>_. True"] by simp

lemma boundary_ok: "does (here view su ph V M) (boundary su) (\<lambda>_. here view su ph V M)"
  unfolding boundary_def
  by (rule runs_andthen [OF poll_ok], rule runs_getting, rule runs_conseq [where P = "here view su ph V M"])
    (auto intro: env_ok' check_ok)

lemma inspecting_ok: "does (here view su ph V M) (inspecting su path) (\<lambda>i w. here view su ph V M w \<and> shown (V path) i)"
  unfolding inspecting_def by (rule env_ok [OF inspect_ok])

lemma changing_ok: "(\<And>w. here view su ph V M (f w) = here view su ph V M w) \<Longrightarrow>
    does (here view su ph V M) (changing f) (\<lambda>_. here view su ph V M)"
  by (rule runs_changing) simp

lemma shown_None: "shown v i \<Longrightarrow> i = None \<longleftrightarrow> v = None"
  by (auto simp: shown_def split: option.splits)

lemma owned_ok:
  assumes "suits V path op"
  shows "does (here view su ph V M) (owned su path op) (\<lambda>i w. here view su ph V M w \<and> (i = None \<longleftrightarrow> V path = None))"
  unfolding owned_def
proof (rule runs_andthen [OF inspecting_ok], rule runs_assume)
  fix i
  assume i: "shown (V path) i"
  show "does (here view su ph V M) (case i of
       None \<Rightarrow> andthen (changing (\<lambda>w. set_usage (to_token op) (AList.delete path (se_usage w (to_token op))) w)) (\<lambda>_. ret None)
     | Some x \<Rightarrow>
         if oi_token x \<noteq> Some (to_token op) \<or> oi_directory x \<noteq> (to_kind op = KDirectory) then refusing ''OUTPUT_COLLISION'' path
         else if oi_bytes x < 0 then refusing ''DESTINATION_ALLOCATION_UNPROVEN'' path
         else andthen (changing (\<lambda>w. set_usage (to_token op) (AList.update path (oi_bytes x) (se_usage w (to_token op))) w))
           (\<lambda>_. ret (Some x)))
     (\<lambda>i w. here view su ph V M w \<and> (i = None \<longleftrightarrow> V path = None))"
  proof (cases i)
    case None
    with i have "V path = None" using shown_None by blast
    with None show ?thesis
      by simp (rule runs_andthen [OF changing_ok], simp, rule runs_ret, simp)
  next
    case (Some x)
    with i obtain t d c where v: "V path = Some (t, d, c)" "oi_directory x = d" "oi_token x = Some t" "0 \<le> oi_bytes x"
      by (auto simp: shown_def split: option.splits)
    with assms have "t = to_token op" "d = (to_kind op = KDirectory)" by (simp_all add: suits_def fit_node_def)
    with v Some show ?thesis
      by simp (rule runs_andthen [OF changing_ok], simp, rule runs_ret, simp)
  qed
qed

lemma owned_there: "suits V path op \<Longrightarrow> V path = Some v \<Longrightarrow>
    does (here view su ph V M) (owned su path op) (\<lambda>i w. here view su ph V M w \<and> i \<noteq> None)"
  by (rule runs_conseq [OF owned_ok]) auto

lemma owned_away: "V path = None \<Longrightarrow>
    does (here view su ph V M) (owned su path op) (\<lambda>i w. here view su ph V M w \<and> i = None)"
  by (rule runs_conseq [OF owned_ok]) (auto simp: suits_def)

lemma owned_quiet: "suits V path op \<Longrightarrow> does (here view su ph V M) (owned su path op) (\<lambda>_. here view su ph V M)"
  by (rule runs_conseq [OF owned_ok]) auto

lemma here_suits: "here view su ph V M w \<Longrightarrow> map_of (se_paths w) q = Some op \<Longrightarrow> suits V q op"
  by (auto simp: here_def filed_def)

lemma refresh_ok: "does (here view su ph V M) (refresh_parent su path) (\<lambda>_. here view su ph V M)"
  unfolding refresh_parent_def
proof (rule runs_getting)
  fix found :: "transfer_op option"
  show "does (\<lambda>w. here view su ph V M w \<and> map_of (se_paths w) (parent_of path) = found)
      (case found of None \<Rightarrow> ret () | Some op \<Rightarrow> andthen (owned su (parent_of path) op) (\<lambda>_. ret ())) (\<lambda>_. here view su ph V M)"
  proof (cases found)
    case (Some op)
    have "does (\<lambda>w. here view su ph V M w \<and> suits V (parent_of path) op) (andthen (owned su (parent_of path) op) (\<lambda>_. ret ())) (\<lambda>_. here view su ph V M)"
      by (rule runs_assume, rule runs_andthen [OF owned_quiet], assumption, rule runs_ret)
    with Some show ?thesis by simp (erule runs_conseq, auto dest: here_suits)
  next
    case None
    then show ?thesis by (simp, intro runs_ret) simp
  qed
qed

end

end
