(* ===== verification/SliceProgress.thy ===== *)
theory SliceProgress
  imports SliceHonest
begin

text \<open>
  Progress of a session on honest ports that nobody disturbs: directories are made, files are
  written and published, the step goes on to the next file, and the last step finishes.
\<close>

section \<open>Looking\<close>

text \<open>The directories above a path are in place.\<close>

definition dirs_in :: "op_map \<Rightarrow> str list \<Rightarrow> bool" where
  "dirs_in M qs \<longleftrightarrow> (\<forall>q \<in> set qs. \<exists>op. M q = Some op \<and> to_state op = SComplete \<and> to_kind op = KDirectory)"

context undisturbed
begin

lemma here_op:
  assumes "here view su ph V M w" "M path = Some op"
  shows "to_path op = path" "typed su op" "to_state op = SComplete \<Longrightarrow> placed su V op"
    "to_state op = SComplete \<Longrightarrow> to_kind op = KFile \<Longrightarrow> json_true (to_source op)"
  using assms by (auto simp: here_def intact_def)

lemma here_placed:
  assumes "here view su ph V M w" "M path = Some op" "to_state op = SComplete"
  obtains c where "V path = Some (to_token op, to_kind op = KDirectory, c)" "to_kind op \<noteq> KDirectory \<Longrightarrow> fits su op c"
    "suits V path op"
  using here_op [OF assms(1,2)] assms(3) by (auto simp: placed_def suits_def fit_node_def)

lemma here_cond: "(\<And>w. here view su ph V M w \<Longrightarrow> b) \<Longrightarrow> (b \<Longrightarrow> does (here view su ph V M) m Q) \<Longrightarrow> does (here view su ph V M) m Q"
  by (auto simp: runs_def)

lemma get_op_ok:
  assumes "does (here view su ph V M) (k (M path)) Q"
  shows "does (here view su ph V M) (andthen (getting (\<lambda>w. map_of (se_ops w) path)) k) Q"
proof (rule runs_getting)
  fix found :: "transfer_op option"
  show "does (\<lambda>w. here view su ph V M w \<and> map_of (se_ops w) path = found) (k found) Q"
  proof (cases "M path = found")
    case True
    with assms show ?thesis by (auto simp: runs_def)
  next
    case False
    then show ?thesis by (auto simp: runs_def here_def)
  qed
qed

lemma check_parents_ok:
  assumes "dirs_in M (proper_parents path)"
  shows "does (here view su ph V M) (check_parents su path) (\<lambda>_. here view su ph V M)"
  unfolding check_parents_def
proof (rule does_each, rule get_op_ok)
  fix q
  assume "q \<in> set (rev (proper_parents path))"
  with assms obtain op where op: "M q = Some op" "to_state op = SComplete" "to_kind op = KDirectory" by (auto simp: dirs_in_def)
  have "does (here view su ph V M) (andthen (owned su q op) (\<lambda>info. if info = None then refusing ''OUTPUT_COLLISION'' q else ret ()))
      (\<lambda>_. here view su ph V M)"
  proof (rule here_cond [where b = "\<exists>c. V q = Some (to_token op, True, c) \<and> suits V q op"])
    show "\<exists>c. V q = Some (to_token op, True, c) \<and> suits V q op" if "here view su ph V M w" for w
      by (rule here_placed [OF that op(1,2)]) (use op(3) in auto)
    assume "\<exists>c. V q = Some (to_token op, True, c) \<and> suits V q op"
    then obtain c where c: "V q = Some (to_token op, True, c)" "suits V q op" by blast
    show "does (here view su ph V M) (andthen (owned su q op) (\<lambda>info. if info = None then refusing ''OUTPUT_COLLISION'' q else ret ()))
        (\<lambda>_. here view su ph V M)"
      by (rule runs_andthen [OF owned_there [OF c(2,1)]], rule runs_assume, simp only: if_False, rule runs_ret)
  qed
  with op show "does (here view su ph V M) (case M q of None \<Rightarrow> refusing ''OUTPUT_COLLISION'' q
      | Some op \<Rightarrow> if to_kind op \<noteq> KDirectory \<or> to_state op \<noteq> SComplete then refusing ''OUTPUT_COLLISION'' q
         else andthen (owned su q op) (\<lambda>info. if info = None then refusing ''OUTPUT_COLLISION'' q else ret ()))
      (\<lambda>_. here view su ph V M)" by simp
qed

lemma absorb_ok: "does (here view su ph V M) (absorb su ps None data) (\<lambda>x w. here view su ph V M w \<and> x = data @ concat (takeWhile (\<lambda>p. p \<noteq> []) ps))"
proof (induction ps arbitrary: data)
  case (Cons a ps)
  show ?case
  proof (cases "a = []")
    case False
    have "does (here view su ph V M) (andthen (boundary su) (\<lambda>_. absorb su ps None (data @ a)))
        (\<lambda>x w. here view su ph V M w \<and> x = (data @ a) @ concat (takeWhile (\<lambda>p. p \<noteq> []) ps))"
      by (rule runs_andthen [OF boundary_ok Cons.IH])
    with False show ?thesis by simp
  qed (simp add: runs_ret)
qed (simp add: runs_ret)

lemma matches_ok:
  assumes "V path = Some (t, False, c)"
  shows "does (here view su ph V M) (matches su path op) (\<lambda>b w. here view su ph V M w \<and> b = fits su op c)"
  unfolding matches_def
proof (rule runs_andthen)
  show "does (here view su ph V M) (on_env (po_read (su_port su) path)) (\<lambda>r w. here view su ph V M w \<and> (rd_fail r = None \<and> reading_data r = c))"
    by (rule env_ok) (rule read_ok, rule assms)
  show "does (\<lambda>w. here view su ph V M w \<and> (rd_fail r = None \<and> reading_data r = c)) (andthen (absorb su (rd_pieces r) (rd_fail r) []) (\<lambda>data.
      andthen (boundary su) (\<lambda>_. ret (fits su op data)))) (\<lambda>b w. here view su ph V M w \<and> b = fits su op c)" for r
  proof (rule runs_assume)
    assume r: "rd_fail r = None \<and> reading_data r = c"
    have a: "does (here view su ph V M) (absorb su (rd_pieces r) (rd_fail r) []) (\<lambda>x w. here view su ph V M w \<and> x = c)"
      using absorb_ok [of ph V M "rd_pieces r" "[]"] r by (simp add: reading_data_def)
    show "does (here view su ph V M) (andthen (absorb su (rd_pieces r) (rd_fail r) []) (\<lambda>data.
      andthen (boundary su) (\<lambda>_. ret (fits su op data)))) (\<lambda>b w. here view su ph V M w \<and> b = fits su op c)"
      by (rule runs_andthen [OF a], rule runs_assume, rule runs_andthen [OF boundary_ok], rule runs_ret) simp
  qed
qed

lemma typed_kind:
  assumes "typed su op" "to_path op \<in> set (plan_outputs (su_plan su))"
  shows "to_kind op \<noteq> KDirectory"
  using assms closed by (auto simp: typed_def planned_def plan_closed_def list_all_iff)

lemma control_output: "control_path (su_plan su) \<in> set (plan_outputs (su_plan su))" "receipt_path (su_plan su) \<in> set (plan_outputs (su_plan su))"
  by (simp_all add: plan_outputs_def)

text \<open>A complete object, still in place with its bytes.\<close>

lemma complete_ok:
  assumes op: "M path = Some op" "to_state op = SComplete" and out: "path \<in> set (plan_outputs (su_plan su))"
    and k: "does (here view su ph V M) (K True) Q"
  shows "does (here view su ph V M) (andthen (owned su path op) (\<lambda>info. if info = None then e1 else andthen (matches su path op) K)) Q"
proof (rule here_cond [where b = "\<exists>c. V path = Some (to_token op, False, c) \<and> fits su op c \<and> suits V path op"])
  show "\<exists>c. V path = Some (to_token op, False, c) \<and> fits su op c \<and> suits V path op" if w: "here view su ph V M w" for w
  proof -
    have "to_kind op \<noteq> KDirectory" using here_op [OF w op(1)] out typed_kind by blast
    then show ?thesis by (auto intro: here_placed [OF w op])
  qed
  assume "\<exists>c. V path = Some (to_token op, False, c) \<and> fits su op c \<and> suits V path op"
  then obtain c where c: "V path = Some (to_token op, False, c)" "fits su op c" "suits V path op" by blast
  have m: "does (here view su ph V M) (andthen (matches su path op) K) Q"
    by (rule runs_andthen, rule matches_ok [where V = V and path = path], rule c(1), rule runs_assume) (simp add: c(2) k)
  show "does (here view su ph V M) (andthen (owned su path op) (\<lambda>info. if info = None then e1 else andthen (matches su path op) K)) Q"
    by (rule runs_andthen [OF owned_there [OF c(3,1)]], rule runs_assume, simp only: if_False, rule m)
qed

lemma verify_control_ok:
  assumes "required \<Longrightarrow> \<exists>op. M (control_path (su_plan su)) = Some op \<and> to_state op = SComplete"
  shows "does (here view su ph V M) (verify_control su required) (\<lambda>_. here view su ph V M)"
  unfolding verify_control_def
proof (rule get_op_ok)
  let ?p = "control_path (su_plan su)"
  show "does (here view su ph V M) (case (case M ?p of None \<Rightarrow> None | Some op \<Rightarrow> if to_state op = SComplete then Some op else None) of
       None \<Rightarrow> if required then refusing ''CONTROL_CORRUPT'' ''ownership record is not complete'' else ret ()
     | Some op \<Rightarrow> andthen (owned su (to_path op) op) (\<lambda>info.
         if info = None then refusing ''CONTROL_CORRUPT'' ''ownership record disappeared or changed''
         else andthen (matches su (to_path op) op) (\<lambda>same.
           if same then ret () else refusing ''CONTROL_CORRUPT'' ''ownership record disappeared or changed''))) (\<lambda>_. here view su ph V M)"
  proof (cases "\<exists>op. M ?p = Some op \<and> to_state op = SComplete")
    case True
    then obtain op where op: "M ?p = Some op" "to_state op = SComplete" by blast
    have "does (here view su ph V M) (andthen (owned su (to_path op) op) (\<lambda>info.
         if info = None then refusing ''CONTROL_CORRUPT'' ''ownership record disappeared or changed''
         else andthen (matches su (to_path op) op) (\<lambda>same.
           if same then ret () else refusing ''CONTROL_CORRUPT'' ''ownership record disappeared or changed''))) (\<lambda>_. here view su ph V M)"
    proof (rule here_cond [where b = "to_path op = ?p"])
      show "to_path op = ?p" if "here view su ph V M w" for w by (rule here_op(1)) (rule that, rule op(1))
      assume p: "to_path op = ?p"
      show ?thesis
        unfolding p
        by (rule complete_ok [where M = M and path = ?p], rule op, rule op, rule control_output) (simp add: runs_ret)
    qed
    with op show ?thesis by simp
  next
    case False
    with assms show ?thesis by (cases "M ?p") (auto intro: runs_ret)
  qed
qed

lemma check_ok': "does (here view su ph V M) (check su) (\<lambda>_. here view su ph V M)"
  unfolding check_def by (rule runs_andthen [OF boundary_ok verify_control_ok]) simp

lemma here_filed: "here view su ph V M w \<Longrightarrow> V path \<noteq> None \<Longrightarrow> map_of (se_paths w) path \<noteq> None"
  unfolding here_def filed_def by blast

lemma claimed_ok:
  assumes "V path \<noteq> None"
  shows "does (here view su ph V M) (claimed su path) (\<lambda>_. here view su ph V M)"
  unfolding claimed_def
proof (rule runs_getting)
  fix found :: "transfer_op option"
  have known: "does (\<lambda>w. here view su ph V M w \<and> suits V path op) (andthen (owned su path op)
      (\<lambda>info. if info = None then refusing ''OUTPUT_COLLISION'' path else ret ())) (\<lambda>_. here view su ph V M)" for op
  proof (rule runs_assume, rule runs_andthen, rule owned_ok, assumption, rule runs_assume)
    fix info :: "object_info option"
    assume "(info = None) = (V path = None)"
    with assms show "does (here view su ph V M) (if info = None then refusing ''OUTPUT_COLLISION'' path else ret ()) (\<lambda>_. here view su ph V M)"
      by (auto intro: runs_ret)
  qed
  show "does (\<lambda>w. here view su ph V M w \<and> map_of (se_paths w) path = found)
      (case found of None \<Rightarrow> refusing ''OUTPUT_COLLISION'' path
       | Some op \<Rightarrow> andthen (owned su path op) (\<lambda>info. if info = None then refusing ''OUTPUT_COLLISION'' path else ret ()))
      (\<lambda>_. here view su ph V M)"
  proof (cases found)
    case (Some op)
    show ?thesis unfolding Some option.case by (rule runs_conseq [OF known]) (auto dest: here_suits)
  next
    case None
    have "\<not> (here view su ph V M w \<and> map_of (se_paths w) path = None)" for w
      using here_filed [of ph V M w path] assms by blast
    then show ?thesis unfolding None by (rule does_absurd)
  qed
qed

lemma audit_ok: "does (here view su ph V M) (audit_layout su) (\<lambda>_. here view su ph V M)"
  unfolding audit_layout_def
proof (rule runs_andthen [OF boundary_ok], rule runs_andthen [OF does_each], rule runs_andthen [OF inspecting_ok], rule runs_assume)
  fix path info
  assume "shown (V path) info"
  then show "does (here view su ph V M) (whenever (info \<noteq> None) (claimed su path)) (\<lambda>_. here view su ph V M)"
    using shown_None [of "V path" info] by (intro does_whenever claimed_ok) simp
next
  fix x :: unit
  show "does (here view su ph V M) (andthen (on_env (po_list (su_port su) (join_path (path_parts (destination_root su)))))
      (\<lambda>paths. each (\<lambda>path. andthen (boundary su) (\<lambda>_. claimed su path)) paths)) (\<lambda>_. here view su ph V M)"
  proof (rule runs_andthen [OF env_ok [OF list_ok]], rule runs_assume, rule does_each, rule runs_andthen [OF boundary_ok claimed_ok])
    fix ps q
    assume "list_all (\<lambda>q. V q \<noteq> None) ps" "q \<in> set ps"
    then show "V q \<noteq> None" by (simp add: list_all_iff)
  qed
qed

end

section \<open>Recording\<close>

lemma append_goes:
  assumes l: "live sha s a device ph" and ph: "ph \<in> {PTransferring, PVerifying}" and h: "h = head s (at_owner a)"
  obtains v s' where "append_event sha (at_owner a) event payload h a device s = Inr (v, s')" "live sha s' a device ph"
    "head s' (at_owner a) = Some v" "events sha s' (at_owner a) = Inr (log_at sha s (at_owner a) @ [(event, payload)])"
proof -
  have "ph \<in> RUNNING_STATES" using ph by (auto simp: running_iff)
  note req = require_attempt_live [OF l this]
  obtain r where r: "st_txs s (at_owner a) = Some r" "tx_state r = ph" "\<not> tx_stop r" by (rule live_row [OF l])
  have "journal_ok sha s" using l by (simp add: live_def store_ok_def)
  note u = unique_seq [OF this r(1)]
  let ?f = "\<lambda>h. append_event sha (at_owner a) event payload h a device s"
  have same: "?f h = ?f None" using r(1) h ph by (auto simp: append_event_def head_def the_row_def req)
  obtain v s' where f: "?f None = Inr (v, s')" "head s' (at_owner a) = Some v"
    using u r(1) ph by (auto simp: append_event_def req the_row_def Let_def head_def)
  then have "apply_op sha root (OpAppend (at_owner a) event payload None a device) s = s'" for root
    by (simp add: apply_op_def settle_def)
  with live_log [OF l ph, of undefined event payload] f same show thesis by (intro that [of v s']) simp_all
qed

text \<open>An operation is recorded when its names are free or its own, and no other one is unfinished.\<close>

definition others_done :: "op_map \<Rightarrow> str \<Rightarrow> bool" where
  "others_done M path \<longleftrightarrow> (\<forall>q op. M q = Some op \<longrightarrow> q \<noteq> path \<longrightarrow> to_state op = SComplete)"

context undisturbed
begin

lemma auth_append_ok:
  assumes w: "here view su ph V M w"
  obtains v s' where "auth_append su event payload (se_head w) w = (Inr v, w\<lparr>wd_turn := wd_turn w + 1, wd_store := s'\<rparr>)"
    "live (su_sha su) s' (su_attempt su) (su_device su) ph" "head s' (su_tx su) = Some v"
    "events (su_sha su) s' (su_tx su) = Inr (log_at (su_sha su) (wd_store w) (su_tx su) @ [(event, payload)])"
proof -
  from w have r: "wd_lease w" "live (su_sha su) (wd_store w) (su_attempt su) (su_device su) ph" "ph \<in> {PTransferring, PVerifying}"
    "se_head w = head (wd_store w) (at_owner (su_attempt su))"
    by (simp_all add: here_def running_def owner_ok)
  obtain v s' where a: "append_event (su_sha su) (at_owner (su_attempt su)) event payload (se_head w) (su_attempt su) (su_device su) (wd_store w) = Inr (v, s')"
    "live (su_sha su) s' (su_attempt su) (su_device su) ph" "head s' (at_owner (su_attempt su)) = Some v"
    "events (su_sha su) s' (at_owner (su_attempt su)) = Inr (log_at (su_sha su) (wd_store w) (at_owner (su_attempt su)) @ [(event, payload)])"
    by (rule append_goes [OF r(2-4)])
  have "auth_append su event payload (se_head w) w = (Inr v, w\<lparr>wd_turn := wd_turn w + 1, wd_store := s'\<rparr>)"
    using r(1) a(1) by (simp add: auth_append_def lease_check_def andthen_def getting_def ret_def storing_ok owner_ok)
  with a show thesis by (intro that [of v s']) (simp_all add: owner_ok)
qed

lemma typed_name:
  assumes "typed su op"
  shows "to_path op \<in> set (plan_outputs (su_plan su)) \<union> set (plan_directories (su_plan su))"
  using assms planned_output by (cases "to_kind op = KDirectory") (auto simp: typed_def planned_def)

lemma typed_temp:
  assumes "typed su op" "to_temporary op = Some temp"
  shows "temp \<notin> set (plan_outputs (su_plan su)) \<union> set (plan_directories (su_plan su))" "temp = staging (to_path op) (to_token op)"
    "to_path op \<in> set (plan_outputs (su_plan su))" "to_kind op \<noteq> KDirectory" "token_ok (to_token op)"
proof -
  from assms have k: "to_kind op \<noteq> KDirectory" and t: "temp = staging (to_path op) (to_token op)" and n: "\<exists>n. to_token op = su_names su n"
    and p: "planned (su_plan su) (to_path op) (to_kind op) (to_size op) (to_sha op)"
    by (auto simp: typed_def split: if_splits)
  from planned_output [OF p k] show out: "to_path op \<in> set (plan_outputs (su_plan su))" .
  from n clear have "names_clear (su_plan su) (to_token op)" by auto
  with out t show "temp \<notin> set (plan_outputs (su_plan su)) \<union> set (plan_directories (su_plan su))" "token_ok (to_token op)"
    by (auto simp: names_clear_def list_all_iff)
qed (use assms in \<open>auto simp: typed_def split: if_splits\<close>)

lemma map_of_fold_update: "map_of (fold (\<lambda>q. AList.update q op) qs xs) = (\<lambda>q. if q \<in> set qs then Some op else map_of xs q)"
  by (induction qs arbitrary: xs) (auto simp: update_conv' fun_eq_iff)

lemma filed_record:
  assumes f: "filed V M F" and i: "intact su V M" and t: "typed su op" and o: "others_done M (to_path op)"
    and s: "\<And>q. q \<in> set (op_paths op) \<Longrightarrow> suits V q op"
  shows "filed V (M(to_path op \<mapsto> op)) (\<lambda>q. if q \<in> set (op_paths op) then Some op else F q)"
proof -
  have own: "to_path op \<in> set (op_paths op)" "to_temporary op = Some temp \<Longrightarrow> temp \<in> set (op_paths op)" for temp
    by (simp_all add: op_paths_def)
  have other: "q \<notin> set (op_paths op)" if "M q = Some op'" "q \<noteq> to_path op" for q op'
  proof -
    from i that(1) have "q \<in> set (plan_outputs (su_plan su)) \<union> set (plan_directories (su_plan su))"
      using typed_name [of op'] by (auto simp: intact_def)
    then show ?thesis using that(2) typed_temp(1) [OF t] by (auto simp: op_paths_def split: option.splits)
  qed
  show ?thesis
    using f o s own other unfolding filed_def others_done_def
    by (auto simp: like_def)
qed

lemma record_ok:
  assumes t: "typed su (op\<lparr>to_state := st\<rparr>)" and o: "others_done M (to_path op)"
    and s: "\<And>q. q \<in> set (op_paths op) \<Longrightarrow> suits V q op"
    and c: "st = SComplete \<Longrightarrow> placed su V op \<and> (to_kind op = KFile \<longrightarrow> json_true (to_source op))"
  shows "does (here view su ph V M) (record_op su op st)
    (\<lambda>x w. here view su ph V (M(to_path op \<mapsto> op\<lparr>to_state := st\<rparr>)) w \<and> x = op\<lparr>to_state := st\<rparr>)"
proof (rule does_pre)
  fix w
  assume w: "here view su ph V M w"
  let ?op = "op\<lparr>to_state := st\<rparr>"
  obtain v s' where a: "auth_append su ''operation'' (op_json (su_sha su) (su_plan su) ?op) (se_head w) w
      = (Inr v, w\<lparr>wd_turn := wd_turn w + 1, wd_store := s'\<rparr>)" "live (su_sha su) s' (su_attempt su) (su_device su) ph"
    "head s' (su_tx su) = Some v" by (rule auth_append_ok [OF w])
  have r: "record_op su op st w = (Inr ?op, note_op ?op (w\<lparr>wd_turn := wd_turn w + 1, wd_store := s', se_head := Some v\<rparr>))"
    by (simp add: record_op_def Let_def andthen_def getting_def changing_def ret_def a(1))
  have paths: "op_paths ?op = op_paths op" and suit: "suits V q ?op = suits V q op" for q
    by (simp_all add: op_paths_def suits_def fit_node_def)
  have fits: "fits su (op\<lparr>to_state := st'\<rparr>) = fits su op" for st' by (simp add: fits_def fun_eq_iff)
  have i: "intact su V M" and f: "filed V M (map_of (se_paths w))" using w by (simp_all add: here_def)
  have i': "intact su V (M(to_path op \<mapsto> ?op))" using i t c by (auto simp: intact_def placed_def fits)
  have f': "filed V (M(to_path op \<mapsto> ?op)) (\<lambda>q. if q \<in> set (op_paths op) then Some ?op else map_of (se_paths w) q)"
    using filed_record [OF f i t] o s by (simp add: paths suit)
  have "here view su ph V (M(to_path op \<mapsto> ?op)) (note_op ?op (w\<lparr>wd_turn := wd_turn w + 1, wd_store := s', se_head := Some v\<rparr>))"
    using w i' f' a(2,3) by (simp add: here_def note_op_def running_def map_of_fold_update update_conv' paths)
  with r show "does (\<lambda>w'. w' = w) (record_op su op st) (\<lambda>x w. here view su ph V (M(to_path op \<mapsto> ?op)) w \<and> x = ?op)"
    by (simp add: runs_def)
qed

text \<open>The destination changes at the names of the unfinished operation.\<close>

lemma here_moved:
  assumes w: "here view su ph V M w" and op: "M (to_path op) = Some op" "to_state op \<noteq> SComplete" and e: "view e = V'"
    and same: "\<And>q. q \<notin> set (op_paths op) \<Longrightarrow> V' q = V q" and fit: "\<And>q. q \<in> set (op_paths op) \<Longrightarrow> suits V' q op"
  shows "here view su ph V' M (w\<lparr>wd_env := e\<rparr>)"
proof -
  have i: "intact su V M" and f: "filed V M (map_of (se_paths w))" using w by (simp_all add: here_def)
  have t: "typed su op" using i op(1) by (auto simp: intact_def)
  have known: "like op (map_of (se_paths w) q)" if "q \<in> set (op_paths op)" for q
    using f op that by (auto simp: filed_def op_paths_def split: option.splits)
  have away: "q \<notin> set (op_paths op)" if "M q = Some op'" "to_state op' = SComplete" for q op'
  proof -
    have "q \<in> set (plan_outputs (su_plan su)) \<union> set (plan_directories (su_plan su))"
      using i that(1) typed_name [of op'] by (auto simp: intact_def)
    moreover have "q \<noteq> to_path op" using op that by auto
    ultimately show ?thesis using typed_temp(1) [OF t] by (auto simp: op_paths_def split: option.splits)
  qed
  have "intact su V' M"
    unfolding intact_def
  proof (intro allI impI)
    fix q op'
    assume m: "M q = Some op'"
    with i have b: "to_path op' = q \<and> typed su op' \<and> (to_state op' = SComplete \<longrightarrow> placed su V op' \<and> (to_kind op' = KFile \<longrightarrow> json_true (to_source op')))"
      by (auto simp: intact_def)
    have "placed su V' op'" if "to_state op' = SComplete"
      using b that same [OF away [OF m that]] by (auto simp: placed_def)
    with b show "to_path op' = q \<and> typed su op' \<and> (to_state op' = SComplete \<longrightarrow> placed su V' op' \<and> (to_kind op' = KFile \<longrightarrow> json_true (to_source op')))"
      by blast
  qed
  moreover have "filed V' M (map_of (se_paths w))"
    unfolding filed_def
  proof (intro conjI allI impI)
    fix q op'
    assume q: "map_of (se_paths w) q = Some op'"
    show "suits V' q op'"
    proof (cases "q \<in> set (op_paths op)")
      case True
      with known [OF True] fit [OF True] q show ?thesis by (auto simp: like_def suits_def fit_node_def)
    next
      case False
      with same [OF False] f q show ?thesis by (auto simp: filed_def suits_def)
    qed
  next
    fix q
    assume "V' q \<noteq> None"
    then show "map_of (se_paths w) q \<noteq> None"
    proof (cases "q \<in> set (op_paths op)")
      case True
      from known [OF this] show ?thesis by (cases "map_of (se_paths w) q") (simp_all add: like_def)
    next
      case False
      with same [OF this] \<open>V' q \<noteq> None\<close> have "V q \<noteq> None" by simp
      with f show ?thesis unfolding filed_def by blast
    qed
  qed (use f in \<open>auto simp: filed_def\<close>)
  ultimately show ?thesis using w e by (simp add: here_def)
qed

lemma env_moved:
  assumes "does (\<lambda>e. view e = V) m (\<lambda>_ e. view e = V')" and op: "M (to_path op) = Some op" "to_state op \<noteq> SComplete"
    and "\<And>q. q \<notin> set (op_paths op) \<Longrightarrow> V' q = V q" "\<And>q. q \<in> set (op_paths op) \<Longrightarrow> suits V' q op"
  shows "does (here view su ph V M) (on_env m) (\<lambda>_. here view su ph V' M)"
proof -
  have m: "does (\<lambda>e. view e = V) m (\<lambda>_ e. view e = V' \<and> True)" using assms(1) by simp
  have "does (here view su ph V M) (on_env m) (\<lambda>_ w. here view su ph V' M w \<and> True)"
  proof (rule does_env [OF m])
    show "here view su ph V' M (w\<lparr>wd_env := e\<rparr>)" if "here view su ph V M w" "view e = V'" for w e
      by (rule here_moved [where M = M and V = V and op = op]) (use that op assms(4-) in simp_all)
  qed (simp add: here_def)
  then show ?thesis by simp
qed

lemma env_either:
  assumes m: "does (\<lambda>e. view e = V) m (\<lambda>_ e. view e = W \<or> view e = W')"
    and go: "\<And>w e. here view su ph V M w \<Longrightarrow> view e = W \<Longrightarrow> here view su ph W M (w\<lparr>wd_env := e\<rparr>)"
    "\<And>w e. here view su ph V M w \<Longrightarrow> view e = W' \<Longrightarrow> here view su ph W' M (w\<lparr>wd_env := e\<rparr>)"
  shows "does (here view su ph V M) (on_env m) (\<lambda>_ w. here view su ph W M w \<or> here view su ph W' M w)"
  unfolding runs_def
proof (intro allI impI)
  fix w
  assume w: "here view su ph V M w"
  then have v: "view (wd_env w) = V" by (simp add: here_def)
  obtain r e where e: "m (wd_env w) = (r, e)" by fastforce
  have "case m (wd_env w) of (Inl _, e) \<Rightarrow> False | (Inr _, e) \<Rightarrow> view e = W \<or> view e = W'"
    using m [unfolded runs_def, rule_format, OF v] .
  with e show "case on_env m w of (Inl _, w') \<Rightarrow> False | (Inr _, w') \<Rightarrow> here view su ph W M w' \<or> here view su ph W' M w'"
    using go [OF w, of e] by (cases r) (auto simp: on_env_def)
qed

text \<open>A staging name that is left over goes.\<close>

lemma here_dropped:
  assumes w: "here view su ph V M w" and t: "temp \<notin> set (plan_outputs (su_plan su)) \<union> set (plan_directories (su_plan su))"
    and e: "view e = V(temp := None)"
  shows "here view su ph (V(temp := None)) M (w\<lparr>wd_env := e\<rparr>)"
proof -
  have i: "intact su V M" and f: "filed V M (map_of (se_paths w))" using w by (simp_all add: here_def)
  have "intact su (V(temp := None)) M"
    unfolding intact_def
  proof (intro allI impI)
    fix q op
    assume "M q = Some op"
    with i have b: "to_path op = q" "typed su op" "to_state op = SComplete \<Longrightarrow> placed su V op"
      "to_state op = SComplete \<Longrightarrow> to_kind op = KFile \<Longrightarrow> json_true (to_source op)" by (auto simp: intact_def)
    have "to_path op \<noteq> temp" using typed_name [OF b(2)] t by blast
    with b show "to_path op = q \<and> typed su op \<and> (to_state op = SComplete \<longrightarrow> placed su (V(temp := None)) op \<and> (to_kind op = KFile \<longrightarrow> json_true (to_source op)))"
      by (simp add: placed_def)
  qed
  moreover have "filed (V(temp := None)) M (map_of (se_paths w))"
    unfolding filed_def
  proof (intro conjI allI impI)
    fix q
    assume "(V(temp := None)) q \<noteq> None"
    then have "V q \<noteq> None" by (simp split: if_splits)
    with f show "map_of (se_paths w) q \<noteq> None" unfolding filed_def by blast
  next
    fix q op
    assume "map_of (se_paths w) q = Some op"
    with f have "suits V q op" by (auto simp: filed_def)
    then show "suits (V(temp := None)) q op" by (auto simp: suits_def)
  qed (use f in \<open>auto simp: filed_def\<close>)
  ultimately show ?thesis using w e by (simp add: here_def)
qed

lemma does_either: "does P m Q \<Longrightarrow> does P' m Q \<Longrightarrow> does (\<lambda>w. P w \<or> P' w) m Q"
  by (auto simp: runs_def)

text \<open>The directory of a path whose directories are complete.\<close>

lemma here_housed:
  assumes w: "here view su ph V M w" and d: "dirs_in M (proper_parents path)"
  shows "housed V path"
proof (cases "parent_of path = ''.''")
  case False
  with parent_above [of path] have "parent_of path \<in> set (proper_parents path)" by blast
  with d obtain op where op: "M (parent_of path) = Some op" "to_state op = SComplete" "to_kind op = KDirectory" by (auto simp: dirs_in_def)
  obtain c where "V (parent_of path) = Some (to_token op, True, c)" by (rule here_placed [OF w op(1,2)]) (use op(3) in auto)
  then show ?thesis unfolding housed_def by blast
qed (simp add: housed_def)

lemma typed_token: "typed su op \<Longrightarrow> token_ok (to_token op)"
  using clear by (auto simp: typed_def names_clear_def)

lemma flush_quiet: "path = ''.'' \<or> V path \<noteq> None \<Longrightarrow> does (here view su ph V M) (on_env (po_flush (su_port su) path)) (\<lambda>_. here view su ph V M)"
  by (rule env_ok') (rule flush_ok)

lemma flush_parent:
  assumes "dirs_in M (proper_parents path)"
  shows "does (here view su ph V M) (on_env (po_flush (su_port su) (parent_of path))) (\<lambda>_. here view su ph V M)"
  by (rule here_cond [OF here_housed [OF _ assms]], assumption, rule flush_quiet) (auto simp: housed_def)

end

text \<open>Between files every operation is complete and nothing else stands on the destination.\<close>

definition base :: "files \<Rightarrow> op_map \<Rightarrow> bool" where
  "base V M \<longleftrightarrow> (\<forall>path op. M path = Some op \<longrightarrow> to_state op = SComplete) \<and> (\<forall>q. V q \<noteq> None \<longrightarrow> M q \<noteq> None)"

definition rest :: "('e \<Rightarrow> files) \<Rightarrow> 'e session \<Rightarrow> phase \<Rightarrow> str set \<Rightarrow> 'e world \<Rightarrow> bool" where
  "rest view su ph K w \<longleftrightarrow> (\<exists>V M. here view su ph V M w \<and> base V M \<and> dom M = K)"

lemma does_rest: "(\<And>V M. base V M \<Longrightarrow> dom M = K \<Longrightarrow> does (here view su ph V M) m Q) \<Longrightarrow> does (rest view su ph K) m Q"
  unfolding runs_def rest_def by (intro allI impI, elim exE conjE) simp

lemma base_done: "base V M \<Longrightarrow> others_done M path"
  by (simp add: base_def others_done_def)

lemma base_there: "base V M \<Longrightarrow> V q \<noteq> None \<Longrightarrow> M q \<noteq> None"
  unfolding base_def by blast

lemma base_away: "base V M \<Longrightarrow> M q = None \<Longrightarrow> V q = None"
  unfolding base_def by blast

context undisturbed
begin

lemma base_names:
  assumes "here view su ph V M w" "base V M" "V q \<noteq> None"
  shows "q \<in> set (plan_outputs (su_plan su)) \<union> set (plan_directories (su_plan su))"
proof -
  from base_there [OF assms(2,3)] obtain op where op: "M q = Some op" by blast
  with assms(1) typed_name [of op] here_op(1,2) [OF assms(1) op] show ?thesis by simp
qed

lemma dirs_base:
  assumes w: "here view su ph V M w" and b: "base V M" "set qs \<subseteq> dom M" "set qs \<subseteq> set (plan_directories (su_plan su))"
  shows "dirs_in M qs"
  unfolding dirs_in_def
proof
  fix q
  assume q: "q \<in> set qs"
  with b(2) obtain op where op: "M q = Some op" by auto
  note facts = here_op(1,2) [OF w op]
  have "to_kind op = KDirectory"
  proof (rule ccontr)
    assume "to_kind op \<noteq> KDirectory"
    with facts planned_output have "q \<in> set (plan_outputs (su_plan su))" by (auto simp: typed_def)
    with q b(3) closed show False by (auto simp: plan_closed_def list_all_iff)
  qed
  with op b(1) show "\<exists>op. M q = Some op \<and> to_state op = SComplete \<and> to_kind op = KDirectory" by (auto simp: base_def)
qed

lemma fresh_ok: "does (here view su ph V M) (fresh_name su) (\<lambda>t w. here view su ph V M w \<and> (\<exists>n. t = su_names su n))"
  by (auto simp: runs_def fresh_name_def)

text \<open>A new operation.\<close>

lemma open_new_ok:
  assumes b: "base V M" "M path = None" and p: "planned (su_plan su) path kind n digest"
    and z: "kind = KDirectory \<Longrightarrow> n = 0 \<and> digest = ''''"
  shows "does (here view su ph V M) (open_op su path kind n digest)
    (\<lambda>op w. here view su ph V (M(path \<mapsto> op)) w \<and> (\<exists>t. op = new_op path kind n digest t \<and> typed su op
       \<and> (\<forall>q \<in> set (op_paths op). V q = None)))"
  unfolding open_op_def
proof (rule get_op_ok, simp only: b(2) option.case, rule runs_andthen [OF inspecting_ok], rule runs_assume)
  fix info
  have v: "V path = None" by (rule base_away [OF b])
  assume "shown (V path) info"
  with v have i: "info = None" using shown_None by blast
  have "does (\<lambda>w. here view su ph V M w \<and> (\<exists>n. t = su_names su n)) (record_op su (new_op path kind n digest t) SIntent)
    (\<lambda>op w. here view su ph V (M(path \<mapsto> op)) w \<and> (\<exists>t. op = new_op path kind n digest t \<and> typed su op
       \<and> (\<forall>q \<in> set (op_paths op). V q = None)))" for t
  proof (rule runs_assume)
    assume "\<exists>n. t = su_names su n"
    then have t: "typed su (new_op path kind n digest t)" using p z by (simp add: typed_def new_op_def)
    have same: "(new_op path kind n digest t)\<lparr>to_state := SIntent\<rparr> = new_op path kind n digest t" and path: "to_path (new_op path kind n digest t) = path"
      by (simp_all add: new_op_def)
    have free: "\<forall>q \<in> set (op_paths (new_op path kind n digest t)). V q = None" if w: "here view su ph V M w" for w
    proof
      fix q
      assume "q \<in> set (op_paths (new_op path kind n digest t))"
      then consider "q = path" | "to_temporary (new_op path kind n digest t) = Some q"
        by (auto simp: op_paths_def path split: option.splits)
      then show "V q = None"
      proof cases
        case 2
        from typed_temp(1) [OF t this] base_names [OF w b(1), of q] show ?thesis by blast
      qed (simp add: v)
    qed
    show "does (here view su ph V M) (record_op su (new_op path kind n digest t) SIntent)
      (\<lambda>op w. here view su ph V (M(path \<mapsto> op)) w \<and> (\<exists>t. op = new_op path kind n digest t \<and> typed su op
         \<and> (\<forall>q \<in> set (op_paths op). V q = None)))"
    proof (rule here_cond [OF free])
      assume f: "\<forall>q \<in> set (op_paths (new_op path kind n digest t)). V q = None"
      have "does (here view su ph V M) (record_op su (new_op path kind n digest t) SIntent)
        (\<lambda>x w. here view su ph V (M(to_path (new_op path kind n digest t) \<mapsto> (new_op path kind n digest t)\<lparr>to_state := SIntent\<rparr>)) w
          \<and> x = (new_op path kind n digest t)\<lparr>to_state := SIntent\<rparr>)"
        by (rule record_ok) (use t f base_done [OF b(1)] in \<open>auto simp: same suits_def\<close>)
      with t f show ?thesis unfolding same path by (auto elim!: runs_conseq)
    qed
  qed
  with i show "does (here view su ph V M) (if info \<noteq> None then refusing ''OUTPUT_COLLISION'' path
      else andthen (fresh_name su) (\<lambda>token. record_op su
        \<lparr>to_path = path, to_kind = kind, to_size = n, to_sha = digest, to_token = token,
         to_temporary = if kind = KDirectory then None else Some (staging path token), to_source = JNull, to_state = SIntent\<rparr> SIntent))
    (\<lambda>op w. here view su ph V (M(path \<mapsto> op)) w \<and> (\<exists>t. op = new_op path kind n digest t \<and> typed su op
       \<and> (\<forall>q \<in> set (op_paths op). V q = None)))"
    by (simp add: new_op_def [symmetric]) (rule runs_andthen [OF fresh_ok])
qed

end


section \<open>Directories\<close>

lemma dirs_in_new: "dirs_in M qs \<Longrightarrow> M path = None \<Longrightarrow> dirs_in (M(path \<mapsto> op)) qs"
  by (fastforce simp: dirs_in_def)

context undisturbed
begin


lemma rest_after:
  assumes "base V M" "M path = None" "\<And>q. q \<noteq> path \<Longrightarrow> V' q = V q" "to_state op = SComplete"
    "here view su ph V' (M(path \<mapsto> op)) w"
  shows "rest view su ph (insert path (dom M)) w"
proof -
  have "base V' (M(path \<mapsto> op))"
    unfolding base_def
  proof (intro conjI allI impI)
    fix q
    assume "V' q \<noteq> None"
    with assms(3) [of q] base_there [OF assms(1), of q] show "(M(path \<mapsto> op)) q \<noteq> None" by (cases "q = path") simp_all
  qed (use assms(1,4) in \<open>auto simp: base_def split: if_splits\<close>)
  with assms(5) show ?thesis unfolding rest_def by (intro exI [of _ V'] exI [of _ "M(path \<mapsto> op)"]) simp
qed

lemma make_new_directory:
  assumes b: "base V M" "M path = None" and op: "op = new_op path KDirectory 0 '''' t" "typed su op" and d: "dirs_in M (proper_parents path)"
  shows "does (here view su ph V (M(path \<mapsto> op))) (make_directory su path op) (\<lambda>_. rest view su ph (insert path (dom M)))"
proof -
  let ?V = "V(path \<mapsto> (to_token op, True, []))" and ?M = "M(path \<mapsto> op)"
  have f: "to_path op = path" "to_kind op = KDirectory" "to_state op \<noteq> SComplete" "op_paths op = [path]"
    by (simp_all add: op(1) new_op_def op_paths_def)
  have away: "V path = None" by (rule base_away [OF b])
  have suit: "suits ?V path op" by (simp add: suits_def fit_node_def f(2))
  have d': "dirs_in ?M (proper_parents path)" by (rule dirs_in_new [OF d b(2)])
  have made: "does (here view su ph V ?M) (on_env (po_mkdir (su_port su) path (to_token op))) (\<lambda>_. here view su ph ?V ?M)"
    by (rule here_cond [OF here_housed [OF _ d']], assumption, rule env_moved [where op = op], rule mkdir_ok, rule away)
      (simp_all add: f suit typed_token [OF op(2)])
  have new: "does (here view su ph V ?M) (andthen (on_env (po_mkdir (su_port su) path (to_token op)))
      (\<lambda>_. andthen (owned su path op) (\<lambda>_. refresh_parent su path))) (\<lambda>_. here view su ph ?V ?M)"
    by (rule runs_andthen [OF made], rule runs_andthen [OF owned_quiet [OF suit] refresh_ok])
  have c: "typed su (op\<lparr>to_state := SComplete\<rparr>)" using op(2) by (simp add: typed_def)
  have done': "does (here view su ph ?V ?M) (record_op su op SComplete)
      (\<lambda>x w. here view su ph ?V (?M(to_path op \<mapsto> op\<lparr>to_state := SComplete\<rparr>)) w \<and> x = op\<lparr>to_state := SComplete\<rparr>)"
    by (rule record_ok [OF c]) (use b(1) suit in \<open>auto simp: f others_done_def base_def placed_def\<close>)
  have last: "does (here view su ph ?V ?M) (andthen (record_op su op SComplete) (\<lambda>_. ret ())) (\<lambda>_. rest view su ph (insert path (dom M)))"
  proof (rule runs_andthen [OF done'], rule runs_ret)
    fix x w
    assume "here view su ph ?V (?M(to_path op \<mapsto> op\<lparr>to_state := SComplete\<rparr>)) w \<and> x = op\<lparr>to_state := SComplete\<rparr>"
    then have "here view su ph ?V (M(path \<mapsto> op\<lparr>to_state := SComplete\<rparr>)) w" by (simp add: f(1))
    then show "rest view su ph (insert path (dom M)) w" by (rule rest_after [OF b, rotated 2]) simp_all
  qed
  have owned: "does (here view su ph V ?M) (owned su path op) (\<lambda>i w. here view su ph V ?M w \<and> i = None)"
    by (rule owned_away) (rule away)
  have tail: "does (here view su ph V ?M) (andthen (whenever True (andthen (on_env (po_mkdir (su_port su) path (to_token op)))
      (\<lambda>_. andthen (owned su path op) (\<lambda>_. refresh_parent su path)))) (\<lambda>_.
      andthen (on_env (po_flush (su_port su) path)) (\<lambda>_. andthen (on_env (po_flush (su_port su) (parent_of path))) (\<lambda>_.
      andthen (record_op su op SComplete) (\<lambda>_. ret ()))))) (\<lambda>_. rest view su ph (insert path (dom M)))"
    unfolding whenever_def if_True
    by (rule runs_andthen [OF new], rule runs_andthen [OF flush_quiet], simp, rule runs_andthen [OF flush_parent [OF d'] last])
  show ?thesis
    unfolding make_directory_def
    by (rule runs_andthen [OF check_ok'], rule runs_andthen [OF check_parents_ok [OF d']],
        rule runs_andthen [OF owned], rule runs_assume) (use tail in simp)
qed

lemma directory_ok:
  assumes path: "path \<in> set (plan_directories (su_plan su))" and up: "set (proper_parents path) \<subseteq> K"
    "set (proper_parents path) \<subseteq> set (plan_directories (su_plan su))"
  shows "does (rest view su ph K) (directory su path) (\<lambda>_. rest view su ph (insert path K))"
proof (rule does_rest)
  fix V M
  assume b: "base V M" and K: "dom M = K"
  show "does (here view su ph V M) (directory su path) (\<lambda>_. rest view su ph (insert path K))"
  proof (rule here_cond [where b = "dirs_in M (proper_parents path)"])
    show "dirs_in M (proper_parents path)" if "here view su ph V M w" for w
      by (rule dirs_base [OF that b]) (use up K in simp_all)
    assume d: "dirs_in M (proper_parents path)"
    show "does (here view su ph V M) (directory su path) (\<lambda>_. rest view su ph (insert path K))"
    proof (cases "M path")
      case None
      have "does (here view su ph V M) (open_op su path KDirectory 0 '''')
        (\<lambda>op w. here view su ph V (M(path \<mapsto> op)) w \<and> (\<exists>t. op = new_op path KDirectory 0 '''' t \<and> typed su op
           \<and> (\<forall>q \<in> set (op_paths op). V q = None)))"
        by (rule open_new_ok [OF b None]) (simp_all add: planned_def path)
      then show ?thesis
        unfolding directory_def
      proof (rule runs_andthen, intro runs_assume)
        fix op
        assume "\<exists>t. op = new_op path KDirectory 0 '''' t \<and> typed su op \<and> (\<forall>q \<in> set (op_paths op). V q = None)"
        then obtain t where "op = new_op path KDirectory 0 '''' t" "typed su op" by blast
        from make_new_directory [OF b None this d]
        show "does (here view su ph V (M(path \<mapsto> op))) (make_directory su path op) (\<lambda>_. rest view su ph (insert path K))"
          by (simp add: K)
      qed
    next
      case (Some op)
      have here: "rest view su ph (insert path K) w" if "here view su ph V M w" for w
        unfolding rest_def by (intro exI [of _ V] exI [of _ M]) (use that b K Some in auto)
      show ?thesis
      proof (rule here_cond [where b = "to_state op = SComplete \<and> typed su op \<and> to_kind op = KDirectory \<and> suits V path op \<and> V path \<noteq> None"])
        fix w
        assume w: "here view su ph V M w"
        have s: "to_state op = SComplete" using b Some by (auto simp: base_def)
        have "dirs_in M [path]" by (rule dirs_base [OF w b]) (use Some path in auto)
        with Some have k: "to_kind op = KDirectory" by (auto simp: dirs_in_def)
        from here_op(2) [OF w Some] s k show "to_state op = SComplete \<and> typed su op \<and> to_kind op = KDirectory \<and> suits V path op \<and> V path \<noteq> None"
          by (auto intro: here_placed [OF w Some s])
      next
        assume op: "to_state op = SComplete \<and> typed su op \<and> to_kind op = KDirectory \<and> suits V path op \<and> V path \<noteq> None"
        then have suit: "suits V path op" and "V path \<noteq> None" by simp_all
        then obtain v where v: "V path = Some v" by blast
        have open': "does (here view su ph V M) (open_op su path KDirectory 0 '''') (\<lambda>x w. here view su ph V M w \<and> x = op)"
          unfolding open_op_def by (rule get_op_ok) (use op Some in \<open>simp add: typed_def runs_ret\<close>)
        have there: "does (here view su ph V M) (owned su path op) (\<lambda>i w. here view su ph V M w \<and> i \<noteq> None)"
          by (rule owned_there [OF suit]) (rule v)
        have "does (here view su ph V M) (make_directory su path op) (\<lambda>_. rest view su ph (insert path K))"
          unfolding make_directory_def
          by (rule runs_andthen [OF check_ok'], rule runs_andthen [OF check_parents_ok [OF d]],
              rule runs_andthen [OF there], rule runs_assume) (simp add: op runs_ret here)
        then show ?thesis
          unfolding directory_def by (intro runs_andthen [OF open'] runs_assume) simp
      qed
    qed
  qed
qed

end


section \<open>Writing\<close>

lemma chunk_slices:
  assumes "data \<noteq> []"
  shows "\<exists>n. chunk (slices data) None [] = (n, Inr (take QUANTUM data, slices (drop QUANTUM data)))"
proof -
  have q: "0 < QUANTUM" by (simp add: QUANTUM_def)
  have s: "slices data = take QUANTUM data # slices (drop QUANTUM data)" using assms by (simp add: slices.simps [of data])
  have t: "take QUANTUM data \<noteq> []" using assms q by simp
  show ?thesis
  proof (cases "length data \<le> QUANTUM")
    case True
    then have d: "slices (drop QUANTUM data) = []" by (simp add: slices.simps)
    then show ?thesis using q t True by (simp add: s)
  next
    case False
    then have "length (take QUANTUM data) = QUANTUM" by simp
    moreover have "chunk ps None x = (0, Inr (x, ps))" if "QUANTUM \<le> length x" for ps x
      using that by (cases ps) simp_all
    ultimately show ?thesis using q t by (simp add: s)
  qed
qed

lemma feeds_slices: "feeds (slices data) data"
proof (induction "length data" arbitrary: data rule: less_induct)
  case less
  show ?case
  proof (cases "data = []")
    case True
    then have "chunk (slices data) None [] = (2, Inr ([], []))" by (simp add: slices.simps QUANTUM_def)
    then show ?thesis unfolding True by (rule feeds_end)
  next
    case False
    from chunk_slices [OF False] obtain n where c: "chunk (slices data) None [] = (n, Inr (take QUANTUM data, slices (drop QUANTUM data)))" ..
    have q: "take QUANTUM data \<noteq> []" "length (drop QUANTUM data) < length data" using False by (simp_all add: QUANTUM_def)
    from feeds_more [OF c q(1) less.hyps [OF q(2)]] show ?thesis by simp
  qed
qed

text \<open>A new object on its way: the operation, its staging name and the names around it.\<close>

definition staged :: "'e session \<Rightarrow> op_map \<Rightarrow> files \<Rightarrow> str \<Rightarrow> transfer_op \<Rightarrow> str \<Rightarrow> bool" where
  "staged su M V path op temp \<longleftrightarrow> base V M \<and> M path = None \<and> V temp = None \<and> to_path op = path \<and> typed su op
     \<and> to_temporary op = Some temp \<and> dirs_in M (proper_parents path) \<and> to_state op \<noteq> SComplete"

abbreviation put :: "files \<Rightarrow> str \<Rightarrow> transfer_op \<Rightarrow> str \<Rightarrow> files" where
  "put V temp op data \<equiv> V(temp \<mapsto> (to_token op, False, data))"

context undisturbed
begin

lemma polls_ok: "does (here view su ph V M) (polls su n) (\<lambda>_. here view su ph V M)"
  unfolding polls_def by (rule does_each, rule poll_ok)

lemma stagedD:
  assumes "staged su M V path op temp"
  shows "base V M" "M path = None" "V temp = None" "V path = None" "to_path op = path" "typed su op" "to_temporary op = Some temp"
    "dirs_in M (proper_parents path)" "to_state op \<noteq> SComplete" "temp \<noteq> path" "to_kind op \<noteq> KDirectory"
    "dirs_in M (proper_parents temp)" "op_paths op = [path, temp]" "path \<in> set (plan_outputs (su_plan su))"
    "temp = staging path (to_token op)" "token_ok (to_token op)"
    "temp \<notin> set (plan_outputs (su_plan su)) \<union> set (plan_directories (su_plan su))"
proof -
  show b: "base V M" "M path = None" "V temp = None" "to_path op = path" "typed su op" "to_temporary op = Some temp"
    "dirs_in M (proper_parents path)" "to_state op \<noteq> SComplete" using assms by (simp_all add: staged_def)
  show "V path = None" by (rule base_away [OF b(1,2)])
  note t = typed_temp [OF b(5,6)]
  show o: "path \<in> set (plan_outputs (su_plan su))" "to_kind op \<noteq> KDirectory" using t b(4) by simp_all
  show "temp = staging path (to_token op)" "token_ok (to_token op)" using t b(4) by simp_all
  show "temp \<notin> set (plan_outputs (su_plan su)) \<union> set (plan_directories (su_plan su))" by (rule t(1))
  show "temp \<noteq> path" using t(1) o(1) by blast
  have "proper_parents temp = proper_parents path"
    using staging_parents [OF t(5) outputs_ok [OF o(1)]] t(2) b(4) by simp
  with b(7) show "dirs_in M (proper_parents temp)" by simp
  show "op_paths op = [path, temp]" using b(4,6) by (simp add: op_paths_def)
qed

lemma staged_state: "staged su M V path op temp \<Longrightarrow> st \<noteq> SComplete \<Longrightarrow> staged su M V path (op\<lparr>to_source := v, to_state := st\<rparr>) temp"
  by (auto simp: staged_def typed_def)

lemma put_suits: "staged su M V path op temp \<Longrightarrow> suits (put V temp op data) temp op"
  "staged su M V path op temp \<Longrightarrow> suits (put V temp op data) path op"
  using stagedD(4,10,11) [of M V path op temp] by (auto simp: suits_def fit_node_def)

lemma put_moved:
  assumes s: "staged su M V path op temp"
    and m: "does (\<lambda>e. view e = W) m (\<lambda>_ e. view e = put V temp op data)" and W: "\<And>q. q \<noteq> temp \<Longrightarrow> W q = V q"
  shows "does (here view su ph W (M(path \<mapsto> op))) (on_env m) (\<lambda>_. here view su ph (put V temp op data) (M(path \<mapsto> op)))"
  by (rule env_moved [OF m, where op = op]) (use stagedD [OF s] put_suits [OF s] W in auto)

lemma parents_ok: "staged su M V path op temp \<Longrightarrow>
    does (here view su ph W (M(path \<mapsto> op))) (check_parents su path) (\<lambda>_. here view su ph W (M(path \<mapsto> op)))"
  "staged su M V path op temp \<Longrightarrow>
    does (here view su ph W (M(path \<mapsto> op))) (check_parents su temp) (\<lambda>_. here view su ph W (M(path \<mapsto> op)))"
  by (rule check_parents_ok, rule dirs_in_new; erule stagedD)+

lemma stage_ok:
  assumes s: "staged su M V path op temp"
  shows "does (here view su ph V (M(path \<mapsto> op))) (stage su temp op) (\<lambda>_. here view su ph (put V temp op []) (M(path \<mapsto> op)))"
proof -
  have away: "does (here view su ph V (M(path \<mapsto> op))) (owned su temp op) (\<lambda>i w. here view su ph V (M(path \<mapsto> op)) w \<and> i = None)"
    by (rule owned_away) (rule stagedD [OF s])
  note f = stagedD [OF s]
  have create: "does (\<lambda>e. view e = V) (po_create (su_port su) temp (to_token op)) (\<lambda>_ e. view e = put V temp op [])" if "housed V temp"
    unfolding f(15) by (rule create_ok) (use f(3,15,16) that in simp_all)
  have made: "does (here view su ph V (M(path \<mapsto> op))) (on_env (po_create (su_port su) temp (to_token op)))
      (\<lambda>_. here view su ph (put V temp op []) (M(path \<mapsto> op)))"
    by (rule here_cond [OF here_housed [OF _ dirs_in_new [OF f(12,2)]]], assumption, rule put_moved [OF s create], assumption, simp)
  have "does (here view su ph V (M(path \<mapsto> op))) (andthen (on_env (po_create (su_port su) temp (to_token op))) (\<lambda>_.
     andthen (owned su temp op) (\<lambda>_. refresh_parent su temp))) (\<lambda>_. here view su ph (put V temp op []) (M(path \<mapsto> op)))"
    by (rule runs_andthen [OF made], rule runs_andthen [OF owned_quiet refresh_ok]) (rule put_suits [OF s])
  then show ?thesis
    unfolding stage_def
    by (intro runs_andthen [OF away] runs_assume) (simp add: whenever_def andthen_def ret_def runs_def)
qed

lemma write_chunks_ok:
  assumes s: "staged su M V path op temp" and feed: "feeds ps data" and n: "int (length (done' @ data)) = to_size op"
  shows "does (here view su ph (put V temp op done') (M(path \<mapsto> op))) (write_chunks su op temp ps None done')
    (\<lambda>x w. here view su ph (put V temp op (done' @ data)) (M(path \<mapsto> op)) w \<and> x = done' @ data)"
  using feed n
proof (induction ps data arbitrary: done' rule: feeds.induct)
  case (feeds_end ps n ps')
  then show ?case
    unfolding write_chunks.simps [of su op temp ps] by simp (intro runs_andthen [OF polls_ok] runs_ret, simp)
next
  case (feeds_more ps n a ps' data)
  have size: "\<not> to_size op < int (length (done' @ a))" using feeds_more.prems by simp
  have app: "does (\<lambda>e. view e = put V temp op done') (po_append (su_port su) temp (to_token op) a)
      (\<lambda>_ e. view e = put V temp op (done' @ a))"
    using append_ok [of "put V temp op done'" path "to_token op" done' a] stagedD(16) [OF s] by (simp add: stagedD(15) [OF s, symmetric])
  have written: "does (here view su ph (put V temp op done') (M(path \<mapsto> op))) (on_env (po_append (su_port su) temp (to_token op) a))
      (\<lambda>_. here view su ph (put V temp op (done' @ a)) (M(path \<mapsto> op)))"
    by (rule put_moved [OF s app]) simp
  have rec: "does (here view su ph (put V temp op (done' @ a)) (M(path \<mapsto> op))) (write_chunks su op temp ps' None (done' @ a))
      (\<lambda>x w. here view su ph (put V temp op (done' @ a @ data)) (M(path \<mapsto> op)) w \<and> x = done' @ a @ data)"
    using feeds_more.IH [of "done' @ a"] feeds_more.prems by (simp only: append_assoc simp_thms)
  have "does (here view su ph (put V temp op done') (M(path \<mapsto> op))) (andthen (boundary su) (\<lambda>_. andthen (check_parents su temp) (\<lambda>_.
      andthen (on_env (po_append (su_port su) temp (to_token op) a)) (\<lambda>_.
      andthen (owned su temp op) (\<lambda>_. write_chunks su op temp ps' None (done' @ a))))))
    (\<lambda>x w. here view su ph (put V temp op (done' @ a @ data)) (M(path \<mapsto> op)) w \<and> x = done' @ a @ data)"
    by (rule runs_andthen [OF boundary_ok], rule runs_andthen [OF parents_ok(2) [OF s]], rule runs_andthen [OF written],
        rule runs_andthen [OF owned_quiet rec]) (rule put_suits [OF s])
  with feeds_more.hyps(2) size show ?case
    unfolding write_chunks.simps [of su op temp ps] feeds_more.hyps(1)
    by (simp del: fun_upd_apply) (rule runs_andthen [OF polls_ok])
qed

end


section \<open>Publishing\<close>

context undisturbed
begin

text \<open>A rename moves the staging name, a link keeps it.\<close>

lemma publish_new_ok:
  assumes s: "staged su M V path op temp" and d: "fits su op data"
  shows "does (here view su ph (put V temp op data) (M(path \<mapsto> op))) (publish_new su temp op)
    (\<lambda>_ w. here view su ph (put V path op data) (M(path \<mapsto> op)) w \<or> here view su ph (put (put V temp op data) path op data) (M(path \<mapsto> op)) w)"
proof -
  let ?A = "here view su ph (put V temp op data) (M(path \<mapsto> op))" and ?B = "here view su ph (put V path op data) (M(path \<mapsto> op))"
    and ?C = "here view su ph (put (put V temp op data) path op data) (M(path \<mapsto> op))"
  note f = stagedD [OF s]
  have there: "does ?A (owned su temp op) (\<lambda>i w. ?A w \<and> i \<noteq> None)"
    by (rule owned_there [OF put_suits(1) [OF s]]) simp
  have same: "does ?A (matches su temp op) (\<lambda>b w. ?A w \<and> b = fits su op data)"
    by (rule matches_ok [where path = temp]) simp
  have V: "(put V temp op data)(temp := None, path \<mapsto> (to_token op, False, data)) = put V path op data"
    using f(3,10) by (auto simp: fun_eq_iff)
  have pub: "does (\<lambda>e. view e = put V temp op data) (po_publish (su_port su) temp path (to_token op))
      (\<lambda>_ e. view e = put (put V temp op data) path op data \<or> view e = put V path op data)" if "housed (put V temp op data) path"
    using publish_ok [of "put V temp op data" path "to_token op" data] f(4,10,16) V that by (simp add: f(15) [symmetric])
  have go: "here view su ph W (M(path \<mapsto> op)) (w\<lparr>wd_env := e\<rparr>)"
    if "?A w" "view e = W" "W \<in> {put (put V temp op data) path op data, put V path op data}" for W w e
    by (rule here_moved [OF that(1) _ _ that(2)]) (use that(3) f in \<open>auto simp: suits_def fit_node_def\<close>)
  have d': "dirs_in (M(path \<mapsto> op)) (proper_parents path)" by (rule dirs_in_new [OF f(8,2)])
  have "does ?A (on_env (po_publish (su_port su) temp path (to_token op))) (\<lambda>_ w. ?C w \<or> ?B w)"
    by (rule here_cond [OF here_housed [OF _ d']], assumption, rule env_either [OF pub], assumption) (rule go, assumption, assumption, simp)+
  then have published: "does ?A (publishing su temp path (to_token op)) (\<lambda>_ w. ?B w \<or> ?C w)"
    unfolding publishing_def by (intro does_catching) (erule runs_conseq, auto)
  have suit: "suits (put W path op data) path op" for W using f(11) by (simp add: suits_def fit_node_def)
  have after: "does (\<lambda>w. ?B w \<or> ?C w) (andthen (owned su path op) (\<lambda>_. refresh_parent su path)) (\<lambda>_ w. ?B w \<or> ?C w)"
  proof (rule does_either)
    show "does ?B (andthen (owned su path op) (\<lambda>_. refresh_parent su path)) (\<lambda>_ w. ?B w \<or> ?C w)"
      by (rule runs_andthen [OF owned_quiet [OF suit]], rule runs_conseq [OF refresh_ok]) auto
    show "does ?C (andthen (owned su path op) (\<lambda>_. refresh_parent su path)) (\<lambda>_ w. ?B w \<or> ?C w)"
      by (rule runs_andthen [OF owned_quiet [OF suit]], rule runs_conseq [OF refresh_ok]) auto
  qed
  have rest: "does ?A (andthen (check_parents su path) (\<lambda>_. andthen (boundary su) (\<lambda>_.
         andthen (publishing su temp path (to_token op)) (\<lambda>_. andthen (owned su path op) (\<lambda>_. refresh_parent su path))))) (\<lambda>_ w. ?B w \<or> ?C w)"
    by (rule runs_andthen [OF parents_ok(1) [OF s]], rule runs_andthen [OF boundary_ok], rule runs_andthen [OF published after])
  have sel: "does ?A (if i = None then ret False else matches su temp op) (\<lambda>b w. ?A w \<and> b = fits su op data)" if "i \<noteq> None" for i :: "object_info option"
    using same that by (cases i) simp_all
  show ?thesis
    unfolding publish_new_def f(5)
    by (rule runs_andthen [OF there], rule runs_assume, rule runs_andthen [OF sel], assumption, rule runs_assume) (simp add: d rest)
qed

lemma drop_ok:
  assumes s: "staged su M V path op temp"
  shows "does (here view su ph (put (put V temp op data) path op data) (M(path \<mapsto> op\<lparr>to_state := SComplete\<rparr>)))
      (discard_left su temp (op\<lparr>to_state := SComplete\<rparr>))
      (\<lambda>_. here view su ph (put V path op data) (M(path \<mapsto> op\<lparr>to_state := SComplete\<rparr>)))"
proof -
  let ?op = "op\<lparr>to_state := SComplete\<rparr>" and ?W = "put (put V temp op data) path op data"
  let ?M = "M(path \<mapsto> ?op)"
  note f = stagedD [OF s]
  have V: "?W(temp := None) = put V path op data" using f(3,10) by (auto simp: fun_eq_iff)
  have d: "dirs_in ?M (proper_parents temp)" by (rule dirs_in_new [OF f(12,2)])
  have suit: "suits ?W temp ?op" using f(10,11) by (simp add: suits_def fit_node_def)
  have there: "does (here view su ph ?W ?M) (owned su temp ?op) (\<lambda>i w. here view su ph ?W ?M w \<and> i \<noteq> None)"
    by (rule owned_there [OF suit]) (use f(10) in simp)
  have e: "does (\<lambda>e. view e = ?W) (po_discard (su_port su) temp (to_token ?op)) (\<lambda>_ e. view e = ?W(temp := None) \<and> True)"
    using discard_ok [of ?W path "to_token op" data] f(10,16) by (simp add: f(15) [symmetric])
  have "does (here view su ph ?W ?M) (on_env (po_discard (su_port su) temp (to_token ?op)))
      (\<lambda>_ w. here view su ph (?W(temp := None)) ?M w \<and> True)"
    by (rule does_env [OF e], rule here_dropped, assumption, rule f(17), assumption, simp add: here_def)
  then have gone: "does (here view su ph ?W ?M) (on_env (po_discard (su_port su) temp (to_token ?op))) (\<lambda>_. here view su ph (put V path op data) ?M)"
    unfolding V by simp
  have away: "does (here view su ph (put V path op data) ?M) (owned su temp ?op) (\<lambda>_. here view su ph (put V path op data) ?M)"
    by (rule owned_quiet) (use f(3,10) in \<open>simp add: suits_def\<close>)
  have "does (here view su ph ?W ?M) (andthen (check_parents su temp) (\<lambda>_.
      andthen (on_env (po_discard (su_port su) temp (to_token ?op))) (\<lambda>_.
      andthen (owned su temp ?op) (\<lambda>_. andthen (refresh_parent su temp) (\<lambda>_. on_env (po_flush (su_port su) (parent_of temp)))))))
      (\<lambda>_. here view su ph (put V path op data) ?M)"
    by (rule runs_andthen [OF check_parents_ok [OF d]], rule runs_andthen [OF gone], rule runs_andthen [OF away],
        rule runs_andthen [OF refresh_ok flush_parent [OF d]])
  then show ?thesis
    unfolding discard_left_def by (intro runs_andthen [OF there] runs_assume) (simp add: whenever_def)
qed

lemma conclude_ok:
  assumes s: "staged su M V path op temp" and d: "fits su op data" and src: "to_kind op = KFile \<Longrightarrow> json_true (to_source op)"
    and W: "W = put V path op data \<or> W = put (put V temp op data) path op data"
  shows "does (here view su ph W (M(path \<mapsto> op))) (conclude su temp op) (\<lambda>_. rest view su ph (insert path (dom M)))"
proof -
  let ?op = "op\<lparr>to_state := SComplete\<rparr>"
  let ?C = "\<lambda>W. here view su ph W (M(path \<mapsto> ?op))"
  note f = stagedD [OF s]
  have suit: "suits W q op" if "q \<in> set (op_paths op)" for q
    using that f W by (auto simp: suits_def fit_node_def)
  have there: "W path = Some (to_token op, False, data)" using W by auto
  have t: "typed su ?op" using f(6) by (simp add: typed_def)
  have rec: "does (here view su ph W (M(path \<mapsto> op))) (record_op su op SComplete)
      (\<lambda>x w. here view su ph W ((M(path \<mapsto> op))(to_path op \<mapsto> ?op)) w \<and> x = ?op)"
    by (rule record_ok [OF t]) (use f(1,5,11) d src suit there in \<open>auto simp: others_done_def base_def placed_def\<close>)
  then have rec: "does (here view su ph W (M(path \<mapsto> op))) (record_op su op SComplete) (\<lambda>x w. ?C W w \<and> x = ?op)"
    by (simp add: f(5))
  have left: "does (?C W) (discard_left su temp ?op) (\<lambda>_. ?C (put V path op data))"
    using W
  proof
    assume W: "W = put V path op data"
    have gone: "does (?C W) (owned su temp ?op) (\<lambda>i w. ?C W w \<and> i = None)"
      by (rule owned_away) (simp add: W f(3,10))
    show ?thesis
      unfolding discard_left_def W [symmetric] by (intro runs_andthen [OF gone] runs_assume) (simp add: whenever_def runs_ret)
  qed (simp only:, rule drop_ok [OF s])
  have mark: "does (?C (put V path op data)) (whenever b (changing (\<lambda>w. w\<lparr>se_verified := g w\<rparr>))) (\<lambda>_. ?C (put V path op data))" for b g
    by (intro does_whenever changing_ok) simp
  have fin: "does (?C (put V path op data)) (ret x) (\<lambda>_. rest view su ph (insert path (dom M)))" for x
    by (rule runs_ret, rule rest_after [OF f(1,2), where V' = "put V path op data" and op = ?op]) simp_all
  have par: "does (here view su ph W (M(path \<mapsto> op))) (on_env (po_flush (su_port su) (parent_of (to_path op)))) (\<lambda>_. here view su ph W (M(path \<mapsto> op)))"
    unfolding f(5) by (rule flush_parent) (rule dirs_in_new [OF f(8,2)])
  show ?thesis
    unfolding conclude_def
    by (rule runs_andthen [OF par], rule runs_andthen [OF rec], rule runs_assume, simp only:,
        rule runs_andthen [OF left], rule runs_andthen [OF mark fin])
qed

lemma publish_ok':
  assumes s: "staged su M V path op temp" and d: "fits su op data" and src: "to_kind op = KFile \<Longrightarrow> json_true (to_source op)"
  shows "does (here view su ph (put V temp op data) (M(path \<mapsto> op))) (publish su op) (\<lambda>_. rest view su ph (insert path (dom M)))"
proof -
  note f = stagedD [OF s]
  let ?A = "here view su ph (put V temp op data) (M(path \<mapsto> op))"
  have away: "does ?A (owned su path op) (\<lambda>i w. ?A w \<and> i = None)"
    by (rule owned_away) (use f(4,10) in simp)
  have "does ?A (andthen (publish_new su temp op) (\<lambda>_. conclude su temp op)) (\<lambda>_. rest view su ph (insert path (dom M)))"
    by (rule runs_andthen [OF publish_new_ok [OF s d]], rule does_either; rule conclude_ok [OF s d src]) simp_all
  then show ?thesis
    unfolding publish_def f(5,7) option.case
    by (intro runs_andthen [OF check_ok'] runs_andthen [OF parents_ok(1) [OF s]] runs_andthen [OF away] runs_assume) simp
qed

lemma prepare_ok:
  assumes s: "staged su M V path op temp" and d: "int (length data) = to_size op" "su_sha su data = to_sha op"
    and src: "to_kind op = KFile \<Longrightarrow> json_true source" and r: "rd_fail r = None" "feeds (rd_pieces r) data"
  shows "does (here view su ph V (M(path \<mapsto> op))) (prepare su temp op r source) (\<lambda>_. rest view su ph (insert path (dom M)))"
proof -
  note f = stagedD [OF s]
  let ?op = "op\<lparr>to_source := source, to_state := SPrepared\<rparr>"
  let ?A = "here view su ph (put V temp op data) (M(path \<mapsto> op))"
  have s': "staged su M V path ?op temp" by (rule staged_state [OF s]) simp
  note f' = stagedD [OF s']
  have chunks: "does (here view su ph (put V temp op []) (M(path \<mapsto> op))) (write_chunks su op temp (rd_pieces r) None [])
      (\<lambda>x w. ?A w \<and> x = data)"
    using write_chunks_ok [OF s r(2), of "[]"] d(1) by simp
  have suit: "suits (put V temp op data) q op" if "q \<in> set (op_paths op)" for q
    using that f put_suits [OF s] by auto
  have "does ?A (record_op su (op\<lparr>to_source := source\<rparr>) SPrepared)
      (\<lambda>x w. here view su ph (put V temp op data) ((M(path \<mapsto> op))(to_path (op\<lparr>to_source := source\<rparr>) \<mapsto> (op\<lparr>to_source := source\<rparr>)\<lparr>to_state := SPrepared\<rparr>)) w
        \<and> x = (op\<lparr>to_source := source\<rparr>)\<lparr>to_state := SPrepared\<rparr>)"
    by (rule record_ok) (use f f'(6) suit in \<open>auto simp: others_done_def base_def op_paths_def suits_def fit_node_def\<close>)
  then have rec: "does ?A (record_op su (op\<lparr>to_source := source\<rparr>) SPrepared)
      (\<lambda>x w. here view su ph (put V temp ?op data) (M(path \<mapsto> ?op)) w \<and> x = ?op)" by (simp add: f(5))
  have fit: "fits su ?op data" using d by (simp add: fits_def)
  have pub: "does (here view su ph (put V temp ?op data) (M(path \<mapsto> ?op))) (publish su ?op) (\<lambda>_. rest view su ph (insert path (dom M)))"
    by (rule publish_ok' [OF s' fit]) (use src in simp)
  have "does ?A (andthen (boundary su) (\<lambda>_. andthen (on_env (po_flush (su_port su) temp)) (\<lambda>_.
       andthen (record_op su (op\<lparr>to_source := source\<rparr>) SPrepared) (publish su)))) (\<lambda>_. rest view su ph (insert path (dom M)))"
    by (rule runs_andthen [OF boundary_ok], rule runs_andthen [OF flush_quiet], simp, rule runs_andthen [OF rec], rule runs_assume)
      (use pub in simp)
  then show ?thesis
    unfolding prepare_def r(1)
    by (intro runs_andthen [OF stage_ok [OF s]] runs_andthen [OF chunks] runs_assume) (simp add: fits_def d)
qed

lemma write_new_ok:
  assumes s: "staged su M V path op temp" and i: "to_source op = JNull" "to_state op = SIntent"
    and d: "int (length data) = to_size op" "su_sha su data = to_sha op" and src: "to_kind op = KFile \<Longrightarrow> json_true source"
    and r: "rd_fail r = None" "feeds (rd_pieces r) data"
  shows "does (here view su ph V (M(path \<mapsto> op))) (write_new su op r source) (\<lambda>_. rest view su ph (insert path (dom M)))"
proof -
  note f = stagedD [OF s]
  let ?A = "here view su ph V (M(path \<mapsto> op))"
  have same: "op\<lparr>to_source := JNull\<rparr> = op" "op\<lparr>to_state := SIntent\<rparr> = op" using i by simp_all
  have away: "does ?A (owned su path op) (\<lambda>i w. ?A w \<and> i = None)"
    by (rule owned_away) (rule f(4))
  have "does ?A (record_op su op SIntent)
      (\<lambda>x w. here view su ph V ((M(path \<mapsto> op))(to_path op \<mapsto> op\<lparr>to_state := SIntent\<rparr>)) w \<and> x = op\<lparr>to_state := SIntent\<rparr>)"
    by (rule record_ok) (use f same in \<open>auto simp: others_done_def base_def suits_def\<close>)
  then have rec: "does ?A (record_op su op SIntent) (\<lambda>x w. ?A w \<and> x = op)" by (simp add: f(5) same)
  have "does ?A (andthen (record_op su op SIntent) (\<lambda>op. prepare su temp op r source)) (\<lambda>_. rest view su ph (insert path (dom M)))"
    by (intro runs_andthen [OF rec] runs_assume) (simp add: prepare_ok [OF s d src r] del: fun_upd_apply)
  then show ?thesis
    unfolding write_new_def f(5,7) option.case
    by (intro runs_andthen [OF check_ok'] runs_andthen [OF parents_ok(1) [OF s]] runs_andthen [OF away] runs_assume) (simp add: same)
qed

end


section \<open>Files\<close>

context undisturbed
begin

lemma rest_quiet:
  assumes "\<And>V M. does (here view su ph V M) m (\<lambda>_. here view su ph V M)"
  shows "does (rest view su ph K) m (\<lambda>_. rest view su ph K)"
  by (rule does_rest, rule runs_conseq [OF assms]) (auto simp: rest_def)

lemma new_staged:
  assumes "base V M" "M path = None" "op = new_op path kind n digest t" "typed su op" "\<forall>q \<in> set (op_paths op). V q = None"
    "kind \<noteq> KDirectory" "dirs_in M (proper_parents path)"
  shows "staged su M V path op (staging path t)"
  using assms by (auto simp: staged_def new_op_def op_paths_def)

lemma open_staged:
  assumes b: "base V M" "M path = None" and p: "planned (su_plan su) path kind n digest" and k: "kind \<noteq> KDirectory"
    and d: "dirs_in M (proper_parents path)"
  shows "does (here view su ph V M) (open_op su path kind n digest) (\<lambda>op w. here view su ph V (M(path \<mapsto> op)) w
    \<and> (\<exists>temp. staged su M V path op temp \<and> to_kind op = kind \<and> to_size op = n \<and> to_sha op = digest
        \<and> to_source op = JNull \<and> to_state op = SIntent))"
proof -
  have "does (here view su ph V M) (open_op su path kind n digest)
    (\<lambda>op w. here view su ph V (M(path \<mapsto> op)) w \<and> (\<exists>t. op = new_op path kind n digest t \<and> typed su op
       \<and> (\<forall>q \<in> set (op_paths op). V q = None)))"
    by (rule open_new_ok [OF b p]) (use k in simp)
  then show ?thesis
  proof (rule runs_conseq)
    fix op w
    assume w: "here view su ph V (M(path \<mapsto> op)) w \<and> (\<exists>t. op = new_op path kind n digest t \<and> typed su op
       \<and> (\<forall>q \<in> set (op_paths op). V q = None))"
    then obtain t where t: "op = new_op path kind n digest t" "typed su op" "\<forall>q \<in> set (op_paths op). V q = None" by blast
    from new_staged [OF b t k d] have "staged su M V path op (staging path t)" .
    with w t(1) show "here view su ph V (M(path \<mapsto> op)) w
      \<and> (\<exists>temp. staged su M V path op temp \<and> to_kind op = kind \<and> to_size op = n \<and> to_sha op = digest
        \<and> to_source op = JNull \<and> to_state op = SIntent)" by (auto simp: new_op_def)
  qed simp_all
qed

lemma deliver_record_ok:
  assumes p: "planned (su_plan su) path kind (int (length (encode v))) (su_sha su (encode v))" "kind \<notin> {KFile, KDirectory}"
    and K: "path \<notin> K" "set (proper_parents path) \<subseteq> K" "set (proper_parents path) \<subseteq> set (plan_directories (su_plan su))"
  shows "does (rest view su ph K) (deliver_record su path kind v) (\<lambda>_. rest view su ph (insert path K))"
proof (rule does_rest)
  fix V M
  assume b: "base V M" and M: "dom M = K"
  show "does (here view su ph V M) (deliver_record su path kind v) (\<lambda>_. rest view su ph (insert path K))"
  proof (rule here_cond [where b = "dirs_in M (proper_parents path)"])
    show "dirs_in M (proper_parents path)" if "here view su ph V M w" for w
      by (rule dirs_base [OF that b]) (use K M in simp_all)
    assume d: "dirs_in M (proper_parents path)"
    have none: "M path = None" using K(1) M by auto
    have k: "kind \<noteq> KDirectory" using p(2) by simp
    show "does (here view su ph V M) (deliver_record su path kind v) (\<lambda>_. rest view su ph (insert path K))"
      unfolding deliver_record_def Let_def
    proof (rule runs_andthen [OF open_staged [OF b none p(1) k d]], intro runs_assume, elim exE conjE)
      fix op temp
      assume s: "staged su M V path op temp" and op: "to_kind op = kind" "to_size op = int (length (encode v))"
        "to_sha op = su_sha su (encode v)" "to_source op = JNull" "to_state op = SIntent"
      have "does (here view su ph V (M(path \<mapsto> op))) (write_new su op (bytes_io (encode v)) JNull) (\<lambda>_. rest view su ph (insert path K))"
        unfolding M [symmetric] by (rule write_new_ok [OF s op(4,5), where data = "encode v"]) (use op p(2) in \<open>simp_all add: bytes_io_def feeds_slices\<close>)
      then show "does (here view su ph V (M(path \<mapsto> op))) (andthen (if to_state op \<in> {SPrepared, SComplete} then publish su op
          else write_new su op (bytes_io (encode v)) JNull) (\<lambda>_. ret ())) (\<lambda>_. rest view su ph (insert path K))"
        unfolding op(5) by simp (rule runs_andthen, assumption, rule runs_ret)
    qed
  qed
qed

lemma directories_ok:
  assumes "\<And>i. i < length ds \<Longrightarrow> ds ! i \<in> set (plan_directories (su_plan su))
      \<and> set (proper_parents (ds ! i)) \<subseteq> K \<union> set (take i ds) \<and> set (proper_parents (ds ! i)) \<subseteq> set (plan_directories (su_plan su))"
  shows "does (rest view su ph K) (each (directory su) ds) (\<lambda>_. rest view su ph (K \<union> set ds))"
  using assms
proof (induction ds arbitrary: K)
  case Nil
  show ?case by (simp add: runs_ret)
next
  case (Cons d ds)
  have d: "d \<in> set (plan_directories (su_plan su))" "set (proper_parents d) \<subseteq> K" "set (proper_parents d) \<subseteq> set (plan_directories (su_plan su))"
    using Cons.prems [of 0] by simp_all
  have "does (rest view su ph (insert d K)) (each (directory su) ds) (\<lambda>_. rest view su ph (insert d K \<union> set ds))"
  proof (rule Cons.IH)
    fix i
    assume "i < length ds"
    with Cons.prems [of "Suc i"] show "ds ! i \<in> set (plan_directories (su_plan su))
      \<and> set (proper_parents (ds ! i)) \<subseteq> insert d K \<union> set (take i ds) \<and> set (proper_parents (ds ! i)) \<subseteq> set (plan_directories (su_plan su))"
      by auto
  qed
  then have rest: "does (rest view su ph (insert d K)) (each (directory su) ds) (\<lambda>_. rest view su ph (K \<union> set (d # ds)))" by simp
  show ?case unfolding each.simps by (rule runs_andthen [OF directory_ok [OF d] rest])
qed

lemma make_parents_ok:
  assumes a: "a \<in> set (pv_closure (plan_proposal (su_plan su)))"
  shows "does (rest view su ph K) (make_parents su (artifact_target (su_plan su) a))
    (\<lambda>_. rest view su ph (K \<union> set (proper_parents (artifact_target (su_plan su) a))))"
proof -
  let ?ds = "rev (proper_parents (artifact_target (su_plan su) a))"
  have in_dirs: "set ?ds \<subseteq> set (plan_directories (su_plan su))" using a by (auto simp: plan_directories_def)
  have "does (rest view su ph K) (each (directory su) ?ds) (\<lambda>_. rest view su ph (K \<union> set ?ds))"
  proof (rule directories_ok, intro conjI)
    fix i
    assume i: "i < length ?ds"
    note pp = parents_prefix [OF i]
    show "?ds ! i \<in> set (plan_directories (su_plan su))" using in_dirs i nth_mem [OF i] by blast
    show "set (proper_parents (?ds ! i)) \<subseteq> K \<union> set (take i ?ds)" using pp by blast
    show "set (proper_parents (?ds ! i)) \<subseteq> set (plan_directories (su_plan su))" using pp in_dirs set_take_subset [of i ?ds] by blast
  qed
  then show ?thesis unfolding make_parents_def by simp
qed

lemma source_call_ok: "does (here view su ph V M) (source_call su) (\<lambda>_. here view su ph V M)"
  by (cases "po_shape (su_port su)") (simp_all add: source_call_def poll_ok boundary_ok runs_ret)

lemma use_source_ok:
  assumes s: "staged su M V path op temp" and i: "to_source op = JNull" "to_state op = SIntent"
    and z: "to_size op = ar_size a" "to_sha op = ar_sha a" and serves: "serves view (su_sha su) (su_port su) a c"
  shows "does (here view su ph V (M(path \<mapsto> op))) (use_source su a op c) (\<lambda>_. rest view su ph (insert path (dom M)))"
proof -
  let ?A = "here view su ph V (M(path \<mapsto> op))"
  have parts: "does ?A (each (\<lambda>part. andthen (on_env part) (\<lambda>_. source_call su)) (po_opening (su_port su) c)) (\<lambda>_. ?A)"
  proof (rule does_each)
    fix part
    assume "part \<in> set (po_opening (su_port su) c)"
    with serves have "does (\<lambda>e. view e = V) part (\<lambda>_ e. view e = V)" by (simp add: serves_def)
    from runs_andthen [OF env_ok' [OF this] source_call_ok]
    show "does ?A (andthen (on_env part) (\<lambda>_. source_call su)) (\<lambda>_. ?A)" .
  qed
  let ?R = "\<lambda>x :: catalog_snapshot \<times> reading. same_source (su_sha su) a c (fst x) = Inr True
     \<and> rd_fail (snd x) = None \<and> (\<exists>data. feeds (rd_pieces (snd x)) data \<and> int (length data) = ar_size a \<and> su_sha su data = ar_sha a)"
  have "does (\<lambda>e. view e = V) (po_open (su_port su) c) (\<lambda>x e. view e = V \<and> ?R x)"
    using serves unfolding serves_def by (simp add: case_prod_unfold)
  then have opened: "does ?A (on_env (po_open (su_port su) c)) (\<lambda>x w. ?A w \<and> ?R x)" by (rule env_ok)
  have closed_ok: "does (rest view su ph K) (on_env (po_close (su_port su) c)) (\<lambda>_. rest view su ph K)" for K
  proof (rule does_rest)
    fix V' M'
    assume b: "base V' M'" and K: "dom M' = K"
    have "does (\<lambda>e. view e = V') (po_close (su_port su) c) (\<lambda>_ e. view e = V')"
      using serves by (simp add: serves_def)
    from env_ok' [OF this] show "does (here view su ph V' M') (on_env (po_close (su_port su) c)) (\<lambda>_. rest view su ph K)"
      by (rule runs_conseq) (use b K in \<open>auto simp: rest_def\<close>)
  qed
  show ?thesis
    unfolding use_source_def
  proof (rule runs_andthen [OF parts], rule runs_andthen [OF opened], rule runs_assume)
    fix x :: "catalog_snapshot \<times> reading"
    assume "?R x"
    then obtain data where x: "same_source (su_sha su) a c (fst x) = Inr True" "rd_fail (snd x) = None" "feeds (rd_pieces (snd x)) data"
      "int (length data) = ar_size a" "su_sha su data = ar_sha a" by blast
    have "does ?A (write_new su op (snd x) (evidence_full c)) (\<lambda>_. rest view su ph (insert path (dom M)))"
      by (rule write_new_ok [OF s i, where data = data]) (use x z in \<open>simp_all add: evidence_full_true\<close>)
    with x have body: "does ?A (case same_source (su_sha su) a c (fst x) of Inl e \<Rightarrow> raising e
         | Inr same \<Rightarrow> if same then write_new su op (snd x) (evidence_full c)
             else refusing ''SOURCE_CHANGED'' (df_drive (ev_drive c))) (\<lambda>_. rest view su ph (insert path (dom M)))"
      by simp
    show "does ?A (case x of (snapshot, stream) \<Rightarrow> lastly (case same_source (su_sha su) a c snapshot of Inl e \<Rightarrow> raising e
         | Inr same \<Rightarrow> if same then write_new su op stream (evidence_full c)
             else refusing ''SOURCE_CHANGED'' (df_drive (ev_drive c))) (on_env (po_close (su_port su) c)))
        (\<lambda>_. rest view su ph (insert path (dom M)))"
      unfolding case_prod_unfold by (rule does_lastly [OF body closed_ok])
  qed
qed

lemma deliver_file_ok:
  assumes a: "a \<in> set (pv_closure (plan_proposal (su_plan su)))" and src: "ar_sources a = c # cs" "serves view (su_sha su) (su_port su) a c"
    and K: "artifact_target (su_plan su) a \<notin> K"
  shows "does (rest view su ph K) (deliver_file su a)
    (\<lambda>_. rest view su ph (insert (artifact_target (su_plan su) a) (K \<union> set (proper_parents (artifact_target (su_plan su) a)))))"
proof -
  let ?path = "artifact_target (su_plan su) a"
  let ?K = "K \<union> set (proper_parents ?path)"
  have out: "?path \<in> set (plan_outputs (su_plan su))" using a by (simp add: plan_outputs_def)
  have pp: "set (proper_parents ?path) \<subseteq> set (plan_directories (su_plan su))" using a by (auto simp: plan_directories_def)
  have K': "?path \<notin> ?K" using K pp out closed by (auto simp: plan_closed_def list_all_iff)
  have "does (rest view su ph ?K) (andthen (open_op su ?path KFile (ar_size a) (ar_sha a)) (\<lambda>op.
     andthen (owned su ?path op) (\<lambda>final.
     andthen (if to_state op \<in> {SPrepared, SComplete} \<and> json_true (to_source op)
              then (if final \<noteq> None then ret True else still_there su op)
              else if final \<noteq> None then refusing ''UNPREPARED_PUBLICATION'' ?path else ret False) (\<lambda>proven.
       if proven then publish su op else try_sources su a op (ar_sources a) []))))
    (\<lambda>_. rest view su ph (insert ?path ?K))"
  proof (rule does_rest)
    fix V M
    assume b: "base V M" and M: "dom M = ?K"
    show "does (here view su ph V M) (andthen (open_op su ?path KFile (ar_size a) (ar_sha a)) (\<lambda>op.
     andthen (owned su ?path op) (\<lambda>final.
     andthen (if to_state op \<in> {SPrepared, SComplete} \<and> json_true (to_source op)
              then (if final \<noteq> None then ret True else still_there su op)
              else if final \<noteq> None then refusing ''UNPREPARED_PUBLICATION'' ?path else ret False) (\<lambda>proven.
       if proven then publish su op else try_sources su a op (ar_sources a) []))))
    (\<lambda>_. rest view su ph (insert ?path ?K))"
    proof (rule here_cond [where b = "dirs_in M (proper_parents ?path)"])
      show "dirs_in M (proper_parents ?path)" if "here view su ph V M w" for w
        by (rule dirs_base [OF that b]) (use M pp in simp_all)
      assume d: "dirs_in M (proper_parents ?path)"
      have none: "M ?path = None" using K' M by auto
      show "does (here view su ph V M) (andthen (open_op su ?path KFile (ar_size a) (ar_sha a)) (\<lambda>op.
         andthen (owned su ?path op) (\<lambda>final.
         andthen (if to_state op \<in> {SPrepared, SComplete} \<and> json_true (to_source op)
                  then (if final \<noteq> None then ret True else still_there su op)
                  else if final \<noteq> None then refusing ''UNPREPARED_PUBLICATION'' ?path else ret False) (\<lambda>proven.
           if proven then publish su op else try_sources su a op (ar_sources a) []))))
        (\<lambda>_. rest view su ph (insert ?path ?K))"
      proof (rule runs_andthen [OF open_staged [OF b none planned_file [OF closed a] _ d]], simp, intro runs_assume, elim exE conjE)
        fix op temp
        assume s: "staged su M V ?path op temp" and op: "to_kind op = KFile" "to_size op = ar_size a" "to_sha op = ar_sha a"
          "to_source op = JNull" "to_state op = SIntent"
        let ?A = "here view su ph V (M(?path \<mapsto> op))"
        have away: "does ?A (owned su ?path op) (\<lambda>i w. ?A w \<and> i = None)"
          by (rule owned_away) (rule stagedD(4) [OF s])
        have tried: "does ?A (try_sources su a op (ar_sources a) []) (\<lambda>_. rest view su ph (insert ?path ?K))"
          unfolding src(1) try_sources.simps M [symmetric] by (rule does_catching, rule use_source_ok [OF s op(4,5,2,3) src(2)])
        show "does ?A (andthen (owned su ?path op) (\<lambda>final.
           andthen (if to_state op \<in> {SPrepared, SComplete} \<and> json_true (to_source op)
                    then (if final \<noteq> None then ret True else still_there su op)
                    else if final \<noteq> None then refusing ''UNPREPARED_PUBLICATION'' ?path else ret False) (\<lambda>proven.
             if proven then publish su op else try_sources su a op (ar_sources a) [])))
          (\<lambda>_. rest view su ph (insert ?path ?K))"
          by (intro runs_andthen [OF away] runs_assume) (use tried in \<open>simp add: op andthen_def ret_def runs_def del: fun_upd_apply\<close>)
      qed
    qed
  qed
  then show ?thesis
    unfolding deliver_file_def Let_def by (rule runs_andthen [OF make_parents_ok [OF a]])
qed

end

end
