(* ===== verification/SliceCompletes.thy ===== *)
theory SliceCompletes
  imports SliceProgress
begin

text \<open>
  A delivery on honest ports that nobody disturbs ends with the transaction complete: every step
  delivers the next file, the last one finishes, and a started session takes one step more than
  its plan has files.
\<close>

section \<open>Steps\<close>

text \<open>A step adds one file to the paths that are complete.\<close>

definition file_step :: "slice_plan \<Rightarrow> str set \<Rightarrow> str set \<Rightarrow> bool" where
  "file_step plan K K' \<longleftrightarrow> (\<exists>a \<in> set (pv_closure (plan_proposal plan)). artifact_target plan a \<notin> K
     \<and> K' = insert (artifact_target plan a) (K \<union> set (proper_parents (artifact_target plan a))))"

definition covers :: "slice_plan \<Rightarrow> str set \<Rightarrow> bool" where
  "covers plan K \<longleftrightarrow> (\<forall>a \<in> set (pv_closure (plan_proposal plan)). artifact_target plan a \<in> K)"

text \<open>Between steps: the ownership record is there, the receipt is not, and files have their directories.\<close>

definition midway :: "slice_plan \<Rightarrow> str set \<Rightarrow> bool" where
  "midway plan K \<longleftrightarrow> control_path plan \<in> K \<and> receipt_path plan \<notin> K
     \<and> (\<forall>a \<in> set (pv_closure (plan_proposal plan)). artifact_target plan a \<in> K \<longrightarrow> set (proper_parents (artifact_target plan a)) \<subseteq> K)"

text \<open>The directories of the plan include those above its own records.\<close>

definition layout_ok :: "slice_plan \<Rightarrow> bool" where
  "layout_ok plan \<longleftrightarrow> set (proper_parents (receipt_path plan)) \<subseteq> set (plan_directories plan)
     \<and> set (proper_parents (control_path plan)) \<subseteq> (if is_folder plan then {sp_root (pv_spec (plan_proposal plan))} else {})
     \<and> (is_folder plan \<longrightarrow> proper_parents (sp_root (pv_spec (plan_proposal plan))) = [])"

locale served = undisturbed su view for su :: "'e session" and view :: "'e \<Rightarrow> files" +
  assumes sources_ok: "a \<in> set (pv_closure (plan_proposal (su_plan su))) \<Longrightarrow>
      \<exists>c cs. ar_sources a = c # cs \<and> serves view (su_sha su) (su_port su) a c"
    and layout: "layout_ok (su_plan su)"
begin

lemma still_away:
  assumes "base V M" "M path = Some op" "path \<in> set (plan_outputs (su_plan su))"
  shows "does (here view su ph V M) (still_there su op) (\<lambda>b w. here view su ph V M w \<and> \<not> b)"
proof (rule here_cond [where b = "\<exists>temp. to_temporary op = Some temp \<and> V temp = None"])
  fix w
  assume w: "here view su ph V M w"
  note f = here_op(1,2) [OF w assms(2)]
  have "to_kind op \<noteq> KDirectory" using typed_kind [OF f(2)] f(1) assms(3) by simp
  with f(2) have t: "to_temporary op = Some (staging (to_path op) (to_token op))" by (simp add: typed_def)
  have "V (staging (to_path op) (to_token op)) = None"
    using typed_temp(1) [OF f(2) t] base_names [OF w assms(1)] by blast
  with t show "\<exists>temp. to_temporary op = Some temp \<and> V temp = None" by blast
next
  assume "\<exists>temp. to_temporary op = Some temp \<and> V temp = None"
  then obtain temp where t: "to_temporary op = Some temp" "V temp = None" by blast
  have away: "does (here view su ph V M) (owned su temp op) (\<lambda>i w. here view su ph V M w \<and> i = None)"
    by (rule owned_away) (rule t(2))
  show "does (here view su ph V M) (still_there su op) (\<lambda>b w. here view su ph V M w \<and> \<not> b)"
    unfolding still_there_def t(1) option.case by (intro runs_andthen [OF away] runs_ret) simp
qed

text \<open>A file that is complete is read back, at most once, and passed over.\<close>

lemma passed_over:
  assumes a: "a \<in> set (pv_closure (plan_proposal (su_plan su)))" and K: "artifact_target (su_plan su) a \<in> K"
    and k: "does (rest view su ph K) k Q"
  shows "does (rest view su ph K) (andthen (delivered su a) (\<lambda>found. case found of
       None \<Rightarrow> andthen (deliver_file su a) (\<lambda>_. ret True)
     | Some op \<Rightarrow>
         andthen (getting se_verified) (\<lambda>verified.
         andthen (whenever (to_token op \<notin> set verified)
             (andthen (matches su (to_path op) op) (\<lambda>same.
               if same then changing (\<lambda>w. w\<lparr>se_verified := List.insert (to_token op) (se_verified w)\<rparr>)
               else refusing ''RECOVERY_DIGEST_MISMATCH'' (to_path op)))) (\<lambda>_.
         andthen (still_there su op) (\<lambda>left.
         andthen (whenever left (andthen (publish su op) (\<lambda>_. ret ()))) (\<lambda>_. k)))))) Q"
proof (rule does_rest)
  fix V M
  let ?path = "artifact_target (su_plan su) a"
  let ?H = "here view su ph V M"
  assume b: "base V M" and M: "dom M = K"
  from K M obtain op where op: "M ?path = Some op" by auto
  with b have s: "to_state op = SComplete" by (auto simp: base_def)
  have out: "?path \<in> set (plan_outputs (su_plan su))" using a by (simp add: plan_outputs_def)
  have k': "does ?H k Q" by (rule runs_conseq [OF k]) (use b M in \<open>auto simp: rest_def\<close>)
  show "does ?H (andthen (delivered su a) (\<lambda>found. case found of
       None \<Rightarrow> andthen (deliver_file su a) (\<lambda>_. ret True)
     | Some op \<Rightarrow>
         andthen (getting se_verified) (\<lambda>verified.
         andthen (whenever (to_token op \<notin> set verified)
             (andthen (matches su (to_path op) op) (\<lambda>same.
               if same then changing (\<lambda>w. w\<lparr>se_verified := List.insert (to_token op) (se_verified w)\<rparr>)
               else refusing ''RECOVERY_DIGEST_MISMATCH'' (to_path op)))) (\<lambda>_.
         andthen (still_there su op) (\<lambda>left.
         andthen (whenever left (andthen (publish su op) (\<lambda>_. ret ()))) (\<lambda>_. k)))))) Q"
  proof (rule here_cond [where b = "to_path op = ?path \<and> (\<exists>c. V ?path = Some (to_token op, False, c) \<and> fits su op c \<and> suits V ?path op)"])
    fix w
    assume w: "?H w"
    note f = here_op(1,2) [OF w op]
    have "to_kind op \<noteq> KDirectory" using typed_kind [OF f(2)] f(1) out by simp
    then show "to_path op = ?path \<and> (\<exists>c. V ?path = Some (to_token op, False, c) \<and> fits su op c \<and> suits V ?path op)"
      using f(1) by (auto intro: here_placed [OF w op s])
  next
    assume "to_path op = ?path \<and> (\<exists>c. V ?path = Some (to_token op, False, c) \<and> fits su op c \<and> suits V ?path op)"
    then obtain c where c: "to_path op = ?path" "V ?path = Some (to_token op, False, c)" "fits su op c" "suits V ?path op" by blast
    have there: "does ?H (owned su ?path op) (\<lambda>i w. ?H w \<and> i \<noteq> None)" by (rule owned_there [OF c(4)]) (rule c(2))
    have "does ?H (if to_state op \<noteq> SComplete then ret None else andthen (owned su ?path op) (\<lambda>info. ret (if info = None then None else Some op)))
        (\<lambda>v w. ?H w \<and> v = Some op)"
      using s by simp (intro runs_andthen [OF there] runs_ret, simp)
    then have del: "does ?H (delivered su a) (\<lambda>v w. ?H w \<and> v = Some op)"
      unfolding delivered_def Let_def by (intro get_op_ok) (simp add: op)
    have same: "does ?H (matches su ?path op) (\<lambda>b w. ?H w \<and> b = fits su op c)"
      by (rule matches_ok [where path = ?path]) (rule c(2))
    have read: "does ?H (whenever b' (andthen (matches su ?path op) (\<lambda>same.
               if same then changing (\<lambda>w. w\<lparr>se_verified := List.insert (to_token op) (se_verified w)\<rparr>)
               else refusing ''RECOVERY_DIGEST_MISMATCH'' ?path))) (\<lambda>_. ?H)" for b'
      by (intro does_whenever runs_andthen [OF same] runs_assume) (simp add: c(3) changing_ok)
    have left: "does ?H (still_there su op) (\<lambda>b w. ?H w \<and> \<not> b)"
      by (rule still_away [OF b]) (use op out in simp_all)
    have "does ?H (andthen (getting se_verified) (\<lambda>verified.
         andthen (whenever (to_token op \<notin> set verified)
             (andthen (matches su ?path op) (\<lambda>same.
               if same then changing (\<lambda>w. w\<lparr>se_verified := List.insert (to_token op) (se_verified w)\<rparr>)
               else refusing ''RECOVERY_DIGEST_MISMATCH'' ?path))) (\<lambda>_.
         andthen (still_there su op) (\<lambda>left.
         andthen (whenever left (andthen (publish su op) (\<lambda>_. ret ()))) (\<lambda>_. k))))) Q"
    proof (rule runs_getting, rule runs_conseq [where P = ?H])
      fix verified :: "str list"
      have skip: "does ?H (whenever False m) (\<lambda>_. ?H)" for m by (simp add: whenever_def runs_ret)
      show "does ?H (andthen (whenever (to_token op \<notin> set verified)
             (andthen (matches su ?path op) (\<lambda>same.
               if same then changing (\<lambda>w. w\<lparr>se_verified := List.insert (to_token op) (se_verified w)\<rparr>)
               else refusing ''RECOVERY_DIGEST_MISMATCH'' ?path))) (\<lambda>_.
         andthen (still_there su op) (\<lambda>left.
         andthen (whenever left (andthen (publish su op) (\<lambda>_. ret ()))) (\<lambda>_. k)))) Q"
        by (rule runs_andthen [OF read], rule runs_andthen [OF left], rule runs_assume, simp only: not_False_eq_True,
            rule runs_andthen [OF skip k'])
    qed simp_all
    then show ?thesis by (intro runs_andthen [OF del] runs_assume) (simp add: c(1) cong: if_cong)
  qed
qed

lemma next_file_ok:
  assumes "set as \<subseteq> set (pv_closure (plan_proposal (su_plan su)))"
  shows "does (rest view su ph K) (next_file su as) (\<lambda>b w. if \<forall>a \<in> set as. artifact_target (su_plan su) a \<in> K
      then \<not> b \<and> rest view su ph K w else b \<and> (\<exists>K'. file_step (su_plan su) K K' \<and> rest view su ph K' w))"
  using assms
proof (induction as)
  case Nil
  show ?case by (simp add: runs_ret)
next
  case (Cons a as)
  let ?path = "artifact_target (su_plan su) a"
  have a: "a \<in> set (pv_closure (plan_proposal (su_plan su)))" and as: "set as \<subseteq> set (pv_closure (plan_proposal (su_plan su)))"
    using Cons.prems by simp_all
  show ?case
  proof (cases "?path \<in> K")
    case True
    have "does (rest view su ph K) (next_file su as) (\<lambda>b w. if \<forall>a \<in> set (a # as). artifact_target (su_plan su) a \<in> K
        then \<not> b \<and> rest view su ph K w else b \<and> (\<exists>K'. file_step (su_plan su) K K' \<and> rest view su ph K' w))"
      using Cons.IH [OF as] True by simp
    from passed_over [OF a True this] show ?thesis unfolding next_file.simps .
  next
    case False
    from sources_ok [OF a] obtain c cs where src: "ar_sources a = c # cs" "serves view (su_sha su) (su_port su) a c" by blast
    let ?K = "insert ?path (K \<union> set (proper_parents ?path))"
    have step: "file_step (su_plan su) K ?K" unfolding file_step_def using a False by blast
    have none: "does (rest view su ph K) (delivered su a) (\<lambda>v w. rest view su ph K w \<and> v = None)"
      unfolding delivered_def Let_def
    proof (rule does_rest, rule get_op_ok)
      fix V M
      assume "base V M" "dom M = K"
      then show "does (here view su ph V M) (case M ?path of None \<Rightarrow> ret None
          | Some op \<Rightarrow> if to_state op \<noteq> SComplete then ret None
              else andthen (owned su ?path op) (\<lambda>info. ret (if info = None then None else Some op)))
          (\<lambda>v w. rest view su ph K w \<and> v = None)"
        using False by (cases "M ?path") (auto simp: rest_def intro!: runs_ret)
    qed
    have "does (rest view su ph K) (andthen (deliver_file su a) (\<lambda>_. ret True))
        (\<lambda>b w. b \<and> (\<exists>K'. file_step (su_plan su) K K' \<and> rest view su ph K' w))"
      by (rule runs_andthen [OF deliver_file_ok [OF a src False]], rule runs_ret) (use step in blast)
    then show ?thesis
      unfolding next_file.simps by (intro runs_andthen [OF none] runs_assume) (simp add: False)
  qed
qed

end


section \<open>The store\<close>

lemma transition_goes:
  assumes l: "live sha s a device ph" and t: "TRANSITIONS ph = Some qs" "q \<in> qs" and q: "q \<in> {PTransferring, PVerifying}"
  obtains s' where "transition a device q why s = Inr (Status (at_owner a) q why, s')" "live sha s' a device q"
    "head s' (at_owner a) = head s (at_owner a)"
proof -
  have run: "q \<in> RUNNING_STATES" "q \<noteq> PStopped" "ph \<in> RUNNING_STATES" using q t(1) by (auto simp: running_iff transitions_running)
  note req = require_attempt_live [OF l run(3)]
  have tr: "transition a device q why s = Inr (Status (at_owner a) q why, set_row (at_owner a)
      (\<lambda>r. r\<lparr>tx_state := q, tx_reason := why, tx_acknowledged := (if q = PStopped then tx_stop_serial r else tx_acknowledged r)\<rparr>) s)"
    using t run by (simp add: transition_def req)
  let ?s = "apply_op sha undefined (OpTransition a device q why) s"
  have s': "?s = set_row (at_owner a) (\<lambda>r. r\<lparr>tx_state := q, tx_reason := why,
      tx_acknowledged := (if q = PStopped then tx_stop_serial r else tx_acknowledged r)\<rparr>) s"
    by (simp add: apply_op_def settle_def tr)
  have "live sha ?s a device q" by (rule live_move [OF l t run(1)])
  moreover have "head ?s (at_owner a) = head s (at_owner a)" 
    unfolding s' by (cases "st_txs s (at_owner a)") (simp_all add: head_def set_row_def)
  ultimately show thesis using tr s' by (intro that [of ?s]) simp_all
qed

text \<open>The last event of the journal is a receipt.\<close>

definition receipt_last :: "'e session \<Rightarrow> store \<Rightarrow> bool" where
  "receipt_last su s \<longleftrightarrow> (\<exists>es ms. events (su_sha su) s (su_tx su) = Inr (es @ [(''receipt'', JObj ms)]))"

text \<open>Every file stands at its final path with the sealed length and digest.\<close>

definition arrived :: "('e \<Rightarrow> files) \<Rightarrow> 'e session \<Rightarrow> 'e world \<Rightarrow> bool" where
  "arrived view su w \<longleftrightarrow> list_all (\<lambda>a. case view (wd_env w) (artifact_target (su_plan su) a) of
       None \<Rightarrow> False
     | Some (t, d, c) \<Rightarrow> \<not> d \<and> int (length c) = ar_size a \<and> su_sha su c = ar_sha a) (pv_closure (plan_proposal (su_plan su)))"

lemma arrived_simps [simp]:
  "arrived view su (w\<lparr>wd_turn := n\<rparr>) = arrived view su w" "arrived view su (w\<lparr>wd_store := s\<rparr>) = arrived view su w"
  "arrived view su (w\<lparr>wd_lease := b\<rparr>) = arrived view su w" "arrived view su (w\<lparr>se_terminal := b\<rparr>) = arrived view su w"
  by (simp_all add: arrived_def)

definition finished_at :: "('e \<Rightarrow> files) \<Rightarrow> 'e session \<Rightarrow> 'e world \<Rightarrow> bool" where
  "finished_at view su w \<longleftrightarrow> phase_at (wd_store w) (su_tx su) = Some PComplete \<and> \<not> wd_lease w \<and> arrived view su w"

context served
begin

lemma rest_running: "rest view su ph K w \<Longrightarrow> running su ph w"
  by (auto simp: rest_def here_def)

lemma rest_store:
  assumes "rest view su ph K w" "running su q (w\<lparr>wd_turn := n, wd_store := s\<rparr>)"
  shows "rest view su q K (w\<lparr>wd_turn := n, wd_store := s\<rparr>)"
  using assms by (auto simp: rest_def here_def)

lemma move_ok:
  assumes "TRANSITIONS ph = Some qs" "q \<in> qs" "q \<in> {PTransferring, PVerifying}"
  shows "does (rest view su ph K) (auth_transition su q '''') (\<lambda>st w. rest view su q K w \<and> status_state st = q)"
proof (rule does_pre)
  fix w
  assume w: "rest view su ph K w"
  then have r: "wd_lease w" "\<not> se_terminal w" "live (su_sha su) (wd_store w) (su_attempt su) (su_device su) ph"
    "head (wd_store w) (su_tx su) = se_head w" using rest_running [OF w] by (simp_all add: running_def)
  obtain s' where t: "transition (su_attempt su) (su_device su) q '''' (wd_store w) = Inr (Status (at_owner (su_attempt su)) q '''', s')"
    "live (su_sha su) s' (su_attempt su) (su_device su) q" "head s' (at_owner (su_attempt su)) = head (wd_store w) (at_owner (su_attempt su))"
    by (rule transition_goes [OF r(3) assms])
  have e: "auth_transition su q '''' w = (Inr (Status (su_tx su) q ''''), w\<lparr>wd_turn := wd_turn w + 1, wd_store := s'\<rparr>)"
    using r(1) t(1) assms(3) by (auto simp: auth_transition_def lease_check_def andthen_def getting_def ret_def storing_ok owner_ok)
  have "rest view su q K (w\<lparr>wd_turn := wd_turn w + 1, wd_store := s'\<rparr>)"
    by (rule rest_store [OF w]) (use r t assms(3) in \<open>simp add: running_def owner_ok\<close>)
  with e show "does (\<lambda>w'. w' = w) (auth_transition su q '''') (\<lambda>st w. rest view su q K w \<and> status_state st = q)"
    by (simp add: runs_def)
qed

lemma rest_turn [simp]: "rest view su ph K (w\<lparr>wd_turn := n\<rparr>) = rest view su ph K w"
  by (simp add: rest_def)

lemma get_state_ok: "does (rest view su ph K) (get_state su) (\<lambda>st w. rest view su ph K w \<and> status_state st = ph)"
proof (rule does_pre)
  fix w
  assume w: "rest view su ph K w"
  then have "live (su_sha su) (wd_store w) (su_attempt su) (su_device su) ph" using rest_running [OF w] by (simp add: running_def)
  then obtain r where r: "st_txs (wd_store w) (su_tx su) = Some r" "tx_state r = ph" by (rule live_row) (simp add: owner_ok)
  then have "get_state su w = (Inr (Status (su_tx su) ph (tx_reason r)), w\<lparr>wd_turn := wd_turn w + 1\<rparr>)"
    by (simp add: get_state_def asking_ok get_status_def)
  with w show "does (\<lambda>w'. w' = w) (get_state su) (\<lambda>st w. rest view su ph K w \<and> status_state st = ph)" by (simp add: runs_def)
qed

lemma get_state_done: "does (finished_at view su) (get_state su) (\<lambda>st w. finished_at view su w \<and> status_state st = PComplete)"
proof (rule does_pre)
  fix w
  assume w: "finished_at view su w"
  then obtain r where r: "st_txs (wd_store w) (su_tx su) = Some r" "tx_state r = PComplete" by (auto simp: finished_at_def phase_at_def)
  then have "get_state su w = (Inr (Status (su_tx su) PComplete (tx_reason r)), w\<lparr>wd_turn := wd_turn w + 1\<rparr>)"
    by (simp add: get_state_def asking_ok get_status_def)
  with w show "does (\<lambda>w'. w' = w) (get_state su) (\<lambda>st w. finished_at view su w \<and> status_state st = PComplete)"
    by (simp add: runs_def finished_at_def)
qed

section \<open>The last step\<close>

lemma verify_file_ok:
  assumes a: "a \<in> set (pv_closure (plan_proposal (su_plan su)))" and K: "artifact_target (su_plan su) a \<in> K"
  shows "does (rest view su ph K) (verify_file su a) (\<lambda>_. rest view su ph K)"
  unfolding verify_file_def Let_def
proof (rule does_rest, rule get_op_ok)
  fix V M
  let ?path = "artifact_target (su_plan su) a"
  assume b: "base V M" and M: "dom M = K"
  from K M obtain op where op: "M ?path = Some op" by auto
  with b have s: "to_state op = SComplete" by (auto simp: base_def)
  have out: "?path \<in> set (plan_outputs (su_plan su))" using a by (simp add: plan_outputs_def)
  have here: "rest view su ph K w" if "here view su ph V M w" for w using that b M by (auto simp: rest_def)
  show "does (here view su ph V M) (verify_found su ?path (M ?path)) (\<lambda>_. rest view su ph K)"
  proof (rule here_cond [where b = "json_true (to_source op)"])
    fix w
    assume w: "here view su ph V M w"
    have "to_kind op = KFile"
      using here_op(1,2) [OF w op] planned_artifact [OF closed _ artifact_at_target [OF closed a]] by (auto simp: typed_def)
    then show "json_true (to_source op)" by (rule here_op(4) [OF w op s])
  next
    assume j: "json_true (to_source op)"
    show "does (here view su ph V M) (verify_found su ?path (M ?path)) (\<lambda>_. rest view su ph K)"
      unfolding verify_found_def op option.case
      by (simp add: s j, rule complete_ok [where M = M and path = ?path and K = "\<lambda>same. if \<not> same then e same else k" for e k, simplified])
        (use op s out here in \<open>auto intro: runs_ret\<close>)
  qed
qed

lemma verify_files_ok:
  assumes "set as \<subseteq> set (pv_closure (plan_proposal (su_plan su)))" "\<forall>a \<in> set as. artifact_target (su_plan su) a \<in> K"
  shows "does (rest view su ph K) (verify_files su as) (\<lambda>_. rest view su ph K)"
  using assms
proof (induction as)
  case Nil
  show ?case by (simp add: runs_ret)
next
  case (Cons a as)
  have "does (rest view su ph K) (andthen (verify_files su as) (\<lambda>fs. ret (f # fs))) (\<lambda>_. rest view su ph K)" for f
    by (rule runs_andthen [OF Cons.IH]) (use Cons.prems in \<open>simp_all add: runs_ret\<close>)
  then show ?case
    unfolding verify_files.simps by (intro runs_andthen [OF verify_file_ok]) (use Cons.prems in simp_all)
qed

lemma append_receipt_ok:
  "does (rest view su ph K) (append_receipt su (JObj ms)) (\<lambda>_ w. rest view su ph K w \<and> receipt_last su (wd_store w))"
proof (rule does_pre)
  fix w
  assume w: "rest view su ph K w"
  then obtain V M where h: "here view su ph V M w" "base V M" "dom M = K" by (auto simp: rest_def)
  obtain v s' where a: "auth_append su ''receipt'' (JObj ms) (se_head w) w = (Inr v, w\<lparr>wd_turn := wd_turn w + 1, wd_store := s'\<rparr>)"
    "live (su_sha su) s' (su_attempt su) (su_device su) ph" "head s' (su_tx su) = Some v"
    "events (su_sha su) s' (su_tx su) = Inr (log_at (su_sha su) (wd_store w) (su_tx su) @ [(''receipt'', JObj ms)])"
    by (rule auth_append_ok [OF h(1)])
  have e: "append_receipt su (JObj ms) w = (Inr (), w\<lparr>wd_turn := wd_turn w + 1, wd_store := s', se_head := Some v\<rparr>)"
    by (simp add: append_receipt_def andthen_def getting_def changing_def a(1))
  have "here view su ph V M (w\<lparr>wd_turn := wd_turn w + 1, wd_store := s', se_head := Some v\<rparr>)"
    using h(1) a(2,3) by (simp add: here_def running_def)
  with h have "rest view su ph K (w\<lparr>wd_turn := wd_turn w + 1, wd_store := s', se_head := Some v\<rparr>)" by (auto simp: rest_def)
  with e a(4) show "does (\<lambda>w'. w' = w) (append_receipt su (JObj ms)) (\<lambda>_ w. rest view su ph K w \<and> receipt_last su (wd_store w))"
    by (auto simp: runs_def receipt_last_def)
qed

lemma rest_arrived:
  assumes w: "rest view su ph K w" and c: "covers (su_plan su) K"
  shows "arrived view su w"
  unfolding arrived_def list_all_iff
proof
  fix a
  let ?path = "artifact_target (su_plan su) a"
  assume a: "a \<in> set (pv_closure (plan_proposal (su_plan su)))"
  from w obtain V M where h: "here view su ph V M w" "base V M" "dom M = K" by (auto simp: rest_def)
  from c a h(3) obtain op where op: "M ?path = Some op" by (auto simp: covers_def)
  with h(2) have s: "to_state op = SComplete" by (auto simp: base_def)
  note f = here_op(1,2) [OF h(1) op]
  note at = artifact_at_target [OF closed a]
  have p: "planned (su_plan su) ?path (to_kind op) (to_size op) (to_sha op)" using f by (simp add: typed_def)
  have k: "to_kind op = KFile" by (rule planned_artifact [OF closed p at])
  with p at have z: "to_size op = ar_size a" "to_sha op = ar_sha a" by (simp_all add: planned_def)
  obtain x where x: "V ?path = Some (to_token op, False, x)" "fits su op x"
    by (rule here_placed [OF h(1) op s]) (simp add: k)
  have "view (wd_env w) = V" using h(1) by (simp add: here_def)
  with x z show "case view (wd_env w) ?path of None \<Rightarrow> False
      | Some (t, d, c) \<Rightarrow> \<not> d \<and> int (length c) = ar_size a \<and> su_sha su c = ar_sha a"
    by (simp add: fits_def)
qed

lemma auth_complete_ok:
  assumes cov: "covers (su_plan su) K"
  shows "does (\<lambda>w. rest view su PVerifying K w \<and> receipt_last su (wd_store w)) (auth_complete su) (\<lambda>_. finished_at view su)"
proof (rule does_pre, elim conjE)
  fix w
  assume w: "rest view su PVerifying K w" and last: "receipt_last su (wd_store w)"
  then have r: "wd_lease w" "live (su_sha su) (wd_store w) (su_attempt su) (su_device su) PVerifying"
    using rest_running [OF w] by (simp_all add: running_def)
  from last obtain es ms where e: "events (su_sha su) (wd_store w) (at_owner (su_attempt su)) = Inr (es @ [(''receipt'', JObj ms)])"
    by (auto simp: receipt_last_def owner_ok)
  from live_complete [OF r(2) e, of undefined]
  have p: "phase_at (settle (wd_store w) (complete (su_sha su) (su_attempt su) (su_device su) (wd_store w))) (su_tx su) = Some PComplete"
    by (simp add: apply_op_def owner_ok)
  have "phase_at (wd_store w) (su_tx su) = Some PVerifying"
    using r(2) by (auto simp: live_def phase_at_def owner_ok)
  with p obtain s' where c: "complete (su_sha su) (su_attempt su) (su_device su) (wd_store w) = Inr ((), s')"
    by (cases "complete (su_sha su) (su_attempt su) (su_device su) (wd_store w)") (auto simp: settle_def)
  with p have "phase_at s' (su_tx su) = Some PComplete" by (simp add: settle_def)
  then show "does (\<lambda>w'. w' = w) (auth_complete su) (\<lambda>_. finished_at view su)"
    using r(1) c by (simp add: auth_complete_def lease_check_def lease_close_def andthen_def getting_def ret_def changing_def
        storing_ok runs_def finished_at_def rest_arrived [OF w cov])
qed

lemma end_rest: "does (\<lambda>w. rest view su ph K w \<and> R (wd_store w)) (end_session su) (\<lambda>_ w. rest view su ph K w \<and> R (wd_store w))"
proof (rule does_pre, elim conjE)
  fix w
  assume "rest view su ph K w" and R: "R (wd_store w)"
  then obtain V M where h: "here view su ph V M w" "base V M" "dom M = K" by (auto simp: rest_def)
  have e: "does (\<lambda>e. view e = V) (po_end (su_port su)) (\<lambda>_ e. view e = V \<and> True)" using end_ok [of V] by simp
  have "does (\<lambda>w'. here view su ph V M w' \<and> R (wd_store w')) (end_session su)
      (\<lambda>_ w. (here view su ph V M w \<and> R (wd_store w)) \<and> True)"
    unfolding end_session_def by (rule does_env [OF e]) (auto simp: here_def)
  then show "does (\<lambda>w'. w' = w) (end_session su) (\<lambda>_ w. rest view su ph K w \<and> R (wd_store w))"
    by (rule runs_conseq) (use h R in \<open>auto simp: rest_def\<close>)
qed

end


lemma file_step_midway:
  assumes "midway plan K" "file_step plan K K'" "plan_closed plan"
  shows "midway plan K'"
proof -
  from assms(2) obtain a where a: "a \<in> set (pv_closure (plan_proposal plan))"
    "K' = insert (artifact_target plan a) (K \<union> set (proper_parents (artifact_target plan a)))" by (auto simp: file_step_def)
  have "receipt_path plan \<notin> artifact_target plan ` set (pv_closure (plan_proposal plan))"
    using assms(3) by (auto simp: plan_closed_def plan_outputs_def)
  with a(1) have t: "artifact_target plan a \<noteq> receipt_path plan" by (metis imageI)
  have outs: "artifact_target plan b \<notin> set (plan_directories plan)" "receipt_path plan \<notin> set (plan_directories plan)"
    if "b \<in> set (pv_closure (plan_proposal plan))" for b
    using assms(3) that by (auto simp: plan_closed_def plan_outputs_def list_all_iff)
  have d: "set (proper_parents (artifact_target plan a)) \<subseteq> set (plan_directories plan)" using a(1) by (auto simp: plan_directories_def)
  have same: "b \<in> set (pv_closure (plan_proposal plan)) \<Longrightarrow> artifact_target plan b \<in> K' \<Longrightarrow>
      artifact_target plan b = artifact_target plan a \<or> artifact_target plan b \<in> K" for b
    using a(2) d outs(1) [of b] by auto
  have "receipt_path plan \<notin> K'" using a d t outs(2) [OF a(1)] assms(1) by (auto simp: midway_def)
  moreover have "set (proper_parents (artifact_target plan b)) \<subseteq> K'"
    if "b \<in> set (pv_closure (plan_proposal plan))" "artifact_target plan b \<in> K'" for b
    using same [OF that] a(2) assms(1) that(1) unfolding midway_def by (elim disjE) (simp, blast, blast)
  ultimately show ?thesis using assms(1) a(2) by (simp add: midway_def)
qed

text \<open>The number of files still to deliver.\<close>

definition files_left :: "slice_plan \<Rightarrow> str set \<Rightarrow> nat" where
  "files_left plan K = length (filter (\<lambda>a. artifact_target plan a \<notin> K) (pv_closure (plan_proposal plan)))"

lemma file_step_left: "file_step plan K K' \<Longrightarrow> files_left plan K' < files_left plan K"
proof -
  assume "file_step plan K K'"
  then obtain a where a: "a \<in> set (pv_closure (plan_proposal plan))" "artifact_target plan a \<notin> K" "artifact_target plan a \<in> K'" "K \<subseteq> K'"
    by (auto simp: file_step_def)
  let ?xs = "pv_closure (plan_proposal plan)"
  have "filter (\<lambda>a. artifact_target plan a \<notin> K') ?xs = filter (\<lambda>a. artifact_target plan a \<notin> K') (filter (\<lambda>a. artifact_target plan a \<notin> K) ?xs)"
    using a(4) by (auto intro!: filter_cong)
  moreover have "length (filter (\<lambda>a. artifact_target plan a \<notin> K') (filter (\<lambda>a. artifact_target plan a \<notin> K) ?xs))
      < length (filter (\<lambda>a. artifact_target plan a \<notin> K) ?xs)"
    by (rule length_filter_less [of a]) (use a in simp_all)
  ultimately show ?thesis by (simp add: files_left_def)
qed

lemma files_left_covers: "files_left plan K = 0 \<longleftrightarrow> covers plan K"
  by (auto simp: files_left_def covers_def filter_empty_conv)

text \<open>What a step leaves behind, with the phase that it answers.\<close>

definition stepped :: "('e \<Rightarrow> files) \<Rightarrow> 'e session \<Rightarrow> str set \<Rightarrow> phase \<Rightarrow> 'e world \<Rightarrow> bool" where
  "stepped view su K q w \<longleftrightarrow> (if covers (su_plan su) K then q = PComplete \<and> finished_at view su w
     else q = PTransferring \<and> (\<exists>K'. file_step (su_plan su) K K' \<and> rest view su PTransferring K' w))"

lemma stepped_simps:
  "covers (su_plan su) K \<Longrightarrow> stepped view su K PComplete = finished_at view su"
  "\<not> covers (su_plan su) K \<Longrightarrow> stepped view su K PTransferring = (\<lambda>w. \<exists>K'. file_step (su_plan su) K K' \<and> rest view su PTransferring K' w)"
  "q \<noteq> PTransferring \<Longrightarrow> \<not> (covers (su_plan su) K \<and> q = PComplete) \<Longrightarrow> \<not> stepped view su K q w"
  by (auto simp: stepped_def fun_eq_iff)

context served
begin

lemma finish_ok:
  assumes m: "midway (su_plan su) K" and c: "covers (su_plan su) K"
  shows "does (rest view su PTransferring K) (finish su) (\<lambda>_. finished_at view su)"
proof -
  let ?as = "pv_closure (plan_proposal (su_plan su))" and ?r = "receipt_path (su_plan su)"
  have dirs: "set (plan_directories (su_plan su)) \<subseteq> K" using m c by (auto simp: plan_directories_def midway_def covers_def)
  have control: "does (rest view su PTransferring K) (verify_control su True) (\<lambda>_. rest view su PTransferring K)"
  proof (rule does_rest)
    fix V M
    assume b: "base V M" and M: "dom M = K"
    from m M obtain op where "M (control_path (su_plan su)) = Some op" by (auto simp: midway_def)
    with b have op: "\<exists>op. M (control_path (su_plan su)) = Some op \<and> to_state op = SComplete" by (auto simp: base_def)
    have "does (here view su PTransferring V M) (verify_control su True) (\<lambda>_. here view su PTransferring V M)"
      by (rule verify_control_ok [where M = M]) (rule op)
    then show "does (here view su PTransferring V M) (verify_control su True) (\<lambda>_. rest view su PTransferring K)"
      by (rule runs_conseq) (use b M in \<open>auto simp: rest_def\<close>)
  qed
  have files: "does (rest view su PVerifying K) (verify_files su ?as) (\<lambda>_. rest view su PVerifying K)"
    by (rule verify_files_ok) (use c in \<open>auto simp: covers_def\<close>)
  have last: "does (rest view su PVerifying K) (let payload = receipt_json (su_sha su) (su_plan su) (su_tx su) fs in
      andthen (deliver_record su ?r KReceipt payload) (\<lambda>_.
      andthen (append_receipt su payload) (\<lambda>_.
      andthen (whenever (session_only (su_plan su)) (end_session su)) (\<lambda>_. auth_complete su)))) (\<lambda>_. finished_at view su)" for fs
  proof -
    have "\<exists>ms. receipt_json (su_sha su) (su_plan su) (su_tx su) fs = JObj ms"
      unfolding receipt_json_def by (cases "su_plan su") (simp_all split: folder_root.split)
    then obtain ms where v: "receipt_json (su_sha su) (su_plan su) (su_tx su) fs = JObj ms" ..
    have rec: "does (rest view su PVerifying K) (deliver_record su ?r KReceipt (JObj ms)) (\<lambda>_. rest view su PVerifying (insert ?r K))"
      by (rule deliver_record_ok) (use m dirs layout in \<open>auto simp: planned_def midway_def layout_ok_def\<close>)
    show ?thesis
      unfolding v Let_def
      by (rule runs_andthen [OF rec], rule runs_andthen [OF append_receipt_ok], rule runs_andthen [OF does_whenever auth_complete_ok])
        (rule end_rest, use c in \<open>simp add: covers_def\<close>)
  qed
  show ?thesis
    unfolding finish_def
    by (rule runs_andthen [OF control], rule runs_andthen, rule move_ok [OF TRANSITIONS.simps(2)], simp, simp, rule runs_assume,
        rule runs_andthen [OF files], rule runs_andthen [OF rest_quiet last], rule audit_ok)
qed

lemma step_body_ok:
  assumes m: "midway (su_plan su) K"
  shows "does (rest view su PTransferring K) (step_body su PTransferring)
    (\<lambda>answer w. case answer of None \<Rightarrow> covers (su_plan su) K \<and> finished_at view su w | Some st \<Rightarrow> stepped view su K (status_state st) w)"
proof -
  let ?as = "pv_closure (plan_proposal (su_plan su))"
  have next': "does (rest view su PTransferring K) (next_file su ?as) (\<lambda>b w. if covers (su_plan su) K
      then \<not> b \<and> rest view su PTransferring K w else b \<and> (\<exists>K'. file_step (su_plan su) K K' \<and> rest view su PTransferring K' w))"
    using next_file_ok [of ?as PTransferring K] by (simp add: covers_def)
  have skip: "does (rest view su PTransferring K) (whenever (PTransferring \<in> {PWaitingSource, PBlockedSource, PWaitingDestination}) k)
      (\<lambda>_. rest view su PTransferring K)" for k
    by (rule does_whenever) simp
  show ?thesis
    unfolding step_body_def
  proof (rule runs_andthen [OF rest_quiet], rule check_ok', rule runs_andthen [OF rest_quiet], rule audit_ok, rule runs_andthen [OF skip],
      rule runs_andthen [OF next'])
    fix worked
    show "does (\<lambda>w. if covers (su_plan su) K then \<not> worked \<and> rest view su PTransferring K w
          else worked \<and> (\<exists>K'. file_step (su_plan su) K K' \<and> rest view su PTransferring K' w))
        (if worked then andthen (get_state su) (\<lambda>st. ret (Some st)) else andthen (finish su) (\<lambda>_. ret None))
        (\<lambda>answer w. case answer of None \<Rightarrow> covers (su_plan su) K \<and> finished_at view su w | Some st \<Rightarrow> stepped view su K (status_state st) w)"
    proof (cases "covers (su_plan su) K")
      case True
      show ?thesis
      proof (cases worked)
        case False
        have "does (rest view su PTransferring K) (andthen (finish su) (\<lambda>_. ret None))
            (\<lambda>answer w. case answer of None \<Rightarrow> covers (su_plan su) K \<and> finished_at view su w | Some st \<Rightarrow> stepped view su K (status_state st) w)"
          by (rule runs_andthen [OF finish_ok [OF m True]], rule runs_ret) (simp add: True)
        with True False show ?thesis by simp
      qed (simp add: True runs_def)
    next
      case False
      show ?thesis
      proof (cases worked)
        case True
        have "does (\<lambda>w. \<exists>K'. file_step (su_plan su) K K' \<and> rest view su PTransferring K' w) (andthen (get_state su) (\<lambda>st. ret (Some st)))
            (\<lambda>answer w. case answer of None \<Rightarrow> covers (su_plan su) K \<and> finished_at view su w | Some st \<Rightarrow> stepped view su K (status_state st) w)"
        proof (rule does_pre, elim exE conjE)
          fix w K'
          assume K': "file_step (su_plan su) K K'" and w: "rest view su PTransferring K' w"
          have "does (rest view su PTransferring K') (andthen (get_state su) (\<lambda>st. ret (Some st)))
            (\<lambda>answer w. case answer of None \<Rightarrow> covers (su_plan su) K \<and> finished_at view su w | Some st \<Rightarrow> stepped view su K (status_state st) w)"
            by (rule runs_andthen [OF get_state_ok], rule runs_ret) (use False K' in \<open>auto simp: stepped_def\<close>)
          then show "does (\<lambda>w'. w' = w) (andthen (get_state su) (\<lambda>st. ret (Some st)))
            (\<lambda>answer w. case answer of None \<Rightarrow> covers (su_plan su) K \<and> finished_at view su w | Some st \<Rightarrow> stepped view su K (status_state st) w)"
            by (rule runs_conseq) (use w in auto)
        qed
        with True False show ?thesis by simp
      qed (simp add: False runs_def)
    qed
  qed
qed

lemma lease_ok': "does (rest view su ph K) lease_check (\<lambda>_. rest view su ph K)"
proof (rule does_pre)
  fix w
  assume w: "rest view su ph K w"
  then have "wd_lease w" using rest_running [OF w] by (simp add: running_def)
  with w show "does (\<lambda>w'. w' = w) lease_check (\<lambda>_. rest view su ph K)"
    by (simp add: lease_check_def andthen_def getting_def ret_def runs_def)
qed

lemma step_plain_ok:
  assumes m: "midway (su_plan su) K"
  shows "does (rest view su PTransferring K) (step_plain su) (\<lambda>st. stepped view su K (status_state st))"
proof -
  have going: "does (\<lambda>w. rest view su PTransferring K w \<and> se_terminal w = t) (if t then not_resumable d else k) Q"
    if "does (rest view su PTransferring K) k Q" for t d k Q
  proof (cases t)
    case True
    have "\<not> (rest view su PTransferring K w \<and> se_terminal w = t)" for w
      using True rest_running [of PTransferring K w] by (auto simp: running_def)
    then show ?thesis by (rule does_absurd)
  next
    case False
    with that show ?thesis by (auto intro: runs_conseq)
  qed
  have body: "does (rest view su PTransferring K) (catching (step_body su PTransferring) h)
      (\<lambda>answer w. case answer of None \<Rightarrow> covers (su_plan su) K \<and> finished_at view su w | Some st \<Rightarrow> stepped view su K (status_state st) w)" for h
    by (rule does_catching [OF step_body_ok [OF m]])
  have answer: "does (\<lambda>w. case answer of None \<Rightarrow> covers (su_plan su) K \<and> finished_at view su w | Some st \<Rightarrow> stepped view su K (status_state st) w)
      (case answer of Some st \<Rightarrow> ret st | None \<Rightarrow> get_state su) (\<lambda>st. stepped view su K (status_state st))" for answer
  proof (cases answer)
    case None
    show ?thesis
    proof (cases "covers (su_plan su) K")
      case True
      with None show ?thesis by (simp, intro runs_conseq [OF get_state_done]) (auto simp: stepped_def)
    qed (simp add: None runs_def)
  qed (simp add: runs_ret)
  show ?thesis
    unfolding step_plain_def
  proof (rule runs_getting, rule going, rule runs_andthen [OF does_catching [OF get_state_ok]], rule runs_assume)
    fix current
    assume q: "status_state current = PTransferring"
    show "does (rest view su PTransferring K) (if status_state current = PComplete then ret current
       else if status_state current \<in> {PFailed, PInvalidated}
       then andthen terminate (\<lambda>_. andthen lease_close (\<lambda>_. not_resumable (phase_text (status_state current))))
       else andthen lease_check (\<lambda>_.
         andthen (catching (step_body su (status_state current)) (settle_step su)) (\<lambda>answer.
           case answer of Some st \<Rightarrow> ret st | None \<Rightarrow> get_state su))) (\<lambda>st. stepped view su K (status_state st))"
      unfolding q by (simp, rule runs_andthen [OF lease_ok'], rule runs_andthen [OF body answer])
  qed
qed

lemma end_finished: "does (finished_at view su) (end_session su) (\<lambda>_. finished_at view su)"
proof (rule does_pre)
  fix w
  assume w: "finished_at view su w"
  have e: "does (\<lambda>e. view e = view (wd_env w)) (po_end (su_port su)) (\<lambda>_ e. view e = view (wd_env w) \<and> True)"
    using end_ok [of "view (wd_env w)"] by simp
  have "does (\<lambda>w'. w' = w) (end_session su) (\<lambda>_ w'. finished_at view su w' \<and> True)"
    unfolding end_session_def by (rule does_env [OF e]) (use w in \<open>simp_all add: finished_at_def arrived_def\<close>)
  then show "does (\<lambda>w'. w' = w) (end_session su) (\<lambda>_. finished_at view su)" by simp
qed

lemma step_ok:
  assumes m: "midway (su_plan su) K"
  shows "does (rest view su PTransferring K) (step su) (\<lambda>st. stepped view su K (status_state st))"
proof -
  have closed': "does (finished_at view su) (andthen terminate (\<lambda>_. andthen lease_close (\<lambda>_. end_session su))) (\<lambda>_. finished_at view su)"
    unfolding terminate_def lease_close_def
    by (rule runs_andthen [OF runs_changing [where Q = "\<lambda>_. finished_at view su"]], simp add: finished_at_def arrived_def,
        rule runs_andthen [OF runs_changing [where Q = "\<lambda>_. finished_at view su"] end_finished], simp add: finished_at_def arrived_def)
  have last: "does (stepped view su K (status_state st)) (andthen (whenever (status_state st \<notin> {PTransferring, PVerifying})
         (andthen terminate (\<lambda>_. andthen lease_close (\<lambda>_. end_session su)))) (\<lambda>_. ret st)) (\<lambda>st. stepped view su K (status_state st))" for st
  proof (rule runs_andthen)
    show "does (stepped view su K (status_state st)) (whenever (status_state st \<notin> {PTransferring, PVerifying})
         (andthen terminate (\<lambda>_. andthen lease_close (\<lambda>_. end_session su)))) (\<lambda>_. stepped view su K (status_state st))"
    proof (rule does_whenever)
      assume q: "status_state st \<notin> {PTransferring, PVerifying}"
      show "does (stepped view su K (status_state st)) (andthen terminate (\<lambda>_. andthen lease_close (\<lambda>_. end_session su)))
          (\<lambda>_. stepped view su K (status_state st))"
      proof (cases "covers (su_plan su) K \<and> status_state st = PComplete")
        case True
        then have "stepped view su K (status_state st) = finished_at view su" by (simp add: stepped_simps(1) [of su K view])
        then show ?thesis using closed' by simp
      next
        case False
        have "\<not> stepped view su K (status_state st) w" for w by (rule stepped_simps(3)) (use q False in auto)
        then show ?thesis by (rule does_absurd)
      qed
    qed
  qed (rule runs_ret)
  show ?thesis
    unfolding step_def
    by (rule runs_if, rule step_plain_ok [OF m], rule runs_andthen [OF does_catching [OF step_plain_ok [OF m]] last])
qed

lemma run_steps_ok:
  "midway (su_plan su) K \<Longrightarrow> files_left (su_plan su) K < n \<Longrightarrow>
    does (rest view su PTransferring K) (run_steps n su) (\<lambda>r w. (\<exists>st. r = Some st \<and> status_state st = PComplete) \<and> finished_at view su w)"
proof (induction n arbitrary: K)
  case (Suc n)
  show ?case
    unfolding run_steps.simps
  proof (rule runs_andthen [OF step_ok [OF Suc.prems(1)]])
    fix st
    let ?Q = "\<lambda>r w. (\<exists>st. r = Some st \<and> status_state st = PComplete) \<and> finished_at view su w"
    show "does (stepped view su K (status_state st))
        (if status_state st \<in> {PTransferring, PVerifying} then run_steps n su else ret (Some st)) ?Q"
    proof (cases "covers (su_plan su) K")
      case True
      show ?thesis
      proof (cases "status_state st = PComplete")
        case complete: True
        with True have "stepped view su K (status_state st) w \<Longrightarrow> finished_at view su w" for w by (simp add: stepped_def)
        with complete show ?thesis by (simp, intro runs_ret) simp
      qed (simp add: stepped_def True runs_def)
    next
      case False
      show ?thesis
      proof (cases "status_state st = PTransferring")
        case True
        have "does (\<lambda>w. \<exists>K'. file_step (su_plan su) K K' \<and> rest view su PTransferring K' w) (run_steps n su) ?Q"
        proof (rule does_pre, elim exE conjE)
          fix w K'
          assume K': "file_step (su_plan su) K K'" and w: "rest view su PTransferring K' w"
          have "files_left (su_plan su) K' < n" using file_step_left [OF K'] Suc.prems(2) by simp
          from Suc.IH [OF file_step_midway [OF Suc.prems(1) K' closed] this]
          show "does (\<lambda>w'. w' = w) (run_steps n su) ?Q" by (rule runs_conseq) (use w in auto)
        qed
        with True show ?thesis by (simp add: stepped_simps(2) [OF False])
      qed (simp add: stepped_def False runs_def)
    qed
  qed
qed simp

end

end
