(* ===== verification/SliceStart.thy ===== *)
theory SliceStart
  imports SliceCompletes
begin

text \<open>
  Starting: an approved transaction whose destination is free is reserved, leased and claimed, its
  session is opened on an empty destination, and the ownership record is written. With the steps
  of \<open>SliceCompletes\<close> the whole delivery completes.
\<close>

section \<open>The store at the start\<close>

text \<open>The transaction is approved and has never run, and nobody holds its destination.\<close>

definition approved_fresh :: "(str \<Rightarrow> str) \<Rightarrow> str \<Rightarrow> slice_plan \<Rightarrow> store \<Rightarrow> bool" where
  "approved_fresh sha tx p s \<longleftrightarrow> (case st_txs s tx of None \<Rightarrow> False | Some r \<Rightarrow>
       tx_plan r = Stored p \<and> tx_state r = PApproved \<and> \<not> tx_stop r \<and> tx_consumed r = None
       \<and> tx_journal_seq r = 0 \<and> tx_journal_digest r = '''')
     \<and> owner_of s (device_id sha p) = None \<and> conflict sha s tx p = Inr ()"

text \<open>After the reservation, and again after the claim: nothing is in the journal.\<close>

definition begun :: "(str \<Rightarrow> str) \<Rightarrow> str \<Rightarrow> slice_plan \<Rightarrow> store \<Rightarrow> bool" where
  "begun sha tx p s \<longleftrightarrow> store_ok sha s \<and> load sha s tx = Inr p \<and> head s tx = Some (0, '''')"

lemma begun_events: "begun sha tx p s \<Longrightarrow> events sha s tx = Inr []"
proof -
  assume b: "begun sha tx p s"
  then have j: "journal_ok sha s" and h: "head s tx = Some (0, '''')" by (simp_all add: begun_def store_ok_def)
  from journal_rows(3) [OF j h] events_ok [OF j h] show ?thesis by simp
qed

lemma begun_step:
  assumes "begun sha tx p s" "apply_op sha root x s = settle s r" "r = Inr (v, s')" "head s' tx = head s tx"
  shows "begun sha tx p s'"
proof -
  have "run_ops sha root [x] s = s'" by (simp add: assms(2,3) settle_def)
  with assms(1) have "load sha s' tx = Inr p" using load_stable [of sha s tx p root "[x]"] by (simp add: begun_def)
  with assms show ?thesis by (simp add: begun_def settled_ok [OF _ assms(2,3)])
qed

lemma reserve_goes:
  assumes ok: "store_ok sha s" and fresh: "approved_fresh sha tx p s"
  obtains rs s' r where "reserve_read sha tx (device_id sha p) s = Inr (Inr (False, rs))"
    "reserve_write sha tx (device_id sha p) rs s = Inr (Inr rs, s')" "begun sha tx p s'"
    "st_txs s' tx = Some r" "tx_plan r = Stored p" "tx_state r = PStarting" "\<not> tx_stop r" "tx_consumed r = None"
    "guard_preclaim tx (device_id sha p) rs s' = Inr ()"
proof -
  let ?d = "device_id sha p"
  from fresh obtain r where r: "st_txs s tx = Some r" "tx_plan r = Stored p" "tx_state r = PApproved" "\<not> tx_stop r" "tx_consumed r = None"
    "tx_journal_seq r = 0" "tx_journal_digest r = ''''" and free: "owner_of s ?d = None" "conflict sha s tx p = Inr ()"
    by (auto simp: approved_fresh_def split: option.splits)
  have cl: "claims_ok sha s" using ok by (simp add: store_ok_def)
  have seal: "tx_seal r = plan_seal sha p" using cl r by (fastforce simp: claims_ok_def sealed_rows_def)
  let ?rs = "\<lparr>rs_state = PApproved, rs_serial = tx_stop_serial r, rs_acknowledged = tx_acknowledged r\<rparr>"
  have i: "inspect sha tx ?d s = Inr (Inr (False, ?rs))"
    using r seal free by (simp add: inspect_def the_row_def load_plan_def resumable_iff)
  have none: "\<not> list_ex (\<lambda>o'. ow_device o' = ?d \<or> ow_tx o' = tx) (st_owners s)"
  proof -
    have "ow_device o' \<noteq> ?d" if "o' \<in> set (st_owners s)" for o' using free(1) that by (simp add: owner_of_None)
    moreover have "ow_tx o' \<noteq> tx" if "o' \<in> set (st_owners s)" for o'
    proof
      assume "ow_tx o' = tx"
      with that have "(ow_device o', tx) \<in> set (claim_keys s)" by (auto simp: claim_keys_def)
      with cl obtain q where "phase_at s tx = Some q" "\<not> idle q" unfolding claims_ok_def owners_started_def by fastforce
      with r show False by (simp add: phase_at_def idle_def)
    qed
    ultimately show ?thesis by (auto simp: list_ex_iff)
  qed
  define s' where "s' = set_row tx (\<lambda>r. r\<lparr>tx_state := PStarting, tx_reason := ''''\<rparr>)
      (s\<lparr>st_owners := st_owners s @ [\<lparr>ow_device = ?d, ow_tx = tx, ow_attempt = None\<rparr>]\<rparr>)"
  have w: "reserve_write sha tx ?d ?rs s = Inr (Inr ?rs, s')"
    by (simp add: reserve_write_def i none s'_def Let_def)
  have res: "reserve_read sha tx ?d s = Inr (Inr (False, ?rs))" by (simp add: reserve_read_def i)
  have h: "head s tx = Some (0, '''')" using r by (simp add: head_def)
  have "load sha s tx = Inr p" using r seal by (simp add: load_row)
  with ok h have "begun sha tx p s" by (simp add: begun_def)
  moreover have "head s' = head s" unfolding s'_def by (subst head_set_row) simp_all
  ultimately have b: "begun sha tx p s'"
    by (intro begun_step [where x = "OpReserve tx ?d ?rs" and root = undefined, OF _ _ w]) (simp_all add: apply_op_def)
  have row: "st_txs s' tx = Some (r\<lparr>tx_state := PStarting, tx_reason := ''''\<rparr>)" using r by (simp add: s'_def)
  have "owner s' ?d = Some tx" using free(1) by (simp add: s'_def owner_def owner_of_append)
  then have "guard_preclaim tx ?d ?rs s' = Inr ()" using r row by (simp add: guard_preclaim_def the_row_def resumable_iff)
  with row r show thesis by (intro that [OF res w b row]) simp_all
qed


section \<open>Before a session opens\<close>

text \<open>What the destination shows, the store and the lease.\<close>

definition at :: "('e \<Rightarrow> files) \<Rightarrow> files \<Rightarrow> store \<Rightarrow> bool \<Rightarrow> 'e world \<Rightarrow> bool" where
  "at view V s l w \<longleftrightarrow> view (wd_env w) = V \<and> wd_store w = s \<and> wd_lease w = l"

definition calm :: "'e session \<Rightarrow> bool" where
  "calm su \<longleftrightarrow> (\<forall>k. su_others su k = [] \<and> \<not> su_busy su k)"

lemma calm_attempting [simp]: "calm (attempting su t) = calm su"
  by (simp add: calm_def attempting_def)

lemma at_storing:
  assumes "calm su" "f s = Inr (x, s')"
  shows "does (at view V s l) (storing su f) (\<lambda>y w. at view V s' l w \<and> y = x)"
  using assms by (auto simp: runs_def at_def storing_def turned_def calm_def)

lemma at_asking: "calm su \<Longrightarrow> f s = Inr x \<Longrightarrow> does (at view V s l) (asking su f) (\<lambda>y w. at view V s l w \<and> y = x)"
  unfolding asking_def by (rule at_storing) simp_all

lemma at_env:
  assumes "does (\<lambda>e. view e = V) m (\<lambda>x e. view e = V \<and> R x)"
  shows "does (at view V s l) (on_env m) (\<lambda>x w. at view V s l w \<and> R x)"
  by (rule does_env [OF assms]) (simp_all add: at_def)

lemma at_env': "does (\<lambda>e. view e = V) m (\<lambda>_ e. view e = V) \<Longrightarrow> does (at view V s l) (on_env m) (\<lambda>_. at view V s l)"
  using at_env [of view V m "\<lambda>_. True"] by simp

lemma at_lease: "does (at view V s True) lease_check (\<lambda>_. at view V s True)"
  by (auto simp: runs_def at_def lease_check_def andthen_def getting_def ret_def)

lemma at_settled: "r = Inr x \<Longrightarrow> does P (settled r) (\<lambda>y w. P w \<and> y = x)"
  by (simp add: settled_def runs_ret)

lemma at_state:
  assumes "calm su" "st_txs s (su_tx su) = Some r"
  shows "does (at view V s l) (get_state su) (\<lambda>y w. at view V s l w \<and> status_state y = tx_state r)"
proof -
  have "does (at view V s l) (get_state su) (\<lambda>y w. at view V s l w \<and> y = Status (su_tx su) (tx_state r) (tx_reason r))"
    unfolding get_state_def by (rule at_asking [OF assms(1)]) (simp add: get_status_def assms(2))
  then show ?thesis by (rule runs_conseq) auto
qed

text \<open>The lease is free, and the claim succeeds.\<close>

lemma claiming_ok:
  assumes c: "calm su" and claim: "claim (su_sha su) (su_tx su) (su_device su) (su_attempt su) rs s = Inr (Status (su_tx su) PStarting why, s')"
  shows "does (at view V s True) (claiming su rs) (\<lambda>v w. at view V s' True w \<and> v = None)"
  unfolding claiming_def by (rule runs_andthen, rule at_storing [OF c], rule claim, rule runs_assume, simp, rule runs_ret, simp)

lemma preclaim_ok:
  assumes "calm su" "guard_preclaim (su_tx su) (su_device su) rs s = Inr ()"
  shows "does (at view V s True) (preclaim_check su rs) (\<lambda>_. at view V s True)"
proof -
  have "does (at view V s True) (asking su (guard_preclaim (su_tx su) (su_device su) rs)) (\<lambda>y w. at view V s True w \<and> y = ())"
    by (rule at_asking [OF assms(1)]) (rule assms(2))
  then have "does (at view V s True) (asking su (guard_preclaim (su_tx su) (su_device su) rs)) (\<lambda>_. at view V s True)"
    by (rule runs_conseq) auto
  then show ?thesis unfolding preclaim_check_def by (rule runs_andthen [OF at_lease])
qed

lemma preflight_goes:
  assumes h: "honest (su_port su) view" and c: "calm su" and g: "guard_preclaim (su_tx su) (su_device su) rs s = Inr ()"
  shows "does (at view V s True) (preflight su rs (if due then map_option (map on_env) (po_preflight (su_port su)) else None))
    (\<lambda>v w. at view V s True w \<and> v = None)"
proof (cases "if due then map_option (map on_env) (po_preflight (su_port su)) else None")
  case None
  then show ?thesis unfolding preflight_def by (simp add: runs_ret)
next
  case (Some ms)
  then obtain ps where ps: "po_preflight (su_port su) = Some ps" "ms = map on_env ps" by (auto split: if_splits)
  note pre = preclaim_ok [OF c g]
  have all: "does (at view V s True) (each (\<lambda>m. andthen (preclaim_check su rs) (\<lambda>_. m)) ms) (\<lambda>_. at view V s True)"
  proof (rule does_each, rule runs_andthen [OF pre])
    fix m
    assume "m \<in> set ms"
    with ps obtain p where p: "p \<in> set ps" "m = on_env p" by auto
    show "does (at view V s True) m (\<lambda>_. at view V s True)"
      unfolding p(2) by (rule at_env') (rule honest.preflight_ok [OF h ps(1) p(1)])
  qed
  show ?thesis
    unfolding Some preflight_def option.case
    by (rule does_catching, rule runs_andthen [OF pre], rule runs_andthen [OF all], rule runs_andthen [OF pre], rule runs_ret, simp)
qed

lemma claim_lease_ok:
  assumes h: "honest (su_port su) view" and c: "calm su" and r: "st_txs s (su_tx su) = Some r" "tx_state r = PStarting"
    and g: "guard_preclaim (su_tx su) (su_device su) rs s = Inr ()"
    and claim: "claim (su_sha su) (su_tx su) (su_device su) (su_attempt su) rs s = Inr (Status (su_tx su) PStarting why, s')"
  shows "does (at view V s True) (claim_lease su rs due) (\<lambda>got w. at view V s' True w \<and> got = Inr su)"
proof -
  have last: "does (at view V s True) (andthen (claiming su rs) (\<lambda>outcome. case outcome of Some st \<Rightarrow> ret (Inl st) | None \<Rightarrow> ret (Inr su)))
      (\<lambda>got w. at view V s' True w \<and> got = Inr su)"
    by (rule runs_andthen [OF claiming_ok [OF c claim]], rule runs_assume, simp, rule runs_ret, simp)
  show ?thesis
    unfolding claim_lease_def
  proof (rule does_catching, rule runs_andthen [OF at_state [OF c r(1)]], rule runs_assume)
    fix current
    assume q: "status_state current = tx_state r"
    show "does (at view V s True) (if status_state current = PComplete then andthen lease_close (\<lambda>_. ret (Inl current))
        else andthen (preflight su rs (if due then map_option (map on_env) (po_preflight (su_port su)) else None)) (\<lambda>waiting.
          case waiting of Some st \<Rightarrow> ret (Inl st)
          | None \<Rightarrow> andthen (claiming su rs) (\<lambda>outcome. case outcome of Some st \<Rightarrow> ret (Inl st) | None \<Rightarrow> ret (Inr su))))
      (\<lambda>got w. at view V s' True w \<and> got = Inr su)"
      by (simp only: q r(2) phase.distinct if_False, rule runs_andthen [OF preflight_goes [OF h c g]], rule runs_assume) (simp add: last)
  qed
qed

lemma acquire_ok:
  assumes h: "honest (su_port su) view" and c: "calm su" and r: "st_txs s (su_tx su) = Some r" "tx_state r = PStarting"
    and g: "guard_preclaim (su_tx su) (su_device su) rs s = Inr ()"
    and goes: "\<And>t. \<exists>s'. claim (su_sha su) (su_tx su) (su_device su) \<lparr>at_owner = su_tx su, at_token = t\<rparr> rs s
        = Inr (Status (su_tx su) PStarting '''', s') \<and> G t s'"
  shows "does (at view V s False) (acquire su rs due)
    (\<lambda>got w. \<exists>t s'. G t s' \<and> at view V s' True w \<and> got = Inr (attempting su t))"
proof -
  have lease: "does (at view V s False) (take_lease su) (\<lambda>v w. at view V s True w \<and> (\<exists>t. v = attempting su t))"
    unfolding take_lease_def
  proof (rule runs_andthen)
    show "does (at view V s False) (fresh_name su) (\<lambda>_. at view V s False)"
      by (simp add: runs_def fresh_name_def at_def)
    fix t
    show "does (at view V s False) (andthen (on_env (po_lease (su_port su))) (\<lambda>free.
        if \<not> free then refusing ''DESTINATION_BUSY'' ''''
        else andthen (changing (\<lambda>w. w\<lparr>wd_lease := True\<rparr>)) (\<lambda>_. ret (su\<lparr>su_attempt := \<lparr>at_owner = su_tx su, at_token = t\<rparr>\<rparr>))))
      (\<lambda>v w. at view V s True w \<and> (\<exists>t. v = attempting su t))"
      by (rule runs_andthen [OF at_env [OF honest.lease_ok [OF h]]], rule runs_assume, simp,
          rule runs_andthen [OF runs_changing [where Q = "\<lambda>_. at view V s True"]], simp add: at_def, rule runs_ret)
        (auto simp: attempting_def)
  qed
  have claimed: "does (at view V s True) (claim_lease (attempting su t) rs due)
      (\<lambda>got w. \<exists>t s'. G t s' \<and> at view V s' True w \<and> got = Inr (attempting su t))" for t
  proof -
    from goes obtain s' where s': "claim (su_sha su) (su_tx su) (su_device su) \<lparr>at_owner = su_tx su, at_token = t\<rparr> rs s
        = Inr (Status (su_tx su) PStarting '''', s')" "G t s'" by blast
    have d: "su_device (attempting su t) = su_device su" "su_port (attempting su t) = su_port su"
      by (simp_all add: su_device_def) (simp add: attempting_def)
    have "does (at view V s True) (claim_lease (attempting su t) rs due)
        (\<lambda>got w. at view V s' True w \<and> got = Inr (attempting su t))"
      by (rule claim_lease_ok [where r = r and why = "''''"]) (simp_all add: d h c r g s')
    then show ?thesis by (rule runs_conseq) (use s'(2) in auto)
  qed
  have first: "does (at view V s False)
      (catching (andthen (take_lease su) (\<lambda>su. ret (Inr su)))
        (\<lambda>e. case e of Refused _ \<Rightarrow> andthen (lease_held su e) (\<lambda>st. ret (Inl st)) | _ \<Rightarrow> raising e))
      (\<lambda>v w. at view V s True w \<and> (\<exists>t. v = Inr (attempting su t)))"
    by (rule does_catching, rule runs_andthen [OF lease], rule runs_ret) auto
  show ?thesis
    unfolding acquire_def by (rule runs_andthen [OF first], rule runs_assume) (auto simp: claimed)
qed


section \<open>The session opens\<close>

text \<open>An empty destination and a started attempt.\<close>

definition poised :: "('e \<Rightarrow> files) \<Rightarrow> 'e session \<Rightarrow> phase \<Rightarrow> 'e world \<Rightarrow> bool" where
  "poised view su ph w \<longleftrightarrow> (\<exists>s. at view (\<lambda>_. None) s True w \<and> begun (su_sha su) (su_tx su) (su_plan su) s
     \<and> live (su_sha su) s (su_attempt su) (su_device su) ph)"

lemma does_poised:
  assumes "\<And>s. begun (su_sha su) (su_tx su) (su_plan su) s \<Longrightarrow> live (su_sha su) s (su_attempt su) (su_device su) ph \<Longrightarrow>
      does (at view (\<lambda>_. None) s True) m Q"
  shows "does (poised view su ph) m Q"
proof (rule does_pre)
  fix w
  assume "poised view su ph w"
  then obtain s where s: "at view (\<lambda>_. None) s True w" "begun (su_sha su) (su_tx su) (su_plan su) s"
    "live (su_sha su) s (su_attempt su) (su_device su) ph" by (auto simp: poised_def)
  show "does (\<lambda>w'. w' = w) m Q" by (rule runs_conseq [OF assms [OF s(2,3)]]) (simp_all add: s(1))
qed

lemma at_poised:
  assumes "does (at view (\<lambda>_. None) s True) m (\<lambda>_. at view (\<lambda>_. None) s True)" "begun (su_sha su) (su_tx su) (su_plan su) s"
    "live (su_sha su) s (su_attempt su) (su_device su) ph"
  shows "does (at view (\<lambda>_. None) s True) m (\<lambda>_. poised view su ph)"
  by (rule runs_conseq [OF assms(1)]) (use assms(2,3) in \<open>auto simp: poised_def\<close>)

lemma poised_env: "(\<And>V. does (\<lambda>e. view e = V) m (\<lambda>_ e. view e = V)) \<Longrightarrow> does (poised view su ph) (on_env m) (\<lambda>_. poised view su ph)"
  by (rule does_poised, rule at_poised, rule at_env')

text \<open>What stands at the beginning: nothing but the plan's own control record and its root.\<close>

definition at_first :: "slice_plan \<Rightarrow> str set" where
  "at_first plan = insert (control_path plan) (if is_folder plan then {sp_root (pv_spec (plan_proposal plan))} else {})"

lemma at_first_facts:
  assumes "plan_closed plan"
  shows "midway plan (at_first plan)" "files_left plan (at_first plan) = length (pv_closure (plan_proposal plan))"
proof -
  have c: "receipt_path plan \<noteq> control_path plan" "receipt_path plan \<notin> set (plan_directories plan)"
    "is_folder plan \<Longrightarrow> sp_root (pv_spec (plan_proposal plan)) \<in> set (plan_directories plan)"
    using assms by (auto simp: plan_closed_def plan_outputs_def list_all_iff)
  have n: "control_path plan \<notin> artifact_target plan ` set (pv_closure (plan_proposal plan))"
    "list_all (\<lambda>a. artifact_target plan a \<notin> set (plan_directories plan)) (pv_closure (plan_proposal plan))"
    using assms by (simp_all add: plan_closed_def plan_outputs_def list_all_iff)
  have "artifact_target plan a \<noteq> control_path plan" if "a \<in> set (pv_closure (plan_proposal plan))" for a
    using n(1) that by (metis imageI)
  then have "artifact_target plan a \<notin> at_first plan" if "a \<in> set (pv_closure (plan_proposal plan))" for a
    using n(2) c(3) that by (auto simp: at_first_def list_all_iff split: if_splits)
  then show "midway plan (at_first plan)" "files_left plan (at_first plan) = length (pv_closure (plan_proposal plan))"
    using c by (auto simp: midway_def files_left_def at_first_def)
qed

context served
begin

lemma is_calm: "calm su"
  by (simp add: calm_def others never_busy)

lemma allocated_ok: "does (poised view su ph) (allocated su) (\<lambda>_. poised view su ph)"
proof (rule does_poised, rule at_poised)
  fix s
  assume b: "begun (su_sha su) (su_tx su) (su_plan su) s"
  have "does (at view (\<lambda>_. None) s True) (asking su (\<lambda>s. events (su_sha su) s (su_tx su))) (\<lambda>y w. at view (\<lambda>_. None) s True w \<and> y = [])"
    by (rule at_asking [OF is_calm]) (rule begun_events [OF b])
  then show "does (at view (\<lambda>_. None) s True) (allocated su) (\<lambda>_. at view (\<lambda>_. None) s True)"
    unfolding allocated_def by (rule runs_andthen, intro runs_assume) (simp add: runs_ret)
qed

lemma moved_ok: "does (poised view su PStarting) (auth_transition su PTransferring '''') (\<lambda>_. poised view su PTransferring)"
proof (rule does_poised)
  fix s
  assume b: "begun (su_sha su) (su_tx su) (su_plan su) s" and l: "live (su_sha su) s (su_attempt su) (su_device su) PStarting"
  obtain s' where s': "transition (su_attempt su) (su_device su) PTransferring '''' s = Inr (Status (su_tx su) PTransferring '''', s')"
    "live (su_sha su) s' (su_attempt su) (su_device su) PTransferring" "head s' (su_tx su) = head s (su_tx su)"
    by (rule transition_goes [OF l TRANSITIONS.simps(1), of PTransferring "''''"]) (simp_all add: owner_ok)
  have "begun (su_sha su) (su_tx su) (su_plan su) s'"
    by (rule begun_step [OF b _ s'(1,3), of undefined "OpTransition (su_attempt su) (su_device su) PTransferring ''''"]) (simp add: apply_op_def)
  with s'(2) have p: "poised view su PTransferring w" if "at view (\<lambda>_. None) s' True w" for w using that by (auto simp: poised_def)
  show "does (at view (\<lambda>_. None) s True) (auth_transition su PTransferring '''') (\<lambda>_. poised view su PTransferring)"
    unfolding auth_transition_def
    by (rule runs_andthen [OF at_lease], rule runs_andthen, rule at_storing [OF is_calm], rule s'(1), rule runs_assume, simp, rule runs_ret, rule p)
qed

lemma init_ok:
  assumes n: "required_bytes (su_sha su) (su_plan su) (su_root su) = Inr n"
  shows "does (poised view su PTransferring) (init_session su) (\<lambda>_. rest view su PTransferring {})"
proof (rule does_poised)
  fix s
  let ?h = "Some (0, '''') :: (nat \<times> str) option"
  assume b: "begun (su_sha su) (su_tx su) (su_plan su) s" and l: "live (su_sha su) s (su_attempt su) (su_device su) PTransferring"
  have rec: "does (at view (\<lambda>_. None) s True) (recorded su) (\<lambda>y w. at view (\<lambda>_. None) s True w \<and> y = [])"
    unfolding recorded_def
  proof (rule runs_andthen [OF at_asking [OF is_calm]])
    show "load (su_sha su) s (su_tx su) = Inr (su_plan su)" using b by (simp add: begun_def)
    fix plan
    show "does (\<lambda>w. at view (\<lambda>_. None) s True w \<and> plan = su_plan su)
        (andthen (asking su (\<lambda>s. events (su_sha su) s (su_tx su))) (\<lambda>es. settled (replay_events (su_sha su) plan (su_tx su) es [])))
        (\<lambda>y w. at view (\<lambda>_. None) s True w \<and> y = [])"
      by (rule runs_assume, rule runs_andthen, rule at_asking [OF is_calm], rule begun_events [OF b], rule runs_assume)
        (simp add: settled_def runs_ret)
  qed
  have hd': "does (at view (\<lambda>_. None) s True) (asking su (\<lambda>s. Inr (head s (su_tx su)))) (\<lambda>y w. at view (\<lambda>_. None) s True w \<and> y = ?h)"
    by (rule at_asking [OF is_calm]) (use b in \<open>simp add: begun_def\<close>)
  have h: "here view su PTransferring (\<lambda>_. None) (\<lambda>_. None) (fresh_session [] ?h w\<lparr>se_required := n\<rparr>)" if "at view (\<lambda>_. None) s True w" for w
    using that b l by (simp add: here_def running_def at_def fresh_session_def begun_def intact_def filed_def suits_def fun_eq_iff)
  have adopt: "does (\<lambda>w. \<exists>w'. at view (\<lambda>_. None) s True w' \<and> w = fresh_session [] ?h w') (adopt su []) (\<lambda>_. rest view su PTransferring {})"
    unfolding adopt_def op_names_def
    by (rule runs_andthen [OF at_settled [OF n]], rule runs_assume, simp, rule runs_andthen [OF runs_changing [where Q = "\<lambda>_. rest view su PTransferring {}"]])
      (auto simp: rest_def base_def intro!: h runs_ret)
  show "does (at view (\<lambda>_. None) s True) (init_session su) (\<lambda>_. rest view su PTransferring {})"
    unfolding init_session_def
    by (rule runs_andthen [OF rec], rule runs_assume, simp, rule runs_andthen [OF hd'], rule runs_assume, simp,
        rule runs_andthen [OF runs_changing adopt]) blast
qed

lemma open_ok:
  assumes n: "required_bytes (su_sha su) (su_plan su) (su_root su) = Inr n"
  shows "does (poised view su PStarting) (open_session su n) (\<lambda>_. rest view su PTransferring (at_first (su_plan su)))"
proof -
  let ?root = "sp_root (pv_spec (plan_proposal (su_plan su)))"
  let ?K = "if is_folder (su_plan su) then {?root} else {}"
  have root: "does (rest view su PTransferring {}) (whenever (is_folder (su_plan su)) (directory su (destination_root su)))
      (\<lambda>_. rest view su PTransferring ?K)"
  proof (cases "is_folder (su_plan su)")
    case True
    have "does (rest view su PTransferring {}) (directory su ?root) (\<lambda>_. rest view su PTransferring (insert ?root {}))"
      by (rule directory_ok) (use True closed layout in \<open>simp_all add: plan_closed_def layout_ok_def\<close>)
    with True show ?thesis by (simp add: whenever_def destination_root_def)
  qed (simp add: whenever_def runs_ret)
  have c: "plan_closed (su_plan su)" by (rule closed)
  have K: "?K \<subseteq> set (plan_directories (su_plan su))" using c by (simp add: plan_closed_def)
  have con: "does (rest view su PTransferring ?K) (control su) (\<lambda>_. rest view su PTransferring (insert (control_path (su_plan su)) ?K))"
    unfolding control_def
  proof (rule deliver_record_ok)
    show "control_path (su_plan su) \<notin> ?K" using K c by (auto simp: plan_closed_def plan_outputs_def)
    show "set (proper_parents (control_path (su_plan su))) \<subseteq> ?K" using layout by (simp add: layout_ok_def)
    with K show "set (proper_parents (control_path (su_plan su))) \<subseteq> set (plan_directories (su_plan su))" by blast
  qed (simp_all add: planned_def)
  have beg: "does (poised view su PStarting) (whenever (session_only (su_plan su)) (on_env (po_begin (su_port su)))) (\<lambda>_. poised view su PStarting)"
    by (rule does_whenever, rule poised_env, rule begin_ok)
  have che: "does (poised view su PStarting) (on_env (po_check (su_port su) (su_plan su) k n)) (\<lambda>_. poised view su PStarting)" for k
    by (rule poised_env, rule check_ok)
  show ?thesis
    unfolding open_session_def at_first_def
    by (rule runs_andthen [OF beg], rule runs_andthen [OF allocated_ok], rule runs_andthen [OF che], rule runs_andthen [OF moved_ok],
        rule runs_andthen [OF init_ok [OF n]], rule runs_andthen [OF rest_quiet], rule audit_ok, rule runs_andthen [OF root con])
qed

lemma begin_ok':
  assumes "required_bytes (su_sha su) (su_plan su) (su_root su) = Inr n"
  shows "does (poised view su PStarting) (begin_session su n)
    (\<lambda>got w. rest view su PTransferring (at_first (su_plan su)) w \<and> got = Inr su)"
  unfolding begin_session_def by (rule runs_andthen [OF does_catching [OF open_ok [OF assms]]], rule runs_ret) simp

text \<open>All steps, and closing.\<close>

lemma close_ok: "does (finished_at view su) (close_session su) (\<lambda>_. finished_at view su)"
proof -
  have "does (finished_at view su) lease_close (\<lambda>_. finished_at view su)"
    unfolding lease_close_def by (rule runs_changing) (simp add: finished_at_def arrived_def)
  moreover have "does (finished_at view su) (andthen (getting wd_lease) (\<lambda>open'. whenever open' k)) (\<lambda>_. finished_at view su)" for k
    by (auto simp: runs_def finished_at_def andthen_def getting_def whenever_def ret_def)
  ultimately have "does (finished_at view su) (auth_close su) (\<lambda>_. finished_at view su)"
    unfolding auth_close_def by (intro does_lastly)
  then show ?thesis
    unfolding close_session_def by (rule does_lastly) (rule does_whenever, rule end_finished)
qed

lemma session_ok':
  assumes "length (pv_closure (plan_proposal (su_plan su))) < n"
  shows "does (rest view su PTransferring (at_first (su_plan su)))
    (lastly (catching (run_steps n su) h) (close_session su))
    (\<lambda>r w. finished_at view su w \<and> (\<exists>st. r = Some st \<and> status_state st = PComplete))"
proof (rule does_lastly)
  note f = at_first_facts [OF closed]
  show "does (rest view su PTransferring (at_first (su_plan su))) (catching (run_steps n su) h)
      (\<lambda>r w. finished_at view su w \<and> (\<exists>st. r = Some st \<and> status_state st = PComplete))"
    by (rule does_catching, rule runs_conseq [OF run_steps_ok [OF f(1)]]) (use assms in \<open>auto simp: f(2)\<close>)
  show "does (\<lambda>w. finished_at view su w \<and> (\<exists>st. r = Some st \<and> status_state st = PComplete)) (close_session su)
      (\<lambda>_ w. finished_at view su w \<and> (\<exists>st. r = Some st \<and> status_state st = PComplete))" for r
    by (rule runs_assume, rule runs_conseq [OF close_ok]) auto
qed

end


section \<open>A delivery\<close>

text \<open>The sources that the plan names first serve its files.\<close>

definition plan_served :: "('e \<Rightarrow> files) \<Rightarrow> 'e session \<Rightarrow> slice_plan \<Rightarrow> bool" where
  "plan_served view su plan \<longleftrightarrow> list_all (\<lambda>a. case ar_sources a of [] \<Rightarrow> False
     | c # _ \<Rightarrow> serves view (su_sha su) (su_port su) a c) (pv_closure (plan_proposal plan))"

text \<open>What the plan and the names of \<open>uuid4\<close> must be for the files to find room.\<close>

definition plan_fits :: "'e session \<Rightarrow> slice_plan \<Rightarrow> bool" where
  "plan_fits su plan \<longleftrightarrow> plan_closed plan \<and> layout_ok plan \<and> list_all (\<lambda>q. path_parts q \<noteq> []) (plan_outputs plan)
     \<and> (\<forall>k. names_clear plan (su_names su k))"

lemma served_attempt:
  assumes "honest (su_port su) view" "calm su" "plan_fits su (su_plan su)" "plan_served view su (su_plan su)"
  shows "served (attempting su t) view"
proof -
  have s: "su_port (attempting su t) = su_port su" "su_others (attempting su t) = su_others su"
    "su_busy (attempting su t) = su_busy su" "su_names (attempting su t) = su_names su"
    by (simp_all add: attempting_def)
  have "undisturbed (attempting su t) view"
    using assms by (intro undisturbed.intro undisturbed_axioms.intro) (auto simp: s calm_def plan_fits_def list_all_iff)
  moreover have "\<exists>c cs. ar_sources a = c # cs \<and> serves view (su_sha su) (su_port su) a c"
    if "a \<in> set (pv_closure (plan_proposal (su_plan su)))" for a
    using assms(4) that by (cases "ar_sources a") (fastforce simp: plan_served_def list_all_iff)+
  ultimately show ?thesis
    using assms(3) by (intro served.intro served_axioms.intro) (simp_all add: s plan_fits_def)
qed

lemma start_ok:
  fixes su :: "'a session"
  assumes h: "honest (su_port su) view" and c: "calm su" and fits: "plan_fits su (su_plan su)" and src: "plan_served view su (su_plan su)"
    and ok: "store_ok (su_sha su) s" and fresh: "approved_fresh (su_sha su) (su_tx su) (su_plan su) s"
    and n: "required_bytes (su_sha su) (su_plan su) (su_root su) = Inr b"
  shows "does (at view (\<lambda>_. None) s False) (begin_plan su) (\<lambda>got w. \<exists>t. got = Inr (attempting su t)
      \<and> rest view (attempting su t) PTransferring (at_first (su_plan su)) w)"
proof -
  let ?V = "\<lambda>_. None" and ?d = "device_id (su_sha su) (su_plan su)"
  from fresh obtain r where r: "st_txs s (su_tx su) = Some r" "tx_state r = PApproved"
    by (auto simp: approved_fresh_def split: option.splits)
  obtain rs s1 r1 where seen: "reserve_read (su_sha su) (su_tx su) ?d s = Inr (Inr (False, rs))"
    and s1: "reserve_write (su_sha su) (su_tx su) ?d rs s = Inr (Inr rs, s1)" "begun (su_sha su) (su_tx su) (su_plan su) s1"
    "st_txs s1 (su_tx su) = Some r1" "tx_plan r1 = Stored (su_plan su)" "tx_state r1 = PStarting" "\<not> tx_stop r1" "tx_consumed r1 = None"
    "guard_preclaim (su_tx su) ?d rs s1 = Inr ()"
    by (rule reserve_goes [OF ok fresh])
  have dev: "su_device su = ?d" by (simp add: su_device_def)
  have reserved: "does (at view ?V s False) (reserving su) (\<lambda>y w. at view ?V s1 False w \<and> y = Inr rs)"
    unfolding reserving_def dev
    by (rule runs_andthen, rule at_asking [OF c], rule seen, rule runs_assume, simp, rule at_storing [OF c], rule s1(1))
  have due: "does (at view ?V s1 False) (preflight_due su) (\<lambda>_. at view ?V s1 False)"
  proof (cases "po_preflight (su_port su)")
    case (Some ms)
    have "does (at view ?V s1 False) (asking su (\<lambda>s. events (su_sha su) s (su_tx su))) (\<lambda>y w. at view ?V s1 False w \<and> y = [])"
      by (rule at_asking [OF c]) (rule begun_events [OF s1(2)])
    then show ?thesis unfolding preflight_due_def Some by (simp, intro runs_andthen) (assumption, rule runs_ret, simp)
  qed (simp add: preflight_due_def runs_ret)
  define G where "G t s2 \<longleftrightarrow> begun (su_sha su) (su_tx su) (su_plan su) s2 \<and> live (su_sha su) s2 \<lparr>at_owner = su_tx su, at_token = t\<rparr> ?d PStarting"
    for t s2
  have goes: "\<exists>s2. claim (su_sha su) (su_tx su) (su_device su) \<lparr>at_owner = su_tx su, at_token = t\<rparr> rs s1
      = Inr (Status (su_tx su) PStarting '''', s2) \<and> G t s2" for t
  proof -
    have "store_ok (su_sha su) s1" "tx_state r1 \<in> RUNNING_STATES" "\<not> (tx_stop r1 \<and> \<not> resumes_row rs r1)" "\<not> spent (su_plan su) r1"
      using s1 by (simp_all add: begun_def running_iff spent_def)
    from claim_goes [OF this(1) s1(3,4) this(2-4)] obtain s2 where s2:
      "claim (su_sha su) (su_tx su) ?d \<lparr>at_owner = su_tx su, at_token = t\<rparr> rs s1 = Inr (Status (su_tx su) PStarting '''', s2)"
      "live (su_sha su) s2 \<lparr>at_owner = su_tx su, at_token = t\<rparr> ?d PStarting" "head s2 (su_tx su) = head s1 (su_tx su)" by metis
    have "begun (su_sha su) (su_tx su) (su_plan su) s2"
      by (rule begun_step [OF s1(2) _ s2(1,3), of undefined "OpClaim (su_tx su) ?d \<lparr>at_owner = su_tx su, at_token = t\<rparr> rs"])
        (simp add: apply_op_def)
    with s2 show ?thesis unfolding dev G_def by blast
  qed
  have opened: "does (\<lambda>w. \<exists>s2. G t s2 \<and> at view ?V s2 True w) (begin_session (attempting su t) b) (\<lambda>got w. \<exists>t. got = Inr (attempting su t)
      \<and> rest view (attempting su t) PTransferring (at_first (su_plan su)) w)" for t
    by (rule runs_conseq [OF served.begin_ok' [OF served_attempt [OF h c fits src, of t], of b]])
      (auto simp: n poised_def G_def su_device_def)
  show ?thesis
    unfolding begin_plan_def
  proof (rule runs_andthen [OF at_state [OF c r(1)]], rule runs_assume, simp only: r(2) phase.distinct if_False,
      rule runs_andthen [OF at_settled [OF n]], rule runs_assume, simp only:, rule runs_andthen [OF reserved],
      rule runs_assume, simp only: sum.case, rule runs_andthen [OF due])
    fix due
    have acq: "does (at view ?V s1 False) (acquire su rs due)
        (\<lambda>got w. \<exists>t s'. G t s' \<and> at view ?V s' True w \<and> got = Inr (attempting su t))"
      by (rule acquire_ok [OF h c s1(3,5) _ goes]) (simp add: s1(8) dev)
    show "does (at view ?V s1 False) (andthen (acquire su rs due) (\<lambda>got. case got of Inl st' \<Rightarrow> ret (Inl st') | Inr su' \<Rightarrow> begin_session su' b))
        (\<lambda>got w. \<exists>t. got = Inr (attempting su t) \<and> rest view (attempting su t) PTransferring (at_first (su_plan su)) w)"
    proof (rule runs_andthen [OF acq], rule does_pre, elim exE conjE)
      fix got :: "status + 'a session" and w t s'
      assume g: "G t s'" "at view ?V s' True w" and got: "got = Inr (attempting su t)"
      have "does (\<lambda>w'. w' = w) (begin_session (attempting su t) b) (\<lambda>got w. \<exists>t. got = Inr (attempting su t)
          \<and> rest view (attempting su t) PTransferring (at_first (su_plan su)) w)"
        by (rule runs_conseq [OF opened [of t]]) (use g in blast, assumption, assumption)
      then show "does (\<lambda>w'. w' = w) (case got of Inl st' \<Rightarrow> ret (Inl st') | Inr su' \<Rightarrow> begin_session su' b)
          (\<lambda>got w. \<exists>t. got = Inr (attempting su t) \<and> rest view (attempting su t) PTransferring (at_first (su_plan su)) w)"
        unfolding got sum.case .
    qed
  qed
qed


lemma finished_at_same:
  assumes "su_tx su' = su_tx su" "su_plan su' = su_plan su" "su_sha su' = su_sha su"
  shows "finished_at view su' = finished_at view su"
  unfolding finished_at_def [abs_def] arrived_def [abs_def] assms by (rule refl)

lemma start_goes:
  assumes "honest (su_port su) view" "calm su" "plan_fits su plan" "plan_served view su plan"
    and "store_ok (su_sha su) (wd_store w)" "approved_fresh (su_sha su) (su_tx su) plan (wd_store w)"
    and "required_bytes (su_sha su) plan (su_root su) = Inr b" "view (wd_env w) = (\<lambda>_. None)" "\<not> wd_lease w"
  obtains t w' where "start su w = (Inr (Inr (attempting (su\<lparr>su_plan := plan\<rparr>) t)), w')"
    "served (attempting (su\<lparr>su_plan := plan\<rparr>) t) view"
    "rest view (attempting (su\<lparr>su_plan := plan\<rparr>) t) PTransferring (at_first plan) w'"
proof -
  let ?su = "su\<lparr>su_plan := plan\<rparr>" and ?V = "\<lambda>_. None" and ?s = "wd_store w"
  have p: "honest (su_port ?su) view" "calm ?su" "plan_fits ?su (su_plan ?su)" "plan_served view ?su (su_plan ?su)"
    using assms(1-4) by (simp_all add: calm_def plan_fits_def plan_served_def cong: list.case_cong)
  have "load (su_sha su) ?s (su_tx su) = Inr plan"
  proof -
    from assms(6) obtain r where r: "st_txs ?s (su_tx su) = Some r" "tx_plan r = Stored plan"
      by (auto simp: approved_fresh_def split: option.splits)
    with assms(5) have "tx_seal r = plan_seal (su_sha su) plan" by (fastforce simp: store_ok_def claims_ok_def sealed_rows_def)
    with r show ?thesis by (simp add: load_row)
  qed
  then have load: "does (at view ?V ?s False) (asking su (\<lambda>s. load (su_sha su) s (su_tx su))) (\<lambda>y w. at view ?V ?s False w \<and> y = plan)"
    by (intro at_asking assms(2))
  have begun: "does (at view ?V ?s False) (begin_plan ?su) (\<lambda>got w. \<exists>t. got = Inr (attempting ?su t)
      \<and> rest view (attempting ?su t) PTransferring (at_first plan) w)"
    using start_ok [OF p, of ?s b] assms(5-7) by simp
  have started: "does (at view ?V ?s False) (start su) (\<lambda>got w. \<exists>t. got = Inr (attempting ?su t)
      \<and> rest view (attempting ?su t) PTransferring (at_first plan) w)"
    unfolding start_def by (rule runs_andthen [OF load], rule runs_assume, simp only:, rule begun)
  have a: "at view ?V ?s False w" using assms(8,9) by (simp add: at_def)
  obtain got w' where "start su w = (got, w')" by fastforce
  with started [unfolded runs_def, rule_format, OF a] obtain t where
    "start su w = (Inr (Inr (attempting ?su t)), w')" "rest view (attempting ?su t) PTransferring (at_first plan) w'"
    by (cases got) auto
  then show thesis using served_attempt [OF p] by (intro that) simp_all
qed

text \<open>C7: A delivery that nothing hinders arrives. The transaction is approved in a consistent store
  (\<open>store_ok\<close>, which every reachable store is) and has never run, its destination is empty and nobody
  holds it, no other process works on the store, the destination does what its port promises
  (\<open>honest\<close>), the first source of every file serves it, and the plan's paths are apart from each
  other and from the staging names. Then \<open>start\<close>, one step for each file and one to finish end with
  the transaction complete in the store, the lease released, and every artifact at its final path
  with the sealed length and digest; no refusal or exception leaves the delivery.\<close>

theorem delivery_completes:
  assumes "honest (su_port su) view" "calm su" "plan_fits su plan" "plan_served view su plan"
    and "store_ok (su_sha su) (wd_store w)" "approved_fresh (su_sha su) (su_tx su) plan (wd_store w)"
    and "required_bytes (su_sha su) plan (su_root su) = Inr b" "view (wd_env w) = (\<lambda>_. None)" "\<not> wd_lease w"
    and "length (pv_closure (plan_proposal plan)) < n"
  shows "case delivery n su w of
      (Inr (Some st), w') \<Rightarrow> status_state st = PComplete \<and> finished_at view (su\<lparr>su_plan := plan\<rparr>) w'
    | _ \<Rightarrow> False"
proof -
  let ?su = "su\<lparr>su_plan := plan\<rparr>"
  obtain t w' where start: "start su w = (Inr (Inr (attempting ?su t)), w')" and s: "served (attempting ?su t) view"
    and rest: "rest view (attempting ?su t) PTransferring (at_first plan) w'"
    by (rule start_goes [OF assms(1-9)])
  let ?run = "lastly (catching (run_steps n (attempting ?su t)) (\<lambda>e. if e = Interrupted then acknowledge n (attempting ?su t) else raising e))
    (close_session (attempting ?su t))"
  have "does (rest view (attempting ?su t) PTransferring (at_first (su_plan (attempting ?su t)))) ?run
    (\<lambda>r w. finished_at view (attempting ?su t) w \<and> (\<exists>st. r = Some st \<and> status_state st = PComplete))"
    by (rule served.session_ok' [OF s]) (simp add: assms(10))
  then have run: "does (rest view (attempting ?su t) PTransferring (at_first plan)) ?run
    (\<lambda>r w. finished_at view (attempting ?su t) w \<and> (\<exists>st. r = Some st \<and> status_state st = PComplete))" by simp
  have same: "finished_at view (attempting ?su t) = finished_at view ?su"
    by (rule finished_at_same) simp_all
  obtain r w'' where d: "?run w' = (r, w'')" by fastforce
  with run [unfolded runs_def, rule_format, OF rest] obtain st where
    "r = Inr (Some st)" "status_state st = PComplete" "finished_at view ?su w''" by (cases r) (auto simp: same)
  with d start show ?thesis by (simp add: delivery_def andthen_def)
qed

end
