(* ===== verification/TransferInstances.thy ===== *)
theory TransferInstances
  imports SliceVerified SliceStart StoreInstances
begin

text \<open>
  One delivery to a destination held in memory: the transaction of \<open>StoreInstances\<close>, approved, is
  started, its file is transferred, and the session finishes. It is the concrete input of the
  theorems on deliveries.
\<close>

section \<open>A destination in memory\<close>

text \<open>A path has the token of its owner, whether it is a directory, and its content.\<close>

type_synonym memory = "(str \<times> str \<times> bool \<times> str) list"

definition m_put :: "str \<Rightarrow> str \<times> bool \<times> str \<Rightarrow> (memory, unit) run" where
  "m_put path v = changing (AList.update path v)"

definition m_inspect :: "str \<Rightarrow> (memory, object_info option) run" where
  "m_inspect path = getting (\<lambda>e. map_option (\<lambda>(t, d, c). \<lparr>oi_directory = d, oi_token = Some t, oi_bytes = 0\<rparr>) (map_of e path))"

definition m_append :: "str \<Rightarrow> str \<Rightarrow> str \<Rightarrow> (memory, unit) run" where
  "m_append path token data = andthen (getting (\<lambda>e. map_of e path)) (\<lambda>found. case found of
     None \<Rightarrow> raising (Crashed ''FileNotFoundError'') | Some (t, d, c) \<Rightarrow> m_put path (t, d, c @ data))"

definition m_read :: "str \<Rightarrow> (memory, reading) run" where
  "m_read path = andthen (getting (\<lambda>e. map_of e path)) (\<lambda>found. case found of
     None \<Rightarrow> raising (Crashed ''FileNotFoundError'') | Some (t, d, c) \<Rightarrow> ret \<lparr>rd_pieces = [c], rd_fail = None\<rparr>)"

definition m_publish :: "str \<Rightarrow> str \<Rightarrow> str \<Rightarrow> (memory, unit) run" where
  "m_publish temp path token = andthen (getting (\<lambda>e. (map_of e temp, map_of e path))) (\<lambda>found. case found of
     (Some v, None) \<Rightarrow> andthen (changing (AList.delete temp)) (\<lambda>_. m_put path v)
   | (_, Some _) \<Rightarrow> raising (FileExists path)
   | _ \<Rightarrow> raising (Crashed ''FileNotFoundError''))"

definition m_list :: "str \<Rightarrow> (memory, str list) run" where
  "m_list root = getting (\<lambda>e. filter (\<lambda>p. strip_prefix (root @ ''/'') p \<noteq> None) (map fst e))"

definition m_sha :: "str \<Rightarrow> str" where
  "m_sha s = (if s = ''abc'' then w_digest else ''7'')"

definition m_port :: "memory port" where
  "m_port = \<lparr>po_check = (\<lambda>_ _ _. ret ()), po_inspect = m_inspect, po_mkdir = (\<lambda>path t. m_put path (t, True, [])),
     po_create = (\<lambda>path t. m_put path (t, False, [])), po_append = m_append, po_discard = (\<lambda>path t. changing (AList.delete path)),
     po_read = m_read, po_flush = (\<lambda>_. ret ()), po_publish = m_publish, po_list = m_list,
     po_shape = OpenPolled, po_opening = (\<lambda>_. []),
     po_open = (\<lambda>_. ret (w_snapshot flat, \<lparr>rd_pieces = [''ab'', ''c''], rd_fail = None\<rparr>)), po_close = (\<lambda>_. ret ()),
     po_preflight = None, po_begin = ret (), po_end = ret (), po_lease = ret True, po_retained = (\<lambda>_. ret False)\<rparr>"

definition m_session :: "(memory \<times> call list) session" where
  "m_session = \<lparr>su_sha = m_sha, su_root = ''/s'', su_others = (\<lambda>_. []), su_busy = (\<lambda>_. False),
     su_names = (\<lambda>n. replicate 32 (char_of (97 + n mod 6))), su_port = traced m_port, su_tx = ''t'', su_plan = w_plan, su_attempt = w_attempt\<rparr>"

definition m_world :: "(memory \<times> call list) world" where
  "m_world = \<lparr>wd_env = ([], []), wd_store = \<lparr>st_txs = [''t'' \<mapsto> w_row PApproved (0, '''')], st_owners = [], st_journal = []\<rparr>,
     wd_turn = 0, wd_fresh = 0, wd_lease = False, se_ops = [], se_head = None, se_paths = [], se_usage = (\<lambda>_. []),
     se_allocated = 0, se_verified = [], se_terminal = False, se_required = 0\<rparr>"

section \<open>Its plan\<close>

lemma m_sha_encode [simp]: "m_sha (encode v) = ''7''"
proof -
  obtain c r where e: "encode v = c # r" "kind_of c = json_kind v" using encode_kind by blast
  have "c \<noteq> CHR ''a''"
  proof
    assume a: "c = CHR ''a''"
    with e(2) have "json_kind v = KInt" by (simp add: kind_of_def dquote_def char_of_def eq_commute)
    then obtain i where "v = JInt i" by (cases v) (simp_all add: json_kind_def split: if_splits)
    with e(1) a json_int_hd [of i] show False by (auto simp: int_char_def is_digit_def)
  qed
  with e(1) show ?thesis by (simp add: m_sha_def)
qed

lemma m_hash [simp]: "json_hash m_sha v = ''7''"
  by (simp add: json_hash_def)

lemma m_load: "load (su_sha m_session) (wd_store m_world) (su_tx m_session) = Inr w_plan"
  by (simp add: m_session_def m_world_def load_row w_row_def plan_seal_def)

lemma m_names: "artifact_target w_plan (w_artifact flat) = ''out/a/b/m''" "control_path w_plan = ''.modelark-slice-owner''"
  "receipt_path w_plan = ''out/.modelark-slice-receipt.json''" "pv_closure (plan_proposal w_plan) = [w_artifact flat]"
  "plan_directories w_plan = [''out/a/b'', ''out/a'', ''out'']" "is_folder w_plan = False"
  unfolding w_plan_flat by code_simp+

lemma m_closed: "plan_closed w_plan"
  by (simp add: plan_closed_def plan_outputs_def m_names)

lemma m_log: "the_log m_world = []"
  by (simp add: m_world_def the_log_def)

section \<open>It keeps the promises of the ports\<close>

lemmas m_defs = m_put_def m_inspect_def m_append_def m_read_def m_publish_def m_list_def

interpretation m_destination: honest m_port map_of
proof (rule honest.intro)
  show "does (\<lambda>e. map_of e = V) (po_check m_port plan n r) (\<lambda>_ e. map_of e = V)" for V plan n r
    by (simp add: m_port_def runs_ret)
  show "does (\<lambda>e. map_of e = V) (po_inspect m_port path) (\<lambda>i e. map_of e = V \<and> shown (V path) i)" for V path
    by (auto simp: m_port_def m_inspect_def runs_def getting_def shown_def split: option.split)
  show "does (\<lambda>e. map_of e = V) (po_mkdir m_port path t) (\<lambda>_ e. map_of e = V(path \<mapsto> (t, True, [])))" for V path t
    by (simp add: m_port_def m_put_def runs_def changing_def update_conv')
  show "does (\<lambda>e. map_of e = V) (po_create m_port (staging q t) t) (\<lambda>_ e. map_of e = V(staging q t \<mapsto> (t, False, [])))" for V q t
    by (simp add: m_port_def m_put_def runs_def changing_def update_conv')
  show "does (\<lambda>e. map_of e = V) (po_append m_port (staging q t) t data) (\<lambda>_ e. map_of e = V(staging q t \<mapsto> (t, False, c @ data)))"
    if "V (staging q t) = Some (t, False, c)" for V q t c data
    using that by (auto simp: m_port_def m_append_def m_put_def runs_def changing_def andthen_def getting_def update_conv')
  show "does (\<lambda>e. map_of e = V) (po_discard m_port (staging q t) t) (\<lambda>_ e. map_of e = V(staging q t := None))" for V q t
    by (simp add: m_port_def runs_def changing_def delete_conv')
  show "does (\<lambda>e. map_of e = V) (po_read m_port path) (\<lambda>r e. map_of e = V \<and> rd_fail r = None \<and> reading_data r = c)"
    if "V path = Some (t, False, c)" for V path t c
    using that by (auto simp: m_port_def m_read_def runs_def andthen_def getting_def ret_def reading_data_def)
  show "does (\<lambda>e. map_of e = V) (po_flush m_port path) (\<lambda>_ e. map_of e = V)" for V path
    by (simp add: m_port_def runs_ret)
  show "does (\<lambda>e. map_of e = V) (po_publish m_port (staging path t) path t)
      (\<lambda>_ e. map_of e = V(path \<mapsto> (t, False, c)) \<or> map_of e = V(staging path t := None, path \<mapsto> (t, False, c)))"
    if "V (staging path t) = Some (t, False, c)" "V path = None" for V path t c
    using that by (auto simp: m_port_def m_publish_def m_put_def runs_def changing_def andthen_def getting_def update_conv' delete_conv')
  show "does (\<lambda>e. map_of e = V) (po_list m_port root) (\<lambda>ps e. map_of e = V \<and> list_all (\<lambda>q. V q \<noteq> None) ps)" for V root
    by (auto simp: m_port_def m_list_def runs_def getting_def list_all_iff dest!: weak_map_of_SomeI)
  show "does (\<lambda>e. map_of e = V) (po_begin m_port) (\<lambda>_ e. map_of e = V)" for V
    by (simp add: m_port_def runs_ret)
  show "does (\<lambda>e. map_of e = V) (po_end m_port) (\<lambda>_ e. map_of e = V)" for V
    by (simp add: m_port_def runs_ret)
  show "does (\<lambda>e. map_of e = V) (po_lease m_port) (\<lambda>free e. map_of e = V \<and> free)" for V
    by (simp add: m_port_def runs_ret)
  show "does (\<lambda>e. map_of e = V) m (\<lambda>_ e. map_of e = V)" if "po_preflight m_port = Some ms" "m \<in> set ms" for ms m V
    using that by (simp add: m_port_def)
qed

abbreviation m_view :: "memory \<times> call list \<Rightarrow> files" where
  "m_view e \<equiv> map_of (fst e)"

lemma m_honest: "honest (su_port m_session) m_view"
  using honest_traced [OF m_destination.honest_axioms] by (simp add: m_session_def)

lemma m_calm: "calm m_session"
  by (simp add: calm_def m_session_def)

lemma m_token: "token_ok (su_names m_session n)"
proof -
  have "n mod 6 < 6" by simp
  then consider "n mod 6 = 0" | "n mod 6 = 1" | "n mod 6 = 2" | "n mod 6 = 3" | "n mod 6 = 4" | "n mod 6 = 5" by linarith
  then show ?thesis by cases (simp_all add: m_session_def token_ok_def hex_text_def is_hex_def list_all_iff)
qed

text \<open>No name of the plan is a staging name.\<close>

lemma m_outputs: "plan_outputs w_plan = [''out/a/b/m'', ''.modelark-slice-owner'', ''out/.modelark-slice-receipt.json'']"
  by (simp add: plan_outputs_def m_names)

lemma m_apart: "list_all (\<lambda>q. take 7 (last (path_parts q)) \<noteq> ''.slice-'') (plan_outputs w_plan @ plan_directories w_plan)"
  "list_all (\<lambda>q. path_parts q \<noteq> []) (plan_outputs w_plan)" "layout_ok w_plan"
  unfolding m_outputs layout_ok_def m_names by code_simp+

lemma staging_apart:
  assumes "token_ok t" "list_all (\<lambda>q. take 7 (last (path_parts q)) \<noteq> ''.slice-'') names"
  shows "staging q t \<notin> set names"
proof
  assume "staging q t \<in> set names"
  with assms(2) have "take 7 (last (path_parts (staging q t))) \<noteq> ''.slice-''" by (simp add: list_all_iff)
  with staging_parts [OF assms(1), of q] show False by simp
qed

lemma m_fits: "plan_fits m_session w_plan"
proof -
  have "names_clear w_plan (su_names m_session k)" for k
    using staging_apart [OF m_token m_apart(1)] m_token by (simp add: names_clear_def list_all_iff)
  then show ?thesis by (simp add: plan_fits_def m_closed m_apart)
qed

lemma m_same: "same_source m_sha (w_artifact flat) (hd (ar_sources (w_artifact flat))) (w_snapshot flat) = Inr True"
  "ar_sources (w_artifact flat) = [hd (ar_sources (w_artifact flat))]"
  by code_simp+

lemma m_file: "ar_size (w_artifact flat) = 3" "ar_sha (w_artifact flat) = w_digest" "m_sha ''abc'' = w_digest"
  by code_simp+

lemma m_feeds: "feeds [''ab'', ''c''] ''abc''"
proof -
  have "feeds ([] :: str list) []" by (rule feeds_end [of _ 2 "[]"]) (simp add: QUANTUM_def)
  with feeds_more [of "[''ab'', ''c'']" 6 "''abc''" "[]" "[]"] show ?thesis by (simp add: QUANTUM_def)
qed

lemma m_served: "plan_served m_view m_session w_plan"
proof -
  have "serves map_of m_sha m_port (w_artifact flat) (hd (ar_sources (w_artifact flat)))"
    unfolding serves_def
  proof (intro allI conjI)
    fix V
    show "does (\<lambda>e. map_of e = V) (po_open m_port (hd (ar_sources (w_artifact flat)))) (\<lambda>(snap, r) e. map_of e = V
        \<and> same_source m_sha (w_artifact flat) (hd (ar_sources (w_artifact flat))) snap = Inr True
        \<and> rd_fail r = None \<and> (\<exists>data. feeds (rd_pieces r) data \<and> int (length data) = ar_size (w_artifact flat) \<and> m_sha data = ar_sha (w_artifact flat)))"
      using m_feeds by (auto simp: m_port_def runs_def ret_def m_same(1) m_file intro!: exI [of _ "''abc''"])
  qed (simp_all add: m_port_def runs_ret)
  from serves_traced [OF this] have "serves m_view (su_sha m_session) (su_port m_session) (w_artifact flat) (hd (ar_sources (w_artifact flat)))"
    by (simp add: m_session_def)
  moreover obtain c where "ar_sources (w_artifact flat) = [c]" by (rule that) (rule m_same(2))
  ultimately show ?thesis by (simp add: plan_served_def m_names)
qed

text \<open>The session that a successful \<open>start\<close> hands out is one of the locale's.\<close>

abbreviation m_attempt :: "(memory \<times> call list) session" where
  "m_attempt \<equiv> attempting (m_session\<lparr>su_plan := w_plan\<rparr>) ''k''"

lemma m_attempt_served: "served m_attempt m_view"
proof (rule served_attempt)
  show "plan_served m_view (m_session\<lparr>su_plan := w_plan\<rparr>) (su_plan (m_session\<lparr>su_plan := w_plan\<rparr>))"
    using m_served by (simp add: plan_served_def cong: list.case_cong)
qed (use m_honest m_calm m_fits in \<open>simp_all add: calm_def plan_fits_def\<close>)

interpretation m_alone: undisturbed m_attempt m_view
  by (rule served.axioms(1) [OF m_attempt_served])

interpretation m_delivery: served m_attempt m_view
  by (rule m_attempt_served)

lemma m_fresh: "approved_fresh m_sha ''t'' w_plan (wd_store m_world)" "device_id m_sha w_plan = ''usb''"
  by (simp_all add: approved_fresh_def m_world_def w_row_def owner_of_def conflict_def) (simp add: w_plan_def)

lemma m_required: "required_bytes m_sha w_plan ''/s'' = Inr 8003"
proof -
  have c: "control_json m_sha w_plan = control_json flat w_plan"
    by (intro ext) (simp add: control_json_def plan_seal_def)
  have r: "receipt_json m_sha w_plan = receipt_json flat w_plan"
    by (intro ext) (simp add: receipt_json_def plan_seal_def w_plan_def)
  have "metadata_sizes m_sha w_plan ''/s'' = metadata_sizes flat w_plan ''/s''"
    unfolding metadata_sizes_def c r by (rule refl)
  then show ?thesis using w_required by (simp add: required_bytes_def)
qed

lemma m_store: "store_ok m_sha (wd_store m_world)"
proof -
  have "claims_ok m_sha (wd_store m_world)"
    by (auto simp: claims_defs m_world_def claim_keys_def phase_at_def idle_def w_row_def plan_seal_def split: if_splits)
  moreover have "journal_ok m_sha (wd_store m_world)"
    by (auto simp: journal_ok_def m_world_def head_def tx_rows_def w_row_def)
  ultimately show ?thesis by (simp add: store_ok_def)
qed

section \<open>Witnesses\<close>

theorem delivery_confined_witness:
  "list_all (within_plan w_plan) (the_log (snd (delivery 5 (with_trace m_session m_port) m_world)))"
  by (rule delivery_confined [OF m_load m_closed m_log])

theorem publications_verified_witness:
  "publications_read m_sha w_plan (the_log (snd (delivery 5 (with_trace m_session m_port) m_world)))"
  using publications_verified [OF m_load m_closed m_log, of 5 m_port] by (simp add: m_session_def)

theorem delivery_completes_witness:
  "case delivery 2 m_session m_world of
      (Inr (Some st), w') \<Rightarrow> status_state st = PComplete \<and> finished_at m_view (m_session\<lparr>su_plan := w_plan\<rparr>) w'
    | _ \<Rightarrow> False"
proof (rule delivery_completes [OF m_honest m_calm m_fits m_served])
  show "required_bytes (su_sha m_session) w_plan (su_root m_session) = Inr 8003" using m_required by (simp add: m_session_def)
  show "m_view (wd_env m_world) = (\<lambda>_. None)" "\<not> wd_lease m_world" by (simp_all add: m_world_def fun_eq_iff)
qed (use m_store m_fresh in \<open>simp_all add: m_session_def m_names\<close>)

text \<open>A started session, and the same after its only file.\<close>

lemma m_traced: "with_trace m_session m_port = m_session"
  by (simp add: with_trace_def m_session_def)

lemma m_started:
  obtains t w where "start m_session m_world = (Inr (Inr (attempting (m_session\<lparr>su_plan := w_plan\<rparr>) t)), w)"
    "served (attempting (m_session\<lparr>su_plan := w_plan\<rparr>) t) m_view"
    "rest m_view (attempting (m_session\<lparr>su_plan := w_plan\<rparr>) t) PTransferring (at_first w_plan) w"
proof (rule start_goes [OF m_honest m_calm m_fits m_served])
  show "required_bytes (su_sha m_session) w_plan (su_root m_session) = Inr 8003" using m_required by (simp add: m_session_def)
  show "m_view (wd_env m_world) = (\<lambda>_. None)" "\<not> wd_lease m_world" by (simp_all add: m_world_def fun_eq_iff)
qed (use m_store m_fresh in \<open>simp_all add: m_session_def\<close>)

lemma m_stepped:
  assumes s: "served su m_view" and p: "su_plan su = w_plan" and w: "rest m_view su PTransferring (at_first w_plan) w"
  obtains w' where "finish su (snd (run_steps 1 su w)) = (Inr (), w')"
proof -
  note f = at_first_facts [OF m_closed]
  have left: "files_left w_plan (at_first w_plan) = 1" using f(2) by (simp add: m_names)
  then have more: "\<not> covers w_plan (at_first w_plan)" using files_left_covers [of w_plan "at_first w_plan"] by simp
  obtain r v where v: "step su w = (r, v)" by fastforce
  have "midway (su_plan su) (at_first w_plan)" using f(1) p by simp
  from served.step_ok [OF s this, unfolded runs_def, rule_format, OF w] v more p obtain st K where
    st: "r = Inr st" "status_state st = PTransferring" "file_step w_plan (at_first w_plan) K" "rest m_view su PTransferring K v"
    by (cases r) (auto simp: stepped_def)
  from file_step_left [OF st(3)] left have "files_left w_plan K = 0" by simp
  then have cov: "covers (su_plan su) K" using p files_left_covers by simp
  have mid: "midway (su_plan su) K" using file_step_midway [OF f(1) st(3) m_closed] p by simp
  have ran: "run_steps 1 su w = (Inr None, v)" using v st(1,2) by (simp add: andthen_def ret_def)
  obtain q w' where w': "finish su v = (q, w')" by fastforce
  with served.finish_ok [OF s mid cov, unfolded runs_def, rule_format, OF st(4)] have "q = Inr ()" by (cases q) simp_all
  with w' ran show thesis by (intro that [of w']) simp
qed

theorem session_well_typed_witness:
  "\<exists>su' w'. start (with_trace m_session m_port) m_world = (Inr (Inr su'), w')
    \<and> list_all (\<lambda>(path, op). operation_fault w_plan op = None \<and> to_path op = path) (se_ops (snd (run_steps 1 su' w')))"
proof -
  obtain t w where "start m_session m_world = (Inr (Inr (attempting (m_session\<lparr>su_plan := w_plan\<rparr>) t)), w)" by (rule m_started)
  then have s: "start (with_trace m_session m_port) m_world = (Inr (Inr (attempting (m_session\<lparr>su_plan := w_plan\<rparr>) t)), w)"
    by (simp add: m_traced)
  from s session_well_typed [OF m_load m_closed m_log s, of 1] show ?thesis by blast
qed

theorem finish_verifies_witness:
  "\<exists>su' w1 w2. start (with_trace m_session m_port) m_world = (Inr (Inr su'), w1)
    \<and> finish su' (snd (run_steps 1 su' w1)) = (Inr (), w2)
    \<and> read_back m_sha w_plan (pv_closure (plan_proposal w_plan)) (since (the_log (snd (run_steps 1 su' w1))) w2)
    \<and> (\<exists>files. list_all2 (receipt_entry w_plan) (pv_closure (plan_proposal w_plan)) files
        \<and> journal_has ''t'' ''receipt'' (receipt_json m_sha w_plan ''t'' files) (wd_store w2))
    \<and> phase_at (wd_store w2) ''t'' = Some PComplete \<and> \<not> wd_lease w2"
proof -
  obtain t w where t: "start m_session m_world = (Inr (Inr (attempting (m_session\<lparr>su_plan := w_plan\<rparr>) t)), w)"
    "served (attempting (m_session\<lparr>su_plan := w_plan\<rparr>) t) m_view"
    "rest m_view (attempting (m_session\<lparr>su_plan := w_plan\<rparr>) t) PTransferring (at_first w_plan) w" by (rule m_started)
  let ?su = "attempting (m_session\<lparr>su_plan := w_plan\<rparr>) t"
  have s: "start (with_trace m_session m_port) m_world = (Inr (Inr ?su), w)" using t(1) by (simp add: m_traced)
  obtain w2 where w2: "finish ?su (snd (run_steps 1 ?su w)) = (Inr (), w2)" by (rule m_stepped [OF t(2) _ t(3)]) simp
  have "su_sha m_session = m_sha" "su_tx m_session = ''t''" by (simp_all add: m_session_def)
  from s w2 finish_verifies [OF m_load m_closed m_log s w2, unfolded this] show ?thesis by blast
qed

end
