(* ===== verification/Spec2Isabelle.thy ===== *)
theory Spec2Isabelle
  imports Digest Manifest StreamZnn Codec Budgets Headroom Identity Evidence Candidates PlanInstances
    Placement Search SearchTree SearchLoop SearchSpec SearchResult SearchCompare GateB SearchInstances
    Reconcile Capacity CapacityPlan PlanGuarantees CapacityInstances
    Json FolderContract SliceDomain SlicePreview FatLayout SlicePlan SliceInstances
    SliceAuthority SliceStore SliceProtocol SliceClaims SliceAttempts SliceJournal SliceRefine StoreInstances
    SliceTransfer SliceSession SliceDelivery SliceRuns SliceSteps SliceTrace SliceConfined SliceVerified
    SlicePaths SliceHonest SliceProgress SliceCompletes SliceStart
    TransferInstances
begin

text \<open>
  ModelArk archives model repositories onto a fleet of drives and delivers selected files from the
  archive to other destinations. A plan selects repositories; the planner turns each into copy
  requirements, proves which copies already exist, enumerates where the others may go, and
  searches for a placement that fits what the drives are proven to hold. A slice delivers proven
  local copies to a USB drive or a folder under a durable transaction. This development models
  the planner, the slice store and its protocol, and the transfer engine that carries a delivery
  out (\<open>src/modelark\<close>), with the byte formats they depend on.

  \<^bold>\<open>Conventions.\<close> Python strings are character lists read as ASCII, so that \<open>lower\<close>, \<open>casefold\<close>,
  \<open>strip\<close> and the character classes are those of Python on ASCII text; integers are \<open>int\<close> or \<open>nat\<close>, floats
  are the rationals of \<open>PyFloat\<close> with every operation rounded to binary64. Dictionaries are
  association lists where order or duplicates matter and functions otherwise. An exception is the
  left side of a sum, and every raise of the source is a branch. SHA-256, ZipNN, Python's tuple
  hash, the emergency monitor and operating-system observations are parameters. A theorem that
  needs SHA-256 to be injective on the texts at hand ends in \<open>\<or> collision sha\<close>. Names are the
  source's where HOL allows it.

  \<^bold>\<open>Archive side\<close>, in the order of the imports.
  \<^item> \<open>Prelude\<close>, \<open>PyFloat\<close>: strings, dictionaries, sorting idioms, error-propagating maps; binary64
    (locale \<open>float_rounding\<close>, interpreted on the rounding used everywhere).
  \<^item> \<open>Digest\<close> (\<open>archive_hash.py\<close>): the rule that resolves the original-byte digest of a copy.
  \<^item> \<open>Manifest\<close> (\<open>archive_manifest.py\<close>, part of \<open>formats.py\<close>): the files of a restorable copy.
  \<^item> \<open>StreamZnn\<close> (\<open>streamznn.py\<close>): the container; round trip, truncation, delivery independence.
    Its loops are recursive functions whose measure is what is left of the input.
  \<^item> \<open>Codec\<close> (\<open>compress.py\<close>), \<open>Budgets\<close> (\<open>budgets.py\<close>), \<open>Headroom\<close> (\<open>capacity.py\<close>): codec choice and
    output caps, byte budgets, the safety floor.
  \<^item> \<open>Identity\<close> (\<open>capacity_evidence.py\<close>, \<open>drive_identity.py\<close>, \<open>serial_identity.py\<close>) and \<open>Evidence\<close>
    (\<open>capacity_evidence.py\<close>, \<open>admission.py\<close>): fingerprints, lock keys, the evidence rule. The locale
    \<open>evidence_source\<close> is what the planner relies on; the three accessors interpret it.
  \<^item> \<open>Candidates\<close> (\<open>candidates.py\<close>) and \<open>Reconcile\<close> (\<open>reconcile.py\<close>): requirements, proofs of copies,
    candidates, diagnostics.
  \<^item> \<open>Placement\<close>, \<open>Search\<close>, \<open>SearchTree\<close>, \<open>SearchLoop\<close>, \<open>SearchSpec\<close>, \<open>SearchResult\<close>, \<open>GateB\<close>
    (\<open>placement.py\<close>): structural checks, the search with its undo log (locale \<open>undo_node\<close>), its loop
    as an inductive step relation, the specification by feasible choices, and the verdicts. The
    loop is a recursive function; every turn enters a new state, of which the state limit allows
    finitely many, or shrinks the stack. \<open>SearchCompare\<close> runs two searches side by side: the
    feasibility search against the improvement search, and a watched one against an unwatched one.
  \<^item> \<open>Capacity\<close>, \<open>CapacityPlan\<close>, \<open>PlanGuarantees\<close> (\<open>capacity.py\<close>): the ledger and \<open>plan_capacity\<close>, and
    what a feasible plan guarantees end to end.

  \<^bold>\<open>Delivery side.\<close>
  \<^item> \<open>Json\<close>: the canonical JSON text that seals hash; \<open>encode_inj\<close> makes a seal identify its value.
  \<^item> \<open>FolderContract\<close> (\<open>slice/folder_contract.py\<close>), \<open>FatLayout\<close> (\<open>slice/fat32_layout.py\<close>): destination
    identities, their overlap, admissible FAT32 layouts.
  \<^item> \<open>SliceDomain\<close>, \<open>SlicePreview\<close> (\<open>slice/domain.py\<close>): snapshots, previews, approvals; what a sealed
    preview proves about its sources, its completeness and its output paths.
  \<^item> \<open>SlicePlan\<close> (\<open>slice/transaction.py\<close>, \<open>slice/folder_plan.py\<close>, \<open>slice/fat32_plan.py\<close>): the three plan
    classes as one datatype, seals, receipts and byte charges.
  \<^item> \<open>SliceAuthority\<close> (\<open>slice/authority.py\<close>, \<open>execution_authority.py\<close>): states, transitions, attempts.
  \<^item> \<open>SliceStore\<close> (\<open>slice/state.py\<close>): the SQLite store as a record of its three tables and every
    operation of \<open>Store\<close> as one function from store to refusal or new store.
  \<^item> \<open>SliceProtocol\<close>: operations as steps that processes run in any order, and elimination lemmas of
    what each does. \<open>SliceClaims\<close>: claims stay exclusive. \<open>SliceAttempts\<close>: the life of one row as an
    inductive relation, stop requests, one-shot plans, fencing. \<open>SliceJournal\<close>: the hash-chained
    journal. \<open>SliceRefine\<close>: an abstract lease automaton that the store refines, and progress: from
    every reachable store a running transaction can be resumed and completed.
  \<^item> \<open>SliceTransfer\<close>, \<open>SliceSession\<close>, \<open>SliceDelivery\<close> (\<open>slice/transaction.py\<close>, \<open>slice/authority.py\<close>): the
    transfer engine. A method is a program over a world (environment, store, attributes of the
    session) that ends with a result or an exception and keeps what it did before the exception, so
    that every world is one a crash may leave. Destination, sources and kernel lease are a record
    of functions, \<open>'e port\<close>, over an environment of any type. Before each access to the store other
    processes run any operations (\<open>su_others\<close>), and the access may find the database busy (\<open>su_busy\<close>).
    \<open>run\<close> may go on for ever where objects keep vanishing, so \<open>run_steps\<close> has fuel: \<open>None\<close> when it is
    spent. One step per file and one more are enough where nothing hinders (\<open>delivery_completes\<close>).
  \<^item> Safety of deliveries, for every port and every interference. \<open>SliceRuns\<close>: triples for programs.
    \<open>SliceSteps\<close>: the locales \<open>quiet\<close> and \<open>delivering\<close>, what a session keeps given what its primitive
    operations keep, lemma by lemma through the methods. \<open>SliceTrace\<close>: a port that logs its calls,
    and what may follow what in a log. \<open>SliceConfined\<close>, \<open>SliceVerified\<close>: the locales interpreted on the
    logging sessions; a delivery stays inside its plan, publishes only what it has read back, keeps
    its operations well typed, and finishes only what is verified.
  \<^item> Liveness of deliveries. \<open>SlicePaths\<close>: paths, parents and staging names. \<open>SliceHonest\<close>: the locale
    \<open>honest\<close>, what a destination port promises (the docstring of \<open>DestinationPort\<close>), and \<open>serves\<close> for
    a source; in the locale \<open>undisturbed\<close> no other process works on the store. \<open>SliceProgress\<close>: each
    method of such a session does its work. \<open>SliceCompletes\<close>: the locale \<open>served\<close>; a step delivers the
    next file, the last one finishes. \<open>SliceStart\<close>: from an approved transaction to the session. \<open>TransferInstances\<close> interprets them on a destination in memory.
  \<^item> \<open>PlanInstances\<close>, \<open>SearchInstances\<close>, \<open>CapacityInstances\<close>, \<open>SliceInstances\<close>, \<open>StoreInstances\<close>: the
    concrete inputs at which the theorems with hypotheses are applied.

  \<^bold>\<open>How the parts meet.\<close> \<open>plan_capacity\<close> calls \<open>reconcile_plan\<close> (candidates, evidence), builds the solver
  input, calls \<open>gate_b\<close> and projects its assignment; \<open>feasible_plan_within_budget\<close> and
  \<open>feasible_plan_complete\<close> are about that composition; \<open>improve\<close> then starts from Gate B's assignment
  (\<open>improve_never_worse\<close>). On the delivery side \<open>create\<close> of the store
  checks the approval of \<open>SliceDomain\<close> and the charge of \<open>SlicePlan\<close>; \<open>reserve\<close> (a read and a write
  transaction) compares the plan with every other claim by \<open>claims_overlap\<close>; \<open>complete\<close> reads the
  journal. A delivery runs these operations of the store between its calls of the ports, and the
  session rebuilds its operations from the journal by \<open>recorded\<close>. A source of a preview must pass
  the digest rule of \<open>Digest\<close> and carry the fingerprint of \<open>Identity\<close>.

  \<^bold>\<open>Not modelled.\<close> The catalog schema and every SQL statement outside the slice store
  (\<open>core/db.py\<close>), child processes and network (\<open>fetch.py\<close>, codec workers), git and git-annex
  publication, the scheduler that drives them (\<open>fill.py\<close>, \<open>execution_session.py\<close>), the web portal and
  the command line: their behaviour is system calls and other programs, for which the sources give
  no definition. The operating-system adapters of the slice destinations and sources are the
  parameters \<open>po_*\<close> of the transfer engine; the polls that a source makes inside one \<open>read\<close> are those
  around the read. JSON text decoding is the library's; records are modelled after decoding. The schema migrations of the slice store are not modelled:
  a store starts empty.
\<close>

end
